(* ===== verification/Prelude.thy ===== *)
theory Prelude
  imports Main "HOL-Library.Word"
begin

text \<open>
  Shared vocabulary of the development: byte strings as the C++ code sees them
  (\<open>std::string\<close> is a sequence of bytes, here a list of \<^typ>\<open>char\<close>), the searching and
  splitting routines of the standard library that the sources call, and the lemma
  collections the component theories extend.
\<close>

named_theorems search_simps "characterisations of the search routines"
named_theorems wf_intros "preservation lemmas of well-formedness invariants"

text \<open>The fixed-width unsigned integers of the sources.\<close>

type_synonym u8 = "8 word"
type_synonym u32 = "32 word"
type_synonym u64 = "64 word"

abbreviation byte :: "char \<Rightarrow> nat" where
  "byte c \<equiv> of_char c"

section \<open>Characters\<close>

text \<open>The classes of \<open><cctype>\<close> in the C locale, and the case conversions.\<close>

definition is_digit :: "char \<Rightarrow> bool" where
  "is_digit c \<longleftrightarrow> 48 \<le> byte c \<and> byte c \<le> 57"

definition is_upper :: "char \<Rightarrow> bool" where
  "is_upper c \<longleftrightarrow> 65 \<le> byte c \<and> byte c \<le> 90"

definition is_lower :: "char \<Rightarrow> bool" where
  "is_lower c \<longleftrightarrow> 97 \<le> byte c \<and> byte c \<le> 122"

definition is_alpha :: "char \<Rightarrow> bool" where
  "is_alpha c \<longleftrightarrow> is_upper c \<or> is_lower c"

definition to_lower :: "char \<Rightarrow> char" where
  "to_lower c = (if is_upper c then char_of (byte c + 32) else c)"

definition to_upper :: "char \<Rightarrow> char" where
  "to_upper c = (if is_lower c then char_of (byte c - 32) else c)"

lemma byte_less_256 [simp]: "byte c < 256"
  by (rule nat_of_char_less_256)

lemma byte_eq_iff [simp]: "byte c = byte d \<longleftrightarrow> c = d"
  by (rule of_char_eq_iff)

lemma byte_char_of [simp]: "n < 256 \<Longrightarrow> byte (char_of n) = n"
  by (simp add: of_char_of)

lemma to_upper_idem [simp]: "to_upper (to_upper c) = to_upper c"
proof (cases "is_lower c")
  case True
  then have "byte (to_upper c) = byte c - 32" and "byte c \<le> 122"
    by (auto simp: to_upper_def is_lower_def)
  then have "\<not> is_lower (to_upper c)" by (simp add: is_lower_def)
  then show ?thesis by (simp add: to_upper_def [of "to_upper c"])
qed (simp add: to_upper_def)

lemma to_lower_idem [simp]: "to_lower (to_lower c) = to_lower c"
proof (cases "is_upper c")
  case True
  then have "byte (to_lower c) = byte c + 32" and "65 \<le> byte c"
    by (auto simp: to_lower_def is_upper_def)
  then have "\<not> is_upper (to_lower c)" by (simp add: is_upper_def)
  then show ?thesis by (simp add: to_lower_def [of "to_lower c"])
qed (simp add: to_lower_def)

section \<open>Searching\<close>

text \<open>The first position at which a predicate holds: \<open>find\<close> of one character, \<open>find_if\<close>.\<close>

fun find_index :: "('a \<Rightarrow> bool) \<Rightarrow> 'a list \<Rightarrow> nat option" where
  "find_index P [] = None"
| "find_index P (x # xs) = (if P x then Some 0 else map_option Suc (find_index P xs))"

lemma find_index_None [search_simps]: "find_index P xs = None \<longleftrightarrow> (\<forall>x \<in> set xs. \<not> P x)"
  by (induction xs) auto

lemma find_index_Some:
  "find_index P xs = Some i \<longleftrightarrow> i < length xs \<and> P (xs ! i) \<and> (\<forall>j < i. \<not> P (xs ! j))"
proof (induction xs arbitrary: i)
  case (Cons x xs)
  show ?case
  proof (cases i)
    case 0
    then show ?thesis by auto
  next
    case (Suc k)
    with Cons.IH [of k] show ?thesis
      by (auto simp: less_Suc_eq_0_disj)
  qed
qed simp

lemma find_index_less: "find_index P xs = Some i \<Longrightarrow> i < length xs"
  by (simp add: find_index_Some)

lemma find_index_append:
  "find_index P (xs @ ys) = (case find_index P xs of Some i \<Rightarrow> Some i
     | None \<Rightarrow> map_option (\<lambda>i. length xs + i) (find_index P ys))"
proof (induction xs)
  case Nil
  show ?case by (cases "find_index P ys") auto
next
  case (Cons x xs)
  then show ?case
    by (cases "find_index P xs"; cases "find_index P ys") auto
qed

lemma find_index_takeWhile:
  "find_index P xs = Some i \<Longrightarrow> take i xs = takeWhile (\<lambda>x. \<not> P x) xs"
  by (induction xs arbitrary: i) (auto split: if_splits)

text \<open>The first occurrence of a substring: \<open>std::string::find\<close>.\<close>

fun find_sub :: "'a list \<Rightarrow> 'a list \<Rightarrow> nat option" where
  "find_sub pat [] = (if pat = [] then Some 0 else None)"
| "find_sub pat (x # xs) =
     (if take (length pat) (x # xs) = pat then Some 0 else map_option Suc (find_sub pat xs))"

lemma find_sub_Some_split:
  "find_sub pat s = Some i \<Longrightarrow> s = take i s @ pat @ drop (i + length pat) s"
proof (induction s arbitrary: i)
  case Nil
  then show ?case by (simp split: if_splits)
next
  case (Cons x xs)
  show ?case
  proof (cases "take (length pat) (x # xs) = pat")
    case True
    with Cons.prems have "i = 0" by simp
    with True show ?thesis by (metis append_Nil append_take_drop_id take0 add_0)
  next
    case False
    with Cons.prems obtain k where "i = Suc k" and "find_sub pat xs = Some k" by auto
    with Cons.IH [of k] show ?thesis by simp
  qed
qed

lemma find_sub_bound:
  assumes "find_sub pat s = Some i"
  shows "i + length pat \<le> length s"
  using assms
proof (induction s arbitrary: i)
  case (Cons x xs)
  show ?case
  proof (cases "take (length pat) (x # xs) = pat")
    case True
    then have "length pat \<le> length (x # xs)"
      by (metis length_take min.cobounded1)
    with True Cons.prems show ?thesis by simp
  next
    case False
    with Cons show ?thesis by auto
  qed
qed (simp split: if_splits)

text \<open>\<open>s.find(x, pos)\<close>: the search starts at \<open>pos\<close> and the answer is an index of \<open>s\<close>.\<close>

definition find_index_from :: "('a \<Rightarrow> bool) \<Rightarrow> nat \<Rightarrow> 'a list \<Rightarrow> nat option" where
  "find_index_from P pos xs = map_option ((+) pos) (find_index P (drop pos xs))"

definition find_sub_from :: "'a list \<Rightarrow> nat \<Rightarrow> 'a list \<Rightarrow> nat option" where
  "find_sub_from pat pos xs =
     (if pos \<le> length xs then map_option ((+) pos) (find_sub pat (drop pos xs)) else None)"

lemma find_index_from_bounds:
  "find_index_from P pos xs = Some i \<Longrightarrow> pos \<le> i \<and> i < length xs \<and> P (xs ! i)"
  by (auto simp: find_index_from_def find_index_Some)

lemma find_sub_from_bounds:
  "find_sub_from pat pos xs = Some i \<Longrightarrow> pos \<le> i \<and> i + length pat \<le> length xs"
  by (auto simp: find_sub_from_def dest!: find_sub_bound split: if_splits)

section \<open>Splitting\<close>

text \<open>
  \<open>while (std::getline(stream, piece, d))\<close>: an empty rest yields no further piece, so a
  trailing delimiter produces no empty last piece.
\<close>

function getline_all :: "'a \<Rightarrow> 'a list \<Rightarrow> 'a list list" where
  "getline_all d s =
     (if s = [] then []
      else takeWhile (\<lambda>c. c \<noteq> d) s # getline_all d (drop 1 (dropWhile (\<lambda>c. c \<noteq> d) s)))"
  by pat_completeness auto
termination
proof (relation "measure (\<lambda>(d, s). length s)")
  fix d :: 'a and s :: "'a list"
  assume "s \<noteq> []"
  then have "length (drop 1 (dropWhile (\<lambda>c. c \<noteq> d) s)) < length s"
    using length_dropWhile_le [of "\<lambda>c. c \<noteq> d" s]
    by (simp del: dropWhile_eq_Nil_conv) (metis One_nat_def diff_less le_imp_less_Suc less_eq_Suc_le
        length_greater_0_conv less_imp_diff_less not_less_eq diff_is_0_eq' nat_less_le)
  then show "((d, drop 1 (dropWhile (\<lambda>c. c \<noteq> d) s)), (d, s)) \<in> measure (\<lambda>(d, s). length s)"
    by simp
qed simp

declare getline_all.simps [simp del]

lemma getline_all_Nil [simp]: "getline_all d [] = []"
  by (subst getline_all.simps) simp

lemma getline_all_no_delim [simp]: "d \<notin> set s \<Longrightarrow> s \<noteq> [] \<Longrightarrow> getline_all d s = [s]"
proof -
  assume "d \<notin> set s" and "s \<noteq> []"
  then have "takeWhile (\<lambda>c. c \<noteq> d) s = s" "dropWhile (\<lambda>c. c \<noteq> d) s = []"
    by (auto simp: takeWhile_eq_all_conv dropWhile_eq_Nil_conv)
  with \<open>s \<noteq> []\<close> show ?thesis by (simp add: getline_all.simps [of d s] del: dropWhile_eq_Nil_conv)
qed

lemma getline_all_app [simp]:
  "d \<notin> set s \<Longrightarrow> getline_all d (s @ d # t) = s # getline_all d t"
  by (subst getline_all.simps) (simp add: takeWhile_append dropWhile_append)

lemma getline_all_pieces: "p \<in> set (getline_all d s) \<Longrightarrow> d \<notin> set p"
proof (induction d s rule: getline_all.induct)
  case (1 d s)
  show ?case
  proof (cases "s = []")
    case False
    with "1.prems" have "p = takeWhile (\<lambda>c. c \<noteq> d) s \<or>
        p \<in> set (getline_all d (drop 1 (dropWhile (\<lambda>c. c \<noteq> d) s)))"
      by (subst (asm) getline_all.simps) auto
    with "1.IH" [OF False] show ?thesis by (auto dest: set_takeWhileD)
  qed (use "1.prems" in simp)
qed

text \<open>Pieces written with a separator between them.\<close>

fun sep_by :: "string \<Rightarrow> string list \<Rightarrow> string" where
  "sep_by d [] = []"
| "sep_by d [x] = x"
| "sep_by d (x # xs) = x @ d @ sep_by d xs"

lemma sep_by_Cons: "xs \<noteq> [] \<Longrightarrow> sep_by d (x # xs) = x @ d @ sep_by d xs"
  by (cases xs) auto

section \<open>The first matching element of a vector, replaced in place\<close>

fun update_first :: "('a \<Rightarrow> bool) \<Rightarrow> ('a \<Rightarrow> 'a) \<Rightarrow> 'a list \<Rightarrow> 'a list" where
  "update_first P f [] = []"
| "update_first P f (x # xs) = (if P x then f x # xs else x # update_first P f xs)"

lemma length_update_first [simp]: "length (update_first P f xs) = length xs"
  by (induction xs) auto

lemma update_first_no_match: "find P xs = None \<Longrightarrow> update_first P f xs = xs"
  by (induction xs) (auto split: if_splits)

lemma find_update_first_same:
  "find P xs = Some x \<Longrightarrow> P (f x) \<Longrightarrow> find P (update_first P f xs) = Some (f x)"
  by (induction xs) (auto split: if_splits)

lemma find_update_first_other:
  "(\<And>x. P x \<Longrightarrow> \<not> Q x \<and> \<not> Q (f x)) \<Longrightarrow> find Q (update_first P f xs) = find Q xs"
  by (induction xs) auto

lemma find_Some_iff_split:
  "find P xs = Some x \<longleftrightarrow> (\<exists>us vs. xs = us @ x # vs \<and> P x \<and> (\<forall>u \<in> set us. \<not> P u))"
proof
  assume "find P xs = Some x"
  then show "\<exists>us vs. xs = us @ x # vs \<and> P x \<and> (\<forall>u \<in> set us. \<not> P u)"
  proof (induction xs)
    case (Cons y ys)
    show ?case
    proof (cases "P y")
      case True
      with Cons.prems have "y # ys = [] @ x # ys \<and> P x" by simp
      then show ?thesis by fastforce
    next
      case False
      with Cons obtain us vs where "ys = us @ x # vs" "P x" "\<forall>u \<in> set us. \<not> P u" by auto
      with False have "y # ys = (y # us) @ x # vs \<and> P x \<and> (\<forall>u \<in> set (y # us). \<not> P u)" by simp
      then show ?thesis by blast
    qed
  qed simp
next
  assume "\<exists>us vs. xs = us @ x # vs \<and> P x \<and> (\<forall>u \<in> set us. \<not> P u)"
  then obtain us vs where "xs = us @ x # vs" "P x" "\<forall>u \<in> set us. \<not> P u" by blast
  then show "find P xs = Some x" by (induction us arbitrary: xs) auto
qed

lemma find_SomeD: "find P xs = Some x \<Longrightarrow> x \<in> set xs \<and> P x"
  by (auto simp: find_Some_iff_split)

section \<open>Codecs\<close>

text \<open>
  The contract of an encoder and its decoder: every value of the domain is read back.  The
  encoder is then injective on the domain, and the decoder accepts all it writes.
\<close>

locale codec =
  fixes enc :: "'a \<Rightarrow> 'b" and dec :: "'b \<Rightarrow> 'a option" and dom :: "'a \<Rightarrow> bool"
  assumes dec_enc: "dom x \<Longrightarrow> dec (enc x) = Some x"
begin

lemma enc_inject: "dom x \<Longrightarrow> dom y \<Longrightarrow> enc x = enc y \<longleftrightarrow> x = y"
  by (metis dec_enc option.inject)

lemma enc_inj_on: "inj_on enc {x. dom x}"
  by (rule inj_onI) (simp add: enc_inject)

lemma dec_accepts: "dom x \<Longrightarrow> dec (enc x) \<noteq> None"
  by (simp add: dec_enc)

end

section \<open>Incremental parsers\<close>

text \<open>
  A parser that appends every chunk it receives to its state and then runs steps until it
  needs more input or stops for good.  A step taken on some input is the same step with more
  input behind it; then the bytes may arrive in any chunks.
\<close>

locale stream_parser =
  fixes step :: "'s \<Rightarrow> 's option"
    and drain :: "'s \<Rightarrow> 's"
    and app :: "'b list \<Rightarrow> 's \<Rightarrow> 's"
    and live :: "'s \<Rightarrow> bool"
    and size_of :: "'s \<Rightarrow> nat"
  assumes step_smaller: "step s = Some s' \<Longrightarrow> size_of s' < size_of s"
    and drain_step: "step s = Some s' \<Longrightarrow> drain s = drain s'"
    and step_app: "step s = Some s' \<Longrightarrow> step (app b s) = Some (app b s')"
    and drain_wait: "step s = None \<Longrightarrow> live (drain s) \<Longrightarrow> drain s = s"
    and drain_stop: "step s = None \<Longrightarrow> \<not> live (drain s) \<Longrightarrow> \<not> live (drain (app b s))"
    and app_app: "app b (app a s) = app (a @ b) s"
    and app_Nil: "app [] s = s"
begin

definition feed :: "'b list \<Rightarrow> 's \<Rightarrow> 's" where
  "feed b s = drain (app b s)"

lemma drain_app: "live (drain s) \<Longrightarrow> drain (app b (drain s)) = drain (app b s)"
proof (induction "size_of s" arbitrary: s rule: less_induct)
  case less
  show ?case
  proof (cases "step s")
    case None
    show ?thesis by (simp only: drain_wait [OF None less.prems])
  next
    case (Some s')
    then have "drain (app b (drain s')) = drain (app b s')"
      using less.prems by (intro less.hyps) (auto simp: step_smaller drain_step)
    with Some show ?thesis by (simp add: drain_step step_app)
  qed
qed

lemma drain_app_stopped: "\<not> live (drain s) \<Longrightarrow> \<not> live (drain (app b s))"
proof (induction "size_of s" arbitrary: s rule: less_induct)
  case less
  show ?case
  proof (cases "step s")
    case None
    with less.prems show ?thesis by (simp add: drain_stop)
  next
    case (Some s')
    then have "\<not> live (drain (app b s'))"
      using less.prems by (intro less.hyps) (auto simp: step_smaller drain_step)
    with Some show ?thesis by (simp add: drain_step [OF step_app])
  qed
qed

lemma feed_feed: "live (feed a s) \<Longrightarrow> feed b (feed a s) = feed (a @ b) s"
  by (simp add: feed_def drain_app app_app)

lemma feed_prefix_live: "live (feed (a @ b) s) \<Longrightarrow> live (feed a s)"
  using drain_app_stopped [of "app a s" b] by (auto simp: feed_def app_app)

lemma feed_chunks: "live (feed (concat cs) s) \<Longrightarrow> fold feed cs (feed [] s) = feed (concat cs) s"
proof (induction cs rule: rev_induct)
  case (snoc c cs)
  then have "live (feed (concat cs) s)" using feed_prefix_live by simp
  with snoc show ?case by (simp add: feed_feed)
qed simp

end

section \<open>Decimal numerals\<close>

definition digit_char :: "nat \<Rightarrow> char" where
  "digit_char d = char_of (48 + d)"

fun nat_dec :: "nat \<Rightarrow> string" where
  "nat_dec n = (if n < 10 then [digit_char n] else nat_dec (n div 10) @ [digit_char (n mod 10)])"

declare nat_dec.simps [simp del]

definition int_dec :: "int \<Rightarrow> string" where
  "int_dec i = (if i < 0 then CHR ''-'' # nat_dec (nat (- i)) else nat_dec (nat i))"

text \<open>The value of a run of digits, as the number parsers accumulate it.\<close>

definition dec_value :: "string \<Rightarrow> nat" where
  "dec_value s = fold (\<lambda>c n. n * 10 + (byte c - 48)) s 0"

lemma byte_digit_char [simp]: "d < 10 \<Longrightarrow> byte (digit_char d) = 48 + d"
  by (simp add: digit_char_def)

lemma is_digit_digit_char [simp]: "d < 10 \<Longrightarrow> is_digit (digit_char d)"
  by (simp add: is_digit_def)

lemma nat_dec_not_Nil [simp]: "nat_dec n \<noteq> []"
  by (subst nat_dec.simps) simp

lemma nat_dec_digits: "list_all is_digit (nat_dec n)"
proof (induction n rule: nat_dec.induct)
  case (1 n)
  then show ?case by (subst nat_dec.simps) simp
qed

lemma dec_value_snoc: "dec_value (s @ [c]) = dec_value s * 10 + (byte c - 48)"
  by (simp add: dec_value_def)

lemma dec_value_nat_dec [simp]: "dec_value (nat_dec n) = n"
proof (induction n rule: nat_dec.induct)
  case (1 n)
  show ?case
  proof (cases "n < 10")
    case True
    then show ?thesis by (subst nat_dec.simps) (simp add: dec_value_def)
  next
    case False
    with 1 show ?thesis by (subst nat_dec.simps) (simp add: dec_value_snoc)
  qed
qed

lemma hd_nat_dec: "n \<noteq> 0 \<Longrightarrow> hd (nat_dec n) \<noteq> CHR ''0''"
proof (induction n rule: nat_dec.induct)
  case (1 n)
  show ?case
  proof (cases "n < 10")
    case True
    then have "byte (digit_char n) \<noteq> byte (CHR ''0'')" using "1.prems" by simp
    then have "digit_char n \<noteq> CHR ''0''" by metis
    with True show ?thesis by (subst nat_dec.simps) simp
  next
    case False
    with 1 have "hd (nat_dec (n div 10)) \<noteq> CHR ''0''" by simp
    with False show ?thesis by (subst nat_dec.simps) simp
  qed
qed

lemma nat_dec_0 [simp]: "nat_dec 0 = ''0''"
  by code_simp

section \<open>Words and characters\<close>

lemma nat_high_bits: "m < 2 ^ k \<Longrightarrow> k \<le> n \<Longrightarrow> \<not> bit (m :: nat) n"
  by (metis bit_take_bit_iff leD take_bit_nat_eq_self)

lemma of_char_word: "(of_char c :: 'a :: len word) = of_nat (byte c)"
  by (simp add: of_nat_of_char)

lemma byte_inject: "byte c = n \<Longrightarrow> n < 256 \<Longrightarrow> c = char_of n"
  by auto

end
