(* ===== verification/Containers.thy ===== *)
theory Containers
  imports Prelude
begin

text \<open>
  The string-keyed containers of the program and the interface their clients use.
  \<open>Value::Dict\<close> (value.hpp) keeps its entries in a vector in insertion order and adds a
  hash index once it holds more than \<open>kUmbral\<close> keys; \<open>std::unordered_map\<close> is an
  association list here.  Clients see both through the locale \<open>kv_store\<close>.
\<close>

section \<open>The interface\<close>

locale kv_store =
  fixes empty :: "'m"
    and get :: "'m \<Rightarrow> 'k \<Rightarrow> 'v option"
    and put :: "'k \<Rightarrow> 'v \<Rightarrow> 'm \<Rightarrow> 'm"
    and keys :: "'m \<Rightarrow> 'k list"
    and inv :: "'m \<Rightarrow> bool"
  assumes inv_empty: "inv empty"
    and inv_put: "inv m \<Longrightarrow> inv (put k v m)"
    and get_empty: "get empty k = None"
    and get_put: "inv m \<Longrightarrow> get (put k v m) k' = (if k' = k then Some v else get m k')"
    and keys_get: "inv m \<Longrightarrow> k \<in> set (keys m) \<longleftrightarrow> get m k \<noteq> None"
    and distinct_keys: "inv m \<Longrightarrow> distinct (keys m)"
begin

lemma inv_put_all: "inv m \<Longrightarrow> inv (fold (\<lambda>(k, v). put k v) kvs m)"
  by (induction kvs arbitrary: m) (auto intro: inv_put)

lemma get_put_all:
  "inv m \<Longrightarrow> get (fold (\<lambda>(k, v). put k v) kvs m) k
     = (case map_of (rev kvs) k of Some v \<Rightarrow> Some v | None \<Rightarrow> get m k)"
proof (induction kvs arbitrary: m)
  case (Cons kv kvs)
  obtain k' v' where "kv = (k', v')" by (cases kv)
  with Cons show ?case
    by (auto simp: get_put inv_put map_add_def split: option.splits)
qed simp

lemma get_put_all_empty: "get (fold (\<lambda>(k, v). put k v) kvs empty) k = map_of (rev kvs) k"
  by (simp add: get_put_all inv_empty get_empty split: option.splits)

lemma put_idem: "inv m \<Longrightarrow> get (put k v (put k w m)) k' = get (put k v m) k'"
  by (simp add: get_put inv_put)

lemma put_commute:
  "inv m \<Longrightarrow> k \<noteq> l \<Longrightarrow> get (put k v (put l w m)) k' = get (put l w (put k v m)) k'"
  by (simp add: get_put inv_put)

end

text \<open>A store that also promises insertion order, as \<open>Value::Dict\<close> does.\<close>

locale ordered_kv_store = kv_store +
  assumes keys_empty: "keys empty = []"
    and keys_put: "inv m \<Longrightarrow> keys (put k v m) = (if k \<in> set (keys m) then keys m else keys m @ [k])"
begin

lemma keys_put_all:
  "inv m \<Longrightarrow> distinct (map fst kvs) \<Longrightarrow> set (map fst kvs) \<inter> set (keys m) = {} \<Longrightarrow>
   keys (fold (\<lambda>(k, v). put k v) kvs m) = keys m @ map fst kvs"
proof (induction kvs arbitrary: m)
  case (Cons kv kvs)
  obtain k v where kv: "kv = (k, v)" by (cases kv)
  with Cons.prems have k: "k \<notin> set (keys m)" by simp
  have "keys (fold (\<lambda>(k, v). put k v) kvs (put k v m)) = keys (put k v m) @ map fst kvs"
    by (rule Cons.IH) (use Cons.prems kv k in \<open>auto simp: inv_put keys_put\<close>)
  with kv k Cons.prems show ?case by (simp add: keys_put)
qed simp

lemma keys_put_all_empty:
  "distinct (map fst kvs) \<Longrightarrow> keys (fold (\<lambda>(k, v). put k v) kvs empty) = map fst kvs"
  by (simp add: keys_put_all inv_empty keys_empty)

end

section \<open>Association lists: \<open>std::unordered_map\<close>\<close>

text \<open>\<open>m[k] = v\<close> replaces the entry of \<open>k\<close> or adds one; \<open>emplace\<close> keeps an existing one.\<close>

fun al_put :: "'k \<Rightarrow> 'v \<Rightarrow> ('k \<times> 'v) list \<Rightarrow> ('k \<times> 'v) list" where
  "al_put k v [] = [(k, v)]"
| "al_put k v ((k', v') # m) = (if k' = k then (k, v) # m else (k', v') # al_put k v m)"

definition al_emplace :: "'k \<Rightarrow> 'v \<Rightarrow> ('k \<times> 'v) list \<Rightarrow> ('k \<times> 'v) list" where
  "al_emplace k v m = (case map_of m k of None \<Rightarrow> m @ [(k, v)] | Some _ \<Rightarrow> m)"

definition al_erase :: "'k \<Rightarrow> ('k \<times> 'v) list \<Rightarrow> ('k \<times> 'v) list" where
  "al_erase k m = filter (\<lambda>(k', v). k' \<noteq> k) m"

lemma map_of_al_put [simp]: "map_of (al_put k v m) = (map_of m)(k \<mapsto> v)"
  by (induction m) auto

lemma keys_al_put:
  "map fst (al_put k v m) = (if k \<in> set (map fst m) then map fst m else map fst m @ [k])"
  by (induction k v m rule: al_put.induct) auto

lemma set_keys_al_put [simp]: "set (map fst (al_put k v m)) = insert k (set (map fst m))"
  by (auto simp: keys_al_put simp del: set_map)

lemma al_put_fresh: "k \<notin> set (map fst m) \<Longrightarrow> al_put k v m = m @ [(k, v)]"
  by (induction m) auto

lemma distinct_al_put: "distinct (map fst m) \<Longrightarrow> distinct (map fst (al_put k v m))"
  by (simp add: keys_al_put del: set_map)

lemma map_of_al_emplace:
  "map_of (al_emplace k v m) k' = (if k' = k \<and> map_of m k = None then Some v else map_of m k')"
  by (auto simp: al_emplace_def map_add_def split: option.splits)

lemma map_of_al_erase [simp]: "map_of (al_erase k m) = (map_of m)(k := None)"
  by (induction m) (auto simp: al_erase_def)

interpretation al: ordered_kv_store "[] :: ('k \<times> 'v) list" map_of al_put "map fst"
  "\<lambda>m. distinct (map fst m)"
proof (unfold_locales, goal_cases)
  case (5 m k)
  show ?case by (auto simp: map_of_eq_None_iff)
qed (auto simp: distinct_al_put keys_al_put simp del: set_map)

section \<open>\<open>Value::Dict\<close>: a vector with a hash index above a threshold\<close>

text \<open>
  \<open>d_v\<close> is the vector \<open>v_\<close> of pairs, \<open>d_idx\<close> the index \<open>idx_\<close> from keys to positions.
  The index exists only once the vector has outgrown \<open>kUmbral\<close>; an empty index means that
  \<open>find\<close> walks the vector.
\<close>

datatype 'v dict = Dict (d_v: "(string \<times> 'v) list") (d_idx: "(string \<times> nat) list")

definition kUmbral :: nat where
  "kUmbral = 16"

definition dict_empty :: "'v dict" where
  "dict_empty = Dict [] []"

definition dict_size :: "'v dict \<Rightarrow> nat" where
  "dict_size d = length (d_v d)"

definition dict_keys :: "'v dict \<Rightarrow> string list" where
  "dict_keys d = map fst (d_v d)"

text \<open>\<open>indexar\<close>: clear the index and emplace every key with its position.\<close>

definition dict_indexar :: "'v dict \<Rightarrow> 'v dict" where
  "dict_indexar d =
     Dict (d_v d) (fold (\<lambda>(i, kv) m. al_emplace (fst kv) i m) (enumerate 0 (d_v d)) [])"

text \<open>\<open>find\<close>: the position of the entry, through the index when there is one.\<close>

definition dict_find_pos :: "'v dict \<Rightarrow> string \<Rightarrow> nat option" where
  "dict_find_pos d k =
     (if d_idx d \<noteq> [] then map_of (d_idx d) k else find_index (\<lambda>kv. fst kv = k) (d_v d))"

definition dict_get :: "'v dict \<Rightarrow> string \<Rightarrow> 'v option" where
  "dict_get d k = map_option (\<lambda>i. snd (d_v d ! i)) (dict_find_pos d k)"

definition dict_count :: "'v dict \<Rightarrow> string \<Rightarrow> nat" where
  "dict_count d k = (case dict_find_pos d k of None \<Rightarrow> 0 | Some _ \<Rightarrow> 1)"

text \<open>
  \<open>d[k] = v\<close>: \<open>operator[]\<close> yields the slot of \<open>k\<close>, appending one (and extending or
  building the index) when there is none, and the assignment writes \<open>v\<close> there.
\<close>

definition dict_put :: "string \<Rightarrow> 'v \<Rightarrow> 'v dict \<Rightarrow> 'v dict" where
  "dict_put k v d =
     (case dict_find_pos d k of
        Some i \<Rightarrow> Dict ((d_v d)[i := (fst (d_v d ! i), v)]) (d_idx d)
      | None \<Rightarrow>
          (let vs = d_v d @ [(k, v)]
           in if d_idx d \<noteq> [] then Dict vs (al_emplace k (length vs - 1) (d_idx d))
              else if length vs > kUmbral then dict_indexar (Dict vs [])
              else Dict vs []))"

text \<open>
  The representation invariant: keys are distinct, and an index that exists maps each key
  to its position and nothing else.
\<close>

definition idx_ok :: "(string \<times> 'v) list \<Rightarrow> (string \<times> nat) list \<Rightarrow> bool" where
  "idx_ok vs ix \<longleftrightarrow> (\<forall>k. map_of ix k = find_index (\<lambda>kv. fst kv = k) vs)"

definition dict_inv :: "'v dict \<Rightarrow> bool" where
  "dict_inv d \<longleftrightarrow> distinct (map fst (d_v d)) \<and>
     (d_idx d \<noteq> [] \<longrightarrow> idx_ok (d_v d) (d_idx d)) \<and> (d_idx d = [] \<longrightarrow> length (d_v d) \<le> kUmbral)"

lemma find_index_keys:
  "find_index (\<lambda>kv. fst kv = k) vs = None \<longleftrightarrow> k \<notin> set (map fst vs)"
  by (auto simp: find_index_None)

lemma map_of_find_index:
  "map_of vs k = map_option (\<lambda>i. snd (vs ! i)) (find_index (\<lambda>kv. fst kv = k) vs)"
  by (induction vs) (auto simp: option.map_comp o_def)

lemma dict_find_pos_linear:
  "dict_inv d \<Longrightarrow> dict_find_pos d k = find_index (\<lambda>kv. fst kv = k) (d_v d)"
  by (simp add: dict_find_pos_def dict_inv_def idx_ok_def)

lemma dict_get_linear: "dict_inv d \<Longrightarrow> dict_get d k = map_of (d_v d) k"
  by (simp add: dict_get_def dict_find_pos_linear map_of_find_index)

lemma idx_ok_snoc:
  assumes "idx_ok vs ix" and "k \<notin> set (map fst vs)"
  shows "idx_ok (vs @ [(k, v)]) (al_emplace k (length vs) ix)"
proof -
  from assms have "map_of ix k = None"
    by (simp add: idx_ok_def find_index_keys del: set_map)
  moreover from assms have "find_index (\<lambda>kv. fst kv = k) vs = None"
    by (simp add: find_index_keys del: set_map)
  ultimately show ?thesis
    using assms(1) by (auto simp: idx_ok_def map_of_al_emplace find_index_append split: option.splits)
qed

lemma indexar_ok:
  "distinct (map fst vs) \<Longrightarrow>
   idx_ok vs (fold (\<lambda>(i, kv) m. al_emplace (fst kv) i m) (enumerate 0 vs) [])"
proof (induction vs rule: rev_induct)
  case (snoc kv vs)
  then show ?case
    using idx_ok_snoc [of vs _ "fst kv" "snd kv"]
    by (auto simp: enumerate_append_eq)
qed (simp add: idx_ok_def)

lemma idx_ok_update:
  "idx_ok vs ix \<Longrightarrow> i < length vs \<Longrightarrow> idx_ok (vs[i := (fst (vs ! i), v)]) ix"
proof -
  assume ok: "idx_ok vs ix" and i: "i < length vs"
  have "find_index (\<lambda>kv. fst kv = k) (vs[i := (fst (vs ! i), v)]) = find_index (\<lambda>kv. fst kv = k) vs"
    for k using i by (induction vs arbitrary: i) (auto split: nat.splits)
  with ok show ?thesis by (simp add: idx_ok_def)
qed

lemma keys_update:
  "i < length vs \<Longrightarrow> map fst (vs[i := (fst (vs ! i), v)]) = map fst vs"
  by (simp add: map_update list_update_same_conv)

lemma al_emplace_not_Nil [simp]: "al_emplace k v m \<noteq> []"
  by (auto simp: al_emplace_def split: option.splits)

lemma dict_put_entries:
  assumes "dict_inv d"
  shows "d_v (dict_put k v d) = al_put k v (d_v d)"
proof (cases "dict_find_pos d k")
  case None
  with assms have k: "k \<notin> set (map fst (d_v d))"
    by (simp add: dict_find_pos_linear find_index_keys del: set_map)
  then have "al_put k v (d_v d) = d_v d @ [(k, v)]"
    by (rule al_put_fresh)
  with None show ?thesis by (simp add: dict_put_def Let_def dict_indexar_def)
next
  case (Some i)
  with assms have i: "find_index (\<lambda>kv. fst kv = k) (d_v d) = Some i"
    by (simp add: dict_find_pos_linear)
  have "al_put k v vs = vs[i := (fst (vs ! i), v)]"
    if "find_index (\<lambda>kv. fst kv = k) vs = Some i" for vs i
    using that by (induction vs arbitrary: i) (auto split: if_splits)
  with Some i show ?thesis by (simp add: dict_put_def)
qed

lemma dict_inv_empty [simp]: "dict_inv dict_empty"
  by (simp add: dict_inv_def dict_empty_def)

lemma dict_inv_put:
  assumes inv: "dict_inv d"
  shows "dict_inv (dict_put k v d)"
proof (cases "dict_find_pos d k")
  case None
  with inv have k: "k \<notin> set (map fst (d_v d))"
    by (simp add: dict_find_pos_linear find_index_keys del: set_map)
  from inv k have dist: "distinct (map fst (d_v d @ [(k, v)]))"
    by (auto simp: dict_inv_def)
  show ?thesis
  proof (cases "d_idx d = []")
    case True
    show ?thesis
    proof (cases "length (d_v d @ [(k, v)]) > kUmbral")
      case True
      with \<open>d_idx d = []\<close> None have "dict_put k v d = dict_indexar (Dict (d_v d @ [(k, v)]) [])"
        by (simp add: dict_put_def Let_def)
      moreover have "fold (\<lambda>(i, kv) m. al_emplace (fst kv) i m) (enumerate 0 (d_v d @ [(k, v)])) [] \<noteq> []"
        by (simp add: enumerate_append_eq)
      ultimately show ?thesis
        using dist indexar_ok [OF dist] by (simp add: dict_inv_def dict_indexar_def)
    next
      case False
      with \<open>d_idx d = []\<close> None dist show ?thesis
        by (simp add: dict_put_def Let_def dict_inv_def)
    qed
  next
    case False
    with inv have "idx_ok (d_v d) (d_idx d)" by (simp add: dict_inv_def)
    from idx_ok_snoc [OF this k, of v] False None dist show ?thesis
      by (simp add: dict_put_def Let_def dict_inv_def)
  qed
next
  case (Some i)
  with inv have i: "i < length (d_v d)"
    by (auto simp: dict_find_pos_linear dest: find_index_less)
  from inv i Some show ?thesis
    by (simp add: dict_put_def dict_inv_def keys_update idx_ok_update)
qed

interpretation dict: ordered_kv_store "dict_empty :: 'v dict" dict_get dict_put dict_keys dict_inv
proof (unfold_locales, goal_cases)
  case 1
  show ?case by (rule dict_inv_empty)
next
  case (2 m k v)
  then show ?case by (rule dict_inv_put)
next
  case (3 k)
  show ?case by (simp add: dict_get_def dict_find_pos_def dict_empty_def)
next
  case (4 m k v k')
  then show ?case by (simp add: dict_get_linear dict_inv_put dict_put_entries)
next
  case (5 m k)
  then show ?case by (auto simp: dict_get_linear dict_keys_def map_of_eq_None_iff)
next
  case (6 m)
  then show ?case by (simp add: dict_inv_def dict_keys_def)
next
  case 7
  show ?case by (simp add: dict_keys_def dict_empty_def)
next
  case (8 m k v)
  then show ?case by (simp add: dict_keys_def dict_put_entries keys_al_put del: set_map)
qed

text \<open>Building a dictionary from pairs with distinct keys keeps exactly those pairs in order.\<close>

definition dict_of_list :: "(string \<times> 'v) list \<Rightarrow> 'v dict" where
  "dict_of_list kvs = fold (\<lambda>(k, v). dict_put k v) kvs dict_empty"

lemma dict_inv_of_list [simp]: "dict_inv (dict_of_list kvs)"
  by (simp add: dict_of_list_def dict.inv_put_all)

lemma d_v_put_all:
  "dict_inv d \<Longrightarrow> d_v (fold (\<lambda>(k, v). dict_put k v) kvs d) = fold (\<lambda>(k, v). al_put k v) kvs (d_v d)"
  by (induction kvs arbitrary: d) (auto simp: dict_inv_put dict_put_entries)

lemma al_put_all_fresh:
  "distinct (map fst (m @ kvs)) \<Longrightarrow> fold (\<lambda>(k, v). al_put k v) kvs m = m @ kvs"
proof (induction kvs arbitrary: m)
  case (Cons kv kvs)
  then show ?case by (cases kv) (simp add: al_put_fresh)
qed simp

lemma d_v_of_list: "distinct (map fst kvs) \<Longrightarrow> d_v (dict_of_list kvs) = kvs"
  by (simp add: dict_of_list_def d_v_put_all al_put_all_fresh) (simp add: dict_empty_def al_put_all_fresh)

section \<open>Properties\<close>

text \<open>C25. Whatever sequence of writes builds a dictionary, with or without its hash index, every key
  reads as its last write, the keys keep the order of their first write, and the index agrees
  with the vector.\<close>

theorem dict_refines_map:
  "let d = fold (\<lambda>(k, v). dict_put k v) kvs dict_empty
   in (\<forall>k. dict_get d k = map_of (rev kvs) k) \<and> dict_keys d = rev (remdups (rev (map fst kvs)))
      \<and> dict_size d = card (set (map fst kvs)) \<and> dict_inv d"
proof -
  let ?d = "\<lambda>kvs. fold (\<lambda>(k, v). dict_put k v) kvs dict_empty"
  have inv: "dict_inv (?d kvs)" for kvs by (rule dict.inv_put_all) simp
  have keys: "dict_keys (?d kvs) = rev (remdups (rev (map fst kvs)))" for kvs
  proof (induction kvs rule: rev_induct)
    case (snoc kv kvs)
    have "fst kv \<in> set (dict_keys (?d kvs)) \<longleftrightarrow> fst kv \<in> set (map fst kvs)"
      unfolding snoc.IH by simp
    then show ?case
      using dict.keys_put [OF inv, of "fst kv" "snd kv" kvs] snoc.IH by (cases kv) auto
  qed (simp add: dict.keys_empty)
  have "dict_size (?d kvs) = length (dict_keys (?d kvs))"
    by (simp add: dict_size_def dict_keys_def)
  also have "\<dots> = card (set (map fst kvs))"
    unfolding keys by (simp add: length_remdups_card_conv)
  finally show ?thesis by (simp add: keys inv dict.get_put_all_empty Let_def)
qed

end
