(* ===== verification/Router.thy ===== *)
theory Router
  imports Containers
begin

text \<open>
  The request router (src/router.cpp, include/lohin/router.hpp): a trie of path segments.
  \<open>add_internal\<close> normalises a pattern, splits it and walks or grows the trie;
  \<open>match\<close> splits the request path and searches the trie with backtracking, static
  children first, then the parameter child, then the wildcard.  The trie is related to the
  plain table of the registered routes.
\<close>

section \<open>Nodes and patterns\<close>

datatype node_type = STATIC | PARAM | WILDCARD

datatype 'h node =
  Node (segment: string) (ntype: node_type) (handlers: "(string \<times> 'h) list") (children: "'h node list")

definition find_static_child :: "'h node \<Rightarrow> string \<Rightarrow> 'h node option" where
  "find_static_child n seg = find (\<lambda>c. ntype c = STATIC \<and> segment c = seg) (children n)"

definition find_param_child :: "'h node \<Rightarrow> 'h node option" where
  "find_param_child n = find (\<lambda>c. ntype c = PARAM) (children n)"

definition find_wildcard_child :: "'h node \<Rightarrow> 'h node option" where
  "find_wildcard_child n = find (\<lambda>c. ntype c = WILDCARD) (children n)"

definition router_init :: "'h node" where
  "router_init = Node '''' STATIC [] []"

text \<open>
  \<open>normalize_pattern\<close>: \<open>{name}\<close> becomes \<open>:name\<close>, a trailing slash goes; a brace that
  is never closed throws.
\<close>

function normalize_loop :: "string \<Rightarrow> string option" where
  "normalize_loop [] = Some []"
| "normalize_loop (c # cs) =
     (if c = CHR ''{'' then
        (case dropWhile (\<lambda>x. x \<noteq> CHR ''}'') cs of
           [] \<Rightarrow> None
         | _ # rest \<Rightarrow> map_option (\<lambda>out. CHR '':'' # takeWhile (\<lambda>x. x \<noteq> CHR ''}'') cs @ out)
             (normalize_loop rest))
      else map_option ((#) c) (normalize_loop cs))"
  by pat_completeness auto
termination
proof (relation "measure length", goal_cases)
  case (2 c cs x rest)
  then have "length (x # rest) \<le> length cs"
    using length_dropWhile_le [of "\<lambda>x. x \<noteq> CHR ''}''" cs] by simp
  then show ?case by simp
qed auto

definition strip_trailing_slash :: "string \<Rightarrow> string" where
  "strip_trailing_slash s = (if length s > 1 \<and> last s = CHR ''/'' then butlast s else s)"

definition normalize_pattern :: "string \<Rightarrow> string + string" where
  "normalize_pattern p = (case normalize_loop p of
       None \<Rightarrow> Inl (''lohin::Router: unterminated '' @ [CHR 39] @ ''{'' @ [CHR 39] @ '' in pattern: '' @ p)
     | Some out \<Rightarrow> Inr (strip_trailing_slash out))"

definition split_path :: "string \<Rightarrow> string list" where
  "split_path s = filter (\<lambda>seg. seg \<noteq> []) (getline_all (CHR ''/'') s)"

text \<open>The kind of a pattern segment and the name its node gets.\<close>

definition seg_kind :: "string \<Rightarrow> node_type \<times> string" where
  "seg_kind seg =
     (if seg = ''*'' then (WILDCARD, seg)
      else case seg of
          [] \<Rightarrow> (STATIC, seg)
        | c # name \<Rightarrow> (if c = CHR '':'' then (PARAM, name) else (STATIC, seg)))"

text \<open>Which child a segment descends into: the three \<open>find_*_child\<close> of \<open>add_internal\<close>.\<close>

definition child_for :: "node_type \<Rightarrow> string \<Rightarrow> 'h node \<Rightarrow> bool" where
  "child_for ty name c = (case ty of
       STATIC \<Rightarrow> ntype c = STATIC \<and> segment c = name
     | PARAM \<Rightarrow> ntype c = PARAM
     | WILDCARD \<Rightarrow> ntype c = WILDCARD)"

fun insert_route :: "string \<Rightarrow> 'h \<Rightarrow> string list \<Rightarrow> 'h node \<Rightarrow> 'h node" where
  "insert_route m h [] n = Node (segment n) (ntype n) (al_put m h (handlers n)) (children n)"
| "insert_route m h (seg # segs) n =
     (let (ty, name) = seg_kind seg;
          cs = children n;
          cs' = (case find (child_for ty name) cs of
                   None \<Rightarrow> cs @ [insert_route m h segs (Node name ty [] [])]
                 | Some _ \<Rightarrow> update_first (child_for ty name) (insert_route m h segs) cs)
      in Node (segment n) (ntype n) (handlers n) cs')"

definition add_internal :: "string \<Rightarrow> string \<Rightarrow> 'h \<Rightarrow> 'h node \<Rightarrow> string + 'h node" where
  "add_internal m pattern h root = (case normalize_pattern pattern of
       Inl e \<Rightarrow> Inl e
     | Inr norm \<Rightarrow> Inr (insert_route (map to_upper m) h (split_path norm) root))"

section \<open>Matching\<close>

text \<open>The handler of a node for a method, else its \<open>*\<close> handler.\<close>

definition handler_for :: "'h node \<Rightarrow> string \<Rightarrow> 'h option" where
  "handler_for n m = (case map_of (handlers n) m of
       Some h \<Rightarrow> Some h
     | None \<Rightarrow> map_of (handlers n) ''*'')"

text \<open>
  \<open>match_recursive\<close>: the parameters are threaded through as the code mutates them, the
  erasure on backtracking included; the handler is \<open>None\<close> where the code returns false.
\<close>

type_synonym params = "string \<rightharpoonup> string"

fun match_recursive :: "string \<Rightarrow> 'h node \<Rightarrow> string list \<Rightarrow> params \<Rightarrow> params \<times> 'h option" where
  "match_recursive m n [] ps = (ps, handler_for n m)"
| "match_recursive m n (seg # segs) ps =
     (let (ps1, r1) = (case find_static_child n seg of
            None \<Rightarrow> (ps, None)
          | Some c \<Rightarrow> match_recursive m c segs ps)
      in case r1 of
           Some h \<Rightarrow> (ps1, Some h)
         | None \<Rightarrow>
             (let (ps2, r2) = (case find_param_child n of
                    None \<Rightarrow> (ps1, None)
                  | Some c \<Rightarrow>
                      (case match_recursive m c segs (ps1(segment c \<mapsto> seg)) of
                         (ps', Some h) \<Rightarrow> (ps', Some h)
                       | (ps', None) \<Rightarrow> (ps'(segment c := None), None)))
              in case r2 of
                   Some h \<Rightarrow> (ps2, Some h)
                 | None \<Rightarrow>
                     (case find_wildcard_child n of
                        None \<Rightarrow> (ps2, None)
                      | Some c \<Rightarrow> (ps2, handler_for c m))))"

record 'h route_match =
  found :: bool
  handler :: "'h option"
  rm_params :: params

definition match :: "'h node \<Rightarrow> string \<Rightarrow> string \<Rightarrow> 'h route_match" where
  "match root m path =
     (case match_recursive m root (split_path (strip_trailing_slash path)) Map.empty of
        (ps, Some h) \<Rightarrow> \<lparr>found = True, handler = Some h, rm_params = ps\<rparr>
      | (ps, None) \<Rightarrow> \<lparr>found = False, handler = None, rm_params = Map.empty\<rparr>)"

section \<open>The route table\<close>

text \<open>
  The contract of the trie, stated on the plain table of the registrations in order: a route
  is its method, the segments of its normalised pattern, and its handler.  \<open>route_matches\<close>
  says which request segments a pattern accepts; \<open>table_lookup\<close> which handler wins.
\<close>

type_synonym 'h route = "string \<times> string list \<times> 'h"

fun route_matches :: "string list \<Rightarrow> string list \<Rightarrow> bool" where
  "route_matches [] [] = True"
| "route_matches (p # ps) (s # ss) =
     (case seg_kind p of
        (WILDCARD, _) \<Rightarrow> ps = []
      | (PARAM, _) \<Rightarrow> route_matches ps ss
      | (STATIC, name) \<Rightarrow> name = s \<and> route_matches ps ss)"
| "route_matches _ _ = False"

definition method_ok :: "string \<Rightarrow> string \<Rightarrow> bool" where
  "method_ok rm m \<longleftrightarrow> rm = m \<or> rm = ''*''"

text \<open>What is left of the table below the child a segment descends into.\<close>

definition derive :: "node_type \<Rightarrow> string \<Rightarrow> 'h route list \<Rightarrow> 'h route list" where
  "derive ty s T = concat (map (\<lambda>(m, p, h). case p of [] \<Rightarrow> []
     | seg # ps \<Rightarrow> (if fst (seg_kind seg) = ty \<and> (ty = STATIC \<longrightarrow> snd (seg_kind seg) = s)
                  then [(m, ps, h)] else [])) T)"

definition terminal :: "'h route list \<Rightarrow> string \<Rightarrow> 'h option" where
  "terminal T m = (let hs = rev (map (\<lambda>(m, p, h). (m, h)) (filter (\<lambda>(m, p, h). p = []) T))
     in case map_of hs m of Some h \<Rightarrow> Some h | None \<Rightarrow> map_of hs ''*'')"

fun table_lookup :: "'h route list \<Rightarrow> string \<Rightarrow> string list \<Rightarrow> 'h option" where
  "table_lookup T m [] = terminal T m"
| "table_lookup T m (s # ss) =
     (case table_lookup (derive STATIC s T) m ss of Some h \<Rightarrow> Some h
      | None \<Rightarrow> (case table_lookup (derive PARAM [] T) m ss of Some h \<Rightarrow> Some h
      | None \<Rightarrow> terminal (derive WILDCARD [] T) m))"

text \<open>The trie below a node, built from a table, and a router from its registrations.\<close>

definition node_of :: "string \<Rightarrow> node_type \<Rightarrow> 'h route list \<Rightarrow> 'h node" where
  "node_of name ty T = fold (\<lambda>(m, p, h). insert_route m h p) T (Node name ty [] [])"

fun add_all :: "(string \<times> string \<times> 'h) list \<Rightarrow> 'h node \<Rightarrow> string + 'h node" where
  "add_all [] n = Inr n"
| "add_all ((m, p, h) # rs) n = (case add_internal m p h n of Inl e \<Rightarrow> Inl e | Inr n' \<Rightarrow> add_all rs n')"

fun routes :: "(string \<times> string \<times> 'h) list \<Rightarrow> 'h route list" where
  "routes [] = []"
| "routes ((m, p, h) # rs) = (case normalize_pattern p of
       Inl _ \<Rightarrow> routes rs
     | Inr norm \<Rightarrow> (map to_upper m, split_path norm, h) # routes rs)"

definition request_segments :: "string \<Rightarrow> string list" where
  "request_segments path = split_path (strip_trailing_slash path)"

section \<open>Lemmas on insertion\<close>

lemma insert_route_fields [simp]:
  "segment (insert_route m h p n) = segment n" "ntype (insert_route m h p n) = ntype n"
  by (induction m h p n rule: insert_route.induct) (simp_all add: Let_def split: prod.splits)

lemma handlers_insert_route:
  "handlers (insert_route m h p n) = (if p = [] then al_put m h (handlers n) else handlers n)"
  by (cases p) (simp_all add: Let_def split: prod.splits)

lemma find_child_insert_same:
  assumes "seg_kind seg = (ty, name)"
  shows "find (child_for ty name) (children (insert_route m h (seg # ps) n)) =
     Some (insert_route m h ps (case find (child_for ty name) (children n) of
        None \<Rightarrow> Node name ty [] [] | Some c \<Rightarrow> c))"
proof (cases "find (child_for ty name) (children n)")
  case None
  then have *: "\<forall>c \<in> set (children n). \<not> child_for ty name c"
    by (simp add: find_None_iff)
  have "find (child_for ty name) (ds @ cs) = find (child_for ty name) cs"
    if "\<forall>c \<in> set ds. \<not> child_for ty name c" for ds cs :: "'a node list"
    using that by (induction ds) auto
  moreover have "child_for ty name (insert_route m h ps (Node name ty [] []))"
    by (cases ty) (simp_all add: child_for_def)
  ultimately show ?thesis using assms None * by simp
next
  case (Some c)
  then have "child_for ty name c" by (auto dest: find_SomeD)
  then have "child_for ty name (insert_route m h ps c)"
    by (cases ty) (simp_all add: child_for_def)
  with assms Some show ?thesis by (simp add: find_update_first_same)
qed

lemma find_child_insert_other:
  assumes "seg_kind seg = (ty, name)" and "ty' \<noteq> ty \<or> (ty = STATIC \<and> name' \<noteq> name)"
  shows "find (child_for ty' name') (children (insert_route m h (seg # ps) n)) =
     find (child_for ty' name') (children n)"
proof -
  have excl: "\<not> child_for ty' name' c" if "child_for ty name c" for c :: "'a node"
    using that assms(2) by (cases ty; cases ty') (auto simp: child_for_def)
  show ?thesis
  proof (cases "find (child_for ty name) (children n)")
    case None
    have "\<not> child_for ty' name' (insert_route m h ps (Node name ty [] []))"
      by (rule excl) (cases ty; simp add: child_for_def)
    then have "find (child_for ty' name') (cs @ [insert_route m h ps (Node name ty [] [])]) =
        find (child_for ty' name') cs" for cs
      by (induction cs) auto
    with assms None show ?thesis by simp
  next
    case (Some c)
    have "child_for ty name (insert_route m h ps d)" if "child_for ty name d" for d
      using that by (cases ty) (simp_all add: child_for_def)
    with excl assms Some show ?thesis by (simp add: find_update_first_other)
  qed
qed

lemma find_child_defs:
  "find_static_child n s = find (child_for STATIC s) (children n)"
  "find_param_child n = find (child_for PARAM s) (children n)"
  "find_wildcard_child n = find (child_for WILDCARD s) (children n)"
  by (simp_all add: find_static_child_def find_param_child_def find_wildcard_child_def child_for_def
      [abs_def])

lemma node_of_snoc: "node_of nm ty (T @ [(m, p, h)]) = insert_route m h p (node_of nm ty T)"
  by (simp add: node_of_def)

lemma node_of_Nil [simp]: "node_of nm ty [] = Node nm ty [] []"
  by (simp add: node_of_def)

lemma node_of_single: "insert_route m h p (Node nm ty [] []) = node_of nm ty [(m, p, h)]"
  by (simp add: node_of_def)

lemma derive_simps [simp]:
  "derive ty s [] = []"
  "derive ty s (T @ T') = derive ty s T @ derive ty s T'"
  "derive ty s [(m, [], h)] = []"
  "derive ty s [(m, seg # ps, h)] =
     (if fst (seg_kind seg) = ty \<and> (ty = STATIC \<longrightarrow> snd (seg_kind seg) = s) then [(m, ps, h)] else [])"
  by (auto simp: derive_def)

text \<open>A child of a built node is itself built, from the derived table.\<close>

lemma find_child_node_of:
  "(derive ty s T = [] \<longrightarrow> find (child_for ty s) (children (node_of nm k T)) = None) \<and>
   (derive ty s T \<noteq> [] \<longrightarrow> (\<exists>nm'. find (child_for ty s) (children (node_of nm k T)) =
      Some (node_of nm' ty (derive ty s T))))"
proof (induction T rule: rev_induct)
  case (snoc r T)
  obtain m p h where r: "r = (m, p, h)" by (cases r)
  show ?case
  proof (cases p)
    case Nil
    with snoc r show ?thesis by (simp add: node_of_snoc)
  next
    case (Cons seg ps)
    obtain ty' name where sk: "seg_kind seg = (ty', name)" by (cases "seg_kind seg")
    show ?thesis
    proof (cases "ty' = ty \<and> (ty = STATIC \<longrightarrow> name = s)")
      case True
      then have ty: "ty' = ty" by simp
      have cf: "child_for ty s = (child_for ty name :: 'a node \<Rightarrow> bool)"
        using True by (cases ty) (auto simp: child_for_def fun_eq_iff)
      have d: "derive ty s (T @ [r]) = derive ty s T @ [(m, ps, h)]"
        using True r Cons sk by simp
      show ?thesis
        using snoc r Cons sk cf d find_child_insert_same [of seg ty name m h ps "node_of nm k T"]
        by (cases "derive ty s T = []")
          (auto simp: ty node_of_snoc node_of_single simp del: insert_route.simps)
    next
      case False
      then have "ty \<noteq> ty' \<or> ty' = STATIC \<and> s \<noteq> name" by auto
      from find_child_insert_other [OF sk this, of m h ps "node_of nm k T"] False snoc r Cons sk
      show ?thesis by (auto simp: node_of_snoc simp del: insert_route.simps)
    qed
  qed
qed simp

lemma handlers_node_of:
  "map_of (handlers (node_of nm k T)) =
   map_of (rev (map (\<lambda>(m, p, h). (m, h)) (filter (\<lambda>(m, p, h). p = []) T)))"
proof (induction T rule: rev_induct)
  case (snoc r T)
  then show ?case
    by (cases r) (auto simp: node_of_snoc handlers_insert_route simp del: insert_route.simps)
qed simp

lemma handler_for_node_of: "handler_for (node_of nm k T) m = terminal T m"
  unfolding handler_for_def terminal_def handlers_node_of Let_def by (rule refl)

lemma table_lookup_empty [simp]: "table_lookup [] m ss = None"
  by (induction ss) (simp_all add: terminal_def)

lemma find_child_cases:
  obtains (absent) "find (child_for ty s) (children (node_of nm k T)) = None" "derive ty s T = []"
  | (present) nm' where
      "find (child_for ty s) (children (node_of nm k T)) = Some (node_of nm' ty (derive ty s T))"
  using find_child_node_of [of ty s T nm k] by (cases "derive ty s T = []") auto

lemma match_static:
  assumes "\<And>nm k (T :: 'h route list) ps.
    snd (match_recursive m (node_of nm k T) ss ps) = table_lookup T m ss"
  shows "snd (case find_static_child (node_of nm k T) s of None \<Rightarrow> (ps, None)
      | Some c \<Rightarrow> match_recursive m c ss ps) = table_lookup (derive STATIC s (T :: 'h route list)) m ss"
  by (rule find_child_cases [of STATIC s nm k T]) (simp_all add: find_child_defs(1) assms)

lemma match_param:
  assumes "\<And>nm k (T :: 'h route list) ps.
    snd (match_recursive m (node_of nm k T) ss ps) = table_lookup T m ss"
  shows "snd (case find_param_child (node_of nm k T) of None \<Rightarrow> (ps, None)
      | Some c \<Rightarrow> (case match_recursive m c ss (ps(segment c \<mapsto> s)) of
           (ps', Some h) \<Rightarrow> (ps', Some h)
         | (ps', None) \<Rightarrow> (ps'(segment c := None), None))) =
      table_lookup (derive PARAM [] (T :: 'h route list)) m ss"
proof (rule find_child_cases [of PARAM "[]" nm k T], goal_cases)
  case (2 nm')
  let ?c = "node_of nm' PARAM (derive PARAM [] T)"
  from 2 show ?case
    using assms [of nm' PARAM "derive PARAM [] T" "ps(segment ?c \<mapsto> s)"]
    by (auto simp: find_child_defs(2) [of _ "[]"] split: prod.splits option.splits)
qed (simp add: find_child_defs(2) [of _ "[]"])

lemma match_wildcard:
  "snd (case find_wildcard_child (node_of nm k T) of None \<Rightarrow> (ps, None)
      | Some c \<Rightarrow> (ps, handler_for c m)) = terminal (derive WILDCARD [] T) m"
proof (rule find_child_cases [of WILDCARD "[]" nm k T], goal_cases)
  case 1
  then show ?case by (simp add: find_child_defs(3) [of _ "[]"] terminal_def)
qed (simp add: find_child_defs(3) [of _ "[]"] handler_for_node_of)

lemma match_recursive_node_of:
  "snd (match_recursive m (node_of nm k T) ss ps) = table_lookup T m ss"
proof (induction ss arbitrary: nm k T ps)
  case Nil
  show ?case by (simp add: handler_for_node_of)
next
  case (Cons s ss)
  let ?n = "node_of nm k T"
  obtain ps1 r1 where e1: "(case find_static_child ?n s of None \<Rightarrow> (ps, None)
      | Some c \<Rightarrow> match_recursive m c ss ps) = (ps1, r1)"
    by (rule prod.exhaust)
  obtain ps2 r2 where e2: "(case find_param_child ?n of None \<Rightarrow> (ps1, None)
      | Some c \<Rightarrow> (case match_recursive m c ss (ps1(segment c \<mapsto> s)) of
           (ps', Some h) \<Rightarrow> (ps', Some h)
         | (ps', None) \<Rightarrow> (ps'(segment c := None), None))) = (ps2, r2)"
    by (rule prod.exhaust)
  from match_static [where nm = nm and k = k and T = T and s = s and ps = ps, OF Cons.IH] e1
  have r1: "r1 = table_lookup (derive STATIC s T) m ss" by simp
  from match_param [where nm = nm and k = k and T = T and s = s and ps = ps1, OF Cons.IH] e2
  have r2: "r2 = table_lookup (derive PARAM [] T) m ss" by simp
  have "snd (match_recursive m ?n (s # ss) ps) = (case r1 of Some h \<Rightarrow> Some h
      | None \<Rightarrow> (case r2 of Some h \<Rightarrow> Some h
      | None \<Rightarrow> snd (case find_wildcard_child ?n of None \<Rightarrow> (ps2, None)
          | Some c \<Rightarrow> (ps2, handler_for c m))))"
    by (simp only: match_recursive.simps e1 Let_def prod.case)
      (simp add: e2 split: option.split)
  then show ?case unfolding r1 r2 match_wildcard table_lookup.simps .
qed

lemma add_all_routes:
  "add_all rs n = Inr n' \<Longrightarrow> n' = fold (\<lambda>(m, p, h). insert_route m h p) (routes rs) n"
  by (induction rs n rule: add_all.induct) (auto simp: add_internal_def split: sum.splits)

lemma match_handler_table:
  "add_all rs router_init = Inr root \<Longrightarrow>
   handler (match root m path) = table_lookup (routes rs) m (request_segments path)"
  using match_recursive_node_of [of m "[]" STATIC "routes rs" "request_segments path" Map.empty]
  by (auto dest!: add_all_routes simp: match_def request_segments_def router_init_def node_of_def
      split: prod.splits option.splits)

lemma found_iff_handler: "found (match root m path) \<longleftrightarrow> handler (match root m path) \<noteq> None"
  by (auto simp: match_def split: prod.splits option.splits)

section \<open>The table specification\<close>

lemma in_derive:
  "(rm, ps, h) \<in> set (derive ty s T) \<longleftrightarrow>
   (\<exists>seg. (rm, seg # ps, h) \<in> set T \<and> fst (seg_kind seg) = ty \<and> (ty = STATIC \<longrightarrow> snd (seg_kind seg) = s))"
  by (force simp: derive_def split: list.splits if_splits)

lemma terminal_SomeD: "terminal T m = Some h \<Longrightarrow> \<exists>rm. (rm, [], h) \<in> set T \<and> method_ok rm m"
  by (auto simp: terminal_def Let_def method_ok_def dest!: map_of_SomeD split: option.splits)

lemma terminal_key_None:
  "map_of (rev (map (\<lambda>(m, p, h). (m, h)) (filter (\<lambda>(m, p, h). p = []) T))) k = None \<longleftrightarrow>
   (\<forall>h. (k, [], h) \<notin> set T)"
  by (induction T) (auto simp: map_add_def split: option.splits)

lemma terminal_None_iff: "terminal T m = None \<longleftrightarrow> (\<forall>rm h. (rm, [], h) \<in> set T \<longrightarrow> \<not> method_ok rm m)"
proof -
  have "terminal T m = None \<longleftrightarrow> (\<forall>h. (m, [], h) \<notin> set T) \<and> (\<forall>h. (''*'', [], h) \<notin> set T)"
    unfolding terminal_def Let_def terminal_key_None [symmetric] by (simp split: option.splits)
  then show ?thesis by (auto simp: method_ok_def)
qed

lemma route_matches_Cons:
  "route_matches (p # ps) (s # ss) \<longleftrightarrow>
     fst (seg_kind p) = STATIC \<and> snd (seg_kind p) = s \<and> route_matches ps ss \<or>
     fst (seg_kind p) = PARAM \<and> route_matches ps ss \<or>
     fst (seg_kind p) = WILDCARD \<and> ps = []"
  by (auto split: prod.splits node_type.splits)

lemma table_lookup_SomeD:
  "table_lookup T m ss = Some h \<Longrightarrow> \<exists>rm p. (rm, p, h) \<in> set T \<and> method_ok rm m \<and> route_matches p ss"
proof (induction T m ss rule: table_lookup.induct)
  case (1 T m)
  then show ?case using terminal_SomeD [of T m h] by (metis route_matches.simps(1) table_lookup.simps(1))
next
  case (2 T m s ss)
  consider "table_lookup (derive STATIC s T) m ss = Some h"
    | "table_lookup (derive STATIC s T) m ss = None" "table_lookup (derive PARAM [] T) m ss = Some h"
    | "terminal (derive WILDCARD [] T) m = Some h"
    using "2.prems" by (auto split: option.splits)
  then show ?case
  proof cases
    case 1
    from "2.IH"(1) [OF 1] show ?thesis by (fastforce simp: in_derive route_matches_Cons)
  next
    case 2
    from "2.IH"(2) [OF 2] show ?thesis by (fastforce simp: in_derive route_matches_Cons)
  next
    case 3
    from terminal_SomeD [OF 3] show ?thesis by (fastforce simp: in_derive route_matches_Cons)
  qed
qed

lemma table_lookup_complete:
  "(rm, p, h) \<in> set T \<Longrightarrow> method_ok rm m \<Longrightarrow> route_matches p ss \<Longrightarrow> table_lookup T m ss \<noteq> None"
proof (induction T m ss arbitrary: rm p h rule: table_lookup.induct)
  case (1 T m)
  then show ?case by (cases p) (auto simp: terminal_None_iff)
next
  case (2 T m s ss)
  from "2.prems"(3) obtain q qs where p: "p = q # qs" by (cases p) auto
  with "2.prems"(3) consider
      "fst (seg_kind q) = STATIC" "snd (seg_kind q) = s" "route_matches qs ss"
    | "fst (seg_kind q) = PARAM" "route_matches qs ss"
    | "fst (seg_kind q) = WILDCARD" "qs = []"
    by (auto simp: route_matches_Cons simp del: route_matches.simps)
  then show ?case
  proof cases
    case 1
    with p "2.prems" have "(rm, qs, h) \<in> set (derive STATIC s T)" by (auto simp: in_derive)
    from "2.IH"(1) [OF this "2.prems"(2) 1(3)] show ?thesis by (auto split: option.splits)
  next
    case 2
    with p "2.prems" have "(rm, qs, h) \<in> set (derive PARAM [] T)" by (auto simp: in_derive)
    from "2.IH"(2) [OF _ this "2.prems"(2) 2(2)] show ?thesis by (auto split: option.splits)
  next
    case 3
    with p "2.prems" have "(rm, [], h) \<in> set (derive WILDCARD [] T)" by (auto simp: in_derive)
    with "2.prems"(2) have "terminal (derive WILDCARD [] T) m \<noteq> None"
      by (auto simp: terminal_None_iff)
    then show ?thesis by (auto split: option.splits)
  qed
qed

text \<open>A purely static pattern only ever derives along its own segments.\<close>

definition static_pattern :: "string list \<Rightarrow> bool" where
  "static_pattern p \<longleftrightarrow> (\<forall>seg \<in> set p. seg_kind seg = (STATIC, seg))"

lemma terminal_last: "terminal (T @ [(m, [], h)]) m = Some h"
  by (simp add: terminal_def)

lemma table_lookup_static_last:
  "static_pattern p \<Longrightarrow> table_lookup (T @ [(m, p, h)]) m p = Some h"
  by (induction p arbitrary: T) (auto simp: static_pattern_def terminal_last)

section \<open>Properties\<close>

text \<open>C17. The trie implements the table of its registrations: for any list of registrations that
  all normalise, the handler that \<open>match\<close> finds for a method and a path is the one the table
  specification picks, static segments before parameters before the wildcard, the later of two
  registrations of the same shape, the method's own handler before the \<open>*\<close> method.\<close>

theorem router_refines_table:
  assumes "add_all rs router_init = Inr root"
  shows "handler (match root m path) = table_lookup (routes rs) m (request_segments path)"
  using assms by (rule match_handler_table)

theorem router_refines_table_witness:
  "\<exists>root. add_all [(''get'', ''/u/{id}'', 1 :: nat), (''GET'', ''/u/me'', 2), (''*'', ''/u/*'', 3)]
       router_init = Inr root
     \<and> handler (match root ''GET'' ''/u/me/'') = Some 2
     \<and> handler (match root ''GET'' ''/u/7'') = Some 1
     \<and> handler (match root ''PUT'' ''/u/7/8'') = Some 3"
proof -
  let ?rs = "[(''get'', ''/u/{id}'', 1 :: nat), (''GET'', ''/u/me'', 2), (''*'', ''/u/*'', 3)]"
  obtain root where r: "add_all ?rs router_init = Inr root" 
    by (simp add: add_internal_def normalize_pattern_def strip_trailing_slash_def)
  have "table_lookup (routes ?rs) ''GET'' (request_segments ''/u/me/'') = Some 2"
    by code_simp
  moreover have "table_lookup (routes ?rs) ''GET'' (request_segments ''/u/7'') = Some 1"
    by code_simp
  moreover have "table_lookup (routes ?rs) ''PUT'' (request_segments ''/u/7/8'') = Some 3"
    by code_simp
  ultimately show ?thesis
    using r router_refines_table [OF r] by (intro exI [of _ root]) simp
qed

text \<open>A request is matched exactly when some registered route has its method (or the method
  \<open>*\<close>) and a pattern that accepts its segments: backtracking loses no route and invents none.\<close>

theorem router_found_iff:
  assumes "add_all rs router_init = Inr root"
  shows "found (match root m path) \<longleftrightarrow>
     (\<exists>rm p h. (rm, p, h) \<in> set (routes rs) \<and> method_ok rm m \<and>
        route_matches p (request_segments path))"
proof -
  have "found (match root m path) \<longleftrightarrow> table_lookup (routes rs) m (request_segments path) \<noteq> None"
    using assms by (simp add: found_iff_handler match_handler_table)
  also have "\<dots> \<longleftrightarrow> (\<exists>rm p h. (rm, p, h) \<in> set (routes rs) \<and> method_ok rm m \<and>
      route_matches p (request_segments path))"
    using table_lookup_SomeD [of "routes rs"] table_lookup_complete [of _ _ _ "routes rs"]
    by (metis not_None_eq)
  finally show ?thesis .
qed

theorem router_found_iff_witness:
  "\<exists>root. add_all [(''get'', ''/u/{id}'', 1 :: nat), (''POST'', ''/f/*'', 2)] router_init = Inr root
     \<and> found (match root ''GET'' ''/u/7'') \<and> \<not> found (match root ''GET'' ''/f/a'')
     \<and> \<not> found (match root ''POST'' ''/f'')"
proof -
  let ?rs = "[(''get'', ''/u/{id}'', 1 :: nat), (''POST'', ''/f/*'', 2)]"
  obtain root where r: "add_all ?rs router_init = Inr root"
    by (simp add: add_internal_def normalize_pattern_def strip_trailing_slash_def)
  have rs: "routes ?rs = [(''GET'', [''u'', '':id''], 1), (''POST'', [''f'', ''*''], 2)]"
    by code_simp
  have segs: "request_segments ''/u/7'' = [''u'', ''7'']" "request_segments ''/f/a'' = [''f'', ''a'']"
    "request_segments ''/f'' = [''f'']"
    by code_simp+
  have "found (match root ''GET'' ''/u/7'')" "\<not> found (match root ''GET'' ''/f/a'')"
    "\<not> found (match root ''POST'' ''/f'')"
    unfolding router_found_iff [OF r] rs segs
    by (intro exI [of _ "''GET''"] exI [of _ "[''u'', '':id'']"] exI [of _ 1],
        auto simp: method_ok_def seg_kind_def)
  with r show ?thesis by blast
qed

lemma static_child_insert:
  assumes "seg_kind seg = (STATIC, seg)"
  shows "\<exists>c. find_static_child (insert_route m h (seg # ps) n) seg = Some (insert_route m h ps c)"
  using find_child_insert_same [OF assms, of m h ps n] unfolding find_child_defs by blast

lemma match_static_insert:
  "static_pattern p \<Longrightarrow> match_recursive m (insert_route m h p n) p ps = (ps, Some h)"
proof (induction p arbitrary: n)
  case Nil
  show ?case by (simp add: handler_for_def)
next
  case (Cons seg p)
  then have "seg_kind seg = (STATIC, seg)" by (simp add: static_pattern_def)
  from static_child_insert [OF this, of m h p n] obtain c where
    "find_static_child (insert_route m h (seg # p) n) seg = Some (insert_route m h p c)" by blast
  with Cons show ?case
    by (simp add: static_pattern_def del: insert_route.simps)
qed

text \<open>A route with only static segments that is registered last answers its own path and
  method with its own handler and without parameters, whatever was registered before it.\<close>

theorem router_static_route_wins:
  assumes "normalize_pattern pattern = Inr norm" and "static_pattern (split_path norm)"
    and "split_path norm = request_segments path" and "map to_upper m = m"
  shows "\<exists>root'. add_internal m pattern h root = Inr root' \<and>
     match root' m path = \<lparr>found = True, handler = Some h, rm_params = Map.empty\<rparr>"
  using match_static_insert [OF assms(2), of m h root Map.empty] assms
  by (simp add: add_internal_def match_def request_segments_def)

theorem router_static_route_wins_witness:
  "\<exists>root root'. add_all [(''GET'', ''/u/{id}'', 1 :: nat), (''*'', ''/*'', 2)] router_init = Inr root
     \<and> add_internal ''GET'' ''/u/me/'' 3 root = Inr root'
     \<and> match root' ''GET'' ''/u/me'' = \<lparr>found = True, handler = Some 3, rm_params = Map.empty\<rparr>"
proof -
  obtain root :: "nat node" where
      "add_all [(''GET'', ''/u/{id}'', 1), (''*'', ''/*'', 2)] router_init = Inr root"
    by (simp add: add_internal_def normalize_pattern_def strip_trailing_slash_def)
  moreover have "\<exists>root'. add_internal ''GET'' ''/u/me/'' (3 :: nat) root = Inr root' \<and>
      match root' ''GET'' ''/u/me'' = \<lparr>found = True, handler = Some 3, rm_params = Map.empty\<rparr>"
    by (rule router_static_route_wins [where norm = "''/u/me''"]) code_simp+
  ultimately show ?thesis by blast
qed

text \<open>The parameter child of a node is shared and keeps the name of the first route that
  created it: when \<open>u/:a\<close> is registered and then \<open>u/:b/t\<close>, a request for the second route binds
  \<open>a\<close> and leaves \<open>b\<close> unbound.\<close>

theorem router_first_param_name_wins:
  assumes "seg_kind u = (STATIC, u)" and "seg_kind t = (STATIC, t)"
  shows "match_recursive m (insert_route m h2 [u, CHR '':'' # b, t]
            (insert_route m h1 [u, CHR '':'' # a] router_init)) [u, x, t] Map.empty
       = (Map.empty(a \<mapsto> x), Some h2)"
  using assms
  by (simp add: router_init_def child_for_def seg_kind_def find_static_child_def
      find_param_child_def handler_for_def)

theorem router_first_param_name_wins_witness:
  "match_recursive ''GET'' (insert_route ''GET'' (2 :: nat) [''u'', '':uid'', ''posts'']
      (insert_route ''GET'' 1 [''u'', '':id''] router_init)) [''u'', ''7'', ''posts''] Map.empty
   = ([''id'' \<mapsto> ''7''], Some 2)"
  by (rule router_first_param_name_wins) (simp_all add: seg_kind_def)

end
