(* ===== verification/Crypto.thy ===== *)
theory Crypto
  imports Prelude
begin

unbundle bit_operations_syntax

text \<open>
  The cryptographic helpers (src/odio/crypto.cpp): SHA-256, HMAC-SHA-256, the two Base64
  variants and the constant-time comparison.  32-bit arithmetic is \<^typ>\<open>32 word\<close>, so every
  addition wraps as \<open>uint32_t\<close> does.  \<open>random_bytes\<close> reads \<open>/dev/urandom\<close> and is a parameter
  of the definitions that use it.
\<close>

abbreviation u32_of :: "char \<Rightarrow> u32" where
  "u32_of c \<equiv> of_char c"

abbreviation low_char :: "u32 \<Rightarrow> char" where
  "low_char x \<equiv> char_of (unat (x AND 0xFF))"

section \<open>SHA-256\<close>

definition kK :: "u32 list" where
  "kK = concat [
    [0x428a2f98, 0x71374491, 0xb5c0fbcf, 0xe9b5dba5, 0x3956c25b, 0x59f111f1],
    [0x923f82a4, 0xab1c5ed5, 0xd807aa98, 0x12835b01, 0x243185be, 0x550c7dc3],
    [0x72be5d74, 0x80deb1fe, 0x9bdc06a7, 0xc19bf174, 0xe49b69c1, 0xefbe4786],
    [0x0fc19dc6, 0x240ca1cc, 0x2de92c6f, 0x4a7484aa, 0x5cb0a9dc, 0x76f988da],
    [0x983e5152, 0xa831c66d, 0xb00327c8, 0xbf597fc7, 0xc6e00bf3, 0xd5a79147],
    [0x06ca6351, 0x14292967, 0x27b70a85, 0x2e1b2138, 0x4d2c6dfc, 0x53380d13],
    [0x650a7354, 0x766a0abb, 0x81c2c92e, 0x92722c85, 0xa2bfe8a1, 0xa81a664b],
    [0xc24b8b70, 0xc76c51a3, 0xd192e819, 0xd6990624, 0xf40e3585, 0x106aa070],
    [0x19a4c116, 0x1e376c08, 0x2748774c, 0x34b0bcb5, 0x391c0cb3, 0x4ed8aa4a],
    [0x5b9cca4f, 0x682e6ff3, 0x748f82ee, 0x78a5636f, 0x84c87814, 0x8cc70208],
    [0x90befffa, 0xa4506ceb, 0xbef9a3f7, 0xc67178f2]]"

definition rotr :: "u32 \<Rightarrow> nat \<Rightarrow> u32" where
  "rotr x n = drop_bit n x OR push_bit (32 - n) x"

definition sigma0 :: "u32 \<Rightarrow> u32" where
  "sigma0 x = rotr x 7 XOR rotr x 18 XOR drop_bit 3 x"

definition sigma1 :: "u32 \<Rightarrow> u32" where
  "sigma1 x = rotr x 17 XOR rotr x 19 XOR drop_bit 10 x"

text \<open>The sixteen big-endian words of a block, and the extension of the schedule to \<open>n\<close> more.\<close>

fun block_words :: "string \<Rightarrow> u32 list" where
  "block_words (a # b # c # d # rest) =
     (push_bit 24 (u32_of a) OR push_bit 16 (u32_of b) OR push_bit 8 (u32_of c) OR u32_of d)
     # block_words rest"
| "block_words _ = []"

definition next_word :: "u32 list \<Rightarrow> u32" where
  "next_word w = (let i = length w
     in w ! (i - 16) + sigma0 (w ! (i - 15)) + w ! (i - 7) + sigma1 (w ! (i - 2)))"

fun extend_schedule :: "nat \<Rightarrow> u32 list \<Rightarrow> u32 list" where
  "extend_schedule 0 w = w"
| "extend_schedule (Suc n) w = extend_schedule n (w @ [next_word w])"

record regs =
  ra :: u32  rb :: u32  rc :: u32  rd :: u32  re :: u32  rf :: u32  rg :: u32  rh :: u32

definition sha_round :: "u32 \<times> u32 \<Rightarrow> regs \<Rightarrow> regs" where
  "sha_round kw r = (case kw of (k, w) \<Rightarrow>
     (let S1 = rotr (re r) 6 XOR rotr (re r) 11 XOR rotr (re r) 25;
          ch = (re r AND rf r) XOR (NOT (re r) AND rg r);
          temp1 = rh r + S1 + ch + k + w;
          S0 = rotr (ra r) 2 XOR rotr (ra r) 13 XOR rotr (ra r) 22;
          maj = (ra r AND rb r) XOR (ra r AND rc r) XOR (rb r AND rc r);
          temp2 = S0 + maj
      in \<lparr>ra = temp1 + temp2, rb = ra r, rc = rb r, rd = rc r,
          re = rd r + temp1, rf = re r, rg = rf r, rh = rg r\<rparr>))"

definition compress :: "string \<Rightarrow> regs \<Rightarrow> regs" where
  "compress block h =
     (let w = extend_schedule 48 (block_words (take 64 block));
          r = fold sha_round (zip kK w) h
      in \<lparr>ra = ra h + ra r, rb = rb h + rb r, rc = rc h + rc r, rd = rd h + rd r,
          re = re h + re r, rf = rf h + rf r, rg = rg h + rg r, rh = rh h + rh r\<rparr>)"

definition sha_init :: regs where
  "sha_init = \<lparr>ra = 0x6a09e667, rb = 0xbb67ae85, rc = 0x3c6ef372, rd = 0xa54ff53a,
               re = 0x510e527f, rf = 0x9b05688c, rg = 0x1f83d9ab, rh = 0x5be0cd19\<rparr>"

definition kBlock :: nat where
  "kBlock = 64"

text \<open>\<open>for (i = 0; i < n; ++i) compress(h, p + i * 64)\<close>\<close>

fun compress_blocks :: "nat \<Rightarrow> string \<Rightarrow> regs \<Rightarrow> regs" where
  "compress_blocks 0 p h = h"
| "compress_blocks (Suc n) p h = compress_blocks n (drop kBlock p) (compress p h)"

text \<open>The bit length as eight big-endian bytes, modulo \<open>2 ^ 64\<close>.\<close>

definition be64 :: "u64 \<Rightarrow> string" where
  "be64 bits = map (\<lambda>i. char_of (unat (drop_bit (8 * i) bits AND 0xFF))) [7, 6, 5, 4, 3, 2, 1, 0]"

definition sha_tail :: "string \<Rightarrow> string" where
  "sha_tail p =
     (let len = length p;
          rest = len mod kBlock;
          tail_len = (if rest + 1 + 8 \<le> kBlock then kBlock else 2 * kBlock);
          bits = of_nat len * 8
      in drop (len div kBlock * kBlock) p @ [char_of (0x80 :: nat)]
         @ replicate (tail_len - 8 - rest - 1) (char_of (0 :: nat)) @ be64 bits)"

definition be32 :: "u32 \<Rightarrow> string" where
  "be32 x = [low_char (drop_bit 24 x), low_char (drop_bit 16 x), low_char (drop_bit 8 x), low_char x]"

definition regs_out :: "regs \<Rightarrow> string" where
  "regs_out h = be32 (ra h) @ be32 (rb h) @ be32 (rc h) @ be32 (rd h)
     @ be32 (re h) @ be32 (rf h) @ be32 (rg h) @ be32 (rh h)"

definition sha256 :: "string \<Rightarrow> string" where
  "sha256 p =
     (let h = compress_blocks (length p div kBlock) p sha_init;
          tail = sha_tail p
      in regs_out (compress_blocks (length tail div kBlock) tail h))"

text \<open>\<open>k.resize(kBlock)\<close> pads a short key with zero bytes.\<close>

definition hmac_key :: "string \<Rightarrow> string" where
  "hmac_key key =
     (let k = (if length key > kBlock then sha256 key else key)
      in k @ replicate (kBlock - length k) (char_of (0 :: nat)))"

definition xor_char :: "u8 \<Rightarrow> char \<Rightarrow> char" where
  "xor_char m c = char_of (unat (of_char c XOR m))"

definition hmac_sha256 :: "string \<Rightarrow> string \<Rightarrow> string" where
  "hmac_sha256 key message =
     (let k = hmac_key key;
          inner = map (xor_char 0x36) k;
          outer = map (xor_char 0x5c) k;
          inner_hash = sha256 (inner @ message)
      in sha256 (outer @ inner_hash))"

section \<open>Base64\<close>

definition kAlphabet :: string where
  "kAlphabet = ''ABCDEFGHIJKLMNOPQRSTUVWXYZabcdefghijklmnopqrstuvwxyz0123456789-_''"

definition kStd :: string where
  "kStd = ''ABCDEFGHIJKLMNOPQRSTUVWXYZabcdefghijklmnopqrstuvwxyz0123456789+/''"

definition decode_char :: "char \<Rightarrow> int" where
  "decode_char c =
     (if is_upper c then int (byte c) - 65
      else if is_lower c then int (byte c) - 97 + 26
      else if is_digit c then int (byte c) - 48 + 52
      else if c = CHR ''-'' then 62
      else if c = CHR ''_'' then 63
      else -1)"

definition sextet :: "string \<Rightarrow> nat \<Rightarrow> u32 \<Rightarrow> char" where
  "sextet alphabet sh v = alphabet ! unat (drop_bit sh v AND 0x3F)"

fun base64url_encode :: "string \<Rightarrow> string" where
  "base64url_encode (a # b # c # rest) =
     (let v = push_bit 16 (u32_of a) OR push_bit 8 (u32_of b) OR u32_of c
      in sextet kAlphabet 18 v # sextet kAlphabet 12 v # sextet kAlphabet 6 v # sextet kAlphabet 0 v
         # base64url_encode rest)"
| "base64url_encode [a, b] =
     (let v = push_bit 16 (u32_of a) OR push_bit 8 (u32_of b)
      in [sextet kAlphabet 18 v, sextet kAlphabet 12 v, sextet kAlphabet 6 v])"
| "base64url_encode [a] =
     (let v = push_bit 16 (u32_of a) in [sextet kAlphabet 18 v, sextet kAlphabet 12 v])"
| "base64url_encode [] = []"

fun base64_encode :: "string \<Rightarrow> string" where
  "base64_encode (a # b # c # rest) =
     (let v = push_bit 16 (u32_of a) OR push_bit 8 (u32_of b) OR u32_of c
      in sextet kStd 18 v # sextet kStd 12 v # sextet kStd 6 v # sextet kStd 0 v
         # base64_encode rest)"
| "base64_encode [a, b] =
     (let v = push_bit 16 (u32_of a) OR push_bit 8 (u32_of b)
      in [sextet kStd 18 v, sextet kStd 12 v, sextet kStd 6 v, CHR ''=''])"
| "base64_encode [a] =
     (let v = push_bit 16 (u32_of a) in [sextet kStd 18 v, sextet kStd 12 v, CHR ''='', CHR ''=''])"
| "base64_encode [] = []"

text \<open>The decoder's loop: accumulator, pending bits, output; false on a foreign character.\<close>

fun b64_loop :: "string \<Rightarrow> u32 \<Rightarrow> nat \<Rightarrow> string \<Rightarrow> bool \<times> string" where
  "b64_loop [] acc bits out = (True, out)"
| "b64_loop (c # cs) acc bits out =
     (if c = CHR ''='' then (True, out)
      else let d = decode_char c
           in if d < 0 then (False, out)
              else let acc' = push_bit 6 acc OR of_int d;
                       bits' = bits + 6
                   in if bits' \<ge> 8
                      then b64_loop cs acc' (bits' - 8) (out @ [low_char (drop_bit (bits' - 8) acc')])
                      else b64_loop cs acc' bits' out)"

definition base64url_decode :: "string \<Rightarrow> bool \<times> string" where
  "base64url_decode text = b64_loop text 0 0 []"

section \<open>Comparison\<close>

definition constant_time_equal :: "string \<Rightarrow> string \<Rightarrow> bool" where
  "constant_time_equal a b =
     (if length a \<noteq> length b then False
      else fold (\<lambda>(x, y) diff. diff OR (of_char x XOR of_char y)) (zip a b) (0 :: u8) = 0)"

section \<open>Lemmas\<close>

lemma u32_of_nat: "u32_of c = word_of_nat (byte c)"
  by (simp add: of_nat_of_char)

lemma u32_of_high [simp]: "8 \<le> n \<Longrightarrow> \<not> bit (u32_of a) n"
  unfolding u32_of_nat using nat_high_bits [of "byte a" 8 n] by (simp add: bit_simps)

lemma unat_u32_of [simp]: "unat (u32_of a) = byte a"
proof -
  have "byte a < 2 ^ 32" by (rule order.strict_trans [OF byte_less_256]) simp
  then have "byte a mod 2 ^ 32 = byte a" by (rule mod_less)
  then show ?thesis by (simp add: u32_of_nat unat_of_nat del: of_nat_of_char)
qed

lemma low_byte_eqI:
  assumes "\<And>n. n \<in> {0, 1, 2, 3, 4, 5, 6, 7 :: nat} \<Longrightarrow> bit x n \<longleftrightarrow> bit (u32_of a) n"
  shows "low_char x = a"
proof -
  have "x AND 0xFF = u32_of a"
  proof (rule bit_word_eqI)
    fix n assume "n < LENGTH(32)"
    have "x AND 0xFF = take_bit 8 x" by (simp add: take_bit_eq_mask mask_numeral)
    moreover have "n < 8 \<Longrightarrow> n \<in> {0, 1, 2, 3, 4, 5, 6, 7}" by auto
    ultimately show "bit (x AND 0xFF) n = bit (u32_of a) n"
      using assms [of n] by (cases "n < 8") (simp_all add: bit_simps)
  qed
  then show ?thesis by simp
qed

lemma decode_alphabet:
  assumes "k < 64"
  shows "decode_char (kAlphabet ! k) = int k \<and> kAlphabet ! k \<noteq> CHR ''=''"
proof -
  have "list_all (\<lambda>k. decode_char (kAlphabet ! k) = int k \<and> kAlphabet ! k \<noteq> CHR ''='') [0..<64]"
    by code_simp
  with assms show ?thesis by (simp add: list_all_iff)
qed

lemma and_0x3F: "x AND 0x3F = take_bit 6 (x :: u32)"
  by (simp add: take_bit_eq_mask mask_numeral)

lemma b64_loop_sextet:
  "b64_loop (sextet kAlphabet sh v # cs) acc bits out =
     (let acc' = push_bit 6 acc OR take_bit 6 (drop_bit sh v)
      in if bits \<ge> 2
         then b64_loop cs acc' (bits - 2) (out @ [low_char (drop_bit (bits - 2) acc')])
         else b64_loop cs acc' (bits + 6) out)"
proof -
  let ?k = "unat (take_bit 6 (drop_bit sh v))"
  have "?k < 2 ^ 6" by (simp add: take_bit_eq_mod unat_mod)
  then have "decode_char (kAlphabet ! ?k) = int ?k" "kAlphabet ! ?k \<noteq> CHR ''=''"
    using decode_alphabet [of ?k] by simp_all
  then show ?thesis
    by (simp add: sextet_def and_0x3F Let_def)
qed

lemma sextets_three:
  fixes acc :: u32 and a b c :: char
  defines "v \<equiv> push_bit 16 (u32_of a) OR push_bit 8 (u32_of b) OR u32_of c"
  defines "acc1 \<equiv> push_bit 6 acc OR take_bit 6 (drop_bit 18 v)"
  defines "acc2 \<equiv> push_bit 6 acc1 OR take_bit 6 (drop_bit 12 v)"
  defines "acc3 \<equiv> push_bit 6 acc2 OR take_bit 6 (drop_bit 6 v)"
  defines "acc4 \<equiv> push_bit 6 acc3 OR take_bit 6 (drop_bit 0 v)"
  shows "low_char (drop_bit 4 acc2) = a" "low_char (drop_bit 2 acc3) = b" "low_char (drop_bit 0 acc4) = c"
  unfolding v_def acc1_def acc2_def acc3_def acc4_def
  by (intro low_byte_eqI; elim insertE emptyE; simp add: bit_simps)+

lemma sextets_two:
  fixes acc :: u32 and a b :: char
  defines "v \<equiv> push_bit 16 (u32_of a) OR push_bit 8 (u32_of b)"
  defines "acc1 \<equiv> push_bit 6 acc OR take_bit 6 (drop_bit 18 v)"
  defines "acc2 \<equiv> push_bit 6 acc1 OR take_bit 6 (drop_bit 12 v)"
  defines "acc3 \<equiv> push_bit 6 acc2 OR take_bit 6 (drop_bit 6 v)"
  shows "low_char (drop_bit 4 acc2) = a" "low_char (drop_bit 2 acc3) = b"
  unfolding v_def acc1_def acc2_def acc3_def
  by (intro low_byte_eqI; elim insertE emptyE; simp add: bit_simps)+

lemma sextets_one:
  fixes acc :: u32 and a :: char
  defines "v \<equiv> push_bit 16 (u32_of a)"
  defines "acc1 \<equiv> push_bit 6 acc OR take_bit 6 (drop_bit 18 v)"
  defines "acc2 \<equiv> push_bit 6 acc1 OR take_bit 6 (drop_bit 12 v)"
  shows "low_char (drop_bit 4 acc2) = a"
  unfolding v_def acc1_def acc2_def
  by (intro low_byte_eqI; elim insertE emptyE; simp add: bit_simps)+

lemma b64_loop_encode: "b64_loop (base64url_encode s) acc 0 out = (True, out @ s)"
proof (induction s arbitrary: acc out rule: base64url_encode.induct)
  case (1 a b c rest)
  then show ?case
    using sextets_three [of acc a b c]
    by (simp add: Let_def b64_loop_sextet del: b64_loop.simps(2))
next
  case (2 a b)
  then show ?case
    using sextets_two [of acc a b] by (simp add: Let_def b64_loop_sextet del: b64_loop.simps(2))
next
  case (3 a)
  then show ?case
    using sextets_one [of acc a] by (simp add: Let_def b64_loop_sextet del: b64_loop.simps(2))
qed simp

text \<open>SHA-256 as FIPS 180-4 states it: the whole message is padded, then hashed block by block.\<close>

definition sha_pad :: "string \<Rightarrow> string" where
  "sha_pad m = m @ [char_of (0x80 :: nat)] @ replicate ((119 - length m mod 64) mod 64) (char_of (0 :: nat))
     @ be64 (of_nat (8 * length m))"

definition sha256_spec :: "string \<Rightarrow> string" where
  "sha256_spec m = regs_out (compress_blocks (length (sha_pad m) div 64) (sha_pad m) sha_init)"

lemma compress_blocks_append:
  "n * kBlock \<le> length p \<Longrightarrow> compress_blocks n (p @ q) h = compress_blocks n p h"
  by (induction n arbitrary: p h) (simp_all add: kBlock_def compress_def)

lemma compress_blocks_add:
  "compress_blocks (n + k) p h = compress_blocks k (drop (n * kBlock) p) (compress_blocks n p h)"
  by (induction n arbitrary: p h) (simp_all add: add.commute)

lemma length_be64 [simp]: "length (be64 b) = 8"
  by (simp add: be64_def)

lemma length_regs_out [simp]: "length (regs_out h) = 32"
  by (simp add: regs_out_def be32_def)

lemma length_sha256 [simp]: "length (sha256 m) = 32"
  by (simp add: sha256_def Let_def)

lemma pad_zeros: "(119 - n mod 64) mod 64 = (if n mod 64 \<le> 55 then 55 - n mod 64 else 119 - n mod 64)"
  for n :: nat
proof (cases "n mod 64 \<le> 55")
  case True
  then have "119 - n mod 64 = (55 - n mod 64) + 64" by simp
  then have "(119 - n mod 64) mod 64 = (55 - n mod 64) mod 64" by (metis mod_add_self2)
  with True show ?thesis by simp
qed simp

lemma sha_tail_pad: "take (length m div 64 * 64) m @ sha_tail m = sha_pad m"
  by (simp add: sha_tail_def sha_pad_def Let_def kBlock_def mult.commute pad_zeros)

lemma length_sha_pad: "length (sha_pad m) mod 64 = 0"
proof -
  define q r where "q = length m div 64" and "r = length m mod 64"
  then have n: "length m = 64 * q + r" and r: "r < 64" by simp_all
  have "length (sha_pad m) = 64 * q + r + 9 + (if r \<le> 55 then 55 - r else 119 - r)"
    unfolding sha_pad_def length_append pad_zeros length_replicate by (simp add: n r)
  also have "\<dots> = 64 * (q + (if r \<le> 55 then 1 else 2))"
    using r by simp
  finally show ?thesis by simp
qed

lemma sha256_is_spec: "sha256 m = sha256_spec m"
proof -
  let ?n = "length m div 64" and ?t = "sha_tail m"
  have pad: "sha_pad m = take (?n * 64) m @ ?t" by (simp add: sha_tail_pad)
  have len: "length (take (?n * 64) m) = ?n * kBlock"
    by (simp add: kBlock_def)
  have "length (sha_pad m) div 64 = ?n + length ?t div 64"
    unfolding pad length_append len by (simp add: kBlock_def)
  then have "compress_blocks (length (sha_pad m) div 64) (sha_pad m) sha_init =
      compress_blocks (length ?t div 64) (drop (?n * kBlock) (sha_pad m)) (compress_blocks ?n (sha_pad m) sha_init)"
    by (simp add: compress_blocks_add)
  also have "drop (?n * kBlock) (sha_pad m) = ?t"
    unfolding pad using len by (simp add: kBlock_def)
  also have "compress_blocks ?n (sha_pad m) sha_init = compress_blocks ?n m sha_init"
  proof -
    have "compress_blocks ?n (sha_pad m) sha_init = compress_blocks ?n (take (?n * 64) m) sha_init"
      unfolding pad by (rule compress_blocks_append) (simp only: len)
    also have "\<dots> = compress_blocks ?n (take (?n * 64) m @ drop (?n * 64) m) sha_init"
      by (rule compress_blocks_append [symmetric]) (simp only: len)
    finally show ?thesis by simp
  qed
  finally show ?thesis by (simp add: sha256_def sha256_spec_def Let_def kBlock_def)
qed

text \<open>The message schedule satisfies the recurrence of the standard.\<close>

lemma length_extend_schedule [simp]: "length (extend_schedule n w) = length w + n"
  by (induction n arbitrary: w) simp_all

lemma take_extend_schedule: "k \<le> length w \<Longrightarrow> take k (extend_schedule n w) = take k w"
  by (induction n arbitrary: w) simp_all

lemma extend_schedule_nth:
  "length w \<le> i \<Longrightarrow> i < length w + n \<Longrightarrow>
   extend_schedule n w ! i = next_word (take i (extend_schedule n w))"
proof (induction n arbitrary: w)
  case (Suc n)
  let ?e = "extend_schedule n (w @ [next_word w])"
  show ?case
  proof (cases "i = length w")
    case True
    have "take (Suc i) ?e = w @ [next_word w]" using True by (simp add: take_extend_schedule)
    moreover from this have "?e ! i = next_word w" using True
      by (metis lessI nth_append_length nth_take)
    moreover have "take i ?e = w" using True by (simp add: take_extend_schedule)
    ultimately show ?thesis by simp
  next
    case False
    with Suc.IH [of "w @ [next_word w]"] Suc.prems show ?thesis by simp
  qed
qed simp

lemma fold_or_zero:
  "fold (\<lambda>(x, y) diff. diff OR (of_char x XOR of_char y)) zs (d :: u8) = 0 \<longleftrightarrow>
   d = 0 \<and> (\<forall>(x, y) \<in> set zs. (of_char x :: u8) = of_char y)"
proof (induction zs arbitrary: d)
  case (Cons z zs)
  have "(x :: u8) XOR y = 0 \<longleftrightarrow> x = y" for x y
    by (metis xor_self_eq xor.assoc xor.left_neutral xor.right_neutral)
  with Cons show ?case by (auto simp: or_eq_0_iff split: prod.splits)
qed simp

lemma u8_of_char_eq: "(of_char x :: u8) = of_char y \<longleftrightarrow> x = y"
proof
  assume "(of_char x :: u8) = of_char y"
  then have "unat (word_of_nat (byte x) :: u8) = unat (word_of_nat (byte y) :: u8)"
    by (simp add: of_nat_of_char)
  then show "x = y" by (simp add: unat_of_nat del: of_nat_of_char)
qed simp

lemma length_hmac_key [simp]: "length (hmac_key k) = kBlock"
  by (simp add: hmac_key_def Let_def kBlock_def)

lemma hmac_key_idem [simp]: "hmac_key (hmac_key k) = hmac_key k"
  by (simp add: hmac_key_def [of "hmac_key k"])

text \<open>The two alphabets differ in their last two characters; the standard variant also pads.\<close>

definition std_char :: "char \<Rightarrow> char" where
  "std_char c = (if c = CHR ''-'' then CHR ''+'' else if c = CHR ''_'' then CHR ''/'' else c)"

lemma sextet_bound: "unat (drop_bit sh v AND (0x3F :: u32)) < 64"
proof -
  have "unat (take_bit 6 (drop_bit sh v)) < 2 ^ 6"
    by (simp add: take_bit_eq_mod unat_mod)
  then show ?thesis by (simp add: and_0x3F)
qed

lemma sextet_std: "sextet kStd sh v = std_char (sextet kAlphabet sh v)"
proof -
  have "list_all (\<lambda>k. kStd ! k = std_char (kAlphabet ! k)) [0..<64]"
    by code_simp
  with sextet_bound [of sh v] show ?thesis by (simp add: list_all_iff sextet_def)
qed

lemma sextet_in_alphabet: "sextet kAlphabet sh v \<in> set kAlphabet"
proof -
  have "length kAlphabet = 64" by code_simp
  with sextet_bound [of sh v] show ?thesis by (simp add: sextet_def)
qed

lemma base64_std_url:
  "base64_encode s = map std_char (base64url_encode s) @ replicate ((3 - length s mod 3) mod 3) (CHR ''='')"
proof (induction s rule: base64url_encode.induct)
  case (1 a b c rest)
  have "length (a # b # c # rest) mod 3 = length rest mod 3" by simp
  with 1 show ?case by (simp add: Let_def sextet_std)
qed (simp_all add: Let_def sextet_std numeral_2_eq_2)

lemma length_base64url: "length (base64url_encode s) = (length s * 4 + 2) div 3"
  by (induction s rule: base64url_encode.induct) (simp_all add: Let_def)

lemma base64url_chars: "set (base64url_encode s) \<subseteq> set kAlphabet"
  by (induction s rule: base64url_encode.induct) (simp_all add: Let_def sextet_in_alphabet)

section \<open>Base64url as a codec\<close>

definition b64url_dec :: "string \<Rightarrow> string option" where
  "b64url_dec s = (case base64url_decode s of (True, x) \<Rightarrow> Some x | (False, _) \<Rightarrow> None)"

interpretation b64url: codec base64url_encode b64url_dec "\<lambda>_. True"
  by unfold_locales (simp add: b64url_dec_def base64url_decode_def b64_loop_encode)

section \<open>Properties\<close>


text \<open>The message schedule that \<open>compress\<close> builds in place is the one of the standard: 64
  words, the first sixteen the block's, every later one given by the recurrence.\<close>

theorem schedule_recurrence:
  assumes "length b = 64" and "16 \<le> i" and "i < 64"
  defines "W \<equiv> extend_schedule 48 (block_words b)"
  shows "length W = 64 \<and> take 16 W = block_words b \<and>
    W ! i = W ! (i - 16) + sigma0 (W ! (i - 15)) + W ! (i - 7) + sigma1 (W ! (i - 2))"
proof -
  have bw: "length (block_words s) = length s div 4" for s
    by (induction s rule: block_words.induct) simp_all
  then have len: "length (block_words b) = 16" using assms(1) by simp
  then have "W ! i = next_word (take i W)"
    unfolding W_def using assms(2,3) by (intro extend_schedule_nth) simp_all
  with len assms(2,3) show ?thesis
    by (simp add: W_def take_extend_schedule next_word_def Let_def)
qed

theorem schedule_recurrence_witness:
  "extend_schedule 48 (block_words (replicate 64 (CHR ''a''))) ! 16 =
     (let W = extend_schedule 48 (block_words (replicate 64 (CHR ''a'')))
      in W ! 0 + sigma0 (W ! 1) + W ! 9 + sigma1 (W ! 14))"
  using schedule_recurrence [of "replicate 64 (CHR ''a'')" 16] by (simp add: Let_def)

text \<open>HMAC depends on its key only through the 64-byte block made of it: a longer key is
  replaced by its digest, a shorter one filled with zero bytes.\<close>

theorem hmac_key_block:
  "length (hmac_key k) = kBlock \<and> hmac_sha256 k m = hmac_sha256 (hmac_key k) m
   \<and> hmac_sha256 k m = sha256_spec (map (xor_char 0x5c) (hmac_key k)
        @ sha256_spec (map (xor_char 0x36) (hmac_key k) @ m))"
  by (simp add: hmac_sha256_def Let_def flip: sha256_is_spec)

text \<open>What \<open>base64url_encode\<close> writes, \<open>base64url_decode\<close> reads back.\<close>

theorem base64url_roundtrip: "base64url_decode (base64url_encode s) = (True, s)"
  by (simp add: base64url_decode_def b64_loop_encode)

text \<open>The URL-safe encoding has no padding and uses only its 64 characters; the standard one
  is the same text with two characters exchanged, padded to a multiple of four.\<close>

theorem base64_variants:
  "set (base64url_encode s) \<subseteq> set kAlphabet \<and> length (base64url_encode s) = (length s * 4 + 2) div 3
   \<and> base64_encode s =
      map std_char (base64url_encode s) @ replicate ((3 - length s mod 3) mod 3) (CHR ''='')
   \<and> length (base64_encode s) mod 4 = 0"
proof -
  have "length (base64_encode s) mod 4 = 0"
    by (induction s rule: base64_encode.induct) (simp_all add: Let_def)
  then show ?thesis by (simp add: base64url_chars length_base64url flip: base64_std_url)
qed

text \<open>The comparison that looks at every byte decides equality.\<close>

theorem constant_time_equal_iff: "constant_time_equal a b \<longleftrightarrow> a = b"
  by (auto simp: constant_time_equal_def fold_or_zero u8_of_char_eq list_eq_iff_nth_eq set_zip)

end
