(* ===== verification/WebSocket.thy ===== *)
theory WebSocket
  imports Crypto
begin

unbundle bit_operations_syntax

text \<open>
  The WebSocket protocol (include/lohin/websocket.hpp): the handshake key (SHA-1 and
  Base64), the frame builder and the incremental frame parser of \<open>WSState\<close>.  The outbound
  frames of \<open>send_fn\<close> are collected in the field \<open>sent\<close>; the suspended receiver is a flag, and
  the operations that resume it report so.
\<close>

abbreviation u8_of :: "char \<Rightarrow> u8" where
  "u8_of c \<equiv> of_char c"

abbreviation chr8 :: "u8 \<Rightarrow> char" where
  "chr8 w \<equiv> char_of (unat w)"

section \<open>The handshake: SHA-1, Base64, accept key\<close>

definition sha1_next :: "u32 list \<Rightarrow> u32" where
  "sha1_next w = (let i = length w; t = w ! (i - 3) XOR w ! (i - 8) XOR w ! (i - 14) XOR w ! (i - 16)
     in push_bit 1 t OR drop_bit 31 t)"

fun sha1_schedule :: "nat \<Rightarrow> u32 list \<Rightarrow> u32 list" where
  "sha1_schedule 0 w = w"
| "sha1_schedule (Suc n) w = sha1_schedule n (w @ [sha1_next w])"

record sha1_regs = s0 :: u32  s1 :: u32  s2 :: u32  s3 :: u32  s4 :: u32

definition sha1_round :: "nat \<times> u32 \<Rightarrow> sha1_regs \<Rightarrow> sha1_regs" where
  "sha1_round iw r = (case iw of (i, w) \<Rightarrow>
     (let a = s0 r; b = s1 r; c = s2 r; d = s3 r; e = s4 r;
          (f, k) = (if i < 20 then ((b AND c) OR (NOT b AND d), 0x5A827999)
                    else if i < 40 then (b XOR c XOR d, 0x6ED9EBA1)
                    else if i < 60 then ((b AND c) OR (b AND d) OR (c AND d), 0x8F1BBCDC)
                    else (b XOR c XOR d, 0xCA62C1D6));
          tmp = (push_bit 5 a OR drop_bit 27 a) + f + e + k + w
      in \<lparr>s0 = tmp, s1 = a, s2 = push_bit 30 b OR drop_bit 2 b, s3 = c, s4 = d\<rparr>))"

definition sha1_compress :: "string \<Rightarrow> sha1_regs \<Rightarrow> sha1_regs" where
  "sha1_compress blk s =
     (let w = sha1_schedule 64 (block_words (take 64 blk));
          r = fold sha1_round (enumerate 0 w) s
      in \<lparr>s0 = s0 s + s0 r, s1 = s1 s + s1 r, s2 = s2 s + s2 r, s3 = s3 s + s3 r, s4 = s4 s + s4 r\<rparr>)"

fun sha1_blocks :: "nat \<Rightarrow> string \<Rightarrow> sha1_regs \<Rightarrow> sha1_regs" where
  "sha1_blocks 0 p s = s"
| "sha1_blocks (Suc n) p s = sha1_blocks n (drop 64 p) (sha1_compress p s)"

text \<open>\<open>while (p.size() % 64 != 56) p += char(0)\<close>\<close>

definition sha1_pad :: "string \<Rightarrow> string" where
  "sha1_pad msg =
     (let p = msg @ [char_of (0x80 :: nat)]
      in p @ replicate ((120 - length p mod 64) mod 64) (char_of (0 :: nat)) @ be64 (of_nat (length msg) * 8))"

definition sha1 :: "string \<Rightarrow> string" where
  "sha1 msg =
     (let p = sha1_pad msg;
          s = sha1_blocks (length p div 64) p
            \<lparr>s0 = 0x67452301, s1 = 0xEFCDAB89, s2 = 0x98BADCFE, s3 = 0x10325476, s4 = 0xC3D2E1F0\<rparr>
      in be32 (s0 s) @ be32 (s1 s) @ be32 (s2 s) @ be32 (s3 s) @ be32 (s4 s))"

text \<open>The Base64 of the handshake, one loop with optional bytes.\<close>

fun ws_base64 :: "string \<Rightarrow> string" where
  "ws_base64 [] = []"
| "ws_base64 (x # xs) =
     (let n1 = xs \<noteq> []; n2 = drop 1 xs \<noteq> [];
          b = push_bit 16 (u32_of x) OR (if n1 then push_bit 8 (u32_of (hd xs)) else 0)
            OR (if n2 then u32_of (hd (drop 1 xs)) else 0)
      in sextet kStd 18 b # sextet kStd 12 b # (if n1 then sextet kStd 6 b else CHR ''='')
         # (if n2 then sextet kStd 0 b else CHR ''='') # ws_base64 (drop 2 xs))"

definition ws_accept :: "string \<Rightarrow> string" where
  "ws_accept client_key = ws_base64 (sha1 (client_key @ ''258EAFA5-E914-47DA-95CA-C5AB0DC85B11''))"

section \<open>Frames\<close>

definition low8 :: "nat \<Rightarrow> char" where
  "low8 n = char_of (n mod 256)"

text \<open>\<open>build_frame\<close>: an unmasked frame with the shortest of the three length forms.\<close>

definition frame_length :: "u8 \<Rightarrow> nat \<Rightarrow> string" where
  "frame_length mask_bit n =
     (if n < 126 then [chr8 (mask_bit OR of_nat n)]
      else if n < 65536 then [chr8 (mask_bit OR 126), low8 (n div 256), low8 n]
      else chr8 (mask_bit OR 127) # be64 (of_nat n))"

definition build_frame :: "string \<Rightarrow> u8 \<Rightarrow> bool \<Rightarrow> string" where
  "build_frame payload opcode fin =
     chr8 ((if fin then 0x80 else 0x00) OR opcode) # frame_length 0 (length payload) @ payload"

record ws_message =
  opcode :: u8
  data :: string

definition is_text :: "ws_message \<Rightarrow> bool" where "is_text m \<longleftrightarrow> opcode m = 0x1"
definition is_binary :: "ws_message \<Rightarrow> bool" where "is_binary m \<longleftrightarrow> opcode m = 0x2"
definition is_close :: "ws_message \<Rightarrow> bool" where "is_close m \<longleftrightarrow> opcode m = 0x8"
definition is_ping :: "ws_message \<Rightarrow> bool" where "is_ping m \<longleftrightarrow> opcode m = 0x9"
definition is_pong :: "ws_message \<Rightarrow> bool" where "is_pong m \<longleftrightarrow> opcode m = 0xA"

section \<open>The connection state\<close>

record ws_state =
  can_send :: bool
  token_live :: bool
  read_buf :: string
  pending :: "ws_message list"
  frag_buf :: string
  frag_opcode :: u8
  recv_waiter :: bool
  closed :: bool
  sent :: "string list"

definition kMaxFramePayload :: nat where "kMaxFramePayload = 16 * 1024 * 1024"
definition kMaxMessageSize :: nat where "kMaxMessageSize = 16 * 1024 * 1024"
definition kMaxPendingFrames :: nat where "kMaxPendingFrames = 256"

definition raw_send :: "string \<Rightarrow> ws_state \<Rightarrow> ws_state" where
  "raw_send frame st = (if can_send st then st\<lparr>sent := sent st @ [frame]\<rparr> else st)"

definition fail_close :: "nat \<Rightarrow> ws_state \<Rightarrow> ws_state" where
  "fail_close code st =
     (raw_send [char_of (0x88 :: nat), char_of (2 :: nat), low8 (code div 256), low8 code] st)\<lparr>closed := True\<rparr>"

text \<open>The header of the first frame of a buffer, with the checks in the order of the code.\<close>

datatype ws_header =
    NeedMore
  | Violation nat
  | TooBig
  | Header bool u8 bool nat nat

definition payload_length :: "u8 \<Rightarrow> string \<Rightarrow> (u64 \<times> nat) option" where
  "payload_length len7 b =
     (if len7 = 126 then
        (if length b < 4 then None
         else Some (push_bit 8 (of_char (b ! 2)) OR of_char (b ! 3), 4))
      else if len7 = 127 then
        (if length b < 10 then None
         else Some (fold (\<lambda>c n. push_bit 8 n OR of_char c) (take 8 (drop 2 b)) 0, 10))
      else Some (ucast len7, 2))"

definition parse_header :: "string \<Rightarrow> ws_header" where
  "parse_header b =
     (if length b < 2 then NeedMore
      else let p0 = u8_of (b ! 0); p1 = u8_of (b ! 1);
               fin = (p0 AND 0x80 \<noteq> 0); rsv = p0 AND 0x70; op = p0 AND 0x0F;
               masked = (p1 AND 0x80 \<noteq> 0); len7 = p1 AND 0x7F;
               is_control = (op AND 0x08 \<noteq> 0)
           in if rsv \<noteq> 0 then Violation 1002
              else if (\<not> is_control \<and> op > 0x2) \<or> (is_control \<and> op > 0xA) then Violation 1002
              else case payload_length len7 b of
                     None \<Rightarrow> NeedMore
                   | Some (plen, hdr) \<Rightarrow>
                       if len7 = 127 \<and> plen AND push_bit 63 1 \<noteq> 0 then Violation 1002
                       else if is_control \<and> (\<not> fin \<or> plen > 125) then Violation 1002
                       else if unat plen > kMaxFramePayload then TooBig
                       else Header fin op masked (if masked then hdr + 4 else hdr) (unat plen))"

definition unmask :: "string \<Rightarrow> string \<Rightarrow> string" where
  "unmask key payload = map (\<lambda>(i, c). xor_char (u8_of (key ! (i mod 4))) c) (enumerate 0 payload)"

datatype flow = Break | Return | Continue

definition push_msg :: "u8 \<Rightarrow> string \<Rightarrow> ws_state \<Rightarrow> ws_state" where
  "push_msg op d st = st\<lparr>pending := pending st @ [\<lparr>opcode = op, data = d\<rparr>]\<rparr>"

definition close_echo :: "string \<Rightarrow> string" where
  "close_echo payload = char_of (0x88 :: nat) #
     (if length payload \<ge> 2 then [char_of (2 :: nat), payload ! 0, payload ! 1] else [char_of (0 :: nat)])"

text \<open>What a complete frame does to the state: control frames, then the fragmentation rules.\<close>

definition handle_frame :: "bool \<Rightarrow> u8 \<Rightarrow> string \<Rightarrow> ws_state \<Rightarrow> ws_state \<times> flow" where
  "handle_frame fin op payload st =
     (let fragmenting = (frag_buf st \<noteq> [] \<or> frag_opcode st \<noteq> 0)
      in if op = 0x8 then (push_msg 0x8 payload (raw_send (close_echo payload) (st\<lparr>closed := True\<rparr>)), Return)
         else if op = 0x9 then (raw_send (build_frame payload 0xA True) st, Continue)
         else if op = 0xA then (push_msg 0xA payload st, Continue)
         else if op = 0x0 then
           (if \<not> fragmenting then (fail_close 1002 st, Return)
            else if length (frag_buf st) + length payload > kMaxMessageSize then (fail_close 1009 st, Return)
            else let st1 = st\<lparr>frag_buf := frag_buf st @ payload\<rparr>
                 in if fin then ((push_msg (frag_opcode st1) (frag_buf st1) st1)\<lparr>frag_buf := [], frag_opcode := 0\<rparr>, Continue)
                    else (st1, Continue))
         else if fragmenting then (fail_close 1002 st, Return)
         else if \<not> fin then (st\<lparr>frag_opcode := op, frag_buf := payload\<rparr>, Continue)
         else (push_msg op payload st, Continue))"

text \<open>One round of the loop of \<open>try_parse\<close>.\<close>

definition ws_step :: "ws_state \<Rightarrow> ws_state \<times> flow" where
  "ws_step st =
     (let b = read_buf st
      in case parse_header b of
           NeedMore \<Rightarrow> (st, Break)
         | Violation code \<Rightarrow> (fail_close code st, Return)
         | TooBig \<Rightarrow> (st\<lparr>closed := True\<rparr>, Return)
         | Header fin op masked hdr plen \<Rightarrow>
             if length b < hdr + plen then (st, Break)
             else if length (pending st) \<ge> kMaxPendingFrames then (st\<lparr>closed := True\<rparr>, Return)
             else let raw = take plen (drop hdr b);
                      payload = (if masked then unmask (take 4 (drop (hdr - 4) b)) raw else raw)
                  in handle_frame fin op payload (st\<lparr>read_buf := drop (hdr + plen) b\<rparr>))"

section \<open>The parser loop\<close>

lemma raw_send_fields [simp]:
  "read_buf (raw_send f st) = read_buf st" "pending (raw_send f st) = pending st"
  "frag_buf (raw_send f st) = frag_buf st" "frag_opcode (raw_send f st) = frag_opcode st"
  "closed (raw_send f st) = closed st" "recv_waiter (raw_send f st) = recv_waiter st"
  "can_send (raw_send f st) = can_send st" "token_live (raw_send f st) = token_live st"
  by (simp_all add: raw_send_def)

lemma handle_frame_read_buf [simp]: "read_buf (fst (handle_frame fin op p st)) = read_buf st"
  by (simp add: handle_frame_def push_msg_def fail_close_def Let_def)

lemma parse_header_bounds:
  "parse_header b = Header fin op masked hdr plen \<Longrightarrow>
   2 \<le> hdr \<and> hdr \<le> 14 \<and> plen \<le> kMaxFramePayload \<and> (masked \<longrightarrow> 6 \<le> hdr)"
  by (auto simp: parse_header_def payload_length_def Let_def split: if_splits option.splits)

lemma ws_step_shrinks:
  "ws_step st = (st', Continue) \<Longrightarrow> length (read_buf st') < length (read_buf st)"
proof -
  assume a: "ws_step st = (st', Continue)"
  then obtain fin op masked hdr plen where h: "parse_header (read_buf st) = Header fin op masked hdr plen"
    by (auto simp: ws_step_def Let_def split: ws_header.splits)
  with a have le: "hdr + plen \<le> length (read_buf st)"
    by (auto simp: ws_step_def Let_def split: if_splits)
  from a h have "read_buf st' = drop (hdr + plen) (read_buf st)"
    by (auto simp: ws_step_def Let_def split: if_splits
        dest: arg_cong [where f = "\<lambda>x. read_buf (fst x)"])
  moreover have "length (read_buf st) - (hdr + plen) < length (read_buf st)"
    using le parse_header_bounds [OF h] by linarith
  ultimately show ?thesis by simp
qed

function try_parse :: "ws_state \<Rightarrow> ws_state" where
  "try_parse st = (case ws_step st of
       (st', Continue) \<Rightarrow> try_parse st'
     | (st', Break) \<Rightarrow> st'
     | (st', Return) \<Rightarrow> st')"
  by pat_completeness auto
termination
  by (relation "measure (\<lambda>st. length (read_buf st))") (auto dest: ws_step_shrinks [OF sym])

declare try_parse.simps [simp del]

text \<open>
  A suspended receiver is resumed once there is a message or the connection is closed; the
  flag in the result says whether it was.
\<close>

definition resume_waiter_if_ready :: "ws_state \<Rightarrow> ws_state \<times> bool" where
  "resume_waiter_if_ready st =
     (if \<not> recv_waiter st then (st, False)
      else if pending st = [] \<and> \<not> closed st then (st, False)
      else (st\<lparr>recv_waiter := False\<rparr>, True))"

definition ws_append :: "string \<Rightarrow> ws_state \<Rightarrow> ws_state" where
  "ws_append b st = st\<lparr>read_buf := read_buf st @ b\<rparr>"

definition ws_feed :: "string \<Rightarrow> ws_state \<Rightarrow> ws_state \<times> bool" where
  "ws_feed bytes st =
     resume_waiter_if_ready (try_parse (ws_append bytes st))"

definition notify_closed :: "ws_state \<Rightarrow> ws_state \<times> bool" where
  "notify_closed st =
     (if recv_waiter st then (st\<lparr>closed := True, recv_waiter := False\<rparr>, True)
      else (st\<lparr>closed := True\<rparr>, False))"

text \<open>\<open>RecvAwaitable\<close>: ready, suspend, resume.\<close>

definition await_ready :: "ws_state \<Rightarrow> bool" where
  "await_ready st \<longleftrightarrow> pending st \<noteq> [] \<or> closed st"

definition await_suspend :: "ws_state \<Rightarrow> ws_state" where
  "await_suspend st = st\<lparr>recv_waiter := True\<rparr>"

definition await_resume :: "ws_state \<Rightarrow> ws_state \<times> ws_message option" where
  "await_resume st = (case pending st of
       [] \<Rightarrow> (st, None)
     | m # ms \<Rightarrow> (st\<lparr>pending := ms\<rparr>, Some m))"

text \<open>The wake callback a suspended receiver leaves with its cancellation token.\<close>

definition cancel_wake :: "ws_state \<Rightarrow> ws_state" where
  "cancel_wake st = st\<lparr>closed := True, recv_waiter := False\<rparr>"

definition is_open :: "ws_state \<Rightarrow> bool" where
  "is_open st \<longleftrightarrow> \<not> closed st \<and> token_live st"

definition write_frame :: "string \<Rightarrow> u8 \<Rightarrow> ws_state \<Rightarrow> ws_state \<times> bool" where
  "write_frame payload op st =
     (if \<not> is_open st then (st, False)
      else if \<not> can_send st then (st, False)
      else (st\<lparr>sent := sent st @ [build_frame payload op True]\<rparr>, True))"

definition ws_send :: "string \<Rightarrow> ws_state \<Rightarrow> ws_state \<times> bool" where
  "ws_send text = write_frame text 0x1"

definition ws_send_binary :: "string \<Rightarrow> ws_state \<Rightarrow> ws_state \<times> bool" where
  "ws_send_binary d = write_frame d 0x2"

definition ws_ping :: "string \<Rightarrow> ws_state \<Rightarrow> ws_state \<times> bool" where
  "ws_ping payload = write_frame payload 0x9"

definition ws_close :: "nat \<Rightarrow> ws_state \<Rightarrow> ws_state" where
  "ws_close code st =
     (if closed st then st
      else raw_send [char_of (0x88 :: nat), char_of (2 :: nat), low8 (code div 256), low8 code]
             (st\<lparr>closed := True\<rparr>))"

section \<open>More bytes behind a frame\<close>

definition ws_next :: "ws_state \<Rightarrow> ws_state option" where
  "ws_next st = (case ws_step st of (st', Continue) \<Rightarrow> Some st' | _ \<Rightarrow> None)"

lemma payload_length_append:
  "2 \<le> length b \<Longrightarrow> payload_length l b = Some r \<Longrightarrow> payload_length l (b @ c) = Some r"
  by (auto simp: payload_length_def nth_append split: if_splits)

lemma parse_header_append:
  assumes "parse_header b \<noteq> NeedMore"
  shows "parse_header (b @ c) = parse_header b"
proof -
  from assms have len: "2 \<le> length b" by (auto simp: parse_header_def split: if_splits)
  have nth: "(b @ c) ! 0 = b ! 0" "(b @ c) ! 1 = b ! 1"
    by (rule nth_append_left, use len in linarith)+
  show ?thesis
  proof (cases "payload_length (u8_of (b ! 1) AND 0x7F) b")
    case None
    with assms len show ?thesis
      unfolding parse_header_def Let_def nth by (auto split: if_splits)
  next
    case (Some r)
    from payload_length_append [OF len this] Some len show ?thesis
      unfolding parse_header_def Let_def nth by simp
  qed
qed

lemma handle_frame_append:
  "handle_frame fin op p (ws_append c st) =
     (case handle_frame fin op p st of (st', f) \<Rightarrow> (ws_append c st', f))"
  by (simp add: handle_frame_def ws_append_def push_msg_def fail_close_def raw_send_def Let_def)

lemma ws_step_append:
  assumes "parse_header (read_buf st) \<noteq> NeedMore" and "snd (ws_step st) \<noteq> Break"
  shows "ws_step (ws_append c st) = (ws_append c (fst (ws_step st)), snd (ws_step st))"
proof (cases "parse_header (read_buf st)")
  case (Header fin op masked hdr plen)
  then have h: "parse_header (read_buf st @ c) = Header fin op masked hdr plen"
    using assms(1) by (simp add: parse_header_append)
  from assms(2) Header have le: "hdr + plen \<le> length (read_buf st)"
    by (auto simp: ws_step_def Let_def split: if_splits)
  have "hdr - 4 + 4 \<le> length (read_buf st)" if masked
    using le parse_header_bounds [OF Header] that by simp
  with le have slices: "take plen (drop hdr (read_buf st @ c)) = take plen (drop hdr (read_buf st))"
    "masked \<Longrightarrow> take 4 (drop (hdr - 4) (read_buf st @ c)) = take 4 (drop (hdr - 4) (read_buf st))"
    "drop (hdr + plen) (read_buf st @ c) = drop (hdr + plen) (read_buf st) @ c"
    by simp_all
  let ?pl = "\<lambda>b. if masked then unmask (take 4 (drop (hdr - 4) b)) (take plen (drop hdr b))
                 else take plen (drop hdr b)"
  have pl: "?pl (read_buf st @ c) = ?pl (read_buf st)"
    using slices by (cases masked) (simp_all only: if_True if_False)
  have upd: "(ws_append c st)\<lparr>read_buf := drop (hdr + plen) (read_buf st @ c)\<rparr> =
      ws_append c (st\<lparr>read_buf := drop (hdr + plen) (read_buf st)\<rparr>)"
    using slices(3) by (simp add: ws_append_def)
  have buf: "read_buf (ws_append c st) = read_buf st @ c" "pending (ws_append c st) = pending st"
    by (simp_all add: ws_append_def)
  have "\<not> length (read_buf st @ c) < hdr + plen" "\<not> length (read_buf st) < hdr + plen"
    using le by simp_all
  moreover obtain x f where hf: "handle_frame fin op (?pl (read_buf st))
      (st\<lparr>read_buf := drop (hdr + plen) (read_buf st)\<rparr>) = (x, f)"
    by (rule prod.exhaust)
  moreover from arg_cong [OF hf, of "\<lambda>y. read_buf (fst y)"]
  have "read_buf x = drop (hdr + plen) (read_buf st)" by simp
  ultimately show ?thesis
    unfolding ws_step_def buf Let_def Header h ws_header.case pl upd handle_frame_append hf
    by (simp add: ws_append_def)
qed (use assms in \<open>simp_all add: ws_step_def ws_append_def parse_header_append fail_close_def raw_send_def Let_def\<close>)

lemma ws_step_Break: "ws_step st = (st', Break) \<Longrightarrow> st' = st"
  by (auto simp: ws_step_def handle_frame_def Let_def split: ws_header.splits if_splits)

lemma ws_step_Return: "ws_step st = (st', Return) \<Longrightarrow> closed st'"
  by (auto simp: ws_step_def handle_frame_def fail_close_def push_msg_def Let_def
      split: ws_header.splits if_splits)

lemma ws_step_NeedMore: "parse_header (read_buf st) = NeedMore \<Longrightarrow> ws_step st = (st, Break)"
  by (simp add: ws_step_def)

lemma handle_frame_closed: "closed st \<Longrightarrow> closed (fst (handle_frame fin op p st))"
  by (simp add: handle_frame_def fail_close_def push_msg_def Let_def)

lemma ws_step_closed: "closed st \<Longrightarrow> closed (fst (ws_step st))"
  by (auto simp: ws_step_def fail_close_def handle_frame_closed Let_def split: ws_header.splits)

lemma try_parse_closed: "closed st \<Longrightarrow> closed (try_parse st)"
proof (induction st rule: try_parse.induct)
  case (1 st)
  obtain st' f where s: "ws_step st = (st', f)" by (cases "ws_step st")
  with ws_step_closed [OF "1.prems"] have "closed st'" by simp
  with s "1.IH" show ?case by (cases f) (simp_all add: try_parse.simps [of st])
qed

lemma try_parse_next: "ws_next st = Some st' \<Longrightarrow> try_parse st = try_parse st'"
  by (subst try_parse.simps) (auto simp: ws_next_def split: prod.splits flow.splits)

lemma try_parse_stop: "ws_next st = None \<Longrightarrow> try_parse st = fst (ws_step st)"
  by (subst try_parse.simps) (auto simp: ws_next_def split: prod.splits flow.splits)

lemma ws_step_header: "snd (ws_step st) \<noteq> Break \<Longrightarrow> parse_header (read_buf st) \<noteq> NeedMore"
  using ws_step_NeedMore by fastforce

interpretation ws: stream_parser ws_next try_parse ws_append "\<lambda>st. \<not> closed st" "\<lambda>st. length (read_buf st)"
proof (unfold_locales, goal_cases)
  case (1 st st')
  then show ?case by (auto simp: ws_next_def split: prod.splits flow.splits dest: ws_step_shrinks)
next
  case (2 st st')
  then show ?case by (rule try_parse_next)
next
  case (3 st st' b)
  then have s: "ws_step st = (st', Continue)" by (auto simp: ws_next_def split: prod.splits flow.splits)
  then have "ws_step (ws_append b st) = (ws_append b st', Continue)"
    using ws_step_append [of st b] ws_step_header [of st] by simp
  then show ?case by (simp add: ws_next_def)
next
  case (4 st)
  obtain st' f where s: "ws_step st = (st', f)" by (cases "ws_step st")
  with 4 show ?case
    by (cases f) (auto simp: ws_next_def try_parse_stop dest: ws_step_Break ws_step_Return)
next
  case (5 st b)
  obtain st' f where s: "ws_step st = (st', f)" by (cases "ws_step st")
  show ?case
  proof (cases f)
    case Break
    with s 5 ws_step_Break [of st st'] have "closed st" by (simp add: try_parse_stop)
    then have "closed (ws_append b st)" by (simp add: ws_append_def)
    from try_parse_closed [OF this] show ?thesis by simp
  next
    case Return
    with s have "ws_step (ws_append b st) = (ws_append b st', Return)"
      using ws_step_append [of st b] ws_step_header [of st] by simp
    moreover from this have "closed (ws_append b st')" by (rule ws_step_Return)
    ultimately show ?thesis by (simp add: try_parse.simps [of "ws_append b st"])
  next
    case Continue
    with s 5(1) show ?thesis by (simp add: ws_next_def)
  qed
next
  case (6 b a st)
  show ?case by (simp add: ws_append_def)
next
  case (7 st)
  show ?case by (simp add: ws_append_def)
qed

section \<open>The bounds of the state\<close>

definition ws_msg_ok :: "ws_message \<Rightarrow> bool" where
  "ws_msg_ok m \<longleftrightarrow> length (data m) \<le> kMaxMessageSize \<and> opcode m \<in> {1, 2, 8, 0xA} \<and>
     (opcode m \<in> {8, 0xA} \<longrightarrow> length (data m) \<le> 125)"

definition ws_inv :: "ws_state \<Rightarrow> bool" where
  "ws_inv st \<longleftrightarrow> length (pending st) \<le> kMaxPendingFrames \<and> (\<forall>m \<in> set (pending st). ws_msg_ok m) \<and>
     length (frag_buf st) \<le> kMaxMessageSize \<and> frag_opcode st \<in> {0, 1, 2} \<and>
     (frag_opcode st = 0 \<longrightarrow> frag_buf st = [])"

lemma ws_inv_cong:
  "pending st' = pending st \<Longrightarrow> frag_buf st' = frag_buf st \<Longrightarrow> frag_opcode st' = frag_opcode st \<Longrightarrow>
   ws_inv st' \<longleftrightarrow> ws_inv st"
  by (simp add: ws_inv_def)

lemma ws_inv_simps [simp]:
  "ws_inv (st\<lparr>read_buf := b\<rparr>) = ws_inv st" "ws_inv (st\<lparr>closed := c\<rparr>) = ws_inv st"
  "ws_inv (st\<lparr>recv_waiter := w\<rparr>) = ws_inv st" "ws_inv (st\<lparr>sent := x\<rparr>) = ws_inv st"
  "ws_inv (raw_send f st) = ws_inv st" "ws_inv (fail_close code st) = ws_inv st"
  by (rule ws_inv_cong; simp add: fail_close_def)+

lemma ws_inv_push:
  "ws_inv st \<Longrightarrow> length (pending st) < kMaxPendingFrames \<Longrightarrow> ws_msg_ok \<lparr>opcode = op, data = d\<rparr> \<Longrightarrow>
   ws_inv (push_msg op d st)"
  by (auto simp: ws_inv_def push_msg_def)

text \<open>An accepted header has a defined opcode, and a control frame is short and unfragmented.\<close>

lemma and_0x0F_cases: "(x :: u8) AND 0x0F \<in> {0, 1, 2, 3, 4, 5, 6, 7, 8, 9, 10, 11, 12, 13, 14, 15}"
proof -
  have "unat (take_bit 4 x) < 2 ^ 4" by (simp add: take_bit_eq_mod unat_mod)
  moreover have "n < 16 \<Longrightarrow> n \<in> {0, 1, 2, 3, 4, 5, 6, 7, 8, 9, 10, 11, 12, 13, 14, 15}" for n :: nat
    by (simp only: insert_iff empty_iff) presburger
  ultimately have "unat (take_bit 4 x) \<in> {0, 1, 2, 3, 4, 5, 6, 7, 8, 9, 10, 11, 12, 13, 14, 15}" by simp
  then have "word_of_nat (unat (take_bit 4 x)) \<in>
      (word_of_nat ` {0, 1, 2, 3, 4, 5, 6, 7, 8, 9, 10, 11, 12, 13, 14, 15} :: u8 set)" by (rule imageI)
  then show ?thesis by (simp add: take_bit_eq_mask mask_numeral)
qed

lemma known_opcode:
  assumes "x \<in> {0, 1, 2, 3, 4, 5, 6, 7, 8, 9, 10, 11, 12, 13, 14, 15 :: u8}"
    and "\<not> ((x AND 0x08 = 0 \<and> x > 0x2) \<or> (x AND 0x08 \<noteq> 0 \<and> x > 0xA))"
  shows "x \<in> {0, 1, 2, 8, 9, 0xA} \<and> (x \<in> {8, 9, 0xA} \<longrightarrow> x AND 0x08 \<noteq> 0)"
  using assms by (elim insertE emptyE) simp_all

lemma parse_header_control:
  assumes "parse_header b = Header fin op masked hdr plen"
  shows "op \<in> {0, 1, 2, 8, 9, 0xA} \<and> (op \<in> {8, 9, 0xA} \<longrightarrow> plen \<le> 125 \<and> fin)"
proof -
  from assms have op: "op = u8_of (b ! 0) AND 0x0F"
    and ok: "\<not> ((op AND 0x08 = 0 \<and> op > 0x2) \<or> (op AND 0x08 \<noteq> 0 \<and> op > 0xA))"
    and len: "op AND 0x08 \<noteq> 0 \<longrightarrow> fin \<and> plen \<le> 125"
    by (auto simp: parse_header_def Let_def word_less_nat_alt split: if_splits option.splits)
  from and_0x0F_cases [of "u8_of (b ! 0)"] op known_opcode [OF _ ok] len show ?thesis by blast
qed

lemma handle_frame_inv:
  assumes "ws_inv st" and "length (pending st) < kMaxPendingFrames"
    and "op \<in> {0, 1, 2, 8, 9, 0xA}" and "length p \<le> kMaxFramePayload"
    and "op \<in> {8, 9, 0xA} \<longrightarrow> length p \<le> 125"
  shows "ws_inv (fst (handle_frame fin op p st))"
proof -
  have [simp]: "kMaxMessageSize = kMaxFramePayload"
    by (simp add: kMaxMessageSize_def kMaxFramePayload_def)
  have small: "125 \<le> kMaxFramePayload" by (simp add: kMaxFramePayload_def)
  from assms(3) consider "op = 0" | "op = 1 \<or> op = 2" | "op = 8" | "op = 9" | "op = 0xA" by blast
  then show ?thesis
  proof cases
    case 1
    let ?b = "frag_buf st @ p"
    show ?thesis
    proof (cases "(frag_buf st \<noteq> [] \<or> frag_opcode st \<noteq> 0) \<and> length ?b \<le> kMaxMessageSize")
      case True
      then have op: "frag_opcode st = 1 \<or> frag_opcode st = 2" and len: "length ?b \<le> kMaxMessageSize"
        using assms(1) by (auto simp: ws_inv_def)
      have "ws_inv (st\<lparr>frag_buf := ?b\<rparr>)"
        using assms(1) op len by (auto simp: ws_inv_def)
      moreover have "ws_inv (push_msg (frag_opcode st) ?b (st\<lparr>frag_buf := [], frag_opcode := 0\<rparr>))"
        using assms(1,2) op len by (intro ws_inv_push) (auto simp: ws_inv_def ws_msg_ok_def)
      moreover have "(push_msg (frag_opcode st) ?b (st\<lparr>frag_buf := ?b\<rparr>))\<lparr>frag_buf := [], frag_opcode := 0\<rparr> =
          push_msg (frag_opcode st) ?b (st\<lparr>frag_buf := [], frag_opcode := 0\<rparr>)"
        by (simp add: push_msg_def)
      moreover have "fst (handle_frame fin 0 p st) = (if fin
          then (push_msg (frag_opcode st) ?b (st\<lparr>frag_buf := ?b\<rparr>))\<lparr>frag_buf := [], frag_opcode := 0\<rparr>
          else st\<lparr>frag_buf := ?b\<rparr>)"
        using True by (auto simp: handle_frame_def Let_def)
      ultimately show ?thesis using 1 by simp
    next
      case False
      then have "fst (handle_frame fin 0 p st) \<in> {fail_close 1002 st, fail_close 1009 st}"
        by (auto simp: handle_frame_def Let_def)
      with 1 assms(1) show ?thesis by auto
    qed
  next
    case 2
    then have "op \<noteq> 0" "op \<noteq> 8" "op \<noteq> 9" "op \<noteq> 0xA" by auto
    then have hf: "fst (handle_frame fin op p st) =
        (if frag_buf st \<noteq> [] \<or> frag_opcode st \<noteq> 0 then fail_close 1002 st
         else if \<not> fin then st\<lparr>frag_opcode := op, frag_buf := p\<rparr> else push_msg op p st)"
      by (simp add: handle_frame_def Let_def)
    have "ws_inv (st\<lparr>frag_opcode := op, frag_buf := p\<rparr>)"
      using assms(1,4) 2 by (auto simp: ws_inv_def)
    moreover have "ws_msg_ok \<lparr>opcode = op, data = p\<rparr>"
      using assms(4) 2 by (auto simp: ws_msg_ok_def)
    ultimately show ?thesis
      using assms(1,2) ws_inv_push [of st op p] by (simp add: hf)
  next
    case 3
    then show ?thesis using assms small
      by (auto simp: handle_frame_def Let_def ws_msg_ok_def intro!: ws_inv_push)
  next
    case 4
    then show ?thesis using assms by (simp add: handle_frame_def Let_def)
  next
    case 5
    then show ?thesis using assms small
      by (auto simp: handle_frame_def Let_def ws_msg_ok_def intro!: ws_inv_push)
  qed
qed

lemma length_unmask [simp]: "length (unmask k p) = length p"
  by (simp add: unmask_def)

lemma ws_step_inv: "ws_inv st \<Longrightarrow> ws_inv (fst (ws_step st))"
proof (cases "parse_header (read_buf st)")
  case (Header fin op masked hdr plen)
  note h = parse_header_control [OF Header] parse_header_bounds [OF Header]
  assume inv: "ws_inv st"
  let ?raw = "take plen (drop hdr (read_buf st))"
  let ?p = "if masked then unmask (take 4 (drop (hdr - 4) (read_buf st))) ?raw else ?raw"
  have "length ?p \<le> plen" by simp
  with h have "length ?p \<le> kMaxFramePayload" "op \<in> {8, 9, 0xA} \<longrightarrow> length ?p \<le> 125" by auto
  then have "length (pending st) < kMaxPendingFrames \<Longrightarrow>
      ws_inv (fst (handle_frame fin op ?p (st\<lparr>read_buf := drop (hdr + plen) (read_buf st)\<rparr>)))"
    using inv h by (intro handle_frame_inv) simp_all
  then show ?thesis using inv by (simp add: ws_step_def Header Let_def)
qed (simp_all add: ws_step_def)

lemma try_parse_inv: "ws_inv st \<Longrightarrow> ws_inv (try_parse st)"
proof (induction st rule: try_parse.induct)
  case (1 st)
  obtain st' f where s: "ws_step st = (st', f)" by (cases "ws_step st")
  with ws_step_inv [OF "1.prems"] have "ws_inv st'" by simp
  with s "1.IH" show ?case by (cases f) (simp_all add: try_parse.simps [of st])
qed

text \<open>The operations of a connection, as its transport, its token and its handler call them.\<close>

datatype ws_op = Feed string | NotifyClosed | CancelWake | Suspend | Recv | WriteFrame string u8 | CloseConn nat

fun ws_run :: "ws_op \<Rightarrow> ws_state \<Rightarrow> ws_state" where
  "ws_run (Feed b) st = fst (ws_feed b st)"
| "ws_run NotifyClosed st = fst (notify_closed st)"
| "ws_run CancelWake st = cancel_wake st"
| "ws_run Suspend st = await_suspend st"
| "ws_run Recv st = fst (await_resume st)"
| "ws_run (WriteFrame p op) st = fst (write_frame p op st)"
| "ws_run (CloseConn code) st = ws_close code st"

inductive ws_reachable :: "ws_state \<Rightarrow> bool" where
  ws_start: "ws_reachable \<lparr>can_send = c, token_live = t, read_buf = [], pending = [], frag_buf = [],
      frag_opcode = 0, recv_waiter = False, closed = False, sent = []\<rparr>"
| ws_op: "ws_reachable st \<Longrightarrow> ws_reachable (ws_run op st)"

lemma ws_run_inv: "ws_inv st \<Longrightarrow> ws_inv (ws_run op st)"
proof (cases op)
  case (Feed b)
  assume "ws_inv st"
  then have "ws_inv (try_parse (ws_append b st))" by (intro try_parse_inv) (simp add: ws_append_def)
  with Feed show ?thesis by (simp add: ws_feed_def resume_waiter_if_ready_def)
next
  case Recv
  assume "ws_inv st"
  with Recv show ?thesis by (cases "pending st") (auto simp: await_resume_def ws_inv_def)
next
  case CancelWake
  assume "ws_inv st"
  with CancelWake show ?thesis by (simp add: cancel_wake_def ws_inv_def)
qed (simp_all add: notify_closed_def await_suspend_def write_frame_def ws_close_def)

lemma ws_reachable_inv: "ws_reachable st \<Longrightarrow> ws_inv st"
  by (induction rule: ws_reachable.induct) (auto simp: ws_run_inv ws_inv_def [of "\<lparr>can_send = _, token_live = _, read_buf = _, pending = _, frag_buf = _,
      frag_opcode = _, recv_waiter = _, closed = _, sent = _\<rparr>"])

text \<open>Once closed, a connection stays closed and writes no further data frame.\<close>

lemma ws_run_closed: "closed st \<Longrightarrow> closed (ws_run op st)"
  by (cases op) (auto simp: ws_feed_def ws_append_def resume_waiter_if_ready_def try_parse_closed notify_closed_def
      cancel_wake_def await_suspend_def await_resume_def write_frame_def ws_close_def split: list.splits)

section \<open>Frames of the standard\<close>

text \<open>Masking as the protocol defines it: byte \<open>i\<close> of the payload is combined with byte
  \<open>i mod 4\<close> of the key.\<close>

definition rfc_mask :: "string \<Rightarrow> string \<Rightarrow> string" where
  "rfc_mask k p = map (\<lambda>i. xor_char (u8_of (k ! (i mod 4))) (p ! i)) [0..<length p]"

text \<open>A frame as RFC 6455 lays it out, masked with a four-byte key or not.\<close>

definition rfc_frame :: "bool \<Rightarrow> u8 \<Rightarrow> string option \<Rightarrow> string \<Rightarrow> string" where
  "rfc_frame fin op key payload =
     chr8 ((if fin then 0x80 else 0x00) OR op)
     # frame_length (if key = None then 0 else 0x80) (length payload)
     @ (case key of None \<Rightarrow> payload | Some k \<Rightarrow> k @ rfc_mask k payload)"

lemma build_frame_rfc: "build_frame payload op fin = rfc_frame fin op None payload"
  by (simp add: build_frame_def rfc_frame_def)

lemma u8_of_chr8 [simp]: "u8_of (chr8 w) = w"
proof -
  have "unat w < 256" using unsigned_less [of w, where ?'a = nat] by simp
  then have "byte (chr8 w) = unat w" by simp
  then have "word_of_nat (byte (chr8 w)) = w" by simp
  then show ?thesis by (simp only: of_nat_of_char)
qed

lemma unat_u8_of [simp]: "unat (u8_of c) = byte c"
proof -
  have "byte c mod 2 ^ 8 = byte c" by (rule mod_less) simp
  then show ?thesis by (simp only: of_char_word unat_of_nat len_num1 len_bit0 len_bit1 len_of_numeral_defs) simp
qed

lemma xor_char_involution [simp]: "xor_char m (xor_char m c) = c"
proof -
  have "xor_char m (xor_char m c) = chr8 ((u8_of c XOR m) XOR m)"
    by (simp only: xor_char_def u8_of_chr8)
  also have "\<dots> = chr8 (u8_of c)" by (simp only: xor.assoc xor_self_eq xor.right_neutral)
  finally show ?thesis by simp
qed

lemma unmask_rfc_mask [simp]: "unmask k (rfc_mask k p) = p"
  by (rule nth_equalityI) (simp_all add: unmask_def rfc_mask_def nth_enumerate_eq)

lemma length_rfc_mask [simp]: "length (rfc_mask k p) = length p"
  by (simp add: rfc_mask_def)

lemma low8_u64: "(of_char (low8 n) :: u64) = take_bit 8 (of_nat n)"
proof -
  have "(of_char (low8 n) :: u64) = of_nat (byte (low8 n))" by (simp add: of_nat_of_char)
  also have "byte (low8 n) = n mod 256" by (simp add: low8_def)
  finally show ?thesis by (simp add: word_unat_eq_iff take_bit_eq_mod unat_mod unat_of_nat mod_mod_cancel)
qed

lemma byte_u64: "(of_char (char_of (unat (x AND 0xFF)) :: char) :: u64) = take_bit 8 (x :: u64)"
proof -
  have x: "x AND 0xFF = take_bit 8 x" by (simp add: take_bit_eq_mask mask_numeral)
  have "unat (take_bit 8 x) < 2 ^ 8" by (simp add: take_bit_eq_mod unat_mod)
  then have "byte (char_of (unat (take_bit 8 x))) = unat (take_bit 8 x)" by simp
  then show ?thesis unfolding x by (subst of_char_word) simp
qed

lemma shift_in_byte: "push_bit 8 (drop_bit (i + 8) w) OR take_bit 8 (drop_bit i w) = drop_bit i (w :: u64)"
proof (rule bit_word_eqI)
  fix n assume "n < LENGTH(64)"
  then show "bit (push_bit 8 (drop_bit (i + 8) w) OR take_bit 8 (drop_bit i w)) n = bit (drop_bit i w) n"
    by (cases "8 \<le> n") (auto simp: bit_simps)
qed

lemma fold_be64: "fold (\<lambda>c n. push_bit 8 n OR of_char c) (be64 w) 0 = (w :: u64)"
proof -
  have "drop_bit 64 w = 0" by (rule bit_word_eqI) (auto simp: bit_simps dest: bit_imp_le_length)
  then show ?thesis
    using shift_in_byte [of 56 w] shift_in_byte [of 48 w] shift_in_byte [of 40 w] shift_in_byte [of 32 w]
      shift_in_byte [of 24 w] shift_in_byte [of 16 w] shift_in_byte [of 8 w] shift_in_byte [of 0 w]
    by (simp add: be64_def byte_u64)
qed

lemma payload_length_frame:
  assumes "n < 2 ^ 63" and "frame_length mb n = c # ext"
  shows "payload_length (if n < 126 then of_nat n else if n < 65536 then 126 else 127) (x # c # ext @ rest)
     = Some (of_nat n, 1 + length (frame_length mb n))"
proof -
  consider "n < 126" | "126 \<le> n" "n < 65536" | "65536 \<le> n" by linarith
  then show ?thesis
  proof cases
    case 1
    then have "word_of_nat n \<noteq> (126 :: u8)" "word_of_nat n \<noteq> (127 :: u8)"
      by (auto simp: word_unat_eq_iff unat_of_nat)
    moreover have "ucast (word_of_nat n :: u8) = (word_of_nat n :: u64)"
      using 1 by (simp add: word_unat_eq_iff unat_of_nat unsigned_ucast_eq take_bit_nat_eq_self)
    ultimately show ?thesis using 1 by (simp add: payload_length_def frame_length_def)
  next
    case 2
    have "push_bit 8 (drop_bit 8 (of_nat n)) OR take_bit 8 (of_nat n) = (of_nat n :: u64)"
      using shift_in_byte [of 0 "of_nat n"] by simp
    moreover have "take_bit 8 (of_nat (n div 256)) = (drop_bit 8 (of_nat n) :: u64)"
      using 2 by (simp add: word_unat_eq_iff take_bit_eq_mod drop_bit_eq_div unat_mod unat_div unat_of_nat)
    ultimately show ?thesis using 2 assms(2)
      by (auto simp: payload_length_def frame_length_def low8_u64)
  next
    case 3
    with assms(2) have "ext = be64 (of_nat n)" by (auto simp: frame_length_def)
    with 3 show ?thesis by (simp add: payload_length_def frame_length_def fold_be64)
  qed
qed

lemma frame_length_first:
  assumes "n < 2 ^ 63" and "mb = 0 \<or> mb = (0x80 :: u8)"
  obtains c ext where "frame_length mb n = c # ext"
    and "u8_of c AND 0x7F = (if n < 126 then of_nat n else if n < 65536 then 126 else 127)"
    and "u8_of c AND 0x80 = mb"
proof -
  have lo: "(mb OR x) AND 0x7F = x \<and> (mb OR x) AND 0x80 = mb" if "x = take_bit 7 x" for x :: u8
  proof -
    have "x AND 0x7F = x" using that by (simp add: take_bit_eq_mask mask_numeral)
    moreover have "x AND 0x80 = 0"
      by (subst that, simp add: take_bit_eq_mask mask_numeral and.assoc)
    ultimately show ?thesis using assms(2) by (auto simp: bit.conj_disj_distrib2)
  qed
  let ?x = "if n < 126 then of_nat n else if n < 65536 then 126 else 127 :: u8"
  have "take_bit 7 ?x = ?x"
    by (simp add: word_unat_eq_iff take_bit_eq_mod unat_mod unat_of_nat)
  with lo [of ?x] have "u8_of (chr8 (mb OR ?x)) AND 0x7F = ?x" "u8_of (chr8 (mb OR ?x)) AND 0x80 = mb"
    by simp_all
  moreover have "frame_length mb n = chr8 (mb OR ?x) # tl (frame_length mb n)"
    by (simp add: frame_length_def)
  ultimately show ?thesis using that by blast
qed

lemma first_byte:
  fixes op :: u8
  assumes "op \<in> {0, 1, 2, 8, 9, 0xA}"
  shows "(((if fin then 0x80 else 0) OR op) AND 0x80 \<noteq> 0) = fin"
    "((if fin then 0x80 else 0) OR op) AND 0x70 = 0"
    "((if fin then 0x80 else 0) OR op) AND 0x0F = op"
    "op AND 0x08 = 0 \<longrightarrow> \<not> op > 0x2" "op AND 0x08 \<noteq> 0 \<longrightarrow> \<not> op > 0xA \<and> op \<in> {8, 9, 0xA}"
  using assms by (elim insertE emptyE; cases fin; simp)+

lemma kMaxFramePayload_bound: "n \<le> kMaxFramePayload \<Longrightarrow> n < 2 ^ 63"
  by (simp add: kMaxFramePayload_def)

definition rfc_ok :: "bool \<Rightarrow> u8 \<Rightarrow> string option \<Rightarrow> string \<Rightarrow> bool" where
  "rfc_ok fin op key payload \<longleftrightarrow> op \<in> {0, 1, 2, 8, 9, 0xA} \<and> length payload \<le> kMaxFramePayload \<and>
     (op \<in> {8, 9, 0xA} \<longrightarrow> fin \<and> length payload \<le> 125) \<and> (\<forall>k. key = Some k \<longrightarrow> length k = 4)"

lemma parse_rfc_frame:
  assumes "rfc_ok fin op key payload"
  defines "hdr \<equiv> 1 + length (frame_length (if key = None then 0 else 0x80) (length payload))"
  shows "parse_header (rfc_frame fin op key payload @ rest) =
     Header fin op (key \<noteq> None) (if key \<noteq> None then hdr + 4 else hdr) (length payload)"
proof -
  let ?n = "length payload" and ?mb = "if key = None then 0 else 0x80 :: u8"
  let ?b0 = "(if fin then 0x80 else 0) OR op"
  from assms have op: "op \<in> {0, 1, 2, 8, 9, 0xA}" and n2: "?n \<le> kMaxFramePayload"
    and ctl: "op \<in> {8, 9, 0xA} \<longrightarrow> fin \<and> ?n \<le> 125"
    by (simp_all add: rfc_ok_def)
  note n = kMaxFramePayload_bound [OF n2] n2
  obtain c ext where fl: "frame_length ?mb ?n = c # ext"
    and c: "u8_of c AND 0x7F = (if ?n < 126 then of_nat ?n else if ?n < 65536 then 126 else 127)"
    "u8_of c AND 0x80 = ?mb"
    by (rule frame_length_first [OF n(1), of ?mb]) auto
  define tl where "tl = (case key of None \<Rightarrow> payload | Some k \<Rightarrow> k @ rfc_mask k payload) @ rest"
  have buf: "rfc_frame fin op key payload @ rest = chr8 ?b0 # c # ext @ tl"
    by (simp add: rfc_frame_def fl tl_def)
  have pl: "payload_length (u8_of c AND 0x7F) (chr8 ?b0 # c # ext @ tl) = Some (of_nat ?n, hdr)"
    using payload_length_frame [OF n(1) fl] by (simp add: c hdr_def)
  have un: "unat (of_nat ?n :: u64) = ?n"
    using n(1) by (simp add: unat_of_nat)
  have "\<not> bit (of_nat ?n :: u64) 63"
    using nat_high_bits [OF n(1), of 63] by (simp add: bit_simps)
  then have "of_nat ?n AND 2 ^ 63 = (0 :: u64)" by (simp only: and_exp_eq_0_iff_not_bit not_False_eq_True)
  then have msb: "of_nat ?n AND 9223372036854775808 = (0 :: u64)" by simp
  have small: "?n \<le> 125 \<Longrightarrow> \<not> (125 :: u64) < of_nat ?n"
    using un by (simp add: word_less_nat_alt)
  note fb = first_byte(1-3) [OF op, where fin = fin] first_byte(4,5) [OF op]
  show ?thesis
  proof (cases "op AND 0x08 = 0")
    case True
    with fb(4) show ?thesis
      unfolding buf parse_header_def Let_def using n(2) by (simp add: pl c(2) fb(1-3) un msb)
  next
    case False
    with fb(5) ctl have "fin" "?n \<le> 125" "\<not> op > 0xA" by auto
    with False small show ?thesis
      unfolding buf parse_header_def Let_def using n(2) fb(1-3) pl by (simp add: c(2) un msb)
  qed
qed

lemma ws_step_rfc_frame:
  assumes ok: "rfc_ok fin op key payload"
    and buf: "read_buf st = rfc_frame fin op key payload @ rest"
    and room: "length (pending st) < kMaxPendingFrames"
  shows "ws_step st = handle_frame fin op payload (st\<lparr>read_buf := rest\<rparr>)"
proof -
  let ?fl = "frame_length (if key = None then 0 else 0x80) (length payload)"
  note h = parse_rfc_frame [OF ok, of rest]
  from ok have klen: "key = Some k \<Longrightarrow> length k = 4" for k by (simp add: rfc_ok_def)
  show ?thesis
  proof (cases key)
    case None
    with h room show ?thesis
      by (simp add: ws_step_def buf Let_def) (simp add: rfc_frame_def)
  next
    case (Some k)
    define A where "A = chr8 ((if fin then 0x80 else 0x00) OR op) # frame_length 0x80 (length payload)"
    have b: "rfc_frame fin op key payload @ rest = A @ k @ rfc_mask k payload @ rest"
      by (simp add: rfc_frame_def A_def Some)
    have hd: "parse_header (A @ k @ rfc_mask k payload @ rest) = Header fin op True (length A + 4) (length payload)"
      using h Some by (simp add: A_def rfc_frame_def)
    have sl: "take (length payload) (drop (length A + 4) (A @ k @ rfc_mask k payload @ rest)) = rfc_mask k payload"
      "take 4 (drop (length A + 4 - 4) (A @ k @ rfc_mask k payload @ rest)) = k"
      "drop (length A + 4 + length payload) (A @ k @ rfc_mask k payload @ rest) = rest"
      using klen [OF Some] by simp_all
    have "\<not> length (A @ k @ rfc_mask k payload @ rest) < length A + 4 + length payload"
      using klen [OF Some] by simp
    with room show ?thesis
      unfolding ws_step_def buf b Let_def hd ws_header.case sl by simp
  qed
qed

lemma try_parse_frame:
  assumes "rfc_ok fin op key payload" and "read_buf st = rfc_frame fin op key payload @ rest"
    and "length (pending st) < kMaxPendingFrames"
    and "handle_frame fin op payload (st\<lparr>read_buf := rest\<rparr>) = (st', Continue)"
  shows "try_parse st = try_parse st'"
  using ws_step_rfc_frame [OF assms(1-3)] assms(4) by (subst try_parse.simps) simp

lemma try_parse_short: "length (read_buf st) < 2 \<Longrightarrow> try_parse st = st"
  by (subst try_parse.simps) (simp add: ws_step_def parse_header_def)

text \<open>A message sent as one frame or as several fragments.\<close>

fun rfc_rest :: "string option \<Rightarrow> string list \<Rightarrow> string" where
  "rfc_rest key [] = []"
| "rfc_rest key [q] = rfc_frame True 0 key q"
| "rfc_rest key (q # qs) = rfc_frame False 0 key q @ rfc_rest key qs"

fun rfc_message :: "u8 \<Rightarrow> string option \<Rightarrow> string list \<Rightarrow> string" where
  "rfc_message op key [] = []"
| "rfc_message op key [p] = rfc_frame True op key p"
| "rfc_message op key (p # ps) = rfc_frame False op key p @ rfc_rest key ps"

lemma kMax_eq: "kMaxMessageSize = kMaxFramePayload"
  by (simp add: kMaxMessageSize_def kMaxFramePayload_def)

lemma try_parse_rest:
  assumes "qs \<noteq> []" and "op \<noteq> 0" and "frag_opcode st = op"
    and "length (frag_buf st) + length (concat qs) \<le> kMaxMessageSize"
    and "read_buf st = rfc_rest key qs @ rest" and "\<And>k. key = Some k \<Longrightarrow> length k = 4"
    and "length (pending st) < kMaxPendingFrames"
  shows "try_parse st = try_parse (st\<lparr>read_buf := rest, frag_buf := [], frag_opcode := 0,
    pending := pending st @ [\<lparr>opcode = op, data = frag_buf st @ concat qs\<rparr>]\<rparr>)"
  using assms
proof (induction qs arbitrary: st)
  case (Cons q qs)
  have ok: "rfc_ok fin 0 key q" for fin
    using Cons.prems(4,6) by (simp add: rfc_ok_def kMax_eq)
  show ?case
  proof (cases qs)
    case Nil
    with Cons.prems have "handle_frame True 0 q (st\<lparr>read_buf := rest\<rparr>) =
      (st\<lparr>read_buf := rest, frag_buf := [], frag_opcode := 0,
         pending := pending st @ [\<lparr>opcode = op, data = frag_buf st @ q\<rparr>]\<rparr>, Continue)"
      by (simp add: handle_frame_def Let_def push_msg_def)
    with Nil Cons.prems show ?thesis
      by (subst try_parse_frame [OF ok, of st True rest]) simp_all
  next
    case (Cons q' qs')
    let ?st = "st\<lparr>read_buf := rfc_rest key qs @ rest, frag_buf := frag_buf st @ q\<rparr>"
    from Cons.prems Cons have "handle_frame False 0 q (st\<lparr>read_buf := rfc_rest key qs @ rest\<rparr>) = (?st, Continue)"
      by (simp add: handle_frame_def Let_def)
    with Cons Cons.prems have "try_parse st = try_parse ?st"
      by (intro try_parse_frame [OF ok, of st False "rfc_rest key qs @ rest"]) simp_all
    also have "\<dots> = try_parse (?st\<lparr>read_buf := rest, frag_buf := [], frag_opcode := 0,
        pending := pending ?st @ [\<lparr>opcode = op, data = frag_buf ?st @ concat qs\<rparr>]\<rparr>)"
      using Cons Cons.prems by (intro Cons.IH) simp_all
    finally show ?thesis by simp
  qed
qed simp

lemma try_parse_message:
  assumes "ps \<noteq> []" and "op = 1 \<or> op = 2" and "frag_opcode st = 0" and "frag_buf st = []"
    and "length (concat ps) \<le> kMaxMessageSize"
    and "read_buf st = rfc_message op key ps @ rest" and "\<And>k. key = Some k \<Longrightarrow> length k = 4"
    and "length (pending st) < kMaxPendingFrames"
  shows "try_parse st = try_parse (st\<lparr>read_buf := rest,
    pending := pending st @ [\<lparr>opcode = op, data = concat ps\<rparr>]\<rparr>)"
proof (cases ps)
  case (Cons p qs)
  from assms(2) have op: "op \<noteq> 0" "op \<noteq> 8" "op \<noteq> 9" "op \<noteq> 0xA" by auto
  have ok: "rfc_ok fin op key p" for fin
    using assms(2,5,7) Cons op by (auto simp: rfc_ok_def kMax_eq)
  show ?thesis
  proof (cases qs)
    case Nil
    with Cons assms op have "handle_frame True op p (st\<lparr>read_buf := rest\<rparr>) =
      (push_msg op p (st\<lparr>read_buf := rest\<rparr>), Continue)"
      by (simp add: handle_frame_def Let_def)
    with Nil Cons assms show ?thesis
      by (subst try_parse_frame [OF ok, of st True rest]) (simp_all add: push_msg_def)
  next
    case (Cons q qs')
    let ?st = "st\<lparr>read_buf := rfc_rest key qs @ rest, frag_opcode := op, frag_buf := p\<rparr>"
    from assms op have "handle_frame False op p (st\<lparr>read_buf := rfc_rest key qs @ rest\<rparr>) = (?st, Continue)"
      by (simp add: handle_frame_def Let_def)
    with Cons \<open>ps = p # qs\<close> assms have "try_parse st = try_parse ?st"
      by (intro try_parse_frame [OF ok, of st False "rfc_rest key qs @ rest"]) simp_all
    also have "\<dots> = try_parse (?st\<lparr>read_buf := rest, frag_buf := [], frag_opcode := 0,
        pending := pending ?st @ [\<lparr>opcode = op, data = frag_buf ?st @ concat qs\<rparr>]\<rparr>)"
      using Cons \<open>ps = p # qs\<close> assms op by (intro try_parse_rest [where key = key]) simp_all
    also have "?st\<lparr>read_buf := rest, frag_buf := [], frag_opcode := 0,
        pending := pending ?st @ [\<lparr>opcode = op, data = frag_buf ?st @ concat qs\<rparr>]\<rparr> =
        st\<lparr>read_buf := rest, pending := pending st @ [\<lparr>opcode = op, data = concat ps\<rparr>]\<rparr>"
      using assms(3,4) \<open>ps = p # qs\<close> by (cases st) simp
    finally show ?thesis .
  qed
qed (use assms in simp)

text \<open>The Base64 of the handshake is the padded Base64 of the crypto module.\<close>

lemma ws_base64_eq: "ws_base64 s = base64_encode s"
  by (induction s rule: base64_encode.induct) (simp_all add: Let_def)

lemma length_sha1: "length (sha1 m) = 20"
  by (simp add: sha1_def Let_def be32_def)

lemma length_base64_std: "length (base64_encode s) = (length s + 2) div 3 * 4"
proof (induction s rule: base64_encode.induct)
  case (1 a b c rest)
  have "(length (a # b # c # rest) + 2) div 3 = (length rest + 2) div 3 + 1" by simp
  with 1 show ?case by (simp add: Let_def)
qed (simp_all add: Let_def)

lemma length_sha1_pad: "length (sha1_pad m) mod 64 = 0"
proof -
  define q r where "q = (length m + 1) div 64" and "r = (length m + 1) mod 64"
  then have n: "length m + 1 = 64 * q + r" and r: "r < 64" by simp_all
  have z: "(120 - r) mod 64 = (if r \<le> 56 then 56 - r else 120 - r)"
    using r by (cases "r \<le> 56") (auto simp: mod_if)
  have "length (sha1_pad m) = (64 * q + r) + (if r \<le> 56 then 56 - r else 120 - r) + 8"
    using n unfolding z [symmetric] by (simp add: sha1_pad_def Let_def r_def)
  also have "\<dots> = 64 * (q + (if r \<le> 56 then 1 else 2))" using r by simp
  finally show ?thesis by simp
qed

section \<open>Properties\<close>

definition ws_fresh :: ws_state where
  "ws_fresh = \<lparr>can_send = True, token_live = True, read_buf = [], pending = [], frag_buf = [],
     frag_opcode = 0, recv_waiter = False, closed = False, sent = []\<rparr>"

text \<open>C20. The parser does not depend on how the transport cuts the byte stream: as long as the
  stream does not close the connection, receiving it in any chunks leaves the same state as
  receiving it at once.\<close>

theorem ws_chunk_invariance:
  assumes "\<not> closed (try_parse (ws_append (concat cs) st))"
  shows "fold (\<lambda>c s. try_parse (ws_append c s)) cs (try_parse st) = try_parse (ws_append (concat cs) st)"
proof -
  have "fold ws.feed cs (ws.feed [] st) = ws.feed (concat cs) st"
    using assms by (intro ws.feed_chunks) (simp add: ws.feed_def)
  moreover have "ws.feed = (\<lambda>c s. try_parse (ws_append c s))" by (simp add: ws.feed_def fun_eq_iff)
  ultimately show ?thesis by (simp add: ws_append_def)
qed

lemma ws_fresh_message:
  "rfc_ok True 1 key p \<Longrightarrow> try_parse (ws_append (rfc_frame True 1 key p) ws_fresh)
     = ws_fresh\<lparr>pending := [\<lparr>opcode = 1, data = p\<rparr>]\<rparr>"
  using try_parse_message [of "[p]" 1 "ws_append (rfc_frame True 1 key p) ws_fresh" key "[]"]
  by (simp add: ws_append_def ws_fresh_def rfc_ok_def kMax_eq kMaxPendingFrames_def try_parse_short)

theorem ws_chunk_invariance_witness:
  "fold (\<lambda>c s. try_parse (ws_append c s)) [take 3 (rfc_frame True 1 (Some ''abcd'') ''hola''),
      drop 3 (rfc_frame True 1 (Some ''abcd'') ''hola'')] (try_parse ws_fresh)
   = ws_fresh\<lparr>pending := [\<lparr>opcode = 1, data = ''hola''\<rparr>]\<rparr>"
proof -
  let ?f = "rfc_frame True 1 (Some ''abcd'') ''hola''"
  have "rfc_ok True 1 (Some ''abcd'') ''hola''" by (simp add: rfc_ok_def kMaxFramePayload_def)
  from ws_fresh_message [OF this] show ?thesis
    by (subst ws_chunk_invariance) (simp_all add: ws_fresh_def)
qed





text \<open>What one connection sends, the parser of another delivers: a text of at most 16 MB written
  by \<open>send\<close> on an open connection leaves it as one frame that a peer reads back as that text.\<close>

theorem ws_send_receive:
  assumes "is_open a" and "can_send a" and "length text \<le> kMaxFramePayload"
    and "frag_opcode b = 0" and "frag_buf b = []" and "read_buf b = []"
    and "length (pending b) < kMaxPendingFrames"
  shows "\<exists>f. ws_send text a = (a\<lparr>sent := sent a @ [f]\<rparr>, True) \<and>
     try_parse (ws_append f b) = b\<lparr>pending := pending b @ [\<lparr>opcode = 1, data = text\<rparr>]\<rparr>"
proof -
  let ?f = "rfc_frame True 1 None text"
  have "ws_send text a = (a\<lparr>sent := sent a @ [?f]\<rparr>, True)"
    using assms(1,2) by (simp add: ws_send_def write_frame_def build_frame_rfc)
  moreover have "try_parse (ws_append ?f b) =
      try_parse ((ws_append ?f b)\<lparr>read_buf := [], pending := pending b @ [\<lparr>opcode = 1, data = text\<rparr>]\<rparr>)"
    using assms by (subst try_parse_message [where rest = "[]" and key = None and ps = "[text]"])
      (auto simp: ws_append_def kMax_eq)
  moreover have "\<dots> = b\<lparr>pending := pending b @ [\<lparr>opcode = 1, data = text\<rparr>]\<rparr>"
    using assms(6) by (simp add: ws_append_def try_parse_short)
  ultimately show ?thesis by metis
qed

theorem ws_send_receive_witness:
  "\<exists>f. ws_send ''hola'' ws_fresh = (ws_fresh\<lparr>sent := [f]\<rparr>, True) \<and>
     try_parse (ws_append f ws_fresh) = ws_fresh\<lparr>pending := [\<lparr>opcode = 1, data = ''hola''\<rparr>]\<rparr>"
  using ws_send_receive [of ws_fresh "''hola''" ws_fresh]
  by (simp add: ws_fresh_def is_open_def kMaxFramePayload_def kMaxPendingFrames_def)



text \<open>A frame with a reserved bit or a reserved opcode is refused with one Close frame of code
  1002 and closes the connection, but it stays in the buffer: every later delivery of bytes, even
  of none, parses it again and sends another Close frame.\<close>

theorem ws_violation_repeats:
  assumes "parse_header (read_buf st) = Violation c" and "can_send st"
  shows "let st1 = try_parse st; st2 = try_parse (ws_append bs st1);
         frame = [char_of (0x88 :: nat), char_of (2 :: nat), low8 (c div 256), low8 c]
     in closed st1 \<and> sent st1 = sent st @ [frame] \<and> sent st2 = sent st @ [frame, frame]"
proof -
  have st1: "try_parse st = fail_close c st"
    using assms(1) by (subst try_parse.simps) (simp add: ws_step_def)
  have buf: "read_buf (ws_append bs (fail_close c st)) = read_buf st @ bs"
    by (simp add: ws_append_def fail_close_def)
  have "parse_header (read_buf st @ bs) = Violation c"
    using assms(1) by (simp add: parse_header_append)
  then have "try_parse (ws_append bs (fail_close c st)) = fail_close c (ws_append bs (fail_close c st))"
    by (subst try_parse.simps) (simp add: ws_step_def buf)
  then show ?thesis
    using assms(2) by (simp add: st1 Let_def fail_close_def raw_send_def ws_append_def)
qed

theorem ws_violation_repeats_witness:
  "sent (try_parse (ws_append [] (try_parse (ws_append [CHR 0x83, CHR 0x00] ws_fresh)))) =
     replicate 2 [char_of (0x88 :: nat), char_of (2 :: nat), low8 3, low8 234]"
proof -
  have "parse_header [CHR 0x83, CHR 0x00] = Violation 1002" by (simp add: parse_header_def)
  then show ?thesis
    using ws_violation_repeats [of "ws_append [CHR 0x83, CHR 0x00] ws_fresh" 1002 "[]"]
    by (simp add: ws_fresh_def ws_append_def Let_def low8_def numeral_2_eq_2)
qed

text \<open>The handshake key is the padded Base64 text, 28 characters, of the 20-byte digest, and the
  two Base64 encoders of the program agree.\<close>

theorem ws_accept_form:
  "ws_accept k = base64_encode (sha1 (k @ ''258EAFA5-E914-47DA-95CA-C5AB0DC85B11''))
   \<and> length (ws_accept k) = 28 \<and> ws_base64 s = base64_encode s \<and> length (sha1_pad k) mod 64 = 0"
  by (simp add: ws_accept_def ws_base64_eq length_base64_std length_sha1 length_sha1_pad)

end
