(* ===== verification/Doubles.thy ===== *)
theory Doubles
  imports Prelude
begin

unbundle bit_operations_syntax

text \<open>
  The \<open>double\<close> of the program: IEEE 754 binary64 bit patterns with the operations the
  interpreter uses, computed exactly on integers and rounded to nearest, ties to even.  The
  library's conversions between doubles and text are a parameter, \<open>fp_text\<close>.
\<close>

type_synonym f64 = "64 word"
type_synonym i64 = "64 word"

section \<open>Bit patterns\<close>

definition f64_sign :: "f64 \<Rightarrow> bool" where
  "f64_sign x = bit x 63"

definition f64_exp :: "f64 \<Rightarrow> nat" where
  "f64_exp x = unat (take_bit 11 (drop_bit 52 x))"

definition f64_frac :: "f64 \<Rightarrow> nat" where
  "f64_frac x = unat (take_bit 52 x)"

definition f64_finite :: "f64 \<Rightarrow> bool" where
  "f64_finite x \<longleftrightarrow> f64_exp x \<noteq> 0x7FF"

definition f64_nan :: "f64 \<Rightarrow> bool" where
  "f64_nan x \<longleftrightarrow> f64_exp x = 0x7FF \<and> f64_frac x \<noteq> 0"

definition f64_inf :: "f64 \<Rightarrow> bool" where
  "f64_inf x \<longleftrightarrow> f64_exp x = 0x7FF \<and> f64_frac x = 0"

definition f64_zero :: "f64 \<Rightarrow> bool" where
  "f64_zero x \<longleftrightarrow> f64_exp x = 0 \<and> f64_frac x = 0"

definition f64_pack :: "bool \<Rightarrow> nat \<Rightarrow> f64" where
  "f64_pack s mag = (if s then push_bit 63 1 else 0) OR of_nat mag"

definition f64_qnan :: f64 where
  "f64_qnan = 0x7FF8000000000000"

definition f64_infinity :: "bool \<Rightarrow> f64" where
  "f64_infinity s = f64_pack s (0x7FF * 2 ^ 52)"

text \<open>A finite pattern is \<open>m * 2 ^ e\<close> with the sign apart.\<close>

definition f64_mant :: "f64 \<Rightarrow> nat" where
  "f64_mant x = (if f64_exp x = 0 then f64_frac x else f64_frac x + 2 ^ 52)"

definition f64_scale :: "f64 \<Rightarrow> int" where
  "f64_scale x = (if f64_exp x = 0 then -1074 else int (f64_exp x) - 1075)"

section \<open>Rounding\<close>

text \<open>\<open>floor_log2 n\<close> for a positive \<open>n\<close>.\<close>

fun floor_log2 :: "nat \<Rightarrow> nat" where
  "floor_log2 n = (if n < 2 then 0 else Suc (floor_log2 (n div 2)))"

declare floor_log2.simps [simp del]

text \<open>\<open>n * 2 ^ e / d\<close> as a quotient of naturals.\<close>

definition scaled_num :: "nat \<Rightarrow> int \<Rightarrow> nat" where
  "scaled_num n e = (if e \<ge> 0 then n * 2 ^ nat e else n)"

definition scaled_den :: "nat \<Rightarrow> int \<Rightarrow> nat" where
  "scaled_den d e = (if e \<ge> 0 then d else d * 2 ^ nat (- e))"

text \<open>The pattern nearest to \<open>n / d\<close>, ties to even, subnormals and overflow included.\<close>

definition f64_round :: "bool \<Rightarrow> nat \<Rightarrow> nat \<Rightarrow> f64" where
  "f64_round s n d =
     (if n = 0 then f64_pack s 0
      else let k0 = int (floor_log2 n) - int (floor_log2 d) - 52;
               q0 = scaled_num n (- k0) div scaled_den d (- k0);
               k = (if q0 < 2 ^ 52 then k0 - 1 else k0);
               e = max k (-1074);
               a = scaled_num n (- e);
               b = scaled_den d (- e);
               q = a div b;
               r = a mod b;
               q' = (if 2 * r > b \<or> (2 * r = b \<and> odd q) then q + 1 else q);
               mag = (if q < 2 ^ 52 then q' else (nat (e + 1075)) * 2 ^ 52 + (q' - 2 ^ 52))
           in if mag \<ge> 0x7FF * 2 ^ 52 then f64_infinity s else f64_pack s mag)"

definition f64_of_int :: "i64 \<Rightarrow> f64" where
  "f64_of_int i = (let v = sint i in f64_round (v < 0) (nat \<bar>v\<bar>) 1)"

section \<open>Comparison\<close>

definition f64_value_key :: "f64 \<Rightarrow> int" where
  "f64_value_key x = (let m = int (unat (take_bit 63 x)) in if f64_sign x then - m else m)"

definition f64_eq :: "f64 \<Rightarrow> f64 \<Rightarrow> bool" where
  "f64_eq x y \<longleftrightarrow> \<not> f64_nan x \<and> \<not> f64_nan y \<and> f64_value_key x = f64_value_key y"

definition f64_lt :: "f64 \<Rightarrow> f64 \<Rightarrow> bool" where
  "f64_lt x y \<longleftrightarrow> \<not> f64_nan x \<and> \<not> f64_nan y \<and> f64_value_key x < f64_value_key y"

definition f64_le :: "f64 \<Rightarrow> f64 \<Rightarrow> bool" where
  "f64_le x y \<longleftrightarrow> \<not> f64_nan x \<and> \<not> f64_nan y \<and> f64_value_key x \<le> f64_value_key y"

section \<open>Arithmetic\<close>

definition f64_neg :: "f64 \<Rightarrow> f64" where
  "f64_neg x = x XOR push_bit 63 1"

definition f64_signed :: "f64 \<Rightarrow> int \<Rightarrow> int" where
  "f64_signed x e = (if f64_sign x then - 1 else 1) * int (f64_mant x * 2 ^ nat (f64_scale x - e))"

definition f64_add :: "f64 \<Rightarrow> f64 \<Rightarrow> f64" where
  "f64_add x y =
     (if f64_nan x \<or> f64_nan y then f64_qnan
      else if f64_inf x then (if f64_inf y \<and> f64_sign x \<noteq> f64_sign y then f64_qnan else x)
      else if f64_inf y then y
      else let e = min (f64_scale x) (f64_scale y);
               v = f64_signed x e + f64_signed y e;
               s = (if v = 0 then f64_sign x \<and> f64_sign y else v < 0)
           in f64_round s (scaled_num (nat \<bar>v\<bar>) e) (scaled_den 1 e))"

definition f64_sub :: "f64 \<Rightarrow> f64 \<Rightarrow> f64" where
  "f64_sub x y = f64_add x (f64_neg y)"

definition f64_mul :: "f64 \<Rightarrow> f64 \<Rightarrow> f64" where
  "f64_mul x y =
     (let s = (f64_sign x \<noteq> f64_sign y)
      in if f64_nan x \<or> f64_nan y then f64_qnan
         else if f64_inf x \<or> f64_inf y then
           (if f64_zero x \<or> f64_zero y then f64_qnan else f64_infinity s)
         else let e = f64_scale x + f64_scale y
              in f64_round s (scaled_num (f64_mant x * f64_mant y) e) (scaled_den 1 e))"

definition f64_div :: "f64 \<Rightarrow> f64 \<Rightarrow> f64" where
  "f64_div x y =
     (let s = (f64_sign x \<noteq> f64_sign y)
      in if f64_nan x \<or> f64_nan y then f64_qnan
         else if f64_inf x then (if f64_inf y then f64_qnan else f64_infinity s)
         else if f64_inf y then f64_pack s 0
         else if f64_zero y then (if f64_zero x then f64_qnan else f64_infinity s)
         else let e = f64_scale x - f64_scale y
              in f64_round s (scaled_num (f64_mant x) e) (scaled_den (f64_mant y) e))"

section \<open>Text\<close>

text \<open>
  \<open>fp_ostream\<close> is \<open>operator<<\<close>, \<open>fp_to_chars\<close> is \<open>std::to_chars\<close> (absent when it reports an
  error), \<open>fp_from_chars\<close> is \<open>std::from_chars\<close> on a whole range (absent on an error or when
  characters are left).
\<close>

record fp_text =
  fp_ostream :: "f64 \<Rightarrow> string"
  fp_to_chars :: "f64 \<Rightarrow> string option"
  fp_from_chars :: "string \<Rightarrow> f64 option"

end
