(* ===== verification/Values.thy ===== *)
theory Values
  imports Containers Doubles
begin

unbundle bit_operations_syntax

text \<open>
  The runtime value (include/odio/value.hpp, src/odio/value.cpp) seen as a tree, and its
  serialisation to JSON: UTF-8 validation and repair, string escaping eight bytes at a time,
  number output, and \<open>write_json\<close>.
\<close>

section \<open>Values\<close>

datatype val =
    VNull
  | VBool bool
  | VInt i64
  | VFloat f64
  | VStr string
  | VList "val list"
  | VDict "val dict"

fun type_name :: "val \<Rightarrow> string" where
  "type_name VNull = ''null''"
| "type_name (VBool _) = ''bool''"
| "type_name (VInt _) = ''int''"
| "type_name (VFloat _) = ''float''"
| "type_name (VStr _) = ''string''"
| "type_name (VList _) = ''List''"
| "type_name (VDict _) = ''Dict''"

fun is_num :: "val \<Rightarrow> bool" where
  "is_num (VInt _) = True"
| "is_num (VFloat _) = True"
| "is_num _ = False"

fun as_float :: "val \<Rightarrow> f64" where
  "as_float (VFloat d) = d"
| "as_float (VInt i) = f64_of_int i"
| "as_float _ = 0"

fun truthy :: "val \<Rightarrow> bool" where
  "truthy VNull = False"
| "truthy (VBool b) = b"
| "truthy (VInt i) = (i \<noteq> 0)"
| "truthy (VFloat d) = (\<not> f64_zero d)"
| "truthy (VStr s) = (s \<noteq> [])"
| "truthy (VList l) = (l \<noteq> [])"
| "truthy (VDict d) = (d_v d \<noteq> [])"

lemma size_dict_entry: "(k, v) \<in> set (d_v d) \<Longrightarrow> size v < Suc (size_dict size d)"
proof (cases d)
  case (Dict vs ix)
  assume "(k, v) \<in> set (d_v d)"
  then have "size_prod (\<lambda>_. 0) size (k, v) \<le> size_list (size_prod (\<lambda>_. 0) size) vs"
    using Dict by (intro size_list_estimation' [where x = "(k, v)"]) simp_all
  with Dict show ?thesis by simp
qed

lemma size_list_elem: "v \<in> set l \<Longrightarrow> size v < Suc (size_list size l)"
  using size_list_estimation' [of v l "size v" size] by simp

text \<open>Numbers compare by value across int and float; everything else needs equal types.\<close>

function (sequential) equals :: "val \<Rightarrow> val \<Rightarrow> bool" where
  "equals (VInt a) (VInt b) = (a = b)"
| "equals (VInt a) (VFloat b) = f64_eq (f64_of_int a) b"
| "equals (VFloat a) (VInt b) = f64_eq a (f64_of_int b)"
| "equals (VFloat a) (VFloat b) = f64_eq a b"
| "equals VNull VNull = True"
| "equals (VBool a) (VBool b) = (a = b)"
| "equals (VStr a) (VStr b) = (a = b)"
| "equals (VList a) (VList b) =
     (length a = length b \<and> list_all (\<lambda>x. x) (map2 equals a b))"
| "equals (VDict a) (VDict b) =
     (dict_size a = dict_size b \<and>
      list_all (\<lambda>(k, v). case dict_get b k of None \<Rightarrow> False | Some w \<Rightarrow> equals v w) (d_v a))"
| "equals _ _ = False"
  by pat_completeness auto
termination
  by (relation "measure (\<lambda>(v, w). size v)") (auto dest!: set_zip_leftD intro: size_list_elem size_dict_entry)

section \<open>Escaping\<close>

text \<open>Eight bytes loaded as one little-endian word, and the test that one of them needs an escape.\<close>

definition load64 :: "string \<Rightarrow> u64" where
  "load64 s = foldr (\<lambda>c w. push_bit 8 w OR of_char c) (take 8 s) 0"

definition UNOS :: u64 where "UNOS = 0x0101010101010101"
definition ALTOS :: u64 where "ALTOS = 0x8080808080808080"

definition bloque_sucio :: "u64 \<Rightarrow> bool" where
  "bloque_sucio w =
     (let menor_20 = (w - UNOS * 0x20) AND NOT w AND ALTOS;
          c1 = w XOR (UNOS * 0x22);
          c2 = w XOR (UNOS * 0x5C)
      in (menor_20 OR ((c1 - UNOS) AND NOT c1 AND ALTOS) OR ((c2 - UNOS) AND NOT c2 AND ALTOS)) \<noteq> 0)"

text \<open>The length of the UTF-8 sequence that starts a text, 0 when there is none.\<close>

definition utf8_cont :: "string \<Rightarrow> nat \<Rightarrow> bool" where
  "utf8_cont s k \<longleftrightarrow> k < length s \<and> byte (s ! k) AND 0xC0 = 0x80"

definition largo_utf8 :: "string \<Rightarrow> nat" where
  "largo_utf8 s =
     (let c = byte (s ! 0); c1 = byte (s ! 1)
      in if c < 0x80 then 1
         else if c < 0xC2 then 0
         else if c < 0xE0 then (if utf8_cont s 1 then 2 else 0)
         else if c < 0xF0 then
           (if \<not> utf8_cont s 1 \<or> \<not> utf8_cont s 2 then 0
            else if c = 0xE0 \<and> c1 < 0xA0 then 0
            else if c = 0xED \<and> c1 \<ge> 0xA0 then 0
            else 3)
         else if c < 0xF5 then
           (if \<not> utf8_cont s 1 \<or> \<not> utf8_cont s 2 \<or> \<not> utf8_cont s 3 then 0
            else if c = 0xF0 \<and> c1 < 0x90 then 0
            else if c = 0xF4 \<and> c1 \<ge> 0x90 then 0
            else 4)
         else 0)"

lemma largo_utf8_bound: "s \<noteq> [] \<Longrightarrow> largo_utf8 s \<le> length s \<and> largo_utf8 s \<le> 4"
  by (auto simp: largo_utf8_def utf8_cont_def Let_def Suc_le_eq)

text \<open>\<open>while (i + 8 <= n) { ... i += 8; }\<close>: what is left after the blocks that pass a test.\<close>

function skip_blocks :: "(u64 \<Rightarrow> bool) \<Rightarrow> string \<Rightarrow> string" where
  "skip_blocks ok s = (if 8 \<le> length s \<and> ok (load64 s) then skip_blocks ok (drop 8 s) else s)"
  by pat_completeness auto
termination by (relation "measure (\<lambda>(ok, s). length s)") auto

declare skip_blocks.simps [simp del]

lemma length_skip_blocks: "length (skip_blocks ok s) \<le> length s"
proof (induction ok s rule: skip_blocks.induct)
  case (1 ok s)
  then show ?case by (subst skip_blocks.simps) (auto intro: order_trans)
qed

definition ascii_block :: "u64 \<Rightarrow> bool" where
  "ascii_block w \<longleftrightarrow> w AND ALTOS = 0"

function utf8_valido :: "string \<Rightarrow> bool" where
  "utf8_valido s =
     (if s = [] then True
      else let t = skip_blocks ascii_block s
           in if t = [] then True
              else if byte (hd t) < 0x80 then utf8_valido (tl t)
              else if largo_utf8 t = 0 then False
              else utf8_valido (drop (largo_utf8 t) t))"
  by pat_completeness auto
termination
proof (relation "measure length", goal_cases)
  case (2 s t)
  then have "length (tl t) < length t" "length t \<le> length s"
    using length_skip_blocks [of ascii_block s] by simp_all
  then show ?case by simp
next
  case (3 s t)
  then have "length (drop (largo_utf8 t) t) < length t" "length t \<le> length s"
    using length_skip_blocks [of ascii_block s] by simp_all
  then show ?case by simp
qed simp

declare utf8_valido.simps [simp del]

function sanear_utf8 :: "string \<Rightarrow> string" where
  "sanear_utf8 s =
     (if s = [] then []
      else let l = largo_utf8 s
           in if l = 0 then [CHR 0xEF, CHR 0xBF, CHR 0xBD] @ sanear_utf8 (tl s)
              else take l s @ sanear_utf8 (drop l s))"
  by pat_completeness auto
termination by (relation "measure length") auto

declare sanear_utf8.simps [simp del]

definition needs_escape :: "char \<Rightarrow> bool" where
  "needs_escape c \<longleftrightarrow> byte c < 0x20 \<or> c = CHR 0x22 \<or> c = CHR 0x5C"

definition hex_digit :: "nat \<Rightarrow> char" where
  "hex_digit n = (if n < 10 then char_of (48 + n) else char_of (87 + n))"

text \<open>The escape of one character: \<open>switch (c)\<close>, \<open>snprintf "\u%04x"\<close> by default.\<close>

definition escape_char :: "char \<Rightarrow> string" where
  "escape_char c =
     (if c = CHR 0x22 then [CHR 0x5C, CHR 0x22]
      else if c = CHR 0x5C then [CHR 0x5C, CHR 0x5C]
      else if c = CHR 0x08 then [CHR 0x5C, CHR ''b'']
      else if c = CHR 0x0C then [CHR 0x5C, CHR ''f'']
      else if c = CHR 0x0A then [CHR 0x5C, CHR ''n'']
      else if c = CHR 0x0D then [CHR 0x5C, CHR ''r'']
      else if c = CHR 0x09 then [CHR 0x5C, CHR ''t'']
      else [CHR 0x5C, CHR ''u'', hex_digit 0, hex_digit 0, hex_digit (byte c div 16), hex_digit (byte c mod 16)])"

text \<open>
  The loop of \<open>escapar_valido\<close>: whole clean blocks, then bytes up to the first that needs an
  escape.  Everything between two escapes is copied in one piece.
\<close>

function escape_loop :: "string \<Rightarrow> string" where
  "escape_loop s =
     (if s = [] then []
      else let t = skip_blocks (\<lambda>w. \<not> bloque_sucio w) s;
               u = dropWhile (\<lambda>c. \<not> needs_escape c) t
           in case u of
                [] \<Rightarrow> s
              | c # r \<Rightarrow> take (length s - length u) s @ escape_char c @ escape_loop r)"
  by pat_completeness auto
termination
proof (relation "measure length", goal_cases)
  case (2 s t u c r)
  have "length (c # r) \<le> length (skip_blocks (\<lambda>w. \<not> bloque_sucio w) s)"
    using 2 length_dropWhile_le by metis
  with length_skip_blocks [of "\<lambda>w. \<not> bloque_sucio w" s] show ?case by simp
qed simp

declare escape_loop.simps [simp del]

definition escapar_valido :: "string \<Rightarrow> string" where
  "escapar_valido s = CHR 0x22 # escape_loop s @ [CHR 0x22]"

definition escapar :: "string \<Rightarrow> string" where
  "escapar s = (if utf8_valido s then escapar_valido s else escapar_valido (sanear_utf8 s))"

section \<open>Serialisation\<close>

definition escribir_double :: "fp_text \<Rightarrow> f64 \<Rightarrow> string" where
  "escribir_double F d =
     (if \<not> f64_finite d then ''null''
      else case fp_to_chars F d of
          None \<Rightarrow> ''0''
        | Some t \<Rightarrow> if list_ex (\<lambda>c. c \<in> set ''.eE'') t then t else t @ ''.0'')"

definition internal_key :: "string \<Rightarrow> bool" where
  "internal_key k \<longleftrightarrow> take 2 k = ''__''"

function write_json :: "fp_text \<Rightarrow> val \<Rightarrow> string" where
  "write_json F VNull = ''null''"
| "write_json F (VBool b) = (if b then ''true'' else ''false'')"
| "write_json F (VInt i) = int_dec (sint i)"
| "write_json F (VFloat d) = escribir_double F d"
| "write_json F (VStr s) = escapar s"
| "write_json F (VList l) = ''['' @ sep_by '','' (map (write_json F) l) @ '']''"
| "write_json F (VDict d) = ''{'' @ sep_by '','' (map (\<lambda>(k, t). escapar k @ '':'' @ t)
     (filter (\<lambda>(k, t). \<not> internal_key k) (map (\<lambda>(k, v). (k, write_json F v)) (d_v d)))) @ ''}''"
  by pat_completeness auto
termination
  by (relation "measure (\<lambda>(F, v). size v)") (auto intro: size_list_elem size_dict_entry)

fun to_string :: "fp_text \<Rightarrow> val \<Rightarrow> string" where
  "to_string F VNull = ''null''"
| "to_string F (VBool b) = (if b then ''true'' else ''false'')"
| "to_string F (VInt i) = int_dec (sint i)"
| "to_string F (VFloat d) = fp_ostream F d"
| "to_string F (VStr s) = s"
| "to_string F v = write_json F v"

section \<open>The eight-byte test\<close>

text \<open>The bytes of a word as an integer, and the word all of whose bytes are one.\<close>

fun le_value :: "nat list \<Rightarrow> int" where
  "le_value [] = 0"
| "le_value (b # bs) = int b + 256 * le_value bs"

fun le_ones :: "nat \<Rightarrow> int" where
  "le_ones 0 = 0"
| "le_ones (Suc m) = 1 + 256 * le_ones m"

lemma bit_low_byte: "0 \<le> r \<Longrightarrow> r < 256 \<Longrightarrow> bit (r + 256 * x) (8 + k) = bit (x :: int) k"
proof -
  assume r: "0 \<le> r" "r < 256"
  have "(r + 256 * x) div 2 ^ (8 + k) = (r + 256 * x) div 256 div 2 ^ k"
    by (simp add: power_add div_mult2_eq zdiv_zmult2_eq)
  also have "(r + 256 * x) div 256 = x" using r by simp
  finally show ?thesis by (simp add: bit_iff_odd)
qed

lemma bit_7_byte: "0 \<le> r \<Longrightarrow> r < 256 \<Longrightarrow> bit (r + 256 * x) 7 \<longleftrightarrow> 128 \<le> (r :: int)"
proof -
  assume r: "0 \<le> r" "r < 256"
  have "(r + 256 * x) div 128 = r div 128 + 2 * x"
    using div_mult_self1 [of 128 r "2 * x"] by simp
  moreover have "r div 128 = (if 128 \<le> r then 1 else 0)" using r by auto
  ultimately show ?thesis by (simp add: bit_iff_odd)
qed

lemma swar_less:
  assumes "1 \<le> n" and "n \<le> 128" and "\<forall>b \<in> set bs. b < 256"
  shows "(\<exists>i < length bs. bit (le_value bs - int n * le_ones (length bs)) (8 * i + 7) \<and>
            \<not> bit (le_value bs) (8 * i + 7)) \<longleftrightarrow> (\<exists>b \<in> set bs. b < n)"
  using assms(3)
proof (induction bs)
  case (Cons b bs)
  let ?X = "le_value bs - int n * le_ones (length bs)"
  have split: "le_value (b # bs) - int n * le_ones (length (b # bs)) = (int b - int n) + 256 * ?X"
    by (simp add: algebra_simps)
  have b: "int b < 256" using Cons.prems by simp
  have ex: "(\<exists>i < length (b # bs). P i) \<longleftrightarrow> P 0 \<or> (\<exists>i < length bs. P (Suc i))" for P
    by (auto simp: less_Suc_eq_0_disj)
  show ?case
  proof (cases "b < n")
    case True
    have "(int b - int n) + 256 * ?X = (int b - int n + 256) + 256 * (?X - 1)" by simp
    moreover have "bit ((int b - int n + 256) + 256 * (?X - 1)) 7"
      by (subst bit_7_byte) (use True assms(2) b in simp_all)
    ultimately have "bit (le_value (b # bs) - int n * le_ones (length (b # bs))) 7"
      unfolding split by (simp only:)
    moreover have "\<not> bit (le_value (b # bs)) 7"
      using True assms(2) b by (simp add: bit_7_byte)
    ultimately show ?thesis unfolding ex using True by auto
  next
    case False
    have "bit ((int b - int n) + 256 * ?X) 7 \<longleftrightarrow> 128 \<le> int b - int n"
      by (rule bit_7_byte) (use False b assms(1) in simp_all)
    then have "\<not> (bit ((int b - int n) + 256 * ?X) 7 \<and> \<not> bit (le_value (b # bs)) 7)"
      using bit_7_byte [of "int b" "le_value bs"] b by (simp only: le_value.simps) linarith
    moreover have "bit ((int b - int n) + 256 * ?X) (8 * Suc i + 7) = bit ?X (8 * i + 7)" for i
      using bit_low_byte [of "int b - int n" ?X "8 * i + 7"] False b by (simp add: add.assoc)
    moreover have "bit (le_value (b # bs)) (8 * Suc i + 7) = bit (le_value bs) (8 * i + 7)" for i
      using bit_low_byte [of "int b" "le_value bs" "8 * i + 7"] b by (simp add: add.assoc)
    ultimately have "(\<exists>i < length (b # bs). bit (le_value (b # bs) - int n * le_ones (length (b # bs))) (8 * i + 7) \<and>
        \<not> bit (le_value (b # bs)) (8 * i + 7)) \<longleftrightarrow>
        (\<exists>i < length bs. bit ?X (8 * i + 7) \<and> \<not> bit (le_value bs) (8 * i + 7))"
      unfolding ex split by (simp only: mult_0_right add_0) blast
    with Cons False show ?thesis by simp
  qed
qed simp

definition le_word :: "nat list \<Rightarrow> u64" where
  "le_word bs = foldr (\<lambda>b w. push_bit 8 w OR of_nat b) bs 0"

lemma push_or_byte: "b < 256 \<Longrightarrow> push_bit 8 w OR of_nat b = of_nat b + 256 * (w :: u64)"
proof -
  assume b: "b < 256"
  have "push_bit 8 w AND of_nat b = 0"
    using nat_high_bits [of b 8] b by (intro bit_word_eqI) (auto simp: bit_simps)
  then have "push_bit 8 w + of_nat b = push_bit 8 w OR of_nat b"
    by (rule disjunctive_add_eq_or)
  then show ?thesis by (simp add: push_bit_eq_mult mult.commute add.commute)
qed

lemma le_word_int: "\<forall>b \<in> set bs. b < 256 \<Longrightarrow> le_word bs = word_of_int (le_value bs)"
  by (induction bs) (simp_all add: le_word_def push_or_byte)

lemma le_word_xor: "\<forall>b \<in> set bs. b < 256 \<Longrightarrow> n < 256 \<Longrightarrow>
  le_word (map (\<lambda>b. b XOR n) bs) = le_word bs XOR le_word (replicate (length bs) n)"
proof (induction bs)
  case (Cons b bs)
  have "(push_bit 8 w OR of_nat b) XOR (push_bit 8 u OR of_nat n) =
     push_bit 8 (w XOR u) OR of_nat (b XOR n)" for w u :: u64
  proof (rule bit_word_eqI)
    fix p assume "p < LENGTH(64)"
    then show "bit ((push_bit 8 w OR of_nat b) XOR (push_bit 8 u OR of_nat n)) p =
        bit (push_bit 8 (w XOR u) OR of_nat (b XOR n)) p"
      using nat_high_bits [of b 8 p] nat_high_bits [of n 8 p] Cons.prems
      by (cases "8 \<le> p") (auto simp: bit_simps)
  qed
  with Cons show ?case by (simp add: le_word_def)
qed (simp add: le_word_def)

lemma bit_word_of_nat: "bit (word_of_nat n :: u64) p \<longleftrightarrow> p < 64 \<and> bit n p"
  by (simp add: bit_simps)

lemma bit_le_value_128: "bit (le_value (replicate m 128)) p \<longleftrightarrow> p < 8 * m \<and> p mod 8 = 7"
proof (induction m arbitrary: p)
  case (Suc m)
  show ?case
  proof (cases "p < 8")
    case True
    have "128 + 256 * le_value (replicate m 128) = push_bit 7 (1 + 2 * le_value (replicate m 128))"
      by (simp add: push_bit_eq_mult)
    moreover have "p = 7 \<longleftrightarrow> p mod 8 = 7" using True by simp
    ultimately show ?thesis using True by (auto simp: bit_push_bit_iff bit_0)
  next
    case False
    then obtain k where "p = 8 + k" by (metis le_Suc_ex not_less)
    with Suc [of k] bit_low_byte [of 128 "le_value (replicate m 128)" k] show ?thesis by simp
  qed
qed simp

lemma ALTOS_bit: "bit ALTOS p \<longleftrightarrow> p < 64 \<and> p mod 8 = 7"
proof -
  have "ALTOS = word_of_int (le_value (replicate 8 128))" by (simp add: ALTOS_def numeral_nat)
  show ?thesis unfolding \<open>ALTOS = _\<close> bit_word_of_int_iff bit_le_value_128 by auto
qed

lemma UNOS_ones: "UNOS = word_of_int (le_ones 8)"
  by (simp add: UNOS_def eval_nat_numeral)

lemma zero_iff_no_bit: "(x :: u64) \<noteq> 0 \<longleftrightarrow> (\<exists>p. bit x p)"
  by (metis bit_0_eq bit_eqI bot_apply bot_bool_def)

lemma ex_byte_top: "(\<exists>p < 64. p mod 8 = 7 \<and> Q p) \<longleftrightarrow> (\<exists>i < 8. Q (8 * i + (7 :: nat)))"
proof
  assume "\<exists>p < 64. p mod 8 = 7 \<and> Q p"
  then obtain p where p: "p < 64" "p mod 8 = 7" "Q p" by blast
  then have "p = 8 * (p div 8) + 7" using mult_div_mod_eq [of 8 p] by linarith
  moreover have "p div 8 < 8" using p by (simp add: less_mult_imp_div_less)
  ultimately show "\<exists>i < 8. Q (8 * i + 7)" using p by metis
next
  assume "\<exists>i < 8. Q (8 * i + 7)"
  then obtain i where i: "i < 8" "Q (8 * i + 7)" by blast
  have "(8 * i + 7) mod 8 = 7" by simp
  with i show "\<exists>p < 64. p mod 8 = 7 \<and> Q p" by (intro exI [of _ "8 * i + 7"]) simp
qed

lemma swar_word:
  assumes "1 \<le> n" and "n \<le> 128" and "\<forall>b \<in> set bs. b < 256" and "length bs = 8"
  shows "(le_word bs - UNOS * of_nat n) AND NOT (le_word bs) AND ALTOS \<noteq> 0 \<longleftrightarrow> (\<exists>b \<in> set bs. b < n)"
proof -
  have sub: "le_word bs - UNOS * of_nat n = word_of_int (le_value bs - int n * le_ones 8)"
    by (simp add: le_word_int [OF assms(3)] UNOS_ones mult.commute)
  have "(le_word bs - UNOS * of_nat n) AND NOT (le_word bs) AND ALTOS \<noteq> 0 \<longleftrightarrow>
      (\<exists>p < 64. p mod 8 = 7 \<and> bit (le_value bs - int n * le_ones 8) p \<and> \<not> bit (le_value bs) p)"
    unfolding zero_iff_no_bit sub unfolding le_word_int [OF assms(3)] bit_and_iff bit_not_iff
      bit_word_of_int_iff ALTOS_bit
    by auto
  also have "\<dots> \<longleftrightarrow> (\<exists>i < 8. bit (le_value bs - int n * le_ones 8) (8 * i + 7) \<and> \<not> bit (le_value bs) (8 * i + 7))"
    by (rule ex_byte_top)
  also have "\<dots> \<longleftrightarrow> (\<exists>b \<in> set bs. b < n)"
    using swar_less [OF assms(1-3)] assms(4) by simp
  finally show ?thesis .
qed

lemma load64_bytes: "load64 s = le_word (map byte (take 8 s))"
  by (simp add: load64_def le_word_def foldr_map o_def of_char_word)

lemma xor_nat_eq_0: "b XOR n = 0 \<longleftrightarrow> b = (n :: nat)"
proof
  assume "b XOR n = 0"
  then have "\<not> (bit b k \<noteq> bit n k)" for k using bit_xor_iff [of b n k] by simp
  then show "b = n" by (intro bit_eqI) simp
next
  assume "b = n"
  then show "b XOR n = 0" by (intro bit_eqI) (simp add: bit_xor_iff)
qed

lemma has_byte:
  assumes "\<forall>b \<in> set bs. b < 256" and "length bs = 8" and "n < 256"
    and "k = le_word (replicate 8 n)" and "\<forall>b < 256. b XOR n < 256"
  shows "((le_word bs XOR k) - UNOS) AND NOT (le_word bs XOR k) AND ALTOS \<noteq> 0 \<longleftrightarrow> n \<in> set bs"
proof -
  let ?cs = "map (\<lambda>b. b XOR n) bs"
  have x: "le_word bs XOR k = le_word ?cs"
    using le_word_xor [OF assms(1,3)] assms(2,4) by simp
  have "(le_word ?cs - UNOS * of_nat 1) AND NOT (le_word ?cs) AND ALTOS \<noteq> 0 \<longleftrightarrow> (\<exists>b \<in> set ?cs. b < 1)"
    using assms(1,2,5) by (intro swar_word) auto
  then show ?thesis unfolding x by (auto simp: xor_nat_eq_0)
qed

lemma xor_byte_less: "b < 256 \<Longrightarrow> n < 256 \<Longrightarrow> b XOR n < (256 :: nat)"
  using take_bit_nat_less_exp [of 8 "b XOR n"] by (simp add: take_bit_nat_eq_self)

lemma or_not_0: "(x OR y :: u64) \<noteq> 0 \<longleftrightarrow> x \<noteq> 0 \<or> y \<noteq> 0"
  by (auto simp: or_eq_0_iff)

lemma byte_char_iff:
  "byte c = 0x22 \<longleftrightarrow> c = CHR 0x22" "byte c = 0x5C \<longleftrightarrow> c = CHR 0x5C"
  using byte_eq_iff [of c "CHR 0x22"] byte_eq_iff [of c "CHR 0x5C"] by simp_all

lemma bloque_sucio_iff:
  assumes "8 \<le> length s"
  shows "bloque_sucio (load64 s) \<longleftrightarrow> (\<exists>c \<in> set (take 8 s). needs_escape c)"
proof -
  let ?bs = "map byte (take 8 s)"
  have bs: "\<forall>b \<in> set ?bs. b < 256" "length ?bs = 8" using assms by auto
  have k1: "UNOS * 0x22 = le_word (replicate 8 0x22)" and k2: "UNOS * 0x5C = le_word (replicate 8 0x5C)"
    by (simp_all add: UNOS_def le_word_int numeral_nat)
  have "(le_word ?bs - UNOS * 0x20) AND NOT (le_word ?bs) AND ALTOS \<noteq> 0 \<longleftrightarrow> (\<exists>b \<in> set ?bs. b < 0x20)"
    using swar_word [of 32 ?bs] bs by simp
  moreover have "((le_word ?bs XOR (UNOS * 0x22)) - UNOS) AND NOT (le_word ?bs XOR (UNOS * 0x22)) AND ALTOS \<noteq> 0
      \<longleftrightarrow> 0x22 \<in> set ?bs"
    by (rule has_byte [OF bs _ k1]) (simp_all add: xor_byte_less)
  moreover have "((le_word ?bs XOR (UNOS * 0x5C)) - UNOS) AND NOT (le_word ?bs XOR (UNOS * 0x5C)) AND ALTOS \<noteq> 0
      \<longleftrightarrow> 0x5C \<in> set ?bs"
    by (rule has_byte [OF bs _ k2]) (simp_all add: xor_byte_less)
  ultimately have "bloque_sucio (le_word ?bs) \<longleftrightarrow> (\<exists>b \<in> set ?bs. b < 0x20) \<or> 0x22 \<in> set ?bs \<or> 0x5C \<in> set ?bs"
    unfolding bloque_sucio_def Let_def or_not_0 by blast
  also have "\<dots> \<longleftrightarrow> (\<exists>c \<in> set (take 8 s). needs_escape c)"
    unfolding needs_escape_def byte_char_iff [symmetric] set_map by (auto simp: image_iff) 
  finally show ?thesis by (simp add: load64_bytes)
qed

text \<open>Hence the block loop only skips characters that need no escape.\<close>

definition esc1 :: "char \<Rightarrow> string" where
  "esc1 c = (if needs_escape c then escape_char c else [c])"

lemma skip_clean_blocks:
  "\<exists>p. s = p @ skip_blocks (\<lambda>w. \<not> bloque_sucio w) s \<and> (\<forall>c \<in> set p. \<not> needs_escape c)"
proof (induction "\<lambda>w. \<not> bloque_sucio w" s rule: skip_blocks.induct)
  case (1 s)
  let ?ok = "\<lambda>w. \<not> bloque_sucio w"
  show ?case
  proof (cases "8 \<le> length s \<and> ?ok (load64 s)")
    case True
    with 1 obtain p where p: "drop 8 s = p @ skip_blocks ?ok (drop 8 s)" "\<forall>c \<in> set p. \<not> needs_escape c"
      by blast
    from True have "skip_blocks ?ok s = skip_blocks ?ok (drop 8 s)" by (simp add: skip_blocks.simps [of _ s])
    moreover have "s = (take 8 s @ p) @ skip_blocks ?ok (drop 8 s)"
      using p(1) by (metis append.assoc append_take_drop_id)
    moreover have "\<forall>c \<in> set (take 8 s @ p). \<not> needs_escape c"
      using True p(2) bloque_sucio_iff [of s] by auto
    ultimately show ?thesis by metis
  next
    case False
    then have "skip_blocks ?ok s = s" by (subst skip_blocks.simps) (simp only: if_False)
    then show ?thesis by (intro exI [of _ "[]"]) simp
  qed
qed

lemma concat_esc1_plain: "\<forall>c \<in> set p. \<not> needs_escape c \<Longrightarrow> concat (map esc1 p) = p"
  by (induction p) (auto simp: esc1_def)

lemma escape_loop_bytes: "escape_loop s = concat (map esc1 s)"
proof (induction s rule: escape_loop.induct)
  case (1 s)
  let ?t = "skip_blocks (\<lambda>w. \<not> bloque_sucio w) s"
  obtain p where p: "s = p @ ?t" "\<forall>c \<in> set p. \<not> needs_escape c" using skip_clean_blocks by blast
  let ?q = "takeWhile (\<lambda>c. \<not> needs_escape c) ?t" and ?u = "dropWhile (\<lambda>c. \<not> needs_escape c) ?t"
  have s: "s = (p @ ?q) @ ?u" using p(1) by simp
  have plain: "concat (map esc1 (p @ ?q)) = p @ ?q"
    using p(2) by (intro concat_esc1_plain) (auto dest: set_takeWhileD)
  show ?case
  proof (cases ?u)
    case Nil
    with s plain have e: "concat (map esc1 s) = s" by (metis append_Nil2)
    show ?thesis unfolding e by (subst escape_loop.simps) (simp only: Let_def Nil list.case, simp)
  next
    case (Cons c r)
    then have c: "needs_escape c" by (metis dropWhile_eq_Cons_conv)
    have t: "take (length s - length ?u) s = p @ ?q"
      using s by (metis append_eq_conv_conj diff_add_inverse2 length_append)
    have ne: "s \<noteq> []" using s Cons by force
    have e: "concat (map esc1 s) = (p @ ?q) @ escape_char c @ concat (map esc1 r)"
      using arg_cong [OF s, of "\<lambda>x. concat (map esc1 x)"] c
      unfolding map_append concat_append plain [unfolded map_append concat_append] Cons by (simp add: esc1_def)
    have ih: "escape_loop r = concat (map esc1 r)"
      using "1" [OF ne refl refl Cons] .
    show ?thesis
      unfolding e by (subst escape_loop.simps) (simp only: Let_def Cons list.case t [unfolded Cons] ih ne if_False append.assoc)
  qed
qed

section \<open>UTF-8\<close>

text \<open>The validity the block loop decides, without the blocks.\<close>

function utf8_ok :: "string \<Rightarrow> bool" where
  "utf8_ok s = (if s = [] then True else if largo_utf8 s = 0 then False
     else utf8_ok (drop (largo_utf8 s) s))"
  by pat_completeness auto
termination by (relation "measure length") auto

declare utf8_ok.simps [simp del]

lemma utf8_ok_Nil [simp]: "utf8_ok []"
  by (simp add: utf8_ok.simps)

lemma utf8_ok_step: "s \<noteq> [] \<Longrightarrow> utf8_ok s \<longleftrightarrow> largo_utf8 s \<noteq> 0 \<and> utf8_ok (drop (largo_utf8 s) s)"
  by (subst utf8_ok.simps) simp

lemma largo_ascii: "byte c < 0x80 \<Longrightarrow> largo_utf8 (c # s) = 1"
  by (simp add: largo_utf8_def)

lemma utf8_ok_ascii [simp]: "byte c < 0x80 \<Longrightarrow> utf8_ok (c # s) = utf8_ok s"
  by (subst utf8_ok.simps) (simp add: largo_ascii)

lemma utf8_ok_ascii_append: "\<forall>c \<in> set p. byte c < 0x80 \<Longrightarrow> utf8_ok (p @ s) = utf8_ok s"
  by (induction p) auto

lemma ascii_block_iff:
  assumes "8 \<le> length s"
  shows "ascii_block (load64 s) \<longleftrightarrow> (\<forall>c \<in> set (take 8 s). byte c < 0x80)"
proof -
  let ?bs = "map byte (take 8 s)"
  have bs: "\<forall>b \<in> set ?bs. b < 256" "length ?bs = 8" using assms by auto
  have top: "(\<exists>i < length bs. bit (le_value bs) (8 * i + 7)) \<longleftrightarrow> (\<exists>b \<in> set bs. 128 \<le> b)"
    if "\<forall>b \<in> set bs. b < 256" for bs
    using that
  proof (induction bs)
    case (Cons b bs)
    have "bit (le_value (b # bs)) (8 * Suc i + 7) = bit (le_value bs) (8 * i + 7)" for i
      using bit_low_byte [of "int b" "le_value bs" "8 * i + 7"] Cons.prems by (simp add: add.assoc)
    moreover have "bit (le_value (b # bs)) 7 \<longleftrightarrow> 128 \<le> b"
      using bit_7_byte [of "int b" "le_value bs"] Cons.prems by simp
    ultimately have "(\<exists>i < length (b # bs). bit (le_value (b # bs)) (8 * i + 7)) \<longleftrightarrow>
        128 \<le> b \<or> (\<exists>i < length bs. bit (le_value bs) (8 * i + 7))"
      unfolding length_Cons by (metis (no_types, lifting) Suc_less_eq add_0 gr0_conv_Suc mult_0_right not0_implies_Suc zero_less_Suc)
    with Cons show ?case by simp
  qed simp
  have "load64 s AND ALTOS \<noteq> 0 \<longleftrightarrow> (\<exists>p < 64. p mod 8 = 7 \<and> bit (le_value ?bs) p)"
    unfolding zero_iff_no_bit load64_bytes le_word_int [OF bs(1)] bit_and_iff bit_word_of_int_iff ALTOS_bit
    by auto
  also have "\<dots> \<longleftrightarrow> (\<exists>b \<in> set ?bs. 128 \<le> b)"
    using top [OF bs(1)] unfolding bs(2) ex_byte_top by (simp only:)
  finally show ?thesis by (auto simp: ascii_block_def not_le)
qed

lemma skip_ascii_blocks:
  "\<exists>p. s = p @ skip_blocks ascii_block s \<and> (\<forall>c \<in> set p. byte c < 0x80)"
proof (induction ascii_block s rule: skip_blocks.induct)
  case (1 s)
  show ?case
  proof (cases "8 \<le> length s \<and> ascii_block (load64 s)")
    case True
    with 1 obtain p where p: "drop 8 s = p @ skip_blocks ascii_block (drop 8 s)" "\<forall>c \<in> set p. byte c < 0x80"
      by blast
    from True have "skip_blocks ascii_block s = skip_blocks ascii_block (drop 8 s)"
      by (simp add: skip_blocks.simps [of _ s])
    moreover have "s = (take 8 s @ p) @ skip_blocks ascii_block (drop 8 s)"
      using p(1) by (metis append.assoc append_take_drop_id)
    moreover have "\<forall>c \<in> set (take 8 s @ p). byte c < 0x80"
      using True p(2) ascii_block_iff [of s] by auto
    ultimately show ?thesis by metis
  next
    case False
    then have "skip_blocks ascii_block s = s" by (subst skip_blocks.simps) (simp only: if_False)
    then show ?thesis by (intro exI [of _ "[]"]) simp
  qed
qed

lemma utf8_valido_ok: "utf8_valido s = utf8_ok s"
proof (induction s rule: utf8_valido.induct)
  case (1 s)
  define t where "t = skip_blocks ascii_block s"
  obtain p where p: "s = p @ t" "\<forall>c \<in> set p. byte c < 0x80"
    using skip_ascii_blocks [of s] unfolding t_def by blast
  have ok: "utf8_ok s = utf8_ok t" using p utf8_ok_ascii_append by blast
  show ?case
  proof (cases t)
    case Nil
    then show ?thesis unfolding ok by (subst utf8_valido.simps) (simp add: t_def)
  next
    case (Cons c r)
    with p have "s \<noteq> []" by auto
    note ih = "1.IH" [OF this t_def]
    have "utf8_valido s = (if byte c < 0x80 then utf8_valido r
        else if largo_utf8 t = 0 then False else utf8_valido (drop (largo_utf8 t) t))"
      using Cons \<open>s \<noteq> []\<close> by (subst utf8_valido.simps) (simp add: Let_def flip: t_def)
    moreover have "utf8_ok t = (if byte c < 0x80 then utf8_ok r
        else if largo_utf8 t = 0 then False else utf8_ok (drop (largo_utf8 t) t))"
    proof (cases "byte c < 0x80")
      case False
      have "t \<noteq> []" using Cons by simp
      from utf8_ok_step [OF this] False show ?thesis by argo
    qed (simp add: Cons)
    moreover have "byte c < 0x80 \<Longrightarrow> utf8_valido r = utf8_ok r"
      using ih(1) Cons by simp
    moreover have "\<not> byte c < 0x80 \<Longrightarrow> largo_utf8 t \<noteq> 0 \<Longrightarrow>
        utf8_valido (drop (largo_utf8 t) t) = utf8_ok (drop (largo_utf8 t) t)"
      using ih(2) Cons by simp
    ultimately show ?thesis unfolding ok
      by (cases "byte c < 0x80"; cases "largo_utf8 t = 0"; simp only: if_True if_False simp_thms)
  qed
qed

text \<open>A sequence is recognised from its own bytes, whatever follows it.\<close>

definition largo_of :: "nat \<Rightarrow> bool \<Rightarrow> bool \<Rightarrow> bool \<Rightarrow> nat \<Rightarrow> nat" where
  "largo_of c k1 k2 k3 c1 =
     (if c < 0x80 then 1
      else if c < 0xC2 then 0
      else if c < 0xE0 then (if k1 then 2 else 0)
      else if c < 0xF0 then
        (if \<not> k1 \<or> \<not> k2 then 0 else if c = 0xE0 \<and> c1 < 0xA0 then 0
         else if c = 0xED \<and> c1 \<ge> 0xA0 then 0 else 3)
      else if c < 0xF5 then
        (if \<not> k1 \<or> \<not> k2 \<or> \<not> k3 then 0 else if c = 0xF0 \<and> c1 < 0x90 then 0
         else if c = 0xF4 \<and> c1 \<ge> 0x90 then 0 else 4)
      else 0)"

lemma largo_utf8_of:
  "largo_utf8 s = largo_of (byte (s ! 0)) (utf8_cont s 1) (utf8_cont s 2) (utf8_cont s 3) (byte (s ! 1))"
  by (simp only: largo_utf8_def largo_of_def Let_def)

lemma largo_of_cong:
  assumes "largo_of c k1 k2 k3 c1 = l" and "l \<noteq> 0"
    and "l > 1 \<Longrightarrow> k1' = k1 \<and> c1' = c1" and "l > 2 \<Longrightarrow> k2' = k2" and "l > 3 \<Longrightarrow> k3' = k3"
  shows "largo_of c k1' k2' k3' c1' = l"
proof -
  consider (a) "c < 0x80" | (b) "0x80 \<le> c" "c < 0xC2" | (c) "0xC2 \<le> c" "c < 0xE0"
    | (d) "0xE0 \<le> c" "c < 0xF0" | (e) "0xF0 \<le> c" "c < 0xF5" | (f) "0xF5 \<le> c"
    by linarith
  then show ?thesis
  proof cases
    case c
    then have "largo_of c x y z w = (if x then 2 else 0)" for x y z w by (simp add: largo_of_def)
    then show ?thesis using assms(1-3) by (simp split: if_splits)
  next
    case d
    then have "largo_of c x y z w = (if \<not> x \<or> \<not> y then 0 else if c = 0xE0 \<and> w < 0xA0 then 0
        else if c = 0xED \<and> w \<ge> 0xA0 then 0 else 3)" for x y z w by (simp add: largo_of_def)
    note eq = this
    have "l = 3" using eq [of k1 k2 k3 c1] assms(1,2) by (simp split: if_splits)
    with assms(3,4) have "k1' = k1" "c1' = c1" "k2' = k2" by simp_all
    then have "largo_of c k1' k2' k3' c1' = largo_of c k1 k2 k3 c1" unfolding eq by (simp only:)
    with assms(1) show ?thesis by simp
  next
    case e
    then have "largo_of c x y z w = (if \<not> x \<or> \<not> y \<or> \<not> z then 0 else if c = 0xF0 \<and> w < 0x90 then 0
        else if c = 0xF4 \<and> w \<ge> 0x90 then 0 else 4)" for x y z w by (simp add: largo_of_def)
    note eq = this
    have "l = 4" using eq [of k1 k2 k3 c1] assms(1,2) by (simp split: if_splits)
    with assms(3-5) have "k1' = k1" "c1' = c1" "k2' = k2" "k3' = k3" by simp_all
    then have "largo_of c k1' k2' k3' c1' = largo_of c k1 k2 k3 c1" unfolding eq by (simp only:)
    with assms(1) show ?thesis by simp
  qed (use assms(1,2) in \<open>simp_all add: largo_of_def\<close>)
qed

lemma largo_utf8_prefix:
  assumes "largo_utf8 s = l" and "l \<noteq> 0" and "take l t = take l s" and "l \<le> length t" and "l \<le> length s"
  shows "largo_utf8 t = l"
proof -
  have n: "t ! k = s ! k" if "k < l" for k using assms(3) that by (metis nth_take)
  then have c: "utf8_cont t k = utf8_cont s k" if "k < l" for k
    using that assms(4,5) by (simp add: utf8_cont_def)
  have t0: "t ! 0 = s ! 0" using n [of 0] assms(2) by simp
  show ?thesis
    unfolding largo_utf8_of t0
    by (rule largo_of_cong [OF assms(1) [unfolded largo_utf8_of] assms(2)]) (use n [of 1] c in auto)
qed

lemma largo_utf8_append:
  assumes "largo_utf8 s = l" and "l \<noteq> 0" and "s \<noteq> []"
  shows "largo_utf8 (s @ r) = l"
  using largo_utf8_bound [OF assms(3)] assms(1,2) by (intro largo_utf8_prefix [OF assms(1,2)]) simp_all

lemma utf8_ok_append: "utf8_ok s \<Longrightarrow> utf8_ok (s @ r) = utf8_ok r"
proof (induction s rule: utf8_ok.induct)
  case (1 s)
  show ?case
  proof (cases "s = []")
    case False
    with "1.prems" have l: "largo_utf8 s \<noteq> 0" "utf8_ok (drop (largo_utf8 s) s)"
      by (simp_all add: utf8_ok_step)
    from largo_utf8_append [OF refl l(1) False] have "largo_utf8 (s @ r) = largo_utf8 s" .
    moreover have "largo_utf8 s \<le> length s" using largo_utf8_bound [OF False] by simp
    ultimately show ?thesis
      using 1 False l by (subst utf8_ok.simps) simp
  qed simp
qed

lemma utf8_ok_take: "largo_utf8 s \<noteq> 0 \<Longrightarrow> s \<noteq> [] \<Longrightarrow> utf8_ok (take (largo_utf8 s) s)"
proof -
  assume l: "largo_utf8 s \<noteq> 0" and s: "s \<noteq> []"
  have "largo_utf8 (take (largo_utf8 s) s) = largo_utf8 s"
    by (rule largo_utf8_prefix [OF refl l]) (use largo_utf8_bound [OF s] in simp_all)
  then show ?thesis using l s by (subst utf8_ok.simps) simp
qed

lemma utf8_ok_sanear: "utf8_ok (sanear_utf8 s)"
proof (induction s rule: sanear_utf8.induct)
  case (1 s)
  show ?case
  proof (cases "s = []")
    case False
    have "utf8_ok [CHR 0xEF, CHR 0xBF, CHR 0xBD]" by code_simp
    then show ?thesis
      using 1 False utf8_ok_take [of s]
      by (subst sanear_utf8.simps) (simp add: Let_def utf8_ok_append [of "[CHR 0xEF, CHR 0xBF, CHR 0xBD]", simplified] utf8_ok_append)
  qed (simp add: sanear_utf8.simps)
qed

lemma sanear_utf8_id: "utf8_ok s \<Longrightarrow> sanear_utf8 s = s"
proof (induction s rule: sanear_utf8.induct)
  case (1 s)
  show ?case
  proof (cases "s = []")
    case False
    with "1.prems" have "largo_utf8 s \<noteq> 0" "utf8_ok (drop (largo_utf8 s) s)"
      by (simp_all add: utf8_ok_step)
    with 1 False show ?thesis by (subst sanear_utf8.simps) simp
  qed (simp add: sanear_utf8.simps)
qed

section \<open>Properties\<close>

text \<open>Skipping eight clean bytes at a time changes nothing: the escaped text is the concatenation
  of the escapes of the single characters, between quotes.\<close>

theorem escapar_by_blocks:
  "escapar_valido s = CHR 0x22 # concat (map (\<lambda>c. if needs_escape c then escape_char c else [c]) s) @ [CHR 0x22]"
  by (simp add: escapar_valido_def escape_loop_bytes esc1_def [abs_def])

text \<open>The word-parallel test on a block of eight bytes is exact: it fires if and only if one of the
  eight needs an escape.\<close>

theorem bloque_sucio_exact:
  assumes "8 \<le> length s"
  shows "bloque_sucio (load64 s) \<longleftrightarrow> (\<exists>c \<in> set (take 8 s). byte c < 0x20 \<or> c = CHR 0x22 \<or> c = CHR 0x5C)"
  using bloque_sucio_iff [OF assms] by (simp add: needs_escape_def)

theorem bloque_sucio_exact_witness:
  "\<not> bloque_sucio (load64 ''abcdefgh'') \<and> bloque_sucio (load64 [CHR ''a'', CHR 0x1F, CHR 0xFF, CHR ''d'', CHR ''e'', CHR ''f'', CHR ''g'', CHR ''h''])"
  using bloque_sucio_exact [of "''abcdefgh''"]
    bloque_sucio_exact [of "[CHR ''a'', CHR 0x1F, CHR 0xFF, CHR ''d'', CHR ''e'', CHR ''f'', CHR ''g'', CHR ''h'']"]
  by simp

end
