(* ===== verification/JsonParse.thy ===== *)
theory JsonParse
  imports Values
begin

unbundle bit_operations_syntax

text \<open>
  The JSON parser (src/odio/json_parse.cpp), a strict recursive descent over the text.  The
  position \<open>i_\<close> is the text that is left; a function that returns \<open>false\<close> is \<open>None\<close>.
  \<open>lista\<close> and \<open>objeto\<close> call themselves on what \<open>valor\<close> left, which is always shorter: the
  comparison of lengths in them is never false (\<open>valor_shorter\<close>).
\<close>

definition kMaxProfundidad :: nat where
  "kMaxProfundidad = 200"

definition is_ws :: "char \<Rightarrow> bool" where
  "is_ws c \<longleftrightarrow> c = CHR '' '' \<or> c = CHR 0x09 \<or> c = CHR 0x0A \<or> c = CHR 0x0D"

definition espacios :: "string \<Rightarrow> string" where
  "espacios s = dropWhile is_ws s"

definition literal :: "string \<Rightarrow> string \<Rightarrow> string option" where
  "literal lit s = (if take (length lit) s = lit then Some (drop (length lit) s) else None)"

text \<open>A code point as UTF-8.\<close>

definition utf8 :: "u32 \<Rightarrow> string" where
  "utf8 cp =
     (if cp < 0x80 then [char_of (unat cp)]
      else if cp < 0x800 then
        [char_of (unat (0xC0 OR drop_bit 6 cp)), char_of (unat (0x80 OR (cp AND 0x3F)))]
      else if cp < 0x10000 then
        [char_of (unat (0xE0 OR drop_bit 12 cp)), char_of (unat (0x80 OR (drop_bit 6 cp AND 0x3F))),
         char_of (unat (0x80 OR (cp AND 0x3F)))]
      else
        [char_of (unat (0xF0 OR drop_bit 18 cp)), char_of (unat (0x80 OR (drop_bit 12 cp AND 0x3F))),
         char_of (unat (0x80 OR (drop_bit 6 cp AND 0x3F))), char_of (unat (0x80 OR (cp AND 0x3F)))])"

definition hex_value :: "char \<Rightarrow> nat option" where
  "hex_value c =
     (if is_digit c then Some (byte c - 48)
      else if 97 \<le> byte c \<and> byte c \<le> 102 then Some (byte c - 97 + 10)
      else if 65 \<le> byte c \<and> byte c \<le> 70 then Some (byte c - 65 + 10)
      else None)"

fun hex_digits :: "nat \<Rightarrow> u32 \<Rightarrow> string \<Rightarrow> (u32 \<times> string) option" where
  "hex_digits 0 cp s = Some (cp, s)"
| "hex_digits (Suc n) cp [] = None"
| "hex_digits (Suc n) cp (c # s) = (case hex_value c of
       None \<Rightarrow> None
     | Some d \<Rightarrow> hex_digits n (push_bit 4 cp OR of_nat d) s)"

definition hex4 :: "string \<Rightarrow> (u32 \<times> string) option" where
  "hex4 s = (if length s < 4 then None else hex_digits 4 0 s)"

text \<open>What follows \<open>\u\<close>: a code point, or a surrogate pair; a lone surrogate is refused.\<close>

definition unicode_escape :: "string \<Rightarrow> (string \<times> string) option" where
  "unicode_escape s = (case hex4 s of
       None \<Rightarrow> None
     | Some (cp, r) \<Rightarrow>
         if 0xD800 \<le> cp \<and> cp \<le> 0xDBFF then
           (if length r < 2 \<or> r ! 0 \<noteq> CHR 0x5C \<or> r ! 1 \<noteq> CHR ''u'' then None
            else case hex4 (drop 2 r) of
                None \<Rightarrow> None
              | Some (bajo, r') \<Rightarrow>
                  if bajo < 0xDC00 \<or> bajo > 0xDFFF then None
                  else Some (utf8 (0x10000 + push_bit 10 (cp - 0xD800) + (bajo - 0xDC00)), r'))
         else if 0xDC00 \<le> cp \<and> cp \<le> 0xDFFF then None
         else Some (utf8 cp, r))"

definition simple_escape :: "char \<Rightarrow> char option" where
  "simple_escape e =
     (if e = CHR 0x22 then Some (CHR 0x22)
      else if e = CHR 0x5C then Some (CHR 0x5C)
      else if e = CHR ''/'' then Some (CHR ''/'')
      else if e = CHR ''b'' then Some (CHR 0x08)
      else if e = CHR ''f'' then Some (CHR 0x0C)
      else if e = CHR ''n'' then Some (CHR 0x0A)
      else if e = CHR ''r'' then Some (CHR 0x0D)
      else if e = CHR ''t'' then Some (CHR 0x09)
      else None)"

lemma hex_digits_shorter: "hex_digits n cp s = Some (cp', r) \<Longrightarrow> length r + n = length s"
  by (induction n cp s rule: hex_digits.induct) (auto split: option.splits)

lemma unicode_escape_shorter: "unicode_escape s = Some (u, r) \<Longrightarrow> length r < length s"
  by (auto simp: unicode_escape_def hex4_def dest!: hex_digits_shorter split: option.splits prod.splits if_splits)

text \<open>The slow loop of \<open>cadena\<close>, one character or escape at a time.\<close>

function cadena_loop :: "string \<Rightarrow> string \<Rightarrow> (string \<times> string) option" where
  "cadena_loop out [] = None"
| "cadena_loop out (c # s) =
     (if c = CHR 0x22 then Some (out, s)
      else if byte c < 0x20 then None
      else if c \<noteq> CHR 0x5C then cadena_loop (out @ [c]) s
      else case s of
          [] \<Rightarrow> None
        | e # r \<Rightarrow>
            if e = CHR ''u'' then
              (case unicode_escape r of None \<Rightarrow> None | Some (u, r') \<Rightarrow> cadena_loop (out @ u) r')
            else case simple_escape e of None \<Rightarrow> None | Some x \<Rightarrow> cadena_loop (out @ [x]) r)"
  by pat_completeness auto
termination
  by (relation "measure (\<lambda>(out, s). length s)") (auto dest: unicode_escape_shorter)

text \<open>The fast path copies up to the first quote, backslash or control character.\<close>

definition plain_char :: "char \<Rightarrow> bool" where
  "plain_char c \<longleftrightarrow> c \<noteq> CHR 0x22 \<and> c \<noteq> CHR 0x5C \<and> 0x20 \<le> byte c"

definition cadena :: "string \<Rightarrow> (string \<times> string) option" where
  "cadena s =
     (let body = tl s; out = takeWhile plain_char body
      in case dropWhile plain_char body of
           [] \<Rightarrow> None
         | c # r \<Rightarrow>
             if c = CHR 0x22 then Some (out, r)
             else if c = CHR 0x5C then cadena_loop out (c # r)
             else None)"

section \<open>Numbers\<close>

definition span_digits :: "string \<Rightarrow> string \<times> string" where
  "span_digits s = (takeWhile is_digit s, dropWhile is_digit s)"

text \<open>The integer part, the fraction and the exponent; each returns its text and the rest.\<close>

definition num_int :: "string \<Rightarrow> (string \<times> string) option" where
  "num_int s = (case s of
       [] \<Rightarrow> None
     | c # r \<Rightarrow> if c = CHR ''0'' then Some ([c], r)
         else if is_digit c then Some (span_digits s)
         else None)"

definition num_frac :: "string \<Rightarrow> (string \<times> string) option" where
  "num_frac s = (case s of
       c # r \<Rightarrow> if c = CHR ''.'' then
           (case span_digits r of ([], _) \<Rightarrow> None | (ds, r') \<Rightarrow> Some (c # ds, r'))
         else Some ([], s)
     | [] \<Rightarrow> Some ([], s))"

definition num_exp :: "string \<Rightarrow> (string \<times> string) option" where
  "num_exp s = (case s of
       c # r \<Rightarrow> if c = CHR ''e'' \<or> c = CHR ''E'' then
           (let (sg, r1) = (case r of
                  x # r' \<Rightarrow> if x = CHR ''+'' \<or> x = CHR ''-'' then ([x], r') else ([], r)
                | [] \<Rightarrow> ([], r))
            in case span_digits r1 of ([], _) \<Rightarrow> None | (ds, r') \<Rightarrow> Some (c # sg @ ds, r'))
         else Some ([], s)
     | [] \<Rightarrow> Some ([], s))"

text \<open>\<open>std::from_chars\<close> for \<open>long long\<close>: an error outside its range.\<close>

definition from_chars_int :: "bool \<Rightarrow> string \<Rightarrow> i64 option" where
  "from_chars_int neg ds =
     (let n = int (dec_value ds); v = (if neg then - n else n)
      in if - (2 ^ 63) \<le> v \<and> v < 2 ^ 63 then Some (word_of_int v) else None)"

definition numero :: "fp_text \<Rightarrow> string \<Rightarrow> (val \<times> string) option" where
  "numero F s =
     (let neg = (s \<noteq> [] \<and> hd s = CHR ''-'');
          sg = (if neg then ''-'' else '''');
          s0 = (if neg then tl s else s)
      in case num_int s0 of
           None \<Rightarrow> None
         | Some (ip, s1) \<Rightarrow>
             (case num_frac s1 of
                None \<Rightarrow> None
              | Some (fp, s2) \<Rightarrow>
                  (case num_exp s2 of
                     None \<Rightarrow> None
                   | Some (ep, s3) \<Rightarrow>
                       let real = (fp \<noteq> [] \<or> ep \<noteq> []);
                           dbl = (case fp_from_chars F (sg @ ip @ fp @ ep) of
                                    None \<Rightarrow> None | Some d \<Rightarrow> Some (VFloat d, s3))
                       in if real then dbl
                          else case from_chars_int neg ip of
                              Some n \<Rightarrow> Some (VInt n, s3)
                            | None \<Rightarrow> dbl)))"

section \<open>Documents\<close>

function valor :: "fp_text \<Rightarrow> nat \<Rightarrow> string \<Rightarrow> (val \<times> string) option"
  and lista_loop :: "fp_text \<Rightarrow> nat \<Rightarrow> val list \<Rightarrow> string \<Rightarrow> (val \<times> string) option"
  and objeto_loop :: "fp_text \<Rightarrow> nat \<Rightarrow> val dict \<Rightarrow> string \<Rightarrow> (val \<times> string) option"
where
  "valor F prof s =
     (if prof > kMaxProfundidad \<or> s = [] then None
      else let c = hd s
           in if c = CHR ''n'' then map_option (\<lambda>r. (VNull, r)) (literal ''null'' s)
              else if c = CHR ''t'' then map_option (\<lambda>r. (VBool True, r)) (literal ''true'' s)
              else if c = CHR ''f'' then map_option (\<lambda>r. (VBool False, r)) (literal ''false'' s)
              else if c = CHR 0x22 then map_option (\<lambda>(t, r). (VStr t, r)) (cadena s)
              else if c = CHR ''['' then
                (let r = espacios (tl s)
                 in if r \<noteq> [] \<and> hd r = CHR '']'' then Some (VList [], tl r)
                    else lista_loop F prof [] r)
              else if c = CHR ''{'' then
                (let r = espacios (tl s)
                 in if r \<noteq> [] \<and> hd r = CHR ''}'' then Some (VDict dict_empty, tl r)
                    else objeto_loop F prof dict_empty r)
              else numero F s)"
| "lista_loop F prof l s =
     (case valor F (prof + 1) (espacios s) of
        None \<Rightarrow> None
      | Some (v, r) \<Rightarrow>
          (case espacios r of
             [] \<Rightarrow> None
           | c # r' \<Rightarrow>
               if c = CHR '','' then
                 (if length r' < length s then lista_loop F prof (l @ [v]) r' else None)
               else if c = CHR '']'' then Some (VList (l @ [v]), r')
               else None))"
| "objeto_loop F prof d s =
     (let s0 = espacios s
      in if s0 = [] \<or> hd s0 \<noteq> CHR 0x22 then None
         else case cadena s0 of
             None \<Rightarrow> None
           | Some (k, r0) \<Rightarrow>
               (case espacios r0 of
                  [] \<Rightarrow> None
                | c0 # r1 \<Rightarrow>
                    if c0 \<noteq> CHR '':'' then None
                    else if length r1 < length s then
                      (case valor F (prof + 1) (espacios r1) of
                         None \<Rightarrow> None
                       | Some (v, r2) \<Rightarrow>
                           (case espacios r2 of
                              [] \<Rightarrow> None
                            | c # r3 \<Rightarrow>
                                if c = CHR '','' then
                                  (if length r3 < length s then objeto_loop F prof (dict_put k v d) r3 else None)
                                else if c = CHR ''}'' then Some (VDict (dict_put k v d), r3)
                                else None))
                    else None))"
  by pat_completeness auto
termination
proof (relation "measure (\<lambda>x. case x of Inl (F, p, s) \<Rightarrow> 2 * length s
    | Inr (Inl (F, p, l, s)) \<Rightarrow> 2 * length s + 1 | Inr (Inr (F, p, d, s)) \<Rightarrow> 2 * length s + 1)", goal_cases)
  case (2 F prof s c r)
  then have "length r < length s"
    using length_dropWhile_le [of is_ws "tl s"] by (cases s) (simp_all add: espacios_def)
  then show ?case by simp
next
  case (3 F prof s c r)
  then have "length r < length s"
    using length_dropWhile_le [of is_ws "tl s"] by (cases s) (simp_all add: espacios_def)
  then show ?case by simp
next
  case (4 F prof l s)
  then show ?case using length_dropWhile_le [of is_ws s] by (simp add: espacios_def)
next
  case (6 F prof d s s0 p k r0 c0 r1)
  then show ?case using length_dropWhile_le [of is_ws r1] by (simp add: espacios_def)
qed simp_all

definition parse_json :: "fp_text \<Rightarrow> string \<Rightarrow> val option" where
  "parse_json F texto = (case valor F 0 (espacios texto) of
       None \<Rightarrow> None
     | Some (v, r) \<Rightarrow> if espacios r = [] then Some v else None)"

declare valor.simps [simp del]
declare lista_loop.simps [simp del]
declare objeto_loop.simps [simp del]

section \<open>UTF-8 of a code point\<close>

definition scalar :: "nat \<Rightarrow> bool" where
  "scalar n \<longleftrightarrow> n < 0x110000 \<and> \<not> (0xD800 \<le> n \<and> n \<le> 0xDFFF)"

definition utf8_bytes :: "nat \<Rightarrow> nat list" where
  "utf8_bytes n =
     (if n < 0x80 then [n]
      else if n < 0x800 then [0xC0 + n div 64, 0x80 + n mod 64]
      else if n < 0x10000 then [0xE0 + n div 4096, 0x80 + n div 64 mod 64, 0x80 + n mod 64]
      else [0xF0 + n div 262144, 0x80 + n div 4096 mod 64, 0x80 + n div 64 mod 64, 0x80 + n mod 64])"

lemma or_add_low:
  fixes x :: u32
  assumes "unat x < 2 ^ k"
  shows "push_bit k a OR x = push_bit k a + x"
proof -
  have "push_bit k a AND x = 0"
  proof (rule bit_word_eqI)
    fix n
    have "bit x n = bit (unat x) n" by (simp add: bit_unsigned_iff)
    then show "bit (push_bit k a AND x) n = bit 0 n"
      using nat_high_bits [OF assms, of n] by (auto simp: bit_and_iff bit_push_bit_iff)
  qed
  then show ?thesis by (simp add: disjunctive_add_eq_or)
qed

lemma unat_or_low:
  fixes x :: u32
  assumes "unat x < 2 ^ k" and "m = 2 ^ k * a" and "m + 2 ^ k \<le> 256"
  shows "unat (of_nat m OR x) = m + unat x"
proof -
  have "of_nat m = (push_bit k (of_nat a) :: u32)" by (simp add: assms(2) push_bit_eq_mult mult.commute)
  then have "of_nat m OR x = of_nat m + x" using or_add_low [OF assms(1), of "of_nat a"] by simp
  moreover have "unat (of_nat m + x) = m + unat x"
  proof -
    have "m + unat x < 256" "m < 256" using assms(1,3) by linarith+
    then show ?thesis by (simp add: unat_word_ariths unat_of_nat)
  qed
  ultimately show ?thesis by simp
qed

lemma utf8_of_nat:
  assumes "n < 0x110000"
  shows "utf8 (of_nat n) = map char_of (utf8_bytes n)"
proof -
  let ?x = "of_nat n :: u32"
  have u: "unat ?x = n" using assms by (simp add: unat_of_nat)
  have a: "y AND 0x3F = take_bit 6 y" for y :: u32 by (simp add: take_bit_eq_mask mask_numeral)
  have d: "unat (drop_bit k ?x) = n div 2 ^ k" for k
  proof -
    have "take_bit 32 n = n" using assms by (simp add: take_bit_nat_eq_self)
    then show ?thesis unfolding unsigned_drop_bit_eq u by (simp add: drop_bit_eq_div)
  qed
  have t: "unat (take_bit 6 y) = unat y mod 64" for y :: u32
    by (simp add: take_bit_eq_mod unat_mod)
  have o80: "unat (0x80 OR take_bit 6 y) = 0x80 + unat y mod 64" for y :: u32
    using unat_or_low [where x = "take_bit 6 y" and k = 6 and m = "0x80" and a = 2] by (simp add: t)
  have lt: "?x < 0x80 \<longleftrightarrow> n < 0x80" "?x < 0x800 \<longleftrightarrow> n < 0x800" "?x < 0x10000 \<longleftrightarrow> n < 0x10000"
    by (simp_all add: word_less_nat_alt u)
  have C0: "n < 0x800 \<Longrightarrow> unat (0xC0 OR drop_bit 6 ?x) = 0xC0 + n div 64"
    using unat_or_low [where x = "drop_bit 6 ?x" and k = 5 and m = "0xC0" and a = 6] d [of 6] by simp
  have E0: "n < 0x10000 \<Longrightarrow> unat (0xE0 OR drop_bit 12 ?x) = 0xE0 + n div 4096"
    using unat_or_low [where x = "drop_bit 12 ?x" and k = 4 and m = "0xE0" and a = 14] d [of 12] by simp
  have F0: "unat (0xF0 OR drop_bit 18 ?x) = 0xF0 + n div 262144"
    using unat_or_low [where x = "drop_bit 18 ?x" and k = 3 and m = "0xF0" and a = 30] d [of 18] assms by simp
  show ?thesis
    unfolding utf8_def utf8_bytes_def lt a
    using C0 E0 F0 o80 [of ?x] o80 [of "drop_bit 6 ?x"] o80 [of "drop_bit 12 ?x"] d [of 6] d [of 12] u
    by simp
qed

lemma cont_iff: "b < 256 \<Longrightarrow> b AND 0xC0 = 0x80 \<longleftrightarrow> 128 \<le> b \<and> b < (192 :: nat)"
proof -
  assume b: "b < 256"
  have "b AND 0xC0 = push_bit 6 (drop_bit 6 b)"
  proof (rule bit_eqI)
    fix k
    have "push_bit 6 (mask 2) = (0xC0 :: nat)" by (simp add: push_bit_eq_mult mask_numeral)
    moreover have "bit (push_bit 6 (mask 2) :: nat) k \<longleftrightarrow> 6 \<le> k \<and> k < 8"
      by (auto simp: bit_push_bit_iff bit_mask_iff)
    ultimately have "bit (0xC0 :: nat) k \<longleftrightarrow> 6 \<le> k \<and> k < 8" by (simp only:)
    then show "bit (b AND 0xC0) k = bit (push_bit 6 (drop_bit 6 b)) k"
      using nat_high_bits [of b 8 k] b by (auto simp: bit_and_iff bit_push_bit_iff bit_drop_bit_eq)
  qed
  also have "\<dots> = 64 * (b div 64)" by (simp add: push_bit_eq_mult drop_bit_eq_div)
  finally show ?thesis using b by auto
qed

lemma utf8_cont_bytes:
  fixes bs :: "nat list"
  shows "k < length bs \<Longrightarrow> \<forall>b \<in> set bs. b < 256 \<Longrightarrow>
   utf8_cont (map char_of bs @ r) k \<longleftrightarrow> 128 \<le> bs ! k \<and> bs ! k < 192"
  using cont_iff [of "bs ! k"] by (simp add: utf8_cont_def nth_append)

lemma digit64: "c < 64 \<Longrightarrow> (x * 64 + c) mod 64 = c \<and> (x * 64 + c) div 64 = (x :: nat)"
  by simp

lemma div_4096: "n div 4096 = n div 64 div (64 :: nat)" and div_262144: "n div 262144 = n div 64 div 64 div (64 :: nat)"
  by (simp_all flip: div_mult2_eq)

text \<open>What the length test accepts is the encoding of one scalar value, and conversely.\<close>

lemma largo_utf8_bytes:
  assumes "scalar n"
  shows "largo_utf8 (map char_of (utf8_bytes n) @ r) = length (utf8_bytes n)"
proof -
  define x y z w where "x = n div 262144" and "y = n div 4096 mod 64" and "z = n div 64 mod 64" and "w = n mod 64"
  have lt: "w < 64" "z < 64" "y < 64" by (simp_all add: w_def z_def y_def)
  have "n = ((x * 64 + y) * 64 + z) * 64 + w"
    unfolding x_def y_def z_def w_def div_4096 div_262144 by simp
  then have n: "n = x * 262144 + y * 4096 + z * 64 + w" by (simp add: algebra_simps)
  consider "n < 0x80" | "0x80 \<le> n" "n < 0x800" | "0x800 \<le> n" "n < 0x10000" | "0x10000 \<le> n" by linarith
  then show ?thesis
  proof cases
    case 1
    then show ?thesis by (simp add: utf8_bytes_def largo_utf8_def)
  next
    case 2
    let ?a = "n div 64"
    have "2 \<le> ?a" "?a < 32" using 2 by simp_all
    then show ?thesis
      using 2 utf8_cont_bytes [of 1 "[0xC0 + ?a, 0x80 + n mod 64]" r]
      by (simp add: utf8_bytes_def largo_utf8_def Let_def)
  next
    case 3
    let ?bs = "[0xE0 + n div 4096, 0x80 + z, 0x80 + w]"
    have x: "x = 0" using 3 by (simp add: x_def)
    have a: "n div 4096 = y" using 3 by (simp add: y_def) 
    have y: "y < 16" using 3(2) n x by linarith
    have "y = 0 \<longrightarrow> 32 \<le> z" using n x 3(1) lt by linarith
    moreover have "y = 13 \<longrightarrow> z < 32" using n x assms lt unfolding scalar_def by auto
    moreover have "utf8_bytes n = ?bs" using 3 by (simp add: utf8_bytes_def z_def w_def)
    moreover have "utf8_cont (map char_of ?bs @ r) 1" "utf8_cont (map char_of ?bs @ r) 2"
      using lt y a by (subst utf8_cont_bytes; simp)+
    ultimately show ?thesis using lt y by (auto simp: largo_utf8_def Let_def a)
  next
    case 4
    let ?bs = "[0xF0 + x, 0x80 + y, 0x80 + z, 0x80 + w]"
    have n': "n < 0x110000" using assms by (simp add: scalar_def)
    then have x: "x \<le> 4" using n by linarith
    have "x = 0 \<longrightarrow> 16 \<le> y" using n 4 lt by linarith
    moreover have "x = 4 \<longrightarrow> y < 16" using n n' lt by linarith
    moreover have "utf8_bytes n = ?bs" using 4 by (simp add: utf8_bytes_def x_def y_def z_def w_def)
    moreover have "utf8_cont (map char_of ?bs @ r) 1" "utf8_cont (map char_of ?bs @ r) 2"
      "utf8_cont (map char_of ?bs @ r) 3"
      using lt x by (subst utf8_cont_bytes; simp)+
    ultimately show ?thesis using lt x by (auto simp: largo_utf8_def Let_def)
  qed
qed

lemma utf8_cont_byte: "utf8_cont s k \<Longrightarrow> k < length s \<and> 128 \<le> byte (s ! k) \<and> byte (s ! k) < 192"
  using cont_iff [of "byte (s ! k)"] by (simp add: utf8_cont_def)

lemma take_bytes:
  "k \<le> length s \<Longrightarrow> length bs = k \<Longrightarrow> \<forall>i < k. byte (s ! i) = bs ! i \<Longrightarrow> take k s = map char_of bs"
  by (rule nth_equalityI) (auto, metis char_of_char)

lemma all_less_numeral:
  "(\<forall>i < 2. P i) \<longleftrightarrow> P 0 \<and> P (1 :: nat)"
  "(\<forall>i < 3. P i) \<longleftrightarrow> P 0 \<and> P 1 \<and> P (2 :: nat)"
  "(\<forall>i < 4. P i) \<longleftrightarrow> P 0 \<and> P 1 \<and> P 2 \<and> P (3 :: nat)"
  by (auto simp: numeral_2_eq_2 numeral_3_eq_3 numeral_eq_Suc less_Suc_eq)

lemma utf8_bytes_2:
  "2 \<le> a \<Longrightarrow> a < 32 \<Longrightarrow> w < 64 \<Longrightarrow> utf8_bytes (a * 64 + w) = [0xC0 + a, 0x80 + w] \<and> scalar (a * 64 + w)"
  by (auto simp: utf8_bytes_def scalar_def)

lemma utf8_bytes_3:
  assumes "y < 16" and "z < 64" and "w < 64" and "y = 0 \<longrightarrow> 32 \<le> z" and "y = 13 \<longrightarrow> z < 32"
  shows "utf8_bytes (y * 4096 + z * 64 + w) = [0xE0 + y, 0x80 + z, 0x80 + w] \<and> scalar (y * 4096 + z * 64 + w)"
proof -
  let ?n = "y * 4096 + z * 64 + w"
  have m: "?n mod 64 = w" "?n div 64 = y * 64 + z"
    using digit64 [of w "y * 64 + z"] assms(3) by (simp_all add: algebra_simps)
  have "(y * 64 + z) mod 64 = z" "(y * 64 + z) div 64 = y" using digit64 [of z y] assms(2) by simp_all
  moreover have "0x800 \<le> ?n" using assms(4) by (cases "y = 0") auto
  moreover have "?n < 0x10000" using assms(1-3) by linarith
  moreover have "\<not> (0xD800 \<le> ?n \<and> ?n \<le> 0xDFFF)"
  proof (cases "y = 13")
    case False
    then consider "y \<le> 12" | "14 \<le> y" by linarith
    then show ?thesis using assms(2,3) by cases linarith+
  qed (use assms in linarith)
  ultimately show ?thesis unfolding utf8_bytes_def scalar_def div_4096 m by simp
qed

lemma utf8_bytes_4:
  assumes "x \<le> 4" and "y < 64" and "z < 64" and "w < 64" and "x = 0 \<longrightarrow> 16 \<le> y" and "x = 4 \<longrightarrow> y < 16"
  shows "utf8_bytes (x * 262144 + y * 4096 + z * 64 + w) = [0xF0 + x, 0x80 + y, 0x80 + z, 0x80 + w]
    \<and> scalar (x * 262144 + y * 4096 + z * 64 + w)"
proof -
  let ?n = "x * 262144 + y * 4096 + z * 64 + w"
  have m: "?n mod 64 = w" "?n div 64 = (x * 64 + y) * 64 + z"
    using digit64 [of w "(x * 64 + y) * 64 + z"] assms(4) by (simp_all add: algebra_simps)
  have "((x * 64 + y) * 64 + z) mod 64 = z" "((x * 64 + y) * 64 + z) div 64 = x * 64 + y"
    using digit64 [of z "x * 64 + y"] assms(3) by simp_all
  moreover have "(x * 64 + y) mod 64 = y" "(x * 64 + y) div 64 = x" using digit64 [of y x] assms(2) by simp_all
  moreover have "0x10000 \<le> ?n" using assms(5) by (cases "x = 0") auto
  moreover have "?n < 0x110000" using assms(1-4,6) by (cases "x = 4") auto
  ultimately show ?thesis unfolding utf8_bytes_def scalar_def div_4096 div_262144 m by simp
qed

lemma largo_utf8_scalar:
  assumes "largo_utf8 s = l" and "l \<noteq> 0" and "s \<noteq> []"
  obtains n where "scalar n" and "take l s = map char_of (utf8_bytes n)"
proof -
  let ?b = "\<lambda>k. byte (s ! k)"
  have len: "l \<le> length s" using largo_utf8_bound [OF assms(3)] assms(1) by simp
  have ne: "largo_of (?b 0) (utf8_cont s 1) (utf8_cont s 2) (utf8_cont s 3) (?b 1) = l"
    using assms(1) by (simp only: largo_utf8_of)
  consider (a) "?b 0 < 0x80" | (b) "0x80 \<le> ?b 0" "?b 0 < 0xC2" | (c) "0xC2 \<le> ?b 0" "?b 0 < 0xE0"
    | (d) "0xE0 \<le> ?b 0" "?b 0 < 0xF0" | (e) "0xF0 \<le> ?b 0" "?b 0 < 0xF5" | (f) "0xF5 \<le> ?b 0"
    by linarith
  then show thesis
  proof cases
    case a
    then have "l = 1" using ne by (simp add: largo_of_def)
    moreover have "utf8_bytes (?b 0) = [?b 0]" "scalar (?b 0)" using a by (simp_all add: utf8_bytes_def scalar_def)
    ultimately show thesis using assms(3) by (intro that [of "?b 0"]) (cases s; simp)+
  next
    case c
    then have "l = 2" "utf8_cont s 1" using ne assms(2) by (auto simp: largo_of_def split: if_splits)
    note k = utf8_cont_byte [OF this(2)]
    let ?n = "(?b 0 - 0xC0) * 64 + (?b 1 - 0x80)"
    have "utf8_bytes ?n = [0xC0 + (?b 0 - 0xC0), 0x80 + (?b 1 - 0x80)] \<and> scalar ?n"
      by (rule utf8_bytes_2) (use c k in linarith)+
    then have "utf8_bytes ?n = [?b 0, ?b 1] \<and> scalar ?n" using c k by simp
    moreover have "take l s = map char_of [?b 0, ?b 1]"
      using len \<open>l = 2\<close> by (intro take_bytes) (auto simp: all_less_numeral)
    ultimately show thesis using that by metis
  next
    case d
    have val: "largo_of (?b 0) k1 k2 k3 c1 = (if \<not> k1 \<or> \<not> k2 then 0 else if ?b 0 = 0xE0 \<and> c1 < 0xA0 then 0
        else if ?b 0 = 0xED \<and> c1 \<ge> 0xA0 then 0 else 3)" for k1 k2 k3 c1
      using d by (simp add: largo_of_def)
    have l: "l = 3" "utf8_cont s 1" "utf8_cont s 2"
      and hi: "\<not> (?b 0 = 0xE0 \<and> ?b 1 < 0xA0)" "\<not> (?b 0 = 0xED \<and> 0xA0 \<le> ?b 1)"
      using ne assms(2) unfolding val by (simp_all split: if_splits)
    note k = utf8_cont_byte [OF l(2)] utf8_cont_byte [OF l(3)]
    let ?n = "(?b 0 - 0xE0) * 4096 + (?b 1 - 0x80) * 64 + (?b 2 - 0x80)"
    have "utf8_bytes ?n = [0xE0 + (?b 0 - 0xE0), 0x80 + (?b 1 - 0x80), 0x80 + (?b 2 - 0x80)] \<and> scalar ?n"
      by (rule utf8_bytes_3) (use d k hi in linarith)+
    then have "utf8_bytes ?n = [?b 0, ?b 1, ?b 2] \<and> scalar ?n" using d k by simp
    moreover have "take l s = map char_of [?b 0, ?b 1, ?b 2]"
      using len l(1) by (intro take_bytes) (auto simp: all_less_numeral)
    ultimately show thesis using that by metis
  next
    case e
    have val: "largo_of (?b 0) k1 k2 k3 c1 = (if \<not> k1 \<or> \<not> k2 \<or> \<not> k3 then 0 else if ?b 0 = 0xF0 \<and> c1 < 0x90 then 0
        else if ?b 0 = 0xF4 \<and> c1 \<ge> 0x90 then 0 else 4)" for k1 k2 k3 c1
      using e by (simp add: largo_of_def)
    have l: "l = 4" "utf8_cont s 1" "utf8_cont s 2" "utf8_cont s 3"
      and hi: "\<not> (?b 0 = 0xF0 \<and> ?b 1 < 0x90)" "\<not> (?b 0 = 0xF4 \<and> 0x90 \<le> ?b 1)"
      using ne assms(2) unfolding val by (simp_all split: if_splits)
    note k = utf8_cont_byte [OF l(2)] utf8_cont_byte [OF l(3)] utf8_cont_byte [OF l(4)]
    let ?n = "(?b 0 - 0xF0) * 262144 + (?b 1 - 0x80) * 4096 + (?b 2 - 0x80) * 64 + (?b 3 - 0x80)"
    have "utf8_bytes ?n = [0xF0 + (?b 0 - 0xF0), 0x80 + (?b 1 - 0x80), 0x80 + (?b 2 - 0x80), 0x80 + (?b 3 - 0x80)]
        \<and> scalar ?n"
      by (rule utf8_bytes_4) (use e k hi in linarith)+
    then have "utf8_bytes ?n = [?b 0, ?b 1, ?b 2, ?b 3] \<and> scalar ?n" using e k by simp
    moreover have "take l s = map char_of [?b 0, ?b 1, ?b 2, ?b 3]"
      using len l(1) by (intro take_bytes) (auto simp: all_less_numeral)
    ultimately show thesis using that by metis
  qed (use ne assms(2) in \<open>simp_all add: largo_of_def\<close>)
qed

definition utf8_encode :: "nat list \<Rightarrow> string" where
  "utf8_encode ns = concat (map (\<lambda>n. utf8 (of_nat n)) ns)"

lemma utf8_scalar: "scalar n \<Longrightarrow> utf8 (of_nat n) = map char_of (utf8_bytes n)"
  by (rule utf8_of_nat) (simp add: scalar_def)

lemma utf8_ok_scalar:
  assumes "scalar n"
  shows "utf8_ok (utf8 (of_nat n) @ r) = utf8_ok r"
proof -
  have ne: "utf8_bytes n \<noteq> []" by (simp add: utf8_bytes_def)
  then have "map char_of (utf8_bytes n) @ r \<noteq> []" by simp
  from utf8_ok_step [OF this] show ?thesis
    unfolding utf8_scalar [OF assms] largo_utf8_bytes [OF assms] using ne by simp
qed

lemma utf8_ok_decode: "utf8_ok s \<Longrightarrow> \<exists>ns. (\<forall>n \<in> set ns. scalar n) \<and> s = utf8_encode ns"
proof (induction s rule: utf8_ok.induct)
  case (1 s)
  show ?case
  proof (cases "s = []")
    case True
    then show ?thesis by (intro exI [of _ "[]"]) (simp add: utf8_encode_def)
  next
    case False
    with "1.prems" have l: "largo_utf8 s \<noteq> 0" "utf8_ok (drop (largo_utf8 s) s)"
      by (simp_all add: utf8_ok_step)
    from "1.IH" [OF False l] obtain ns where ns: "\<forall>n \<in> set ns. scalar n" "drop (largo_utf8 s) s = utf8_encode ns"
      by blast
    obtain n where n: "scalar n" "take (largo_utf8 s) s = map char_of (utf8_bytes n)"
      using largo_utf8_scalar [OF refl l(1) False] .
    have "s = utf8_encode (n # ns)"
      using ns(2) n append_take_drop_id [of "largo_utf8 s" s] by (simp add: utf8_encode_def utf8_scalar)
    with ns(1) n(1) show ?thesis by (intro exI [of _ "n # ns"]) simp
  qed
qed

lemma utf8_ok_encode: "\<forall>n \<in> set ns. scalar n \<Longrightarrow> utf8_ok (utf8_encode ns)"
  by (induction ns) (simp_all add: utf8_encode_def utf8_ok_scalar)

section \<open>What the parser leaves is shorter\<close>

lemma espacios_le: "length (espacios s) \<le> length s"
  by (simp add: espacios_def length_dropWhile_le)

lemma cadena_loop_shorter: "cadena_loop out s = Some (t, r) \<Longrightarrow> length r < length s"
proof (induction out s rule: cadena_loop.induct)
  case (2 out c s)
  then show ?case
    by (auto split: if_splits list.splits option.splits dest: unicode_escape_shorter) (metis less_SucI less_trans_Suc not_less_eq unicode_escape_shorter)+
qed simp

lemma cadena_shorter:
  assumes "cadena s = Some (t, r)" and "s \<noteq> []"
  shows "length r < length s"
proof -
  have "length (dropWhile plain_char (tl s)) \<le> length (tl s)" by (rule length_dropWhile_le)
  moreover have "length r < length (dropWhile plain_char (tl s))"
    using assms(1) by (auto simp: cadena_def Let_def split: list.splits if_splits dest: cadena_loop_shorter simp del: cadena_loop.simps)
  ultimately show ?thesis using assms(2) by (cases s) auto
qed

lemma literal_shorter: "literal lit s = Some r \<Longrightarrow> lit \<noteq> [] \<Longrightarrow> length r < length s"
  by (auto simp: literal_def split: if_splits) (metis diff_less length_greater_0_conv take_eq_Nil2 take_Nil)

lemma span_digits_split: "span_digits s = (ds, r) \<Longrightarrow> s = ds @ r"
  by (auto simp: span_digits_def)

lemma num_int_split: "num_int s = Some (t, r) \<Longrightarrow> s = t @ r \<and> t \<noteq> []"
  by (auto simp: num_int_def span_digits_def split: list.splits if_splits)

lemma num_frac_split: "num_frac s = Some (t, r) \<Longrightarrow> s = t @ r"
  by (auto simp: num_frac_def split: list.splits if_splits prod.splits dest: span_digits_split)

lemma num_exp_split: "num_exp s = Some (t, r) \<Longrightarrow> s = t @ r"
  by (auto simp: num_exp_def Let_def split: list.splits if_splits prod.splits dest: span_digits_split)

lemma numero_shorter: "numero F s = Some (v, r) \<Longrightarrow> length r < length s"
proof -
  assume a: "numero F s = Some (v, r)"
  define s0 where "s0 = (if s \<noteq> [] \<and> hd s = CHR ''-'' then tl s else s)"
  from a obtain ip s1 fp s2 ep s3 where n: "num_int s0 = Some (ip, s1)" "num_frac s1 = Some (fp, s2)"
      "num_exp s2 = Some (ep, s3)" and r: "r = s3"
    by (auto simp: numero_def Let_def s0_def split: option.splits prod.splits if_splits)
  have "length r < length s0"
    using num_int_split [OF n(1)] num_frac_split [OF n(2)] num_exp_split [OF n(3)] r by (cases ip) auto
  then show ?thesis by (auto simp: s0_def split: if_splits)
qed

lemma valor_shorter:
  "valor F p s = Some (v, r) \<Longrightarrow> length r < length s"
  "lista_loop F p l s = Some (v, r) \<Longrightarrow> length r < length s"
  "objeto_loop F p d s = Some (v, r) \<Longrightarrow> length r < length s"
proof (induction F p s and F p l s and F p d s arbitrary: v r and v r and v r
    rule: valor_lista_loop_objeto_loop.induct)
  case (1 F prof s)
  then have ok: "\<not> (prof > kMaxProfundidad \<or> s = [])" by (auto simp: valor.simps split: if_splits)
  note e = "1.prems" [unfolded valor.simps [of F prof s] if_not_P [OF ok] Let_def]
  have esp: "length (espacios (tl s)) < length s"
    using espacios_le [of "tl s"] ok by (cases s) simp_all
  consider (lst) "hd s = CHR ''[''" | (obj) "hd s = CHR ''{''" | (lit) "hd s = CHR ''n'' \<or> hd s = CHR ''t'' \<or> hd s = CHR ''f''"
    | (str) "hd s = CHR 0x22" | (num) "hd s \<noteq> CHR ''[''" "hd s \<noteq> CHR ''{''" "hd s \<noteq> CHR ''n''"
      "hd s \<noteq> CHR ''t''" "hd s \<noteq> CHR ''f''" "hd s \<noteq> CHR 0x22" by blast
  then show ?case
  proof cases
    case lst
    show ?thesis
    proof (cases "espacios (tl s) \<noteq> [] \<and> hd (espacios (tl s)) = CHR '']''")
      case True
      with e lst have "r = tl (espacios (tl s))" by simp
      with esp show ?thesis by simp
    next
      case False
      with e lst have "lista_loop F prof [] (espacios (tl s)) = Some (v, r)" by simp
      with "1.IH"(1) [OF ok refl _ _ _ _ lst refl False] lst esp show ?thesis by simp
    qed
  next
    case obj
    show ?thesis
    proof (cases "espacios (tl s) \<noteq> [] \<and> hd (espacios (tl s)) = CHR ''}''")
      case True
      with e obj have "r = tl (espacios (tl s))" by simp
      with esp show ?thesis by simp
    next
      case False
      with e obj have "objeto_loop F prof dict_empty (espacios (tl s)) = Some (v, r)" by simp
      with "1.IH"(2) [OF ok refl _ _ _ _ _ obj refl False] obj esp show ?thesis by simp
    qed
  next
    case lit
    with e show ?thesis by (auto dest: literal_shorter)
  next
    case str
    with e ok show ?thesis by (auto dest: cadena_shorter)
  next
    case num
    with e show ?thesis by (auto dest: numero_shorter)
  qed
next
  case (2 F prof l s)
  from "2.prems" obtain w r1 c r' where v: "valor F (prof + 1) (espacios s) = Some (w, r1)"
      and e: "espacios r1 = c # r'"
    by (auto simp: lista_loop.simps split: option.splits prod.splits list.splits)
  have "length r1 < length (espacios s)" using "2.IH"(1) [OF v] .
  then have le: "length r' < length s"
    using espacios_le [of s] espacios_le [of r1] e by simp
  show ?case
  proof (cases "c = CHR '',''")
    case True
    with "2.prems" v e le have "lista_loop F prof (l @ [w]) r' = Some (v, r)"
      by (simp add: lista_loop.simps [of _ _ _ s])
    from "2.IH"(2) [OF v refl e True le this] le show ?thesis by simp
  next
    case False
    with "2.prems" v e le show ?thesis
      by (simp add: lista_loop.simps [of _ _ _ s] split: if_splits)
  qed
next
  case (3 F prof d s)
  define s0 where "s0 = espacios s"
  from "3.prems" have q: "\<not> (s0 = [] \<or> hd s0 \<noteq> CHR 0x22)"
    by (auto simp: objeto_loop.simps [of _ _ _ s] s0_def Let_def split: if_splits)
  note step = "3.prems" [unfolded objeto_loop.simps [of F prof d s] Let_def, folded s0_def, unfolded if_not_P [OF q]]
  obtain k r0 where k: "cadena s0 = Some (k, r0)"
    using step by (cases "cadena s0") auto
  obtain c0 r1 where e0: "espacios r0 = c0 # r1"
    using step by (cases "espacios r0") (auto simp: k)
  have c0: "c0 = CHR '':''" and le1: "length r1 < length s"
    using step by (auto simp: k e0 split: if_splits)
  obtain w r2 where v: "valor F (prof + 1) (espacios r1) = Some (w, r2)"
    using step by (cases "valor F (prof + 1) (espacios r1)") (auto simp: k e0 c0 le1)
  obtain c r3 where e: "espacios r2 = c # r3"
    using step v by (cases "espacios r2") (auto simp: k e0 c0 le1)
  have c0': "\<not> c0 \<noteq> CHR '':''" using c0 by simp
  note ih = "3.IH" [OF s0_def q k refl e0 c0' le1]
  have "length r2 < length (espacios r1)" using ih(1) [OF v] .
  then have le: "length r3 < length s"
    using espacios_le [of r1] espacios_le [of r2] e le1 by simp
  have eq: "objeto_loop F prof d s = (if c = CHR '','' then
        (if length r3 < length s then objeto_loop F prof (dict_put k w d) r3 else None)
      else if c = CHR ''}'' then Some (VDict (dict_put k w d), r3) else None)"
    using q k e0 c0 le1 v e by (simp add: objeto_loop.simps [of _ _ _ s] Let_def flip: s0_def)
  show ?case
  proof (cases "c = CHR '',''")
    case True
    with "3.prems" eq le have "objeto_loop F prof (dict_put k w d) r3 = Some (v, r)" by simp
    from ih(2) [OF v refl e True le this] le show ?thesis by simp
  next
    case False
    with "3.prems" eq le show ?thesis by (simp split: if_splits)
  qed
qed

text \<open>The comparisons of lengths are always true: the loops are those of the source.\<close>

lemma lista_loop_unguarded:
  "lista_loop F prof l s =
     (case valor F (prof + 1) (espacios s) of
        None \<Rightarrow> None
      | Some (v, r) \<Rightarrow>
          (case espacios r of
             [] \<Rightarrow> None
           | c # r' \<Rightarrow>
               if c = CHR '','' then lista_loop F prof (l @ [v]) r'
               else if c = CHR '']'' then Some (VList (l @ [v]), r')
               else None))"
proof (cases "valor F (prof + 1) (espacios s)")
  case (Some vr)
  obtain v r where vr: "vr = (v, r)" by (cases vr)
  have "length (espacios r) < length s"
    using valor_shorter(1) [OF Some [unfolded vr]] espacios_le [of s] espacios_le [of r] by linarith
  with Some vr show ?thesis by (subst lista_loop.simps) (auto split: list.split)
qed (simp add: lista_loop.simps)

lemma objeto_loop_step:
  assumes "espacios s = CHR 0x22 # t" and "cadena (espacios s) = Some (k, r0)"
    and "espacios r0 = CHR '':'' # r1" and "valor F (prof + 1) (espacios r1) = Some (v, r2)"
    and "espacios r2 = c # r3"
  shows "objeto_loop F prof d s =
     (if c = CHR '','' then objeto_loop F prof (dict_put k v d) r3
      else if c = CHR ''}'' then Some (VDict (dict_put k v d), r3) else None)"
proof -
  have "length r1 < length s"
    using cadena_shorter [OF assms(2)] assms(1,3) espacios_le [of s] espacios_le [of r0] by simp
  moreover have "length r3 < length r1"
    using valor_shorter(1) [OF assms(4)] espacios_le [of r1] espacios_le [of r2] assms(5) by simp
  ultimately show ?thesis
    using assms by (subst objeto_loop.simps) (simp add: Let_def)
qed

section \<open>Strings are read back\<close>

lemma hex_value_digit: "d < 16 \<Longrightarrow> hex_value (hex_digit d) = Some d"
  by (cases "d < 10") (simp_all add: hex_value_def hex_digit_def is_digit_def)

lemma hex_digits_4: "hex_digits 4 cp s = hex_digits (Suc (Suc (Suc (Suc 0)))) cp s"
  by (simp add: eval_nat_numeral)

lemma unicode_escape_control:
  assumes "n < 32"
  shows "unicode_escape (hex_digit 0 # hex_digit 0 # hex_digit (n div 16) # hex_digit (n mod 16) # r)
    = Some ([char_of n], r)"
proof -
  have "hex4 (hex_digit 0 # hex_digit 0 # hex_digit (n div 16) # hex_digit (n mod 16) # r)
      = Some (push_bit 4 (of_nat (n div 16)) OR of_nat (n mod 16), r)"
    using assms by (simp add: hex4_def hex_value_digit hex_digits_4)
  moreover have "push_bit 4 (of_nat (n div 16)) OR of_nat (n mod 16) = (of_nat n :: u32)"
  proof -
    have "push_bit 4 (of_nat (n div 16)) OR of_nat (n mod 16)
        = push_bit 4 (of_nat (n div 16)) + (of_nat (n mod 16) :: u32)"
      by (rule or_add_low) (simp add: unat_of_nat)
    also have "\<dots> = of_nat (16 * (n div 16) + n mod 16)"
      by (simp only: push_bit_eq_mult of_nat_add of_nat_mult) simp
    finally show ?thesis by simp
  qed
  moreover have "utf8 (of_nat n) = [char_of n]"
    using assms by (simp add: utf8_def word_less_nat_alt unat_of_nat)
  moreover have "\<not> (0xD800 \<le> (of_nat n :: u32))" "\<not> (0xDC00 \<le> (of_nat n :: u32))"
    using assms by (simp_all add: word_le_nat_alt unat_of_nat)
  ultimately show ?thesis by (simp add: unicode_escape_def)
qed

lemma cadena_loop_esc1: "cadena_loop out (esc1 c @ s) = cadena_loop (out @ [c]) s"
proof (cases "needs_escape c")
  case False
  then show ?thesis by (simp add: esc1_def needs_escape_def)
next
  case True
  show ?thesis
  proof (cases "c \<in> {CHR 0x22, CHR 0x5C, CHR 0x08, CHR 0x0C, CHR 0x0A, CHR 0x0D, CHR 0x09}")
    case True
    then show ?thesis
      by (elim insertE emptyE) (simp_all add: esc1_def needs_escape_def escape_char_def simple_escape_def)
  next
    case False
    with True have "byte c < 32" by (auto simp: needs_escape_def)
    note u = unicode_escape_control [OF this, of s]
    have "esc1 c = [CHR 0x5C, CHR ''u'', hex_digit 0, hex_digit 0, hex_digit (byte c div 16), hex_digit (byte c mod 16)]"
      using False True by (simp add: esc1_def escape_char_def)
    then show ?thesis by (simp add: u)
  qed
qed

lemma cadena_loop_text: "cadena_loop out (concat (map esc1 s) @ CHR 0x22 # r) = Some (out @ s, r)"
  by (induction s arbitrary: out) (simp_all add: cadena_loop_esc1)

lemma cadena_loop_plain: "\<forall>c \<in> set p. plain_char c \<Longrightarrow> cadena_loop out (p @ s) = cadena_loop (out @ p) s"
  by (induction p arbitrary: out) (auto simp: plain_char_def)

text \<open>The fast path is the slow loop started at the opening quote.\<close>

lemma cadena_fast_path: "cadena s = cadena_loop [] (tl s)"
proof -
  let ?p = "takeWhile plain_char (tl s)" and ?q = "dropWhile plain_char (tl s)"
  have "cadena_loop [] (?p @ ?q) = cadena_loop ([] @ ?p) ?q"
    by (rule cadena_loop_plain) (auto dest: set_takeWhileD)
  then have "cadena_loop [] (tl s) = cadena_loop ?p ?q" by simp
  moreover have "cadena s = cadena_loop ?p ?q"
  proof (cases ?q)
    case Nil
    show ?thesis unfolding cadena_def Let_def Nil by simp
  next
    case (Cons c r)
    then have "\<not> plain_char c" by (metis dropWhile_eq_Cons_conv)
    then show ?thesis unfolding cadena_def Let_def Cons by (auto simp: plain_char_def)
  qed
  ultimately show ?thesis by simp
qed

lemma cadena_escapar: "utf8_valido s \<Longrightarrow> cadena (escapar s @ r) = Some (s, r)"
  using cadena_loop_text [of "[]" s r]
  by (simp add: escapar_def escapar_valido_def escape_loop_bytes cadena_fast_path)

section \<open>Numbers are read back\<close>

definition num_stop :: "string \<Rightarrow> bool" where
  "num_stop r \<longleftrightarrow> r = [] \<or> hd r \<in> {CHR '','', CHR '']'', CHR ''}''}"

lemma num_stop_not:
  "num_stop r \<Longrightarrow> takeWhile is_digit r = []" "num_stop r \<Longrightarrow> dropWhile is_digit r = r"
  "num_stop r \<Longrightarrow> num_frac r = Some ([], r)" "num_stop r \<Longrightarrow> num_exp r = Some ([], r)"
  by (cases r; auto simp: num_stop_def is_digit_def num_frac_def num_exp_def)+

lemma num_int_nat_dec:
  assumes "num_stop r"
  shows "num_int (nat_dec n @ r) = Some (nat_dec n, r)"
proof (cases "n = 0")
  case False
  obtain c cs where c: "nat_dec n = c # cs" by (cases "nat_dec n") auto
  with hd_nat_dec [OF False] have "c \<noteq> CHR ''0''" by simp
  moreover have "list_all is_digit (c # cs)" using nat_dec_digits [of n] c by simp
  ultimately show ?thesis
    using assms unfolding c by (simp add: num_int_def span_digits_def list_all_iff num_stop_not takeWhile_append2 dropWhile_append2)
qed (simp add: num_int_def)

lemma numero_int:
  assumes "num_stop r"
  shows "numero F (int_dec (sint i) @ r) = Some (VInt i, r)"
proof -
  have rng: "- (2 ^ 63) \<le> sint i" "sint i < 2 ^ 63"
    using sint_greater_eq [of i] sint_less [of i] by simp_all
  have hd: "hd (nat_dec n @ r) \<noteq> CHR ''-''" for n
  proof -
    obtain c cs where c: "nat_dec n = c # cs" by (cases "nat_dec n") auto
    with nat_dec_digits [of n] have "is_digit c" by simp
    then show ?thesis using c by (auto simp: is_digit_def)
  qed
  show ?thesis
  proof (cases "sint i < 0")
    case True
    then show ?thesis
      using rng by (simp add: numero_def int_dec_def num_int_nat_dec [OF assms] num_stop_not [OF assms] from_chars_int_def Let_def)
  next
    case False
    then show ?thesis
      using rng hd [of "nat (sint i)"]
      by (simp add: numero_def int_dec_def num_int_nat_dec [OF assms] num_stop_not [OF assms] from_chars_int_def Let_def)
  qed
qed

text \<open>
  What the conversions of the standard library promise for a finite double: \<open>to_chars\<close> writes a
  number in the JSON grammar, and \<open>from_chars\<close> reads the double back, with or without a final
  \<open>.0\<close>.
\<close>

definition json_number :: "string \<Rightarrow> string \<Rightarrow> string \<Rightarrow> string \<Rightarrow> bool" where
  "json_number sg ip fp ep \<longleftrightarrow> (sg = [] \<or> sg = ''-'') \<and>
     (ip = ''0'' \<or> (ip \<noteq> [] \<and> hd ip \<noteq> CHR ''0'' \<and> list_all is_digit ip)) \<and>
     (fp = [] \<or> (\<exists>ds. fp = CHR ''.'' # ds \<and> ds \<noteq> [] \<and> list_all is_digit ds)) \<and>
     (ep = [] \<or> (\<exists>x ds. ep = CHR ''e'' # x # ds \<and> (x = CHR ''+'' \<or> x = CHR ''-'') \<and> ds \<noteq> [] \<and> list_all is_digit ds))"

definition fp_reads_back :: "fp_text \<Rightarrow> f64 \<Rightarrow> bool" where
  "fp_reads_back F d \<longleftrightarrow> (\<exists>sg ip fp ep. json_number sg ip fp ep \<and>
     fp_to_chars F d = Some (sg @ ip @ fp @ ep) \<and> fp_from_chars F (sg @ ip @ fp @ ep) = Some d \<and>
     fp_from_chars F (sg @ ip @ fp @ ep @ ''.0'') = Some d)"

lemma span_digits_app:
  "list_all is_digit ds \<Longrightarrow> r = [] \<or> \<not> is_digit (hd r) \<Longrightarrow> span_digits (ds @ r) = (ds, r)"
  by (cases r) (auto simp: span_digits_def list_all_iff takeWhile_append2 dropWhile_append2)

lemma num_stop_digit: "num_stop r \<Longrightarrow> r = [] \<or> \<not> is_digit (hd r)"
  by (cases r) (auto simp: num_stop_def is_digit_def)

lemma num_exp_text:
  assumes "ep = [] \<or> (\<exists>x ds. ep = CHR ''e'' # x # ds \<and> (x = CHR ''+'' \<or> x = CHR ''-'') \<and> ds \<noteq> [] \<and> list_all is_digit ds)"
    and "num_stop r"
  shows "num_exp (ep @ r) = Some (ep, r)"
  using assms(1)
proof
  assume "ep = []"
  with assms(2) show ?thesis by (simp add: num_stop_not)
next
  assume "\<exists>x ds. ep = CHR ''e'' # x # ds \<and> (x = CHR ''+'' \<or> x = CHR ''-'') \<and> ds \<noteq> [] \<and> list_all is_digit ds"
  then obtain x ds where ep: "ep = CHR ''e'' # x # ds" "x = CHR ''+'' \<or> x = CHR ''-''" "ds \<noteq> []" "list_all is_digit ds"
    by blast
  with span_digits_app [OF ep(4) num_stop_digit [OF assms(2)]] show ?thesis
    by (auto simp: num_exp_def split: list.split)
qed

lemma num_frac_text:
  assumes "fp = [] \<or> (\<exists>ds. fp = CHR ''.'' # ds \<and> ds \<noteq> [] \<and> list_all is_digit ds)"
    and "r = [] \<or> hd r \<noteq> CHR ''.'' \<and> \<not> is_digit (hd r)"
  shows "num_frac (fp @ r) = Some (fp, r)"
  using assms(1)
proof
  assume "fp = []"
  with assms(2) show ?thesis by (cases r) (auto simp: num_frac_def)
next
  assume "\<exists>ds. fp = CHR ''.'' # ds \<and> ds \<noteq> [] \<and> list_all is_digit ds"
  then obtain ds where fp: "fp = CHR ''.'' # ds" "ds \<noteq> []" "list_all is_digit ds" by blast
  with span_digits_app [OF fp(3), of r] assms(2) show ?thesis
    by (auto simp: num_frac_def split: list.split)
qed

lemma num_int_text:
  assumes "ip = ''0'' \<or> (ip \<noteq> [] \<and> hd ip \<noteq> CHR ''0'' \<and> list_all is_digit ip)"
    and "r = [] \<or> \<not> is_digit (hd r)"
  shows "num_int (ip @ r) = Some (ip, r)"
  using assms(1)
proof
  assume ip: "ip \<noteq> [] \<and> hd ip \<noteq> CHR ''0'' \<and> list_all is_digit ip"
  then obtain c cs where c: "ip = c # cs" by (cases ip) auto
  with span_digits_app [of ip r] ip assms(2) show ?thesis by (simp add: num_int_def)
qed (simp add: num_int_def)

lemma numero_text:
  assumes n: "json_number sg ip fp ep" and r: "num_stop r" and real: "fp \<noteq> [] \<or> ep \<noteq> []"
    and d: "fp_from_chars F (sg @ ip @ fp @ ep) = Some d"
  shows "numero F (sg @ ip @ fp @ ep @ r) = Some (VFloat d, r)"
proof -
  note n' = n [unfolded json_number_def]
  have ip0: "ip @ x \<noteq> [] \<and> hd (ip @ x) \<noteq> CHR ''-''" for x
  proof -
    from n' obtain c cs where c: "ip = c # cs" by (cases ip) auto
    with n' have "is_digit c" by (auto simp: is_digit_def)
    with c show ?thesis by (auto simp: is_digit_def)
  qed
  have er: "ep @ r = [] \<or> hd (ep @ r) \<noteq> CHR ''.'' \<and> \<not> is_digit (hd (ep @ r))"
    using n' r by (cases r) (auto simp: is_digit_def num_stop_def)
  have fr: "fp @ ep @ r = [] \<or> \<not> is_digit (hd (fp @ ep @ r))"
    using n' er by (auto simp: is_digit_def)
  have i: "num_int (ip @ fp @ ep @ r) = Some (ip, fp @ ep @ r)"
    using n' fr by (intro num_int_text) auto
  have f: "num_frac (fp @ ep @ r) = Some (fp, ep @ r)"
    using n' er by (intro num_frac_text) auto
  have e: "num_exp (ep @ r) = Some (ep, r)"
    using n' r by (intro num_exp_text) auto
  from n' have "sg = [] \<or> sg = ''-''" by simp
  then show ?thesis
    using ip0 [of "fp @ ep @ r"] real d by (auto simp: numero_def i f e Let_def)
qed

lemma numero_float:
  assumes "f64_finite d" and "fp_reads_back F d" and "num_stop r"
  shows "numero F (escribir_double F d @ r) = Some (VFloat d, r)"
    and "\<exists>c t. escribir_double F d = c # t \<and> (c = CHR ''-'' \<or> is_digit c)"
proof -
  obtain sg ip fp ep where n: "json_number sg ip fp ep" and t: "fp_to_chars F d = Some (sg @ ip @ fp @ ep)"
    and rd: "fp_from_chars F (sg @ ip @ fp @ ep) = Some d" and rd0: "fp_from_chars F (sg @ ip @ fp @ ep @ ''.0'') = Some d"
    using assms(2) unfolding fp_reads_back_def by blast
  note n' = n [unfolded json_number_def]
  have no: "\<not> list_ex (\<lambda>c. c \<in> set ''.eE'') (sg @ ip)"
    using n' by (auto simp: list_ex_iff list_all_iff is_digit_def)
  have "fp \<noteq> [] \<Longrightarrow> hd fp = CHR ''.''" "ep \<noteq> [] \<Longrightarrow> hd ep = CHR ''e''" using n' by auto
  then have ex: "list_ex (\<lambda>c. c \<in> set ''.eE'') (sg @ ip @ fp @ ep) \<longleftrightarrow> fp \<noteq> [] \<or> ep \<noteq> []"
    using no by (cases fp; cases ep) simp_all
  show "numero F (escribir_double F d @ r) = Some (VFloat d, r)"
  proof (cases "fp \<noteq> [] \<or> ep \<noteq> []")
    case True
    then show ?thesis
      using numero_text [OF n assms(3) True rd] ex assms(1) t by (simp add: escribir_double_def)
  next
    case False
    then have n2: "json_number sg ip ''.0'' []" using n' by (simp add: json_number_def is_digit_def)
    then show ?thesis
      using numero_text [OF n2 assms(3), of F d] False ex assms(1) t rd0 by (simp add: escribir_double_def)
  qed
  obtain c cs where "ip = c # cs" "is_digit c" using n' by (cases ip) (auto simp: is_digit_def)
  moreover have "\<exists>rest. escribir_double F d = sg @ ip @ rest"
    using t assms(1) by (simp add: escribir_double_def)
  moreover have "sg = [] \<or> sg = ''-''" using n' by simp
  ultimately show "\<exists>c t. escribir_double F d = c # t \<and> (c = CHR ''-'' \<or> is_digit c)" by fastforce
qed

section \<open>Documents are read back\<close>

text \<open>
  The values that serialisation keeps whole: finite doubles, valid UTF-8 text, no internal
  keys, dictionaries built by insertion, nesting within the limit of the parser.
\<close>

function storable :: "fp_text \<Rightarrow> nat \<Rightarrow> val \<Rightarrow> bool" where
  "storable F p VNull = (p \<le> kMaxProfundidad)"
| "storable F p (VBool b) = (p \<le> kMaxProfundidad)"
| "storable F p (VInt i) = (p \<le> kMaxProfundidad)"
| "storable F p (VFloat d) = (p \<le> kMaxProfundidad \<and> f64_finite d \<and> fp_reads_back F d)"
| "storable F p (VStr s) = (p \<le> kMaxProfundidad \<and> utf8_valido s)"
| "storable F p (VList l) = (p \<le> kMaxProfundidad \<and> list_all (storable F (p + 1)) l)"
| "storable F p (VDict d) = (p \<le> kMaxProfundidad \<and> d = dict_of_list (d_v d) \<and>
     list_all (\<lambda>(k, v). utf8_valido k \<and> \<not> internal_key k \<and> storable F (p + 1) v) (d_v d))"
  by pat_completeness auto
termination
  by (relation "measure (\<lambda>(F, p, v). size v)") (auto intro: size_list_elem size_dict_entry)

definition reads :: "fp_text \<Rightarrow> nat \<Rightarrow> string \<Rightarrow> val \<Rightarrow> bool" where
  "reads F p t v \<longleftrightarrow> t \<noteq> [] \<and> \<not> is_ws (hd t) \<and> hd t \<noteq> CHR '']'' \<and> hd t \<noteq> CHR ''}'' \<and>
     (\<forall>r. num_stop r \<longrightarrow> valor F p (t @ r) = Some (v, r))"

lemma espacios_id: "s = [] \<or> \<not> is_ws (hd s) \<Longrightarrow> espacios s = s"
  by (cases s) (auto simp: espacios_def)

lemma reads_espacios: "reads F p t v \<Longrightarrow> espacios (t @ r) = t @ r"
  by (rule espacios_id) (simp add: reads_def)

lemma reads_valor: "reads F p t v \<Longrightarrow> num_stop r \<Longrightarrow> valor F p (t @ r) = Some (v, r)"
  by (simp add: reads_def)

lemma num_stop_simps [simp]:
  "num_stop []" "num_stop (CHR '','' # r)" "num_stop (CHR '']'' # r)" "num_stop (CHR ''}'' # r)"
  by (simp_all add: num_stop_def)

lemma espacios_punct [simp]:
  "espacios (CHR '','' # r) = CHR '','' # r" "espacios (CHR '']'' # r) = CHR '']'' # r"
  "espacios (CHR ''}'' # r) = CHR ''}'' # r" "espacios (CHR '':'' # r) = CHR '':'' # r"
  "espacios (CHR 0x22 # r) = CHR 0x22 # r" "espacios [] = []"
  by (simp_all add: espacios_id is_ws_def)

lemma reads_step: "reads F p t v \<Longrightarrow> num_stop r \<Longrightarrow> valor F p (espacios (t @ r)) = Some (v, r)"
  by (simp add: reads_espacios reads_valor)

lemma lista_loop_reads:
  "vs \<noteq> [] \<Longrightarrow> list_all2 (\<lambda>t v. reads F (p + 1) t v) ts vs \<Longrightarrow>
   lista_loop F p l (sep_by '','' ts @ CHR '']'' # r) = Some (VList (l @ vs), r)"
proof (induction vs arbitrary: ts l)
  case (Cons v vs)
  then obtain t ts' where ts: "ts = t # ts'" and t: "reads F (p + 1) t v"
    and ts': "list_all2 (\<lambda>t v. reads F (p + 1) t v) ts' vs"
    by (auto simp: list_all2_Cons2)
  show ?case
  proof (cases ts')
    case Nil
    with ts' have "vs = []" by simp
    with Nil ts t show ?thesis
      by (subst lista_loop_unguarded) (simp add: reads_step [OF t, simplified])
  next
    case (Cons t' ts'')
    with ts' have "vs \<noteq> []" by auto
    note ih = Cons.IH [OF this ts', of "l @ [v]"]
    have "sep_by '','' ts @ CHR '']'' # r = t @ CHR '','' # (sep_by '','' ts' @ CHR '']'' # r)"
      using ts Cons by simp
    then show ?thesis
      using ih by (subst lista_loop_unguarded) (simp add: reads_step [OF t, simplified])
  qed
qed simp

lemma escapar_head: "\<exists>q. escapar s = CHR 0x22 # q"
  by (simp add: escapar_def escapar_valido_def)

lemma objeto_loop_reads:
  "kvs \<noteq> [] \<Longrightarrow> list_all2 (\<lambda>x (k, v). \<exists>t. x = escapar k @ '':'' @ t \<and> utf8_valido k \<and> reads F (p + 1) t v) xs kvs \<Longrightarrow>
   objeto_loop F p d (sep_by '','' xs @ CHR ''}'' # r) = Some (VDict (fold (\<lambda>(k, v). dict_put k v) kvs d), r)"
proof (induction kvs arbitrary: xs d)
  case (Cons kv kvs)
  obtain k v where kv: "kv = (k, v)" by (cases kv)
  from Cons.prems kv obtain t xs' where xs: "xs = (escapar k @ '':'' @ t) # xs'" and k: "utf8_valido k"
    and t: "reads F (p + 1) t v"
    and xs': "list_all2 (\<lambda>x (k, v). \<exists>t. x = escapar k @ '':'' @ t \<and> utf8_valido k \<and> reads F (p + 1) t v) xs' kvs"
    by (auto simp: list_all2_Cons2)
  obtain q where q: "escapar k = CHR 0x22 # q" using escapar_head by blast
  have esp: "espacios (escapar k @ y) = CHR 0x22 # (q @ y)" for y by (simp add: q)
  have cad: "cadena (espacios (escapar k @ y)) = Some (k, y)" for y
    using cadena_escapar [OF k, of y] by (simp add: q)
  show ?case
  proof (cases xs')
    case Nil
    with xs' have "kvs = []" by simp
    have s: "sep_by '','' xs @ CHR ''}'' # r = escapar k @ CHR '':'' # (t @ CHR ''}'' # r)"
      using xs Nil by simp
    have "objeto_loop F p d (sep_by '','' xs @ CHR ''}'' # r) = Some (VDict (dict_put k v d), r)"
      unfolding s
      by (subst objeto_loop_step [OF esp cad espacios_punct(4) reads_step [OF t] espacios_punct(3)]) simp_all
    with \<open>kvs = []\<close> kv show ?thesis by simp
  next
    case (Cons x xs'')
    with xs' have "kvs \<noteq> []" by auto
    note ih = Cons.IH [OF this xs', of "dict_put k v d"]
    have s: "sep_by '','' xs @ CHR ''}'' # r = escapar k @ CHR '':'' # (t @ CHR '','' # (sep_by '','' xs' @ CHR ''}'' # r))"
      using xs Cons by simp
    have "objeto_loop F p d (sep_by '','' xs @ CHR ''}'' # r) =
        objeto_loop F p (dict_put k v d) (sep_by '','' xs' @ CHR ''}'' # r)"
      unfolding s
      by (subst objeto_loop_step [OF esp cad espacios_punct(4) reads_step [OF t] espacios_punct(1)]) simp_all
    with ih kv show ?thesis by simp
  qed
qed simp

lemma valor_literals:
  assumes "p \<le> kMaxProfundidad"
  shows "valor F p (''null'' @ r) = Some (VNull, r)" "valor F p (''true'' @ r) = Some (VBool True, r)"
    "valor F p (''false'' @ r) = Some (VBool False, r)"
  using assms by (subst valor.simps, simp add: literal_def Let_def)+

lemma valor_number:
  assumes "p \<le> kMaxProfundidad" and "c = CHR ''-'' \<or> is_digit c"
  shows "valor F p ((c # t) @ r) = numero F ((c # t) @ r)"
proof -
  from assms(2) have "c \<noteq> CHR ''n''" "c \<noteq> CHR ''t''" "c \<noteq> CHR ''f''" "c \<noteq> CHR 0x22" "c \<noteq> CHR ''[''" "c \<noteq> CHR ''{''"
    by (auto simp: is_digit_def)
  with assms(1) show ?thesis by (subst valor.simps) (simp add: Let_def)
qed

lemma number_head: "c = CHR ''-'' \<or> is_digit c \<Longrightarrow> \<not> is_ws c \<and> c \<noteq> CHR '']'' \<and> c \<noteq> CHR ''}''"
  by (auto simp: is_ws_def is_digit_def)

lemma int_dec_head: "\<exists>c t. int_dec i = c # t \<and> (c = CHR ''-'' \<or> is_digit c)"
proof -
  obtain c cs where "nat_dec (nat i) = c # cs" by (cases "nat_dec (nat i)") auto
  moreover from this have "is_digit c" using nat_dec_digits [of "nat i"] by simp
  ultimately show ?thesis by (auto simp: int_dec_def)
qed

lemma write_json_reads: "storable F p v \<Longrightarrow> reads F p (write_json F v) v"
proof (induction F p v rule: storable.induct)
  case (3 F p i)
  obtain c t where c: "int_dec (sint i) = c # t" "c = CHR ''-'' \<or> is_digit c" using int_dec_head by blast
  have "num_stop r \<Longrightarrow> valor F p (int_dec (sint i) @ r) = Some (VInt i, r)" for r
    using numero_int [of r F i] valor_number [of p c F t r] 3 c by simp
  then show ?case using c number_head [OF c(2)] by (simp add: reads_def)
next
  case (4 F p d)
  then have fin: "f64_finite d" and rb: "fp_reads_back F d" and p: "p \<le> kMaxProfundidad" by simp_all
  obtain c t where c: "escribir_double F d = c # t" "c = CHR ''-'' \<or> is_digit c"
    using numero_float(2) [OF fin rb, of "[]"] by auto
  have "num_stop r \<Longrightarrow> valor F p (escribir_double F d @ r) = Some (VFloat d, r)" for r
    using numero_float(1) [OF fin rb, of r] valor_number [of p c F t r] p c by simp
  then show ?case using c number_head [OF c(2)] by (simp add: reads_def)
next
  case (5 F p s)
  obtain q where q: "escapar s = CHR 0x22 # q" using escapar_head by blast
  have "valor F p (escapar s @ r) = Some (VStr s, r)" for r
    using 5 cadena_escapar [of s r] by (subst valor.simps) (simp add: q Let_def)
  then show ?case by (simp add: reads_def q is_ws_def)
next
  case (6 F p l)
  show ?case
  proof (cases "l = []")
    case True
    then show ?thesis using 6 by (simp add: reads_def is_ws_def) (simp add: valor.simps Let_def)
  next
    case False
    have all: "list_all2 (\<lambda>t v. reads F (p + 1) t v) (map (write_json F) l) l"
      using 6 by (simp add: list_all2_map1 list_all2_same list_all_iff)
    from False obtain x xs where l: "l = x # xs" by (cases l) auto
    have x: "reads F (p + 1) (write_json F x) x" using all l by simp
    have hd: "hd (sep_by '','' (map (write_json F) l) @ y) = hd (write_json F x)
        \<and> sep_by '','' (map (write_json F) l) @ y \<noteq> []" for y
      using x l by (cases xs) (auto simp: reads_def)
    have "valor F p (write_json F (VList l) @ r) = Some (VList l, r)" for r
    proof -
      let ?body = "sep_by '','' (map (write_json F) l) @ CHR '']'' # r"
      have e: "espacios ?body = ?body" using hd x by (intro espacios_id) (auto simp: reads_def)
      have "valor F p (CHR ''['' # ?body) = lista_loop F p [] ?body"
        using 6 hd [of "CHR '']'' # r"] x by (subst valor.simps) (simp add: Let_def e reads_def)
      then show ?thesis using lista_loop_reads [OF False all, of "[]" r] by simp
    qed
    then show ?thesis by (simp add: reads_def is_ws_def)
  qed
next
  case (7 F p d)
  define kvs where "kvs = d_v d"
  from 7 have p: "p \<le> kMaxProfundidad" and d: "d = dict_of_list kvs"
    and ok: "\<And>k v. (k, v) \<in> set kvs \<Longrightarrow> utf8_valido k \<and> \<not> internal_key k \<and> reads F (p + 1) (write_json F v) v"
    by (auto simp: kvs_def list_all_iff)
  define xs where "xs = map (\<lambda>(k, v). escapar k @ '':'' @ write_json F v) kvs"
  have wj: "write_json F (VDict d) = ''{'' @ sep_by '','' xs @ ''}''"
  proof -
    have "filter (\<lambda>(k, t). \<not> internal_key k) (map (\<lambda>(k, v). (k, write_json F v)) kvs) =
        map (\<lambda>(k, v). (k, write_json F v)) kvs"
      using ok by (intro filter_True) auto
    moreover have "map ((\<lambda>(k, t). escapar k @ '':'' @ t) \<circ> (\<lambda>(k, v). (k, write_json F v))) kvs = xs"
      by (auto simp: xs_def)
    ultimately show ?thesis by (simp flip: kvs_def)
  qed
  show ?case
  proof (cases "kvs = []")
    case True
    then show ?thesis using p d wj xs_def
      by (simp add: reads_def is_ws_def dict_of_list_def) (simp add: valor.simps Let_def)
  next
    case False
    have all: "list_all2 (\<lambda>x (k, v). \<exists>t. x = escapar k @ '':'' @ t \<and> utf8_valido k \<and> reads F (p + 1) t v) xs kvs"
      unfolding xs_def using ok by (auto simp: list_all2_map1 list_all2_same)
    from False obtain k v kvs' where l: "kvs = (k, v) # kvs'" by (cases kvs) auto
    obtain q where q: "escapar k = CHR 0x22 # q" using escapar_head by blast
    have hd: "\<exists>z. sep_by '','' xs @ y = CHR 0x22 # z" for y
      using l q by (cases kvs') (auto simp: xs_def)
    have "valor F p (write_json F (VDict d) @ r) = Some (VDict d, r)" for r
    proof -
      let ?body = "sep_by '','' xs @ CHR ''}'' # r"
      obtain z where z: "?body = CHR 0x22 # z" using hd by blast
      then have e: "espacios ?body = ?body" by (simp add: espacios_id is_ws_def)
      have "valor F p (CHR ''{'' # ?body) = objeto_loop F p dict_empty ?body"
        using p by (subst valor.simps) (simp add: Let_def e, simp add: z)
      moreover have dd: "fold (\<lambda>(k, v). dict_put k v) kvs dict_empty = d"
        using d [symmetric] by (simp only: dict_of_list_def)
      ultimately show ?thesis
        using objeto_loop_reads [OF False all, of dict_empty r] unfolding dd wj by simp
    qed
    then show ?thesis by (simp add: reads_def wj is_ws_def)
  qed
qed (auto simp: reads_def is_ws_def valor_literals [simplified])

lemma parse_write: "storable F 0 v \<Longrightarrow> parse_json F (write_json F v) = Some v"
  using write_json_reads [of F 0 v] reads_espacios [of F 0 "write_json F v" v "[]"]
  by (auto simp: parse_json_def dest: reads_valor [where r = "[]"])

section \<open>Lemmas for the properties\<close>

lemma esc1_ascii: "byte c < 128 \<Longrightarrow> \<forall>x \<in> set (esc1 c). byte x < 128"
  by (auto simp: esc1_def escape_char_def hex_digit_def)

lemma utf8_bytes_high: "128 \<le> n \<Longrightarrow> \<forall>b \<in> set (utf8_bytes n). 128 \<le> b"
  by (simp add: utf8_bytes_def)

lemma utf8_bytes_low: "n < 0x110000 \<Longrightarrow> \<forall>b \<in> set (utf8_bytes n). b < 256"
proof -
  assume n: "n < 0x110000"
  have "m mod 64 < 64" for m :: nat by simp
  moreover have "n < 0x800 \<Longrightarrow> n div 64 < 32" "n < 0x10000 \<Longrightarrow> n div 4096 < 16" "n div 262144 < 5"
    using n by simp_all
  ultimately show ?thesis by (auto simp: utf8_bytes_def intro: order.strict_trans)
qed

lemma utf8_ok_esc:
  assumes "utf8_ok s"
  shows "utf8_ok (concat (map esc1 s) @ r) = utf8_ok r"
proof -
  obtain ns where ns: "\<forall>n \<in> set ns. scalar n" "s = utf8_encode ns" using utf8_ok_decode [OF assms] by blast
  have "utf8_ok (concat (map esc1 (utf8_encode ns)) @ r) = utf8_ok r"
    using ns(1)
  proof (induction ns)
    case (Cons n ns)
    then have n: "scalar n" by simp
    let ?rest = "concat (map esc1 (utf8_encode ns)) @ r"
    have split: "concat (map esc1 (utf8_encode (n # ns))) @ r = concat (map esc1 (utf8 (of_nat n))) @ ?rest"
      by (simp add: utf8_encode_def)
    have "utf8_ok (concat (map esc1 (utf8 (of_nat n))) @ ?rest) = utf8_ok ?rest"
    proof (cases "n < 128")
      case True
      then have "utf8 (of_nat n) = [char_of n]" by (simp add: utf8_scalar [OF n] utf8_bytes_def)
      then show ?thesis
        using True esc1_ascii [of "char_of n"] by (simp add: utf8_ok_ascii_append)
    next
      case False
      have "\<not> needs_escape c" if "c \<in> set (utf8 (of_nat n))" for c
      proof -
        from that obtain b where b: "b \<in> set (utf8_bytes n)" "c = char_of b" by (auto simp: utf8_scalar [OF n])
        have "128 \<le> b" "b < 256"
          using b(1) False utf8_bytes_high [of n] utf8_bytes_low [of n] n by (auto simp: scalar_def)
        then have "byte c = b" "128 \<le> byte c" using b(2) by simp_all
        then show ?thesis unfolding needs_escape_def byte_char_iff [symmetric] by simp
      qed
      then have "concat (map esc1 (utf8 (of_nat n))) = utf8 (of_nat n)"
        by (intro concat_esc1_plain) blast
      with utf8_ok_scalar [OF n] show ?thesis by simp
    qed
    with Cons split show ?case by simp
  qed (simp add: utf8_encode_def)
  then show ?thesis by (simp add: ns(2))
qed

lemma valor_too_deep:
  "kMaxProfundidad + 1 < p + k \<Longrightarrow> valor F p (replicate k (CHR ''['') @ s) = None"
proof (induction k arbitrary: p)
  case 0
  then show ?case by (simp add: valor.simps)
next
  case (Suc k)
  have ws: "espacios (replicate k (CHR ''['') @ s) = replicate k (CHR ''['') @ s \<or> k = 0"
    by (cases k) (simp_all add: espacios_def is_ws_def)
  show ?case
  proof (cases "kMaxProfundidad < p")
    case False
    then have k: "k \<noteq> 0" using Suc.prems by auto
    with ws have e: "espacios (replicate k (CHR ''['') @ s) = replicate k (CHR ''['') @ s" by simp
    have "valor F (p + 1) (replicate k (CHR ''['') @ s) = None" using Suc by simp
    then have "lista_loop F p [] (replicate k (CHR ''['') @ s) = None"
      by (simp add: lista_loop.simps e)
    moreover have "hd (replicate k (CHR ''['') @ s) = CHR ''[''" using k by (cases k) simp_all
    ultimately show ?thesis using False by (subst valor.simps) (simp add: Let_def e)
  qed (simp add: valor.simps)
qed

section \<open>Properties\<close>


definition fp_one :: fp_text where
  "fp_one = \<lparr>fp_ostream = (\<lambda>_. ''1''), fp_to_chars = (\<lambda>_. Some ''1''), fp_from_chars = (\<lambda>_. Some 0x3FF0000000000000)\<rparr>"

lemma fp_one_reads: "fp_reads_back fp_one 0x3FF0000000000000"
  unfolding fp_reads_back_def
  by (rule exI [of _ "[]"], rule exI [of _ "''1''"], rule exI [of _ "[]"], rule exI [of _ "[]"])
    (simp add: fp_one_def json_number_def is_digit_def)


text \<open>A text passes the validation exactly when it is a sequence of encoded Unicode scalar
  values, at most U+10FFFF and no surrogates, in the encoding the parser itself writes; the skips
  of eight ASCII bytes change nothing.\<close>

theorem utf8_valido_iff:
  "utf8_valido s \<longleftrightarrow> (\<exists>ns. (\<forall>n \<in> set ns. scalar n) \<and> s = concat (map (\<lambda>n. utf8 (of_nat n)) ns))"
  using utf8_ok_decode [of s] utf8_ok_encode by (auto simp: utf8_valido_ok utf8_encode_def)

theorem utf8_valido_iff_witness:
  "\<exists>ns. (\<forall>n \<in> set ns. scalar n) \<and> [CHR 0xE2, CHR 0x82, CHR 0xAC] = concat (map (\<lambda>n. utf8 (of_nat n)) ns)"
  unfolding utf8_valido_iff [symmetric] by code_simp

text \<open>C24. Every string leaves the serialiser as valid UTF-8, whatever bytes it holds; a valid one is
  not altered by the repair.\<close>

theorem escapar_always_utf8:
  "utf8_valido (escapar s) \<and> utf8_valido (sanear_utf8 s) \<and> (utf8_valido s \<longrightarrow> sanear_utf8 s = s)"
proof -
  have "utf8_ok (escapar_valido t)" if "utf8_ok t" for t
    using utf8_ok_esc [OF that, of "[CHR 0x22]"]
    by (simp add: escapar_valido_def escape_loop_bytes)
  then show ?thesis
    by (simp add: utf8_valido_ok escapar_def utf8_ok_sanear sanear_utf8_id)
qed

theorem escapar_always_utf8_witness:
  "sanear_utf8 ''hola'' = ''hola'' \<and> utf8_valido (escapar [CHR 0xFF])"
  using escapar_always_utf8 [of "''hola''"] escapar_always_utf8 [of "[CHR 0xFF]"]
  by (simp add: utf8_valido_ok)

text \<open>The parser refuses any document nested deeper than its limit, whatever follows.\<close>

theorem parse_json_depth:
  "parse_json F (replicate (kMaxProfundidad + 2) (CHR ''['') @ s) = None"
proof -
  have "espacios (replicate (kMaxProfundidad + 2) (CHR ''['') @ s) = replicate (kMaxProfundidad + 2) (CHR ''['') @ s"
    by (simp add: espacios_def is_ws_def)
  moreover have "valor F 0 (replicate (kMaxProfundidad + 2) (CHR ''['') @ s) = None"
    by (rule valor_too_deep) simp
  ultimately show ?thesis by (simp add: parse_json_def)
qed

text \<open>A key that starts with two underscores is never serialised: the text of a dictionary is
  that of the dictionary without those keys.\<close>

theorem internal_keys_hidden:
  assumes "dict_inv d"
  shows "write_json F (VDict d) = write_json F (VDict (dict_of_list (filter (\<lambda>(k, v). \<not> internal_key k) (d_v d))))"
proof -
  let ?vs = "d_v d"
  have "distinct (map fst ?vs)" using assms by (simp add: dict_inv_def)
  then have "distinct (map fst (filter (\<lambda>(k, v). \<not> internal_key k) ?vs))" by (rule distinct_map_filter)
  note dv = d_v_of_list [OF this]
  have "filter (\<lambda>(k, t). \<not> internal_key k) (map (\<lambda>(k, v). (k, write_json F v)) vs) =
      filter (\<lambda>(k, t). \<not> internal_key k) (map (\<lambda>(k, v). (k, write_json F v)) (filter (\<lambda>(k, v). \<not> internal_key k) vs))" for vs
    by (induction vs) auto
  then show ?thesis by (simp add: dv)
qed

theorem internal_keys_hidden_witness:
  "write_json fp_one (VDict (dict_of_list [(''__tipo'', VInt 1), (''a'', VNull)])) = write_json fp_one (VDict (dict_of_list [(''a'', VNull)]))"
proof -
  have "d_v (dict_of_list [(''__tipo'', VInt 1), (''a'', VNull)]) = [(''__tipo'', VInt 1), (''a'', VNull)]"
    by (rule d_v_of_list) simp
  with internal_keys_hidden [OF dict_inv_of_list, of fp_one "[(''__tipo'', VInt 1), (''a'', VNull)]"]
  show ?thesis by (simp add: internal_key_def)
qed

end
