(* ===== verification/Http.thy ===== *)
theory Http
  imports Containers
begin

text \<open>
  The request and response side of the HTTP layer that handlers see: cookies
  (cookies.hpp), the request accessors and the form decoder (request.hpp), the response
  builder (response.hpp).  \<open>std::unordered_map\<close> is an association list, so iteration order is
  the order of first insertion.  The file system the response methods consult is a parameter.
\<close>

section \<open>Cookies\<close>

datatype same_site = SameSite_Strict | SameSite_Lax | SameSite_None

record cookie_options =
  co_path :: string
  co_domain :: string
  co_max_age :: "int option"
  co_secure :: bool
  co_http_only :: bool
  co_same_site :: same_site

definition cookie_defaults :: cookie_options where
  "cookie_defaults = \<lparr>co_path = ''/'', co_domain = [], co_max_age = None, co_secure = False,
     co_http_only = True, co_same_site = SameSite_Lax\<rparr>"

text \<open>The two strippers of \<open>build_set_cookie\<close>.\<close>

definition crlf_char :: "char \<Rightarrow> bool" where
  "crlf_char c \<longleftrightarrow> c = CHR 0x0D \<or> c = CHR 0x0A"

definition cookie_forbidden :: "char \<Rightarrow> bool" where
  "cookie_forbidden c \<longleftrightarrow> crlf_char c \<or> c = CHR '';'' \<or> c = CHR '','' \<or> c = CHR '' '' \<or> c = CHR 0x09"

definition strip :: "string \<Rightarrow> string" where
  "strip s = filter (\<lambda>c. \<not> cookie_forbidden c) s"

definition strip_crlf :: "string \<Rightarrow> string" where
  "strip_crlf s = filter (\<lambda>c. \<not> crlf_char c) s"

definition same_site_attr :: "same_site \<Rightarrow> string" where
  "same_site_attr ss = (case ss of
       SameSite_Strict \<Rightarrow> ''; SameSite=Strict''
     | SameSite_Lax \<Rightarrow> ''; SameSite=Lax''
     | SameSite_None \<Rightarrow> ''; SameSite=None'')"

definition build_set_cookie :: "string \<Rightarrow> string \<Rightarrow> cookie_options \<Rightarrow> string" where
  "build_set_cookie name0 value0 opts0 =
     (let name = strip name0;
          val = strip value0;
          opts1 = opts0\<lparr>co_path := strip_crlf (co_path opts0), co_domain := strip_crlf (co_domain opts0)\<rparr>;
          opts = (if co_same_site opts1 = SameSite_None \<and> \<not> co_secure opts1 then opts1\<lparr>co_secure := True\<rparr> else opts1)
      in name @ ''='' @ val
         @ (if co_path opts \<noteq> [] then ''; Path='' @ co_path opts else [])
         @ (if co_domain opts \<noteq> [] then ''; Domain='' @ co_domain opts else [])
         @ (case co_max_age opts of Some n \<Rightarrow> ''; Max-Age='' @ int_dec n | None \<Rightarrow> [])
         @ (if co_http_only opts then ''; HttpOnly'' else [])
         @ (if co_secure opts then ''; Secure'' else [])
         @ same_site_attr (co_same_site opts))"

text \<open>\<open>parse_cookie_header\<close>: the loop over \<open>pos\<close> is a recursion on the rest of the header.\<close>

definition cookie_pair :: "string \<Rightarrow> (string \<times> string) list \<Rightarrow> (string \<times> string) list" where
  "cookie_pair pair out =
     (case find_index (\<lambda>c. c = CHR ''='') pair of
        None \<Rightarrow> out
      | Some eq \<Rightarrow>
          (let k = take eq pair; v = drop (eq + 1) pair
           in if k \<noteq> [] then al_emplace k v out else out))"

definition blank_char :: "char \<Rightarrow> bool" where
  "blank_char c \<longleftrightarrow> c = CHR '' '' \<or> c = CHR 0x09"

function cookie_loop :: "string \<Rightarrow> (string \<times> string) list \<Rightarrow> (string \<times> string) list" where
  "cookie_loop s out =
     (if s = [] then out
      else let s1 = dropWhile blank_char s
           in cookie_loop (drop 1 (dropWhile (\<lambda>c. c \<noteq> CHR '';'') s1))
                (cookie_pair (takeWhile (\<lambda>c. c \<noteq> CHR '';'') s1) out))"
  by pat_completeness auto
termination
proof (relation "measure (\<lambda>(s, out). length s)")
  fix s :: string and out s1
  assume "s \<noteq> []" and s1: "s1 = dropWhile blank_char s"
  have "length (drop 1 (dropWhile (\<lambda>c. c \<noteq> CHR '';'') s1)) \<le> length s - 1"
    using length_dropWhile_le [of "\<lambda>c. c \<noteq> CHR '';''" s1] length_dropWhile_le [of blank_char s]
    unfolding s1 by simp
  with \<open>s \<noteq> []\<close> show "((drop 1 (dropWhile (\<lambda>c. c \<noteq> CHR '';'') s1),
      cookie_pair (takeWhile (\<lambda>c. c \<noteq> CHR '';'') s1) out), s, out)
    \<in> measure (\<lambda>(s, out). length s)"
    by (cases s) auto
qed simp

declare cookie_loop.simps [simp del]

definition parse_cookie_header :: "string \<Rightarrow> (string \<times> string) list" where
  "parse_cookie_header header = cookie_loop header []"

section \<open>Requests\<close>

record request =
  rq_method :: string
  rq_path :: string
  rq_body :: string
  rq_headers :: "(string \<times> string) list"
  rq_params :: "(string \<times> string) list"
  rq_query :: "(string \<times> string) list"
  cookies_cache :: "(string \<times> string) list"
  cookies_parsed :: bool

definition req_header :: "string \<Rightarrow> request \<Rightarrow> string option" where
  "req_header name r = map_of (rq_headers r) (map to_lower name)"

definition query_param :: "string \<Rightarrow> string \<Rightarrow> request \<Rightarrow> string" where
  "query_param key def r = (case map_of (rq_query r) key of Some v \<Rightarrow> v | None \<Rightarrow> def)"

text \<open>\<open>cookie\<close> is const in C++ but fills the mutable cache, so it returns the request too.\<close>

definition parse_cookies :: "request \<Rightarrow> request" where
  "parse_cookies r =
     (if cookies_parsed r then r
      else case req_header ''cookie'' r of
             Some h \<Rightarrow> r\<lparr>cookies_parsed := True, cookies_cache := parse_cookie_header h\<rparr>
           | None \<Rightarrow> r\<lparr>cookies_parsed := True\<rparr>)"

definition req_cookie :: "string \<Rightarrow> request \<Rightarrow> request \<times> string option" where
  "req_cookie name r = (let r' = parse_cookies r in (r', map_of (cookies_cache r') name))"

subsection \<open>URL-encoded forms\<close>

definition hex_digit_value :: "char \<Rightarrow> nat option" where
  "hex_digit_value c =
     (if is_digit c then Some (byte c - 48)
      else if 97 \<le> byte c \<and> byte c \<le> 102 then Some (byte c - 87)
      else if 65 \<le> byte c \<and> byte c \<le> 70 then Some (byte c - 55)
      else None)"

definition c_space :: "char \<Rightarrow> bool" where
  "c_space c \<longleftrightarrow> c = CHR '' '' \<or> (9 \<le> byte c \<and> byte c \<le> 13)"

text \<open>
  \<open>strtoul(buf, &end, 16)\<close> on the two characters of a percent escape, where it consumes both:
  two hexadecimal digits, or one digit behind a space or a sign.
\<close>

definition strtoul2 :: "char \<Rightarrow> char \<Rightarrow> u64 option" where
  "strtoul2 a b =
     (case hex_digit_value b of
        None \<Rightarrow> None
      | Some lo \<Rightarrow>
          (case hex_digit_value a of
             Some hi \<Rightarrow> Some (of_nat (16 * hi + lo))
           | None \<Rightarrow>
               if c_space a \<or> a = CHR ''+'' then Some (of_nat lo)
               else if a = CHR ''-'' then Some (- of_nat lo)
               else None))"

fun form_url_decode :: "string \<Rightarrow> string" where
  "form_url_decode [] = []"
| "form_url_decode (c # s) =
     (if c = CHR ''+'' then CHR '' '' # form_url_decode s
      else if c = CHR ''%'' then
        (case s of
           a # b # r \<Rightarrow>
             (case strtoul2 a b of
                Some v \<Rightarrow> (if v \<noteq> 0 then [char_of (unat v)] else []) @ form_url_decode r
              | None \<Rightarrow> CHR ''%'' # form_url_decode s)
         | _ \<Rightarrow> CHR ''%'' # form_url_decode s)
      else c # form_url_decode s)"

definition form_pair :: "string \<Rightarrow> (string \<times> string) list \<Rightarrow> (string \<times> string) list" where
  "form_pair piece result =
     (case find_index (\<lambda>c. c = CHR ''='') piece of
        Some eq \<Rightarrow> al_put (form_url_decode (take eq piece)) (form_url_decode (drop (eq + 1) piece)) result
      | None \<Rightarrow> if piece \<noteq> [] then al_put (form_url_decode piece) [] result else result)"

function form_loop :: "string \<Rightarrow> (string \<times> string) list \<Rightarrow> (string \<times> string) list" where
  "form_loop s result =
     (let result' = form_pair (takeWhile (\<lambda>c. c \<noteq> CHR ''&'') s) result
      in case dropWhile (\<lambda>c. c \<noteq> CHR ''&'') s of
           [] \<Rightarrow> result'
         | _ # s' \<Rightarrow> form_loop s' result')"
  by pat_completeness auto
termination
proof (relation "measure (\<lambda>(s, out). length s)")
  fix s :: string and result result' c s'
  assume "dropWhile (\<lambda>c. c \<noteq> CHR ''&'') s = c # s'"
  then have "length s' < length s"
    using length_dropWhile_le [of "\<lambda>c. c \<noteq> CHR ''&''" s] by simp
  then show "((s', result'), s, result) \<in> measure (\<lambda>(s, out). length s)" by simp
qed simp

declare form_loop.simps [simp del]

definition parse_form_encoded :: "string \<Rightarrow> (string \<times> string) list" where
  "parse_form_encoded src = form_loop src []"

definition req_form :: "request \<Rightarrow> (string \<times> string) list" where
  "req_form r =
     (case req_header ''content-type'' r of
        None \<Rightarrow> []
      | Some ct \<Rightarrow>
          if find_sub ''application/x-www-form-urlencoded'' ct = None then []
          else parse_form_encoded (rq_body r))"

section \<open>Responses\<close>

text \<open>What the response methods ask of the file system: contents, sizes and \<open>canonical\<close>.\<close>

record file_system =
  fs_read :: "string \<Rightarrow> string option"
  fs_size :: "string \<Rightarrow> nat option"
  fs_canonical :: "string \<Rightarrow> string option"

record response =
  status_code :: int
  res_body :: string
  templates_dir :: string
  res_headers :: "(string \<times> string) list"
  res_cookies :: "string list"
  sendfile_path :: string
  sendfile_size :: nat
  sse_started :: bool
  ws_started :: bool
  body_committed :: bool

definition new_response :: response where
  "new_response = \<lparr>status_code = 200, res_body = [], templates_dir = ''./templates'',
     res_headers = [], res_cookies = [], sendfile_path = [], sendfile_size = 0,
     sse_started = False, ws_started = False, body_committed = False\<rparr>"

definition res_status :: "int \<Rightarrow> response \<Rightarrow> response" where
  "res_status code r = r\<lparr>status_code := code\<rparr>"

definition take_body :: "response \<Rightarrow> response \<times> string" where
  "take_body r =
     (if sse_started r \<or> ws_started r then (r, [])
      else (r\<lparr>res_body := [], sendfile_path := [], sendfile_size := 0, body_committed := False\<rparr>, res_body r))"

definition restore_body :: "string \<Rightarrow> response \<Rightarrow> response" where
  "restore_body b r =
     (if sse_started r \<or> ws_started r then r else r\<lparr>res_body := b, body_committed := True\<rparr>)"

definition res_header :: "string \<Rightarrow> string \<Rightarrow> response \<Rightarrow> response" where
  "res_header key v r = r\<lparr>res_headers := al_put (strip_crlf key) (strip_crlf v) (res_headers r)\<rparr>"

definition res_cookie :: "string \<Rightarrow> string \<Rightarrow> cookie_options \<Rightarrow> response \<Rightarrow> response" where
  "res_cookie name v opts r = r\<lparr>res_cookies := res_cookies r @ [build_set_cookie name v opts]\<rparr>"

definition clear_cookie :: "string \<Rightarrow> cookie_options \<Rightarrow> response \<Rightarrow> response" where
  "clear_cookie name opts r =
     r\<lparr>res_cookies := res_cookies r @ [build_set_cookie name [] (opts\<lparr>co_max_age := Some 0\<rparr>)]\<rparr>"

definition res_text :: "string \<Rightarrow> response \<Rightarrow> response" where
  "res_text b r =
     (if body_committed r then r
      else (res_header ''Content-Type'' ''text/plain; charset=utf-8'' r)\<lparr>res_body := b, body_committed := True\<rparr>)"

definition json_text :: "string \<Rightarrow> response \<Rightarrow> response" where
  "json_text b r =
     (if body_committed r then r
      else (res_header ''Content-Type'' ''application/json; charset=utf-8'' r)\<lparr>res_body := b, body_committed := True\<rparr>)"

definition res_send :: "string \<Rightarrow> response \<Rightarrow> response" where
  "res_send b r = (if body_committed r then r else r\<lparr>res_body := b, body_committed := True\<rparr>)"

text \<open>The error answers the file methods write, past \<open>header\<close> and the commit flag.\<close>

definition json_error :: "int \<Rightarrow> string \<Rightarrow> response \<Rightarrow> response" where
  "json_error code b r = r\<lparr>status_code := code, res_body := b,
     res_headers := al_put ''Content-Type'' ''application/json; charset=utf-8'' (res_headers r)\<rparr>"

definition forbidden_body :: string where
  "forbidden_body = ''{\"error\":\"Forbidden\"}''"

definition not_found_body :: string where
  "not_found_body = ''{\"error\":\"Not Found\"}''"

definition internal_body :: string where
  "internal_body = ''{\"error\":\"Internal Server Error\"}''"

definition ends_with :: "string \<Rightarrow> string \<Rightarrow> bool" where
  "ends_with s suf \<longleftrightarrow> length suf \<le> length s \<and> drop (length s - length suf) s = suf"

definition is_template_name :: "string \<Rightarrow> bool" where
  "is_template_name s \<longleftrightarrow> s \<noteq> [] \<and> CHR 0x0A \<notin> set s \<and> CHR ''<'' \<notin> set s
     \<and> (ends_with s ''.html'' \<or> ends_with s ''.htm'')"

text \<open>The components \<open>std::filesystem::path\<close> iterates over on POSIX.\<close>

definition path_comps :: "string \<Rightarrow> string list" where
  "path_comps p =
     (let names = filter (\<lambda>x. x \<noteq> []) (getline_all (CHR ''/'') p)
      in (if p \<noteq> [] \<and> hd p = CHR ''/'' then [''/''] else []) @ names
         @ (if names \<noteq> [] \<and> last p = CHR ''/'' then [[]] else []))"

definition path_join :: "string \<Rightarrow> string \<Rightarrow> string" where
  "path_join a b =
     (if b \<noteq> [] \<and> hd b = CHR ''/'' then b
      else if a \<noteq> [] \<and> last a \<noteq> CHR ''/'' then a @ ''/'' @ b
      else a @ b)"

definition res_html :: "file_system \<Rightarrow> string \<Rightarrow> response \<Rightarrow> response" where
  "res_html fs content r0 =
     (if body_committed r0 then r0
      else let r = (res_header ''Content-Type'' ''text/html; charset=utf-8'' r0)\<lparr>body_committed := True\<rparr>
           in if is_template_name content then
                (if hd content = CHR ''/'' then json_error 403 forbidden_body r
                 else if ''..'' \<in> set (path_comps content) then json_error 403 forbidden_body r
                 else case fs_read fs (path_join (templates_dir r) content) of
                        None \<Rightarrow> json_error 500 internal_body r
                      | Some t \<Rightarrow> r\<lparr>res_body := t\<rparr>)
              else r\<lparr>res_body := content\<rparr>)"

definition send_file :: "file_system \<Rightarrow> string \<Rightarrow> response \<Rightarrow> response" where
  "send_file fs path r =
     (if ''..'' \<in> set (path_comps path) then json_error 403 forbidden_body r
      else case fs_size fs path of
             None \<Rightarrow> r\<lparr>status_code := 500, res_body := ''Cannot stat file''\<rparr>
           | Some sz \<Rightarrow> r\<lparr>sendfile_path := path, sendfile_size := sz, body_committed := True\<rparr>)"

definition send_file_known :: "string \<Rightarrow> nat \<Rightarrow> response \<Rightarrow> response" where
  "send_file_known path sz r = r\<lparr>sendfile_path := path, sendfile_size := sz, body_committed := True\<rparr>"

text \<open>
  \<open>std::mismatch\<close> over the first range: \<open>Some True\<close> when it was exhausted.  When the second
  range ends first the code reads past its end, which is undefined behaviour: \<open>None\<close>.
\<close>

fun mismatch_exhausted :: "'a list \<Rightarrow> 'a list \<Rightarrow> bool option" where
  "mismatch_exhausted [] fs = Some True"
| "mismatch_exhausted (r # rs) [] = None"
| "mismatch_exhausted (r # rs) (f # fs) = (if r = f then mismatch_exhausted rs fs else Some False)"

definition serve_file_from :: "file_system \<Rightarrow> string \<Rightarrow> string \<Rightarrow> response \<Rightarrow> response option" where
  "serve_file_from fs root user_path r =
     (case fs_canonical fs root of
        None \<Rightarrow> Some (json_error 500 internal_body r)
      | Some croot \<Rightarrow>
          (case fs_canonical fs (path_join croot user_path) of
             None \<Rightarrow> Some (json_error 404 not_found_body r)
           | Some cfile \<Rightarrow>
               (case mismatch_exhausted (path_comps croot) (path_comps cfile) of
                  None \<Rightarrow> None
                | Some False \<Rightarrow> Some (json_error 403 forbidden_body r)
                | Some True \<Rightarrow> Some (send_file fs cfile r))))"

definition mark_sse_started :: "response \<Rightarrow> response" where
  "mark_sse_started r = r\<lparr>sse_started := True\<rparr>"

definition mark_ws_started :: "response \<Rightarrow> response" where
  "mark_ws_started r = r\<lparr>ws_started := True\<rparr>"

definition set_templates_dir :: "string \<Rightarrow> response \<Rightarrow> response" where
  "set_templates_dir d r = r\<lparr>templates_dir := d\<rparr>"

subsection \<open>The bytes of the response\<close>

definition reason_phrase :: "int \<Rightarrow> string" where
  "reason_phrase code =
     (case map_of [(200, ''OK''), (201, ''Created''), (202, ''Accepted''), (204, ''No Content''),
        (206, ''Partial Content''), (301, ''Moved Permanently''), (302, ''Found''),
        (304, ''Not Modified''), (307, ''Temporary Redirect''), (308, ''Permanent Redirect''),
        (400, ''Bad Request''), (401, ''Unauthorized''), (403, ''Forbidden''), (404, ''Not Found''),
        (405, ''Method Not Allowed''), (408, ''Request Timeout''), (409, ''Conflict''), (410, ''Gone''),
        (413, ''Content Too Large''), (415, ''Unsupported Media Type''), (422, ''Unprocessable Entity''),
        (429, ''Too Many Requests''), (500, ''Internal Server Error''), (501, ''Not Implemented''),
        (502, ''Bad Gateway''), (503, ''Service Unavailable''), (504, ''Gateway Timeout'')] code of
        Some t \<Rightarrow> t | None \<Rightarrow> ''Unknown'')"

definition crlf :: string where
  "crlf = [CHR 0x0D, CHR 0x0A]"

definition status_line :: "response \<Rightarrow> string" where
  "status_line r = ''HTTP/1.1 '' @ int_dec (status_code r) @ '' '' @ reason_phrase (status_code r) @ crlf"

definition header_lines :: "response \<Rightarrow> string" where
  "header_lines r =
     concat (map (\<lambda>(k, v). k @ '': '' @ v @ crlf) (res_headers r))
     @ concat (map (\<lambda>c. ''Set-Cookie: '' @ c @ crlf) (res_cookies r))
     @ crlf"

definition build_sse_headers :: "response \<Rightarrow> string" where
  "build_sse_headers r = status_line r @ header_lines r"

definition res_build :: "response \<Rightarrow> string" where
  "res_build r =
     (let clen = (if sendfile_path r = [] then length (res_body r) else sendfile_size r)
      in status_line r @ ''Content-Length: '' @ nat_dec clen @ crlf @ header_lines r
         @ (if sendfile_path r = [] then res_body r else []))"

text \<open>The methods a handler can call, as the operations of a sequence.\<close>

datatype res_op =
    Op_status int | Op_header string string | Op_cookie string string cookie_options
  | Op_clear_cookie string cookie_options | Op_text string | Op_html string | Op_json string
  | Op_send string | Op_send_file string | Op_send_file_known string nat | Op_take_body
  | Op_restore_body string | Op_sse | Op_ws | Op_templates_dir string

fun res_apply :: "file_system \<Rightarrow> res_op \<Rightarrow> response \<Rightarrow> response" where
  "res_apply fs (Op_status c) r = res_status c r"
| "res_apply fs (Op_header k v) r = res_header k v r"
| "res_apply fs (Op_cookie n v opts) r = res_cookie n v opts r"
| "res_apply fs (Op_clear_cookie n opts) r = clear_cookie n opts r"
| "res_apply fs (Op_text b) r = res_text b r"
| "res_apply fs (Op_html b) r = res_html fs b r"
| "res_apply fs (Op_json b) r = json_text b r"
| "res_apply fs (Op_send b) r = res_send b r"
| "res_apply fs (Op_send_file p) r = send_file fs p r"
| "res_apply fs (Op_send_file_known p n) r = send_file_known p n r"
| "res_apply fs Op_take_body r = fst (take_body r)"
| "res_apply fs (Op_restore_body b) r = restore_body b r"
| "res_apply fs Op_sse r = mark_sse_started r"
| "res_apply fs Op_ws r = mark_ws_started r"
| "res_apply fs (Op_templates_dir d) r = set_templates_dir d r"

section \<open>Cookies: what is written is what comes back\<close>

lemma strip_clean: "c \<in> set (strip s) \<Longrightarrow> \<not> cookie_forbidden c"
  by (simp add: strip_def)

lemma strip_crlf_clean: "c \<in> set (strip_crlf s) \<Longrightarrow> \<not> crlf_char c"
  by (simp add: strip_crlf_def)

lemma set_strip: "c \<in> set (strip s) \<longleftrightarrow> c \<in> set s \<and> \<not> cookie_forbidden c"
  by (auto simp: strip_def)

lemma strip_no_separator: "CHR '';'' \<notin> set (strip s)" "CHR '' '' \<notin> set (strip s)" "CHR 0x09 \<notin> set (strip s)"
  by (simp_all add: strip_def cookie_forbidden_def)

lemma is_digit_not_crlf: "is_digit c \<Longrightarrow> \<not> crlf_char c"
  by (auto simp: is_digit_def crlf_char_def)

lemma int_dec_chars: "c \<in> set (int_dec i) \<Longrightarrow> is_digit c \<or> c = CHR ''-''"
  using nat_dec_digits by (auto simp: int_dec_def list_all_iff split: if_splits)

lemma int_dec_not_crlf: "c \<in> set (int_dec i) \<Longrightarrow> \<not> crlf_char c"
  by (auto dest!: int_dec_chars is_digit_not_crlf simp: crlf_char_def)

definition crlf_free :: "string \<Rightarrow> bool" where
  "crlf_free s \<longleftrightarrow> (\<forall>c \<in> set s. \<not> crlf_char c)"

lemma crlf_free_simps [simp]:
  "crlf_free []" "crlf_free (c # s) \<longleftrightarrow> \<not> crlf_char c \<and> crlf_free s"
  "crlf_free (s @ t) \<longleftrightarrow> crlf_free s \<and> crlf_free t"
  by (auto simp: crlf_free_def)

lemma crlf_free_strip [simp]: "crlf_free (strip s)" "crlf_free (strip_crlf s)" "crlf_free (int_dec i)"
  "crlf_free (nat_dec n)"
  using nat_dec_digits [of n] is_digit_not_crlf
  by (auto simp: crlf_free_def int_dec_not_crlf strip_def strip_crlf_def cookie_forbidden_def list_all_iff)

lemma crlf_free_same_site [simp]: "crlf_free (same_site_attr ss)"
  by (cases ss) (simp_all add: same_site_attr_def crlf_char_def)

lemma crlf_free_set_cookie [simp]: "crlf_free (build_set_cookie n v opts)"
  by (simp add: build_set_cookie_def Let_def crlf_char_def split: option.splits)

lemma set_cookie_pair:
  "takeWhile (\<lambda>c. c \<noteq> CHR '';'') (build_set_cookie n v opts) = strip n @ ''='' @ strip v"
proof -
  have "\<exists>t. build_set_cookie n v opts = (strip n @ ''='' @ strip v) @ CHR '';'' # t"
  proof -
    have ss: "\<exists>t. same_site_attr ss = CHR '';'' # t" for ss
      by (cases ss) (simp_all add: same_site_attr_def)
    obtain t where "same_site_attr (co_same_site opts) = CHR '';'' # t" using ss by blast
    then show ?thesis
      by (auto simp: build_set_cookie_def Let_def split: option.splits)
  qed
  moreover have "CHR '';'' \<notin> set (strip n @ ''='' @ strip v)"
    using strip_no_separator by simp
  ultimately show ?thesis by (auto simp: takeWhile_append)
qed

text \<open>What a browser keeps of a \<open>Set-Cookie\<close> header and sends back: the pairs, joined by \<open>"; "\<close>.\<close>

definition browser_header :: "string list \<Rightarrow> string" where
  "browser_header cs = sep_by ''; '' (map (takeWhile (\<lambda>c. c \<noteq> CHR '';'')) cs)"

definition cookie_pairs :: "(string \<times> string \<times> cookie_options) list \<Rightarrow> (string \<times> string) list" where
  "cookie_pairs cs = map (\<lambda>(n, v, opts). (strip n, strip v)) cs"

lemma cookie_loop_Nil [simp]: "cookie_loop [] out = out"
  by (subst cookie_loop.simps) simp

lemma cookie_loop_blank: "blank_char c \<Longrightarrow> s \<noteq> [] \<Longrightarrow> cookie_loop (c # s) out = cookie_loop s out"
  by (subst (1 2) cookie_loop.simps) simp

lemma cookie_loop_pair:
  assumes "CHR '';'' \<notin> set p" and "p \<noteq> []" and "\<not> blank_char (hd p)"
  shows "cookie_loop (p @ CHR '';'' # s) out = cookie_loop s (cookie_pair p out)"
    and "cookie_loop p out = cookie_pair p out"
proof -
  have p: "dropWhile blank_char (p @ x) = p @ x" for x
    using assms(2,3) by (cases p) auto
  have "takeWhile (\<lambda>c. c \<noteq> CHR '';'') p = p" "dropWhile (\<lambda>c. c \<noteq> CHR '';'') p = []"
    using assms(1) by (auto simp: takeWhile_eq_all_conv dropWhile_eq_Nil_conv)
  moreover from p [of "[]"] have "dropWhile blank_char p = p" by simp
  ultimately show "cookie_loop p out = cookie_pair p out"
    using assms(2) by (subst cookie_loop.simps) (simp only: Let_def drop_Nil if_False cookie_loop_Nil)
  show "cookie_loop (p @ CHR '';'' # s) out = cookie_loop s (cookie_pair p out)"
  proof (subst cookie_loop.simps, simp only: Let_def p)
    have "takeWhile (\<lambda>c. c \<noteq> CHR '';'') (p @ CHR '';'' # s) = p"
      "dropWhile (\<lambda>c. c \<noteq> CHR '';'') (p @ CHR '';'' # s) = CHR '';'' # s"
      using assms(1) by (auto simp: takeWhile_append dropWhile_append)
    then show "(if p @ CHR '';'' # s = [] then out
      else cookie_loop (drop 1 (dropWhile (\<lambda>c. c \<noteq> CHR '';'') (p @ CHR '';'' # s)))
        (cookie_pair (takeWhile (\<lambda>c. c \<noteq> CHR '';'') (p @ CHR '';'' # s)) out))
      = cookie_loop s (cookie_pair p out)" by simp
  qed
qed

lemma cookie_pair_named:
  assumes "CHR ''='' \<notin> set k" and "k \<noteq> []"
  shows "cookie_pair (k @ ''='' @ v) out = al_emplace k v out"
proof -
  have "find_index (\<lambda>c. c = CHR ''='') (k @ CHR ''='' # v) = Some (length k)"
    using assms(1) by (auto simp: find_index_Some nth_append in_set_conv_nth)
  with assms show ?thesis by (simp add: cookie_pair_def)
qed

lemma cookie_loop_pairs:
  assumes "\<forall>(k, v) \<in> set kvs. strip k = k \<and> k \<noteq> [] \<and> CHR ''='' \<notin> set k \<and> strip v = v"
  shows "cookie_loop (sep_by ''; '' (map (\<lambda>(k, v). k @ ''='' @ v) kvs)) out
    = fold (\<lambda>(k, v). al_emplace k v) kvs out"
  using assms
proof (induction kvs arbitrary: out)
  case (Cons kv kvs)
  obtain k v where kv: "kv = (k, v)" by (cases kv)
  let ?p = "k @ ''='' @ v"
  have k: "k \<noteq> []" "CHR ''='' \<notin> set k" and c: "strip k = k" "strip v = v"
    using Cons.prems kv by auto
  have p: "CHR '';'' \<notin> set ?p" "?p \<noteq> []"
    using strip_no_separator(1) [of k] strip_no_separator(1) [of v] c by auto
  have "hd k \<in> set (strip k)" using k c by simp
  then have b: "\<not> blank_char (hd ?p)"
    using k by (auto simp: blank_char_def set_strip cookie_forbidden_def)
  show ?case
  proof (cases "kvs = []")
    case True
    then show ?thesis using cookie_loop_pair(2) [OF p b] by (simp add: kv cookie_pair_named [OF k(2,1), simplified])
  next
    case False
    let ?rest = "sep_by ''; '' (map (\<lambda>(k, v). k @ ''='' @ v) kvs)"
    have "?rest \<noteq> []" using False by (cases kvs; cases "tl kvs") auto
    then have "cookie_loop (?p @ CHR '';'' # CHR '' '' # ?rest) out = cookie_loop ?rest (cookie_pair ?p out)"
      using \<open>?rest \<noteq> []\<close> by (simp only: cookie_loop_pair(1) [OF p b]) (rule cookie_loop_blank, simp_all add: blank_char_def)
    also have "\<dots> = fold (\<lambda>(k, v). al_emplace k v) kvs (al_emplace k v out)"
      using Cons.prems by (simp only: cookie_pair_named [OF k(2,1)]) (rule Cons.IH, simp)
    finally show ?thesis using False by (simp add: kv sep_by_Cons)
  qed
qed simp

lemma map_of_fold_emplace: "map_of (fold (\<lambda>(k, v). al_emplace k v) kvs out) = map_of (out @ kvs)"
proof (induction kvs arbitrary: out)
  case (Cons kv kvs)
  obtain k v where kv: "kv = (k, v)" by (cases kv)
  have "map_of (al_emplace k v out @ kvs) = map_of (out @ (k, v) # kvs)"
  proof (cases "map_of out k")
    case (Some w)
    have "map_of (out @ (k, v) # kvs) x = map_of (out @ kvs) x" for x
      using Some by (cases "x = k") (simp_all add: map_add_def split: option.split)
    then show ?thesis using Some by (simp add: al_emplace_def fun_eq_iff)
  qed (simp add: al_emplace_def)
  with Cons show ?case by (simp add: kv)
qed simp

lemma strip_idem [simp]: "strip (strip s) = strip s"
  by (simp add: strip_def)

lemma cookies_returned:
  assumes "\<forall>(n, v, opts) \<in> set cs. strip n \<noteq> [] \<and> CHR ''='' \<notin> set n"
  shows "map_of (parse_cookie_header (browser_header (map (\<lambda>(n, v, opts). build_set_cookie n v opts) cs)))
    = map_of (cookie_pairs cs)"
proof -
  have "browser_header (map (\<lambda>(n, v, opts). build_set_cookie n v opts) cs)
      = sep_by ''; '' (map (\<lambda>(k, v). k @ ''='' @ v) (cookie_pairs cs))"
    unfolding browser_header_def cookie_pairs_def
    by (rule arg_cong [of _ _ "sep_by _"]) (auto simp: set_cookie_pair)
  moreover have "\<forall>(k, v) \<in> set (cookie_pairs cs). strip k = k \<and> k \<noteq> [] \<and> CHR ''='' \<notin> set k \<and> strip v = v"
    using assms by (auto simp: cookie_pairs_def set_strip split: prod.splits)
  ultimately show ?thesis
    by (simp only: parse_cookie_header_def cookie_loop_pairs map_of_fold_emplace append_Nil)
qed




section \<open>Forms\<close>

text \<open>A form encoder: what a browser writes for a field, every byte but the unreserved ones escaped.\<close>

definition hex_upper :: "nat \<Rightarrow> char" where
  "hex_upper n = (if n < 10 then char_of (48 + n) else char_of (55 + n))"

definition form_encode_char :: "char \<Rightarrow> string" where
  "form_encode_char c =
     (if is_alpha c \<or> is_digit c then [c]
      else if c = CHR '' '' then ''+''
      else [CHR ''%'', hex_upper (byte c div 16), hex_upper (byte c mod 16)])"

definition form_encode :: "string \<Rightarrow> string" where
  "form_encode s = concat (map form_encode_char s)"

definition form_body :: "(string \<times> string) list \<Rightarrow> string" where
  "form_body kvs = sep_by ''&'' (map (\<lambda>(k, v). form_encode k @ ''='' @ form_encode v) kvs)"

lemma hex_digit_value_upper: "n < 16 \<Longrightarrow> hex_digit_value (hex_upper n) = Some n"
  by (cases "n < 10") (simp_all add: hex_digit_value_def hex_upper_def is_digit_def)

lemma strtoul2_hex:
  "c \<noteq> char_of (0 :: nat) \<Longrightarrow> strtoul2 (hex_upper (byte c div 16)) (hex_upper (byte c mod 16)) = Some (of_nat (byte c))"
  using byte_less_256 [of c] by (simp add: strtoul2_def hex_digit_value_upper less_mult_imp_div_less del: byte_less_256)

lemma form_decode_char:
  assumes "c \<noteq> char_of (0 :: nat)"
  shows "form_url_decode (form_encode_char c @ s) = c # form_url_decode s"
proof -
  have alnum: "is_alpha c \<or> is_digit c \<Longrightarrow> c \<noteq> CHR ''+'' \<and> c \<noteq> CHR ''%''"
    by (auto simp: is_alpha_def is_digit_def is_upper_def is_lower_def)
  have "byte c \<noteq> 0" using assms by (metis byte_inject zero_less_numeral)
  have lt: "byte c < 2 ^ 64" using byte_less_256 [of c] by (simp del: byte_less_256)
  have u: "unat (of_nat (byte c) :: u64) = byte c" using lt by (simp add: unat_of_nat take_bit_nat_eq_self)
  with \<open>byte c \<noteq> 0\<close> have "(of_nat (byte c) :: u64) \<noteq> 0" by (metis unat_0)
  with alnum u show ?thesis
    by (auto simp: form_encode_char_def strtoul2_hex [OF assms])
qed

lemma form_decode_encode:
  assumes "char_of (0 :: nat) \<notin> set s"
  shows "form_url_decode (form_encode s) = s"
  using assms by (induction s) (auto simp: form_encode_def form_decode_char)

text \<open>The form encoder and the decoder of the request as an instance of the codec contract.\<close>

interpretation form: codec form_encode "\<lambda>s. Some (form_url_decode s)" "\<lambda>s. char_of (0 :: nat) \<notin> set s"
  by unfold_locales (simp add: form_decode_encode)

lemma hex_upper_alnum: "n < 16 \<Longrightarrow> is_alpha (hex_upper n) \<or> is_digit (hex_upper n)"
  by (cases "n < 10") (simp_all add: hex_upper_def is_digit_def is_alpha_def is_upper_def)

lemma form_encode_chars:
  "c \<in> set (form_encode s) \<Longrightarrow> is_alpha c \<or> is_digit c \<or> c = CHR ''+'' \<or> c = CHR ''%''"
  using hex_upper_alnum [of "byte x div 16" for x] hex_upper_alnum [of "byte x mod 16" for x] byte_less_256
  by (auto simp: form_encode_def form_encode_char_def less_mult_imp_div_less split: if_splits)

lemma form_encode_safe: "CHR ''&'' \<notin> set (form_encode s)" "CHR ''='' \<notin> set (form_encode s)"
  by (auto dest!: form_encode_chars simp: is_alpha_def is_digit_def is_upper_def is_lower_def)

lemma find_index_sep: "d \<notin> set k \<Longrightarrow> find_index (\<lambda>c. c = d) (k @ d # v) = Some (length k)"
  by (auto simp: find_index_Some nth_append in_set_conv_nth)

lemma form_pair_encoded:
  "char_of (0 :: nat) \<notin> set k \<union> set v \<Longrightarrow>
   form_pair (form_encode k @ ''='' @ form_encode v) r = al_put k v r"
  by (simp add: form_pair_def find_index_sep form_encode_safe form_decode_encode)

lemma form_loop_piece:
  assumes "CHR ''&'' \<notin> set p"
  shows "form_loop (p @ CHR ''&'' # s) r = form_loop s (form_pair p r)"
    and "form_loop p r = form_pair p r"
proof -
  have "takeWhile (\<lambda>c. c \<noteq> CHR ''&'') p = p" "dropWhile (\<lambda>c. c \<noteq> CHR ''&'') p = []"
    using assms by (auto simp: takeWhile_eq_all_conv dropWhile_eq_Nil_conv)
  then show "form_loop p r = form_pair p r" by (subst form_loop.simps) (simp only: Let_def list.case)
  have "takeWhile (\<lambda>c. c \<noteq> CHR ''&'') (p @ CHR ''&'' # s) = p"
    "dropWhile (\<lambda>c. c \<noteq> CHR ''&'') (p @ CHR ''&'' # s) = CHR ''&'' # s"
    using assms by (auto simp: takeWhile_append dropWhile_append)
  then show "form_loop (p @ CHR ''&'' # s) r = form_loop s (form_pair p r)"
    by (subst form_loop.simps) (simp only: Let_def list.case)
qed

lemma form_loop_pairs:
  assumes "\<forall>(k, v) \<in> set kvs. char_of (0 :: nat) \<notin> set k \<union> set v"
  shows "form_loop (form_body kvs) r = fold (\<lambda>(k, v). al_put k v) kvs r"
  using assms
proof (induction kvs arbitrary: r)
  case Nil
  show ?case by (simp add: form_body_def form_loop.simps form_pair_def)
next
  case (Cons kv kvs)
  obtain k v where kv: "kv = (k, v)" by (cases kv)
  let ?p = "form_encode k @ ''='' @ form_encode v"
  have p: "CHR ''&'' \<notin> set ?p" using form_encode_safe by simp
  have z: "char_of (0 :: nat) \<notin> set k \<union> set v" using Cons.prems kv by simp
  show ?case
  proof (cases "kvs = []")
    case True
    with form_loop_piece(2) [OF p] form_pair_encoded [OF z] show ?thesis by (simp add: form_body_def kv)
  next
    case False
    then have "form_body (kv # kvs) = ?p @ CHR ''&'' # form_body kvs"
      by (simp add: form_body_def kv sep_by_Cons)
    with Cons form_loop_piece(1) [OF p] form_pair_encoded [OF z] show ?thesis by (simp add: kv)
  qed
qed

text \<open>A form travels: any list of fields without NUL bytes, written as
  \<open>application/x-www-form-urlencoded\<close>, is read back by \<open>form\<close>, the last value of a repeated
  field winning, in a request whose content type says so.\<close>

theorem form_roundtrip:
  assumes "\<forall>(k, v) \<in> set kvs. char_of (0 :: nat) \<notin> set k \<union> set v"
    and "req_header ''content-type'' r = Some (''application/x-www-form-urlencoded'' @ params)"
    and "rq_body r = form_body kvs"
  shows "map_of (req_form r) = map_of (rev kvs)"
proof -
  have "find_sub ''application/x-www-form-urlencoded'' (''application/x-www-form-urlencoded'' @ params) = Some 0"
    by simp
  with assms(2,3) have "req_form r = form_loop (form_body kvs) []"
    unfolding req_form_def parse_form_encoded_def by (simp del: append_Cons)
  also have "\<dots> = fold (\<lambda>(k, v). al_put k v) kvs []" by (rule form_loop_pairs [OF assms(1)])
  finally show ?thesis using al.get_put_all_empty [of kvs] by (simp add: fun_eq_iff)
qed

lemma form_roundtrip_witness:
  "map_of (req_form \<lparr>rq_method = ''POST'', rq_path = ''/'', rq_body = form_body [(''a'', ''1&2''), (''b'', ''%'')],
      rq_headers = [(''content-type'', ''application/x-www-form-urlencoded'')], rq_params = [], rq_query = [],
      cookies_cache = [], cookies_parsed = False\<rparr>) = map_of (rev [(''a'', ''1&2''), (''b'', ''%'')])"
  by (rule form_roundtrip [where params = "[]"]) (simp_all add: req_header_def to_lower_def is_upper_def char_of_def)

section \<open>Response framing\<close>

text \<open>How a client reads a head: lines up to the first empty one, the rest is the body.\<close>

function read_head :: "string \<Rightarrow> string list \<times> string" where
  "read_head s =
     (let l = takeWhile (\<lambda>c. \<not> crlf_char c) s; r = drop (length l + 2) s
      in if l = [] then ([], r) else (l # fst (read_head r), snd (read_head r)))"
  by pat_completeness auto
termination
proof (relation "measure length", simp)
  fix s l r :: string
  assume "l = takeWhile (\<lambda>c. \<not> crlf_char c) s" and "r = drop (length l + 2) s" and "l \<noteq> []"
  moreover from this have "s \<noteq> []" by auto
  ultimately show "(r, s) \<in> measure length" by simp
  then show "(r, s) \<in> measure length" .
qed

declare read_head.simps [simp del]

lemma crlf_char_crlf [simp]: "crlf_char (CHR 0x0D)" "crlf_char (CHR 0x0A)"
  by (simp_all add: crlf_char_def)

lemma read_head_line:
  assumes "crlf_free l" and "l \<noteq> []"
  shows "read_head (l @ crlf @ s) = (l # fst (read_head s), snd (read_head s))"
proof -
  have "takeWhile (\<lambda>c. \<not> crlf_char c) (l @ crlf @ s) = l"
    using assms(1) by (auto simp: crlf_free_def crlf_def takeWhile_append)
  with assms(2) show ?thesis by (subst read_head.simps) (simp add: crlf_def)
qed

lemma read_head_end: "read_head (crlf @ b) = ([], b)"
  by (subst read_head.simps) (simp add: crlf_def)

lemma read_head_lines:
  "list_all crlf_free ls \<Longrightarrow> [] \<notin> set ls \<Longrightarrow>
   read_head (concat (map (\<lambda>l. l @ crlf) ls) @ crlf @ b) = (ls, b)"
  by (induction ls) (auto simp: read_head_line read_head_end)

definition response_lines :: "response \<Rightarrow> string list" where
  "response_lines r =
     [''HTTP/1.1 '' @ int_dec (status_code r) @ '' '' @ reason_phrase (status_code r),
      ''Content-Length: '' @ nat_dec (if sendfile_path r = [] then length (res_body r) else sendfile_size r)]
     @ map (\<lambda>(k, v). k @ '': '' @ v) (res_headers r) @ map (\<lambda>c. ''Set-Cookie: '' @ c) (res_cookies r)"

definition fields_clean :: "(string \<times> string) list \<Rightarrow> bool" where
  "fields_clean hs \<longleftrightarrow> (\<forall>(k, v) \<in> set hs. crlf_free k \<and> crlf_free v)"

definition headers_clean :: "response \<Rightarrow> bool" where
  "headers_clean r \<longleftrightarrow> fields_clean (res_headers r) \<and> list_all crlf_free (res_cookies r)"

lemma res_build_lines:
  "res_build r = concat (map (\<lambda>l. l @ crlf) (response_lines r)) @ crlf
     @ (if sendfile_path r = [] then res_body r else [])"
proof -
  have "concat (map (\<lambda>l. l @ crlf) (map (\<lambda>(k, v). k @ '': '' @ v) hs))
      = concat (map (\<lambda>(k, v). k @ '': '' @ v @ crlf) hs)" for hs
    by (induction hs) auto
  moreover have "concat (map (\<lambda>l. l @ crlf) (map (\<lambda>c. ''Set-Cookie: '' @ c) cs))
      = concat (map (\<lambda>c. ''Set-Cookie: '' @ c @ crlf) cs)" for cs
    by (induction cs) auto
  ultimately show ?thesis
    by (simp add: res_build_def Let_def status_line_def response_lines_def header_lines_def comp_def del: map_map)
qed

lemma crlf_free_reason [simp]: "crlf_free (reason_phrase code)"
proof -
  have "list_all (\<lambda>(c, t). crlf_free t) table \<Longrightarrow> map_of table code = Some t \<Longrightarrow> crlf_free t"
    for table and t
    by (auto simp: list_all_iff dest!: map_of_SomeD)
  then show ?thesis
    unfolding reason_phrase_def
    by (auto simp: crlf_char_def simp del: map_of.simps split: option.splits)
qed

lemma fields_clean_put [simp]:
  "fields_clean hs \<Longrightarrow> crlf_free k \<Longrightarrow> crlf_free v \<Longrightarrow> fields_clean (al_put k v hs)"
  unfolding fields_clean_def by (induction k v hs rule: al_put.induct) (auto split: if_splits)

lemmas response_defs = res_status_def res_header_def res_cookie_def clear_cookie_def res_text_def json_text_def
  res_send_def json_error_def res_html_def send_file_def send_file_known_def take_body_def restore_body_def
  mark_sse_started_def mark_ws_started_def set_templates_dir_def

lemma headers_clean_new [wf_intros]: "headers_clean new_response"
  by (simp add: headers_clean_def fields_clean_def new_response_def)

lemma headers_clean_apply [wf_intros]: "headers_clean r \<Longrightarrow> headers_clean (res_apply fs op r)"
  by (cases op) (auto simp: headers_clean_def response_defs Let_def crlf_char_def split: option.splits)

lemma headers_clean_ops: "headers_clean r \<Longrightarrow> headers_clean (fold (res_apply fs) ops r)"
  by (induction ops arbitrary: r) (auto intro: wf_intros)

lemma response_lines_clean:
  "headers_clean r \<Longrightarrow> list_all crlf_free (response_lines r) \<and> [] \<notin> set (response_lines r)"
  by (auto simp: headers_clean_def fields_clean_def response_lines_def list_all_iff crlf_char_def)

text \<open>No response splitting: whatever sequence of calls a handler makes with whatever
  strings, a client that reads the built bytes line by line up to the first empty line finds
  exactly the status line, the content length, the headers and the cookies set, each whole on
  its own line, and behind them the body.\<close>

theorem response_framing:
  fixes fs :: file_system and ops :: "res_op list"
  defines "r \<equiv> fold (res_apply fs) ops new_response"
  shows "read_head (res_build r) = (response_lines r, if sendfile_path r = [] then res_body r else [])"
proof -
  have "headers_clean r" unfolding r_def by (intro headers_clean_ops wf_intros)
  from response_lines_clean [OF this] show ?thesis
    by (simp add: res_build_lines read_head_lines)
qed

section \<open>Serving files from a directory\<close>

lemma mismatch_exhausted_True: "mismatch_exhausted rs fs = Some True \<longleftrightarrow> (\<exists>t. fs = rs @ t)"
  by (induction rs fs rule: mismatch_exhausted.induct) auto

lemma mismatch_exhausted_None: "mismatch_exhausted rs fs = None \<longleftrightarrow> (\<exists>t. t \<noteq> [] \<and> rs = fs @ t)"
  by (induction rs fs rule: mismatch_exhausted.induct) auto

text \<open>C26. Only files below the root are served: the file sent by \<open>serve_file_from\<close> is the
  canonical form of the requested path and its components extend those of the canonical root;
  the comparison is undefined (it reads past the end of the path) exactly when the requested
  path resolves to a proper ancestor of the root, as \<open>".."\<close> does.\<close>

theorem serve_file_confined:
  assumes "fs_canonical fs root = Some croot"
    and "fs_canonical fs (path_join croot user_path) = Some cfile"
  shows "(serve_file_from fs root user_path r = None
        \<longleftrightarrow> (\<exists>t. t \<noteq> [] \<and> path_comps croot = path_comps cfile @ t))
    \<and> (\<forall>r'. serve_file_from fs root user_path r = Some r' \<and> sendfile_path r' \<noteq> sendfile_path r
        \<longrightarrow> sendfile_path r' = cfile \<and> (\<exists>t. path_comps cfile = path_comps croot @ t))"
proof (cases "mismatch_exhausted (path_comps croot) (path_comps cfile)")
  case None
  with assms show ?thesis
    using mismatch_exhausted_None [of "path_comps croot" "path_comps cfile"]
    by (simp add: serve_file_from_def)
next
  case (Some b)
  then have "\<not> (\<exists>t. t \<noteq> [] \<and> path_comps croot = path_comps cfile @ t)"
    using mismatch_exhausted_None [of "path_comps croot" "path_comps cfile"] by simp
  moreover have "b \<Longrightarrow> \<exists>t. path_comps cfile = path_comps croot @ t"
    using mismatch_exhausted_True [of "path_comps croot" "path_comps cfile"] Some by simp
  ultimately show ?thesis
    using assms Some
    by (cases b) (auto simp: serve_file_from_def send_file_def json_error_def split: option.splits if_splits)
qed

definition tree_fs :: file_system where
  "tree_fs = \<lparr>fs_read = (\<lambda>_. None), fs_size = (\<lambda>_. Some 1),
     fs_canonical = (\<lambda>p. map_of [(''up'', ''/srv/up''), (''/srv/up/a'', ''/srv/up/a''), (''/srv/up/..'', ''/srv'')] p)\<rparr>"

lemma serve_file_confined_witness:
  "serve_file_from tree_fs ''up'' ''..'' new_response = None
    \<and> sendfile_path (the (serve_file_from tree_fs ''up'' ''a'' new_response)) = ''/srv/up/a''"
  using serve_file_confined [of tree_fs "''up''" "''/srv/up''" "''..''" "''/srv''" new_response]
    serve_file_confined [of tree_fs "''up''" "''/srv/up''" "''a''" "''/srv/up/a''" new_response]
  by (simp add: tree_fs_def path_join_def serve_file_from_def path_comps_def getline_all.simps send_file_def new_response_def)

end
