(* ===== verification/Multipart.thy ===== *)
theory Multipart
  imports Http
begin

text \<open>
  The multipart/form-data parser (multipart.hpp): boundary extraction, the scan for
  delimiters and the header block of each part.
\<close>

section \<open>The parser\<close>

record part =
  pt_name :: string
  pt_filename :: string
  pt_content_type :: string
  pt_body :: string
  pt_headers :: "(string \<times> string) list"

definition kMaxMultipartParts :: nat where
  "kMaxMultipartParts = 256"

text \<open>The boundary parameter of the content type, quoted or not.\<close>

definition boundary_of :: "string \<Rightarrow> string option" where
  "boundary_of ct =
     (if take 19 ct \<noteq> ''multipart/form-data'' then None
      else case find_sub ''boundary='' ct of
             None \<Rightarrow> None
           | Some b \<Rightarrow>
               (let s = dropWhile (\<lambda>c. c = CHR '' '') (drop (b + 9) ct);
                    quoted = (s \<noteq> [] \<and> hd s = CHR 0x22);
                    val = (if quoted then takeWhile (\<lambda>c. c \<noteq> CHR 0x22) (tl s)
                           else takeWhile (\<lambda>c. c \<noteq> CHR '';'' \<and> c \<noteq> CHR '' '' \<and> c \<noteq> CHR 0x0D) s)
                in if val = [] \<or> length val > 70 then None else Some val))"

text \<open>
  \<open>extract(attr)\<close>: the value of a parameter of the Content-Disposition header, found at an
  occurrence of its name that starts the value or follows a semicolon.
\<close>

definition at_boundary :: "string \<Rightarrow> nat \<Rightarrow> bool" where
  "at_boundary val p \<longleftrightarrow> p = 0 \<or>
     (let before = dropWhile blank_char (rev (take p val)) in before \<noteq> [] \<and> hd before = CHR '';'')"

definition attr_value :: "string \<Rightarrow> string" where
  "attr_value s =
     (if s \<noteq> [] \<and> hd s = CHR 0x22 then
        (case find_index (\<lambda>c. c = CHR 0x22) (tl s) of None \<Rightarrow> [] | Some q \<Rightarrow> take q (tl s))
      else takeWhile (\<lambda>c. c \<noteq> CHR '';'' \<and> c \<noteq> CHR '' '' \<and> \<not> crlf_char c \<and> c \<noteq> CHR 0x09) s)"

function extract_from :: "string \<Rightarrow> string \<Rightarrow> nat \<Rightarrow> string" where
  "extract_from val attr pos =
     (if pos < length val then
        (case find_sub_from attr pos val of
           None \<Rightarrow> []
         | Some p \<Rightarrow>
             (let after = p + length attr
              in if at_boundary val p \<and> after < length val \<and> val ! after = CHR ''=''
                 then attr_value (drop (after + 1) val)
                 else extract_from val attr (p + 1)))
      else [])"
  by pat_completeness auto
termination
  by (relation "measure (\<lambda>(val, attr, pos). length val - pos)") (auto dest: find_sub_from_bounds)

declare extract_from.simps [simp del]

definition extract_attr :: "string \<Rightarrow> string \<Rightarrow> string" where
  "extract_attr val attr = extract_from val attr 0"

definition safe_filename :: "string \<Rightarrow> string" where
  "safe_filename s = map (\<lambda>c. if c = CHR ''/'' \<or> c = CHR 0x5C then CHR ''_'' else c) s"

text \<open>One line of the header block of a part.\<close>

definition part_header :: "string \<Rightarrow> part \<Rightarrow> part" where
  "part_header hline0 p =
     (let hline = (if hline0 \<noteq> [] \<and> last hline0 = CHR 0x0D then butlast hline0 else hline0)
      in if hline = [] then p
         else case find_index (\<lambda>c. c = CHR '':'') hline of
                None \<Rightarrow> p
              | Some colon \<Rightarrow>
                  (let key = map to_lower (take colon hline);
                       val = dropWhile blank_char (drop (colon + 1) hline);
                       p1 = (if key = ''content-disposition''
                             then p\<lparr>pt_name := extract_attr val ''name'', pt_filename := safe_filename (extract_attr val ''filename'')\<rparr>
                             else if key = ''content-type'' then p\<lparr>pt_content_type := val\<rparr>
                             else p)
                   in p1\<lparr>pt_headers := al_put key val (pt_headers p1)\<rparr>))"

definition parse_part :: "string \<Rightarrow> string \<Rightarrow> part" where
  "parse_part hdr_block part_body =
     fold part_header (getline_all (CHR 0x0A) hdr_block)
       \<lparr>pt_name = [], pt_filename = [], pt_content_type = [], pt_body = part_body, pt_headers = []\<rparr>"

text \<open>The loop over the parts; its position is the rest of the body.\<close>

function parts_loop :: "string \<Rightarrow> string \<Rightarrow> part list \<Rightarrow> part list" where
  "parts_loop delim s parts =
     (if s = [] then parts
      else let next_delim = crlf @ delim
           in case find_sub next_delim s of
                None \<Rightarrow> parts
              | Some e \<Rightarrow>
                  (let view = take e s
                   in case find_sub (crlf @ crlf) view of
                        None \<Rightarrow> parts
                      | Some blank \<Rightarrow>
                          (let parts' = parts @ [parse_part (take blank view) (drop (blank + 4) view)];
                               s' = drop (e + length next_delim) s
                           in if length parts' \<ge> kMaxMultipartParts then parts'
                              else if take 2 s' = ''--'' then parts'
                              else if take 2 s' = crlf then parts_loop delim (drop 2 s') parts'
                              else parts_loop delim s' parts')))"
  by pat_completeness auto
termination
  by (relation "measure (\<lambda>(delim, s, parts). length s)") (auto simp: crlf_def)

declare parts_loop.simps [simp del]

definition parse_multipart :: "request \<Rightarrow> part list option" where
  "parse_multipart req =
     (case req_header ''content-type'' req of
        None \<Rightarrow> None
      | Some ct \<Rightarrow>
          (case boundary_of ct of
             None \<Rightarrow> None
           | Some boundary \<Rightarrow>
               (let delim = ''--'' @ boundary
                in case find_sub delim (rq_body req) of
                     None \<Rightarrow> None
                   | Some p \<Rightarrow>
                       (let s = drop (p + length delim) (rq_body req)
                        in Some (parts_loop delim (if take 2 s = crlf then drop 2 s else s) [])))))"

section \<open>What a client writes is what the parser reads\<close>

lemma find_sub_append: "find_sub pat s = Some i \<Longrightarrow> find_sub pat (s @ t) = Some i"
proof (induction s arbitrary: i)
  case Nil
  then have "pat = []" "i = 0" by (auto split: if_splits)
  then show ?case by (cases t) auto
next
  case (Cons x xs)
  show ?case
  proof (cases "take (length pat) (x # xs) = pat")
    case True
    then have "length pat \<le> length (x # xs)" by (metis length_take min.cobounded1)
    then have "take (length pat) (x # xs @ t) = take (length pat) (x # xs)"
      by (metis append_Cons append.right_neutral diff_is_0_eq' take0 take_append)
    with True Cons.prems show ?thesis by simp
  next
    case False
    with Cons.prems obtain k where k: "i = Suc k" "find_sub pat xs = Some k" by auto
    have "take (length pat) (x # xs @ t) \<noteq> pat"
    proof
      assume hit: "take (length pat) (x # xs @ t) = pat"
      have "k + length pat \<le> length xs" using k(2) by (rule find_sub_bound)
      then have "take (length pat) (x # xs @ t) = take (length pat) (x # xs)"
        by (simp add: take_Cons' split: if_splits)
      with hit False show False by simp
    qed
    with k Cons.IH show ?thesis by simp
  qed
qed

text \<open>A character foreign to the pattern separates the search.\<close>

lemma find_sub_foreign:
  assumes "d \<notin> set pat" and "pat \<noteq> []"
  shows "find_sub pat (x @ d # y) =
    (case find_sub pat x of Some i \<Rightarrow> Some i | None \<Rightarrow> map_option (\<lambda>i. length x + 1 + i) (find_sub pat y))"
proof (induction x)
  case Nil
  have "take (length pat) (d # y) \<noteq> pat"
    using assms by (metis in_set_takeD length_greater_0_conv list.set_intros(1) take_Cons' not_gr_zero)
  then show ?case using assms by (cases "find_sub pat y") auto
next
  case (Cons c x)
  show ?case
  proof (cases "take (length pat) (c # x) = pat")
    case True
    then have "find_sub pat (c # x) = Some 0" by simp
    then show ?thesis using find_sub_append [of pat "c # x" 0 "d # y"] by simp
  next
    case False
    have "take (length pat) (c # x @ d # y) \<noteq> pat"
    proof
      assume hit: "take (length pat) (c # x @ d # y) = pat"
      show False
      proof (cases "length pat \<le> length (c # x)")
        case True
        then have "take (length pat) ((c # x) @ d # y) = take (length pat) (c # x)" by (subst take_append) simp
        with hit False show False by simp
      next
        case False
        then have "take (length pat) ((c # x) @ d # y) = (c # x) @ take (length pat - length (c # x)) (d # y)"
          by (simp only: take_append) simp
        moreover have "d \<in> set (take (length pat - length (c # x)) (d # y))"
          using False by (cases "length pat - length (c # x)") auto
        ultimately have "d \<in> set pat" using hit by (metis Un_iff append_Cons set_append)
        with assms(1) show False ..
      qed
    qed
    with False Cons.IH show ?thesis
      by (cases "find_sub pat x"; cases "find_sub pat y") auto
  qed
qed

lemma find_sub_fresh_head:
  assumes "hd pat \<notin> set x" and "pat \<noteq> []"
  shows "find_sub pat (x @ pat @ y) = Some (length x)"
  using assms
proof (induction x)
  case Nil
  then show ?case by (cases pat) auto
next
  case (Cons c x)
  have "take (length pat) (c # x @ pat @ y) \<noteq> pat"
    using Cons.prems by (cases pat) auto
  with Cons show ?case by simp
qed

text \<open>A field of a form as a client sends it: an ordinary one, or a file with its type.\<close>

record form_field =
  ff_name :: string
  ff_file :: "(string \<times> string) option"
  ff_body :: string

definition disposition :: "form_field \<Rightarrow> string" where
  "disposition f = ''form-data; name='' @ CHR 0x22 # ff_name f @ CHR 0x22 #
     (case ff_file f of None \<Rightarrow> [] | Some (fn, ct) \<Rightarrow> ''; filename='' @ CHR 0x22 # fn @ [CHR 0x22])"

definition field_head :: "form_field \<Rightarrow> string" where
  "field_head f = ''Content-Disposition: '' @ disposition f
     @ (case ff_file f of None \<Rightarrow> [] | Some (fn, ct) \<Rightarrow> crlf @ ''Content-Type: '' @ ct)"

definition field_text :: "form_field \<Rightarrow> string" where
  "field_text f = field_head f @ crlf @ crlf @ ff_body f"

definition multipart_body :: "string \<Rightarrow> form_field list \<Rightarrow> string" where
  "multipart_body delim fs = concat (map (\<lambda>f. delim @ crlf @ field_text f @ crlf) fs) @ delim @ ''--'' @ crlf"

definition token_text :: "string \<Rightarrow> bool" where
  "token_text s \<longleftrightarrow> (\<forall>c \<in> set s. c \<noteq> CHR 0x22 \<and> \<not> crlf_char c)"

definition field_ok :: "string \<Rightarrow> form_field \<Rightarrow> bool" where
  "field_ok delim f \<longleftrightarrow>
     token_text (ff_name f) \<and> find_sub ''filename'' (ff_name f) = None
     \<and> (case ff_file f of None \<Rightarrow> True
        | Some (fn, ct) \<Rightarrow> token_text fn \<and> crlf_free ct \<and> (ct = [] \<or> \<not> blank_char (hd ct)))
     \<and> find_sub (crlf @ delim) (field_text f @ crlf @ delim) = Some (length (field_text f))"

definition part_view :: "part \<Rightarrow> string \<times> string \<times> string \<times> string" where
  "part_view p = (pt_name p, pt_filename p, pt_content_type p, pt_body p)"

definition field_view :: "form_field \<Rightarrow> string \<times> string \<times> string \<times> string" where
  "field_view f = (ff_name f, (case ff_file f of None \<Rightarrow> [] | Some (fn, ct) \<Rightarrow> safe_filename fn),
     (case ff_file f of None \<Rightarrow> [] | Some (fn, ct) \<Rightarrow> ct), ff_body f)"

lemma find_index_token: "token_text n \<Longrightarrow> find_index (\<lambda>c. c = CHR 0x22) (n @ CHR 0x22 # y) = Some (length n)"
  by (rule find_index_sep) (auto simp: token_text_def)

lemma attr_value_quoted: "token_text n \<Longrightarrow> attr_value (CHR 0x22 # n @ CHR 0x22 # y) = n"
  by (simp add: attr_value_def find_index_token)

lemma extract_attr_at:
  assumes "find_sub attr val = Some p" and "at_boundary val p"
    and "drop (p + length attr) val = CHR ''='' # w"
  shows "extract_attr val attr = attr_value w"
proof -
  have after: "p + length attr < length val"
    using assms(3) by (metis drop_eq_Nil linorder_not_le list.distinct(1))
  then have "val ! (p + length attr) = CHR ''=''" and w: "drop (p + length attr + 1) val = w"
    using assms(3) by (metis Cons_nth_drop_Suc list.inject, metis Cons_nth_drop_Suc Suc_eq_plus1 list.inject)
  moreover have "val \<noteq> []" using after by auto
  ultimately show ?thesis
    using after assms(1,2) unfolding extract_attr_def
    by (subst extract_from.simps) (simp add: find_sub_from_def)
qed

lemma extract_attr_absent: "find_sub attr val = None \<Longrightarrow> extract_attr val attr = []"
  unfolding extract_attr_def by (subst extract_from.simps) (simp add: find_sub_from_def)

lemma extract_name:
  assumes "token_text (ff_name f)"
  shows "extract_attr (disposition f) ''name'' = ff_name f"
proof -
  obtain z where z: "disposition f = ''form-data; name='' @ CHR 0x22 # ff_name f @ CHR 0x22 # z"
    unfolding disposition_def by blast
  have "find_sub ''name'' ''form-data; name='' = Some 11" by simp
  then have "find_sub ''name'' (disposition f) = Some 11" unfolding z by (rule find_sub_append)
  moreover have "at_boundary (disposition f) 11"
    by (simp add: z at_boundary_def blank_char_def)
  ultimately have "extract_attr (disposition f) ''name'' = attr_value (CHR 0x22 # ff_name f @ CHR 0x22 # z)"
    by (rule extract_attr_at) (simp add: z)
  then show ?thesis by (simp add: attr_value_quoted [OF assms])
qed

lemma find_filename:
  assumes "find_sub ''filename'' n = None"
  shows "find_sub ''filename'' (''form-data; name='' @ CHR 0x22 # n @ CHR 0x22 # y)
    = map_option (\<lambda>i. 18 + length n + i) (find_sub ''filename'' y)"
proof -
  have a: "find_sub ''filename'' ''form-data; name='' = None" by simp
  have "find_sub ''filename'' (n @ CHR 0x22 # y) = map_option (\<lambda>i. length n + 1 + i) (find_sub ''filename'' y)"
    using find_sub_foreign [of "CHR 0x22" "''filename''" n y] assms
    by (cases "find_sub ''filename'' y") simp_all
  with a find_sub_foreign [of "CHR 0x22" "''filename''" "''form-data; name=''" "n @ CHR 0x22 # y"]
  show ?thesis by (cases "find_sub ''filename'' y") (simp_all del: find_sub.simps)
qed

lemma extract_filename:
  assumes "find_sub ''filename'' (ff_name f) = None"
    and "\<And>fn ct. ff_file f = Some (fn, ct) \<Longrightarrow> token_text fn"
  shows "extract_attr (disposition f) ''filename''
    = (case ff_file f of None \<Rightarrow> [] | Some (fn, ct) \<Rightarrow> fn)"
proof (cases "ff_file f")
  case None
  then show ?thesis
    by (simp add: disposition_def extract_attr_absent find_filename [OF assms(1), simplified])
next
  case (Some p)
  obtain fn ct where p: "p = (fn, ct)" by (cases p)
  let ?w = "CHR 0x22 # fn @ [CHR 0x22]"
  have d: "disposition f = (''form-data; name='' @ CHR 0x22 # ff_name f @ [CHR 0x22]) @ ''; filename='' @ ?w"
    using Some p by (simp add: disposition_def)
  have s: "find_sub ''filename'' (''; filename='' @ ?w) = Some 2" by simp
  have "find_sub ''filename'' (disposition f) = Some (20 + length (ff_name f))"
    using find_filename [OF assms(1), of "''; filename='' @ ?w"] unfolding s by (simp add: d)
  moreover have "at_boundary (disposition f) (20 + length (ff_name f))"
  proof -
    have "take (20 + length (ff_name f)) (disposition f)
        = (''form-data; name='' @ CHR 0x22 # ff_name f @ [CHR 0x22]) @ ''; ''"
      unfolding d by (subst take_append) simp
    then show ?thesis by (simp add: at_boundary_def blank_char_def)
  qed
  ultimately have "extract_attr (disposition f) ''filename'' = attr_value ?w"
  proof (rule extract_attr_at)
    let ?A = "''form-data; name='' @ CHR 0x22 # ff_name f @ [CHR 0x22]"
    have "length ?A = 18 + length (ff_name f)" by simp
    then have "drop (20 + length (ff_name f) + length ''filename'') (?A @ ''; filename='' @ ?w)
        = drop 10 (''; filename='' @ ?w)"
      by (simp only: drop_append) simp
    then show "drop (20 + length (ff_name f) + length ''filename'') (disposition f) = CHR ''='' # ?w"
      unfolding d by simp
  qed
  with assms(2) [of fn ct] Some p show ?thesis by (simp add: attr_value_quoted [of fn "[]", simplified])
qed

lemma crlf_free_token: "token_text s \<Longrightarrow> crlf_free s"
  by (auto simp: token_text_def crlf_free_def)

lemma crlf_free_disposition:
  "field_ok delim f \<Longrightarrow> crlf_free (disposition f)"
  by (auto simp: field_ok_def disposition_def crlf_free_token crlf_char_def split: option.splits)

lemma part_header_disposition:
  assumes "field_ok delim f" and "e = [] \<or> e = [CHR 0x0D]"
  shows "part_header (''Content-Disposition: '' @ disposition f @ e) p
    = p\<lparr>pt_name := ff_name f,
        pt_filename := (case ff_file f of None \<Rightarrow> [] | Some (fn, ct) \<Rightarrow> safe_filename fn),
        pt_headers := al_put ''content-disposition'' (disposition f) (pt_headers p)\<rparr>"
proof -
  let ?l = "''Content-Disposition: '' @ disposition f"
  have "disposition f \<noteq> []" by (simp add: disposition_def)
  then have "last (disposition f) \<noteq> CHR 0x0D"
    using crlf_free_disposition [OF assms(1)] last_in_set [of "disposition f"]
    by (metis crlf_char_crlf(1) crlf_free_def)
  then have trim: "(if (?l @ e) \<noteq> [] \<and> last (?l @ e) = CHR 0x0D then butlast (?l @ e) else ?l @ e) = ?l"
    using assms(2) \<open>disposition f \<noteq> []\<close> by (auto simp: butlast_append)
  have colon: "find_index (\<lambda>c. c = CHR '':'') ?l = Some 19" by simp
  have key: "map to_lower (take 19 ?l) = ''content-disposition''"
    by (simp add: to_lower_def is_upper_def) code_simp
  have val: "dropWhile blank_char (drop (19 + 1) ?l) = disposition f"
    by (simp add: blank_char_def disposition_def)
  have names: "extract_attr (disposition f) ''name'' = ff_name f"
    "safe_filename (extract_attr (disposition f) ''filename'')
      = (case ff_file f of None \<Rightarrow> [] | Some (fn, ct) \<Rightarrow> safe_filename fn)"
    using assms(1) extract_name extract_filename [of f]
    by (auto simp: field_ok_def safe_filename_def split: option.splits)
  show ?thesis
    unfolding part_header_def Let_def append.assoc [symmetric] trim
    by (simp only: colon option.case key val names) simp
qed


lemma part_header_type:
  assumes "crlf_free ct" and "ct = [] \<or> \<not> blank_char (hd ct)"
  shows "part_header (''Content-Type: '' @ ct) p
    = p\<lparr>pt_content_type := ct, pt_headers := al_put ''content-type'' ct (pt_headers p)\<rparr>"
proof -
  let ?l = "''Content-Type: '' @ ct"
  have "last ?l \<noteq> CHR 0x0D"
    using assms(1) last_in_set [of ct] by (cases "ct = []") (auto simp: crlf_free_def crlf_char_def)
  then have trim: "(if ?l \<noteq> [] \<and> last ?l = CHR 0x0D then butlast ?l else ?l) = ?l" by simp
  have colon: "find_index (\<lambda>c. c = CHR '':'') ?l = Some 12" by simp
  have key: "map to_lower (take 12 ?l) = ''content-type''"
    by (simp add: to_lower_def is_upper_def) code_simp
  have val: "dropWhile blank_char (drop (12 + 1) ?l) = ct"
    using assms(2) by (cases ct) (simp_all add: blank_char_def)
  have "?l \<noteq> []" by simp
  then show ?thesis
    unfolding part_header_def Let_def trim
    by (simp only: if_False colon option.case key val) simp
qed

lemma crlf_free_newline: "crlf_free s \<Longrightarrow> CHR 0x0A \<notin> set s \<and> CHR 0x0D \<notin> set s"
  by (auto simp: crlf_free_def)

lemma part_view_parse:
  assumes "field_ok delim f"
  shows "part_view (parse_part (field_head f) (ff_body f)) = field_view f"
proof (cases "ff_file f")
  case None
  have "CHR 0x0A \<notin> set (''Content-Disposition: '' @ disposition f)"
    using crlf_free_newline [OF crlf_free_disposition [OF assms]] by simp
  then have "getline_all (CHR 0x0A) (field_head f) = [''Content-Disposition: '' @ disposition f @ []]"
    using None by (simp add: field_head_def)
  with None show ?thesis
    by (simp only: parse_part_def fold.simps part_header_disposition [OF assms disjI1 [OF refl]] id_comp comp_id)
      (simp add: part_view_def field_view_def)
next
  case (Some p)
  obtain fn ct where p: "p = (fn, ct)" by (cases p)
  have ct: "crlf_free ct" "ct = [] \<or> \<not> blank_char (hd ct)"
    using assms Some p by (simp_all add: field_ok_def)
  let ?d = "''Content-Disposition: '' @ disposition f @ [CHR 0x0D]"
  have d: "CHR 0x0A \<notin> set ?d"
    using crlf_free_newline [OF crlf_free_disposition [OF assms]] by simp
  have t: "CHR 0x0A \<notin> set (''Content-Type: '' @ ct)"
    using crlf_free_newline [OF ct(1)] by simp
  have "field_head f = ?d @ CHR 0x0A # ''Content-Type: '' @ ct"
    using Some p by (simp add: field_head_def crlf_def)
  then have "getline_all (CHR 0x0A) (field_head f) = [?d, ''Content-Type: '' @ ct]"
    using getline_all_app [OF d] getline_all_no_delim [OF t] by simp
  with Some p show ?thesis
    by (simp only: parse_part_def fold.simps part_header_disposition [OF assms disjI2 [OF refl]]
        part_header_type [OF ct] comp_apply id_apply)
      (simp add: part_view_def field_view_def)
qed

lemma find_blank_line:
  assumes "field_ok delim f"
  shows "find_sub (crlf @ crlf) (field_text f) = Some (length (field_head f))"
proof (cases "ff_file f")
  case None
  have "hd (crlf @ crlf) \<notin> set (field_head f)"
    using crlf_free_newline [OF crlf_free_disposition [OF assms]] None by (simp add: field_head_def crlf_def)
  from find_sub_fresh_head [OF this] show ?thesis by (simp add: field_text_def crlf_def)
next
  case (Some p)
  obtain fn ct where p: "p = (fn, ct)" by (cases p)
  have "crlf_free ct" using assms Some p by (simp add: field_ok_def)
  let ?d = "''Content-Disposition: '' @ disposition f"
  let ?t = "''Content-Type: '' @ ct"
  have d: "CHR 0x0D \<notin> set ?d" "CHR 0x0D \<notin> set ?t"
    using crlf_free_newline [OF crlf_free_disposition [OF assms]] crlf_free_newline [OF \<open>crlf_free ct\<close>] by simp_all
  have ft: "field_text f = ?d @ crlf @ ?t @ (crlf @ crlf) @ ff_body f"
    using Some p by (simp add: field_text_def field_head_def)
  have skip: "find_sub (crlf @ crlf) (x @ s) = map_option (\<lambda>i. length x + i) (find_sub (crlf @ crlf) s)"
    if "CHR 0x0D \<notin> set x" for x s
    using that by (induction x; cases "find_sub (crlf @ crlf) s") (auto simp: crlf_def)
  have "find_sub (crlf @ crlf) (?t @ (crlf @ crlf) @ ff_body f) = Some (length ?t)"
    by (rule find_sub_fresh_head) (use d in \<open>simp_all add: crlf_def\<close>)
  then have "find_sub (crlf @ crlf) (crlf @ ?t @ (crlf @ crlf) @ ff_body f) = Some (length ?t + 2)"
    by (simp add: crlf_def)
  then have "find_sub (crlf @ crlf) (field_text f) = Some (length ?d + (length ?t + 2))"
    by (simp only: ft skip [OF d(1)] option.map)
  moreover have "length (field_head f) = length ?d + (length ?t + 2)"
    using Some p by (simp add: field_head_def crlf_def)
  ultimately show ?thesis by simp
qed


text \<open>One turn of the loop on a field, and the whole loop on the rest of the body.\<close>

lemma parts_loop_field:
  assumes "field_ok delim f" and "delim \<noteq> []"
  shows "parts_loop delim (field_text f @ crlf @ delim @ s') parts =
    (let parts' = parts @ [parse_part (field_head f) (ff_body f)]
     in if length parts' \<ge> kMaxMultipartParts then parts'
        else if take 2 s' = ''--'' then parts'
        else if take 2 s' = crlf then parts_loop delim (drop 2 s') parts'
        else parts_loop delim s' parts')"
proof -
  have ne: "field_text f @ crlf @ delim @ s' \<noteq> []" by (simp add: crlf_def)
  have at: "find_sub (crlf @ delim) (field_text f @ crlf @ delim @ s') = Some (length (field_text f))"
    using assms(1) find_sub_append [of "crlf @ delim" "field_text f @ crlf @ delim" "length (field_text f)" s']
    by (simp add: field_ok_def)
  have view: "take (length (field_text f)) (field_text f @ crlf @ delim @ s') = field_text f" by simp
  have rest: "drop (length (field_text f) + length (crlf @ delim)) (field_text f @ crlf @ delim @ s') = s'"
    by simp
  have head: "take (length (field_head f)) (field_text f) = field_head f"
    "drop (length (field_head f) + 4) (field_text f) = ff_body f"
    by (simp_all add: field_text_def crlf_def)
  show ?thesis
    by (subst parts_loop.simps)
      (simp only: Let_def ne if_False at option.case view find_blank_line [OF assms(1)] rest head)
qed

lemma multipart_body_Cons:
  "multipart_body delim (f # fs) = delim @ crlf @ field_text f @ crlf @ multipart_body delim fs"
  by (simp add: multipart_body_def)

lemma multipart_body_delim: "\<exists>t. multipart_body delim fs = delim @ t \<and>
    (fs = [] \<longrightarrow> take 2 t = ''--'') \<and> (\<forall>f fs'. fs = f # fs' \<longrightarrow> take 2 t = crlf \<and>
       drop 2 t = field_text f @ crlf @ multipart_body delim fs')"
  by (cases fs) (auto simp: multipart_body_def crlf_def)

lemma parts_loop_fields:
  assumes "\<forall>f \<in> set (f # fs). field_ok delim f" and "delim \<noteq> []"
    and "length parts + length (f # fs) \<le> kMaxMultipartParts"
  shows "parts_loop delim (field_text f @ crlf @ multipart_body delim fs) parts
    = parts @ map (\<lambda>f. parse_part (field_head f) (ff_body f)) (f # fs)"
  using assms
proof (induction fs arbitrary: f parts)
  case Nil
  obtain t where "multipart_body delim [] = delim @ t" "take 2 t = ''--''"
    using multipart_body_delim [of delim "[]"] by blast
  with Nil show ?case by (simp add: parts_loop_field Let_def)
next
  case (Cons g fs)
  obtain t where t: "multipart_body delim (g # fs) = delim @ t" "take 2 t = crlf"
    "drop 2 t = field_text g @ crlf @ multipart_body delim fs"
    using multipart_body_delim [of delim "g # fs"] by blast
  let ?p = "parse_part (field_head f) (ff_body f)"
  have "parts_loop delim (field_text f @ crlf @ multipart_body delim (g # fs)) parts
      = parts_loop delim (drop 2 t) (parts @ [?p])"
  proof -
    have "field_ok delim f" "\<not> length (parts @ [?p]) \<ge> kMaxMultipartParts" using Cons.prems by auto
    moreover have "crlf \<noteq> ''--''" by (simp add: crlf_def)
    ultimately show ?thesis
      using t(2) parts_loop_field [OF _ Cons.prems(2), of f t parts] unfolding t(1)
      by (simp only: Let_def if_False if_True refl)
  qed
  also have "\<dots> = (parts @ [?p]) @ map (\<lambda>f. parse_part (field_head f) (ff_body f)) (g # fs)"
    unfolding t(3) by (rule Cons.IH) (use Cons.prems in auto)
  finally show ?case by simp
qed

definition boundary_ok :: "string \<Rightarrow> bool" where
  "boundary_ok b \<longleftrightarrow> b \<noteq> [] \<and> length b \<le> 70
     \<and> (\<forall>c \<in> set b. c \<noteq> CHR 0x22 \<and> c \<noteq> CHR '';'' \<and> c \<noteq> CHR '' '' \<and> \<not> crlf_char c)"

lemma boundary_of_plain:
  assumes "boundary_ok b"
  shows "boundary_of (''multipart/form-data; boundary='' @ b) = Some b"
proof -
  let ?ct = "''multipart/form-data; boundary='' @ b"
  have "find_sub ''boundary='' ''multipart/form-data; boundary='' = Some 21" by simp
  then have at: "find_sub ''boundary='' ?ct = Some 21" by (rule find_sub_append)
  have s: "dropWhile (\<lambda>c. c = CHR '' '') (drop (21 + 9) ?ct) = b"
    using assms by (cases b) (auto simp: boundary_ok_def)
  have "b \<noteq> []" "hd b \<noteq> CHR 0x22" using assms by (auto simp: boundary_ok_def)
  moreover have "takeWhile (\<lambda>c. c \<noteq> CHR '';'' \<and> c \<noteq> CHR '' '' \<and> c \<noteq> CHR 0x0D) b = b"
    using assms by (auto simp: boundary_ok_def crlf_char_def)
  moreover have "take 19 ?ct = ''multipart/form-data''" by simp
  ultimately show ?thesis
    using assms unfolding boundary_of_def Let_def
    by (simp only: at option.case s not_True_eq_False if_False simp_thms) (simp add: boundary_ok_def)
qed


definition upload :: form_field where
  "upload = \<lparr>ff_name = ''f'', ff_file = Some (''a/b'', ''t''), ff_body = ''x''\<rparr>"


end
