(* ===== verification/Sse.thy ===== *)
theory Sse
  imports Http
begin

text \<open>
  Server-sent events (sse.hpp): the frame of an event, the write loop over a socket that may
  take part of the bytes or none, and the header exchange that starts the stream.  What the
  socket answers to each write is a list given from outside.
\<close>

section \<open>The writer\<close>

text \<open>The answer of one write: a count of bytes, or \<open>-1\<close> with an \<open>errno\<close>.\<close>

datatype write_answer = Wrote nat | Eintr | Eagain | Efail

record sse_writer =
  has_writer :: bool
  token_set :: bool
  cancelled :: bool
  wire :: string

definition sse_is_open :: "sse_writer \<Rightarrow> bool" where
  "sse_is_open w \<longleftrightarrow> token_set w \<and> \<not> cancelled w"

definition sanitize_field :: "string \<Rightarrow> string" where
  "sanitize_field s = filter (\<lambda>c. c \<noteq> CHR 0x0D \<and> c \<noteq> CHR 0x0A) s"

text \<open>The loop over the lines of the data.\<close>

fun data_lines :: "string \<Rightarrow> string \<Rightarrow> string" where
  "data_lines line [] = ''data: '' @ line @ [CHR 0x0A]"
| "data_lines line (c # rem) =
     (if c = CHR 0x0A then ''data: '' @ line @ [CHR 0x0A] @ data_lines [] rem
      else data_lines (line @ [c]) rem)"

definition sse_frame :: "string \<Rightarrow> string \<Rightarrow> string \<Rightarrow> string" where
  "sse_frame event data eid =
     (if eid \<noteq> [] then ''id: '' @ sanitize_field eid @ [CHR 0x0A] else [])
     @ (if event \<noteq> [] then ''event: '' @ sanitize_field event @ [CHR 0x0A] else [])
     @ data_lines [] data @ [CHR 0x0A]"

text \<open>
  The loop of \<open>raw_write\<close> over the answers of the socket: the verdict, the bytes sent and the
  answers left.  \<open>None\<close> when the answers run out before the loop ends.
\<close>

fun write_loop :: "write_answer list \<Rightarrow> string \<Rightarrow> string \<Rightarrow> (bool \<times> string \<times> write_answer list) option" where
  "write_loop answers [] sent = Some (True, sent, answers)"
| "write_loop [] (c # rest) sent = None"
| "write_loop (a # answers) (c # rest) sent =
     (case a of
        Wrote n \<Rightarrow> if n = 0 then Some (False, sent, answers)
                   else write_loop answers (drop n (c # rest)) (sent @ take n (c # rest))
      | Eintr \<Rightarrow> write_loop answers (c # rest) sent
      | Eagain \<Rightarrow> Some (sent = [], sent, answers)
      | Efail \<Rightarrow> Some (False, sent, answers))"

definition sse_raw_write ::
  "string \<Rightarrow> write_answer list \<Rightarrow> sse_writer \<Rightarrow> (bool \<times> sse_writer \<times> write_answer list) option" where
  "sse_raw_write frame answers w =
     (if \<not> sse_is_open w then Some (False, w, answers)
      else if \<not> has_writer w then Some (False, w, answers)
      else map_option (\<lambda>(ok, sent, left). (ok, w\<lparr>wire := wire w @ sent\<rparr>, left)) (write_loop answers frame []))"

definition sse_write_frame ::
  "string \<Rightarrow> string \<Rightarrow> string \<Rightarrow> write_answer list \<Rightarrow> sse_writer \<Rightarrow> (bool \<times> sse_writer \<times> write_answer list) option" where
  "sse_write_frame event data eid answers w =
     (if \<not> sse_is_open w then Some (False, w, answers)
      else sse_raw_write (sse_frame event data eid) answers w)"

definition sse_send :: "string \<Rightarrow> write_answer list \<Rightarrow> sse_writer \<Rightarrow> (bool \<times> sse_writer \<times> write_answer list) option" where
  "sse_send data = sse_write_frame [] data []"

definition sse_send_event ::
  "string \<Rightarrow> string \<Rightarrow> string \<Rightarrow> write_answer list \<Rightarrow> sse_writer \<Rightarrow> (bool \<times> sse_writer \<times> write_answer list) option" where
  "sse_send_event event data eid = sse_write_frame event data eid"

definition sse_ping :: "string \<Rightarrow> write_answer list \<Rightarrow> sse_writer \<Rightarrow> (bool \<times> sse_writer \<times> write_answer list) option" where
  "sse_ping comment = sse_raw_write ('': '' @ comment @ [CHR 0x0A, CHR 0x0A])"

text \<open>
  \<open>make_sse\<close>: the headers of the stream are set, written past the buffer and the response is
  marked.  Unlike \<open>raw_write\<close> this loop stops at any error but \<open>EINTR\<close>.
\<close>

fun header_write_loop :: "write_answer list \<Rightarrow> string \<Rightarrow> string \<Rightarrow> (string \<times> write_answer list) option" where
  "header_write_loop answers [] sent = Some (sent, answers)"
| "header_write_loop [] (c # rest) sent = None"
| "header_write_loop (a # answers) (c # rest) sent =
     (case a of
        Wrote n \<Rightarrow> if n = 0 then Some (sent, answers)
                   else header_write_loop answers (drop n (c # rest)) (sent @ take n (c # rest))
      | Eintr \<Rightarrow> header_write_loop answers (c # rest) sent
      | _ \<Rightarrow> Some (sent, answers))"

definition sse_headers :: "response \<Rightarrow> response" where
  "sse_headers r =
     res_header ''Connection'' ''keep-alive''
       (res_header ''X-Accel-Buffering'' ''no''
         (res_header ''Cache-Control'' ''no-cache''
           (res_header ''Content-Type'' ''text/event-stream'' (res_status 200 r))))"

definition make_sse ::
  "response \<Rightarrow> bool \<Rightarrow> bool \<Rightarrow> bool \<Rightarrow> write_answer list \<Rightarrow> (response \<times> sse_writer \<times> write_answer list) option" where
  "make_sse r has_raw_write has_token is_cancelled answers =
     (let r1 = sse_headers r; w = \<lparr>has_writer = has_raw_write, token_set = has_token, cancelled = is_cancelled, wire = []\<rparr>
      in if has_raw_write then
           map_option (\<lambda>(sent, left). (mark_sse_started r1, w\<lparr>wire := sent\<rparr>, left))
             (header_write_loop answers (build_sse_headers r1) [])
         else Some (mark_sse_started r1, w, answers))"

section \<open>What the client reads\<close>

text \<open>
  The lines of an event stream as a browser splits them, at a line feed, a carriage return or
  the pair, and the fields of the event they make up.
\<close>

fun ev_lines :: "string \<Rightarrow> string \<Rightarrow> string list" where
  "ev_lines cur [] = (if cur = [] then [] else [cur])"
| "ev_lines cur (c # s) =
     (if c = CHR 0x0A then cur # ev_lines [] s
      else if c = CHR 0x0D then
        (case s of d # s' \<Rightarrow> if d = CHR 0x0A then cur # ev_lines [] s' else cur # ev_lines [] s
                 | [] \<Rightarrow> [cur])
      else ev_lines (cur @ [c]) s)"

definition ev_field :: "string \<Rightarrow> string \<Rightarrow> string option" where
  "ev_field name line = (if take (length name + 2) line = name @ '': '' then Some (drop (length name + 2) line) else None)"

definition ev_values :: "string \<Rightarrow> string list \<Rightarrow> string list" where
  "ev_values name lines = List.map_filter (ev_field name) lines"

text \<open>The first event of a stream: data lines joined by line feeds, the id and the event type.\<close>

definition ev_read :: "string \<Rightarrow> string \<times> string list \<times> string list" where
  "ev_read s =
     (let ls = takeWhile (\<lambda>l. l \<noteq> []) (ev_lines [] s)
      in (sep_by [CHR 0x0A] (ev_values ''data'' ls), ev_values ''event'' ls, ev_values ''id'' ls))"

lemma ev_lines_line: "CHR 0x0A \<notin> set l \<Longrightarrow> CHR 0x0D \<notin> set l \<Longrightarrow> ev_lines cur (l @ CHR 0x0A # s) = (cur @ l) # ev_lines [] s"
  by (induction l arbitrary: cur) auto

fun split_lines :: "string \<Rightarrow> string \<Rightarrow> string list" where
  "split_lines cur [] = [cur]"
| "split_lines cur (c # s) = (if c = CHR 0x0A then cur # split_lines [] s else split_lines (cur @ [c]) s)"

lemma data_lines_split: "data_lines cur s = concat (map (\<lambda>l. ''data: '' @ l @ [CHR 0x0A]) (split_lines cur s))"
  by (induction cur s rule: data_lines.induct) auto

lemma split_lines_not_Nil [simp]: "split_lines cur s \<noteq> []"
  by (induction cur s rule: split_lines.induct) auto

lemma sep_by_split_lines: "sep_by [CHR 0x0A] (split_lines cur s) = cur @ s"
  by (induction cur s rule: split_lines.induct) (auto simp: sep_by_Cons)

lemma crlf_free_iff: "crlf_free s \<longleftrightarrow> CHR 0x0D \<notin> set s \<and> CHR 0x0A \<notin> set s"
  unfolding crlf_free_def crlf_char_def by blast

lemma split_lines_clean:
  "CHR 0x0D \<notin> set (cur @ s) \<Longrightarrow> CHR 0x0A \<notin> set cur \<Longrightarrow> list_all crlf_free (split_lines cur s)"
  by (induction cur s rule: split_lines.induct) (simp_all add: crlf_free_iff del: crlf_free_simps)

lemma crlf_free_sanitize: "crlf_free (sanitize_field s)"
  by (auto simp: sanitize_field_def crlf_free_def crlf_char_def)

text \<open>The frame as lines.\<close>

definition frame_lines :: "string \<Rightarrow> string \<Rightarrow> string \<Rightarrow> string list" where
  "frame_lines event data eid =
     (if eid \<noteq> [] then [''id: '' @ sanitize_field eid] else [])
     @ (if event \<noteq> [] then [''event: '' @ sanitize_field event] else [])
     @ map (\<lambda>l. ''data: '' @ l) (split_lines [] data)"

lemma sse_frame_lines: "sse_frame event data eid = concat (map (\<lambda>l. l @ [CHR 0x0A]) (frame_lines event data eid)) @ [CHR 0x0A]"
  by (simp add: sse_frame_def frame_lines_def data_lines_split comp_def)

lemma ev_lines_concat:
  "list_all crlf_free ls \<Longrightarrow> ev_lines [] (concat (map (\<lambda>l. l @ [CHR 0x0A]) ls) @ s) = ls @ ev_lines [] s"
  by (induction ls) (simp_all add: ev_lines_line crlf_free_iff del: crlf_free_simps)

lemma ev_values_append [simp]: "ev_values n (xs @ ys) = ev_values n xs @ ev_values n ys"
  by (simp add: ev_values_def List.map_filter_def)

lemma ev_values_data: "ev_values ''data'' (map (\<lambda>l. ''data: '' @ l) ls) = ls"
  "ev_values ''event'' (map (\<lambda>l. ''data: '' @ l) ls) = []"
  "ev_values ''id'' (map (\<lambda>l. ''data: '' @ l) ls) = []"
  by (induction ls) (simp_all add: ev_values_def List.map_filter_def ev_field_def)

text \<open>An event reaches the browser whole: for data without carriage returns, of any number
  of lines, and any type and id, the browser reads back the data, the type and the id as sent
  (type and id less their line breaks), whatever follows in the stream.\<close>

theorem sse_event_roundtrip:
  assumes "CHR 0x0D \<notin> set data"
  shows "ev_read (sse_frame event data eid @ rest)
    = (data, if event = [] then [] else [sanitize_field event], if eid = [] then [] else [sanitize_field eid])"
proof -
  have "list_all crlf_free (frame_lines event data eid)"
    using assms split_lines_clean [of "[]" data] crlf_free_sanitize
    by (auto simp: frame_lines_def list_all_iff crlf_char_def)
  then have "ev_lines [] (sse_frame event data eid @ rest) = frame_lines event data eid @ [] # ev_lines [] rest"
    using ev_lines_concat [of "frame_lines event data eid" "[CHR 0x0A] @ rest"] by (simp add: sse_frame_lines)
  moreover have "\<forall>l \<in> set (frame_lines event data eid). l \<noteq> []" by (auto simp: frame_lines_def)
  ultimately have ls: "takeWhile (\<lambda>l. l \<noteq> []) (ev_lines [] (sse_frame event data eid @ rest)) = frame_lines event data eid"
    by (simp add: takeWhile_append)
  have one: "ev_values ''data'' [''id: '' @ x] = []" "ev_values ''event'' [''id: '' @ x] = []"
    "ev_values ''id'' [''id: '' @ x] = [x]" "ev_values ''data'' [''event: '' @ x] = []"
    "ev_values ''event'' [''event: '' @ x] = [x]" "ev_values ''id'' [''event: '' @ x] = []" for x
    by (simp_all add: ev_values_def List.map_filter_def ev_field_def)
  have nil: "ev_values n [] = []" for n by (simp add: ev_values_def List.map_filter_def)
  show ?thesis
    unfolding ev_read_def Let_def ls frame_lines_def
    by (simp only: ev_values_append ev_values_data) (simp add: one [simplified] nil sep_by_split_lines)
qed

lemma sse_event_roundtrip_witness:
  "ev_read (sse_frame ''tick'' [CHR ''a'', CHR 0x0A, CHR ''b''] ''7'')
    = ([CHR ''a'', CHR 0x0A, CHR ''b''], [''tick''], [''7''])"
  using sse_event_roundtrip [of "[CHR ''a'', CHR 0x0A, CHR ''b'']" "''tick''" "''7''" "[]"]
  by (simp add: sanitize_field_def)

text \<open>A carriage return in the data is not a line for the writer but is one for the browser.\<close>

lemma sse_carriage_return_injects:
  "ev_read (sse_frame [] (''a'' @ [CHR 0x0D] @ ''event: x'') []) = (''a'', [''x''], [])"
  by code_simp

lemma write_loop_prefix:
  "write_loop answers rest sent = Some (ok, sent', left) \<Longrightarrow>
   \<exists>k \<le> length rest. sent' = sent @ take k rest \<and> (ok \<longrightarrow> k = length rest \<or> sent' = [])"
proof (induction answers rest sent arbitrary: ok sent' left rule: write_loop.induct)
  case (3 a answers c rest sent)
  show ?case
  proof (cases a)
    case (Wrote n)
    show ?thesis
    proof (cases "n = 0")
      case True
      with 3 Wrote show ?thesis by auto
    next
      case False
      with 3 Wrote obtain k where k: "k \<le> length (drop n (c # rest))"
        "sent' = (sent @ take n (c # rest)) @ take k (drop n (c # rest))"
        "ok \<longrightarrow> k = length (drop n (c # rest)) \<or> sent' = []"
        by fastforce
      then have "sent' = sent @ take (n + k) (c # rest)" by (simp add: take_add)
      with k False show ?thesis
        by (intro exI [of _ "min (n + k) (length (c # rest))"]) (auto simp: min_def)
    qed
  qed (use 3 in auto)
qed auto

text \<open>Events are not torn while the stream lives: what a write puts on the wire is a prefix of
  the frame, and when it reports success it is the whole frame or, if the socket was full from
  the first byte, nothing.\<close>

theorem sse_write_all_or_nothing:
  assumes "sse_write_frame event data eid answers w = Some (ok, w', left)"
  shows "\<exists>sent t. wire w' = wire w @ sent \<and> sse_frame event data eid = sent @ t \<and> (ok \<longrightarrow> t = [] \<or> sent = [])"
proof (cases "sse_is_open w \<and> has_writer w")
  case False
  with assms show ?thesis
    by (auto simp: sse_write_frame_def sse_raw_write_def split: if_splits)
next
  case True
  with assms obtain sent where s: "write_loop answers (sse_frame event data eid) [] = Some (ok, sent, left)"
    and w': "w' = w\<lparr>wire := wire w @ sent\<rparr>"
    by (auto simp: sse_write_frame_def sse_raw_write_def)
  from write_loop_prefix [OF s] obtain k where "k \<le> length (sse_frame event data eid)"
    "sent = take k (sse_frame event data eid)" "ok \<longrightarrow> k = length (sse_frame event data eid) \<or> sent = []"
    by auto
  with w' show ?thesis
    by (intro exI [of _ sent] exI [of _ "drop k (sse_frame event data eid)"]) auto
qed

lemma sse_write_all_or_nothing_witness:
  "\<exists>sent t. ''data'' = [] @ sent \<and> sse_frame [] ''x'' [] = sent @ t \<and> (False \<longrightarrow> t = [] \<or> sent = [])"
  using sse_write_all_or_nothing [of "[]" "''x''" "[]" "[Wrote 4, Eagain]"
      "\<lparr>has_writer = True, token_set = True, cancelled = False, wire = []\<rparr>" False
      "\<lparr>has_writer = True, token_set = True, cancelled = False, wire = ''data''\<rparr>" "[]"]
  by (simp add: sse_write_frame_def sse_raw_write_def sse_is_open_def sse_frame_def)

end
