(* ===== verification/HttpParse.thy ===== *)
theory HttpParse
  imports Http
begin

text \<open>
  The incremental request parser (http_parser.cpp): the callbacks it hands to llhttp, the limits
  they enforce and the pausing that serialises pipelined requests.  llhttp itself is third-party
  code: what it reports for a state and a buffer is a parameter, as a list of callback events.
\<close>

section \<open>The callbacks\<close>

definition kMaxUrlSize :: nat where "kMaxUrlSize = 8 * 1024"
definition kMaxHeaderSize :: nat where "kMaxHeaderSize = 8 * 1024"
definition kMaxHeaderCount :: nat where "kMaxHeaderCount = 100"
definition kMaxBodySize :: nat where "kMaxBodySize = 16 * 1024 * 1024"

record parsed_request =
  pr_method :: string
  pr_path :: string
  pr_query :: string
  pr_version :: string
  pr_headers :: "(string \<times> string) list"
  pr_body :: string

definition empty_request :: parsed_request where
  "empty_request = \<lparr>pr_method = [], pr_path = [], pr_query = [], pr_version = [], pr_headers = [], pr_body = []\<rparr>"

record parse_context =
  current :: parsed_request
  last_field :: string
  last_value :: string
  value_pending :: bool
  header_count :: nat
  pc_error :: bool
  pc_too_large :: bool

definition new_context :: parse_context where
  "new_context = \<lparr>current = empty_request, last_field = [], last_value = [], value_pending = False,
     header_count = 0, pc_error = False, pc_too_large = False\<rparr>"

text \<open>The callbacks of llhttp with their arguments, and what they may return.\<close>

datatype ll_event =
    On_url string | On_header_field string | On_header_value string
  | On_headers_complete nat nat | On_body string | On_message_complete string

datatype hpe = HPE_OK | HPE_USER | HPE_PAUSED

definition cb_on_url :: "string \<Rightarrow> parse_context \<Rightarrow> parse_context \<times> hpe" where
  "cb_on_url at c =
     (if length (pr_path (current c)) + length at > kMaxUrlSize then (c\<lparr>pc_error := True\<rparr>, HPE_USER)
      else (c\<lparr>current := (current c)\<lparr>pr_path := pr_path (current c) @ at\<rparr>\<rparr>, HPE_OK))"

definition combine_header :: "string \<Rightarrow> string \<Rightarrow> (string \<times> string) list \<Rightarrow> (string \<times> string) list" where
  "combine_header key v hs =
     (case map_of hs key of
        Some w \<Rightarrow> al_put key (w @ (if key = ''set-cookie'' then [CHR 0x0A] else '', '') @ v) hs
      | None \<Rightarrow> al_put key v hs)"

definition commit_header :: "parse_context \<Rightarrow> parse_context" where
  "commit_header c =
     (if \<not> value_pending c then c
      else c\<lparr>current := (current c)\<lparr>pr_headers :=
                 combine_header (map to_lower (last_field c)) (last_value c) (pr_headers (current c))\<rparr>,
             last_field := [], last_value := [], value_pending := False,
             header_count := header_count c + 1\<rparr>)"

definition cb_on_header_field :: "string \<Rightarrow> parse_context \<Rightarrow> parse_context \<times> hpe" where
  "cb_on_header_field at c =
     (if value_pending c \<and> header_count c \<ge> kMaxHeaderCount then (c\<lparr>pc_error := True\<rparr>, HPE_USER)
      else let c1 = commit_header c
           in if length (last_field c1) + length at > kMaxHeaderSize then (c1\<lparr>pc_error := True\<rparr>, HPE_USER)
              else (c1\<lparr>last_field := last_field c1 @ at\<rparr>, HPE_OK))"

definition cb_on_header_value :: "string \<Rightarrow> parse_context \<Rightarrow> parse_context \<times> hpe" where
  "cb_on_header_value at c =
     (if length (last_value c) + length at > kMaxHeaderSize then (c\<lparr>pc_error := True\<rparr>, HPE_USER)
      else (c\<lparr>last_value := last_value c @ at, value_pending := True\<rparr>, HPE_OK))"

definition http_version :: "nat \<Rightarrow> nat \<Rightarrow> string" where
  "http_version major minor = (if major = 1 \<and> minor = 0 then ''HTTP/1.0'' else ''HTTP/1.1'')"

definition cb_on_headers_complete :: "nat \<Rightarrow> nat \<Rightarrow> parse_context \<Rightarrow> parse_context \<times> hpe" where
  "cb_on_headers_complete major minor c =
     (if value_pending c \<and> header_count c \<ge> kMaxHeaderCount then (c\<lparr>pc_error := True\<rparr>, HPE_USER)
      else let c1 = commit_header c
           in (c1\<lparr>current := (current c1)\<lparr>pr_version := http_version major minor\<rparr>\<rparr>, HPE_OK))"

definition cb_on_body :: "string \<Rightarrow> parse_context \<Rightarrow> parse_context \<times> hpe" where
  "cb_on_body at c =
     (if length (pr_body (current c)) + length at > kMaxBodySize
      then (c\<lparr>pc_error := True, pc_too_large := True\<rparr>, HPE_USER)
      else (c\<lparr>current := (current c)\<lparr>pr_body := pr_body (current c) @ at\<rparr>\<rparr>, HPE_OK))"

definition split_query :: "parsed_request \<Rightarrow> parsed_request" where
  "split_query r =
     (case find_index (\<lambda>c. c = CHR ''?'') (pr_path r) of
        Some q \<Rightarrow> r\<lparr>pr_query := drop (q + 1) (pr_path r), pr_path := take q (pr_path r)\<rparr>
      | None \<Rightarrow> r)"

text \<open>The completed request goes to \<open>on_complete\<close>; the accumulators of the headers stay.\<close>

definition cb_on_message_complete :: "string \<Rightarrow> parse_context \<Rightarrow> parse_context \<times> parsed_request" where
  "cb_on_message_complete m c =
     (c\<lparr>current := empty_request, header_count := 0\<rparr>, (split_query (current c))\<lparr>pr_method := m\<rparr>)"

fun on_event :: "ll_event \<Rightarrow> parse_context \<Rightarrow> parse_context \<times> hpe \<times> parsed_request list" where
  "on_event (On_url at) c = (let (c', e) = cb_on_url at c in (c', e, []))"
| "on_event (On_header_field at) c = (let (c', e) = cb_on_header_field at c in (c', e, []))"
| "on_event (On_header_value at) c = (let (c', e) = cb_on_header_value at c in (c', e, []))"
| "on_event (On_headers_complete a b) c = (let (c', e) = cb_on_headers_complete a b c in (c', e, []))"
| "on_event (On_body at) c = (let (c', e) = cb_on_body at c in (c', e, []))"
| "on_event (On_message_complete m) c = (let (c', r) = cb_on_message_complete m c in (c', HPE_PAUSED, [r]))"

text \<open>llhttp calls back until a callback stops it: the requests delivered and the events not reached.\<close>

fun run_events :: "ll_event list \<Rightarrow> parse_context \<Rightarrow> parse_context \<times> hpe \<times> parsed_request list \<times> ll_event list" where
  "run_events [] c = (c, HPE_OK, [], [])"
| "run_events (e # es) c =
     (let (c', code, out) = on_event e c
      in if code = HPE_OK then (let (c2, k, out2, rest) = run_events es c' in (c2, k, out @ out2, rest))
         else (c', code, out, es))"

section \<open>The parser object\<close>

text \<open>
  What llhttp does with a buffer: the events with the position reached behind each, whether a
  syntax error follows the last, and the state it is then in.
\<close>

record 'l llhttp =
  ll_events :: "'l \<Rightarrow> string \<Rightarrow> (ll_event \<times> nat) list"
  ll_failed :: "'l \<Rightarrow> string \<Rightarrow> bool"
  ll_next :: "'l \<Rightarrow> string \<Rightarrow> nat \<Rightarrow> 'l"
  ll_init :: 'l

datatype ll_errno = Errno_ok | Errno_paused | Errno_other

record 'l http_parser =
  hp_ctx :: parse_context
  hp_ll :: 'l
  hp_errno :: ll_errno
  hp_error_pos :: nat
  hp_last :: "nat option"
  hp_out :: "parsed_request list"

definition new_parser :: "'l llhttp \<Rightarrow> 'l http_parser" where
  "new_parser L = \<lparr>hp_ctx = new_context, hp_ll = ll_init L, hp_errno = Errno_ok, hp_error_pos = 0,
     hp_last = None, hp_out = []\<rparr>"

definition parser_feed :: "'l llhttp \<Rightarrow> string \<Rightarrow> 'l http_parser \<Rightarrow> 'l http_parser \<times> bool" where
  "parser_feed L data p =
     (if pc_error (hp_ctx p) then (p, False)
      else let evs = ll_events L (hp_ll p) data;
               (c, code, out, rest) = run_events (map fst evs) (hp_ctx p);
               reached = length evs - length rest;
               pos = (if reached = 0 then 0 else snd (evs ! (reached - 1)));
               p1 = p\<lparr>hp_ctx := c, hp_last := Some (length data), hp_out := hp_out p @ out,
                      hp_ll := ll_next L (hp_ll p) data reached, hp_error_pos := pos\<rparr>
           in case code of
                HPE_PAUSED \<Rightarrow> (p1\<lparr>hp_errno := Errno_paused\<rparr>, True)
              | HPE_USER \<Rightarrow> (p1\<lparr>hp_errno := Errno_other\<rparr>, False)
              | HPE_OK \<Rightarrow> if ll_failed L (hp_ll p) data then (p1\<lparr>hp_errno := Errno_other\<rparr>, False)
                          else (p1\<lparr>hp_errno := Errno_ok\<rparr>, \<not> pc_error c))"

definition is_paused :: "'l http_parser \<Rightarrow> bool" where
  "is_paused p \<longleftrightarrow> hp_errno p = Errno_paused"

definition body_too_large :: "'l http_parser \<Rightarrow> bool" where
  "body_too_large p \<longleftrightarrow> pc_too_large (hp_ctx p)"

definition unconsumed :: "'l http_parser \<Rightarrow> nat" where
  "unconsumed p =
     (if \<not> is_paused p then 0
      else case hp_last p of
             None \<Rightarrow> 0
           | Some len \<Rightarrow> if hp_error_pos p > len then 0 else len - hp_error_pos p)"

definition parser_resume :: "'l http_parser \<Rightarrow> 'l http_parser" where
  "parser_resume p = (if is_paused p then p\<lparr>hp_errno := Errno_ok, hp_last := None\<rparr> else p\<lparr>hp_last := None\<rparr>)"

definition parser_reset :: "'l llhttp \<Rightarrow> 'l http_parser \<Rightarrow> 'l http_parser" where
  "parser_reset L p = p\<lparr>hp_ctx := new_context, hp_last := None, hp_ll := ll_init L, hp_errno := Errno_ok\<rparr>"

section \<open>Bounds\<close>

definition headers_size :: "(string \<times> string) list \<Rightarrow> nat" where
  "headers_size hs = sum_list (map (\<lambda>(k, v). length k + length v) hs)"

definition request_bounded :: "nat \<Rightarrow> parsed_request \<Rightarrow> bool" where
  "request_bounded n r \<longleftrightarrow> length (pr_path r) + length (pr_query r) \<le> kMaxUrlSize
     \<and> length (pr_headers r) \<le> n \<and> headers_size (pr_headers r) \<le> n * (2 * kMaxHeaderSize + 2)
     \<and> length (pr_body r) \<le> kMaxBodySize"

definition context_bounded :: "parse_context \<Rightarrow> bool" where
  "context_bounded c \<longleftrightarrow> header_count c \<le> kMaxHeaderCount \<and> length (last_field c) \<le> kMaxHeaderSize
     \<and> length (last_value c) \<le> kMaxHeaderSize \<and> request_bounded (header_count c) (current c)
     \<and> pr_query (current c) = []"

lemma al_put_size: "length (al_put k v hs) \<le> length hs + 1 \<and> headers_size (al_put k v hs) \<le> headers_size hs + length k + length v"
  by (induction k v hs rule: al_put.induct) (auto simp: headers_size_def)

lemma al_put_grow:
  "map_of hs k = Some w \<Longrightarrow> length (al_put k v hs) = length hs
     \<and> headers_size (al_put k v hs) + length w = headers_size hs + length v"
  by (induction k v hs rule: al_put.induct) (auto simp: headers_size_def split: if_splits)

lemma combine_header_size:
  "length (combine_header k v hs) \<le> length hs + 1
   \<and> headers_size (combine_header k v hs) \<le> headers_size hs + length k + length v + 2"
proof (cases "map_of hs k")
  case None
  then show ?thesis using al_put_size [of k v hs] by (simp add: combine_header_def)
next
  case (Some w)
  then show ?thesis
    using al_put_grow [OF Some, of "w @ (if k = ''set-cookie'' then [CHR 0x0A] else '', '') @ v"]
    by (auto simp: combine_header_def)
qed

lemma commit_header_bounded [wf_intros]:
  assumes "context_bounded c" and "\<not> (value_pending c \<and> header_count c \<ge> kMaxHeaderCount)"
  shows "context_bounded (commit_header c)"
proof (cases "value_pending c")
  case True
  let ?hs = "combine_header (map to_lower (last_field c)) (last_value c) (pr_headers (current c))"
  have "headers_size ?hs \<le> headers_size (pr_headers (current c)) + length (last_field c) + length (last_value c) + 2"
    using combine_header_size [of "map to_lower (last_field c)" "last_value c" "pr_headers (current c)"] by simp
  with assms have "headers_size ?hs \<le> (header_count c + 1) * (2 * kMaxHeaderSize + 2)"
    by (simp add: context_bounded_def request_bounded_def algebra_simps)
  moreover have "length ?hs \<le> header_count c + 1"
    using assms combine_header_size [of "map to_lower (last_field c)" "last_value c" "pr_headers (current c)"]
    by (simp add: context_bounded_def request_bounded_def)
  ultimately show ?thesis
    using assms True by (simp add: commit_header_def context_bounded_def request_bounded_def)
qed (use assms in \<open>simp add: commit_header_def\<close>)

lemma split_query_bounded:
  assumes "request_bounded n r" and "pr_query r = []"
  shows "request_bounded n ((split_query r)\<lparr>pr_method := m\<rparr>)"
proof (cases "find_index (\<lambda>c. c = CHR ''?'') (pr_path r)")
  case (Some q)
  then have "q < length (pr_path r)" by (rule find_index_less)
  moreover have "length (pr_path r) \<le> kMaxUrlSize" using assms by (simp add: request_bounded_def)
  ultimately have "q + (length (pr_path r) - Suc q) \<le> kMaxUrlSize" by linarith
  with assms Some show ?thesis by (simp add: split_query_def request_bounded_def)
qed (use assms in \<open>simp add: split_query_def request_bounded_def\<close>)

lemma context_bounded_errors:
  "context_bounded (c\<lparr>pc_error := e\<rparr>) \<longleftrightarrow> context_bounded c"
  "context_bounded (c\<lparr>pc_error := e, pc_too_large := t\<rparr>) \<longleftrightarrow> context_bounded c"
  by (simp_all add: context_bounded_def)

lemma on_event_bounded:
  assumes "context_bounded c" and "on_event e c = (c', k, out)"
  shows "context_bounded c'" and "\<forall>r \<in> set out. request_bounded kMaxHeaderCount r"
proof -
  have "context_bounded c' \<and> (\<forall>r \<in> set out. request_bounded kMaxHeaderCount r)"
  proof (cases e)
    case (On_url at)
    with assms show ?thesis
      by (auto simp: cb_on_url_def context_bounded_errors split: if_splits)
        (simp add: context_bounded_def request_bounded_def)
  next
    case (On_header_field at)
    with assms show ?thesis
    proof (cases "value_pending c \<and> header_count c \<ge> kMaxHeaderCount")
      case False
      with assms(1) have "context_bounded (commit_header c)" by (rule wf_intros)
      with assms(2) False On_header_field show ?thesis
        by (auto simp: cb_on_header_field_def Let_def context_bounded_def split: if_splits)
    qed (auto simp: cb_on_header_field_def context_bounded_errors)
  next
    case (On_header_value at)
    with assms show ?thesis
      by (auto simp: cb_on_header_value_def context_bounded_errors split: if_splits)
        (simp add: context_bounded_def)
  next
    case (On_headers_complete a b)
    with assms show ?thesis
    proof (cases "value_pending c \<and> header_count c \<ge> kMaxHeaderCount")
      case False
      with assms(1) have "context_bounded (commit_header c)" by (rule wf_intros)
      with assms(2) False On_headers_complete show ?thesis
        by (auto simp: cb_on_headers_complete_def Let_def context_bounded_def request_bounded_def)
    qed (auto simp: cb_on_headers_complete_def context_bounded_errors)
  next
    case (On_body at)
    with assms show ?thesis
      by (auto simp: cb_on_body_def context_bounded_errors split: if_splits)
        (simp add: context_bounded_def request_bounded_def)
  next
    case (On_message_complete m)
    have "request_bounded (header_count c) ((split_query (current c))\<lparr>pr_method := m\<rparr>)"
      using assms(1) by (intro split_query_bounded) (simp_all add: context_bounded_def)
    moreover have "header_count c * (2 * kMaxHeaderSize + 2) \<le> kMaxHeaderCount * (2 * kMaxHeaderSize + 2)"
      using assms(1) by (intro mult_le_mono1) (simp add: context_bounded_def)
    ultimately have "request_bounded kMaxHeaderCount ((split_query (current c))\<lparr>pr_method := m\<rparr>)"
      using assms(1) by (auto simp: request_bounded_def context_bounded_def)
    with assms On_message_complete show ?thesis
      by (auto simp: cb_on_message_complete_def context_bounded_def request_bounded_def empty_request_def headers_size_def)
  qed
  then show "context_bounded c'" and "\<forall>r \<in> set out. request_bounded kMaxHeaderCount r" by auto
qed

lemma run_events_bounded:
  "context_bounded c \<Longrightarrow> run_events es c = (c', k, out, rest) \<Longrightarrow>
   context_bounded c' \<and> (\<forall>r \<in> set out. request_bounded kMaxHeaderCount r)"
proof (induction es arbitrary: c c' k out rest)
  case (Cons e es)
  obtain c1 k1 o1 where e: "on_event e c = (c1, k1, o1)" by (cases "on_event e c")
  obtain c2 k2 o2 r2 where r: "run_events es c1 = (c2, k2, o2, r2)" by (cases "run_events es c1")
  from on_event_bounded [OF Cons.prems(1) e] Cons.IH [OF _ r] Cons.prems(2) e r show ?case
    by (auto split: if_splits)
qed simp

lemma context_bounded_new [wf_intros]: "context_bounded new_context"
  by (simp add: context_bounded_def request_bounded_def new_context_def empty_request_def headers_size_def)

text \<open>What the connection does with the parser.\<close>

datatype parser_op = P_feed string | P_resume | P_reset

fun parser_apply :: "'l llhttp \<Rightarrow> parser_op \<Rightarrow> 'l http_parser \<Rightarrow> 'l http_parser" where
  "parser_apply L (P_feed data) p = fst (parser_feed L data p)"
| "parser_apply L P_resume p = parser_resume p"
| "parser_apply L P_reset p = parser_reset L p"

definition parser_bounded :: "'l http_parser \<Rightarrow> bool" where
  "parser_bounded p \<longleftrightarrow> context_bounded (hp_ctx p) \<and> (\<forall>r \<in> set (hp_out p). request_bounded kMaxHeaderCount r)"

lemma parser_bounded_apply [wf_intros]:
  assumes "parser_bounded p"
  shows "parser_bounded (parser_apply L op p)"
proof (cases op)
  case (P_feed data)
  obtain c code out rest where r: "run_events (map fst (ll_events L (hp_ll p) data)) (hp_ctx p) = (c, code, out, rest)"
    by (metis prod_cases4)
  have "context_bounded c \<and> (\<forall>r \<in> set out. request_bounded kMaxHeaderCount r)"
    using assms r run_events_bounded by (auto simp: parser_bounded_def)
  with assms r P_feed show ?thesis
    by (auto simp: parser_feed_def Let_def parser_bounded_def split: hpe.split)
qed (use assms in \<open>auto simp: parser_resume_def parser_reset_def parser_bounded_def wf_intros\<close>)

text \<open>C30. The parser's limits hold whatever llhttp reports: every request ever delivered has at
  most 8 KB of URL, 100 headers, 16 MB of body and about 1.6 MB of header text, over any
  sequence of feeds, resumptions and resets and any behaviour of llhttp.\<close>

theorem parser_limits:
  assumes "r \<in> set (hp_out (fold (parser_apply L) ops (new_parser L)))"
  shows "length (pr_path r) + length (pr_query r) \<le> 8192
      \<and> length (pr_headers r) \<le> 100 \<and> headers_size (pr_headers r) \<le> 1638600
      \<and> length (pr_body r) \<le> 16777216"
proof -
  have "parser_bounded (fold (parser_apply L) ops q)" if "parser_bounded q" for q
    using that by (induction ops arbitrary: q) (auto intro: wf_intros)
  moreover have "parser_bounded (new_parser L)"
    by (simp add: parser_bounded_def new_parser_def wf_intros)
  ultimately have "parser_bounded (fold (parser_apply L) ops (new_parser L))" .
  with assms show ?thesis
    by (auto simp: parser_bounded_def request_bounded_def kMaxUrlSize_def kMaxHeaderSize_def
        kMaxHeaderCount_def kMaxBodySize_def)
qed

lemma parser_limits_witness:
  "let L = \<lparr>ll_events = \<lambda>_ d. [(On_url d, length d), (On_message_complete ''GET'', length d)],
            ll_failed = \<lambda>_ _. False, ll_next = \<lambda>_ _ _. (), ll_init = ()\<rparr>;
       out = hp_out (fold (parser_apply L) [P_feed ''/a'', P_resume] (new_parser L))
   in map pr_path out = [''/a''] \<and> length (pr_headers (hd out)) \<le> 100"
proof -
  define L where "L = \<lparr>ll_events = \<lambda>_ d. [(On_url d, length d), (On_message_complete ''GET'', length d)],
            ll_failed = \<lambda>_ _. False, ll_next = \<lambda>_ _ _. (), ll_init = ()\<rparr>"
  define out where "out = hp_out (fold (parser_apply L) [P_feed ''/a'', P_resume] (new_parser L))"
  have paths: "map pr_path out = [''/a'']"
    by (simp add: out_def L_def new_parser_def parser_feed_def parser_resume_def is_paused_def new_context_def
        empty_request_def cb_on_url_def cb_on_message_complete_def split_query_def kMaxUrlSize_def Let_def)
  then have "hd out \<in> set out"
    by (cases out) simp_all
  then have "length (pr_headers (hd out)) \<le> 100"
    unfolding out_def by (rule parser_limits [THEN conjunct2, THEN conjunct1])
  with paths show ?thesis
    by (simp add: out_def L_def Let_def)
qed

section \<open>One message\<close>

text \<open>
  A message as llhttp reports it: the URL, each field and value and the body in pieces of any
  size, and the trailer fields that follow a chunked body.
\<close>

record message =
  ms_url :: "string list"
  ms_headers :: "(string list \<times> string list) list"
  ms_version :: "nat \<times> nat"
  ms_body :: "string list"
  ms_trailers :: "(string list \<times> string list) list"
  ms_method :: string

definition header_events :: "(string list \<times> string list) list \<Rightarrow> ll_event list" where
  "header_events hs = concat (map (\<lambda>(f, v). map On_header_field f @ map On_header_value v) hs)"

definition message_events :: "message \<Rightarrow> ll_event list" where
  "message_events m = map On_url (ms_url m) @ header_events (ms_headers m)
     @ [On_headers_complete (fst (ms_version m)) (snd (ms_version m))] @ map On_body (ms_body m)
     @ header_events (ms_trailers m) @ [On_message_complete (ms_method m)]"

definition joined :: "(string list \<times> string list) list \<Rightarrow> (string \<times> string) list" where
  "joined hs = map (\<lambda>(f, v). (concat f, concat v)) hs"

definition combined :: "(string \<times> string) list \<Rightarrow> (string \<times> string) list" where
  "combined hs = fold (\<lambda>(f, v). combine_header (map to_lower f) v) hs []"

text \<open>The request the message stands for, given the headers that belong to it.\<close>

definition message_request :: "(string \<times> string) list \<Rightarrow> message \<Rightarrow> parsed_request" where
  "message_request hs m = (split_query \<lparr>pr_method = [], pr_path = concat (ms_url m), pr_query = [],
      pr_version = http_version (fst (ms_version m)) (snd (ms_version m)),
      pr_headers = combined hs, pr_body = concat (ms_body m)\<rparr>)\<lparr>pr_method := ms_method m\<rparr>"

definition header_fits :: "string list \<times> string list \<Rightarrow> bool" where
  "header_fits h \<longleftrightarrow> fst h \<noteq> [] \<and> snd h \<noteq> [] \<and> length (concat (fst h)) \<le> kMaxHeaderSize
     \<and> length (concat (snd h)) \<le> kMaxHeaderSize"

definition message_fits :: "message \<Rightarrow> bool" where
  "message_fits m \<longleftrightarrow> length (concat (ms_url m)) \<le> kMaxUrlSize \<and> list_all header_fits (ms_headers m)
     \<and> length (ms_headers m) + length (ms_trailers m) < kMaxHeaderCount \<and> list_all header_fits (ms_trailers m)
     \<and> length (ms_trailers m) \<le> 1 \<and> length (concat (ms_body m)) \<le> kMaxBodySize"

lemma run_url:
  "length (pr_path (current c)) + length (concat us) \<le> kMaxUrlSize \<Longrightarrow>
   run_events (map On_url us @ es) c = run_events es (c\<lparr>current := (current c)\<lparr>pr_path := pr_path (current c) @ concat us\<rparr>\<rparr>)"
proof (induction us arbitrary: c)
  case (Cons u us)
  then show ?case
    by (simp add: cb_on_url_def)
qed simp

lemma run_body:
  "length (pr_body (current c)) + length (concat us) \<le> kMaxBodySize \<Longrightarrow>
   run_events (map On_body us @ es) c = run_events es (c\<lparr>current := (current c)\<lparr>pr_body := pr_body (current c) @ concat us\<rparr>\<rparr>)"
proof (induction us arbitrary: c)
  case (Cons u us)
  then show ?case
    by (simp add: cb_on_body_def)
qed simp

lemma run_value:
  "length (last_value c) + length (concat us) \<le> kMaxHeaderSize \<Longrightarrow> us \<noteq> [] \<Longrightarrow>
   run_events (map On_header_value us @ es) c = run_events es (c\<lparr>last_value := last_value c @ concat us, value_pending := True\<rparr>)"
proof (induction us arbitrary: c)
  case (Cons u us)
  then show ?case
    by (cases "us = []") (simp_all add: cb_on_header_value_def split: prod.split)
qed simp

lemma run_field_more:
  "\<not> value_pending c \<Longrightarrow> length (last_field c) + length (concat us) \<le> kMaxHeaderSize \<Longrightarrow>
   run_events (map On_header_field us @ es) c = run_events es (c\<lparr>last_field := last_field c @ concat us\<rparr>)"
proof (induction us arbitrary: c)
  case (Cons u us)
  then show ?case
    by (simp add: cb_on_header_field_def commit_header_def Let_def split: prod.split)
qed simp

text \<open>A context between two pieces of headers: nothing is accumulated unless a value is pending.\<close>

definition settled :: "parse_context \<Rightarrow> bool" where
  "settled c \<longleftrightarrow> value_pending c \<or> (last_field c = [] \<and> last_value c = [])"

definition open_headers :: "parse_context \<Rightarrow> (string \<times> string) list" where
  "open_headers c = (if value_pending c then [(last_field c, last_value c)] else [])"

definition add_headers :: "(string \<times> string) list \<Rightarrow> parse_context \<Rightarrow> parse_context" where
  "add_headers hs c = c\<lparr>current := (current c)\<lparr>pr_headers :=
       fold (\<lambda>(f, v). combine_header (map to_lower f) v) hs (pr_headers (current c))\<rparr>,
     header_count := header_count c + length hs\<rparr>"

lemma commit_header_open: "settled c \<Longrightarrow>
  commit_header c = (add_headers (open_headers c) c)\<lparr>last_field := [], last_value := [], value_pending := False\<rparr>"
  by (auto simp: settled_def commit_header_def open_headers_def add_headers_def)

lemma run_header:
  assumes "settled c" and "header_fits (f, v)" and "value_pending c \<Longrightarrow> header_count c < kMaxHeaderCount"
  shows "run_events (map On_header_field f @ map On_header_value v @ es) c
    = run_events es ((commit_header c)\<lparr>last_field := concat f, last_value := concat v, value_pending := True\<rparr>)"
proof -
  obtain u us where f: "f = u # us" using assms(2) by (cases f) (auto simp: header_fits_def)
  let ?c = "commit_header c"
  have c: "last_field ?c = []" "last_value ?c = []" "\<not> value_pending ?c" "commit_header ?c = ?c"
    using assms(1) by (auto simp: settled_def commit_header_def)
  have len: "length u + length (concat us) \<le> kMaxHeaderSize" using assms(2) f by (simp add: header_fits_def)
  then have u: "cb_on_header_field u c = (?c\<lparr>last_field := u\<rparr>, HPE_OK)"
    using assms(3) c by (auto simp: cb_on_header_field_def Let_def)
  have "run_events (map On_header_field f @ map On_header_value v @ es) c
      = run_events (map On_header_field us @ map On_header_value v @ es) (?c\<lparr>last_field := u\<rparr>)"
    by (simp add: f u)
  also have "\<dots> = run_events (map On_header_value v @ es) (?c\<lparr>last_field := concat f\<rparr>)"
    using len c by (subst run_field_more) (simp_all add: f)
  also have "\<dots> = run_events es (?c\<lparr>last_field := concat f, last_value := concat v, value_pending := True\<rparr>)"
    using assms(2) c by (subst run_value) (simp_all add: header_fits_def)
  finally show ?thesis .
qed

lemma run_headers:
  assumes "settled c" and "list_all header_fits hs"
    and "header_count c + length (open_headers c) + length hs \<le> kMaxHeaderCount"
  shows "\<exists>c'. run_events (header_events hs @ es) c = run_events es c' \<and> settled c'
    \<and> header_count c' + length (open_headers c') = header_count c + length (open_headers c) + length hs
    \<and> commit_header c' = add_headers (joined hs) (commit_header c)"
  using assms
proof (induction hs arbitrary: c)
  case Nil
  then show ?case by (intro exI [of _ c]) (simp add: header_events_def joined_def add_headers_def)
next
  case (Cons h hs)
  obtain f v where h: "h = (f, v)" by (cases h)
  let ?c = "(commit_header c)\<lparr>last_field := concat f, last_value := concat v, value_pending := True\<rparr>"
  have "header_fits (f, v)" using Cons.prems h by simp
  then have run: "run_events (header_events (h # hs) @ es) c = run_events (header_events hs @ es) ?c"
    using Cons.prems by (simp add: header_events_def h run_header open_headers_def)
  have "header_count (commit_header c) = header_count c + length (open_headers c)"
    by (simp add: commit_header_def open_headers_def)
  then have "header_count ?c + length (open_headers ?c) + length hs \<le> kMaxHeaderCount"
    using Cons.prems by (simp add: open_headers_def)
  moreover have "settled ?c" "list_all header_fits hs" using Cons.prems by (simp_all add: settled_def)
  ultimately obtain c' where c': "run_events (header_events hs @ es) ?c = run_events es c'" "settled c'"
    "header_count c' + length (open_headers c') = header_count ?c + length (open_headers ?c) + length hs"
    "commit_header c' = add_headers (joined hs) (commit_header ?c)"
    using Cons.IH [of ?c] by blast
  have "commit_header ?c = add_headers [(concat f, concat v)] (commit_header c)"
    using Cons.prems(1) by (auto simp: commit_header_def add_headers_def settled_def)
  then have "commit_header c' = add_headers (joined (h # hs)) (commit_header c)"
    using c'(4) by (simp add: add_headers_def joined_def h)
  moreover have "header_count ?c = header_count c + length (open_headers c)"
    by (simp add: commit_header_def open_headers_def)
  ultimately show ?case using c' run by (intro exI [of _ c']) (simp add: open_headers_def)
qed

text \<open>A context between two messages, with a header left over from the trailers of the last.\<close>

definition between :: "(string \<times> string) list \<Rightarrow> parse_context \<Rightarrow> bool" where
  "between left c \<longleftrightarrow> current c = empty_request \<and> header_count c = 0 \<and> settled c \<and> open_headers c = left"

lemma run_message:
  assumes "between left c" and "message_fits m"
  shows "\<exists>c'. run_events (message_events m) c
      = (c', HPE_PAUSED, [message_request (left @ joined (ms_headers m)) m], [])
    \<and> between (joined (ms_trailers m)) c'"
proof -
  let ?es3 = "header_events (ms_trailers m) @ [On_message_complete (ms_method m)]"
  let ?es2 = "map On_body (ms_body m) @ ?es3"
  let ?hc = "On_headers_complete (fst (ms_version m)) (snd (ms_version m))"
  have fits: "length (concat (ms_url m)) \<le> kMaxUrlSize" "list_all header_fits (ms_headers m)"
    "length (ms_headers m) < kMaxHeaderCount" "list_all header_fits (ms_trailers m)"
    "length (ms_trailers m) \<le> 1" "length (concat (ms_body m)) \<le> kMaxBodySize"
    using assms(2) by (simp_all add: message_fits_def)
  let ?c1 = "c\<lparr>current := empty_request\<lparr>pr_path := concat (ms_url m)\<rparr>\<rparr>"
  have r1: "run_events (message_events m) c = run_events (header_events (ms_headers m) @ ?hc # ?es2) ?c1"
    using assms(1) fits(1) by (simp add: message_events_def run_url between_def empty_request_def)
  have open1: "open_headers ?c1 = left" "settled ?c1" "header_count ?c1 = 0" "length left \<le> 1"
    using assms(1) by (auto simp: between_def settled_def open_headers_def)
  with fits obtain c2 where r2: "run_events (header_events (ms_headers m) @ ?hc # ?es2) ?c1 = run_events (?hc # ?es2) c2"
    and "settled c2" and n2: "header_count c2 + length (open_headers c2) = length left + length (ms_headers m)"
    and c2: "commit_header c2 = add_headers (joined (ms_headers m)) (commit_header ?c1)"
    using run_headers [of ?c1 "ms_headers m" "?hc # ?es2"] by auto
  have lim: "\<not> (value_pending c2 \<and> header_count c2 \<ge> kMaxHeaderCount)"
    using n2 fits(3) open1(4) by (auto simp: open_headers_def)
  let ?v = "http_version (fst (ms_version m)) (snd (ms_version m))"
  let ?c3 = "(commit_header c2)\<lparr>current := (current (commit_header c2))\<lparr>pr_version := ?v\<rparr>\<rparr>"
  have r3: "run_events (?hc # ?es2) c2 = run_events ?es2 ?c3"
    using lim by (auto simp: cb_on_headers_complete_def Let_def)
  have cur: "current ?c3 = empty_request\<lparr>pr_path := concat (ms_url m), pr_version := ?v,
      pr_headers := combined (left @ joined (ms_headers m))\<rparr>"
    using open1 unfolding c2 commit_header_open [OF open1(2)]
    by (simp add: add_headers_def combined_def empty_request_def)
  have pend: "\<not> value_pending ?c3" "last_field ?c3 = []" "last_value ?c3 = []"
    using \<open>settled c2\<close> by (auto simp: commit_header_def settled_def)
  let ?c4 = "?c3\<lparr>current := (current ?c3)\<lparr>pr_body := concat (ms_body m)\<rparr>\<rparr>"
  have b3: "pr_body (current ?c3) = []" unfolding cur by (simp add: empty_request_def)
  have r4: "run_events ?es2 ?c3 = run_events ?es3 ?c4"
    using run_body [of ?c3 "ms_body m" ?es3] fits(6) b3 by (simp only: append_Nil list.size(3) add_0)
  have "\<exists>c5. run_events ?es3 ?c4 = run_events [On_message_complete (ms_method m)] c5 \<and> current c5 = current ?c4
      \<and> settled c5 \<and> open_headers c5 = joined (ms_trailers m)"
  proof (cases "ms_trailers m")
    case Nil
    with pend show ?thesis
      by (intro exI [of _ ?c4]) (simp add: header_events_def joined_def settled_def open_headers_def)
  next
    case (Cons t ts)
    obtain f v where t: "t = (f, v)" by (cases t)
    have ts: "ts = []" using Cons fits(5) by simp
    have h: "header_fits (f, v)" using Cons t fits(4) by simp
    have "settled ?c4" "\<not> value_pending ?c4" using pend by (simp_all add: settled_def)
    then have cc: "commit_header ?c4 = ?c4" by (simp only: commit_header_def not_False_eq_True if_True)
    let ?c5 = "?c4\<lparr>last_field := concat f, last_value := concat v, value_pending := True\<rparr>"
    have "?es3 = map On_header_field f @ map On_header_value v @ [On_message_complete (ms_method m)]"
      by (simp add: header_events_def Cons ts t)
    then have "run_events ?es3 ?c4 = run_events [On_message_complete (ms_method m)] ?c5"
      using run_header [OF \<open>settled ?c4\<close> h, of "[On_message_complete (ms_method m)]"] \<open>\<not> value_pending ?c4\<close>
      unfolding cc by (simp only: simp_thms)
    moreover have "current ?c5 = current ?c4" "settled ?c5" "open_headers ?c5 = joined (ms_trailers m)"
      by (simp_all add: settled_def open_headers_def joined_def Cons ts t)
    ultimately show ?thesis by blast
  qed
  then obtain c5 where r5: "run_events ?es3 ?c4 = run_events [On_message_complete (ms_method m)] c5"
    and c5: "current c5 = current ?c4" "settled c5" "open_headers c5 = joined (ms_trailers m)" by blast
  have "message_request (left @ joined (ms_headers m)) m = (split_query (current c5))\<lparr>pr_method := ms_method m\<rparr>"
    unfolding c5(1) using cur by (simp add: message_request_def empty_request_def)
  moreover have "between (joined (ms_trailers m)) (c5\<lparr>current := empty_request, header_count := 0\<rparr>)"
    using c5(2,3) by (auto simp: between_def settled_def open_headers_def split: if_splits)
  ultimately show ?thesis
    using r1 r2 r3 r4 r5
    by (intro exI [of _ "c5\<lparr>current := empty_request, header_count := 0\<rparr>"])
      (simp add: cb_on_message_complete_def)
qed

text \<open>A connection carries messages one after the other; the parser is resumed between them.\<close>

fun run_messages :: "message list \<Rightarrow> parse_context \<Rightarrow> parsed_request list" where
  "run_messages [] c = []"
| "run_messages (m # ms) c = (let (c', k, out, rest) = run_events (message_events m) c in out @ run_messages ms c')"

text \<open>C28. Pipelined requests are independent: a connection that carries any messages within the
  limits and without trailer fields, in any pieces, delivers for each exactly the request it
  stands for: method, path and query, version, headers with repeated ones combined, and body.\<close>

theorem parser_pipelining:
  assumes "list_all message_fits ms" and "\<forall>m \<in> set ms. ms_trailers m = []"
  shows "run_messages ms new_context = map (\<lambda>m. message_request (joined (ms_headers m)) m) ms"
proof -
  have "run_messages ms c = map (\<lambda>m. message_request (joined (ms_headers m)) m) ms" if "between [] c" for c
    using that assms
  proof (induction ms arbitrary: c)
    case (Cons m ms)
    then obtain c' where "run_events (message_events m) c = (c', HPE_PAUSED, [message_request (joined (ms_headers m)) m], [])"
      "between [] c'"
      using run_message [of "[]" c m] by (auto simp: joined_def)
    with Cons show ?case by simp
  qed simp
  moreover have "between [] new_context" by (simp add: between_def new_context_def settled_def open_headers_def)
  ultimately show ?thesis .
qed

text \<open>C29. Trailers leak: a trailer field behind a chunked body is never part of its own request;
  it is committed as the first header of the next request of the connection.\<close>

theorem parser_trailer_leak:
  assumes "message_fits m1" and "message_fits m2"
  shows "run_messages [m1, m2] new_context
    = [message_request (joined (ms_headers m1)) m1,
       message_request (joined (ms_trailers m1) @ joined (ms_headers m2)) m2]"
proof -
  have "between [] new_context" by (simp add: between_def new_context_def settled_def open_headers_def)
  from run_message [OF this assms(1)] obtain c1
    where c1: "run_events (message_events m1) new_context = (c1, HPE_PAUSED, [message_request (joined (ms_headers m1)) m1], [])"
      "between (joined (ms_trailers m1)) c1" by auto
  from run_message [OF c1(2) assms(2)] c1(1) show ?thesis by auto
qed

definition sample_message :: "(string list \<times> string list) list \<Rightarrow> message" where
  "sample_message ts = \<lparr>ms_url = [''/a?b''], ms_headers = [([''Host''], [''h''])], ms_version = (1, 1),
     ms_body = [''x''], ms_trailers = ts, ms_method = ''GET''\<rparr>"

lemma sample_fits: "length ts \<le> 1 \<Longrightarrow> list_all header_fits ts \<Longrightarrow> message_fits (sample_message ts)"
  by (simp add: message_fits_def sample_message_def header_fits_def kMaxUrlSize_def kMaxHeaderSize_def
      kMaxHeaderCount_def kMaxBodySize_def)

lemma parser_pipelining_witness:
  "run_messages [sample_message [], sample_message []] new_context
    = map (\<lambda>m. message_request (joined (ms_headers m)) m) [sample_message [], sample_message []]"
  by (rule parser_pipelining) (simp_all add: sample_fits, simp add: sample_message_def)

lemma parser_trailer_leak_witness:
  "map_of (pr_headers (run_messages [sample_message [([''X-User''], [''root''])], sample_message []] new_context ! 1))
     ''x-user'' = Some ''root''"
proof -
  have "message_fits (sample_message [([''X-User''], [''root''])])"
    by (rule sample_fits) (simp_all add: header_fits_def kMaxHeaderSize_def)
  moreover have "message_fits (sample_message [])" by (rule sample_fits) simp_all
  moreover have "map_of (combined (joined [([''X-User''], [''root''])] @ joined [([''Host''], [''h''])])) ''x-user''
      = Some ''root''"
    by code_simp
  ultimately show ?thesis
    by (subst parser_trailer_leak) (simp_all add: sample_message_def message_request_def split_query_def)
qed

end
