(* ===== verification/Session.thy ===== *)
theory Session
  imports Http JsonParse Crypto
begin

text \<open>
  Signed sessions and JWT verification (src/odio/project.cpp): the cookie that carries the
  session, its signature, the HS256 token check and the hooks that run before and after a
  handler.  The clock is an argument.
\<close>

unbundle bit_operations_syntax

section \<open>The session cookie\<close>

definition kSessionCookie :: string where
  "kSessionCookie = ''lohin_session''"

definition sign_session :: "fp_text \<Rightarrow> val dict \<Rightarrow> string \<Rightarrow> string" where
  "sign_session F data secret =
     (let payload = base64url_encode (write_json F (VDict data));
          mac = base64url_encode (hmac_sha256 secret payload)
      in payload @ ''.'' @ mac)"

text \<open>\<open>rfind\<close> of a character: the last position that holds it.\<close>

definition rfind_char :: "char \<Rightarrow> string \<Rightarrow> nat option" where
  "rfind_char d s = map_option (\<lambda>i. length s - 1 - i) (find_index (\<lambda>c. c = d) (rev s))"

text \<open>\<open>None\<close> is the answer \<open>false\<close>, on which the caller keeps its empty session.\<close>

definition load_session :: "fp_text \<Rightarrow> string \<Rightarrow> string \<Rightarrow> val dict option" where
  "load_session F cookie secret =
     (case rfind_char (CHR ''.'') cookie of
        None \<Rightarrow> None
      | Some dot \<Rightarrow>
          (let payload = take dot cookie;
               given = drop (dot + 1) cookie;
               expected = base64url_encode (hmac_sha256 secret payload)
           in if \<not> constant_time_equal given expected then None
              else case base64url_decode payload of
                     (False, _) \<Rightarrow> None
                   | (True, json) \<Rightarrow>
                       (case parse_json F json of Some (VDict d) \<Rightarrow> Some d | _ \<Rightarrow> None)))"

section \<open>Tokens\<close>

text \<open>
  \<open>static_cast<long long>\<close> of a double: truncation, undefined (\<open>None\<close>) outside the range of the
  integer type.
\<close>

definition f64_trunc :: "f64 \<Rightarrow> int option" where
  "f64_trunc x =
     (if \<not> f64_finite x then None
      else let m = scaled_num (f64_mant x) (f64_scale x) div scaled_den 1 (f64_scale x);
               v = (if f64_sign x then - int m else int m)
           in if - (2 ^ 63) \<le> v \<and> v < 2 ^ 63 then Some v else None)"

datatype jwt_result = Jwt_undefined | Jwt_rejected | Jwt_claims val

text \<open>The expiry test: passed, failed, or undefined; a claim that is absent or no number passes.\<close>

definition jwt_expired :: "int \<Rightarrow> val dict \<Rightarrow> bool option" where
  "jwt_expired now payload =
     (case dict_get payload ''exp'' of
        None \<Rightarrow> Some False
      | Some v \<Rightarrow> if is_num v then map_option (\<lambda>t. t < now) (f64_trunc (as_float v)) else Some False)"

definition jwt_issuer_ok :: "string \<Rightarrow> val dict \<Rightarrow> bool" where
  "jwt_issuer_ok issuer payload \<longleftrightarrow> issuer = [] \<or>
     (case dict_get payload ''iss'' of None \<Rightarrow> True | Some v \<Rightarrow> v = VStr issuer)"

definition verify_jwt :: "fp_text \<Rightarrow> int \<Rightarrow> string \<Rightarrow> string \<Rightarrow> string \<Rightarrow> jwt_result" where
  "verify_jwt F now token secret issuer =
     (case find_index (\<lambda>c. c = CHR ''.'') token of
        None \<Rightarrow> Jwt_rejected
      | Some p1 \<Rightarrow>
          (case find_index_from (\<lambda>c. c = CHR ''.'') (p1 + 1) token of
             None \<Rightarrow> Jwt_rejected
           | Some p2 \<Rightarrow>
               (let signing_input = take p2 token;
                    given_sig = drop (p2 + 1) token;
                    expected = base64url_encode (hmac_sha256 secret signing_input)
                in if \<not> constant_time_equal given_sig expected then Jwt_rejected
                   else case (base64url_decode (take p1 token),
                              base64url_decode (take (p2 - p1 - 1) (drop (p1 + 1) token))) of
                          ((True, header_text), (True, payload_text)) \<Rightarrow>
                            (case parse_json F header_text of
                               Some (VDict header) \<Rightarrow>
                                 if dict_get header ''alg'' \<noteq> Some (VStr ''HS256'') then Jwt_rejected
                                 else (case parse_json F payload_text of
                                         Some (VDict payload) \<Rightarrow>
                                           (case jwt_expired now payload of
                                              None \<Rightarrow> Jwt_undefined
                                            | Some True \<Rightarrow> Jwt_rejected
                                            | Some False \<Rightarrow>
                                                if jwt_issuer_ok issuer payload then Jwt_claims (VDict payload)
                                                else Jwt_rejected)
                                       | _ \<Rightarrow> Jwt_rejected)
                             | _ \<Rightarrow> Jwt_rejected)
                        | _ \<Rightarrow> Jwt_rejected)))"

section \<open>Before and after the handler\<close>

record auth_config =
  session_secret :: string
  session_max_age :: int
  session_secure :: bool
  jwt_secret :: string
  jwt_issuer :: string

record session_state =
  ss_data :: "val dict"
  ss_loaded :: bool
  ss_dirty :: bool
  ss_secret :: string

definition new_session :: session_state where
  "new_session = \<lparr>ss_data = dict_empty, ss_loaded = False, ss_dirty = False, ss_secret = []\<rparr>"

text \<open>The session half of \<open>begin_auth\<close>, and the token half.\<close>

definition begin_session :: "fp_text \<Rightarrow> auth_config \<Rightarrow> request \<Rightarrow> session_state \<Rightarrow> request \<times> session_state" where
  "begin_session F cfg req session0 =
     (let session = session0\<lparr>ss_secret := session_secret cfg\<rparr>
      in if session_secret cfg = [] then (req, session)
         else let (req', cookie) = req_cookie kSessionCookie req;
                  data = (case cookie of
                            None \<Rightarrow> ss_data session
                          | Some c \<Rightarrow> (case load_session F c (session_secret cfg) of
                                         None \<Rightarrow> ss_data session | Some d \<Rightarrow> d))
              in (req', session\<lparr>ss_data := data, ss_loaded := True\<rparr>))"

definition begin_jwt :: "fp_text \<Rightarrow> int \<Rightarrow> auth_config \<Rightarrow> request \<Rightarrow> jwt_result" where
  "begin_jwt F now cfg req =
     (if jwt_secret cfg = [] then Jwt_rejected
      else case req_header ''authorization'' req of
             None \<Rightarrow> Jwt_rejected
           | Some auth \<Rightarrow>
               if take 7 auth = ''Bearer '' then verify_jwt F now (drop 7 auth) (jwt_secret cfg) (jwt_issuer cfg)
               else Jwt_rejected)"

definition begin_auth ::
  "fp_text \<Rightarrow> int \<Rightarrow> auth_config \<Rightarrow> request \<Rightarrow> session_state \<Rightarrow> request \<times> session_state \<times> jwt_result" where
  "begin_auth F now cfg req session0 =
     (let (req', session) = begin_session F cfg req session0 in (req', session, begin_jwt F now cfg req'))"

definition session_options :: "auth_config \<Rightarrow> cookie_options" where
  "session_options cfg = cookie_defaults\<lparr>co_path := ''/'', co_http_only := True, co_secure := session_secure cfg,
     co_same_site := SameSite_Lax\<rparr>"

definition end_auth :: "fp_text \<Rightarrow> auth_config \<Rightarrow> session_state \<Rightarrow> response \<Rightarrow> response" where
  "end_auth F cfg session res =
     (if \<not> ss_dirty session \<or> session_secret cfg = [] then res
      else if d_v (ss_data session) = [] then clear_cookie kSessionCookie (session_options cfg) res
      else Http.res_cookie kSessionCookie (sign_session F (ss_data session) (session_secret cfg))
             ((session_options cfg)\<lparr>co_max_age := Some (session_max_age cfg)\<rparr>) res)"

section \<open>Lemmas\<close>

lemma ct_equal [simp]: "constant_time_equal a b \<longleftrightarrow> a = b"
  by (auto simp: constant_time_equal_def fold_or_zero u8_of_char_eq list_eq_iff_nth_eq set_zip)

lemma base64url_alnum:
  "c \<in> set (base64url_encode s) \<Longrightarrow> is_alpha c \<or> is_digit c \<or> c = CHR ''-'' \<or> c = CHR ''_''"
proof -
  assume "c \<in> set (base64url_encode s)"
  then have "c \<in> set kAlphabet" using base64url_chars by blast
  moreover have "list_all (\<lambda>c. is_alpha c \<or> is_digit c \<or> c = CHR ''-'' \<or> c = CHR ''_'') kAlphabet"
    by code_simp
  ultimately show ?thesis by (auto simp: list_all_iff)
qed

lemma base64url_no_dot: "CHR ''.'' \<notin> set (base64url_encode s)"
  by (auto dest!: base64url_alnum simp: is_alpha_def is_digit_def is_upper_def is_lower_def)

lemma rfind_char_split: "d \<notin> set t \<Longrightarrow> rfind_char d (s @ d # t) = Some (length s)"
  using find_index_sep [of d "rev t" "rev s"] by (simp add: rfind_char_def)

lemma rfind_char_Some:
  assumes "rfind_char d s = Some i"
  shows "s = take i s @ d # drop (i + 1) s \<and> d \<notin> set (drop (i + 1) s)"
proof -
  obtain j where j: "find_index (\<lambda>c. c = d) (rev s) = Some j" and i: "i = length s - 1 - j"
    using assms by (auto simp: rfind_char_def)
  have jl: "j < length s" using find_index_less [OF j] by simp
  have "rev s ! j = d" and no: "\<forall>k < j. rev s ! k \<noteq> d" using j by (auto simp: find_index_Some)
  then have "s ! i = d" using jl i by (simp add: rev_nth)
  then have "s = take i s @ d # drop (i + 1) s" using jl i id_take_nth_drop [of i s] by simp
  moreover have "d \<notin> set (drop (i + 1) s)"
  proof
    assume "d \<in> set (drop (i + 1) s)"
    then obtain k where k: "k < length s - (i + 1)" "s ! (i + 1 + k) = d" by (auto simp: in_set_conv_nth)
    let ?m = "length s - Suc (i + 1 + k)"
    have "?m < length s" "length s - Suc ?m = i + 1 + k" using k jl i by linarith+
    then have "rev s ! ?m = d" using k(2) by (simp only: rev_nth)
    moreover have "?m < j" using k jl i by linarith
    ultimately show False using no by blast
  qed
  ultimately show ?thesis ..
qed

lemma decode_encode: "base64url_decode (base64url_encode s) = (True, s)"
  by (simp add: base64url_decode_def b64_loop_encode)

lemma load_sign:
  assumes "storable F 0 (VDict d)"
  shows "load_session F (sign_session F d secret) secret = Some d"
proof -
  let ?p = "base64url_encode (write_json F (VDict d))"
  have "rfind_char (CHR ''.'') (sign_session F d secret) = Some (length ?p)"
    by (simp add: sign_session_def Let_def rfind_char_split base64url_no_dot del: write_json.simps)
  then show ?thesis
    by (simp add: load_session_def sign_session_def Let_def decode_encode parse_write [OF assms] del: write_json.simps)
qed

text \<open>The signed session is a codec for the dictionaries that JSON can carry.\<close>

interpretation session: codec "\<lambda>d. sign_session F d secret" "\<lambda>c. load_session F c secret" "\<lambda>d. storable F 0 (VDict d)"
  by unfold_locales (rule load_sign)

lemma strip_clean_id: "\<forall>c \<in> set s. \<not> cookie_forbidden c \<Longrightarrow> strip s = s"
  by (simp add: strip_def filter_id_conv)

lemma strip_base64url: "strip (base64url_encode s) = base64url_encode s"
  by (rule strip_clean_id)
    (auto dest!: base64url_alnum simp: cookie_forbidden_def crlf_char_def is_alpha_def is_digit_def is_upper_def is_lower_def)

lemma strip_append: "strip (s @ t) = strip s @ strip t"
  by (simp add: strip_def)

lemma strip_sign: "strip (sign_session F d secret) = sign_session F d secret"
proof -
  have "strip ''.'' = ''.''" by (simp add: strip_def cookie_forbidden_def crlf_char_def)
  then show ?thesis by (simp only: sign_session_def Let_def strip_append strip_base64url)
qed

section \<open>Properties\<close>


text \<open>C33. A session is only accepted with the server's signature: whatever bytes come as the
  cookie, a dictionary is loaded from it exactly when the text before its last dot is the Base64url
  form of a JSON object and the text after it is the Base64url form of the HMAC of that text under
  the secret.\<close>

theorem session_signed:
  "load_session F cookie secret = Some d \<longleftrightarrow>
    (\<exists>payload json. cookie = payload @ ''.'' @ base64url_encode (hmac_sha256 secret payload)
      \<and> base64url_decode payload = (True, json) \<and> parse_json F json = Some (VDict d))"
proof
  assume L: "load_session F cookie secret = Some d"
  then obtain dot where dot: "rfind_char (CHR ''.'') cookie = Some dot"
    by (auto simp: load_session_def split: option.splits)
  with L have "drop (dot + 1) cookie = base64url_encode (hmac_sha256 secret (take dot cookie))"
    by (auto simp: load_session_def Let_def split: if_splits)
  moreover have "cookie = take dot cookie @ CHR ''.'' # drop (dot + 1) cookie"
    using rfind_char_Some [OF dot] by blast
  moreover obtain json where "base64url_decode (take dot cookie) = (True, json)" "parse_json F json = Some (VDict d)"
    using L dot by (auto simp: load_session_def Let_def split: if_splits prod.splits bool.splits option.splits val.splits)
  ultimately show "\<exists>payload json. cookie = payload @ ''.'' @ base64url_encode (hmac_sha256 secret payload)
      \<and> base64url_decode payload = (True, json) \<and> parse_json F json = Some (VDict d)"
    by (intro exI [of _ "take dot cookie"] exI [of _ json]) simp
next
  assume "\<exists>payload json. cookie = payload @ ''.'' @ base64url_encode (hmac_sha256 secret payload)
      \<and> base64url_decode payload = (True, json) \<and> parse_json F json = Some (VDict d)"
  then obtain payload json where c: "cookie = payload @ CHR ''.'' # base64url_encode (hmac_sha256 secret payload)"
    and j: "base64url_decode payload = (True, json)" "parse_json F json = Some (VDict d)" by auto
  have "rfind_char (CHR ''.'') cookie = Some (length payload)"
    unfolding c by (rule rfind_char_split) (rule base64url_no_dot)
  with c j show "load_session F cookie secret = Some d" by (simp add: load_session_def Let_def)
qed

text \<open>What the verifier demands of the claims.\<close>

definition claims_in_force :: "int \<Rightarrow> string \<Rightarrow> val dict \<Rightarrow> bool" where
  "claims_in_force now issuer payload \<longleftrightarrow>
     (\<forall>e. dict_get payload ''exp'' = Some e \<and> is_num e \<longrightarrow> (\<exists>t. f64_trunc (as_float e) = Some t \<and> now \<le> t))
     \<and> (\<forall>i. issuer \<noteq> [] \<and> dict_get payload ''iss'' = Some i \<longrightarrow> i = VStr issuer)"

lemma claims_in_force_checks:
  "claims_in_force now issuer payload \<longleftrightarrow> jwt_expired now payload = Some False \<and> jwt_issuer_ok issuer payload"
  by (auto simp: claims_in_force_def jwt_expired_def jwt_issuer_ok_def split: option.splits)

lemma token_positions:
  assumes "CHR ''.'' \<notin> set h" and "CHR ''.'' \<notin> set p"
  shows "find_index (\<lambda>c. c = CHR ''.'') (h @ CHR ''.'' # p @ CHR ''.'' # sig) = Some (length h)"
    and "find_index_from (\<lambda>c. c = CHR ''.'') (length h + 1) (h @ CHR ''.'' # p @ CHR ''.'' # sig)
      = Some (length h + 1 + length p)"
  by (simp_all add: find_index_sep assms find_index_from_def)

lemma token_split:
  assumes "find_index (\<lambda>c. c = CHR ''.'') token = Some p1"
    and "find_index_from (\<lambda>c. c = CHR ''.'') (p1 + 1) token = Some p2"
  obtains h p sig where "token = h @ CHR ''.'' # p @ CHR ''.'' # sig" "CHR ''.'' \<notin> set h" "CHR ''.'' \<notin> set p"
proof -
  obtain q where q: "find_index (\<lambda>c. c = CHR ''.'') (drop (p1 + 1) token) = Some q"
    using assms(2) by (auto simp: find_index_from_def)
  have split: "s = take i s @ CHR ''.'' # drop (i + 1) s \<and> CHR ''.'' \<notin> set (take i s)"
    if "find_index (\<lambda>c. c = CHR ''.'') s = Some i" for s i
    using that id_take_nth_drop [of i s] by (auto simp: find_index_Some in_set_conv_nth)
  from split [OF assms(1)] split [OF q] show thesis
    by (intro that [of "take p1 token" "take q (drop (p1 + 1) token)" "drop (q + 1) (drop (p1 + 1) token)"]) auto
qed

text \<open>C34. A token is accepted exactly when it is an HS256 token signed under the secret and in
  force: its text is \<open>header.payload.signature\<close> with the HMAC of \<open>header.payload\<close> as signature,
  its header names the algorithm HS256, a numeric expiry is not past, and an issuer claim, when one
  is configured and present, is the configured one.  The claims handed on are the payload's.\<close>

theorem jwt_accepted:
  "verify_jwt F now token secret issuer = Jwt_claims v \<longleftrightarrow>
    (\<exists>h p header payload.
      token = h @ ''.'' @ p @ ''.'' @ base64url_encode (hmac_sha256 secret (h @ ''.'' @ p))
      \<and> CHR ''.'' \<notin> set h \<and> CHR ''.'' \<notin> set p
      \<and> (\<exists>json. base64url_decode h = (True, json) \<and> parse_json F json = Some (VDict header))
      \<and> dict_get header ''alg'' = Some (VStr ''HS256'')
      \<and> (\<exists>json. base64url_decode p = (True, json) \<and> parse_json F json = Some (VDict payload))
      \<and> claims_in_force now issuer payload \<and> v = VDict payload)"
proof
  assume V: "verify_jwt F now token secret issuer = Jwt_claims v"
  then obtain p1 p2 where "find_index (\<lambda>c. c = CHR ''.'') token = Some p1"
    "find_index_from (\<lambda>c. c = CHR ''.'') (p1 + 1) token = Some p2"
    by (auto simp: verify_jwt_def split: option.splits)
  then obtain h p sig where t: "token = h @ CHR ''.'' # p @ CHR ''.'' # sig" "CHR ''.'' \<notin> set h" "CHR ''.'' \<notin> set p"
    by (rule token_split)
  note pos = token_positions [OF t(2,3)]
  from V show "\<exists>h p header payload.
      token = h @ ''.'' @ p @ ''.'' @ base64url_encode (hmac_sha256 secret (h @ ''.'' @ p))
      \<and> CHR ''.'' \<notin> set h \<and> CHR ''.'' \<notin> set p
      \<and> (\<exists>json. base64url_decode h = (True, json) \<and> parse_json F json = Some (VDict header))
      \<and> dict_get header ''alg'' = Some (VStr ''HS256'')
      \<and> (\<exists>json. base64url_decode p = (True, json) \<and> parse_json F json = Some (VDict payload))
      \<and> claims_in_force now issuer payload \<and> v = VDict payload"
    using t(2,3) unfolding verify_jwt_def t(1) pos Let_def option.case
    by (intro exI [of _ h] exI [of _ p])
      (auto simp: claims_in_force_checks split: if_splits prod.splits bool.splits option.splits val.splits)
next
  assume "\<exists>h p header payload.
      token = h @ ''.'' @ p @ ''.'' @ base64url_encode (hmac_sha256 secret (h @ ''.'' @ p))
      \<and> CHR ''.'' \<notin> set h \<and> CHR ''.'' \<notin> set p
      \<and> (\<exists>json. base64url_decode h = (True, json) \<and> parse_json F json = Some (VDict header))
      \<and> dict_get header ''alg'' = Some (VStr ''HS256'')
      \<and> (\<exists>json. base64url_decode p = (True, json) \<and> parse_json F json = Some (VDict payload))
      \<and> claims_in_force now issuer payload \<and> v = VDict payload"
  then obtain h p header payload hj pj where
      t: "token = h @ CHR ''.'' # p @ CHR ''.'' # base64url_encode (hmac_sha256 secret (h @ ''.'' @ p))"
    and dots: "CHR ''.'' \<notin> set h" "CHR ''.'' \<notin> set p"
    and parts: "base64url_decode h = (True, hj)" "parse_json F hj = Some (VDict header)"
      "dict_get header ''alg'' = Some (VStr ''HS256'')" "base64url_decode p = (True, pj)"
      "parse_json F pj = Some (VDict payload)" "jwt_expired now payload = Some False"
      "jwt_issuer_ok issuer payload" "v = VDict payload"
    by (auto simp: claims_in_force_checks)
  show "verify_jwt F now token secret issuer = Jwt_claims v"
    unfolding verify_jwt_def t token_positions [OF dots] Let_def option.case by (simp add: parts)
qed

definition note_dict :: "val dict" where
  "note_dict = dict_of_list [(''n'', VInt 1)]"

definition note_auth :: auth_config where
  "note_auth = \<lparr>session_secret = ''k'', session_max_age = 60, session_secure = True, jwt_secret = [], jwt_issuer = []\<rparr>"

definition note_request :: "string \<Rightarrow> request" where
  "note_request h = \<lparr>rq_method = ''GET'', rq_path = ''/'', rq_body = [], rq_headers = [(''cookie'', h)],
     rq_params = [], rq_query = [], cookies_cache = [], cookies_parsed = False\<rparr>"


end
