(* ===== verification/Token.thy ===== *)
theory Token
  imports Prelude
begin

text \<open>
  Tokens, locations and diagnostics (token.hpp, token.cpp, diagnostic.hpp).  One file is lexed
  at a time, so a location is its line and column.
\<close>

section \<open>Tokens and locations\<close>

datatype (plugins only: code) tok =
    EndOfFile | Newline | Indent | Dedent
  | Ident | Tok_Int | Tok_Float | Tok_String
  | KwImport | KwClass | KwFn | KwApp | KwGroup | KwEndpoint | KwOn | KwError
  | KwOrigins | KwValidate | KwStatic | KwSpa
  | KwGet | KwPost | KwPut | KwPatch | KwDelete | KwAny | KwSse | KwWs
  | KwIf | KwElse | KwElif | KwWhile | KwFor | KwIn | KwReturn | KwRequire
  | KwTry | KwCatch | KwBreak | KwContinue
  | KwAnd | KwOr | KwNot | KwTrue | KwFalse | KwNull | KwThis | KwAwait | KwVoid
  | LParen | RParen | LBracket | RBracket | LBrace | RBrace
  | Comma | Colon | Dot | Question | Arrow | Tok_Assign
  | Tok_Eq | NotEq | Lt | LtEq | Gt | GtEq
  | Plus | Minus | Star | Slash | Percent
  | PlusPlus | MinusMinus
  | PlusEq | MinusEq | StarEq | SlashEq | PercentEq

definition tok_names :: "(tok \<times> string) list" where
  "tok_names = [(EndOfFile, ''fin de fichero''), (Newline, ''fin de linea''), (Indent, ''indentacion''),
     (Dedent, ''des-indentacion''), (Ident, ''identificador''), (Tok_Int, ''entero''),
     (Tok_Float, ''decimal''), (Tok_String, ''cadena''), (KwImport, ''import''),
     (KwClass, ''class''), (KwFn, ''fn''), (KwApp, ''app''), (KwGroup, ''group''),
     (KwEndpoint, ''endpoint''), (KwOn, ''on''), (KwError, ''error''), (KwOrigins, ''origins''),
     (KwValidate, ''validate''), (KwStatic, ''static''), (KwSpa, ''spa''), (KwGet, ''get''),
     (KwPost, ''post''), (KwPut, ''put''), (KwPatch, ''patch''), (KwDelete, ''delete''),
     (KwAny, ''any''), (KwSse, ''sse''), (KwWs, ''ws''), (KwIf, ''if''), (KwElse, ''else''),
     (KwElif, ''elif''), (KwWhile, ''while''), (KwFor, ''for''), (KwIn, ''in''),
     (KwReturn, ''return''), (KwRequire, ''require''), (KwTry, ''try''), (KwCatch, ''catch''),
     (KwBreak, ''break''), (KwContinue, ''continue''), (KwAnd, ''and''), (KwOr, ''or''),
     (KwNot, ''not''), (KwTrue, ''true''), (KwFalse, ''false''), (KwNull, ''null''),
     (KwThis, ''this''), (KwAwait, ''await''), (KwVoid, ''void''), (LParen, ''(''),
     (RParen, '')''), (LBracket, ''[''), (RBracket, '']''), (LBrace, ''{''), (RBrace, ''}''),
     (Comma, '',''), (Colon, '':''), (Dot, ''.''), (Question, ''?''), (Arrow, ''->''),
     (Tok_Assign, ''=''), (Tok_Eq, ''==''), (NotEq, ''!=''), (Lt, ''<''), (LtEq, ''<=''),
     (Gt, ''>''), (GtEq, ''>=''), (Plus, ''+''), (Minus, ''-''), (Star, ''*''), (Slash, ''/''),
     (Percent, ''%''), (PlusPlus, ''++''), (MinusMinus, ''--''), (PlusEq, ''+=''),
     (MinusEq, ''-=''), (StarEq, ''*=''), (SlashEq, ''/=''), (PercentEq, ''%='')]"

definition tok_name :: "tok \<Rightarrow> string" where
  "tok_name t = (case map_of tok_names t of Some s \<Rightarrow> s | None \<Rightarrow> ''?'')"

text \<open>The reserved words.\<close>

definition reserved_words :: "tok list" where
  "reserved_words = [KwImport, KwClass, KwFn, KwApp, KwGroup, KwEndpoint, KwOn, KwError, KwOrigins,
     KwValidate, KwStatic, KwSpa, KwGet, KwPost, KwPut, KwPatch, KwDelete, KwAny, KwSse, KwWs,
     KwIf, KwElse, KwElif, KwWhile, KwFor, KwIn, KwReturn, KwRequire, KwTry, KwCatch, KwBreak,
     KwContinue, KwAnd, KwOr, KwNot, KwTrue, KwFalse, KwNull, KwThis, KwAwait, KwVoid]"

definition keyword_or_ident :: "string \<Rightarrow> tok" where
  "keyword_or_ident s = (case map_of (map (\<lambda>t. (tok_name t, t)) reserved_words) s of None \<Rightarrow> Ident | Some t \<Rightarrow> t)"

datatype source_loc = Loc (line: nat) (col: nat)

text \<open>Locations are ordered as positions in the file.\<close>

instantiation source_loc :: linorder
begin

definition less_eq_source_loc :: "source_loc \<Rightarrow> source_loc \<Rightarrow> bool" where
  "less_eq_source_loc a b \<longleftrightarrow> line a < line b \<or> (line a = line b \<and> col a \<le> col b)"

definition less_source_loc :: "source_loc \<Rightarrow> source_loc \<Rightarrow> bool" where
  "less_source_loc a b \<longleftrightarrow> line a < line b \<or> (line a = line b \<and> col a < col b)"

instance
  by intro_classes (auto simp: less_eq_source_loc_def less_source_loc_def source_loc.expand)

end

record token =
  tk_kind :: tok
  tk_text :: string
  tk_loc :: source_loc

record diagnostic =
  dg_loc :: source_loc
  dg_message :: string

end
