(* ===== verification/Lexer.thy ===== *)
theory Lexer
  imports Token
begin

text \<open>
  The lexer of the language (src/odio/lexer.cpp): characters to
  tokens, with the blocks of the source turned into Indent and Dedent.  The reading position is
  the text that is left; a line or column is a natural number.
\<close>

section \<open>Characters\<close>

definition is_ident_start :: "char \<Rightarrow> bool" where
  "is_ident_start c \<longleftrightarrow> is_alpha c \<or> c = CHR ''_'' \<or> 0x80 \<le> byte c"

definition is_ident_char :: "char \<Rightarrow> bool" where
  "is_ident_char c \<longleftrightarrow> is_ident_start c \<or> is_digit c"

definition escape_de :: "char \<Rightarrow> char option" where
  "escape_de e =
     (if e = CHR ''n'' then Some (CHR 0x0A)
      else if e = CHR ''t'' then Some (CHR 0x09)
      else if e = CHR ''r'' then Some (CHR 0x0D)
      else if e = CHR ''0'' then Some (CHR 0x00)
      else if e = CHR 0x22 then Some (CHR 0x22)
      else if e = CHR 0x5C then Some (CHR 0x5C)
      else None)"

section \<open>The margin of a triple-quoted string\<close>

text \<open>The lines of a text, split at every line feed; there is always at least one.\<close>

fun text_lines :: "string \<Rightarrow> string list" where
  "text_lines [] = [[]]"
| "text_lines (c # s) =
     (if c = CHR 0x0A then [] # text_lines s
      else case text_lines s of l # ls \<Rightarrow> (c # l) # ls | [] \<Rightarrow> [[c]])"

definition drop_first_break :: "string \<Rightarrow> string" where
  "drop_first_break s =
     (if take 2 s = [CHR 0x0D, CHR 0x0A] then drop 2 s
      else if s \<noteq> [] \<and> hd s = CHR 0x0A then tl s
      else s)"

definition margin_blank :: "char \<Rightarrow> bool" where
  "margin_blank c \<longleftrightarrow> c = CHR '' '' \<or> c = CHR 0x09 \<or> c = CHR 0x0D"

text \<open>The last line is dropped, with the break before it, when it holds only blanks.\<close>

definition drop_last_blank :: "string list \<Rightarrow> string list" where
  "drop_last_blank ls = (if length ls > 1 \<and> list_all margin_blank (last ls) then butlast ls else ls)"

definition line_margin :: "string \<Rightarrow> nat option" where
  "line_margin l =
     (let rest = dropWhile (\<lambda>c. c = CHR '' '') l
      in if rest \<noteq> [] \<and> hd rest \<noteq> CHR 0x0D then Some (length l - length rest) else None)"

definition min_margin :: "nat option \<Rightarrow> string \<Rightarrow> nat option" where
  "min_margin m l =
     (case line_margin l of
        None \<Rightarrow> m
      | Some k \<Rightarrow> Some (case m of None \<Rightarrow> k | Some n \<Rightarrow> min n k))"

definition sin_margen :: "string \<Rightarrow> string" where
  "sin_margen s =
     (let ls = drop_last_blank (text_lines (drop_first_break s))
      in case foldl min_margin None ls of
           None \<Rightarrow> sep_by [CHR 0x0A] ls
         | Some m \<Rightarrow> sep_by [CHR 0x0A] (map (drop m) ls))"

section \<open>The state of the lexer\<close>

record lexer =
  lx_rest :: string
  lx_line :: nat
  lx_col :: nat
  indents :: "nat list"
  bracket_depth :: nat
  at_line_start :: bool
  lx_out :: "token list"
  lx_diags :: "diagnostic list"

definition peek :: "nat \<Rightarrow> lexer \<Rightarrow> char" where
  "peek k lx = (if k < length (lx_rest lx) then lx_rest lx ! k else CHR 0x00)"

definition eof :: "lexer \<Rightarrow> bool" where
  "eof lx \<longleftrightarrow> lx_rest lx = []"

definition here :: "lexer \<Rightarrow> source_loc" where
  "here lx = Loc (lx_line lx) (lx_col lx)"

text \<open>\<open>advance\<close> is only called before the end of the text.\<close>

definition advance :: "lexer \<Rightarrow> lexer" where
  "advance lx =
     (case lx_rest lx of
        [] \<Rightarrow> lx
      | c # s \<Rightarrow> if c = CHR 0x0A then lx\<lparr>lx_rest := s, lx_line := lx_line lx + 1, lx_col := 1\<rparr>
                 else lx\<lparr>lx_rest := s, lx_col := lx_col lx + 1\<rparr>)"

definition advance_n :: "nat \<Rightarrow> lexer \<Rightarrow> lexer" where
  "advance_n n lx = (advance ^^ n) lx"

definition push :: "tok \<Rightarrow> source_loc \<Rightarrow> string \<Rightarrow> lexer \<Rightarrow> lexer" where
  "push k loc t lx = lx\<lparr>lx_out := lx_out lx @ [\<lparr>tk_kind = k, tk_text = t, tk_loc = loc\<rparr>]\<rparr>"

definition lex_error :: "source_loc \<Rightarrow> string \<Rightarrow> lexer \<Rightarrow> lexer" where
  "lex_error loc m lx = lx\<lparr>lx_diags := lx_diags lx @ [\<lparr>dg_loc = loc, dg_message = m\<rparr>]\<rparr>"

definition back_is :: "tok \<Rightarrow> lexer \<Rightarrow> bool" where
  "back_is k lx \<longleftrightarrow> lx_out lx \<noteq> [] \<and> tk_kind (last (lx_out lx)) = k"

definition skip_line_comment :: "lexer \<Rightarrow> lexer" where
  "skip_line_comment lx = advance_n (length (takeWhile (\<lambda>c. c \<noteq> CHR 0x0A) (lx_rest lx))) lx"

lemma advance_smaller: "lx_rest lx \<noteq> [] \<Longrightarrow> length (lx_rest (advance lx)) < length (lx_rest lx)"
  by (cases "lx_rest lx") (auto simp: advance_def)

lemma rest_advance [simp]: "lx_rest (advance lx) = tl (lx_rest lx)"
  by (cases "lx_rest lx") (auto simp: advance_def)

lemma rest_advance_n [simp]: "lx_rest (advance_n n lx) = drop n (lx_rest lx)"
  by (induction n arbitrary: lx) (simp_all add: advance_n_def drop_Suc tl_drop)

lemma rest_push [simp]: "lx_rest (push k loc t lx) = lx_rest lx"
  by (simp add: push_def)

lemma rest_lex_error [simp]: "lx_rest (lex_error loc m lx) = lx_rest lx"
  by (simp add: lex_error_def)

lemma rest_comment: "lx_rest (skip_line_comment lx) = dropWhile (\<lambda>c. c \<noteq> CHR 0x0A) (lx_rest lx)"
  by (simp add: skip_line_comment_def dropWhile_eq_drop)

section \<open>The start of a logical line\<close>

definition indent_char :: "char \<Rightarrow> bool" where
  "indent_char c \<longleftrightarrow> c = CHR '' '' \<or> c = CHR 0x09"

definition skip_empty_line :: "nat \<Rightarrow> lexer \<Rightarrow> lexer" where
  "skip_empty_line width lx =
     (let lx1 = advance_n width lx;
          lx2 = (if peek 0 lx1 = CHR ''#'' then skip_line_comment lx1 else lx1);
          lx3 = (if peek 0 lx2 = CHR 0x0D then advance lx2 else lx2)
      in if peek 0 lx3 = CHR 0x0A then advance lx3 else lx3)"

text \<open>The loop that closes blocks; the top of the stack is the head of the list.\<close>

fun pop_dedents :: "nat \<Rightarrow> source_loc \<Rightarrow> nat list \<Rightarrow> lexer \<Rightarrow> lexer" where
  "pop_dedents width loc [] lx = lx\<lparr>indents := []\<rparr>"
| "pop_dedents width loc (t # ts) lx =
     (if width < t then pop_dedents width loc ts (push Dedent loc [] lx) else lx\<lparr>indents := t # ts\<rparr>)"

definition indent_line :: "nat \<Rightarrow> lexer \<Rightarrow> lexer" where
  "indent_line width lx0 =
     (let lx = advance_n width lx0; loc = here lx
      in if width > hd (indents lx) then push Indent loc [] (lx\<lparr>indents := width # indents lx\<rparr>)
         else let lx1 = pop_dedents width loc (indents lx) lx
              in if width \<noteq> hd (indents lx1)
                 then (lex_error loc ''la indentacion no coincide con ningun nivel abierto'' lx1)\<lparr>indents := width # indents lx1\<rparr>
                 else lx1)"

definition continue_line :: "nat \<Rightarrow> lexer \<Rightarrow> lexer" where
  "continue_line width lx0 =
     (let lx = advance_n width lx0
      in if back_is Newline lx then lx\<lparr>lx_out := butlast (lx_out lx)\<rparr> else lx)"

function handle_line_start :: "lexer \<Rightarrow> lexer" where
  "handle_line_start lx =
     (if eof lx then lx
      else let pre = takeWhile indent_char (lx_rest lx); width = length pre
           in case dropWhile indent_char (lx_rest lx) of
                [] \<Rightarrow> lx\<lparr>lx_rest := [], lx_col := lx_col lx + width\<rparr>
              | c # s \<Rightarrow>
                  if c = CHR 0x0A \<or> c = CHR 0x0D \<or> c = CHR ''#'' then handle_line_start (skip_empty_line width lx)
                  else let lx1 = (if CHR 0x09 \<in> set pre
                                  then lex_error (Loc (lx_line lx) 1) ''indentacion con tabulador: usa espacios'' lx
                                  else lx)
                       in (if c = CHR ''.'' \<and> \<not> is_digit (if s = [] then CHR 0x00 else hd s)
                           then continue_line width lx1 else indent_line width lx1)\<lparr>at_line_start := False\<rparr>)"
  by pat_completeness auto
termination
proof (relation "measure (\<lambda>lx. length (lx_rest lx))", simp)
  fix lx :: lexer and pre width c and s :: string
  assume pre: "pre = takeWhile indent_char (lx_rest lx)" and width: "width = length pre"
    and after: "dropWhile indent_char (lx_rest lx) = c # s" and c: "c = CHR 0x0A \<or> c = CHR 0x0D \<or> c = CHR ''#''"
  have d: "drop width (lx_rest lx) = c # s"
    using after by (simp add: width pre dropWhile_eq_drop)
  have "length (lx_rest (skip_empty_line width lx)) \<le> length s"
  proof -
    have "length (dropWhile (\<lambda>c. c \<noteq> CHR 0x0A) s) \<le> length s" by (rule length_dropWhile_le)
    with c d show ?thesis
      by (auto simp: skip_empty_line_def Let_def peek_def rest_comment hd_conv_nth [symmetric])
  qed
  also have "\<dots> < length (lx_rest lx)"
  proof -
    have "length (drop width (lx_rest lx)) = Suc (length s)" using d by simp
    then show ?thesis by simp
  qed
  finally show "(skip_empty_line width lx, lx) \<in> measure (\<lambda>lx. length (lx_rest lx))" by simp
qed

declare handle_line_start.simps [simp del]

section \<open>Tokens with text\<close>

definition lex_number :: "source_loc \<Rightarrow> lexer \<Rightarrow> lexer" where
  "lex_number loc lx =
     (let ds = takeWhile is_digit (lx_rest lx); lx1 = advance_n (length ds) lx
      in if peek 0 lx1 = CHR ''.'' \<and> is_digit (peek 1 lx1) then
           (let lx2 = advance lx1; fs = takeWhile is_digit (lx_rest lx2)
            in push Tok_Float loc (ds @ ''.'' @ fs) (advance_n (length fs) lx2))
         else push Tok_Int loc ds lx1)"

function string_loop :: "source_loc \<Rightarrow> string \<Rightarrow> lexer \<Rightarrow> string \<times> lexer" where
  "string_loop loc val lx =
     (case lx_rest lx of
        [] \<Rightarrow> (val, lex_error loc ''cadena sin cerrar'' lx)
      | c # s \<Rightarrow>
          if c = CHR 0x0A then (val, lex_error loc ''cadena sin cerrar'' lx)
          else if c = CHR 0x22 then (val, advance lx)
          else if c \<noteq> CHR 0x5C then string_loop loc (val @ [c]) (advance lx)
          else case s of
                 [] \<Rightarrow> (val, lex_error loc ''cadena sin cerrar'' (advance lx))
               | e # s' \<Rightarrow>
                   (let lx2 = advance (advance lx)
                    in case escape_de e of
                         Some d \<Rightarrow> string_loop loc (val @ [d]) lx2
                       | None \<Rightarrow> string_loop loc (val @ [e])
                           (lex_error (Loc (lx_line lx2) (lx_col lx2 - 1)) (''escape desconocido: '' @ [CHR 0x5C, e]) lx2)))"
  by pat_completeness auto
termination
  by (relation "measure (\<lambda>(loc, val, lx). length (lx_rest lx))") auto

declare string_loop.simps [simp del]

text \<open>The raw text of a triple-quoted string: a backslash travels with what follows it.\<close>

function raw_loop :: "string \<Rightarrow> lexer \<Rightarrow> string \<times> bool \<times> lexer" where
  "raw_loop bruto lx =
     (if eof lx then (bruto, False, lx)
      else if peek 0 lx = CHR 0x22 \<and> peek 1 lx = CHR 0x22 \<and> peek 2 lx = CHR 0x22
        then (bruto, True, advance_n 3 lx)
      else if peek 0 lx = CHR 0x5C \<and> 1 < length (lx_rest lx)
        then raw_loop (bruto @ take 2 (lx_rest lx)) (advance_n 2 lx)
      else raw_loop (bruto @ [hd (lx_rest lx)]) (advance lx))"
  by pat_completeness auto
termination
  by (relation "measure (\<lambda>(bruto, lx). length (lx_rest lx))") (auto simp: eof_def)

declare raw_loop.simps [simp del]

fun unescape :: "source_loc \<Rightarrow> string \<Rightarrow> lexer \<Rightarrow> string \<times> lexer" where
  "unescape loc [] lx = ([], lx)"
| "unescape loc [c] lx = ([c], lx)"
| "unescape loc (c # e # s) lx =
     (if c \<noteq> CHR 0x5C then (let (t, lx') = unescape loc (e # s) lx in (c # t, lx'))
      else case escape_de e of
             Some d \<Rightarrow> (let (t, lx') = unescape loc s lx in (d # t, lx'))
           | None \<Rightarrow> (let (t, lx') = unescape loc s (lex_error loc (''escape desconocido: '' @ [CHR 0x5C, e]) lx)
                      in (e # t, lx')))"

definition lex_string_multi :: "source_loc \<Rightarrow> lexer \<Rightarrow> lexer" where
  "lex_string_multi loc lx =
     (let (bruto, cerrada, lx1) = raw_loop [] (advance_n 3 lx);
          lx2 = (if cerrada then lx1 else lex_error loc ''cadena sin cerrar: faltan las tres comillas del final'' lx1);
          (val, lx3) = unescape loc (sin_margen bruto) lx2
      in push Tok_String loc val lx3)"

definition lex_string :: "source_loc \<Rightarrow> lexer \<Rightarrow> lexer" where
  "lex_string loc lx =
     (if peek 1 lx = CHR 0x22 \<and> peek 2 lx = CHR 0x22 then lex_string_multi loc lx
      else let (val, lx1) = string_loop loc [] (advance lx) in push Tok_String loc val lx1)"

definition lex_ident :: "source_loc \<Rightarrow> lexer \<Rightarrow> lexer" where
  "lex_ident loc lx =
     (let t = takeWhile is_ident_char (lx_rest lx)
      in push (keyword_or_ident t) loc t (advance_n (length t) lx))"

section \<open>One token\<close>

text \<open>A character that may be followed by one of a few others to make a longer operator.\<close>

fun lex_choice :: "(char \<times> tok) list \<Rightarrow> tok \<Rightarrow> source_loc \<Rightarrow> lexer \<Rightarrow> lexer" where
  "lex_choice [] t loc lx = push t loc [] lx"
| "lex_choice ((c, k) # cs) t loc lx =
     (if peek 0 lx = c then push k loc [] (advance lx) else lex_choice cs t loc lx)"

definition open_bracket :: "tok \<Rightarrow> source_loc \<Rightarrow> lexer \<Rightarrow> lexer" where
  "open_bracket k loc lx = push k loc [] (lx\<lparr>bracket_depth := bracket_depth lx + 1\<rparr>)"

definition close_bracket :: "tok \<Rightarrow> source_loc \<Rightarrow> lexer \<Rightarrow> lexer" where
  "close_bracket k loc lx = push k loc [] (lx\<lparr>bracket_depth := bracket_depth lx - 1\<rparr>)"

text \<open>The switch on the character, which has been consumed.\<close>

definition lex_operator :: "char \<Rightarrow> source_loc \<Rightarrow> lexer \<Rightarrow> lexer" where
  "lex_operator c loc lx =
     (if c = CHR ''('' then open_bracket LParen loc lx
      else if c = CHR '')'' then close_bracket RParen loc lx
      else if c = CHR ''['' then open_bracket LBracket loc lx
      else if c = CHR '']'' then close_bracket RBracket loc lx
      else if c = CHR ''{'' then open_bracket LBrace loc lx
      else if c = CHR ''}'' then close_bracket RBrace loc lx
      else if c = CHR '','' then push Comma loc [] lx
      else if c = CHR '':'' then push Colon loc [] lx
      else if c = CHR ''.'' then push Dot loc [] lx
      else if c = CHR ''?'' then push Question loc [] lx
      else if c = CHR ''+'' then lex_choice [(CHR ''+'', PlusPlus), (CHR ''='', PlusEq)] Plus loc lx
      else if c = CHR ''*'' then lex_choice [(CHR ''='', StarEq)] Star loc lx
      else if c = CHR ''/'' then lex_choice [(CHR ''='', SlashEq)] Slash loc lx
      else if c = CHR ''%'' then lex_choice [(CHR ''='', PercentEq)] Percent loc lx
      else if c = CHR ''-'' then
        lex_choice [(CHR ''>'', Arrow), (CHR ''-'', MinusMinus), (CHR ''='', MinusEq)] Minus loc lx
      else if c = CHR ''='' then lex_choice [(CHR ''='', Tok_Eq)] Tok_Assign loc lx
      else if c = CHR ''!'' then
        (if peek 0 lx = CHR ''='' then push NotEq loc [] (advance lx)
         else lex_error loc (CHR 0x27 # ''!'' @ CHR 0x27 # '' suelto: la negacion se escribe '' @ CHR 0x27 # ''not'' @ [CHR 0x27]) lx)
      else if c = CHR ''<'' then lex_choice [(CHR ''='', LtEq)] Lt loc lx
      else if c = CHR ''>'' then lex_choice [(CHR ''='', GtEq)] Gt loc lx
      else lex_error loc (''caracter inesperado: '' @ [CHR 0x27, c, CHR 0x27]) lx)"

definition lex_token :: "lexer \<Rightarrow> lexer" where
  "lex_token lx =
     (let c = peek 0 lx; loc = here lx
      in if is_digit c then lex_number loc lx
         else if c = CHR 0x22 then lex_string loc lx
         else if is_ident_start c then lex_ident loc lx
         else lex_operator c loc (advance lx))"

lemma peek_hd: "lx_rest lx = c # s \<Longrightarrow> peek 0 lx = c"
  by (simp add: peek_def)

lemma string_loop_cases:
  "string_loop loc v lx =
     (case lx_rest lx of
        [] \<Rightarrow> (v, lex_error loc ''cadena sin cerrar'' lx)
      | c # s \<Rightarrow>
          if c = CHR 0x0A then (v, lex_error loc ''cadena sin cerrar'' lx)
          else if c = CHR 0x22 then (v, advance lx)
          else if c \<noteq> CHR 0x5C then string_loop loc (v @ [c]) (advance lx)
          else case s of
                 [] \<Rightarrow> (v, lex_error loc ''cadena sin cerrar'' (advance lx))
               | e # s' \<Rightarrow>
                   (case escape_de e of
                      Some d \<Rightarrow> string_loop loc (v @ [d]) (advance (advance lx))
                    | None \<Rightarrow> string_loop loc (v @ [e])
                        (lex_error (Loc (lx_line (advance (advance lx))) (lx_col (advance (advance lx)) - 1))
                           (''escape desconocido: '' @ [CHR 0x5C, e]) (advance (advance lx)))))"
  by (subst string_loop.simps) (simp only: Let_def)

text \<open>An invariant that every step of the reading loop of a string keeps, it keeps.\<close>

lemma string_loop_keeps:
  assumes adv: "\<And>lx. P lx \<Longrightarrow> lx_rest lx \<noteq> [] \<Longrightarrow> P (advance lx)"
    and err: "\<And>lx l m. P lx \<Longrightarrow> P (lex_error l m lx)"
  shows "P lx \<Longrightarrow> P (snd (string_loop loc v lx))"
proof (induction loc v lx rule: string_loop.induct)
  case (1 loc v lx)
  show ?case
  proof (cases "lx_rest lx")
    case Nil
    with 1(4) err show ?thesis by (simp add: string_loop_cases [of loc v lx])
  next
    case (Cons c s)
    have a: "P (advance lx)" using adv [OF 1(4)] Cons by simp
    show ?thesis
    proof (cases "c = CHR 0x0A \<or> c = CHR 0x22")
      case True
      with a 1(4) err Cons show ?thesis by (auto simp: string_loop_cases [of loc v lx])
    next
      case nl: False
      show ?thesis
      proof (cases "c = CHR 0x5C")
        case no: False
        with nl Cons 1(1) [of c s] a show ?thesis by (simp add: string_loop_cases [of loc v lx])
      next
        case bs: True
        show ?thesis
        proof (cases s)
          case Nil
          with bs nl Cons a err show ?thesis by (simp add: string_loop_cases [of loc v lx])
        next
          case s: (Cons e s')
          have aa: "P (advance (advance lx))" using adv [OF a] Cons s by simp
          show ?thesis
          proof (cases "escape_de e")
            case None
            have "P (snd (string_loop loc (v @ [e])
                (lex_error (Loc (lx_line (advance (advance lx))) (lx_col (advance (advance lx)) - 1))
                  (''escape desconocido: '' @ [CHR 0x5C, e]) (advance (advance lx)))))"
              using 1(2) [OF Cons _ _ _ s refl None err [OF aa]] bs nl by blast
            then show ?thesis
              using Cons s bs nl None by (simp add: string_loop_cases [of loc v lx])
          next
            case (Some d)
            with 1(3) [of c s e s'] Cons s bs nl aa show ?thesis
              by (simp add: string_loop_cases [of loc v lx])
          qed
        qed
      qed
    qed
  qed
qed

lemma string_loop_le: "length (lx_rest (snd (string_loop loc v lx))) \<le> length (lx_rest lx)"
  by (rule string_loop_keeps [where P = "\<lambda>l. length (lx_rest l) \<le> length (lx_rest lx)"]) auto

lemma advance_n_keeps:
  assumes "\<And>lx. P lx \<Longrightarrow> lx_rest lx \<noteq> [] \<Longrightarrow> P (advance lx)"
  shows "P lx \<Longrightarrow> P (advance_n n lx)"
proof (induction n)
  case (Suc n)
  have "advance_n (Suc n) lx = advance (advance_n n lx)" by (simp add: advance_n_def)
  moreover have "advance l = l" if "lx_rest l = []" for l using that by (simp add: advance_def)
  ultimately show ?case using Suc assms [of "advance_n n lx"] by (cases "lx_rest (advance_n n lx) = []") metis+
qed (simp add: advance_n_def)

lemma raw_loop_keeps:
  assumes adv: "\<And>lx. P lx \<Longrightarrow> lx_rest lx \<noteq> [] \<Longrightarrow> P (advance lx)"
  shows "P lx \<Longrightarrow> P (snd (snd (raw_loop b lx)))"
proof (induction b lx rule: raw_loop.induct)
  case (1 b lx)
  note n = advance_n_keeps [of P, OF adv "1.prems"]
  have a: "lx_rest lx \<noteq> [] \<Longrightarrow> P (advance lx)" using adv "1.prems" by blast
  show ?case
  proof (cases "eof lx")
    case True
    then show ?thesis by (subst raw_loop.simps) (simp add: "1.prems")
  next
    case False
    with a n 1 show ?thesis by (subst raw_loop.simps) (simp add: eof_def)
  qed
qed

lemma raw_loop_le: "length (lx_rest (snd (snd (raw_loop b lx)))) \<le> length (lx_rest lx)"
  by (rule raw_loop_keeps [where P = "\<lambda>l. length (lx_rest l) \<le> length (lx_rest lx)"]) auto

lemma unescape_rest [simp]: "unescape loc s lx = (t, lx') \<Longrightarrow> lx_rest lx' = lx_rest lx"
  by (induction loc s lx arbitrary: t lx' rule: unescape.induct)
    (auto split: if_splits prod.splits option.splits)

lemma rest_lex_choice: "length (lx_rest (lex_choice cs t loc lx)) \<le> length (lx_rest lx)"
  by (induction cs) auto

lemma rest_lex_operator: "length (lx_rest (lex_operator c loc lx)) \<le> length (lx_rest lx)"
  unfolding lex_operator_def using rest_lex_choice
  by (auto simp: open_bracket_def close_bracket_def)

lemma lex_token_smaller:
  assumes "\<not> eof lx"
  shows "length (lx_rest (lex_token lx)) < length (lx_rest lx)"
proof -
  obtain c s where cs: "lx_rest lx = c # s" using assms by (cases "lx_rest lx") (auto simp: eof_def)
  consider (num) "is_digit c" | (str) "\<not> is_digit c" "c = CHR 0x22"
    | (id) "\<not> is_digit c" "c \<noteq> CHR 0x22" "is_ident_start c"
    | (op) "\<not> is_digit c" "c \<noteq> CHR 0x22" "\<not> is_ident_start c" by blast
  then show ?thesis
  proof cases
    case num
    then show ?thesis
      by (auto simp: lex_token_def Let_def peek_hd [OF cs] lex_number_def cs)
  next
    case str
    obtain v lx1 where sl: "string_loop (here lx) [] (advance lx) = (v, lx1)" by (cases "string_loop (here lx) [] (advance lx)")
    obtain b z lx2 where rl: "raw_loop [] (advance_n 3 lx) = (b, z, lx2)" by (metis prod_cases3)
    have "length (lx_rest lx1) \<le> length s" "length (lx_rest lx2) \<le> length s"
      using string_loop_le [of "here lx" "[]" "advance lx"] raw_loop_le [of "[]" "advance_n 3 lx"] by (simp_all add: sl rl cs)
    with str sl rl show ?thesis
      by (auto simp: lex_token_def Let_def peek_hd [OF cs] lex_string_def lex_string_multi_def cs split: prod.splits)
  next
    case id
    then show ?thesis
      by (auto simp: lex_token_def Let_def peek_hd [OF cs] lex_ident_def cs is_ident_char_def)
  next
    case op
    have "length (lx_rest (lex_operator c (here lx) (advance lx))) \<le> length s"
      using rest_lex_operator [of c "here lx" "advance lx"] cs by simp
    with op show ?thesis by (simp add: lex_token_def Let_def peek_hd [OF cs] cs)
  qed
qed

lemma rest_pop_dedents [simp]: "lx_rest (pop_dedents w loc ts lx) = lx_rest lx"
  by (induction w loc ts lx rule: pop_dedents.induct) auto

lemma rest_indent_line: "lx_rest (indent_line w lx) = drop w (lx_rest lx)"
  by (simp add: indent_line_def Let_def)

lemma rest_continue_line: "lx_rest (continue_line w lx) = drop w (lx_rest lx)"
  by (simp add: continue_line_def Let_def)

lemma rest_skip_empty_line: "length (lx_rest (skip_empty_line w lx)) \<le> length (lx_rest lx)"
proof -
  have "length (dropWhile (\<lambda>c. c \<noteq> CHR 0x0A) (drop w (lx_rest lx))) \<le> length (drop w (lx_rest lx))"
    by (rule length_dropWhile_le)
  then show ?thesis by (auto simp: skip_empty_line_def Let_def rest_comment)
qed

lemma handle_line_start_eof: "eof lx \<Longrightarrow> handle_line_start lx = lx"
  by (subst handle_line_start.simps) simp

lemma handle_line_start_blank:
  "\<not> eof lx \<Longrightarrow> dropWhile indent_char (lx_rest lx) = [] \<Longrightarrow> handle_line_start lx
    = lx\<lparr>lx_rest := [], lx_col := lx_col lx + length (takeWhile indent_char (lx_rest lx))\<rparr>"
  by (subst handle_line_start.simps) (simp add: Let_def del: dropWhile_eq_Nil_conv)

lemma handle_line_start_empty:
  "\<not> eof lx \<Longrightarrow> dropWhile indent_char (lx_rest lx) = c # s \<Longrightarrow> c = CHR 0x0A \<or> c = CHR 0x0D \<or> c = CHR ''#'' \<Longrightarrow>
   handle_line_start lx = handle_line_start (skip_empty_line (length (takeWhile indent_char (lx_rest lx))) lx)"
  by (subst handle_line_start.simps) (simp only: Let_def list.case if_True if_False)

text \<open>A line with content: the diagnostic for tabulators, then a continuation or an indentation.\<close>

definition warn_tabs :: "lexer \<Rightarrow> lexer" where
  "warn_tabs lx = (if CHR 0x09 \<in> set (takeWhile indent_char (lx_rest lx))
     then lex_error (Loc (lx_line lx) 1) ''indentacion con tabulador: usa espacios'' lx else lx)"

lemma handle_line_start_content:
  "\<not> eof lx \<Longrightarrow> dropWhile indent_char (lx_rest lx) = c # s \<Longrightarrow> \<not> (c = CHR 0x0A \<or> c = CHR 0x0D \<or> c = CHR ''#'') \<Longrightarrow>
   handle_line_start lx =
     (if c = CHR ''.'' \<and> \<not> is_digit (if s = [] then CHR 0x00 else hd s)
      then continue_line (length (takeWhile indent_char (lx_rest lx))) (warn_tabs lx)
      else indent_line (length (takeWhile indent_char (lx_rest lx))) (warn_tabs lx))\<lparr>at_line_start := False\<rparr>"
  by (subst handle_line_start.simps) (simp only: Let_def list.case if_False warn_tabs_def)

lemma rest_warn_tabs [simp]: "lx_rest (warn_tabs lx) = lx_rest lx"
  by (simp add: warn_tabs_def)

text \<open>An invariant kept on every kind of line is kept by the whole.\<close>

lemma handle_line_start_keeps:
  assumes "P lx"
    and blank: "\<And>lx. P lx \<Longrightarrow> P (lx\<lparr>lx_rest := [], lx_col := lx_col lx + length (lx_rest lx)\<rparr>)"
    and empty: "\<And>lx w. P lx \<Longrightarrow> P (skip_empty_line w lx)"
    and cont: "\<And>lx w. P lx \<Longrightarrow> P ((continue_line w (warn_tabs lx))\<lparr>at_line_start := False\<rparr>)"
    and ind: "\<And>lx w. P lx \<Longrightarrow> P ((indent_line w (warn_tabs lx))\<lparr>at_line_start := False\<rparr>)"
  shows "P (handle_line_start lx)"
  using assms(1)
proof (induction lx rule: handle_line_start.induct)
  case (1 lx)
  show ?case
  proof (cases "eof lx")
    case False
    show ?thesis
    proof (cases "dropWhile indent_char (lx_rest lx)")
      case Nil
      then have "takeWhile indent_char (lx_rest lx) = lx_rest lx"
        by (metis append_Nil2 takeWhile_dropWhile_id)
      then show ?thesis using blank [OF 1(2)] by (simp only: handle_line_start_blank [OF False Nil])
    next
      case (Cons c s)
      show ?thesis
      proof (cases "c = CHR 0x0A \<or> c = CHR 0x0D \<or> c = CHR ''#''")
        case True
        with 1(1) [OF False refl refl Cons True empty [OF 1(2)]] show ?thesis
          by (simp only: handle_line_start_empty [OF False Cons True])
      next
        case no: False
        show ?thesis unfolding handle_line_start_content [OF False Cons no]
          using cont [OF 1(2)] ind [OF 1(2)] by (cases "c = CHR ''.'' \<and> \<not> is_digit (if s = [] then CHR 0x00 else hd s)") simp_all
      qed
    qed
  qed (use 1(2) in \<open>simp add: handle_line_start_eof\<close>)
qed

lemma handle_line_start_le: "length (lx_rest (handle_line_start lx)) \<le> length (lx_rest lx)"
  by (rule handle_line_start_keeps [where P = "\<lambda>l. length (lx_rest l) \<le> length (lx_rest lx)"])
    (auto simp: rest_indent_line rest_continue_line intro: le_trans [OF rest_skip_empty_line])

section \<open>The whole file\<close>

definition end_of_line :: "lexer \<Rightarrow> lexer" where
  "end_of_line lx =
     (let eol = here lx; lx1 = advance lx
      in if bracket_depth lx1 = 0 then
           (let lx2 = (if lx_out lx1 \<noteq> [] \<and> \<not> back_is Newline lx1 \<and> \<not> back_is Indent lx1 \<and> \<not> back_is Dedent lx1
                       then push Newline eol [] lx1 else lx1)
            in lx2\<lparr>at_line_start := True\<rparr>)
         else lx1)"

lemma rest_end_of_line [simp]: "lx_rest (end_of_line lx) = tl (lx_rest lx)"
  by (simp add: end_of_line_def Let_def)

function lex_loop :: "lexer \<Rightarrow> lexer" where
  "lex_loop lx0 =
     (let lx = (if at_line_start lx0 \<and> bracket_depth lx0 = 0 then handle_line_start lx0 else lx0)
      in case lx_rest lx of
           [] \<Rightarrow> lx
         | c # s \<Rightarrow>
             if c = CHR '' '' \<or> c = CHR 0x09 \<or> c = CHR 0x0D then lex_loop (advance lx)
             else if c = CHR ''#'' then lex_loop (skip_line_comment lx)
             else if c = CHR 0x0A then lex_loop (end_of_line lx)
             else lex_loop (lex_token lx))"
  by pat_completeness auto
termination
proof (relation "measure (\<lambda>lx. length (lx_rest lx))", goal_cases)
  case (2 lx0 lx c s)
  have "length (lx_rest lx) \<le> length (lx_rest lx0)" unfolding 2(1) by (simp add: handle_line_start_le)
  with 2(2) show ?case by simp
next
  case (3 lx0 lx c s)
  have "length (lx_rest lx) \<le> length (lx_rest lx0)" unfolding 3(1) by (simp add: handle_line_start_le)
  moreover have "length (dropWhile (\<lambda>c. c \<noteq> CHR 0x0A) s) \<le> length s" by (rule length_dropWhile_le)
  ultimately show ?case using 3(2,4) by (simp add: rest_comment)
next
  case (4 lx0 lx c s)
  have "length (lx_rest lx) \<le> length (lx_rest lx0)" unfolding 4(1) by (simp add: handle_line_start_le)
  with 4(2) show ?case by simp
next
  case (5 lx0 lx c s)
  have "length (lx_rest lx) \<le> length (lx_rest lx0)" unfolding 5(1) by (simp add: handle_line_start_le)
  moreover have "length (lx_rest (lex_token lx)) < length (lx_rest lx)"
    using 5(2) by (intro lex_token_smaller) (simp add: eof_def)
  ultimately show ?case by simp
qed simp

declare lex_loop.simps [simp del]

definition new_lexer :: "string \<Rightarrow> lexer" where
  "new_lexer src = \<lparr>lx_rest = src, lx_line = 1, lx_col = 1, indents = [0], bracket_depth = 0,
     at_line_start = True, lx_out = [], lx_diags = []\<rparr>"

fun close_blocks :: "source_loc \<Rightarrow> nat list \<Rightarrow> lexer \<Rightarrow> lexer" where
  "close_blocks loc (t # u # ts) lx = close_blocks loc (u # ts) (push Dedent loc [] lx)"
| "close_blocks loc ts lx = lx\<lparr>indents := ts\<rparr>"

definition lex_end :: "lexer \<Rightarrow> lexer" where
  "lex_end lx0 =
     (let loc = here lx0;
          lx1 = (if lx_out lx0 \<noteq> [] \<and> \<not> back_is Newline lx0 then push Newline loc [] lx0 else lx0);
          lx2 = close_blocks loc (indents lx1) lx1;
          lx3 = push EndOfFile loc [] lx2
      in if bracket_depth lx3 \<noteq> 0 then lex_error loc ''parentesis o corchete sin cerrar'' lx3 else lx3)"

definition tokenize :: "string \<Rightarrow> token list \<times> diagnostic list" where
  "tokenize src = (let lx = lex_end (lex_loop (new_lexer src)) in (lx_out lx, lx_diags lx))"

section \<open>What every token keeps\<close>

definition plain_tok :: "tok \<Rightarrow> bool" where
  "plain_tok k \<longleftrightarrow> k \<noteq> EndOfFile \<and> k \<noteq> Indent \<and> k \<noteq> Dedent"

lemma keyword_plain: "plain_tok (keyword_or_ident t)"
proof (cases "map_of (map (\<lambda>t. (tok_name t, t)) reserved_words) t")
  case (Some k)
  then have "k \<in> set reserved_words" by (auto dest!: map_of_SomeD)
  moreover have "list_all plain_tok reserved_words" by (simp add: reserved_words_def plain_tok_def)
  ultimately show ?thesis using Some by (simp add: keyword_or_ident_def list_all_iff)
qed (simp add: keyword_or_ident_def plain_tok_def)

lemma plain_toks [simp]: "plain_tok Tok_Int" "plain_tok Tok_Float" "plain_tok Tok_String" "plain_tok Newline"
  "plain_tok LParen" "plain_tok RParen" "plain_tok LBracket" "plain_tok RBracket" "plain_tok LBrace"
  "plain_tok RBrace" "plain_tok Comma" "plain_tok Colon" "plain_tok Dot" "plain_tok Question"
  "plain_tok Plus" "plain_tok PlusPlus" "plain_tok PlusEq" "plain_tok Star" "plain_tok StarEq"
  "plain_tok Slash" "plain_tok SlashEq" "plain_tok Percent" "plain_tok PercentEq" "plain_tok Minus"
  "plain_tok Arrow" "plain_tok MinusMinus" "plain_tok MinusEq" "plain_tok Tok_Assign" "plain_tok Tok_Eq"
  "plain_tok NotEq" "plain_tok Lt" "plain_tok LtEq" "plain_tok Gt" "plain_tok GtEq"
  by (simp_all add: plain_tok_def)

text \<open>
  The interface between the scanner of one token and an invariant of the state: it is kept by
  reading, by reporting, by bracket counting and by emitting a plain token at the start location.
\<close>

locale token_invariant =
  fixes P :: "source_loc \<Rightarrow> lexer \<Rightarrow> bool"
  assumes adv: "P l lx \<Longrightarrow> P l (advance lx)"
    and err: "P l lx \<Longrightarrow> P l (lex_error l' m lx)"
    and brk: "P l lx \<Longrightarrow> P l (lx\<lparr>bracket_depth := n\<rparr>)"
    and psh: "P l lx \<Longrightarrow> plain_tok k \<Longrightarrow> P l (push k l t lx)"
begin

lemma adv_n: "P l lx \<Longrightarrow> P l (advance_n n lx)"
  by (rule advance_n_keeps [of "P l"]) (rule adv)

lemma comment: "P l lx \<Longrightarrow> P l (skip_line_comment lx)"
  by (simp add: skip_line_comment_def adv_n)

lemma number: "P l lx \<Longrightarrow> P l (lex_number l lx)"
  by (simp add: lex_number_def Let_def adv adv_n psh)

lemma unescaped: "P l lx \<Longrightarrow> P l (snd (unescape l' s lx))"
  by (induction l' s lx rule: unescape.induct) (auto simp: err split: option.splits prod.splits)

lemma raw_string: "P l lx \<Longrightarrow> P l (lex_string_multi l lx)"
proof -
  assume p: "P l lx"
  obtain b z lx1 where r: "raw_loop [] (advance_n 3 lx) = (b, z, lx1)" by (metis prod_cases3)
  have "P l lx1" using raw_loop_keeps [of "P l" "advance_n 3 lx" "[]"] adv adv_n [OF p] r by simp
  let ?lx2 = "if z then lx1 else lex_error l ''cadena sin cerrar: faltan las tres comillas del final'' lx1"
  have p2: "P l ?lx2" using \<open>P l lx1\<close> by (simp add: err)
  obtain v lx3 where u: "unescape l (sin_margen b) ?lx2 = (v, lx3)"
    by (cases "unescape l (sin_margen b) ?lx2")
  have "P l lx3" using unescaped [OF p2, of l "sin_margen b"] unfolding u by simp
  then show ?thesis unfolding lex_string_multi_def r Let_def prod.case u by (simp add: psh)
qed

lemma string: "P l lx \<Longrightarrow> P l (lex_string l lx)"
proof -
  assume p: "P l lx"
  then have "P l (snd (string_loop l [] (advance lx)))"
    by (intro string_loop_keeps [of "P l"]) (auto intro: adv err)
  with raw_string [OF p] show ?thesis
    by (auto simp: lex_string_def intro!: psh split: prod.split)
qed

lemma ident_token: "P l lx \<Longrightarrow> P l (lex_ident l lx)"
  by (simp add: lex_ident_def Let_def adv_n psh keyword_plain)

lemma choice: "P l lx \<Longrightarrow> plain_tok t \<Longrightarrow> list_all (plain_tok \<circ> snd) cs \<Longrightarrow> P l (lex_choice cs t l lx)"
  by (induction cs t l lx rule: lex_choice.induct) (auto simp: adv psh)

lemma if_keeps: "P l x \<Longrightarrow> P l y \<Longrightarrow> P l (if b then x else y)"
  by simp

lemma operator: "P l lx \<Longrightarrow> P l (lex_operator c l lx)"
  unfolding lex_operator_def open_bracket_def close_bracket_def
  by (intro if_keeps choice psh brk err adv; simp)

lemma token: "P (here lx) lx \<Longrightarrow> P (here lx) (lex_token lx)"
  by (simp add: lex_token_def Let_def number string ident_token operator adv)

lemma empty_line: "P l lx \<Longrightarrow> P l (skip_empty_line w lx)"
  by (simp add: skip_empty_line_def Let_def adv adv_n comment)

end

section \<open>Blocks\<close>

text \<open>The depth of nesting after a list of token kinds, \<open>None\<close> when a block is closed twice.\<close>

fun block_depth :: "nat \<Rightarrow> tok list \<Rightarrow> nat option" where
  "block_depth d [] = Some d"
| "block_depth d (k # ks) =
     (if k = Indent then block_depth (d + 1) ks
      else if k = Dedent then (if d = 0 then None else block_depth (d - 1) ks)
      else block_depth d ks)"

lemma block_depth_append:
  "block_depth d (ks @ ls) = (case block_depth d ks of None \<Rightarrow> None | Some e \<Rightarrow> block_depth e ls)"
  by (induction d ks rule: block_depth.induct) auto

definition kinds :: "lexer \<Rightarrow> tok list" where
  "kinds lx = map tk_kind (lx_out lx)"

definition block_inv :: "lexer \<Rightarrow> bool" where
  "block_inv lx \<longleftrightarrow> indents lx \<noteq> [] \<and> last (indents lx) = 0 \<and> EndOfFile \<notin> set (kinds lx)
     \<and> (lx_diags lx = [] \<longrightarrow> block_depth 0 (kinds lx) = Some (length (indents lx) - 1))"

lemma advance_fields [simp]: "indents (advance lx) = indents lx" "lx_diags (advance lx) = lx_diags lx"
  "lx_out (advance lx) = lx_out lx" "bracket_depth (advance lx) = bracket_depth lx"
  by (simp_all add: advance_def split: list.split)

lemma kinds_simps [simp]: "kinds (advance lx) = kinds lx" "kinds (lex_error l m lx) = kinds lx"
  "kinds (push k l t lx) = kinds lx @ [k]" "indents (push k l t lx) = indents lx"
  "lx_diags (push k l t lx) = lx_diags lx" "indents (lex_error l m lx) = indents lx"
  "lx_diags (lex_error l m lx) \<noteq> []" "kinds (lx\<lparr>bracket_depth := n\<rparr>) = kinds lx"
  "kinds (lx\<lparr>indents := is\<rparr>) = kinds lx"
  by (simp_all add: kinds_def lex_error_def push_def)

lemma block_inv_update [simp]: "block_inv (lx\<lparr>bracket_depth := n\<rparr>) = block_inv lx"
  "block_inv (lx\<lparr>at_line_start := b\<rparr>) = block_inv lx" "block_inv (lx\<lparr>lx_rest := r, lx_col := n\<rparr>) = block_inv lx"
  by (simp_all add: block_inv_def kinds_def)

interpretation blocks: token_invariant "\<lambda>l. block_inv"
  by unfold_locales (auto simp: block_inv_def plain_tok_def block_depth_append)

lemma pop_dedents_block:
  "ts \<noteq> [] \<Longrightarrow> last ts = 0 \<Longrightarrow> EndOfFile \<notin> set (kinds lx) \<Longrightarrow>
   (lx_diags lx = [] \<longrightarrow> block_depth 0 (kinds lx) = Some (length ts - 1)) \<Longrightarrow> block_inv (pop_dedents w l ts lx)"
proof (induction w l ts lx rule: pop_dedents.induct)
  case (2 w l t ts lx)
  show ?case
  proof (cases "w < t")
    case True
    with 2 have "ts \<noteq> []" by auto
    moreover from this have "length (t # ts) - 1 \<noteq> 0" by (cases ts) auto
    ultimately show ?thesis using 2 True by (simp add: block_depth_append)
  next
    case False
    with 2 show ?thesis by (simp add: block_inv_def kinds_def)
  qed
qed simp

lemma block_inv_indent_line: "block_inv lx \<Longrightarrow> block_inv (indent_line w lx)"
proof -
  assume "block_inv lx"
  then have inv: "block_inv (advance_n w lx)" by (rule blocks.adv_n)
  let ?lx = "advance_n w lx"
  have pop: "block_inv (pop_dedents w l (indents ?lx) ?lx)" for l
    using inv by (intro pop_dedents_block) (auto simp: block_inv_def)
  have up: "block_inv (push Indent l [] (?lx\<lparr>indents := w # indents ?lx\<rparr>))" for l
    using inv by (auto simp: block_inv_def block_depth_append kinds_def push_def)
  have bad: "block_inv ((lex_error l m lx1)\<lparr>indents := w # indents lx1\<rparr>)" if "block_inv lx1" for l m lx1
    using that by (auto simp: block_inv_def kinds_def lex_error_def)
  show ?thesis
    using up pop bad [OF pop] by (simp add: indent_line_def Let_def)
qed

lemma block_inv_continue_line: "block_inv lx \<Longrightarrow> block_inv (continue_line w lx)"
proof -
  assume "block_inv lx"
  then have inv: "block_inv (advance_n w lx)" by (rule blocks.adv_n)
  let ?lx = "advance_n w lx"
  show ?thesis
  proof (cases "back_is Newline ?lx")
    case True
    then have k: "kinds ?lx = map tk_kind (butlast (lx_out ?lx)) @ [Newline]"
      unfolding back_is_def kinds_def by (metis append_butlast_last_id list.simps(8,9) map_append)
    with inv True show ?thesis
      by (auto simp: block_inv_def continue_line_def Let_def kinds_def [of "?lx\<lparr>lx_out := butlast (lx_out ?lx)\<rparr>"]
          block_depth_append split: option.splits)
  qed (use inv in \<open>simp add: continue_line_def\<close>)
qed

lemma block_inv_warn: "block_inv lx \<Longrightarrow> block_inv (warn_tabs lx)"
  by (simp add: warn_tabs_def blocks.err)

lemma block_inv_line_start: "block_inv lx \<Longrightarrow> block_inv (handle_line_start lx)"
  by (rule handle_line_start_keeps)
    (simp_all add: blocks.empty_line block_inv_indent_line block_inv_continue_line block_inv_warn)

lemma block_inv_end_of_line: "block_inv lx \<Longrightarrow> block_inv (end_of_line lx)"
  by (simp add: end_of_line_def Let_def blocks.adv blocks.psh)

section \<open>Locations\<close>

text \<open>Tokens are in order of their locations, none behind \<open>l\<close>, and \<open>l\<close> is not ahead of the reader.\<close>

definition loc_inv :: "source_loc \<Rightarrow> lexer \<Rightarrow> bool" where
  "loc_inv l lx \<longleftrightarrow> sorted (map tk_loc (lx_out lx)) \<and> (\<forall>t \<in> set (lx_out lx). tk_loc t \<le> l) \<and> l \<le> here lx"

abbreviation located :: "lexer \<Rightarrow> bool" where
  "located lx \<equiv> loc_inv (here lx) lx"

lemma here_advance: "here lx \<le> here (advance lx)"
  by (auto simp: here_def advance_def less_eq_source_loc_def split: list.split)

lemma loc_inv_update [simp]: "loc_inv l (lx\<lparr>bracket_depth := n\<rparr>) = loc_inv l lx"
  "loc_inv l (lx\<lparr>at_line_start := b\<rparr>) = loc_inv l lx" "loc_inv l (lx\<lparr>indents := is\<rparr>) = loc_inv l lx"
  "here (lx\<lparr>bracket_depth := n\<rparr>) = here lx" "here (lx\<lparr>at_line_start := b\<rparr>) = here lx"
  "here (lx\<lparr>indents := is\<rparr>) = here lx" "here (push k l' t lx) = here lx" "here (lex_error l' m lx) = here lx"
  "loc_inv l (lex_error l' m lx) = loc_inv l lx" "here (lx\<lparr>lx_out := out\<rparr>) = here lx"
  by (simp_all add: loc_inv_def here_def push_def lex_error_def)

lemma loc_inv_push: "loc_inv l lx \<Longrightarrow> loc_inv l (push k l t lx)"
  by (auto simp: loc_inv_def push_def here_def sorted_append)

lemma loc_inv_advance: "loc_inv l lx \<Longrightarrow> loc_inv l (advance lx)"
  by (auto simp: loc_inv_def intro: order_trans [OF _ here_advance])

interpretation locs: token_invariant loc_inv
  by unfold_locales (simp_all add: loc_inv_push loc_inv_advance)

lemma located_weaken: "loc_inv l lx \<Longrightarrow> located lx"
  by (auto simp: loc_inv_def intro: order_trans)

lemma located_pop_dedents: "loc_inv l lx \<Longrightarrow> loc_inv l (pop_dedents w l ts lx)"
  by (induction w l ts lx rule: pop_dedents.induct) (auto simp: loc_inv_push)

lemma here_pop_dedents [simp]: "here (pop_dedents w l ts lx) = here lx"
  by (induction w l ts lx rule: pop_dedents.induct) auto

lemma located_indent_line: "located lx \<Longrightarrow> located (indent_line w lx)"
proof -
  assume "located lx"
  then have inv: "located (advance_n w lx)" by (intro located_weaken locs.adv_n)
  then show ?thesis
    by (simp add: indent_line_def Let_def located_pop_dedents loc_inv_push)
qed

lemma located_continue_line: "located lx \<Longrightarrow> located (continue_line w lx)"
proof -
  assume "located lx"
  then have inv: "located (advance_n w lx)" by (intro located_weaken locs.adv_n)
  have "sorted (map tk_loc (butlast xs))" if "sorted (map tk_loc xs)" for xs :: "token list"
    using that by (cases xs rule: rev_cases) (auto simp: sorted_append)
  with inv show ?thesis
    by (auto simp: continue_line_def Let_def loc_inv_def dest: in_set_butlastD)
qed

lemma located_line_start: "located lx \<Longrightarrow> located (handle_line_start lx)"
proof (rule handle_line_start_keeps)
  fix lx assume "located lx"
  then show "located (lx\<lparr>lx_rest := [], lx_col := lx_col lx + length (lx_rest lx)\<rparr>)"
    by (intro located_weaken [of "here lx"]) (auto simp: loc_inv_def here_def less_eq_source_loc_def)
qed (auto intro: located_weaken locs.empty_line simp: warn_tabs_def located_indent_line located_continue_line)

lemma located_end_of_line: "located lx \<Longrightarrow> located (end_of_line lx)"
proof -
  assume "located lx"
  then have "loc_inv (here lx) (advance lx)" by (rule locs.adv)
  then have "located (advance lx)" "located (push Newline (here lx) [] (advance lx))"
    by (auto intro: located_weaken loc_inv_push simp del: loc_inv_update(7))
  then show ?thesis by (simp add: end_of_line_def Let_def)
qed

section \<open>The loop keeps both\<close>

definition lexer_inv :: "lexer \<Rightarrow> bool" where
  "lexer_inv lx \<longleftrightarrow> block_inv lx \<and> located lx"

lemma if_intro: "(b \<Longrightarrow> P x) \<Longrightarrow> (\<not> b \<Longrightarrow> P y) \<Longrightarrow> P (if b then x else y)"
  by simp

lemma lexer_inv_steps:
  assumes "lexer_inv lx"
  shows "lexer_inv (advance lx)" "lexer_inv (skip_line_comment lx)" "lexer_inv (end_of_line lx)" "lexer_inv (lex_token lx)"
proof -
  have b: "block_inv lx" and l: "located lx" using assms by (simp_all add: lexer_inv_def)
  show "lexer_inv (advance lx)" "lexer_inv (skip_line_comment lx)" "lexer_inv (end_of_line lx)" "lexer_inv (lex_token lx)"
    unfolding lexer_inv_def
    using blocks.adv [OF b] blocks.comment [OF b] blocks.token [OF b] block_inv_end_of_line [OF b]
      located_weaken [OF locs.adv [OF l]] located_weaken [OF locs.comment [OF l]]
      located_weaken [OF locs.token [OF l]] located_end_of_line [OF l] by blast+
qed

lemma lexer_inv_loop: "lexer_inv lx \<Longrightarrow> lexer_inv (lex_loop lx)"
proof (induction lx rule: lex_loop.induct)
  case (1 lx0)
  let ?lx = "if at_line_start lx0 \<and> bracket_depth lx0 = 0 then handle_line_start lx0 else lx0"
  have inv: "lexer_inv ?lx"
    using "1.prems" by (simp add: lexer_inv_def block_inv_line_start located_line_start)
  note steps = lexer_inv_steps [OF inv]
  show ?case
  proof (cases "lx_rest ?lx")
    case Nil
    then show ?thesis using inv by (subst lex_loop.simps) (simp only: Let_def list.case)
  next
    case (Cons c s)
    show ?thesis
      using 1(1) [OF refl Cons _ steps(1)] 1(2) [OF refl Cons _ _ steps(2)] 1(3) [OF refl Cons _ _ _ steps(3)]
        1(4) [OF refl Cons _ _ _ steps(4)]
      by (subst lex_loop.simps) (simp only: Let_def Cons list.case, intro if_intro [where P = lexer_inv], blast+)
  qed
qed

lemma lexer_inv_new: "lexer_inv (new_lexer src)"
  by (simp add: lexer_inv_def block_inv_def loc_inv_def new_lexer_def kinds_def)

lemma close_blocks_block:
  "ts \<noteq> [] \<Longrightarrow> block_depth 0 (kinds lx) = Some (length ts - 1) \<Longrightarrow> block_depth 0 (kinds (close_blocks l ts lx)) = Some 0"
proof (induction l ts lx rule: close_blocks.induct)
  case (1 l t u ts lx)
  then show ?case by (simp add: block_depth_append)
qed (simp_all add: kinds_def)

lemma close_blocks_loc: "loc_inv l lx \<Longrightarrow> loc_inv l (close_blocks l ts lx)"
  by (induction l ts lx rule: close_blocks.induct) (auto simp: loc_inv_push)

lemma close_blocks_diags [simp]: "lx_diags (close_blocks l ts lx) = lx_diags lx"
  by (induction l ts lx rule: close_blocks.induct) auto

lemma close_blocks_no_eof: "EndOfFile \<notin> set (kinds lx) \<Longrightarrow> EndOfFile \<notin> set (kinds (close_blocks l ts lx))"
  by (induction l ts lx rule: close_blocks.induct) simp_all

text \<open>The last token is closed off from the loop: a final line break, the open blocks, the end.\<close>

lemma lex_end_shape:
  assumes "lexer_inv lx"
  shows "\<exists>ks. lx_out (lex_end lx) = ks @ [\<lparr>tk_kind = EndOfFile, tk_text = [], tk_loc = here lx\<rparr>]
    \<and> EndOfFile \<notin> tk_kind ` set ks \<and> sorted (map tk_loc (lx_out (lex_end lx)))
    \<and> (lx_diags (lex_end lx) = [] \<longrightarrow> block_depth 0 (map tk_kind ks) = Some 0)"
proof -
  define lx1 where "lx1 = (if lx_out lx \<noteq> [] \<and> \<not> back_is Newline lx then push Newline (here lx) [] lx else lx)"
  let ?lx2 = "close_blocks (here lx) (indents lx1) lx1"
  have b1: "block_inv lx1" using assms by (simp add: lexer_inv_def blocks.psh lx1_def)
  have l1: "loc_inv (here lx) lx1" using assms by (simp add: lexer_inv_def loc_inv_push lx1_def)
  have le: "lex_end lx = (let lx3 = push EndOfFile (here lx) [] ?lx2
      in if bracket_depth lx3 \<noteq> 0 then lex_error (here lx) ''parentesis o corchete sin cerrar'' lx3 else lx3)"
    by (simp add: lex_end_def Let_def lx1_def)
  then have out: "lx_out (lex_end lx) = lx_out ?lx2 @ [\<lparr>tk_kind = EndOfFile, tk_text = [], tk_loc = here lx\<rparr>]"
    by (simp add: Let_def push_def lex_error_def)
  have "EndOfFile \<notin> set (kinds ?lx2)"
    by (rule close_blocks_no_eof) (use b1 in \<open>simp add: block_inv_def\<close>)
  moreover have "sorted (map tk_loc (lx_out (lex_end lx)))"
    using close_blocks_loc [OF l1, of "indents lx1"] unfolding out by (auto simp: loc_inv_def sorted_append)
  moreover have "block_depth 0 (kinds ?lx2) = Some 0" if "lx_diags (lex_end lx) = []"
  proof (rule close_blocks_block)
    have "lx_diags lx1 = []"
      using that by (auto simp: le Let_def split: if_splits)
    then show "block_depth 0 (kinds lx1) = Some (length (indents lx1) - 1)"
      using b1 by (simp add: block_inv_def)
    show "indents lx1 \<noteq> []" using b1 by (simp add: block_inv_def)
  qed
  ultimately show ?thesis using out by (intro exI [of _ "lx_out ?lx2"]) (auto simp: kinds_def)
qed

section \<open>Properties\<close>

text \<open>C35. Every text is tokenised: the tokens end with one EndOfFile, the only one, stand in the
  order of their positions in the file, and, when nothing was reported, open and close their blocks
  in balance, no block being closed that is not open.\<close>

theorem tokens_well_formed:
  "\<exists>ks l. fst (tokenize src) = ks @ [\<lparr>tk_kind = EndOfFile, tk_text = [], tk_loc = l\<rparr>]
    \<and> EndOfFile \<notin> tk_kind ` set ks
    \<and> sorted (map tk_loc (fst (tokenize src)))
    \<and> (snd (tokenize src) = [] \<longrightarrow> block_depth 0 (map tk_kind ks) = Some 0)"
  using lex_end_shape [OF lexer_inv_loop [OF lexer_inv_new [of src]]]
  by (auto simp: tokenize_def Let_def)

lemma tokens_well_formed_witness:
  "\<exists>ks l. fst (tokenize ''a'') = ks @ [\<lparr>tk_kind = EndOfFile, tk_text = [], tk_loc = l\<rparr>]
    \<and> block_depth 0 (map tk_kind ks) = Some 0"
proof -
  have "snd (tokenize ''a'') = []" by code_simp
  with tokens_well_formed [of "''a''"] show ?thesis by blast
qed

section \<open>String literals\<close>

text \<open>How a text is written as a literal of the language.\<close>

definition quote_char :: "char \<Rightarrow> string" where
  "quote_char c =
     (if c = CHR 0x0A then [CHR 0x5C, CHR ''n'']
      else if c = CHR 0x22 then [CHR 0x5C, CHR 0x22]
      else if c = CHR 0x5C then [CHR 0x5C, CHR 0x5C]
      else [c])"

definition quote :: "string \<Rightarrow> string" where
  "quote v = CHR 0x22 # concat (map quote_char v) @ [CHR 0x22]"

lemma advance_n_Suc: "advance_n (Suc n) lx = advance_n n (advance lx)"
  by (simp add: advance_n_def funpow_swap1)

lemma advance_n_0 [simp]: "advance_n 0 lx = lx"
  by (simp add: advance_n_def)

lemma string_loop_quoted:
  "lx_rest lx = concat (map quote_char v) @ CHR 0x22 # r \<Longrightarrow>
   string_loop loc acc lx = (acc @ v, advance_n (length (concat (map quote_char v)) + 1) lx)"
proof (induction v arbitrary: acc lx)
  case Nil
  then show ?case by (simp add: string_loop_cases [of loc acc lx] advance_n_Suc)
next
  case (Cons c v)
  let ?q = "concat (map quote_char v)"
  consider (plain) "c \<noteq> CHR 0x0A" "c \<noteq> CHR 0x22" "c \<noteq> CHR 0x5C"
    | (esc) e where "quote_char c = [CHR 0x5C, e]" "escape_de e = Some c"
    by (cases "c = CHR 0x0A"; cases "c = CHR 0x22"; cases "c = CHR 0x5C")
      (auto simp: quote_char_def escape_de_def)
  then show ?case
  proof cases
    case plain
    then have q: "quote_char c = [c]" by (simp add: quote_char_def)
    have r: "lx_rest lx = c # ?q @ CHR 0x22 # r" using Cons.prems q by simp
    then have "lx_rest (advance lx) = ?q @ CHR 0x22 # r" by simp
    with Cons.IH [of "advance lx" "acc @ [c]"] plain r q show ?thesis
      by (simp add: string_loop_cases [of loc acc lx] advance_n_Suc)
  next
    case esc
    have r: "lx_rest lx = CHR 0x5C # e # ?q @ CHR 0x22 # r" using Cons.prems esc by simp
    then have "lx_rest (advance (advance lx)) = ?q @ CHR 0x22 # r" by simp
    with Cons.IH [of "advance (advance lx)" "acc @ [c]"] esc r show ?thesis
      by (simp add: string_loop_cases [of loc acc lx] advance_n_Suc)
  qed
qed

lemma quote_char_hd: "\<exists>x xs. quote_char c = x # xs \<and> x \<noteq> CHR 0x22"
  by (simp add: quote_char_def)

lemma lex_string_quoted:
  assumes "lx_rest lx = quote v"
  shows "lex_string loc lx = push Tok_String loc v (advance_n (length (quote v)) lx)"
proof -
  have rest: "lx_rest (advance lx) = concat (map quote_char v) @ [CHR 0x22]"
    using assms by (simp add: quote_def)
  have "\<not> (peek 1 lx = CHR 0x22 \<and> peek 2 lx = CHR 0x22)"
  proof (cases v)
    case Nil
    then show ?thesis using assms by (simp add: peek_def quote_def)
  next
    case (Cons c cs)
    obtain x xs where "quote_char c = x # xs" "x \<noteq> CHR 0x22" using quote_char_hd by blast
    then show ?thesis using assms Cons by (simp add: peek_def quote_def)
  qed
  then have "lex_string loc lx = (let (val, lx1) = string_loop loc [] (advance lx) in push Tok_String loc val lx1)"
    unfolding lex_string_def by (rule if_not_P)
  then show ?thesis
    using string_loop_quoted [OF rest, of loc "[]"] by (simp add: quote_def advance_n_Suc)
qed

lemma lex_loop_quoted:
  "lex_loop (new_lexer (quote v))
    = push Tok_String (Loc 1 1) v (advance_n (length (quote v)) ((new_lexer (quote v))\<lparr>at_line_start := False\<rparr>))"
proof -
  let ?lx = "new_lexer (quote v)"
  let ?l1 = "?lx\<lparr>at_line_start := False\<rparr>"
  have q: "lx_rest ?lx = CHR 0x22 # concat (map quote_char v) @ [CHR 0x22]"
    by (simp add: new_lexer_def quote_def)
  have d: "dropWhile indent_char (lx_rest ?lx) = CHR 0x22 # concat (map quote_char v) @ [CHR 0x22]"
    "takeWhile indent_char (lx_rest ?lx) = []"
    by (simp_all add: q indent_char_def)
  have "\<not> eof ?lx" by (simp add: eof_def q)
  from handle_line_start_content [OF this d(1)]
  have "handle_line_start ?lx = (indent_line 0 (warn_tabs ?lx))\<lparr>at_line_start := False\<rparr>"
    unfolding d(2) by simp
  moreover have "warn_tabs ?lx = ?lx" unfolding warn_tabs_def d(2) by simp
  moreover have "indent_line 0 ?lx = ?lx" by (simp add: indent_line_def Let_def new_lexer_def)
  ultimately have start: "handle_line_start ?lx = ?l1" by simp
  have tok: "lex_token ?l1 = push Tok_String (Loc 1 1) v (advance_n (length (quote v)) ?l1)"
  proof -
    have r: "lx_rest ?l1 = quote v" by (simp add: new_lexer_def)
    have "lx_rest ?l1 = CHR 0x22 # concat (map quote_char v) @ [CHR 0x22]" by (simp add: q)
    then have "peek 0 ?l1 = CHR 0x22" by (rule peek_hd)
    moreover have "here ?l1 = Loc 1 1" by (simp add: here_def new_lexer_def)
    ultimately show ?thesis
      using lex_string_quoted [OF r] by (simp add: lex_token_def Let_def is_digit_def)
  qed
  let ?l2 = "push Tok_String (Loc 1 1) v (advance_n (length (quote v)) ?l1)"
  have "lx_rest ?l2 = []" by (simp add: new_lexer_def)
  moreover have "\<not> at_line_start ?l2"
    by (rule advance_n_keeps [of "\<lambda>l. \<not> at_line_start (push Tok_String (Loc 1 1) v l)"])
      (auto simp: push_def advance_def split: list.split)
  ultimately have "lex_loop ?l2 = ?l2" by (subst lex_loop.simps) (simp add: Let_def)
  moreover have "lex_loop ?lx = lex_loop (lex_token ?l1)"
  proof -
    have "at_line_start ?lx \<and> bracket_depth ?lx = 0" by (simp add: new_lexer_def)
    moreover have "lx_rest ?l1 = CHR 0x22 # concat (map quote_char v) @ [CHR 0x22]" by (simp add: q)
    ultimately show ?thesis by (subst lex_loop.simps) (simp only: start Let_def if_True list.case, simp)
  qed
  ultimately show ?thesis unfolding tok by simp
qed

lemma advance_n_fields [simp]: "indents (advance_n n lx) = indents lx" "lx_diags (advance_n n lx) = lx_diags lx"
  "lx_out (advance_n n lx) = lx_out lx" "bracket_depth (advance_n n lx) = bracket_depth lx"
  by (induction n) (simp_all add: advance_n_def)

lemma tokenize_quoted:
  "\<exists>l. tokenize (quote v) = ([\<lparr>tk_kind = Tok_String, tk_text = v, tk_loc = Loc 1 1\<rparr>,
      \<lparr>tk_kind = Newline, tk_text = [], tk_loc = l\<rparr>, \<lparr>tk_kind = EndOfFile, tk_text = [], tk_loc = l\<rparr>], [])"
  unfolding tokenize_def lex_loop_quoted lex_end_def
  by (simp add: Let_def push_def back_is_def) (simp add: new_lexer_def)

text \<open>The reader of a literal: a file that holds one string token and nothing else.\<close>

definition read_literal :: "string \<Rightarrow> string option" where
  "read_literal src =
     (case tokenize src of
        ([t, n, e], []) \<Rightarrow> if tk_kind t = Tok_String then Some (tk_text t) else None
      | _ \<Rightarrow> None)"

interpretation literal: codec quote read_literal "\<lambda>_. True"
proof
  fix v :: string
  obtain l where "tokenize (quote v) = ([\<lparr>tk_kind = Tok_String, tk_text = v, tk_loc = Loc 1 1\<rparr>,
      \<lparr>tk_kind = Newline, tk_text = [], tk_loc = l\<rparr>, \<lparr>tk_kind = EndOfFile, tk_text = [], tk_loc = l\<rparr>], [])"
    using tokenize_quoted by blast
  then show "read_literal (quote v) = Some v" by (simp add: read_literal_def)
qed

text \<open>C36. String literals denote their text: any bytes, written between quotes with line breaks,
  quotes and backslashes escaped, are lexed to one string token with exactly those bytes, without
  a diagnostic, followed by the end of the line and of the file.\<close>

theorem string_literal_roundtrip:
  "map (\<lambda>t. (tk_kind t, tk_text t)) (fst (tokenize (quote v))) = [(Tok_String, v), (Newline, []), (EndOfFile, [])]
    \<and> snd (tokenize (quote v)) = []"
  using tokenize_quoted [of v] by auto

end
