(* ===== verification/Ast.thy ===== *)
theory Ast
  imports Token Doubles
begin

text \<open>
  The syntax tree of the language (ast.hpp).  As in the source, an expression is one structure with
  a kind and a field for everything some kind uses; a pointer that may be null is an option.
\<close>

section \<open>Types and expressions\<close>

datatype type_ref = TypeRef (t_name: string) (t_args: "type_ref list") (t_optional: bool) (t_loc: source_loc)

text \<open>The default location and type.\<close>

definition no_loc :: source_loc where "no_loc = Loc 0 0"

definition no_type :: type_ref where "no_type = TypeRef [] [] False no_loc"

primrec type_str :: "type_ref \<Rightarrow> string" where
  "type_str (TypeRef n as q l) =
     n @ (if as = [] then [] else ''<'' @ sep_by '', '' (map type_str as) @ ''>'') @ (if q then ''?'' else [])"

datatype (plugins only: code size) expr_kind =
    E_StringLit | E_IntLit | E_FloatLit | E_BoolLit | E_NullLit
  | E_Ident | E_This | E_Member | E_Index | E_Call
  | E_Unary | E_Binary | E_Ternary | E_Await
  | E_PreStep | E_PostStep
  | E_ListLit | E_DictLit

datatype expr =
  Expr (e_kind: expr_kind) (e_loc: source_loc) (e_text: string) (int_value: i64) (float_value: f64)
    (bool_value: bool) (e_object: "expr option") (e_lhs: "expr option") (e_rhs: "expr option")
    (e_args: "(string \<times> expr \<times> source_loc) list") (e_items: "expr list") (e_entries: "(expr \<times> expr) list")

text \<open>Expressions of the common shapes.\<close>

definition leaf :: "expr_kind \<Rightarrow> source_loc \<Rightarrow> string \<Rightarrow> expr" where
  "leaf k l txt = Expr k l txt 0 0 False None None None [] [] []"

definition prefix_op :: "expr_kind \<Rightarrow> source_loc \<Rightarrow> string \<Rightarrow> expr \<Rightarrow> expr" where
  "prefix_op k l txt e = Expr k l txt 0 0 False None (Some e) None [] [] []"

definition binary :: "source_loc \<Rightarrow> string \<Rightarrow> expr \<Rightarrow> expr \<Rightarrow> expr" where
  "binary l txt a b = Expr E_Binary l txt 0 0 False None (Some a) (Some b) [] [] []"

section \<open>Statements\<close>

datatype (plugins only: code size) stmt_kind =
    S_Return | S_ExprStmt | S_VarDecl | S_Assign
  | S_If | S_While | S_For | S_Require | S_Try | S_Break | S_Continue

datatype stmt =
  Stmt (s_kind: stmt_kind) (s_loc: source_loc) (s_value: "expr option") (s_target: "expr option")
    (s_type: type_ref) (s_name: string) (s_body: "stmt list") (s_orelse: "stmt list")

type_synonym block = "stmt list"

section \<open>Declarations\<close>

record param =
  pm_type :: type_ref
  pm_name :: string
  default_value :: "expr option"
  pm_loc :: source_loc

record fld =
  fd_type :: type_ref
  fd_name :: string
  fd_loc :: source_loc

record validate_rule =
  vr_condition :: expr
  vr_message :: string
  vr_loc :: source_loc

record fn_decl =
  return_type :: type_ref
  fn_name :: string
  fn_params :: "param list"
  fn_body :: block
  fn_loc :: source_loc

record ctor_decl =
  ct_params :: "param list"
  ct_body :: block
  has_body :: bool
  ct_loc :: source_loc

record class_decl =
  cl_name :: string
  cl_fields :: "fld list"
  cl_rules :: "validate_rule list"
  cl_methods :: "fn_decl list"
  cl_ctors :: "ctor_decl list"
  cl_loc :: source_loc

record guard =
  g_condition :: expr
  g_otherwise :: "expr option"
  g_loc :: source_loc

record route_decl =
  rt_method :: string
  rt_pattern :: string
  rt_params :: "param list"
  rt_origins :: "string list"
  rt_guards :: "guard list"
  rt_body :: block
  rt_loc :: source_loc
  pattern_loc :: source_loc

record error_decl =
  err_code :: int
  err_body :: block
  err_loc :: source_loc

record static_mount =
  url_prefix :: string
  fs_root :: string
  sm_spa :: bool
  sm_loc :: source_loc

record app_decl =
  app_name :: string
  app_version :: string
  app_port :: int
  templates_dir :: string
  app_statics :: "static_mount list"
  app_docs :: bool
  app_health :: bool
  app_metrics :: bool
  session_secret :: string
  session_max_age :: int
  session_secure :: bool
  jwt_secret :: string
  jwt_issuer :: string
  app_modules :: "(string \<times> (string \<times> string) list) list"
  app_loc :: source_loc
  app_present :: bool

record program =
  imports_of :: "string list"
  classes :: "class_decl list"
  fns :: "fn_decl list"
  routes :: "route_decl list"
  errors :: "error_decl list"
  app :: app_decl

definition new_app :: app_decl where
  "new_app = \<lparr>app_name = [], app_version = [], app_port = 8080, templates_dir = ''./templates'', app_statics = [],
     app_docs = False, app_health = False, app_metrics = False, session_secret = [], session_max_age = 86400,
     session_secure = True, jwt_secret = [], jwt_issuer = [], app_modules = [], app_loc = no_loc,
     app_present = False\<rparr>"

definition new_program :: program where
  "new_program = \<lparr>imports_of = [], classes = [], fns = [], routes = [], errors = [], app = new_app\<rparr>"

end
