(* ===== verification/Parser.thy ===== *)
theory Parser
  imports Ast Containers "HOL-Library.State_Monad"
begin

text \<open>
  The recursive-descent parser (src/odio/parser.cpp, parser.hpp).  Its state is the position in the
  token vector, as the tokens that are left and the one before them, and the diagnostics.  Every
  loop and every nested call is bounded by the number of tokens left where it starts; a bound that
  is used up is recorded in the state, and the theorems of the next theory show that this does not
  happen.  \<open>strtod\<close> and the environment are parameters.
\<close>

section \<open>Navigation\<close>

record pstate =
  ps_prev :: "token option"
  ps_rest :: "token list"
  ps_diags :: "diagnostic list"
  ps_spent :: bool

type_synonym 'a parser = "(pstate, 'a) state"

abbreviation ret :: "'a \<Rightarrow> 'a parser" where
  "ret \<equiv> State_Monad.return"

definition peek_at :: "nat \<Rightarrow> pstate \<Rightarrow> token" where
  "peek_at k s = (if k < length (ps_rest s) then ps_rest s ! k else last (ps_rest s))"

definition tok_peek :: "nat \<Rightarrow> token parser" where
  "tok_peek k = do { s \<leftarrow> State_Monad.get; ret (peek_at k s) }"

definition prev_of :: "pstate \<Rightarrow> token" where
  "prev_of s = (case ps_prev s of Some t \<Rightarrow> t | None \<Rightarrow> hd (ps_rest s))"

definition tok_prev :: "token parser" where
  "tok_prev = do { s \<leftarrow> State_Monad.get; ret (prev_of s) }"

text \<open>The last token is never passed.\<close>

definition advance_state :: "pstate \<Rightarrow> token \<times> pstate" where
  "advance_state s =
     (case ps_rest s of
        t # u # us \<Rightarrow> (t, s\<lparr>ps_prev := Some t, ps_rest := u # us\<rparr>)
      | _ \<Rightarrow> (prev_of s, s))"

definition tok_advance :: "token parser" where
  "tok_advance = State advance_state"

definition check :: "tok \<Rightarrow> bool parser" where
  "check k = do { t \<leftarrow> tok_peek 0; ret (tk_kind t = k) }"

definition check_in :: "tok list \<Rightarrow> bool parser" where
  "check_in ks = do { t \<leftarrow> tok_peek 0; ret (tk_kind t \<in> set ks) }"

definition tok_match :: "tok \<Rightarrow> bool parser" where
  "tok_match k = do { c \<leftarrow> check k; if c then do { tok_advance; ret True } else ret False }"

definition error_at :: "source_loc \<Rightarrow> string \<Rightarrow> unit parser" where
  "error_at loc msg = State (\<lambda>s. ((), s\<lparr>ps_diags := ps_diags s @ [\<lparr>dg_loc = loc, dg_message = msg\<rparr>]\<rparr>))"

definition error_if :: "bool \<Rightarrow> source_loc \<Rightarrow> string \<Rightarrow> unit parser" where
  "error_if b loc msg = (if b then error_at loc msg else ret ())"

definition error_here :: "string \<Rightarrow> unit parser" where
  "error_here msg = do { t \<leftarrow> tok_peek 0; error_at (tk_loc t) msg }"

abbreviation quoted :: "string \<Rightarrow> string" where
  "quoted s \<equiv> CHR 0x27 # s @ [CHR 0x27]"

definition expect :: "tok \<Rightarrow> string \<Rightarrow> bool parser" where
  "expect k context = do {
     ok \<leftarrow> tok_match k;
     if ok then ret True else do {
       t \<leftarrow> tok_peek 0;
       error_here (''se esperaba '' @ quoted (tok_name k) @ '' '' @ context @ '', pero hay ''
         @ quoted (tok_name (tk_kind t)));
       ret False } }"

text \<open>The bound: a body that goes on has to leave fewer tokens.\<close>

definition spend :: "unit parser" where
  "spend = State (\<lambda>s. ((), s\<lparr>ps_spent := True\<rparr>))"

primrec repeat :: "nat \<Rightarrow> ('a \<Rightarrow> ('a \<times> bool) parser) \<Rightarrow> 'a \<Rightarrow> 'a parser" where
  "repeat 0 body x = do { spend; ret x }"
| "repeat (Suc n) body x = do { (y, go) \<leftarrow> body x; if go then repeat n body y else ret y }"

definition tokens_left :: "nat parser" where
  "tokens_left = do { s \<leftarrow> State_Monad.get; ret (length (ps_rest s)) }"

definition loop :: "('a \<Rightarrow> ('a \<times> bool) parser) \<Rightarrow> 'a \<Rightarrow> 'a parser" where
  "loop body x = do { n \<leftarrow> tokens_left; repeat (Suc n) body x }"

definition skip_newlines :: "unit parser" where
  "skip_newlines = loop (\<lambda>_. do { m \<leftarrow> tok_match Newline; ret ((), m) }) ()"

definition declaration_starts :: "tok list" where
  "declaration_starts = [KwGet, KwPost, KwPut, KwPatch, KwDelete, KwAny, KwSse, KwWs, KwApp, KwClass, KwFn,
     KwGroup, KwImport, KwOn]"

definition synchronize :: "unit parser" where
  "synchronize = do {
     loop (\<lambda>depth. do {
       t \<leftarrow> tok_peek 0;
       if tk_kind t = EndOfFile \<or> (tk_kind t \<in> set declaration_starts \<and> depth = (0 :: nat)) then ret (depth, False)
       else do {
         tok_advance;
         ret (if tk_kind t = Indent then depth + 1 else if tk_kind t = Dedent then depth - 1 else depth, True) } }) 0;
     ret () }"

text \<open>\<open>while (!check(k1) && ... && !check(EndOfFile)) body\<close>.\<close>

definition until :: "tok list \<Rightarrow> ('a \<Rightarrow> ('a \<times> bool) parser) \<Rightarrow> 'a \<Rightarrow> 'a parser" where
  "until ks body = loop (\<lambda>x. do {
     stop \<leftarrow> check_in (EndOfFile # ks);
     if stop then ret (x, False) else body x })"

text \<open>The rest of the line is skipped after an error.\<close>

definition skip_line :: "unit parser" where
  "skip_line = until [Newline, Dedent] (\<lambda>_. do { tok_advance; ret ((), True) }) ()"

text \<open>\<open>if (!expect(...)) { synchronize(); return; }\<close> in front of the rest of a declaration.\<close>

definition need :: "tok \<Rightarrow> string \<Rightarrow> 'a \<Rightarrow> 'a parser \<Rightarrow> 'a parser" where
  "need k context d rest = do {
     ok \<leftarrow> expect k context;
     if ok then rest else do { synchronize; ret d } }"

section \<open>Numbers in text\<close>

definition c_space :: "char \<Rightarrow> bool" where
  "c_space c \<longleftrightarrow> c = CHR '' '' \<or> (9 \<le> byte c \<and> byte c \<le> 13)"

text \<open>\<open>strtoll(s, nullptr, 10)\<close>, and \<open>strtol\<close> where \<open>long\<close> has 64 bits.\<close>

definition strtoll10 :: "string \<Rightarrow> i64" where
  "strtoll10 s =
     (let t = dropWhile c_space s;
          neg = (t \<noteq> [] \<and> hd t = CHR ''-'');
          u = (if t \<noteq> [] \<and> (hd t = CHR ''-'' \<or> hd t = CHR ''+'') then tl t else t);
          n = int (dec_value (takeWhile is_digit u));
          v = (if neg then - n else n)
      in word_of_int (max (- (2 ^ 63)) (min (2 ^ 63 - 1) v)))"

section \<open>Types and parameters\<close>

text \<open>The end of \<open><...>\<close> behind a name: the depth and the position the scan stops at.\<close>

fun close_angle :: "nat \<Rightarrow> nat \<Rightarrow> tok list \<Rightarrow> (nat \<times> nat) option" where
  "close_angle depth j [] = Some (depth, j)"
| "close_angle depth j (k # ks) =
     (if k = Lt then close_angle (depth + 1) (j + 1) ks
      else if k = Gt then (if depth - 1 = 0 then Some (0, j + 1) else close_angle (depth - 1) (j + 1) ks)
      else if k = Newline \<or> k = EndOfFile then None
      else close_angle depth (j + 1) ks)"

definition looks_like_type :: "pstate \<Rightarrow> bool" where
  "looks_like_type s =
     (let kind = (\<lambda>j. tk_kind (peek_at j s))
      in if kind 0 \<noteq> Ident \<and> kind 0 \<noteq> KwVoid then False
         else case (if kind 1 = Lt then close_angle 0 1 (drop 1 (map tk_kind (ps_rest s))) else Some (0, 1)) of
                None \<Rightarrow> False
              | Some (depth, j) \<Rightarrow>
                  if depth \<noteq> 0 then False
                  else (let j' = (if kind j = Question then j + 1 else j) in kind j' = Ident))"

primrec type_n :: "nat \<Rightarrow> type_ref parser" where
  "type_n 0 = do { spend; ret no_type }"
| "type_n (Suc n) = do {
     t \<leftarrow> tok_peek 0;
     if tk_kind t = KwVoid then do { tok_advance; ret (TypeRef ''void'' [] False (tk_loc t)) }
     else if tk_kind t \<noteq> Ident then do { error_here ''se esperaba un tipo''; ret (TypeRef [] [] False (tk_loc t)) }
     else do {
       name \<leftarrow> tok_advance;
       lt \<leftarrow> tok_match Lt;
       args \<leftarrow> (if lt then do {
                  as \<leftarrow> loop (\<lambda>as. do { a \<leftarrow> type_n n; c \<leftarrow> tok_match Comma; ret (as @ [a], c) }) [];
                  expect Gt ''al cerrar los parametros del tipo'';
                  ret as }
               else ret []);
       q \<leftarrow> tok_match Question;
       ret (TypeRef (tk_text name) args q (tk_loc t)) } }"

definition parse_type :: "type_ref parser" where
  "parse_type = do { n \<leftarrow> tokens_left; type_n (Suc n) }"

section \<open>Expressions\<close>

definition assignable :: "expr \<Rightarrow> bool" where
  "assignable e \<longleftrightarrow> e_kind e = E_Ident \<or> e_kind e = E_Member \<or> e_kind e = E_Index"

definition step_error :: string where
  "step_error = quoted ''++'' @ '' y '' @ quoted ''--'' @ '' solo se aplican a una variable o a un campo''"

text \<open>A comma-separated list up to a closing token; a comma before it is tolerated.\<close>

definition comma_list :: "tok \<Rightarrow> ('a list \<Rightarrow> 'a parser) \<Rightarrow> 'a list parser" where
  "comma_list closing item = until [closing] (\<lambda>xs. do {
     x \<leftarrow> item xs;
     c \<leftarrow> tok_match Comma;
     ret (xs @ [x], c) }) []"

text \<open>
  \<open>pe\<close> is \<open>parse_expr\<close> for the expressions inside brackets, \<open>pu\<close> is \<open>parse_unary\<close>, \<open>rd\<close> reads a
  floating-point literal.
\<close>

definition parse_entry :: "expr parser \<Rightarrow> (expr \<times> expr) parser" where
  "parse_entry pe = do {
     k \<leftarrow> pe;
     expect Colon ''entre la clave y el valor del diccionario'';
     v \<leftarrow> pe;
     ret (k, v) }"

definition parse_primary :: "(string \<Rightarrow> f64) \<Rightarrow> expr parser \<Rightarrow> expr parser \<Rightarrow> expr parser" where
  "parse_primary rd pe pu = do {
     t \<leftarrow> tok_peek 0;
     let l = tk_loc t; txt = tk_text t;
         lit = (\<lambda>k i f b. do { tok_advance; ret (Expr k l [] i f b None None None [] [] []) })
     in if tk_kind t = Tok_String then do { tok_advance; ret (leaf E_StringLit l txt) }
     else if tk_kind t = Tok_Int then lit E_IntLit (strtoll10 txt) 0 False
     else if tk_kind t = Tok_Float then lit E_FloatLit 0 (rd txt) False
     else if tk_kind t = KwTrue \<or> tk_kind t = KwFalse then lit E_BoolLit 0 0 (tk_kind t = KwTrue)
     else if tk_kind t = KwNull then do { tok_advance; ret (leaf E_NullLit l []) }
     else if tk_kind t = KwThis then do { tok_advance; ret (leaf E_This l []) }
     else if tk_kind t = KwAwait then do { tok_advance; e \<leftarrow> pu; ret (prefix_op E_Await l [] e) }
     else if tk_kind t \<in> set [KwSse, KwWs, KwError, Ident] then do { tok_advance; ret (leaf E_Ident l txt) }
     else if tk_kind t = LParen then do {
       tok_advance; e \<leftarrow> pe; expect RParen ''al cerrar el parentesis''; ret e }
     else if tk_kind t = LBracket then do {
       tok_advance; es \<leftarrow> comma_list RBracket (\<lambda>_. pe); expect RBracket ''al cerrar la lista'';
       ret (Expr E_ListLit l [] 0 0 False None None None [] es []) }
     else if tk_kind t = LBrace then do {
       tok_advance; es \<leftarrow> comma_list RBrace (\<lambda>_. parse_entry pe); expect RBrace ''al cerrar el diccionario'';
       ret (Expr E_DictLit l [] 0 0 False None None None [] [] es) }
     else do {
       error_here (''se esperaba una expresion, pero hay '' @ quoted (tok_name (tk_kind t)));
       tok_advance; ret (leaf E_NullLit l []) } }"

text \<open>An argument, positional or named; \<open>args\<close> are the ones before it.\<close>

definition parse_arg :: "expr parser \<Rightarrow> (string \<times> expr \<times> source_loc) list \<Rightarrow> bool \<Rightarrow>
    ((string \<times> expr \<times> source_loc) \<times> bool) parser" where
  "parse_arg pe args seen_named = do {
     t \<leftarrow> tok_peek 0;
     u \<leftarrow> tok_peek 1;
     if tk_kind t = Ident \<and> tk_kind u = Tok_Assign then do {
       tok_advance; tok_advance; e \<leftarrow> pe; ret ((tk_text t, e, tk_loc t), True) }
     else do {
       (if seen_named then error_here ''los argumentos posicionales van antes que los nombrados'' else ret ());
       e \<leftarrow> pe; ret (([], e, tk_loc t), seen_named) } }"

definition parse_args :: "expr parser \<Rightarrow> (string \<times> expr \<times> source_loc) list parser" where
  "parse_args pe = do {
     (args, _) \<leftarrow> until [RParen] (\<lambda>(args, named). do {
       (a, named') \<leftarrow> parse_arg pe args named;
       c \<leftarrow> tok_match Comma;
       ret ((args @ [a], named'), c) }) ([], False);
     ret args }"

definition postfix_step :: "expr parser \<Rightarrow> expr \<Rightarrow> (expr \<times> bool) parser" where
  "postfix_step pe e = do {
     t \<leftarrow> tok_peek 0;
     let l = tk_loc t
     in if tk_kind t = PlusPlus \<or> tk_kind t = MinusMinus then do {
       tok_advance;
       error_if (\<not> assignable e) l step_error;
       ret (prefix_op E_PostStep l (if tk_kind t = PlusPlus then ''+'' else ''-'') e, True) }
     else if tk_kind t = Dot then do {
       tok_advance;
       u \<leftarrow> tok_peek 0;
       name \<leftarrow> (if tk_kind u = Ident \<or> tk_text u \<noteq> [] then do { tok_advance; ret (tk_text u) }
                else do { error_here (''se esperaba un nombre tras '' @ quoted ''.''); ret [] });
       ret (Expr E_Member l name 0 0 False (Some e) None None [] [] [], True) }
     else if tk_kind t = LParen then do {
       tok_advance;
       args \<leftarrow> parse_args pe;
       expect RParen ''al cerrar la llamada'';
       ret (Expr E_Call l [] 0 0 False (Some e) None None args [] [], True) }
     else if tk_kind t = LBracket then do {
       tok_advance;
       i \<leftarrow> pe;
       expect RBracket ''al cerrar el indice'';
       ret (Expr E_Index l [] 0 0 False (Some e) (Some i) None [] [] [], True) }
     else ret (e, False) }"

definition parse_postfix :: "(string \<Rightarrow> f64) \<Rightarrow> expr parser \<Rightarrow> expr parser \<Rightarrow> expr parser" where
  "parse_postfix rd pe pu = do { e \<leftarrow> parse_primary rd pe pu; loop (postfix_step pe) e }"

primrec unary_n :: "nat \<Rightarrow> (string \<Rightarrow> f64) \<Rightarrow> expr parser \<Rightarrow> expr parser" where
  "unary_n 0 rd pe = do { spend; ret (leaf E_NullLit no_loc []) }"
| "unary_n (Suc n) rd pe = do {
     t \<leftarrow> tok_peek 0;
     let l = tk_loc t
     in if tk_kind t = PlusPlus \<or> tk_kind t = MinusMinus then do {
       tok_advance;
       e \<leftarrow> unary_n n rd pe;
       error_if (\<not> assignable e) l step_error;
       ret (prefix_op E_PreStep l (if tk_kind t = PlusPlus then ''+'' else ''-'') e) }
     else if tk_kind t = Minus then do {
       tok_advance;
       e \<leftarrow> unary_n n rd pe;
       ret (prefix_op E_Unary l ''-'' e) }
     else parse_postfix rd pe (unary_n n rd pe) }"

definition parse_unary :: "(string \<Rightarrow> f64) \<Rightarrow> expr parser \<Rightarrow> expr parser" where
  "parse_unary rd pe = do { n \<leftarrow> tokens_left; unary_n (Suc n) rd pe }"

text \<open>The levels of left-associative operators are the same loop.\<close>

definition binary_left :: "tok list \<Rightarrow> expr parser \<Rightarrow> expr parser" where
  "binary_left ops sub = do {
     l \<leftarrow> sub;
     loop (\<lambda>l. do {
       t \<leftarrow> tok_peek 0;
       if tk_kind t \<in> set ops then do {
         tok_advance;
         r \<leftarrow> sub;
         ret (binary (tk_loc t) (tok_name (tk_kind t)) l r, True) }
       else ret (l, False) }) l }"

definition parse_product :: "(string \<Rightarrow> f64) \<Rightarrow> expr parser \<Rightarrow> expr parser" where
  "parse_product rd pe = binary_left [Star, Slash, Percent] (parse_unary rd pe)"

definition parse_sum :: "(string \<Rightarrow> f64) \<Rightarrow> expr parser \<Rightarrow> expr parser" where
  "parse_sum rd pe = binary_left [Plus, Minus] (parse_product rd pe)"

definition parse_comparison :: "(string \<Rightarrow> f64) \<Rightarrow> expr parser \<Rightarrow> expr parser" where
  "parse_comparison rd pe = binary_left [Lt, LtEq, Gt, GtEq] (parse_sum rd pe)"

definition parse_equality :: "(string \<Rightarrow> f64) \<Rightarrow> expr parser \<Rightarrow> expr parser" where
  "parse_equality rd pe = binary_left [Tok_Eq, NotEq] (parse_comparison rd pe)"

primrec not_n :: "nat \<Rightarrow> (string \<Rightarrow> f64) \<Rightarrow> expr parser \<Rightarrow> expr parser" where
  "not_n 0 rd pe = do { spend; ret (leaf E_NullLit no_loc []) }"
| "not_n (Suc n) rd pe = do {
     t \<leftarrow> tok_peek 0;
     if tk_kind t = KwNot then do {
       tok_advance;
       e \<leftarrow> not_n n rd pe;
       ret (prefix_op E_Unary (tk_loc t) ''not'' e) }
     else parse_equality rd pe }"

definition parse_not :: "(string \<Rightarrow> f64) \<Rightarrow> expr parser \<Rightarrow> expr parser" where
  "parse_not rd pe = do { n \<leftarrow> tokens_left; not_n (Suc n) rd pe }"

definition parse_and :: "(string \<Rightarrow> f64) \<Rightarrow> expr parser \<Rightarrow> expr parser" where
  "parse_and rd pe = binary_left [KwAnd] (parse_not rd pe)"

definition parse_or :: "(string \<Rightarrow> f64) \<Rightarrow> expr parser \<Rightarrow> expr parser" where
  "parse_or rd pe = binary_left [KwOr] (parse_and rd pe)"

definition parse_ternary :: "(string \<Rightarrow> f64) \<Rightarrow> expr parser \<Rightarrow> expr parser" where
  "parse_ternary rd pe = do {
     c \<leftarrow> parse_or rd pe;
     t \<leftarrow> tok_peek 0;
     if tk_kind t \<noteq> Question then ret c else do {
       tok_advance;
       a \<leftarrow> pe;
       expect Colon ''en el operador ternario'';
       b \<leftarrow> pe;
       ret (Expr E_Ternary (tk_loc t) [] 0 0 False (Some c) (Some a) (Some b) [] [] []) } }"

primrec expr_n :: "nat \<Rightarrow> (string \<Rightarrow> f64) \<Rightarrow> expr parser" where
  "expr_n 0 rd = do { spend; ret (leaf E_NullLit no_loc []) }"
| "expr_n (Suc n) rd = parse_ternary rd (expr_n n rd)"

definition parse_expr :: "(string \<Rightarrow> f64) \<Rightarrow> expr parser" where
  "parse_expr rd = do { n \<leftarrow> tokens_left; expr_n (Suc n) rd }"

definition parse_single_expression :: "(string \<Rightarrow> f64) \<Rightarrow> expr option parser" where
  "parse_single_expression rd = do {
     skip_newlines;
     eof \<leftarrow> check EndOfFile;
     if eof then do { error_here ''se esperaba una expresion''; ret None } else do {
       e \<leftarrow> parse_expr rd;
       skip_newlines;
       fin \<leftarrow> check EndOfFile;
       if fin then ret (Some e) else do { error_here ''sobra algo detras de la expresion''; ret None } } }"

definition parse_param :: "(string \<Rightarrow> f64) \<Rightarrow> param parser" where
  "parse_param rd = do {
     t \<leftarrow> tok_peek 0;
     ty \<leftarrow> parse_type;
     id \<leftarrow> check Ident;
     name \<leftarrow> (if id then do { n \<leftarrow> tok_advance; ret (tk_text n) }
              else do { error_here ''se esperaba el nombre del parametro''; ret [] });
     eq \<leftarrow> tok_match Tok_Assign;
     def \<leftarrow> (if eq then do { e \<leftarrow> parse_expr rd; ret (Some e) } else ret None);
     ret \<lparr>pm_type = ty, pm_name = name, default_value = def, pm_loc = tk_loc t\<rparr> }"

definition parse_params :: "(string \<Rightarrow> f64) \<Rightarrow> param list parser" where
  "parse_params rd = comma_list RParen (\<lambda>_. parse_param rd)"

section \<open>Statements\<close>

definition simple_stmt :: "stmt_kind \<Rightarrow> source_loc \<Rightarrow> expr option \<Rightarrow> expr option \<Rightarrow> stmt" where
  "simple_stmt k l v t = Stmt k l v t no_type [] [] []"

primrec clone_target :: "expr \<Rightarrow> expr" where
  "clone_target (Expr k l txt i f b ob lh rh as its ens) =
     Expr k l txt i f b (map_option clone_target ob)
       (if k = E_Index then map_option clone_target lh else None) None [] [] []"

definition parse_return :: "(string \<Rightarrow> f64) \<Rightarrow> stmt parser" where
  "parse_return rd = do {
     r \<leftarrow> tok_advance;
     stop \<leftarrow> check_in [Newline, Dedent, EndOfFile];
     v \<leftarrow> (if stop then ret None else do { e \<leftarrow> parse_expr rd; ret (Some e) });
     ret (simple_stmt S_Return (tk_loc r) v None) }"

text \<open>
  \<open>parse_if\<close> and \<open>parse_if_from_elif\<close> differ in the message for a missing colon; \<open>pb\<close> is
  \<open>parse_block\<close>.
\<close>

primrec if_n :: "nat \<Rightarrow> (string \<Rightarrow> f64) \<Rightarrow> block parser \<Rightarrow> string \<Rightarrow> stmt parser" where
  "if_n 0 rd pb context = do { spend; ret (simple_stmt S_If no_loc None None) }"
| "if_n (Suc n) rd pb context = do {
     i \<leftarrow> tok_advance;
     c \<leftarrow> parse_expr rd;
     expect Colon context;
     body \<leftarrow> pb;
     skip_newlines;
     t \<leftarrow> tok_peek 0;
     orelse \<leftarrow>
       (if tk_kind t = KwElif then do { s \<leftarrow> if_n n rd pb ''tras la condicion del elif''; ret [s] }
        else if tk_kind t = KwElse then do {
          tok_advance;
          ei \<leftarrow> check KwIf;
          if ei then do { s \<leftarrow> if_n n rd pb ''tras la condicion del if''; ret [s] }
          else do { expect Colon (''tras '' @ quoted ''else''); pb } }
        else ret []);
     ret (Stmt S_If (tk_loc i) (Some c) None no_type [] body orelse) }"

definition parse_if :: "(string \<Rightarrow> f64) \<Rightarrow> block parser \<Rightarrow> stmt parser" where
  "parse_if rd pb = do { n \<leftarrow> tokens_left; if_n (Suc n) rd pb ''tras la condicion del if'' }"

definition parse_while :: "(string \<Rightarrow> f64) \<Rightarrow> block parser \<Rightarrow> stmt parser" where
  "parse_while rd pb = do {
     w \<leftarrow> tok_advance;
     c \<leftarrow> parse_expr rd;
     expect Colon ''tras la condicion del while'';
     body \<leftarrow> pb;
     ret (Stmt S_While (tk_loc w) (Some c) None no_type [] body []) }"

definition parse_for :: "(string \<Rightarrow> f64) \<Rightarrow> block parser \<Rightarrow> stmt parser" where
  "parse_for rd pb = do {
     f \<leftarrow> tok_advance;
     ty \<leftarrow> parse_type;
     id \<leftarrow> check Ident;
     name \<leftarrow> (if id then do { n \<leftarrow> tok_advance; ret (tk_text n) }
              else do { error_here ''se esperaba el nombre de la variable del bucle''; ret [] });
     expect KwIn ''en el bucle for'';
     it \<leftarrow> parse_expr rd;
     expect Colon ''tras el iterable del for'';
     body \<leftarrow> pb;
     ret (Stmt S_For (tk_loc f) None (Some it) ty name body []) }"

definition parse_require :: "(string \<Rightarrow> f64) \<Rightarrow> stmt parser" where
  "parse_require rd = do {
     r \<leftarrow> tok_advance;
     c \<leftarrow> parse_expr rd;
     el \<leftarrow> expect KwElse (''en '' @ quoted ''require ... else ...'');
     if \<not> el then ret (simple_stmt S_Require (tk_loc r) (Some c) None)
     else do { e \<leftarrow> parse_expr rd; ret (simple_stmt S_Require (tk_loc r) (Some c) (Some e)) } }"

definition parse_try :: "block parser \<Rightarrow> stmt parser" where
  "parse_try pb = do {
     t \<leftarrow> tok_advance;
     expect Colon (''tras '' @ quoted ''try'');
     body \<leftarrow> pb;
     skip_newlines;
     ca \<leftarrow> expect KwCatch ''tras el bloque try'';
     if \<not> ca then ret (Stmt S_Try (tk_loc t) None None no_type [] body [])
     else do {
       id \<leftarrow> check Ident;
       name \<leftarrow> (if id then do { n \<leftarrow> tok_advance; ret (tk_text n) } else ret []);
       expect Colon (''tras '' @ quoted ''catch'');
       orelse \<leftarrow> pb;
       ret (Stmt S_Try (tk_loc t) None None no_type name body orelse) } }"

definition parse_var_decl :: "(string \<Rightarrow> f64) \<Rightarrow> stmt parser" where
  "parse_var_decl rd = do {
     t \<leftarrow> tok_peek 0;
     ty \<leftarrow> parse_type;
     id \<leftarrow> check Ident;
     name \<leftarrow> (if id then do { n \<leftarrow> tok_advance; ret (tk_text n) }
              else do { error_here ''se esperaba el nombre de la variable''; ret [] });
     eq \<leftarrow> tok_match Tok_Assign;
     v \<leftarrow> (if eq then do { e \<leftarrow> parse_expr rd; ret (Some e) } else ret None);
     ret (Stmt S_VarDecl (tk_loc t) v None ty name [] []) }"

definition compound_ops :: "(tok \<times> string) list" where
  "compound_ops = [(PlusEq, ''+''), (MinusEq, ''-''), (StarEq, ''*''), (SlashEq, ''/''), (PercentEq, ''%'')]"

text \<open>An assignment or an expression on its own.\<close>

definition parse_expr_stmt :: "(string \<Rightarrow> f64) \<Rightarrow> stmt option parser" where
  "parse_expr_stmt rd = do {
     t \<leftarrow> tok_peek 0;
     e \<leftarrow> parse_expr rd;
     u \<leftarrow> tok_peek 0;
     case map_of compound_ops (tk_kind u) of
       Some op \<Rightarrow> do {
         tok_advance;
         if \<not> assignable e then do {
           error_at (tk_loc t) ''solo se puede asignar a una variable o a un campo''; ret None }
         else do {
           r \<leftarrow> parse_expr rd;
           ret (Some (simple_stmt S_Assign (tk_loc t) (Some (binary (tk_loc u) op (clone_target e) r)) (Some e))) } }
     | None \<Rightarrow> do {
         eq \<leftarrow> tok_match Tok_Assign;
         if eq then do { r \<leftarrow> parse_expr rd; ret (Some (simple_stmt S_Assign (tk_loc t) (Some r) (Some e))) }
         else ret (Some (simple_stmt S_ExprStmt (tk_loc t) (Some e) None)) } }"

definition parse_statement :: "(string \<Rightarrow> f64) \<Rightarrow> block parser \<Rightarrow> stmt option parser" where
  "parse_statement rd pb = do {
     s \<leftarrow> State_Monad.get;
     let k = tk_kind (peek_at 0 s); some = (\<lambda>p. do { x \<leftarrow> p; ret (Some x) })
     in if k = KwReturn then some (parse_return rd)
     else if k = KwIf then some (parse_if rd pb)
     else if k = KwWhile then some (parse_while rd pb)
     else if k = KwFor then some (parse_for rd pb)
     else if k = KwRequire then some (parse_require rd)
     else if k = KwTry then some (parse_try pb)
     else if k = KwBreak then do { t \<leftarrow> tok_advance; ret (Some (simple_stmt S_Break (tk_loc t) None None)) }
     else if k = KwContinue then do { t \<leftarrow> tok_advance; ret (Some (simple_stmt S_Continue (tk_loc t) None None)) }
     else if looks_like_type s then some (parse_var_decl rd)
     else parse_expr_stmt rd }"

text \<open>\<open>if (i_ == before) advance();\<close>\<close>

definition ensure_progress :: "nat \<Rightarrow> unit parser" where
  "ensure_progress left0 = do { n \<leftarrow> tokens_left; if n = left0 then do { tok_advance; ret () } else ret () }"

text \<open>The lines of an indented block: \<open>item\<close> is read at the start of each.\<close>

definition bare_lines :: "('a \<Rightarrow> ('a \<times> bool) parser) \<Rightarrow> 'a \<Rightarrow> 'a parser" where
  "bare_lines item = until [Dedent] (\<lambda>x. do {
     skip_newlines;
     stop \<leftarrow> check_in [Dedent, EndOfFile];
     if stop then ret (x, False) else item x })"

definition block_lines :: "bool \<Rightarrow> ('a \<Rightarrow> ('a \<times> bool) parser) \<Rightarrow> 'a \<Rightarrow> 'a parser" where
  "block_lines guarded item = bare_lines (\<lambda>x. do {
     left0 \<leftarrow> tokens_left;
     (y, go) \<leftarrow> item x;
     if \<not> go then ret (y, False) else do {
       skip_newlines;
       (if guarded then ensure_progress left0 else ret ());
       ret (y, True) } })"

primrec block_n :: "nat \<Rightarrow> (string \<Rightarrow> f64) \<Rightarrow> block parser" where
  "block_n 0 rd = do { spend; ret [] }"
| "block_n (Suc n) rd = do {
     skip_newlines;
     ok \<leftarrow> expect Indent ''al abrir el bloque'';
     if \<not> ok then ret [] else do {
       body \<leftarrow> block_lines True (\<lambda>body. do {
         s \<leftarrow> parse_statement rd (block_n n rd);
         ret (case s of None \<Rightarrow> body | Some x \<Rightarrow> body @ [x], True) }) [];
       tok_match Dedent;
       ret body } }"

definition parse_block :: "(string \<Rightarrow> f64) \<Rightarrow> block parser" where
  "parse_block rd = do { n \<leftarrow> tokens_left; block_n (Suc n) rd }"

section \<open>Routes and groups\<close>

definition route_methods :: "(tok \<times> string) list" where
  "route_methods = [(KwGet, ''GET''), (KwPost, ''POST''), (KwPut, ''PUT''), (KwPatch, ''PATCH''),
     (KwDelete, ''DELETE''), (KwAny, ''*''), (KwSse, ''SSE''), (KwWs, ''WS'')]"

definition drop_last_slash :: "string \<Rightarrow> string" where
  "drop_last_slash p = (if p \<noteq> [] \<and> last p = CHR ''/'' then butlast p else p)"

definition join_prefix :: "string \<Rightarrow> string \<Rightarrow> string" where
  "join_prefix prefix pattern =
     (if prefix = [] then pattern
      else let p = drop_last_slash prefix
           in if pattern = ''/'' then (if p = [] then ''/'' else p)
              else if pattern = [] \<or> hd pattern \<noteq> CHR ''/'' then p @ ''/'' @ pattern
              else p @ pattern)"

definition parse_origins :: "string list parser" where
  "parse_origins = do {
     expect LParen (''tras '' @ quoted ''origins'');
     os \<leftarrow> until [RParen] (\<lambda>os. do {
       str \<leftarrow> check Tok_String;
       t \<leftarrow> (if str then tok_advance else do { error_here ''origins() solo admite cadenas''; tok_advance });
       c \<leftarrow> tok_match Comma;
       ret (if str then os @ [tk_text t] else os, c) }) [];
     expect RParen ''al cerrar origins()'';
     ret os }"

definition parse_route :: "(string \<Rightarrow> f64) \<Rightarrow> token \<Rightarrow> string \<Rightarrow> guard list \<Rightarrow> program \<Rightarrow> program parser" where
  "parse_route rd m prefix guards out =
     need KwEndpoint ''tras el metodo de la ruta'' out (
     need LParen (''tras '' @ quoted ''endpoint'') out (do {
       str \<leftarrow> check Tok_String;
       if \<not> str then do {
         error_here ''el primer argumento de endpoint() es el patron de ruta, entre comillas'';
         synchronize; ret out }
       else do {
         pt \<leftarrow> tok_advance;
         ps \<leftarrow> loop (\<lambda>ps. do {
           c \<leftarrow> tok_match Comma;
           if \<not> c then ret (ps, False) else do {
             fin \<leftarrow> check RParen;
             if fin then ret (ps, False) else do { p \<leftarrow> parse_param rd; ret (ps @ [p], True) } } }) [];
         need RParen ''al cerrar endpoint()'' out (do {
           og \<leftarrow> tok_match KwOrigins;
           os \<leftarrow> (if og then parse_origins else ret []);
           need Colon ''al abrir el cuerpo de la ruta'' out (do {
             body \<leftarrow> parse_block rd;
             ret (out\<lparr>routes := routes out @
               [\<lparr>rt_method = (case map_of route_methods (tk_kind m) of Some x \<Rightarrow> x | None \<Rightarrow> ''GET''),
                 rt_pattern = join_prefix prefix (tk_text pt), rt_params = ps, rt_origins = os,
                 rt_guards = guards, rt_body = body, rt_loc = tk_loc m, pattern_loc = tk_loc pt\<rparr>]\<rparr>) }) }) } }))"

definition group_prefix :: "string \<Rightarrow> string \<Rightarrow> string" where
  "group_prefix prefix own =
     (let c = drop_last_slash prefix
      in if own = [] \<or> own = ''/'' then c
         else drop_last_slash (c @ (if hd own \<noteq> CHR ''/'' then ''/'' else []) @ own))"

text \<open>The state of the loop over a group: the guards, whether a route was seen, the program.\<close>

primrec group_n :: "nat \<Rightarrow> (string \<Rightarrow> f64) \<Rightarrow> string \<Rightarrow> guard list \<Rightarrow> program \<Rightarrow> program parser" where
  "group_n 0 rd prefix outer out = do { spend; ret out }"
| "group_n (Suc n) rd prefix outer out = do {
     tok_advance;
     need LParen (''tras '' @ quoted ''group'') out (do {
       str \<leftarrow> check Tok_String;
       own \<leftarrow> (if str then do { t \<leftarrow> tok_advance; ret (tk_text t) }
              else do { error_here ''group() espera el prefijo de URL entre comillas''; ret [] });
       need RParen ''al cerrar group()'' out (
       need Colon ''al abrir el cuerpo del grupo'' out (do {
         skip_newlines;
         need Indent ''al abrir el bloque del grupo'' out (do {
           (_, _, out') \<leftarrow> block_lines True (\<lambda>(guards, seen, out). do {
             t \<leftarrow> tok_peek 0;
             if tk_kind t = KwRequire then do {
               tok_advance;
               error_if seen (tk_loc t) ''las guardas del grupo van antes que sus rutas'';
               c \<leftarrow> parse_expr rd;
               el \<leftarrow> expect KwElse (''en '' @ quoted ''require ... else ...'');
               e \<leftarrow> (if el then do { e \<leftarrow> parse_expr rd; ret (Some e) } else ret None);
               ret ((guards @ [\<lparr>g_condition = c, g_otherwise = e, g_loc = tk_loc t\<rparr>], seen, out), True) }
             else if tk_kind t = KwGroup then do {
               out' \<leftarrow> group_n n rd (group_prefix prefix own) guards out;
               ret ((guards, True, out'), True) }
             else if tk_kind t \<in> set (map fst route_methods) then do {
               m \<leftarrow> tok_advance;
               out' \<leftarrow> parse_route rd m (group_prefix prefix own) guards out;
               ret ((guards, True, out'), True) }
             else do {
               error_here (''dentro de un grupo solo caben '' @ quoted ''require'' @ '', rutas y otros grupos'');
               skip_line;
               ret ((guards, seen, out), True) } }) (outer, False, out);
           tok_match Dedent;
           ret out' }) })) }) }"

definition parse_group :: "(string \<Rightarrow> f64) \<Rightarrow> string \<Rightarrow> guard list \<Rightarrow> program \<Rightarrow> program parser" where
  "parse_group rd prefix guards out = do { n \<leftarrow> tokens_left; group_n (Suc n) rd prefix guards out }"

section \<open>Functions, error handlers and classes\<close>

primrec error_each :: "'a list \<Rightarrow> source_loc \<Rightarrow> string \<Rightarrow> unit parser" where
  "error_each [] loc msg = ret ()"
| "error_each (x # xs) loc msg = do { error_at loc msg; error_each xs loc msg }"

definition parse_fn :: "(string \<Rightarrow> f64) \<Rightarrow> program \<Rightarrow> program parser" where
  "parse_fn rd out = do {
     f \<leftarrow> tok_advance;
     ty \<leftarrow> parse_type;
     id \<leftarrow> check Ident;
     if \<not> id then do { error_here ''se esperaba el nombre de la funcion''; synchronize; ret out } else do {
       n \<leftarrow> tok_advance;
       let name = tk_text n
       in do {
         error_if (list_ex (\<lambda>g. fn_name g = name) (fns out)) (tk_loc f)
           (''la funcion '' @ quoted name @ '' ya esta declarada'');
         need LParen ''tras el nombre de la funcion'' out (do {
           ps \<leftarrow> parse_params rd;
           need RParen ''al cerrar los parametros'' out (
           need Colon ''al abrir el cuerpo de la funcion'' out (do {
             body \<leftarrow> parse_block rd;
             ret (out\<lparr>fns := fns out @ [\<lparr>return_type = ty, fn_name = name, fn_params = ps, fn_body = body,
                                        fn_loc = tk_loc f\<rparr>]\<rparr>) })) }) } } }"

definition error_duplicate :: "int \<Rightarrow> string" where
  "error_duplicate code =
     (if code \<noteq> 0 then ''ya hay un manejador para el codigo '' @ int_dec code
      else ''ya hay un manejador global de error'')"

definition parse_error_body :: "(string \<Rightarrow> f64) \<Rightarrow> source_loc \<Rightarrow> int \<Rightarrow> program \<Rightarrow> program parser" where
  "parse_error_body rd loc code out = do {
     error_if (list_ex (\<lambda>d. err_code d = code) (errors out)) loc (error_duplicate code);
     need Colon ''al abrir el manejador de error'' out (do {
       body \<leftarrow> parse_block rd;
       ret (out\<lparr>errors := errors out @ [\<lparr>err_code = code, err_body = body, err_loc = loc\<rparr>]\<rparr>) }) }"

definition parse_error :: "(string \<Rightarrow> f64) \<Rightarrow> program \<Rightarrow> program parser" where
  "parse_error rd out = do {
     o_tok \<leftarrow> tok_advance;
     need KwError (''tras '' @ quoted ''on'') out (do {
       int \<leftarrow> check Tok_Int;
       if \<not> int then parse_error_body rd (tk_loc o_tok) 0 out else do {
         t \<leftarrow> tok_advance;
         let v = sint (strtoll10 (tk_text t))
         in if v < 400 \<or> v > 599 then do {
              p \<leftarrow> tok_prev;
              error_at (tk_loc p) (quoted ''on error'' @ '' solo cubre codigos 400-599; con un ''
                @ ''2xx el handler ya ha escrito la respuesta'');
              synchronize; ret out }
            else parse_error_body rd (tk_loc o_tok) v out } }) }"

text \<open>The rules of a \<open>validate\<close> block.\<close>

definition parse_rules :: "(string \<Rightarrow> f64) \<Rightarrow> class_decl \<Rightarrow> class_decl parser" where
  "parse_rules rd = bare_lines (\<lambda>c. do {
     t \<leftarrow> tok_peek 0;
     e \<leftarrow> parse_expr rd;
     str \<leftarrow> check Tok_String;
     msg \<leftarrow> (if str then do { m \<leftarrow> tok_advance; ret (tk_text m) }
            else do { error_here ''cada regla de validate lleva su mensaje entre comillas''; ret [] });
     skip_newlines;
     ret (c\<lparr>cl_rules := cl_rules c @ [\<lparr>vr_condition = e, vr_message = msg, vr_loc = tk_loc t\<rparr>]\<rparr>, True) })"

definition parse_validate :: "(string \<Rightarrow> f64) \<Rightarrow> class_decl \<Rightarrow> (class_decl \<times> bool) parser" where
  "parse_validate rd c = do {
     tok_advance;
     expect Colon (''tras '' @ quoted ''validate'');
     skip_newlines;
     ok \<leftarrow> expect Indent ''al abrir el bloque validate'';
     if \<not> ok then ret (c, False) else do {
       c' \<leftarrow> parse_rules rd c;
       tok_match Dedent;
       ret (c', True) } }"

definition parse_method :: "(string \<Rightarrow> f64) \<Rightarrow> class_decl \<Rightarrow> (class_decl \<times> bool) parser" where
  "parse_method rd c = do {
     f \<leftarrow> tok_advance;
     ty \<leftarrow> parse_type;
     id \<leftarrow> check Ident;
     if \<not> id then do { error_here ''se esperaba el nombre del metodo''; ret (c, False) } else do {
       n \<leftarrow> tok_advance;
       let name = tk_text n
       in do {
         error_each (filter (\<lambda>m. fn_name m = name) (cl_methods c)) (tk_loc f)
           (''el metodo '' @ quoted name @ '' ya esta declarado en la clase '' @ quoted (cl_name c));
         expect LParen ''tras el nombre del metodo'';
         ps \<leftarrow> parse_params rd;
         expect RParen ''al cerrar los parametros del metodo'';
         expect Colon ''al abrir el cuerpo del metodo'';
         body \<leftarrow> parse_block rd;
         ret (c\<lparr>cl_methods := cl_methods c @ [\<lparr>return_type = ty, fn_name = name, fn_params = ps, fn_body = body,
                                             fn_loc = tk_loc f\<rparr>]\<rparr>, True) } } }"

definition parse_ctor :: "(string \<Rightarrow> f64) \<Rightarrow> class_decl \<Rightarrow> (class_decl \<times> bool) parser" where
  "parse_ctor rd c = do {
     k \<leftarrow> tok_advance;
     tok_advance;
     ps \<leftarrow> parse_params rd;
     expect RParen ''al cerrar los parametros del constructor'';
     error_each (filter (\<lambda>d. length (ct_params d) = length ps) (cl_ctors c)) (tk_loc k)
       (''ya hay un constructor de '' @ quoted (cl_name c) @ '' con '' @ nat_dec (length ps)
        @ '' parametro(s); se distinguen por su numero'');
     co \<leftarrow> tok_match Colon;
     body \<leftarrow> (if co then parse_block rd else ret []);
     ret (c\<lparr>cl_ctors := cl_ctors c @ [\<lparr>ct_params = ps, ct_body = body, has_body = co, ct_loc = tk_loc k\<rparr>]\<rparr>, True) }"

definition parse_field :: "class_decl \<Rightarrow> (class_decl \<times> bool) parser" where
  "parse_field c = do {
     t \<leftarrow> tok_peek 0;
     ty \<leftarrow> parse_type;
     id \<leftarrow> check Ident;
     name \<leftarrow> (if id then do { n \<leftarrow> tok_advance; ret (tk_text n) }
              else do { error_here ''se esperaba el nombre del campo''; ret [] });
     error_if (list_ex (\<lambda>f. fd_name f = name) (cl_fields c)) (tk_loc t)
       (''el campo '' @ quoted name @ '' esta duplicado'');
     ret (c\<lparr>cl_fields := cl_fields c @ [\<lparr>fd_type = ty, fd_name = name, fd_loc = tk_loc t\<rparr>]\<rparr>, True) }"

definition parse_class :: "(string \<Rightarrow> f64) \<Rightarrow> program \<Rightarrow> program parser" where
  "parse_class rd out = do {
     k \<leftarrow> tok_advance;
     id \<leftarrow> check Ident;
     if \<not> id then do { error_here ''se esperaba el nombre de la clase''; synchronize; ret out } else do {
       n \<leftarrow> tok_advance;
       need Colon ''tras el nombre de la clase'' out (do {
         skip_newlines;
         need Indent ''al abrir el cuerpo de la clase'' out (do {
           c \<leftarrow> block_lines True (\<lambda>c. do {
             t \<leftarrow> tok_peek 0;
             u \<leftarrow> tok_peek 1;
             if tk_kind t = KwValidate then parse_validate rd c
             else if tk_kind t = KwFn then parse_method rd c
             else if tk_kind t = Ident \<and> tk_text t = cl_name c \<and> tk_kind u = LParen then parse_ctor rd c
             else parse_field c })
             \<lparr>cl_name = tk_text n, cl_fields = [], cl_rules = [], cl_methods = [], cl_ctors = [], cl_loc = tk_loc k\<rparr>;
           tok_match Dedent;
           error_if (cl_fields c = []) (tk_loc k) (''la clase '' @ quoted (cl_name c) @ '' no declara ningun campo'');
           ret (out\<lparr>classes := classes out @ [c]\<rparr>) }) }) } }"

section \<open>The app block\<close>

datatype config = Cfg_text string | Cfg_number i64 | Cfg_flag bool

text \<open>\<open>env\<close> is the environment of the process; the warning about a missing variable is not modelled.\<close>

definition config_value :: "(string \<Rightarrow> string option) \<Rightarrow> config option parser" where
  "config_value env = do {
     t \<leftarrow> tok_peek 0;
     u \<leftarrow> tok_peek 1;
     if tk_kind t = Tok_String then do { tok_advance; ret (Some (Cfg_text (tk_text t))) }
     else if tk_kind t = Tok_Int then do { tok_advance; ret (Some (Cfg_number (strtoll10 (tk_text t)))) }
     else if tk_kind t = KwTrue \<or> tk_kind t = KwFalse then do { tok_advance; ret (Some (Cfg_flag (tk_kind t = KwTrue))) }
     else if tk_kind t = Ident \<and> tk_text t = ''env'' \<and> tk_kind u = LParen then do {
       tok_advance; tok_advance;
       str \<leftarrow> check Tok_String;
       if \<not> str then do { error_here ''env() espera el nombre entre comillas''; ret None } else do {
         n \<leftarrow> tok_advance;
         expect RParen ''al cerrar env()'';
         ret (Some (Cfg_text (case env (tk_text n) of Some v \<Rightarrow> v | None \<Rightarrow> []))) } }
     else ret None }"

definition config_text :: "config \<Rightarrow> string" where
  "config_text v = (case v of Cfg_text s \<Rightarrow> s | Cfg_number n \<Rightarrow> int_dec (sint n)
     | Cfg_flag b \<Rightarrow> if b then ''true'' else ''false'')"

text \<open>The \<open>key value\<close> lines of a sub-block; \<open>put\<close> stores a value or reports the key.\<close>

definition config_lines :: "(string \<Rightarrow> string option) \<Rightarrow>
    (token \<Rightarrow> config \<Rightarrow> 'a \<Rightarrow> 'a parser) \<Rightarrow> 'a \<Rightarrow> 'a parser" where
  "config_lines env put = bare_lines (\<lambda>a. do {
     id \<leftarrow> check Ident;
     if \<not> id then do { error_here ''se esperaba una clave''; tok_advance; ret (a, True) } else do {
       k \<leftarrow> tok_advance;
       v \<leftarrow> config_value env;
       case v of
         None \<Rightarrow> do {
           error_here (''valor invalido: se esperaba una cadena, un numero, true/false o env('' @ CHR 0x22 # ''VAR''
             @ CHR 0x22 # '')'');
           skip_line; ret (a, True) }
       | Some w \<Rightarrow> do { b \<leftarrow> put k w a; skip_newlines; ret (b, True) } } })"

definition bad_key :: "token \<Rightarrow> string \<Rightarrow> unit parser" where
  "bad_key k blk = error_at (tk_loc k) (''clave desconocida o de tipo equivocado en '' @ blk @ '': '' @ quoted (tk_text k))"

definition put_session :: "token \<Rightarrow> config \<Rightarrow> app_decl \<Rightarrow> app_decl parser" where
  "put_session k v a =
     (case v of
        Cfg_text s \<Rightarrow> if tk_text k = ''secret'' then ret (a\<lparr>session_secret := s\<rparr>) else do { bad_key k ''session''; ret a }
      | Cfg_number n \<Rightarrow>
          if tk_text k = ''max_age'' then ret (a\<lparr>session_max_age := sint (word_of_int (sint n) :: 32 word)\<rparr>)
          else do { bad_key k ''session''; ret a }
      | Cfg_flag b \<Rightarrow> if tk_text k = ''secure'' then ret (a\<lparr>session_secure := b\<rparr>) else do { bad_key k ''session''; ret a })"

definition put_jwt :: "token \<Rightarrow> config \<Rightarrow> app_decl \<Rightarrow> app_decl parser" where
  "put_jwt k v a =
     (case v of
        Cfg_text s \<Rightarrow>
          if tk_text k = ''secret'' then ret (a\<lparr>jwt_secret := s\<rparr>)
          else if tk_text k = ''issuer'' then ret (a\<lparr>jwt_issuer := s\<rparr>)
          else do { bad_key k ''jwt''; ret a }
      | _ \<Rightarrow> do { bad_key k ''jwt''; ret a })"

definition put_module :: "string \<Rightarrow> token \<Rightarrow> config \<Rightarrow> app_decl \<Rightarrow> app_decl parser" where
  "put_module m k v a =
     ret (a\<lparr>app_modules := al_put m (al_put (tk_text k) (config_text v)
        (case map_of (app_modules a) m of Some opts \<Rightarrow> opts | None \<Rightarrow> [])) (app_modules a)\<rparr>)"

text \<open>The configuration of an imported module, and the session and jwt blocks; \<open>False\<close> leaves the app block.\<close>

definition parse_sub_block :: "(string \<Rightarrow> string option) \<Rightarrow> string \<Rightarrow> string \<Rightarrow>
    (token \<Rightarrow> config \<Rightarrow> app_decl \<Rightarrow> app_decl parser) \<Rightarrow> (app_decl \<Rightarrow> app_decl) \<Rightarrow> app_decl \<Rightarrow> (app_decl \<times> bool) parser" where
  "parse_sub_block env ctx_colon ctx_indent put enter a = do {
     expect Colon ctx_colon;
     skip_newlines;
     ok \<leftarrow> expect Indent ctx_indent;
     if \<not> ok then ret (a, False) else do {
       b \<leftarrow> config_lines env put (enter a);
       tok_match Dedent;
       ret (b, True) } }"

definition parse_static :: "app_decl \<Rightarrow> (app_decl \<times> bool) parser" where
  "parse_static a = do {
     key \<leftarrow> tok_advance;
     s1 \<leftarrow> check Tok_String;
     url \<leftarrow> (if s1 then do { t \<leftarrow> tok_advance; ret (tk_text t) }
            else do { error_here ''se esperaba el prefijo de URL entre comillas''; ret [] });
     expect Arrow ''entre el prefijo y el directorio'';
     s2 \<leftarrow> check Tok_String;
     root \<leftarrow> (if s2 then do { t \<leftarrow> tok_advance; ret (tk_text t) }
             else do { error_here ''se esperaba el directorio entre comillas''; ret [] });
     spa \<leftarrow> tok_match KwSpa;
     ret (a\<lparr>app_statics := app_statics a @
       [\<lparr>url_prefix = url, fs_root = root, sm_spa = spa, sm_loc = tk_loc key\<rparr>]\<rparr>, True) }"

definition parse_text_key :: "(string \<Rightarrow> app_decl) \<Rightarrow> app_decl \<Rightarrow> (app_decl \<times> bool) parser" where
  "parse_text_key upd a = do {
     str \<leftarrow> check Tok_String;
     if str then do { t \<leftarrow> tok_advance; ret (upd (tk_text t), True) }
     else do { error_here ''se esperaba una cadena''; ret (a, True) } }"

definition parse_port :: "app_decl \<Rightarrow> (app_decl \<times> bool) parser" where
  "parse_port a = do {
     int \<leftarrow> check Tok_Int;
     if \<not> int then do { error_here ''se esperaba un numero de puerto''; ret (a, True) } else do {
       t \<leftarrow> tok_advance;
       let v = sint (strtoll10 (tk_text t))
       in if v < 1 \<or> v > 65535 then do {
            p \<leftarrow> tok_prev;
            error_at (tk_loc p) ''puerto fuera de rango (1-65535)''; ret (a, True) }
          else ret (a\<lparr>app_port := v\<rparr>, True) } }"

definition parse_app_key :: "(string \<Rightarrow> string option) \<Rightarrow> string list \<Rightarrow> app_decl \<Rightarrow> (app_decl \<times> bool) parser" where
  "parse_app_key env imports a = do {
     key \<leftarrow> tok_advance;
     let k = tk_text key
     in if k = ''name'' then parse_text_key (\<lambda>v. a\<lparr>app_name := v\<rparr>) a
     else if k = ''version'' then parse_text_key (\<lambda>v. a\<lparr>app_version := v\<rparr>) a
     else if k = ''templates'' then parse_text_key (\<lambda>v. a\<lparr>templates_dir := v\<rparr>) a
     else if k = ''port'' then parse_port a
     else if k = ''docs'' then ret (a\<lparr>app_docs := True\<rparr>, True)
     else if k = ''health'' then ret (a\<lparr>app_health := True\<rparr>, True)
     else if k = ''metrics'' then ret (a\<lparr>app_metrics := True\<rparr>, True)
     else if k \<in> set imports then
       parse_sub_block env ''tras el nombre del modulo'' ''al abrir la configuracion del modulo'' (put_module k)
         (\<lambda>a. a\<lparr>app_modules := al_emplace k [] (app_modules a)\<rparr>) a
     else if k = ''session'' then
       parse_sub_block env ''tras la clave del sub-bloque'' ''al abrir el sub-bloque'' put_session (\<lambda>a. a) a
     else if k = ''jwt'' then
       parse_sub_block env ''tras la clave del sub-bloque'' ''al abrir el sub-bloque'' put_jwt (\<lambda>a. a) a
     else do {
       error_at (tk_loc key) (''clave desconocida en el bloque app: '' @ quoted k);
       skip_line; ret (a, True) } }"

definition parse_app :: "(string \<Rightarrow> string option) \<Rightarrow> program \<Rightarrow> program parser" where
  "parse_app env out0 = do {
     k \<leftarrow> tok_advance;
     error_if (app_present (app out0)) (tk_loc k)
       (''el bloque '' @ quoted ''app:'' @ '' solo puede aparecer una vez en el proyecto'');
     let out = out0\<lparr>app := (app out0)\<lparr>app_present := True, app_loc := tk_loc k\<rparr>\<rparr>
     in need Colon (''tras '' @ quoted ''app'') out (do {
       skip_newlines;
       need Indent ''al abrir el bloque app'' out (do {
         a \<leftarrow> block_lines False (\<lambda>a. do {
           t \<leftarrow> tok_peek 0;
           if tk_kind t = KwStatic then parse_static a
           else if tk_kind t = Ident then parse_app_key env (imports_of out) a
           else do {
             error_here ''se esperaba una clave de configuracion'';
             skip_line; ret (a, True) } }) (app out);
         tok_match Dedent;
         ret (out\<lparr>app := a\<rparr>) }) }) }"

section \<open>The program\<close>

definition parse_import :: "program \<Rightarrow> program parser" where
  "parse_import out = do {
     k \<leftarrow> tok_advance;
     id \<leftarrow> check Ident;
     if \<not> id then do {
       error_here (''se esperaba el nombre del modulo tras '' @ quoted ''import'');
       synchronize; ret out }
     else do {
       m \<leftarrow> tok_advance;
       if tk_text m \<in> set (imports_of out) then do {
         error_at (tk_loc k) (quoted (tk_text m) @ '' ya estaba importado''); ret out }
       else ret (out\<lparr>imports_of := imports_of out @ [tk_text m]\<rparr>) } }"

definition parse_declaration :: "(string \<Rightarrow> f64) \<Rightarrow> (string \<Rightarrow> string option) \<Rightarrow> program \<Rightarrow> program parser" where
  "parse_declaration rd env out = do {
     t \<leftarrow> tok_peek 0;
     let k = tk_kind t
     in if k \<in> set (map fst route_methods) then do { m \<leftarrow> tok_advance; parse_route rd m [] [] out }
     else if k = KwGroup then parse_group rd [] [] out
     else if k = KwApp then parse_app env out
     else if k = KwClass then parse_class rd out
     else if k = KwOn then parse_error rd out
     else if k = KwFn then parse_fn rd out
     else if k = KwImport then parse_import out
     else do {
       error_here ''se esperaba una declaracion (get/post/... endpoint, o app)'';
       synchronize; ret out } }"

definition parse_into :: "(string \<Rightarrow> f64) \<Rightarrow> (string \<Rightarrow> string option) \<Rightarrow> program \<Rightarrow> program parser" where
  "parse_into rd env out = do {
     skip_newlines;
     until [] (\<lambda>out. do {
       left0 \<leftarrow> tokens_left;
       out' \<leftarrow> parse_declaration rd env out;
       skip_newlines;
       ensure_progress left0;
       ret (out', True) }) out }"

definition new_parse :: "token list \<Rightarrow> diagnostic list \<Rightarrow> pstate" where
  "new_parse toks ds = \<lparr>ps_prev = None, ps_rest = toks, ps_diags = ds, ps_spent = False\<rparr>"

end
