(* ===== verification/Vm.thy ===== *)
theory Vm
  imports Values Token
begin

text \<open>
  The virtual machine (src/odio/vm.cpp, bytecode.hpp, vm.hpp).  Lists and dictionaries are boxes
  shared by reference, so the machine has a heap; strings are never written in place and stay
  values.  Boxes are not freed.  Integers are 64-bit words whose overflow wraps; the division
  that the processor traps on is an outcome of its own, and so is everything the bytecode could
  do that C++ leaves undefined (popping an empty stack, a slot or constant out of range).  The
  table of built-in functions and the dispatcher of methods are arguments of the machine.
\<close>

unbundle bit_operations_syntax

section \<open>Values and boxes\<close>

datatype hval = HNull | HBool bool | HInt i64 | HFloat f64 | HStr string | HList nat | HDict nat

datatype box = BList "hval list" | BDict "hval dict"

type_synonym heap = "box list"

definition list_at :: "heap \<Rightarrow> nat \<Rightarrow> hval list" where
  "list_at h a = (if a < length h then (case h ! a of BList l \<Rightarrow> l | _ \<Rightarrow> []) else [])"

definition dict_at :: "heap \<Rightarrow> nat \<Rightarrow> hval dict" where
  "dict_at h a = (if a < length h then (case h ! a of BDict d \<Rightarrow> d | _ \<Rightarrow> dict_empty) else dict_empty)"

fun h_type_name :: "hval \<Rightarrow> string" where
  "h_type_name HNull = ''null''"
| "h_type_name (HBool _) = ''bool''"
| "h_type_name (HInt _) = ''int''"
| "h_type_name (HFloat _) = ''float''"
| "h_type_name (HStr _) = ''string''"
| "h_type_name (HList _) = ''List''"
| "h_type_name (HDict _) = ''Dict''"

fun h_is_num :: "hval \<Rightarrow> bool" where
  "h_is_num (HInt _) = True"
| "h_is_num (HFloat _) = True"
| "h_is_num _ = False"

fun h_as_float :: "hval \<Rightarrow> f64" where
  "h_as_float (HFloat d) = d"
| "h_as_float (HInt i) = f64_of_int i"
| "h_as_float _ = 0"

definition h_truthy :: "heap \<Rightarrow> hval \<Rightarrow> bool" where
  "h_truthy h v = (case v of
       HNull \<Rightarrow> False
     | HBool b \<Rightarrow> b
     | HInt i \<Rightarrow> i \<noteq> 0
     | HFloat d \<Rightarrow> \<not> f64_zero d
     | HStr s \<Rightarrow> s \<noteq> []
     | HList a \<Rightarrow> list_at h a \<noteq> []
     | HDict a \<Rightarrow> d_v (dict_at h a) \<noteq> [])"

text \<open>
  \<open>equals\<close> on shared boxes may run forever on cyclic ones: the recursion is a work list, first
  pair first, and a right side that is missing is a key the other dictionary lacks.
\<close>

datatype eq_now = Differ | Same | Descend "(hval \<times> hval option) list"

definition equals_here :: "heap \<Rightarrow> hval \<Rightarrow> hval \<Rightarrow> eq_now" where
  "equals_here h a b =
     (let yes = (\<lambda>t. if t then Same else Differ)
      in case (a, b) of
           (HInt x, HInt y) \<Rightarrow> yes (x = y)
         | (HNull, HNull) \<Rightarrow> Same
         | (HBool x, HBool y) \<Rightarrow> yes (x = y)
         | (HStr x, HStr y) \<Rightarrow> yes (x = y)
         | (HList x, HList y) \<Rightarrow>
             if length (list_at h x) \<noteq> length (list_at h y) then Differ
             else Descend (zip (list_at h x) (map Some (list_at h y)))
         | (HDict x, HDict y) \<Rightarrow>
             if dict_size (dict_at h x) \<noteq> dict_size (dict_at h y) then Differ
             else Descend (map (\<lambda>(k, v). (v, dict_get (dict_at h y) k)) (d_v (dict_at h x)))
         | _ \<Rightarrow> if h_is_num a \<and> h_is_num b then yes (f64_eq (h_as_float a) (h_as_float b)) else Differ)"

partial_function (option) equals_work :: "heap \<Rightarrow> (hval \<times> hval option) list \<Rightarrow> bool option" where
  "equals_work h work =
     (case work of
        [] \<Rightarrow> Some True
      | (a, ob) # rest \<Rightarrow>
          (case ob of
             None \<Rightarrow> Some False
           | Some b \<Rightarrow>
               (case equals_here h a b of
                  Differ \<Rightarrow> Some False
                | Same \<Rightarrow> equals_work h rest
                | Descend inner \<Rightarrow> equals_work h (inner @ rest))))"

declare equals_work.simps [code]

definition h_equals :: "heap \<Rightarrow> hval \<Rightarrow> hval \<Rightarrow> bool option" where
  "h_equals h a b = equals_work h [(a, Some b)]"

section \<open>Bytecode\<close>

datatype (plugins only: code size) opcode =
    Op_Const | Op_LoadLocal | Op_StoreLocal | Op_Pop
  | Op_Add | Op_Sub | Op_Mul | Op_Div | Op_Mod | Op_Neg
  | Op_Eq | Op_Ne | Op_Lt | Op_Le | Op_Gt | Op_Ge | Op_Not
  | Op_AddInt | Op_SubInt | Op_MulInt | Op_LtInt | Op_LeInt | Op_GtInt | Op_GeInt
  | Op_Jump | Op_JumpIfFalse | Op_JumpIfFalsePeek | Op_JumpIfTruePeek
  | Op_MakeList | Op_MakeDict | Op_GetIndex | Op_SetIndex | Op_IterList | Op_GetMember | Op_SetMember
  | Op_CallFunction | Op_CallMethod | Op_CallNative | Op_CallAsync | Op_Return | Op_ReturnNull

definition op_names :: "(opcode \<times> string) list" where
  "op_names = [(Op_Const, ''CONST''), (Op_LoadLocal, ''LOAD_LOCAL''), (Op_StoreLocal, ''STORE_LOCAL''),
     (Op_Pop, ''POP''), (Op_Add, ''ADD''), (Op_Sub, ''SUB''), (Op_Mul, ''MUL''), (Op_Div, ''DIV''),
     (Op_Mod, ''MOD''), (Op_Neg, ''NEG''), (Op_Eq, ''EQ''), (Op_Ne, ''NE''), (Op_Lt, ''LT''), (Op_Le, ''LE''),
     (Op_Gt, ''GT''), (Op_Ge, ''GE''), (Op_Not, ''NOT''), (Op_AddInt, ''ADD_INT''), (Op_SubInt, ''SUB_INT''),
     (Op_MulInt, ''MUL_INT''), (Op_LtInt, ''LT_INT''), (Op_LeInt, ''LE_INT''), (Op_GtInt, ''GT_INT''),
     (Op_GeInt, ''GE_INT''), (Op_Jump, ''JUMP''), (Op_JumpIfFalse, ''JUMP_IF_FALSE''),
     (Op_JumpIfFalsePeek, ''JUMP_IF_FALSE_PEEK''), (Op_JumpIfTruePeek, ''JUMP_IF_TRUE_PEEK''),
     (Op_MakeList, ''MAKE_LIST''), (Op_MakeDict, ''MAKE_DICT''), (Op_GetIndex, ''GET_INDEX''),
     (Op_SetIndex, ''SET_INDEX''), (Op_IterList, ''ITER_LIST''), (Op_GetMember, ''GET_MEMBER''),
     (Op_SetMember, ''SET_MEMBER''), (Op_CallFunction, ''CALL_FUNCTION''), (Op_CallMethod, ''CALL_METHOD''),
     (Op_CallNative, ''CALL_NATIVE''), (Op_CallAsync, ''CALL_ASYNC''), (Op_Return, ''RETURN''),
     (Op_ReturnNull, ''RETURN_NULL'')]"

definition op_name :: "opcode \<Rightarrow> string" where
  "op_name op = (case map_of op_names op of Some s \<Rightarrow> s | None \<Rightarrow> ''?'')"

record instr =
  i_op :: opcode
  i_operand :: nat
  i_loc :: source_loc

record try_range =
  tr_begin :: nat
  tr_end :: nat
  catch_pc :: nat

record chunk =
  ch_code :: "instr list"
  ch_constants :: "hval list"
  ch_try :: "try_range list"
  num_locals :: nat
  has_await :: bool
  local_names :: "string list"

text \<open>The emitting side of a chunk.\<close>

definition add_constant :: "hval \<Rightarrow> chunk \<Rightarrow> chunk \<times> nat" where
  "add_constant v c = (c\<lparr>ch_constants := ch_constants c @ [v]\<rparr>, length (ch_constants c))"

definition emit :: "opcode \<Rightarrow> source_loc \<Rightarrow> nat \<Rightarrow> chunk \<Rightarrow> chunk \<times> nat" where
  "emit op loc operand c =
     (c\<lparr>ch_code := ch_code c @ [\<lparr>i_op = op, i_operand = operand, i_loc = loc\<rparr>]\<rparr>, length (ch_code c))"

definition patch :: "nat \<Rightarrow> nat \<Rightarrow> chunk \<Rightarrow> chunk" where
  "patch at target c = c\<lparr>ch_code := (ch_code c)[at := (ch_code c ! at)\<lparr>i_operand := target\<rparr>]\<rparr>"

section \<open>The machine\<close>

definition kStepLimit :: nat where "kStepLimit = 50000000"
definition kMaxFrames :: nat where "kMaxFrames = 200"

record frame =
  f_chunk :: chunk
  f_pc :: nat
  locals_base :: nat
  stack_base :: nat

text \<open>
  The top of the frame list and of the operand stack is the head; slots count from the bottom.
  \<open>'c\<close> is the context the built-in functions work on.
\<close>

record 'c machine =
  frames :: "frame list"
  stack :: "hval list"
  locals :: "hval list"
  fn_table :: "chunk list option"
  mheap :: heap
  mctx :: 'c
  steps :: nat

record 'c natives =
  native_fn :: "nat \<Rightarrow> (heap \<Rightarrow> 'c \<Rightarrow> hval list \<Rightarrow> heap \<times> 'c \<times> hval \<times> string) option"
  native_method :: "heap \<Rightarrow> 'c \<Rightarrow> hval \<Rightarrow> string \<Rightarrow> hval list \<Rightarrow> heap \<times> 'c \<times> hval \<times> string"

text \<open>
  What one instruction leads to.  \<open>Trapped\<close> is the division fault, \<open>Hung\<close> a comparison that does
  not end, \<open>Undefined\<close> an access the bytecode should never make.
\<close>

datatype 'c outcome =
    Running "'c machine"
  | Returned hval "'c machine"
  | Failed string source_loc "'c machine"
  | Suspended nat "hval list" "'c machine"
  | Trapped
  | Hung
  | Undefined

definition mpush :: "hval \<Rightarrow> 'c machine \<Rightarrow> 'c machine" where
  "mpush v m = m\<lparr>stack := v # stack m\<rparr>"

definition pop1 :: "'c machine \<Rightarrow> (hval \<Rightarrow> 'c machine \<Rightarrow> 'c outcome) \<Rightarrow> 'c outcome" where
  "pop1 m k = (case stack m of [] \<Rightarrow> Undefined | v # st \<Rightarrow> k v (m\<lparr>stack := st\<rparr>))"

text \<open>\<open>Value b = pop(), a = pop();\<close>\<close>

definition pop2 :: "'c machine \<Rightarrow> (hval \<Rightarrow> hval \<Rightarrow> 'c machine \<Rightarrow> 'c outcome) \<Rightarrow> 'c outcome" where
  "pop2 m k = pop1 m (\<lambda>b m1. pop1 m1 (\<lambda>a m2. k a b m2))"

text \<open>The arguments of a call, popped from the last to the first.\<close>

definition pop_args :: "nat \<Rightarrow> 'c machine \<Rightarrow> (hval list \<Rightarrow> 'c machine \<Rightarrow> 'c outcome) \<Rightarrow> 'c outcome" where
  "pop_args n m k =
     (if length (stack m) < n then Undefined
      else k (rev (take n (stack m))) (m\<lparr>stack := drop n (stack m)\<rparr>))"

text \<open>\<open>resize\<close> of the operand stack and of the locals.\<close>

definition stack_resize :: "nat \<Rightarrow> hval list \<Rightarrow> hval list" where
  "stack_resize n st = (if n \<le> length st then drop (length st - n) st else replicate (n - length st) HNull @ st)"

definition locals_resize :: "nat \<Rightarrow> hval list \<Rightarrow> hval list" where
  "locals_resize n ls = take n ls @ replicate (n - length ls) HNull"

definition set_pc :: "nat \<Rightarrow> 'c machine \<Rightarrow> 'c machine" where
  "set_pc t m = (case frames m of [] \<Rightarrow> m | f # fs \<Rightarrow> m\<lparr>frames := f\<lparr>f_pc := t\<rparr> # fs\<rparr>)"

text \<open>Constants and local slots; \<open>f\<close> is the frame on top.\<close>

definition exec_const :: "frame \<Rightarrow> nat \<Rightarrow> 'c machine \<Rightarrow> 'c outcome" where
  "exec_const f k m =
     (if k < length (ch_constants (f_chunk f)) then Running (mpush (ch_constants (f_chunk f) ! k) m)
      else Undefined)"

definition exec_load_local :: "frame \<Rightarrow> nat \<Rightarrow> 'c machine \<Rightarrow> 'c outcome" where
  "exec_load_local f k m =
     (if locals_base f + k < length (locals m) then Running (mpush (locals m ! (locals_base f + k)) m)
      else Undefined)"

definition exec_store_local :: "frame \<Rightarrow> nat \<Rightarrow> 'c machine \<Rightarrow> 'c outcome" where
  "exec_store_local f k m = pop1 m (\<lambda>v m1.
     if locals_base f + k < length (locals m1)
     then Running (m1\<lparr>locals := (locals m1)[locals_base f + k := v]\<rparr>) else Undefined)"

section \<open>Arithmetic and comparison\<close>

text \<open>The remainder of C++, which takes the sign of the dividend.\<close>

definition c_rem :: "int \<Rightarrow> int \<Rightarrow> int" where
  "c_rem x y = (if x < 0 then - (\<bar>x\<bar> mod \<bar>y\<bar>) else \<bar>x\<bar> mod \<bar>y\<bar>)"

definition c_quot :: "int \<Rightarrow> int \<Rightarrow> int" where
  "c_quot x y = (if (x < 0) \<noteq> (y < 0) then - (\<bar>x\<bar> div \<bar>y\<bar>) else \<bar>x\<bar> div \<bar>y\<bar>)"

text \<open>The one quotient a 64-bit division cannot represent; the instruction faults.\<close>

definition division_faults :: "i64 \<Rightarrow> i64 \<Rightarrow> bool" where
  "division_faults x y \<longleftrightarrow> sint x = - (2 ^ 63) \<and> sint y = - 1"

definition sin_especializar :: "opcode \<Rightarrow> opcode" where
  "sin_especializar op =
     (if op = Op_AddInt then Op_Add else if op = Op_SubInt then Op_Sub else if op = Op_MulInt then Op_Mul
      else if op = Op_LtInt then Op_Lt else if op = Op_LeInt then Op_Le else if op = Op_GtInt then Op_Gt
      else if op = Op_GeInt then Op_Ge else op)"

fun str_less :: "string \<Rightarrow> string \<Rightarrow> bool" where
  "str_less s [] = False"
| "str_less [] (d # t) = True"
| "str_less (c # s) (d # t) = (byte c < byte d \<or> (c = d \<and> str_less s t))"

definition ordered_by :: "opcode \<Rightarrow> bool \<Rightarrow> bool \<Rightarrow> bool" where
  "ordered_by op lt eq =
     (if op = Op_Lt then lt else if op = Op_Le then lt \<or> eq else if op = Op_Gt then \<not> lt \<and> \<not> eq else \<not> lt)"

text \<open>\<open>None\<close> when the two are neither both numbers nor both strings.\<close>

definition compare_vals :: "hval \<Rightarrow> hval \<Rightarrow> opcode \<Rightarrow> bool option" where
  "compare_vals a b op =
     (case (a, b) of
        (HInt x, HInt y) \<Rightarrow> Some (ordered_by op (sint x < sint y) (x = y))
      | (HStr x, HStr y) \<Rightarrow> Some (ordered_by op (str_less x y) (x = y))
      | _ \<Rightarrow>
          if h_is_num a \<and> h_is_num b then
            (let x = h_as_float a; y = h_as_float b
             in Some (if op = Op_Lt then f64_lt x y else if op = Op_Le then f64_le x y
                      else if op = Op_Gt then f64_lt y x else f64_le y x))
          else None)"

definition alloc :: "box \<Rightarrow> heap \<Rightarrow> heap" where
  "alloc x h = h @ [x]"

definition push_list :: "hval list \<Rightarrow> 'c machine \<Rightarrow> 'c machine" where
  "push_list l m = mpush (HList (length (mheap m))) (m\<lparr>mheap := alloc (BList l) (mheap m)\<rparr>)"

definition push_dict :: "hval dict \<Rightarrow> 'c machine \<Rightarrow> 'c machine" where
  "push_dict d m = mpush (HDict (length (mheap m))) (m\<lparr>mheap := alloc (BDict d) (mheap m)\<rparr>)"

text \<open>\<open>Op::Add\<close>.\<close>

definition exec_add :: "source_loc \<Rightarrow> 'c machine \<Rightarrow> 'c outcome" where
  "exec_add loc m = pop2 m (\<lambda>a b m2.
     case (a, b) of
       (HStr x, HStr y) \<Rightarrow> Running (mpush (HStr (x @ y)) m2)
     | (HInt x, HInt y) \<Rightarrow> Running (mpush (HInt (x + y)) m2)
     | (HList x, HList y) \<Rightarrow> Running (push_list (list_at (mheap m2) x @ list_at (mheap m2) y) m2)
     | _ \<Rightarrow>
         if (case a of HStr _ \<Rightarrow> True | _ \<Rightarrow> False) \<or> (case b of HStr _ \<Rightarrow> True | _ \<Rightarrow> False) then
           Failed (''no se puede sumar '' @ h_type_name a @ '' y '' @ h_type_name b
             @ ''; para concatenar usa str(): '' @ [CHR 0x22] @ ''...'' @ [CHR 0x22] @ '' + str(x)'') loc m2
         else if h_is_num a \<and> h_is_num b then
           Running (mpush (HFloat (f64_add (h_as_float a) (h_as_float b))) m2)
         else Failed (''no se puede sumar '' @ h_type_name a @ '' y '' @ h_type_name b) loc m2)"

text \<open>\<open>Op::Sub\<close>, \<open>Op::Mul\<close>, \<open>Op::Div\<close>, \<open>Op::Mod\<close>.\<close>

definition exec_mod :: "source_loc \<Rightarrow> hval \<Rightarrow> hval \<Rightarrow> 'c machine \<Rightarrow> 'c outcome" where
  "exec_mod loc a b m =
     (case (a, b) of
        (HInt x, HInt y) \<Rightarrow>
          if y = 0 then Failed ''modulo por cero'' loc m
          else if division_faults x y then Trapped
          else Running (mpush (HInt (word_of_int (c_rem (sint x) (sint y)))) m)
      | _ \<Rightarrow> Failed (CHR 0x27 # ''%'' @ CHR 0x27 # '' solo aplica a enteros'') loc m)"

definition exec_div :: "source_loc \<Rightarrow> hval \<Rightarrow> hval \<Rightarrow> 'c machine \<Rightarrow> 'c outcome" where
  "exec_div loc a b m =
     (if f64_zero (h_as_float b) then Failed ''division por cero'' loc m
      else case (a, b) of
             (HInt x, HInt y) \<Rightarrow>
               if division_faults x y then Trapped
               else if c_rem (sint x) (sint y) = 0
                    then Running (mpush (HInt (word_of_int (c_quot (sint x) (sint y)))) m)
                    else Running (mpush (HFloat (f64_div (h_as_float a) (h_as_float b))) m)
           | _ \<Rightarrow> Running (mpush (HFloat (f64_div (h_as_float a) (h_as_float b))) m))"

definition exec_arith :: "opcode \<Rightarrow> source_loc \<Rightarrow> 'c machine \<Rightarrow> 'c outcome" where
  "exec_arith op loc m =
     (let og = sin_especializar op
      in pop2 m (\<lambda>a b m2.
           if \<not> (h_is_num a \<and> h_is_num b)
             then Failed (''operacion aritmetica entre '' @ h_type_name a @ '' y '' @ h_type_name b) loc m2
           else if og = Op_Mod then exec_mod loc a b m2
           else if og = Op_Div then exec_div loc a b m2
           else case (a, b) of
                  (HInt x, HInt y) \<Rightarrow> Running (mpush (HInt (if og = Op_Sub then x - y else x * y)) m2)
                | _ \<Rightarrow> Running (mpush (HFloat (if og = Op_Sub then f64_sub (h_as_float a) (h_as_float b)
                                             else f64_mul (h_as_float a) (h_as_float b))) m2)))"

definition exec_neg :: "source_loc \<Rightarrow> 'c machine \<Rightarrow> 'c outcome" where
  "exec_neg loc m = pop1 m (\<lambda>a m1.
     case a of
       HInt x \<Rightarrow> Running (mpush (HInt (- x)) m1)
     | HFloat x \<Rightarrow> Running (mpush (HFloat (f64_neg x)) m1)
     | _ \<Rightarrow> Failed (''no se puede negar '' @ h_type_name a) loc m1)"

definition exec_equal :: "bool \<Rightarrow> 'c machine \<Rightarrow> 'c outcome" where
  "exec_equal sense m = pop2 m (\<lambda>a b m2.
     case h_equals (mheap m2) a b of None \<Rightarrow> Hung | Some r \<Rightarrow> Running (mpush (HBool (r = sense)) m2))"

definition exec_compare :: "opcode \<Rightarrow> source_loc \<Rightarrow> 'c machine \<Rightarrow> 'c outcome" where
  "exec_compare op loc m = pop2 m (\<lambda>a b m2.
     case compare_vals a b (sin_especializar op) of
       None \<Rightarrow> Failed (''no se pueden comparar '' @ h_type_name a @ '' y '' @ h_type_name b) loc m2
     | Some r \<Rightarrow> Running (mpush (HBool r) m2))"

text \<open>The specialised instructions: look at the two values on top without popping them.\<close>

definition int_result :: "opcode \<Rightarrow> i64 \<Rightarrow> i64 \<Rightarrow> hval" where
  "int_result op x y =
     (if op = Op_AddInt then HInt (x + y) else if op = Op_SubInt then HInt (x - y)
      else if op = Op_MulInt then HInt (x * y) else if op = Op_LtInt then HBool (sint x < sint y)
      else if op = Op_LeInt then HBool (sint x \<le> sint y) else if op = Op_GtInt then HBool (sint x > sint y)
      else HBool (sint x \<ge> sint y))"

definition exec_int :: "opcode \<Rightarrow> source_loc \<Rightarrow> 'c machine \<Rightarrow> 'c outcome" where
  "exec_int op loc m =
     (case stack m of
        b # a # st \<Rightarrow>
          (case (a, b) of
             (HInt x, HInt y) \<Rightarrow> Running (mpush (int_result op x y) (m\<lparr>stack := st\<rparr>))
           | _ \<Rightarrow> if op = Op_AddInt then exec_add loc m
                  else if op = Op_SubInt \<or> op = Op_MulInt then exec_arith op loc m
                  else exec_compare op loc m)
      | _ \<Rightarrow> Undefined)"

section \<open>Jumps\<close>

definition exec_jump :: "nat \<Rightarrow> source_loc \<Rightarrow> 'c machine \<Rightarrow> 'c outcome" where
  "exec_jump t loc m =
     (case frames m of
        [] \<Rightarrow> Undefined
      | f # _ \<Rightarrow>
          if t \<le> f_pc f then
            (let m1 = m\<lparr>steps := steps m + 1\<rparr>
             in if steps m1 > kStepLimit
                then Failed ''el handler supero el limite de pasos: bucle infinito?'' loc m1
                else Running (set_pc t m1))
          else Running (set_pc t m))"

definition exec_jump_if_false :: "nat \<Rightarrow> 'c machine \<Rightarrow> 'c outcome" where
  "exec_jump_if_false t m = pop1 m (\<lambda>v m1.
     Running (if \<not> h_truthy (mheap m1) v then set_pc t m1 else m1))"

definition exec_jump_peek :: "bool \<Rightarrow> nat \<Rightarrow> 'c machine \<Rightarrow> 'c outcome" where
  "exec_jump_peek sense t m = pop1 m (\<lambda>v m1.
     Running (if h_truthy (mheap m) v = sense then set_pc t m else m1))"

section \<open>Containers\<close>

definition exec_make_list :: "nat \<Rightarrow> 'c machine \<Rightarrow> 'c outcome" where
  "exec_make_list n m = pop_args n m (\<lambda>vs m1. Running (push_list vs m1))"

text \<open>The pairs are read in place, from the first; a key that is no string ends the loop.\<close>

fun dict_pairs :: "hval list \<Rightarrow> hval dict \<Rightarrow> hval dict + string" where
  "dict_pairs (k # v # kvs) d =
     (case k of HStr s \<Rightarrow> dict_pairs kvs (dict_put s v d) | _ \<Rightarrow> Inr (h_type_name k))"
| "dict_pairs _ d = Inl d"

definition exec_make_dict :: "nat \<Rightarrow> source_loc \<Rightarrow> 'c machine \<Rightarrow> 'c outcome" where
  "exec_make_dict n loc m = pop_args (2 * n) m (\<lambda>vs m1.
     case dict_pairs vs dict_empty of
       Inl d \<Rightarrow> Running (push_dict d m1)
     | Inr t \<Rightarrow> Failed (''la clave de un Dict tiene que ser string, no '' @ t) loc m1)"

definition index_error :: "i64 \<Rightarrow> nat \<Rightarrow> string" where
  "index_error i n = ''indice fuera de rango: '' @ int_dec (sint i) @ '' (tamano '' @ nat_dec n @ '')''"

definition in_range :: "i64 \<Rightarrow> nat \<Rightarrow> bool" where
  "in_range i n \<longleftrightarrow> 0 \<le> sint i \<and> sint i < int n"

definition exec_get_index :: "source_loc \<Rightarrow> 'c machine \<Rightarrow> 'c outcome" where
  "exec_get_index loc m = pop2 m (\<lambda>obj idx m2.
     case obj of
       HList a \<Rightarrow>
         (case idx of
            HInt i \<Rightarrow>
              (let l = list_at (mheap m2) a
               in if in_range i (length l) then Running (mpush (l ! nat (sint i)) m2)
                  else Failed (index_error i (length l)) loc m2)
          | _ \<Rightarrow> Failed ''el indice de una List tiene que ser int'' loc m2)
     | HDict a \<Rightarrow>
         (case idx of
            HStr k \<Rightarrow> Running (mpush (case dict_get (dict_at (mheap m2) a) k of None \<Rightarrow> HNull | Some v \<Rightarrow> v) m2)
          | _ \<Rightarrow> Failed ''la clave de un Dict tiene que ser string'' loc m2)
     | _ \<Rightarrow> Failed (''no se puede indexar '' @ h_type_name obj) loc m2)"

definition exec_set_index :: "source_loc \<Rightarrow> 'c machine \<Rightarrow> 'c outcome" where
  "exec_set_index loc m = pop1 m (\<lambda>v m1. pop2 m1 (\<lambda>obj idx m3.
     case obj of
       HList a \<Rightarrow>
         (case idx of
            HInt i \<Rightarrow>
              (let l = list_at (mheap m3) a
               in if in_range i (length l)
                  then Running (mpush v (m3\<lparr>mheap := (mheap m3)[a := BList (l[nat (sint i) := v])]\<rparr>))
                  else Failed (index_error i (length l)) loc m3)
          | _ \<Rightarrow> Failed ''el indice de una List tiene que ser int'' loc m3)
     | HDict a \<Rightarrow>
         (case idx of
            HStr k \<Rightarrow> Running (mpush v (m3\<lparr>mheap := (mheap m3)[a := BDict (dict_put k v (dict_at (mheap m3) a))]\<rparr>))
          | _ \<Rightarrow> Failed ''la clave de un Dict tiene que ser string'' loc m3)
     | _ \<Rightarrow> Failed (''no se puede indexar '' @ h_type_name obj) loc m3))"

definition exec_iter_list :: "source_loc \<Rightarrow> 'c machine \<Rightarrow> 'c outcome" where
  "exec_iter_list loc m = pop1 m (\<lambda>v m1.
     case v of
       HList a \<Rightarrow> Running (mpush v m1)
     | HDict a \<Rightarrow> Running (push_list (map (\<lambda>(k, _). HStr k) (d_v (dict_at (mheap m1) a))) m1)
     | _ \<Rightarrow> Failed (''no se puede recorrer '' @ h_type_name v @ '' con '' @ CHR 0x27 # ''for'' @ [CHR 0x27]) loc m1)"

text \<open>\<open>chunk.constants[k].as_str()\<close>.\<close>

definition const_str :: "chunk \<Rightarrow> nat \<Rightarrow> string option" where
  "const_str c k =
     (if k < length (ch_constants c) then (case ch_constants c ! k of HStr s \<Rightarrow> Some s | _ \<Rightarrow> None) else None)"

definition exec_get_member :: "chunk \<Rightarrow> nat \<Rightarrow> source_loc \<Rightarrow> 'c machine \<Rightarrow> 'c outcome" where
  "exec_get_member c k loc m = pop1 m (\<lambda>obj m1.
     case const_str c k of
       None \<Rightarrow> Undefined
     | Some name \<Rightarrow>
         (case obj of
            HDict a \<Rightarrow> Running (mpush (case dict_get (dict_at (mheap m1) a) name of None \<Rightarrow> HNull | Some v \<Rightarrow> v) m1)
          | _ \<Rightarrow> Failed (CHR 0x27 # name @ CHR 0x27 # '' sobre '' @ h_type_name obj @ '', que no tiene campos'') loc m1))"

definition exec_set_member :: "chunk \<Rightarrow> nat \<Rightarrow> source_loc \<Rightarrow> 'c machine \<Rightarrow> 'c outcome" where
  "exec_set_member c k loc m = pop2 m (\<lambda>obj v m2.
     case const_str c k of
       None \<Rightarrow> Undefined
     | Some name \<Rightarrow>
         (case obj of
            HDict a \<Rightarrow> Running (mpush v (m2\<lparr>mheap := (mheap m2)[a := BDict (dict_put name v (dict_at (mheap m2) a))]\<rparr>))
          | _ \<Rightarrow> Failed (''no se puede asignar '' @ CHR 0x27 # name @ CHR 0x27 # '' sobre '' @ h_type_name obj) loc m2))"

section \<open>Calls\<close>

definition exec_call_function :: "nat \<Rightarrow> source_loc \<Rightarrow> 'c machine \<Rightarrow> 'c outcome" where
  "exec_call_function operand loc m =
     (let index = operand div 256; argc = operand mod 256
      in case fn_table m of
           None \<Rightarrow> Failed ''funcion no encontrada'' loc m
         | Some fns \<Rightarrow>
             if index \<ge> length fns then Failed ''funcion no encontrada'' loc m
             else if length (frames m) \<ge> kMaxFrames then
               Failed (''demasiada recursion: mas de '' @ nat_dec kMaxFrames @ '' llamadas anidadas'') loc m
             else
               (let callee = fns ! index
                in pop_args argc m (\<lambda>args m1.
                     if argc > num_locals callee then Undefined
                     else Running (m1\<lparr>frames := \<lparr>f_chunk = callee, f_pc = 0,
                              locals_base = length (locals m1), stack_base = length (stack m1)\<rparr> # frames m1,
                            locals := locals m1 @ args @ replicate (num_locals callee - argc) HNull\<rparr>))))"

definition finish_call :: "heap \<times> 'c \<times> hval \<times> string \<Rightarrow> source_loc \<Rightarrow> 'c machine \<Rightarrow> 'c outcome" where
  "finish_call r loc m =
     (case r of (h, c, v, err) \<Rightarrow>
        (let m1 = m\<lparr>mheap := h, mctx := c\<rparr> in if err \<noteq> [] then Failed err loc m1 else Running (mpush v m1)))"

definition exec_call_method :: "'c natives \<Rightarrow> chunk \<Rightarrow> nat \<Rightarrow> source_loc \<Rightarrow> 'c machine \<Rightarrow> 'c outcome" where
  "exec_call_method N c operand loc m =
     pop_args (operand mod 256) m (\<lambda>args m1. pop1 m1 (\<lambda>recv m2.
       case const_str c (operand div 256) of
         None \<Rightarrow> Undefined
       | Some name \<Rightarrow> finish_call (native_method N (mheap m2) (mctx m2) recv name args) loc m2))"

definition exec_call_native :: "'c natives \<Rightarrow> nat \<Rightarrow> source_loc \<Rightarrow> 'c machine \<Rightarrow> 'c outcome" where
  "exec_call_native N operand loc m =
     pop_args (operand mod 256) m (\<lambda>args m1.
       case native_fn N (operand div 256) of
         None \<Rightarrow> Undefined
       | Some fn \<Rightarrow> finish_call (fn (mheap m1) (mctx m1) args) loc m1)"

definition exec_call_async :: "nat \<Rightarrow> 'c machine \<Rightarrow> 'c outcome" where
  "exec_call_async operand m = pop_args (operand mod 256) m (\<lambda>args m1. Suspended (operand div 256) args m1)"

text \<open>The frame on top is left; \<open>v\<close> goes to the caller, or ends the run.\<close>

definition leave_frame :: "hval \<Rightarrow> 'c machine \<Rightarrow> 'c outcome" where
  "leave_frame v m =
     (case frames m of
        [] \<Rightarrow> Undefined
      | [f] \<Rightarrow> Returned v (m\<lparr>frames := []\<rparr>)
      | f # fs \<Rightarrow> Running (mpush v (m\<lparr>frames := fs, stack := stack_resize (stack_base f) (stack m),
                                     locals := locals_resize (locals_base f) (locals m)\<rparr>)))"

section \<open>Running\<close>

text \<open>One equation per instruction; the program counter of \<open>f\<close> already points past it.\<close>

primrec exec_op :: "opcode \<Rightarrow> 'c natives \<Rightarrow> frame \<Rightarrow> nat \<Rightarrow> source_loc \<Rightarrow> 'c machine \<Rightarrow> 'c outcome" where
  "exec_op Op_Const N f k loc m = exec_const f k m"
| "exec_op Op_LoadLocal N f k loc m = exec_load_local f k m"
| "exec_op Op_StoreLocal N f k loc m = exec_store_local f k m"
| "exec_op Op_Pop N f k loc m = pop1 m (\<lambda>_ m1. Running m1)"
| "exec_op Op_Add N f k loc m = exec_add loc m"
| "exec_op Op_Sub N f k loc m = exec_arith Op_Sub loc m"
| "exec_op Op_Mul N f k loc m = exec_arith Op_Mul loc m"
| "exec_op Op_Div N f k loc m = exec_arith Op_Div loc m"
| "exec_op Op_Mod N f k loc m = exec_arith Op_Mod loc m"
| "exec_op Op_Neg N f k loc m = exec_neg loc m"
| "exec_op Op_Eq N f k loc m = exec_equal True m"
| "exec_op Op_Ne N f k loc m = exec_equal False m"
| "exec_op Op_Lt N f k loc m = exec_compare Op_Lt loc m"
| "exec_op Op_Le N f k loc m = exec_compare Op_Le loc m"
| "exec_op Op_Gt N f k loc m = exec_compare Op_Gt loc m"
| "exec_op Op_Ge N f k loc m = exec_compare Op_Ge loc m"
| "exec_op Op_Not N f k loc m = pop1 m (\<lambda>v m1. Running (mpush (HBool (\<not> h_truthy (mheap m1) v)) m1))"
| "exec_op Op_AddInt N f k loc m = exec_int Op_AddInt loc m"
| "exec_op Op_SubInt N f k loc m = exec_int Op_SubInt loc m"
| "exec_op Op_MulInt N f k loc m = exec_int Op_MulInt loc m"
| "exec_op Op_LtInt N f k loc m = exec_int Op_LtInt loc m"
| "exec_op Op_LeInt N f k loc m = exec_int Op_LeInt loc m"
| "exec_op Op_GtInt N f k loc m = exec_int Op_GtInt loc m"
| "exec_op Op_GeInt N f k loc m = exec_int Op_GeInt loc m"
| "exec_op Op_Jump N f k loc m = exec_jump k loc m"
| "exec_op Op_JumpIfFalse N f k loc m = exec_jump_if_false k m"
| "exec_op Op_JumpIfFalsePeek N f k loc m = exec_jump_peek False k m"
| "exec_op Op_JumpIfTruePeek N f k loc m = exec_jump_peek True k m"
| "exec_op Op_MakeList N f k loc m = exec_make_list k m"
| "exec_op Op_MakeDict N f k loc m = exec_make_dict k loc m"
| "exec_op Op_GetIndex N f k loc m = exec_get_index loc m"
| "exec_op Op_SetIndex N f k loc m = exec_set_index loc m"
| "exec_op Op_IterList N f k loc m = exec_iter_list loc m"
| "exec_op Op_GetMember N f k loc m = exec_get_member (f_chunk f) k loc m"
| "exec_op Op_SetMember N f k loc m = exec_set_member (f_chunk f) k loc m"
| "exec_op Op_CallFunction N f k loc m = exec_call_function k loc m"
| "exec_op Op_CallMethod N f k loc m = exec_call_method N (f_chunk f) k loc m"
| "exec_op Op_CallNative N f k loc m = exec_call_native N k loc m"
| "exec_op Op_CallAsync N f k loc m = exec_call_async k m"
| "exec_op Op_Return N f k loc m = pop1 m (\<lambda>v m1. leave_frame v m1)"
| "exec_op Op_ReturnNull N f k loc m = leave_frame HNull m"

text \<open>One round of the loop of \<open>run_until_error\<close>.\<close>

definition vm_step :: "'c natives \<Rightarrow> 'c machine \<Rightarrow> 'c outcome" where
  "vm_step N m =
     (case frames m of
        [] \<Rightarrow> Returned HNull m
      | f # _ \<Rightarrow>
          if length (ch_code (f_chunk f)) \<le> f_pc f then leave_frame HNull m
          else (let i = ch_code (f_chunk f) ! f_pc f
                in exec_op (i_op i) N f (i_operand i) (i_loc i) (set_pc (f_pc f + 1) m)))"

partial_function (option) run_loop :: "'c natives \<Rightarrow> 'c machine \<Rightarrow> 'c outcome option" where
  "run_loop N m = (case vm_step N m of Running m1 \<Rightarrow> run_loop N m1 | r \<Rightarrow> Some r)"

declare run_loop.simps [code]

definition run_until_error :: "'c natives \<Rightarrow> 'c machine \<Rightarrow> 'c outcome option" where
  "run_until_error N m = run_loop N (m\<lparr>steps := 0\<rparr>)"

section \<open>Errors and try blocks\<close>

definition covers :: "nat \<Rightarrow> try_range \<Rightarrow> bool" where
  "covers pc r \<longleftrightarrow> \<not> (pc < tr_begin r \<or> pc \<ge> tr_end r)"

definition find_handler :: "chunk \<Rightarrow> nat \<Rightarrow> try_range option" where
  "find_handler c pc =
     foldl (\<lambda>best r.
        if \<not> covers pc r then best
        else case best of
               None \<Rightarrow> Some r
             | Some b \<Rightarrow> if tr_end r - tr_begin r < tr_end b - tr_begin b then Some r else best)
       None (ch_try c)"

text \<open>\<open>pc - 1\<close> in \<open>size_t\<close>.\<close>

definition pc_before :: "frame \<Rightarrow> nat" where
  "pc_before f = (if f_pc f = 0 then 2 ^ 64 - 1 else f_pc f - 1)"

fun unwind :: "frame list \<Rightarrow> hval list \<Rightarrow> hval list \<Rightarrow> nat option \<times> frame list \<times> hval list \<times> hval list" where
  "unwind [] st ls = (None, [], st, ls)"
| "unwind (f # fs) st ls =
     (case find_handler (f_chunk f) (pc_before f) of
        Some r \<Rightarrow> (Some (catch_pc r), f # fs, st, ls)
      | None \<Rightarrow> unwind fs (stack_resize (stack_base f) st) (locals_resize (locals_base f) ls))"

definition error_value :: "string \<Rightarrow> hval dict" where
  "error_value msg = dict_put ''message'' (HStr msg) dict_empty"

text \<open>The machine in the handler, or the one no handler was found on.\<close>

definition catch_error :: "string \<Rightarrow> 'c machine \<Rightarrow> 'c machine + 'c machine" where
  "catch_error msg m =
     (case unwind (frames m) (stack m) (locals m) of
        (None, fs, st, ls) \<Rightarrow> Inl (m\<lparr>frames := fs, stack := st, locals := ls\<rparr>)
      | (Some t, fs, st, ls) \<Rightarrow>
          (let m1 = m\<lparr>frames := fs, stack := (case fs of [] \<Rightarrow> st | f # _ \<Rightarrow> stack_resize (stack_base f) st),
                      locals := ls\<rparr>
           in Inr (set_pc t (push_dict (error_value msg) m1))))"

partial_function (option) execute :: "'c natives \<Rightarrow> 'c machine \<Rightarrow> 'c outcome option" where
  "execute N m =
     Option.bind (run_until_error N m) (\<lambda>r.
       case r of
         Failed msg loc m1 \<Rightarrow>
           (case catch_error msg m1 of
              Inl m2 \<Rightarrow> Some (Failed msg loc m2)
            | Inr m2 \<Rightarrow> execute N m2)
       | _ \<Rightarrow> Some r)"

declare execute.simps [code]

definition vm_start :: "chunk \<Rightarrow> hval list \<Rightarrow> chunk list option \<Rightarrow> heap \<Rightarrow> 'c \<Rightarrow> 'c machine" where
  "vm_start c params fns h ctx =
     \<lparr>frames = [\<lparr>f_chunk = c, f_pc = 0, locals_base = 0, stack_base = 0\<rparr>], stack = [],
      locals = take (num_locals c) params @ replicate (num_locals c - length params) HNull,
      fn_table = fns, mheap = h, mctx = ctx, steps = 0\<rparr>"

definition start :: "'c natives \<Rightarrow> chunk \<Rightarrow> hval list \<Rightarrow> chunk list option \<Rightarrow> heap \<Rightarrow> 'c \<Rightarrow> 'c outcome option" where
  "start N c params fns h ctx = execute N (vm_start c params fns h ctx)"

definition resume :: "'c natives \<Rightarrow> hval \<Rightarrow> 'c machine \<Rightarrow> 'c outcome option" where
  "resume N awaited m = execute N (mpush awaited m)"

end
