(* ===== verification/NativeTable.thy ===== *)
theory NativeTable
  imports Prelude
begin

text \<open>
  The tables of built-in functions, of the members of reserved objects and of the methods of built-in
  types (src/odio/natives.cpp), as the compiler reads them.
\<close>

record native_def =
  nd_name :: string
  min_args :: nat
  max_args :: int
  is_async :: bool

abbreviation native :: "string \<Rightarrow> nat \<Rightarrow> int \<Rightarrow> native_def" where
  "native n a b \<equiv> \<lparr>nd_name = n, min_args = a, max_args = b, is_async = False\<rparr>"

abbreviation suspending :: "string \<Rightarrow> nat \<Rightarrow> int \<Rightarrow> native_def" where
  "suspending n a b \<equiv> \<lparr>nd_name = n, min_args = a, max_args = b, is_async = True\<rparr>"

text \<open>\<open>- 1\<close> arguments stand for any number; the functions themselves are not part of the table.\<close>

definition kNatives :: "native_def list" where
  "kNatives = [
     native ''text'' 1 1, native ''html'' 1 1, native ''json'' 1 1, native ''render'' 1 2,
     native ''__render_tpl'' 2 2, native ''status'' 1 1, native ''redirect'' 1 2, native ''send_file'' 1 1,
     native ''len'' 1 1, native ''str'' 1 1, native ''int'' 1 1, native ''header'' 1 2,
     native ''query'' 1 2, native ''__sse_send'' 1 3, native ''__sse_ping'' 0 1, native ''__sse_open'' 0 0,
     native ''__ws_send'' 1 1, native ''__ws_open'' 0 0, native ''__ws_close'' 0 0,
     native ''__session_get'' 1 1, native ''__session_set'' 2 2, native ''__session_clear'' 0 0,
     native ''__jwt_valid'' 0 0, native ''__jwt_claims'' 0 0, native ''__error_code'' 0 0,
     native ''__error_message'' 0 0, native ''__error_messages'' 0 0, native ''__req_path'' 0 0,
     native ''__req_method'' 0 0, native ''__req_ip'' 0 0, native ''__state_incr'' 1 2,
     native ''__state_decr'' 1 2, native ''__state_get'' 1 2, native ''__state_set'' 2 2,
     native ''__state_remove'' 1 1, native ''__log_info'' 1 1, native ''__log_warn'' 1 1,
     native ''__log_error'' 1 1, native ''cookie'' 1 2, native ''form'' 1 2, suspending ''sleep'' 1 1,
     suspending ''__ws_recv'' 0 0, suspending ''__db_query'' 2 (- 1), suspending ''__db_exec'' 2 (- 1),
     suspending ''__db_begin'' 1 1, suspending ''__db_commit'' 1 1, suspending ''__db_rollback'' 1 1,
     suspending ''__db_last_id'' 1 1]"

text \<open>The index of the first element, or nothing.\<close>

primrec index_where :: "('a \<Rightarrow> bool) \<Rightarrow> 'a list \<Rightarrow> nat option" where
  "index_where P [] = None"
| "index_where P (x # xs) = (if P x then Some 0 else map_option Suc (index_where P xs))"

definition native_id :: "string \<Rightarrow> nat option" where
  "native_id name = index_where (\<lambda>d. nd_name d = name) kNatives"

definition native_at :: "nat \<Rightarrow> native_def" where
  "native_at i = kNatives ! i"

definition kMembers :: "(string \<times> string \<times> string) list" where
  "kMembers = [
     (''sse'', ''send'', ''__sse_send''), (''sse'', ''ping'', ''__sse_ping''),
     (''sse'', ''open'', ''__sse_open''), (''ws'', ''send'', ''__ws_send''),
     (''ws'', ''open'', ''__ws_open''), (''ws'', ''close'', ''__ws_close''),
     (''ws'', ''recv'', ''__ws_recv''), (''session'', ''clear'', ''__session_clear''),
     (''jwt'', ''valid'', ''__jwt_valid''), (''jwt'', ''claims'', ''__jwt_claims''),
     (''error'', ''code'', ''__error_code''), (''error'', ''message'', ''__error_message''),
     (''error'', ''messages'', ''__error_messages''), (''sqlite'', ''query'', ''__db_query''),
     (''sqlite'', ''exec'', ''__db_exec''), (''postgres'', ''query'', ''__db_query''),
     (''postgres'', ''exec'', ''__db_exec''), (''mysql'', ''query'', ''__db_query''),
     (''mysql'', ''exec'', ''__db_exec''), (''sqlite'', ''begin'', ''__db_begin''),
     (''sqlite'', ''commit'', ''__db_commit''), (''sqlite'', ''rollback'', ''__db_rollback''),
     (''sqlite'', ''last_id'', ''__db_last_id''), (''postgres'', ''begin'', ''__db_begin''),
     (''postgres'', ''commit'', ''__db_commit''), (''postgres'', ''rollback'', ''__db_rollback''),
     (''postgres'', ''last_id'', ''__db_last_id''), (''mysql'', ''begin'', ''__db_begin''),
     (''mysql'', ''commit'', ''__db_commit''), (''mysql'', ''rollback'', ''__db_rollback''),
     (''mysql'', ''last_id'', ''__db_last_id''), (''request'', ''path'', ''__req_path''),
     (''request'', ''method'', ''__req_method''), (''request'', ''ip'', ''__req_ip''),
     (''state'', ''incr'', ''__state_incr''), (''state'', ''decr'', ''__state_decr''),
     (''state'', ''get'', ''__state_get''), (''state'', ''set'', ''__state_set''),
     (''state'', ''remove'', ''__state_remove''), (''log'', ''info'', ''__log_info''),
     (''log'', ''warn'', ''__log_warn''), (''log'', ''error'', ''__log_error'')]"

definition member_native_id :: "string \<Rightarrow> string \<Rightarrow> nat option" where
  "member_native_id obj memb =
     (case find (\<lambda>(a, m, _). a = obj \<and> m = memb) kMembers of
        Some (_, _, n) \<Rightarrow> native_id n
      | None \<Rightarrow> None)"

definition is_reserved_object :: "string \<Rightarrow> bool" where
  "is_reserved_object name \<longleftrightarrow> list_ex (\<lambda>(a, _, _). a = name) kMembers"

definition is_db_module :: "string \<Rightarrow> bool" where
  "is_db_module name \<longleftrightarrow> name = ''sqlite'' \<or> name = ''postgres'' \<or> name = ''mysql''"

text \<open>\<open>metodos_de\<close>: a method without a result type returns its receiver.\<close>

record method_def =
  md_name :: string
  md_min :: nat
  md_max :: nat
  md_returns :: "string option"

abbreviation mdef :: "string \<Rightarrow> nat \<Rightarrow> nat \<Rightarrow> string option \<Rightarrow> method_def" where
  "mdef n a b r \<equiv> \<lparr>md_name = n, md_min = a, md_max = b, md_returns = r\<rparr>"

definition kComunes :: "method_def list" where
  "kComunes = [mdef ''status'' 1 1 None, mdef ''header'' 2 2 None, mdef ''cookie'' 2 3 None]"

definition metodos_de :: "string \<Rightarrow> method_def list option" where
  "metodos_de tipo =
     (if tipo = ''string'' then Some (kComunes @ [
          mdef ''starts_with'' 1 1 (Some ''bool''), mdef ''ends_with'' 1 1 (Some ''bool''),
          mdef ''contains'' 1 1 (Some ''bool''), mdef ''upper'' 0 0 (Some ''string''),
          mdef ''lower'' 0 0 (Some ''string''), mdef ''trim'' 0 0 (Some ''string'')])
      else if tipo = ''List'' then Some (kComunes @ [mdef ''add'' 1 1 None])
      else if tipo = ''Dict'' then Some (kComunes @ [
          mdef ''has'' 1 1 (Some ''bool''), mdef ''keys'' 0 0 (Some ''List''), mdef ''save'' 1 1 (Some ''string'')])
      else if tipo \<in> set [''int'', ''long'', ''float'', ''double'', ''bool''] then Some kComunes
      else None)"

section \<open>Lookups\<close>

lemma index_where_less: "index_where P xs = Some i \<Longrightarrow> i < length xs \<and> P (xs ! i)"
  by (induction xs arbitrary: i) (auto split: if_splits)

lemma kNatives_length [simp]: "length kNatives = 48"
  by (simp add: kNatives_def)

lemma native_id_less: "native_id n = Some i \<Longrightarrow> i < 48"
  using index_where_less [of _ kNatives i] by (simp add: native_id_def)

lemma member_native_id_less: "member_native_id a m = Some i \<Longrightarrow> i < 48"
  by (auto simp: member_native_id_def dest: native_id_less split: option.splits)

end
