(* ===== verification/Emitter.thy ===== *)
theory Emitter
  imports Ast Vm NativeTable "HOL-Library.State_Monad"
begin

text \<open>
  The emitter (src/odio/emitter.cpp, emitter.hpp): syntax trees to bytecode, with names resolved to
  local slots.  Its state is the chunk being written, the diagnostics, the locals in scope, the
  open loops and the table of templates.  What compiles a template is a parameter.  A null pointer
  the source dereferences sets a flag.  An argument left out of a call is filled with the default
  expression of the parameter, emitted at the call: the depth of expressions is bounded by fuel, since
  a default can call its own function.
\<close>

section \<open>Signatures and state\<close>

record fn_sig =
  sg_index :: nat
  sg_required :: nat
  sg_defaults :: "expr option list"

record class_sig =
  cs_methods :: "(string \<times> fn_sig) list"
  cs_ctors :: "(nat \<times> nat) list"
  cs_fields :: "string list"

record elocal =
  lc_name :: string
  lc_depth :: nat
  lc_type :: string

text \<open>\<open>read_file\<close> is the file system; \<open>compile_template\<close> is \<open>compilar_plantilla\<close>.\<close>

record 't emit_env =
  ev_functions :: "(string \<times> fn_sig) list option"
  ev_classes :: "(string \<times> class_sig) list option"
  ev_imports :: "string list option"
  ev_templates :: "string option"
  ev_method :: string
  read_file :: "string \<Rightarrow> string option"
  compile_template :: "string \<Rightarrow> string \<Rightarrow> string \<Rightarrow> (string \<times> string) list \<Rightarrow> diagnostic list \<times> 't option"

text \<open>The innermost loop is the head of \<open>em_loops\<close>: its pending breaks and continues.\<close>

record 't estate =
  em_chunk :: chunk
  em_diags :: "diagnostic list"
  em_failed :: bool
  em_locals :: "elocal list"
  em_depth :: nat
  em_loops :: "(nat list \<times> nat list) list"
  em_tpls :: "'t list"
  em_undefined :: bool
  em_spent :: bool

type_synonym ('t, 'a) emitter = "('t estate, 'a) state"

abbreviation give :: "'a \<Rightarrow> ('t, 'a) emitter" where
  "give \<equiv> State_Monad.return"

definition new_chunk :: chunk where
  "new_chunk = \<lparr>ch_code = [], ch_constants = [], ch_try = [], num_locals = 0, has_await = False, local_names = []\<rparr>"

definition new_emitter :: "diagnostic list \<Rightarrow> 't list \<Rightarrow> 't estate" where
  "new_emitter ds ts = \<lparr>em_chunk = new_chunk, em_diags = ds, em_failed = False, em_locals = [], em_depth = 0,
     em_loops = [], em_tpls = ts, em_undefined = False, em_spent = False\<rparr>"

section \<open>Writing the chunk\<close>

definition on_chunk :: "(chunk \<Rightarrow> chunk) \<Rightarrow> ('t, unit) emitter" where
  "on_chunk f = State (\<lambda>s. ((), s\<lparr>em_chunk := f (em_chunk s)\<rparr>))"

definition emit_op :: "opcode \<Rightarrow> source_loc \<Rightarrow> nat \<Rightarrow> ('t, nat) emitter" where
  "emit_op op loc k = State (\<lambda>s. (length (ch_code (em_chunk s)), s\<lparr>em_chunk := fst (emit op loc k (em_chunk s))\<rparr>))"

definition new_constant :: "hval \<Rightarrow> ('t, nat) emitter" where
  "new_constant v = State (\<lambda>s. (length (ch_constants (em_chunk s)), s\<lparr>em_chunk := fst (add_constant v (em_chunk s))\<rparr>))"

definition here :: "('t, nat) emitter" where
  "here = State (\<lambda>s. (length (ch_code (em_chunk s)), s))"

definition patch_to :: "nat \<Rightarrow> nat \<Rightarrow> ('t, unit) emitter" where
  "patch_to at target = on_chunk (patch at target)"

primrec patch_all :: "nat list \<Rightarrow> nat \<Rightarrow> ('t, unit) emitter" where
  "patch_all [] target = give ()"
| "patch_all (j # js) target = do { patch_to j target; patch_all js target }"

definition patch_here :: "nat \<Rightarrow> ('t, unit) emitter" where
  "patch_here at = do { h \<leftarrow> here; patch_to at h }"

text \<open>\<open>(index << 8) | argc\<close> in 32 bits.\<close>

definition packed :: "nat \<Rightarrow> nat \<Rightarrow> nat" where
  "packed i argc = (push_bit 8 i OR argc) mod 2 ^ 32"

definition emit_value :: "source_loc \<Rightarrow> hval \<Rightarrow> ('t, unit) emitter" where
  "emit_value loc v = do { k \<leftarrow> new_constant v; emit_op Op_Const loc k; give () }"

definition em_error :: "source_loc \<Rightarrow> string \<Rightarrow> ('t, unit) emitter" where
  "em_error loc msg = State (\<lambda>s. ((), s\<lparr>em_diags := em_diags s @ [\<lparr>dg_loc = loc, dg_message = msg\<rparr>], em_failed := True\<rparr>))"

definition run_out :: "('t, unit) emitter" where
  "run_out = State (\<lambda>s. ((), s\<lparr>em_spent := True\<rparr>))"

definition deref :: "'a option \<Rightarrow> ('a \<Rightarrow> ('t, unit) emitter) \<Rightarrow> ('t, unit) emitter" where
  "deref p f = (case p of Some x \<Rightarrow> f x | None \<Rightarrow> State (\<lambda>s. ((), s\<lparr>em_undefined := True\<rparr>)))"

primrec each :: "('a \<Rightarrow> ('t, unit) emitter) \<Rightarrow> 'a list \<Rightarrow> ('t, unit) emitter" where
  "each f [] = give ()"
| "each f (x # xs) = do { f x; each f xs }"

primrec in_order :: "('t, unit) emitter list \<Rightarrow> ('t, unit) emitter" where
  "in_order [] = give ()"
| "in_order (p # ps) = do { p; in_order ps }"

section \<open>Locals\<close>

definition resolve_in :: "elocal list \<Rightarrow> string \<Rightarrow> nat option" where
  "resolve_in ls name = find (\<lambda>i. lc_name (ls ! i) = name) (rev [0..<length ls])"

definition local_type :: "elocal list \<Rightarrow> string \<Rightarrow> string" where
  "local_type ls name = (case resolve_in ls name of Some i \<Rightarrow> lc_type (ls ! i) | None \<Rightarrow> [])"

definition get_locals :: "('t, elocal list) emitter" where
  "get_locals = State (\<lambda>s. (em_locals s, s))"

definition resolve_local :: "string \<Rightarrow> ('t, nat option) emitter" where
  "resolve_local name = State (\<lambda>s. (resolve_in (em_locals s) name, s))"

text \<open>The names of the scope that is open: the last locals, down to the first of an outer scope.\<close>

definition declared_here :: "nat \<Rightarrow> elocal list \<Rightarrow> string \<Rightarrow> bool" where
  "declared_here d ls name \<longleftrightarrow> name \<in> lc_name ` set (takeWhile (\<lambda>l. \<not> lc_depth l < d) (rev ls))"

definition add_local :: "string \<Rightarrow> string \<Rightarrow> ('t, nat) emitter" where
  "add_local name ty = State (\<lambda>s.
     (let slot = length (em_locals s); c = em_chunk s
      in (slot, s\<lparr>em_locals := em_locals s @ [\<lparr>lc_name = name, lc_depth = em_depth s, lc_type = ty\<rparr>],
                  em_chunk := c\<lparr>num_locals := max (num_locals c) (slot + 1), local_names := local_names c @ [name]\<rparr>\<rparr>)))"

definition declare_local :: "string \<Rightarrow> source_loc \<Rightarrow> string \<Rightarrow> ('t, nat) emitter" where
  "declare_local name loc ty = do {
     s \<leftarrow> State_Monad.get;
     if declared_here (em_depth s) (em_locals s) name then do {
       em_error loc (CHR 0x27 # name @ CHR 0x27 # '' ya esta declarada en este ambito'');
       give (case resolve_in (em_locals s) name of Some i \<Rightarrow> i | None \<Rightarrow> 0) }
     else add_local name ty }"

definition declare_store :: "string \<Rightarrow> source_loc \<Rightarrow> string \<Rightarrow> ('t, nat) emitter" where
  "declare_store name loc ty = do { slot \<leftarrow> declare_local name loc ty; emit_op Op_StoreLocal loc slot; give slot }"

definition begin_scope :: "('t, unit) emitter" where
  "begin_scope = State (\<lambda>s. ((), s\<lparr>em_depth := em_depth s + 1\<rparr>))"

definition end_scope :: "('t, unit) emitter" where
  "end_scope = State (\<lambda>s.
     (let d = em_depth s - 1
      in ((), s\<lparr>em_depth := d, em_locals := rev (dropWhile (\<lambda>l. lc_depth l > d) (rev (em_locals s)))\<rparr>)))"

definition load_local :: "source_loc \<Rightarrow> nat \<Rightarrow> ('t, unit) emitter" where
  "load_local loc slot = do { emit_op Op_LoadLocal loc slot; give () }"

section \<open>Types known to the emitter\<close>

primrec es_int :: "elocal list \<Rightarrow> expr \<Rightarrow> bool" where
  "es_int ls (Expr k l txt i f b ob lh rh as its ens) =
     (if k = E_IntLit then True
      else if k = E_Ident then local_type ls txt = ''int''
      else if k = E_Binary then
        (txt = ''+'' \<or> txt = ''-'' \<or> txt = ''*'')
        \<and> map_option (es_int ls) lh = Some True \<and> map_option (es_int ls) rh = Some True
      else False)"

lemma size_object: "e_object e = Some x \<Longrightarrow> size x < size e"
  by (cases e) auto

text \<open>A member always has an object.\<close>

function tipo_de :: "elocal list \<Rightarrow> expr \<Rightarrow> string" where
  "tipo_de ls e =
     (if e_kind e = E_StringLit then ''string''
      else if e_kind e = E_IntLit then ''int''
      else if e_kind e = E_FloatLit then ''float''
      else if e_kind e = E_BoolLit then ''bool''
      else if e_kind e = E_Ident then local_type ls (e_text e)
      else if e_kind e = E_This then local_type ls ''this''
      else if e_kind e = E_Call then
        (case e_object e of
           None \<Rightarrow> []
         | Some m \<Rightarrow>
             if e_kind m \<noteq> E_Member then []
             else (case e_object m of
                     None \<Rightarrow> []
                   | Some r \<Rightarrow>
                       (case metodos_de (tipo_de ls r) of
                          None \<Rightarrow> []
                        | Some ms \<Rightarrow>
                            (case find (\<lambda>d. md_name d = e_text m) ms of
                               None \<Rightarrow> []
                             | Some d \<Rightarrow> (case md_returns d of Some t \<Rightarrow> t | None \<Rightarrow> tipo_de ls r)))))
      else [])"
  by pat_completeness auto
termination
  by (relation "measure (\<lambda>(ls, e). size e)") (auto dest!: size_object)

declare tipo_de.simps [simp del]

text \<open>\<open>comprobar_campo\<close>: a field of a receiver whose type is known.\<close>

definition comprobar_campo :: "'t emit_env \<Rightarrow> expr \<Rightarrow> string \<Rightarrow> source_loc \<Rightarrow> ('t, bool) emitter" where
  "comprobar_campo ev obj campo loc = do {
     ls \<leftarrow> get_locals;
     let tr = tipo_de ls obj;
         cls = (case ev_classes ev of Some cs \<Rightarrow> map_of cs tr | None \<Rightarrow> None)
     in if tr = [] then give True
        else case cls of
          Some c \<Rightarrow>
            if campo \<in> set (cs_fields c) then give True
            else if campo \<in> fst ` set (cs_methods c) then do {
              em_error loc (CHR 0x27 # tr @ ''.'' @ campo @ CHR 0x27 # '' es un metodo: hay que llamarlo con ()'');
              give False }
            else do {
              em_error loc (CHR 0x27 # tr @ CHR 0x27 # '' no tiene un campo '' @ CHR 0x27 # campo @ CHR 0x27 #
                (if cs_fields c = [] then [] else ''; tiene '' @ sep_by '', '' (cs_fields c)));
              give False }
        | None \<Rightarrow>
            if metodos_de tr \<noteq> None \<and> tr \<noteq> ''Dict'' then do {
              em_error loc (CHR 0x27 # campo @ CHR 0x27 # '' sobre '' @ tr @ '', que no tiene campos'');
              give False }
            else give True }"

text \<open>The number of positional arguments, the named ones counting as one dictionary.\<close>

definition positionals :: "(string \<times> expr \<times> source_loc) list \<Rightarrow> (string \<times> expr \<times> source_loc) list" where
  "positionals as = filter (\<lambda>(n, _). n = []) as"

definition named_args :: "(string \<times> expr \<times> source_loc) list \<Rightarrow> (string \<times> expr \<times> source_loc) list" where
  "named_args as = filter (\<lambda>(n, _). n \<noteq> []) as"

definition arg_count :: "(string \<times> expr \<times> source_loc) list \<Rightarrow> nat" where
  "arg_count as = length (positionals as) + (if named_args as = [] then 0 else 1)"

definition comprobar_metodo_builtin :: "expr \<Rightarrow> expr \<Rightarrow> expr \<Rightarrow> ('t, bool) emitter" where
  "comprobar_metodo_builtin e m r = do {
     ls \<leftarrow> get_locals;
     case metodos_de (tipo_de ls r) of
       None \<Rightarrow> give True
     | Some ms \<Rightarrow>
         (case find (\<lambda>d. md_name d = e_text m) ms of
            None \<Rightarrow> do {
              em_error (e_loc m) (''los valores de tipo '' @ tipo_de ls r @ '' no tienen el metodo '' @ CHR 0x27 #
                e_text m @ CHR 0x27 # ''; tienen '' @ sep_by '', '' (map md_name ms));
              give False }
          | Some d \<Rightarrow>
              if arg_count (e_args e) < md_min d \<or> arg_count (e_args e) > md_max d then do {
                em_error (e_loc e) (CHR 0x27 # e_text m @ ''()'' @ CHR 0x27 # '' espera '' @ nat_dec (md_min d) @
                  (if md_max d \<noteq> md_min d then ''-'' @ nat_dec (md_max d) else [])
                  @ '' argumento(s), pero recibe '' @ nat_dec (arg_count (e_args e)));
                give False }
              else give True) }"

section \<open>Calls\<close>

text \<open>\<open>em\<close> is \<open>emit_expr\<close> for the expressions inside.\<close>

type_synonym 't rec_emit = "expr \<Rightarrow> ('t, unit) emitter"

definition emit_named :: "'t rec_emit \<Rightarrow> (string \<times> expr \<times> source_loc) list \<Rightarrow> ('t, unit) emitter" where
  "emit_named em as = each (\<lambda>(n, v, l). do { emit_value l (HStr n); em v }) (named_args as)"

text \<open>The arguments of a call with positional ones only; \<open>False\<close> when one is named.\<close>

primrec emit_positional :: "'t rec_emit \<Rightarrow> string \<Rightarrow> (string \<times> expr \<times> source_loc) list \<Rightarrow> ('t, bool) emitter" where
  "emit_positional em msg [] = give True"
| "emit_positional em msg (a # as) =
     (if fst a \<noteq> [] then do { em_error (snd (snd a)) msg; give False }
      else do { em (fst (snd a)); emit_positional em msg as })"

definition emit_method_call_dynamic :: "'t rec_emit \<Rightarrow> expr \<Rightarrow> expr \<Rightarrow> expr \<Rightarrow> ('t, unit) emitter" where
  "emit_method_call_dynamic em e m r = do {
     em r;
     each (\<lambda>(n, v, l). em v) (positionals (e_args e));
     (if named_args (e_args e) = [] then give () else do {
        emit_named em (e_args e);
        emit_op Op_MakeDict (e_loc e) (length (named_args (e_args e)));
        give () });
     if arg_count (e_args e) > 255 then em_error (e_loc e) ''demasiados argumentos'' else do {
       k \<leftarrow> new_constant (HStr (e_text m));
       emit_op Op_CallMethod (e_loc e) (packed k (arg_count (e_args e)));
       give () } }"

definition set_await :: "('t, unit) emitter" where
  "set_await = on_chunk (\<lambda>c. c\<lparr>has_await := True\<rparr>)"

text \<open>\<open>sqlite.query(...)\<close>: the name of the module is the first argument.\<close>

definition emit_module_call :: "'t rec_emit \<Rightarrow> 't emit_env \<Rightarrow> expr \<Rightarrow> string \<Rightarrow> string \<Rightarrow> source_loc \<Rightarrow> nat \<Rightarrow> bool \<Rightarrow>
    ('t, unit) emitter" where
  "emit_module_call em ev e obj memb mloc nid awaited =
     (let full = obj @ ''.'' @ memb; d = native_at nid; argc = 1 + length (e_args e)
      in if \<not> (case ev_imports ev of Some is \<Rightarrow> obj \<in> set is | None \<Rightarrow> False) then
           em_error mloc (''falta '' @ CHR 0x27 # ''import '' @ obj @ CHR 0x27 # '' para poder usar '' @ CHR 0x27 #
             full @ [CHR 0x27])
         else if \<not> awaited then
           em_error (e_loc e) (CHR 0x27 # full @ ''()'' @ CHR 0x27 # '' es asincrono: hay que escribir '' @ CHR 0x27 #
             ''await '' @ full @ ''(...)'' @ [CHR 0x27])
         else do {
           emit_value (e_loc e) (HStr obj);
           go \<leftarrow> emit_positional em ''las consultas no admiten argumentos con nombre'' (e_args e);
           if \<not> go then give ()
           else if argc < min_args d then
             em_error (e_loc e) (CHR 0x27 # full @ ''()'' @ CHR 0x27 # '' espera al menos la consulta SQL'')
           else if max_args d \<ge> 0 \<and> int argc > max_args d then
             em_error (e_loc e) (CHR 0x27 # full @ ''()'' @ CHR 0x27 # '' no lleva argumentos'')
           else if argc > 255 then em_error (e_loc e) ''demasiados argumentos''
           else do { set_await; emit_op Op_CallAsync (e_loc e) (packed nid argc); give () } })"

text \<open>The arguments that are left out.\<close>

definition emit_defaults :: "'t rec_emit \<Rightarrow> fn_sig \<Rightarrow> nat \<Rightarrow> ('t, unit) emitter" where
  "emit_defaults em sig given = each (\<lambda>d. deref d em) (drop given (sg_defaults sig))"

definition emit_user_call :: "'t rec_emit \<Rightarrow> expr \<Rightarrow> string \<Rightarrow> fn_sig \<Rightarrow> ('t, unit) emitter" where
  "emit_user_call em e name sig = do {
     go \<leftarrow> emit_positional em ''una funcion de usuario no admite argumentos con nombre'' (e_args e);
     let given = length (e_args e); total = length (sg_defaults sig)
     in if \<not> go then give ()
     else if given < sg_required sig \<or> given > total then
       em_error (e_loc e) (CHR 0x27 # name @ ''()'' @ CHR 0x27 # '' espera '' @ nat_dec (sg_required sig) @
         (if total \<noteq> sg_required sig then '' a '' @ nat_dec total else [])
         @ '' argumento(s), pero recibe '' @ nat_dec given)
     else do {
       emit_defaults em sig given;
       if total > 255 then em_error (e_loc e) ''demasiados argumentos''
       else do { emit_op Op_CallFunction (e_loc e) (packed (sg_index sig) total); give () } } }"

definition emit_ctor_call :: "'t rec_emit \<Rightarrow> expr \<Rightarrow> string \<Rightarrow> class_sig \<Rightarrow> ('t, unit) emitter" where
  "emit_ctor_call em e name c = do {
     go \<leftarrow> emit_positional em ''un constructor no admite argumentos con nombre'' (e_args e);
     let argc = length (e_args e); ns = sort (map fst (cs_ctors c))
     in if \<not> go then give ()
     else case map_of (cs_ctors c) argc of
       None \<Rightarrow> em_error (e_loc e) (CHR 0x27 # name @ CHR 0x27 # '' no tiene constructor de '' @ nat_dec argc
          @ '' parametro(s)'' @ (if ns = [] then [] else ''; los hay de '' @ sep_by '', '' (map nat_dec ns)))
     | Some i \<Rightarrow> do { emit_op Op_CallFunction (e_loc e) (packed i argc); give () } }"

definition emit_class_method :: "'t rec_emit \<Rightarrow> expr \<Rightarrow> expr \<Rightarrow> expr \<Rightarrow> string \<Rightarrow> fn_sig \<Rightarrow> ('t, unit) emitter" where
  "emit_class_method em e m r recv_type sig = do {
     em r;
     go \<leftarrow> emit_positional em ''un metodo no admite argumentos con nombre'' (e_args e);
     let given = length (e_args e); total = length (sg_defaults sig)
     in if \<not> go then give ()
     else if given < sg_required sig \<or> given > total then
       em_error (e_loc e) (CHR 0x27 # recv_type @ ''.'' @ e_text m @ ''()'' @ CHR 0x27 # '' espera ''
         @ nat_dec (sg_required sig) @ '' argumento(s), pero recibe '' @ nat_dec given)
     else do {
       emit_defaults em sig given;
       emit_op Op_CallFunction (e_loc e) (packed (sg_index sig) (total + 1));
       give () } }"

text \<open>\<open>path / name\<close> for a relative name.\<close>

definition in_dir :: "string \<Rightarrow> string \<Rightarrow> string" where
  "in_dir dir name = (if dir = [] \<or> last dir = CHR ''/'' then dir @ name else dir @ ''/'' @ name)"

text \<open>\<open>emitir_render_compilado\<close>; \<open>nm\<close> is the first argument.\<close>

definition emit_render :: "'t rec_emit \<Rightarrow> 't emit_env \<Rightarrow> expr \<Rightarrow> string \<Rightarrow> string \<Rightarrow> source_loc \<Rightarrow> ('t, unit) emitter" where
  "emit_render em ev e dir nombre nloc =
     (if find_sub ''..'' nombre \<noteq> None \<or> (nombre \<noteq> [] \<and> hd nombre = CHR ''/'') then
        em_error nloc (''nombre de plantilla no valido: '' @ CHR 0x27 # nombre @ [CHR 0x27])
      else do {
        ls \<leftarrow> get_locals;
        let claves = map (\<lambda>(n, v, _). (n, tipo_de ls v)) (named_args (e_args e))
        in case read_file ev (in_dir dir nombre) of
          None \<Rightarrow> em_error nloc (''no se encuentra la plantilla '' @ CHR 0x27 # nombre @ CHR 0x27 # '' en '' @ dir)
        | Some fuente \<Rightarrow>
            (case compile_template ev fuente nombre dir claves of
               (ds, None) \<Rightarrow> State (\<lambda>s. ((), s\<lparr>em_diags := em_diags s @ ds, em_failed := True\<rparr>))
             | (ds, Some tpl) \<Rightarrow> do {
                 idx \<leftarrow> State (\<lambda>s. (length (em_tpls s), s\<lparr>em_diags := em_diags s @ ds, em_tpls := em_tpls s @ [tpl]\<rparr>));
                 emit_value (e_loc e) (HInt (of_nat idx));
                 emit_named em (e_args e);
                 emit_op Op_MakeDict (e_loc e) (length claves);
                 emit_op Op_CallNative (e_loc e) (packed (case native_id ''__render_tpl'' of Some i \<Rightarrow> i | None \<Rightarrow> 0) 2);
                 give () }) })"

definition arity_text :: "native_def \<Rightarrow> string" where
  "arity_text d = nat_dec (min_args d) @
     (if max_args d = int (min_args d) then []
      else if max_args d < 0 then '' o mas'' else ''-'' @ int_dec (max_args d))"

text \<open>The end of \<open>emit_call\<close>: a built-in function.\<close>

definition emit_native_call :: "'t rec_emit \<Rightarrow> 't emit_env \<Rightarrow> expr \<Rightarrow> string \<Rightarrow> nat \<Rightarrow> bool \<Rightarrow> ('t, unit) emitter" where
  "emit_native_call em ev e name nid awaited =
     (let d = native_at nid; argc = arg_count (e_args e); q = CHR 0x27 # name @ ''()'' @ [CHR 0x27]
      in if is_async d \<and> \<not> awaited then
           em_error (e_loc e) (q @ '' es asincrono: hay que escribir '' @ CHR 0x27 # ''await '' @ name @ ''(...)'' @ [CHR 0x27])
         else if \<not> is_async d \<and> awaited then
           em_error (e_loc e) (q @ '' no es asincrono: sobra el '' @ CHR 0x27 # ''await'' @ [CHR 0x27])
         else if named_args (e_args e) \<noteq> [] \<and> name \<noteq> ''render'' then
           em_error (e_loc e) (q @ '' no admite argumentos con nombre'')
         else if name = ''render'' then
           (case e_args e of
              (n, v, l) # _ \<Rightarrow>
                if n \<noteq> [] \<or> e_kind v \<noteq> E_StringLit then em_error (e_loc e) (''render() necesita el nombre de la plantilla''
                  @ '' escrito, no una variable. Para elegir entre varias, usa un if con nombres literales: cada rama''
                  @ '' queda comprobada al compilar'')
                else (case ev_templates ev of
                        None \<Rightarrow> em_error (e_loc e) ''render() no se puede usar aqui''
                      | Some dir \<Rightarrow> emit_render em ev e dir (e_text v) l)
            | [] \<Rightarrow> em_error (e_loc e) (''render() necesita el nombre de la plantilla''
                  @ '' escrito, no una variable. Para elegir entre varias, usa un if con nombres literales: cada rama''
                  @ '' queda comprobada al compilar''))
         else do {
           each (\<lambda>(n, v, l). em v) (positionals (e_args e));
           (if named_args (e_args e) = [] then give () else do {
              emit_named em (e_args e);
              emit_op Op_MakeDict (e_loc e) (length (named_args (e_args e)));
              give () });
           if argc < min_args d \<or> (max_args d \<ge> 0 \<and> int argc > max_args d) then
             em_error (e_loc e) (q @ '' espera '' @ arity_text d @ '' argumento(s), pero recibe '' @ nat_dec argc)
           else if argc > 255 then em_error (e_loc e) ''demasiados argumentos''
           else do {
             (if is_async d then set_await else give ());
             emit_op (if is_async d then Op_CallAsync else Op_CallNative) (e_loc e) (packed nid argc);
             give () } })"

text \<open>\<open>sse.send(...)\<close>: a member of a reserved object.\<close>

definition emit_reserved_call :: "'t rec_emit \<Rightarrow> 't emit_env \<Rightarrow> expr \<Rightarrow> expr \<Rightarrow> string \<Rightarrow> bool \<Rightarrow> ('t, unit) emitter" where
  "emit_reserved_call em ev e m obj awaited =
     (case member_native_id obj (e_text m) of
        None \<Rightarrow> em_error (e_loc m) (CHR 0x27 # obj @ CHR 0x27 # '' no tiene un miembro '' @ CHR 0x27 # e_text m @ [CHR 0x27])
      | Some nid \<Rightarrow>
          if is_db_module obj then emit_module_call em ev e obj (e_text m) (e_loc m) nid awaited
          else if (obj = ''sse'' \<and> ev_method ev \<noteq> ''SSE'') \<or> (obj = ''ws'' \<and> ev_method ev \<noteq> ''WS'') then
            em_error (e_loc m) (CHR 0x27 # obj @ CHR 0x27 # '' solo existe dentro de una ruta '' @ obj)
          else if obj = ''error'' \<and> ev_method ev \<noteq> ''ERROR'' then
            em_error (e_loc m) (CHR 0x27 # ''error'' @ CHR 0x27 # '' solo existe dentro de un '' @ CHR 0x27 # ''on error'' @ [CHR 0x27])
          else emit_native_call em ev e (obj @ ''.'' @ e_text m) nid awaited)"

definition emit_named_call :: "'t rec_emit \<Rightarrow> 't emit_env \<Rightarrow> expr \<Rightarrow> expr \<Rightarrow> bool \<Rightarrow> ('t, unit) emitter" where
  "emit_named_call em ev e m awaited =
     (case native_id (e_text m) of
        Some nid \<Rightarrow> emit_native_call em ev e (e_text m) nid awaited
      | None \<Rightarrow>
          (case Option.bind (ev_functions ev) (\<lambda>fs. map_of fs (e_text m)) of
             Some sig \<Rightarrow> emit_user_call em e (e_text m) sig
           | None \<Rightarrow>
               (case Option.bind (ev_classes ev) (\<lambda>cs. map_of cs (e_text m)) of
                  Some c \<Rightarrow> emit_ctor_call em e (e_text m) c
                | None \<Rightarrow> em_error (e_loc m) (''funcion desconocida: '' @ CHR 0x27 # e_text m @ [CHR 0x27]))))"

definition emit_dynamic_or_error :: "'t rec_emit \<Rightarrow> expr \<Rightarrow> expr \<Rightarrow> expr \<Rightarrow> ('t, unit) emitter" where
  "emit_dynamic_or_error em e m r = do {
     c \<leftarrow> comprobar_metodo_builtin e m r;
     if c then emit_method_call_dynamic em e m r else give () }"

definition emit_member_call :: "'t rec_emit \<Rightarrow> 't emit_env \<Rightarrow> expr \<Rightarrow> expr \<Rightarrow> expr \<Rightarrow> ('t, unit) emitter" where
  "emit_member_call em ev e m r = do {
     ls \<leftarrow> get_locals;
     let recv_type = (if e_kind r = E_Ident then local_type ls (e_text r)
                      else if e_kind r = E_This then local_type ls ''this'' else []);
         cls = (if recv_type = [] then None else Option.bind (ev_classes ev) (\<lambda>cs. map_of cs recv_type))
     in case cls of
          None \<Rightarrow> emit_dynamic_or_error em e m r
        | Some c \<Rightarrow>
            (case map_of (cs_methods c) (e_text m) of
               Some sig \<Rightarrow> emit_class_method em e m r recv_type sig
             | None \<Rightarrow>
                 if cs_fields c \<noteq> [] \<and> e_text m \<notin> set (cs_fields c) then
                   em_error (e_loc m) (CHR 0x27 # recv_type @ CHR 0x27 # '' no tiene un metodo '' @ CHR 0x27 # e_text m @ [CHR 0x27])
                 else emit_dynamic_or_error em e m r) }"

definition emit_call :: "'t rec_emit \<Rightarrow> 't emit_env \<Rightarrow> expr \<Rightarrow> bool \<Rightarrow> ('t, unit) emitter" where
  "emit_call em ev e awaited =
     (case e_object e of
        None \<Rightarrow> em_error (e_loc e) ''llamada sin destino''
      | Some m \<Rightarrow>
          if e_kind m = E_Member then deref (e_object m) (\<lambda>r. do {
            slot \<leftarrow> resolve_local (e_text r);
            if e_kind r = E_Ident \<and> slot = None \<and> is_reserved_object (e_text r)
            then emit_reserved_call em ev e m (e_text r) awaited
            else emit_member_call em ev e m r })
          else if e_kind m = E_Ident then emit_named_call em ev e m awaited
          else em_error (e_loc e) ''de momento solo se pueden llamar builtins o metodos'')"

section \<open>Expressions\<close>

definition emit_ident :: "expr \<Rightarrow> ('t, unit) emitter" where
  "emit_ident e = do {
     slot \<leftarrow> resolve_local (e_text e);
     case slot of
       Some i \<Rightarrow> load_local (e_loc e) i
     | None \<Rightarrow>
         if native_id (e_text e) \<noteq> None then
           em_error (e_loc e) (CHR 0x27 # e_text e @ CHR 0x27 # '' es un builtin: hay que llamarlo, no usarlo como valor'')
         else em_error (e_loc e) (CHR 0x27 # e_text e @ CHR 0x27 # '' no esta declarada'') }"

definition emit_this :: "expr \<Rightarrow> ('t, unit) emitter" where
  "emit_this e = do {
     slot \<leftarrow> resolve_local ''this'';
     case slot of
       Some i \<Rightarrow> load_local (e_loc e) i
     | None \<Rightarrow> em_error (e_loc e) (CHR 0x27 # ''this'' @ CHR 0x27 # '' solo existe dentro de un metodo o un constructor'') }"

text \<open>\<open>if\<close> and \<open>else\<close> over a value on the stack, both branches present.\<close>

definition emit_branches :: "source_loc \<Rightarrow> ('t, unit) emitter \<Rightarrow> ('t, unit) emitter \<Rightarrow> ('t, unit) emitter" where
  "emit_branches loc yes no = do {
     to_else \<leftarrow> emit_op Op_JumpIfFalse loc 0;
     yes;
     to_end \<leftarrow> emit_op Op_Jump loc 0;
     patch_here to_else;
     no;
     patch_here to_end }"

definition binary_ops :: "(string \<times> opcode) list" where
  "binary_ops = [(''+'', Op_Add), (''-'', Op_Sub), (''*'', Op_Mul), (''/'', Op_Div), (''%'', Op_Mod),
     (''=='', Op_Eq), (''!='', Op_Ne), (''<'', Op_Lt), (''<='', Op_Le), (''>'', Op_Gt), (''>='', Op_Ge)]"

definition int_ops :: "(opcode \<times> opcode) list" where
  "int_ops = [(Op_Add, Op_AddInt), (Op_Sub, Op_SubInt), (Op_Mul, Op_MulInt), (Op_Lt, Op_LtInt), (Op_Le, Op_LeInt),
     (Op_Gt, Op_GtInt), (Op_Ge, Op_GeInt)]"

definition specialised :: "opcode \<Rightarrow> opcode" where
  "specialised op = (case map_of int_ops op of Some i \<Rightarrow> i | None \<Rightarrow> op)"

definition emit_binary :: "'t rec_emit \<Rightarrow> expr \<Rightarrow> ('t, unit) emitter" where
  "emit_binary em e =
     deref (e_lhs e) (\<lambda>a.
       if e_text e = ''and'' \<or> e_text e = ''or'' then do {
         em a;
         j \<leftarrow> emit_op (if e_text e = ''and'' then Op_JumpIfFalsePeek else Op_JumpIfTruePeek) (e_loc e) 0;
         deref (e_rhs e) em;
         patch_here j }
       else do {
         em a;
         deref (e_rhs e) (\<lambda>b. do {
           em b;
           ls \<leftarrow> get_locals;
           case map_of binary_ops (e_text e) of
             None \<Rightarrow> em_error (e_loc e) (''operador no soportado: '' @ e_text e)
           | Some op \<Rightarrow> do {
               emit_op (if es_int ls a \<and> es_int ls b then specialised op else op) (e_loc e) 0;
               give () } }) })"

definition emit_ternary :: "'t rec_emit \<Rightarrow> expr \<Rightarrow> ('t, unit) emitter" where
  "emit_ternary em e = do {
     deref (e_object e) em;
     emit_branches (e_loc e) (deref (e_lhs e) em) (deref (e_rhs e) em) }"

definition native_call :: "string \<Rightarrow> nat \<Rightarrow> nat" where
  "native_call name argc = packed (case native_id name of Some i \<Rightarrow> i | None \<Rightarrow> 0) argc"

text \<open>A field that is read; \<open>ob\<close> is the object.\<close>

definition emit_member :: "'t rec_emit \<Rightarrow> 't emit_env \<Rightarrow> expr \<Rightarrow> expr \<Rightarrow> ('t, unit) emitter" where
  "emit_member em ev e ob = do {
     slot \<leftarrow> resolve_local (e_text ob);
     let obj = e_text ob; free = (e_kind ob = E_Ident \<and> slot = None)
     in if free \<and> obj = ''session'' \<and> member_native_id ''session'' (e_text e) = None then do {
          emit_value (e_loc e) (HStr (e_text e));
          emit_op Op_CallNative (e_loc e) (native_call ''__session_get'' 1);
          give () }
        else if free \<and> is_reserved_object obj then
          (case member_native_id obj (e_text e) of
             None \<Rightarrow> em_error (e_loc e) (CHR 0x27 # obj @ CHR 0x27 # '' no tiene un miembro '' @ CHR 0x27 # e_text e @ [CHR 0x27])
           | Some nid \<Rightarrow>
               if min_args (native_at nid) > 0 then
                 em_error (e_loc e) (CHR 0x27 # obj @ ''.'' @ e_text e @ CHR 0x27 # '' es una operacion: hay que llamarla con ()'')
               else if (obj = ''sse'' \<and> ev_method ev \<noteq> ''SSE'') \<or> (obj = ''ws'' \<and> ev_method ev \<noteq> ''WS'') then
                 em_error (e_loc e) (CHR 0x27 # obj @ CHR 0x27 # '' solo existe dentro de una ruta '' @ obj)
               else if obj = ''error'' \<and> ev_method ev \<noteq> ''ERROR'' then
                 em_error (e_loc e) (CHR 0x27 # ''error'' @ CHR 0x27 # '' solo existe dentro de un '' @ CHR 0x27 # ''on error'' @ [CHR 0x27])
               else do { emit_op Op_CallNative (e_loc e) (packed nid 0); give () })
        else do {
          fine \<leftarrow> comprobar_campo ev ob (e_text e) (e_loc e);
          if \<not> fine then give () else do {
            em ob;
            k \<leftarrow> new_constant (HStr (e_text e));
            emit_op Op_GetMember (e_loc e) k;
            give () } } }"

text \<open>\<open>++\<close> and \<open>--\<close> on a variable, a field and an element; \<open>step\<close> adds or subtracts one.\<close>

definition emit_step_by_one :: "source_loc \<Rightarrow> opcode \<Rightarrow> ('t, unit) emitter" where
  "emit_step_by_one loc op = do { emit_value loc (HInt 1); emit_op op loc 0; give () }"

definition emit_step_local :: "source_loc \<Rightarrow> opcode \<Rightarrow> bool \<Rightarrow> nat \<Rightarrow> ('t, unit) emitter" where
  "emit_step_local loc op post u = do {
     (if post then load_local loc u else give ());
     load_local loc u;
     emit_step_by_one loc op;
     emit_op Op_StoreLocal loc u;
     (if post then give () else load_local loc u) }"

text \<open>The old value replaces the one the write leaves.\<close>

definition emit_old_value :: "source_loc \<Rightarrow> bool \<Rightarrow> nat \<Rightarrow> ('t, unit) emitter" where
  "emit_old_value loc post prev =
     (if post then do { emit_op Op_Pop loc 0; load_local loc prev } else give ())"

definition emit_step_member :: "'t rec_emit \<Rightarrow> source_loc \<Rightarrow> opcode \<Rightarrow> bool \<Rightarrow> expr \<Rightarrow> ('t, unit) emitter" where
  "emit_step_member em loc op post tgt = do {
     begin_scope;
     name_k \<leftarrow> new_constant (HStr (e_text tgt));
     deref (e_object tgt) em;
     obj \<leftarrow> declare_store '' recep'' loc [];
     load_local loc obj;
     emit_op Op_GetMember loc name_k;
     prev \<leftarrow> declare_store '' previo'' loc [];
     load_local loc obj;
     load_local loc prev;
     emit_step_by_one loc op;
     emit_op Op_SetMember loc name_k;
     emit_old_value loc post prev;
     end_scope }"

definition emit_step_index :: "'t rec_emit \<Rightarrow> source_loc \<Rightarrow> opcode \<Rightarrow> bool \<Rightarrow> expr \<Rightarrow> ('t, unit) emitter" where
  "emit_step_index em loc op post tgt = do {
     begin_scope;
     deref (e_object tgt) em;
     cont \<leftarrow> declare_store '' contened'' loc [];
     deref (e_lhs tgt) em;
     idx \<leftarrow> declare_store '' indice'' loc [];
     load_local loc cont;
     load_local loc idx;
     emit_op Op_GetIndex loc 0;
     prev \<leftarrow> declare_store '' previo'' loc [];
     load_local loc cont;
     load_local loc idx;
     load_local loc prev;
     emit_step_by_one loc op;
     emit_op Op_SetIndex loc 0;
     emit_old_value loc post prev;
     end_scope }"

definition emit_step :: "'t rec_emit \<Rightarrow> expr \<Rightarrow> ('t, unit) emitter" where
  "emit_step em e =
     (let post = (e_kind e = E_PostStep); op = (if e_text e = ''+'' then Op_Add else Op_Sub)
      in deref (e_lhs e) (\<lambda>tgt.
           if e_kind tgt = E_Ident then do {
             slot \<leftarrow> resolve_local (e_text tgt);
             case slot of
               None \<Rightarrow> em_error (e_loc tgt) (CHR 0x27 # e_text tgt @ CHR 0x27 # '' no esta declarada'')
             | Some u \<Rightarrow> emit_step_local (e_loc e) op post u }
           else if e_kind tgt = E_Member then emit_step_member em (e_loc e) op post tgt
           else if e_kind tgt = E_Index then emit_step_index em (e_loc e) op post tgt
           else em_error (e_loc e) (CHR 0x27 # ''++'' @ CHR 0x27 # '' y '' @ CHR 0x27 # ''--'' @ CHR 0x27 #
             '' solo se aplican a una variable, un campo o un elemento indexado'')))"

definition emit_await :: "'t rec_emit \<Rightarrow> 't emit_env \<Rightarrow> expr \<Rightarrow> ('t, unit) emitter" where
  "emit_await em ev e =
     (let msg = CHR 0x27 # ''await'' @ CHR 0x27 # '' solo se aplica a una llamada asincrona (de momento: sleep)''
      in case e_lhs e of
           None \<Rightarrow> em_error (e_loc e) msg
         | Some c \<Rightarrow> if e_kind c \<noteq> E_Call then em_error (e_loc e) msg else emit_call em ev c True)"

definition emit_expr_with :: "'t emit_env \<Rightarrow> 't rec_emit \<Rightarrow> expr \<Rightarrow> ('t, unit) emitter" where
  "emit_expr_with ev em e =
     (case e_kind e of
        E_StringLit \<Rightarrow> emit_value (e_loc e) (HStr (e_text e))
      | E_IntLit \<Rightarrow> emit_value (e_loc e) (HInt (int_value e))
      | E_FloatLit \<Rightarrow> emit_value (e_loc e) (HFloat (float_value e))
      | E_BoolLit \<Rightarrow> emit_value (e_loc e) (HBool (bool_value e))
      | E_NullLit \<Rightarrow> emit_value (e_loc e) HNull
      | E_Ident \<Rightarrow> emit_ident e
      | E_This \<Rightarrow> emit_this e
      | E_Unary \<Rightarrow> do {
          deref (e_lhs e) em;
          emit_op (if e_text e = ''not'' then Op_Not else Op_Neg) (e_loc e) 0;
          give () }
      | E_Binary \<Rightarrow> emit_binary em e
      | E_Ternary \<Rightarrow> emit_ternary em e
      | E_ListLit \<Rightarrow> do {
          each em (e_items e);
          emit_op Op_MakeList (e_loc e) (length (e_items e));
          give () }
      | E_DictLit \<Rightarrow> do {
          each (\<lambda>(k, v). do { em k; em v }) (e_entries e);
          emit_op Op_MakeDict (e_loc e) (length (e_entries e));
          give () }
      | E_Index \<Rightarrow> do {
          deref (e_object e) em;
          deref (e_lhs e) em;
          emit_op Op_GetIndex (e_loc e) 0;
          give () }
      | E_Member \<Rightarrow> deref (e_object e) (emit_member em ev e)
      | E_Call \<Rightarrow> emit_call em ev e False
      | E_Await \<Rightarrow> emit_await em ev e
      | E_PreStep \<Rightarrow> emit_step em e
      | E_PostStep \<Rightarrow> emit_step em e)"

text \<open>\<open>emit_expr\<close> with expressions and defaults nested at most \<open>n\<close> deep.\<close>

primrec emit_n :: "nat \<Rightarrow> 't emit_env \<Rightarrow> expr \<Rightarrow> ('t, unit) emitter" where
  "emit_n 0 ev e = run_out"
| "emit_n (Suc n) ev e = emit_expr_with ev (emit_n n ev) e"

section \<open>Statements\<close>

definition scoped :: "('t, unit) emitter \<Rightarrow> ('t, unit) emitter" where
  "scoped p = do { begin_scope; p; end_scope }"

definition emit_var_decl :: "'t rec_emit \<Rightarrow> source_loc \<Rightarrow> expr option \<Rightarrow> string \<Rightarrow> string \<Rightarrow> ('t, unit) emitter" where
  "emit_var_decl em loc v name ty = do {
     (case v of Some e \<Rightarrow> em e | None \<Rightarrow> emit_value loc HNull);
     declare_store name loc ty;
     give () }"

text \<open>An assignment to \<open>tgt\<close>; \<open>put\<close> emits the value.\<close>

definition emit_assign_member :: "'t rec_emit \<Rightarrow> 't emit_env \<Rightarrow> source_loc \<Rightarrow> expr \<Rightarrow> ('t, unit) emitter \<Rightarrow> ('t, unit) emitter" where
  "emit_assign_member em ev loc tgt put = deref (e_object tgt) (\<lambda>ob. do {
     slot \<leftarrow> resolve_local ''session'';
     if e_kind ob = E_Ident \<and> e_text ob = ''session'' \<and> slot = None then do {
       emit_value loc (HStr (e_text tgt));
       put;
       emit_op Op_CallNative loc (native_call ''__session_set'' 2);
       emit_op Op_Pop loc 0;
       give () }
     else do {
       fine \<leftarrow> comprobar_campo ev ob (e_text tgt) loc;
       if \<not> fine then give () else do {
         em ob;
         put;
         k \<leftarrow> new_constant (HStr (e_text tgt));
         emit_op Op_SetMember loc k;
         emit_op Op_Pop loc 0;
         give () } } })"

definition emit_assign :: "'t rec_emit \<Rightarrow> 't emit_env \<Rightarrow> source_loc \<Rightarrow> expr \<Rightarrow> ('t, unit) emitter \<Rightarrow> ('t, unit) emitter" where
  "emit_assign em ev loc tgt put =
     (if e_kind tgt = E_Member then emit_assign_member em ev loc tgt put
      else if e_kind tgt = E_Index then do {
        deref (e_object tgt) em;
        deref (e_lhs tgt) em;
        put;
        emit_op Op_SetIndex loc 0;
        emit_op Op_Pop loc 0;
        give () }
      else if e_kind tgt \<noteq> E_Ident then em_error loc ''solo se puede asignar a una variable o a un campo''
      else do {
        slot \<leftarrow> resolve_local (e_text tgt);
        case slot of
          None \<Rightarrow> em_error (e_loc tgt) (CHR 0x27 # e_text tgt @ CHR 0x27 # '' no esta declarada'')
        | Some i \<Rightarrow> do { put; emit_op Op_StoreLocal loc i; give () } })"

definition push_loop :: "('t, unit) emitter" where
  "push_loop = State (\<lambda>s. ((), s\<lparr>em_loops := ([], []) # em_loops s\<rparr>))"

text \<open>The loop is closed: its pending jumps.\<close>

definition top_loop :: "('t, nat list \<times> nat list) emitter" where
  "top_loop = State (\<lambda>s. (case em_loops s of l # _ \<Rightarrow> l | [] \<Rightarrow> ([], []), s))"

definition pop_loop :: "('t, unit) emitter" where
  "pop_loop = State (\<lambda>s. ((), s\<lparr>em_loops := tl (em_loops s)\<rparr>))"

definition add_break :: "nat \<Rightarrow> ('t, unit) emitter" where
  "add_break j = State (\<lambda>s. ((), s\<lparr>em_loops := (case em_loops s of (bs, cs) # ls \<Rightarrow> (bs @ [j], cs) # ls | [] \<Rightarrow> [])\<rparr>))"

definition add_continue :: "nat \<Rightarrow> ('t, unit) emitter" where
  "add_continue j = State (\<lambda>s. ((), s\<lparr>em_loops := (case em_loops s of (bs, cs) # ls \<Rightarrow> (bs, cs @ [j]) # ls | [] \<Rightarrow> [])\<rparr>))"

definition emit_leave_loop :: "source_loc \<Rightarrow> string \<Rightarrow> (nat \<Rightarrow> ('t, unit) emitter) \<Rightarrow> ('t, unit) emitter" where
  "emit_leave_loop loc word add = do {
     s \<leftarrow> State_Monad.get;
     if em_loops s = [] then em_error loc (CHR 0x27 # word @ CHR 0x27 # '' fuera de un bucle'')
     else do { j \<leftarrow> emit_op Op_Jump loc 0; add j } }"

definition emit_while :: "source_loc \<Rightarrow> ('t, unit) emitter \<Rightarrow> ('t, unit) emitter \<Rightarrow> ('t, unit) emitter" where
  "emit_while loc cond body = do {
     begin \<leftarrow> here;
     cond;
     to_end \<leftarrow> emit_op Op_JumpIfFalse loc 0;
     push_loop;
     body;
     (breaks, continues) \<leftarrow> top_loop;
     patch_all continues begin;
     emit_op Op_Jump loc begin;
     patch_here to_end;
     h \<leftarrow> here;
     patch_all breaks h;
     pop_loop }"

text \<open>The loop over a list: the list, its length, the index and the variable have a slot each.\<close>

definition emit_for_loop :: "source_loc \<Rightarrow> nat \<Rightarrow> nat \<Rightarrow> nat \<Rightarrow> nat \<Rightarrow> ('t, unit) emitter \<Rightarrow> ('t, unit) emitter" where
  "emit_for_loop loc items count index var body = do {
     begin \<leftarrow> here;
     load_local loc index;
     load_local loc count;
     emit_op Op_Lt loc 0;
     to_end \<leftarrow> emit_op Op_JumpIfFalse loc 0;
     load_local loc items;
     load_local loc index;
     emit_op Op_GetIndex loc 0;
     emit_op Op_StoreLocal loc var;
     push_loop;
     body;
     advance \<leftarrow> here;
     (breaks, continues) \<leftarrow> top_loop;
     patch_all continues advance;
     load_local loc index;
     emit_value loc (HInt 1);
     emit_op Op_Add loc 0;
     emit_op Op_StoreLocal loc index;
     emit_op Op_Jump loc begin;
     patch_here to_end;
     h \<leftarrow> here;
     patch_all breaks h;
     pop_loop }"

definition emit_for :: "source_loc \<Rightarrow> ('t, unit) emitter \<Rightarrow> string \<Rightarrow> string \<Rightarrow> ('t, unit) emitter \<Rightarrow> ('t, unit) emitter" where
  "emit_for loc iterable name ty body = scoped (do {
     iterable;
     emit_op Op_IterList loc 0;
     items \<leftarrow> declare_store '' items'' loc [];
     load_local loc items;
     emit_op Op_CallNative loc (native_call ''len'' 1);
     count \<leftarrow> declare_store '' count'' loc [];
     emit_value loc (HInt 0);
     index \<leftarrow> declare_store '' index'' loc [];
     var \<leftarrow> declare_local name loc ty;
     emit_for_loop loc items count index var body })"

definition add_range :: "nat \<Rightarrow> nat \<Rightarrow> nat \<Rightarrow> ('t, unit) emitter" where
  "add_range b e c = on_chunk (\<lambda>ch. ch\<lparr>ch_try := ch_try ch @ [\<lparr>tr_begin = b, tr_end = e, catch_pc = c\<rparr>]\<rparr>)"

definition emit_try :: "source_loc \<Rightarrow> ('t, unit) emitter \<Rightarrow> string \<Rightarrow> ('t, unit) emitter \<Rightarrow> ('t, unit) emitter" where
  "emit_try loc body name handler = do {
     b \<leftarrow> here;
     scoped body;
     e \<leftarrow> here;
     to_end \<leftarrow> emit_op Op_Jump loc 0;
     c \<leftarrow> here;
     add_range b e c;
     scoped (do {
       (if name \<noteq> [] then do { declare_store name loc []; give () } else do { emit_op Op_Pop loc 0; give () });
       handler });
     patch_here to_end }"

primrec emit_stmt :: "'t rec_emit \<Rightarrow> 't emit_env \<Rightarrow> stmt \<Rightarrow> ('t, unit) emitter" where
  "emit_stmt em ev (Stmt k loc v t ty name body orelse) =
     (let bl = scoped (in_order (map (emit_stmt em ev) body));
          el = in_order (map (emit_stmt em ev) orelse)
      in case k of
           S_Return \<Rightarrow>
             (case v of
                Some e \<Rightarrow> do { em e; emit_op Op_Return loc 0; give () }
              | None \<Rightarrow> do { emit_op Op_ReturnNull loc 0; give () })
         | S_ExprStmt \<Rightarrow> do { deref v em; emit_op Op_Pop loc 0; give () }
         | S_VarDecl \<Rightarrow> emit_var_decl em loc v name (t_name ty)
         | S_Assign \<Rightarrow> deref t (\<lambda>tgt. emit_assign em ev loc tgt (deref v em))
         | S_If \<Rightarrow> do {
             deref v em;
             if orelse \<noteq> [] then emit_branches loc bl (scoped el)
             else do { j \<leftarrow> emit_op Op_JumpIfFalse loc 0; bl; patch_here j } }
         | S_While \<Rightarrow> emit_while loc (deref v em) bl
         | S_Require \<Rightarrow> do {
             deref v em;
             emit_branches loc (give ()) (do { deref t em; emit_op Op_Return loc 0; give () }) }
         | S_Break \<Rightarrow> emit_leave_loop loc ''break'' add_break
         | S_Continue \<Rightarrow> emit_leave_loop loc ''continue'' add_continue
         | S_For \<Rightarrow> emit_for loc (deref t em) name (t_name ty) bl
         | S_Try \<Rightarrow> emit_try loc (in_order (map (emit_stmt em ev) body)) name el)"

definition emit_block :: "'t rec_emit \<Rightarrow> 't emit_env \<Rightarrow> block \<Rightarrow> ('t, unit) emitter" where
  "emit_block em ev body = scoped (in_order (map (emit_stmt em ev) body))"

section \<open>Routes, functions, methods and conditions\<close>

text \<open>What every entry point resets before it starts; the result is whether nothing failed.\<close>

definition start_emit :: "('t, unit) emitter" where
  "start_emit = State (\<lambda>s. ((), s\<lparr>em_failed := False, em_locals := [], em_loops := [], em_depth := 0\<rparr>))"

definition all_well :: "('t, bool) emitter" where
  "all_well = State (\<lambda>s. (\<not> em_failed s, s))"

definition declare_params :: "param list \<Rightarrow> ('t, unit) emitter" where
  "declare_params ps = each (\<lambda>p. do { declare_local (pm_name p) (pm_loc p) (t_name (pm_type p)); give () }) ps"

definition emit_guard :: "'t rec_emit \<Rightarrow> guard \<Rightarrow> ('t, unit) emitter" where
  "emit_guard em g =
     (case g_otherwise g of
        None \<Rightarrow> give ()
      | Some y \<Rightarrow> do {
          em (g_condition g);
          emit_branches (g_loc g) (give ()) (do { em y; emit_op Op_Return (g_loc g) 0; give () }) })"

definition emit_route :: "nat \<Rightarrow> 't emit_env \<Rightarrow> route_decl \<Rightarrow> ('t, bool) emitter" where
  "emit_route n ev0 r =
     (let ev = ev0\<lparr>ev_method := rt_method r\<rparr>
      in do {
        start_emit;
        declare_params (rt_params r);
        each (emit_guard (emit_n n ev)) (rt_guards r);
        emit_block (emit_n n ev) ev (rt_body r);
        emit_op Op_ReturnNull (rt_loc r) 0;
        all_well })"

definition emit_function :: "nat \<Rightarrow> 't emit_env \<Rightarrow> fn_decl \<Rightarrow> ('t, bool) emitter" where
  "emit_function n ev0 f =
     (let ev = ev0\<lparr>ev_method := ''FN''\<rparr>
      in do {
        start_emit;
        declare_params (fn_params f);
        emit_block (emit_n n ev) ev (fn_body f);
        emit_op Op_ReturnNull (fn_loc f) 0;
        all_well })"

definition emit_method :: "nat \<Rightarrow> 't emit_env \<Rightarrow> string \<Rightarrow> fn_decl \<Rightarrow> ('t, bool) emitter" where
  "emit_method n ev0 cls f =
     (let ev = ev0\<lparr>ev_method := ''FN''\<rparr>
      in do {
        start_emit;
        declare_local ''this'' (fn_loc f) cls;
        declare_params (fn_params f);
        emit_block (emit_n n ev) ev (fn_body f);
        emit_op Op_ReturnNull (fn_loc f) 0;
        all_well })"

text \<open>The constructor without a body: each parameter goes to the field of its name.\<close>

definition emit_field_from :: "source_loc \<Rightarrow> nat \<Rightarrow> string \<Rightarrow> string list \<Rightarrow> param \<Rightarrow> ('t, unit) emitter" where
  "emit_field_from loc self cls flds p =
     (if pm_name p \<notin> set flds then
        em_error (pm_loc p) (CHR 0x27 # pm_name p @ CHR 0x27 # '' no es un campo de '' @ CHR 0x27 # cls @ [CHR 0x27])
      else do {
        load_local loc self;
        slot \<leftarrow> resolve_local (pm_name p);
        load_local loc (case slot of Some i \<Rightarrow> i | None \<Rightarrow> 2 ^ 32 - 1);
        k \<leftarrow> new_constant (HStr (pm_name p));
        emit_op Op_SetMember loc k;
        emit_op Op_Pop loc 0;
        give () })"

definition emit_ctor :: "nat \<Rightarrow> 't emit_env \<Rightarrow> string \<Rightarrow> string list \<Rightarrow> ctor_decl \<Rightarrow> ('t, bool) emitter" where
  "emit_ctor n ev0 cls flds ct =
     (let ev = ev0\<lparr>ev_method := ''FN''\<rparr>; loc = ct_loc ct
      in do {
        start_emit;
        declare_params (ct_params ct);
        self \<leftarrow> declare_local ''this'' loc cls;
        each (\<lambda>f. do { emit_value loc (HStr f); emit_value loc HNull }) flds;
        emit_op Op_MakeDict loc (length flds);
        emit_op Op_StoreLocal loc self;
        (if has_body ct then emit_block (emit_n n ev) ev (ct_body ct)
         else each (emit_field_from loc self cls flds) (ct_params ct));
        load_local loc self;
        emit_op Op_Return loc 0;
        all_well })"

definition emit_condition :: "nat \<Rightarrow> 't emit_env \<Rightarrow> expr \<Rightarrow> (string \<times> string) list \<Rightarrow> ('t, bool) emitter" where
  "emit_condition n ev0 e names =
     (let ev = ev0\<lparr>ev_method := []\<rparr>
      in do {
        start_emit;
        each (\<lambda>(nm, ty). do { declare_local nm (e_loc e) ty; give () }) names;
        emit_n n ev e;
        emit_op Op_Return (e_loc e) 0;
        all_well })"

definition emit_error_handler :: "nat \<Rightarrow> 't emit_env \<Rightarrow> error_decl \<Rightarrow> ('t, bool) emitter" where
  "emit_error_handler n ev0 d =
     (let ev = ev0\<lparr>ev_method := ''ERROR''\<rparr>
      in do {
        start_emit;
        emit_block (emit_n n ev) ev (err_body d);
        emit_op Op_ReturnNull (err_loc d) 0;
        all_well })"

end
