(* ===== verification/Template.thy ===== *)
theory Template
  imports Lexer Parser Emitter Http
begin

text \<open>
  The compiler of templates (src/odio/plantilla.cpp, plantilla.hpp): text with \<open>{{ }}\<close>, \<open>{% %}\<close> and
  \<open>{# #}\<close> to a list of instructions, with the expressions inside compiled by the parser and the emitter of
  the language.  Its state is the template being written, the tags that are open and the diagnostics.
  Files nested by inclusion or by a block in a block are bounded by fuel; a location is a line and a
  column.
\<close>

section \<open>Escaping\<close>

definition html_char :: "char \<Rightarrow> string option" where
  "html_char c =
     (if c = CHR ''&'' then Some ''&amp;''
      else if c = CHR ''<'' then Some ''&lt;''
      else if c = CHR ''>'' then Some ''&gt;''
      else if c = CHR 0x22 then Some ''&quot;''
      else if c = CHR 0x27 then Some ''&#39;''
      else None)"

text \<open>Clean runs are copied at once: \<open>limpio\<close> is where the run that is not yet copied starts.\<close>

function escapar_html_loop :: "string \<Rightarrow> nat \<Rightarrow> nat \<Rightarrow> string \<Rightarrow> string" where
  "escapar_html_loop s limpio i out =
     (if i < length s then
        (case html_char (s ! i) of
           None \<Rightarrow> escapar_html_loop s limpio (i + 1) out
         | Some rep \<Rightarrow> escapar_html_loop s (i + 1) (i + 1) (out @ take (i - limpio) (drop limpio s) @ rep))
      else out @ drop limpio s)"
  by pat_completeness auto
termination
  by (relation "measure (\<lambda>(s, limpio, i, out). length s - i)") auto

declare escapar_html_loop.simps [simp del]

definition escapar_html :: "string \<Rightarrow> string \<Rightarrow> string" where
  "escapar_html s out = escapar_html_loop s 0 0 out"

section \<open>Templates\<close>

datatype tpl_op = Tp_Texto | Tp_Escribir | Tp_EscribirCrudo | Tp_SaltarSiFalso | Tp_Saltar | Tp_BucleInicio | Tp_BucleSiguiente

record tpl_instr =
  ti_op :: tpl_op
  ti_a :: nat
  ti_b :: nat
  ti_slot :: nat
  ti_loop :: nat
  ti_loc :: source_loc

text \<open>\<open>pl_spent\<close>: compiling it nested too deep; \<open>pl_undefined\<close>: a null pointer was followed.\<close>

record plantilla =
  pl_texts :: "string list"
  pl_exprs :: "chunk list"
  pl_code :: "tpl_instr list"
  pl_names :: "(string \<times> string) list"
  pl_spent :: bool
  pl_undefined :: bool

text \<open>
  A tag that is open: the jumps to its end, the instruction to patch - none after an \<open>else\<close> - and the
  names it hides with their slots.
\<close>

record tpl_tag =
  tg_que :: string
  tg_loc :: source_loc
  tg_patches :: "nat list"
  tg_start :: "nat option"
  tg_hidden :: "(nat \<times> string) list"

text \<open>The compiler: the innermost open tag is the head of \<open>tc_open\<close>.\<close>

record tpl_state =
  tc_out :: plantilla
  tc_diags :: "diagnostic list"
  tc_failed :: bool
  tc_open :: "tpl_tag list"

text \<open>What the compiler is given: the bound on expressions, \<open>strtod\<close>, the files and the folder of templates.\<close>

record tpl_env =
  te_depth :: nat
  te_strtod :: "string \<Rightarrow> f64"
  te_read :: "string \<Rightarrow> string option"
  te_dir :: string

definition tc_error :: "source_loc \<Rightarrow> string \<Rightarrow> tpl_state \<Rightarrow> tpl_state" where
  "tc_error loc msg t = t\<lparr>tc_diags := tc_diags t @ [\<lparr>dg_loc = loc, dg_message = msg\<rparr>], tc_failed := True\<rparr>"

definition on_tpl :: "(plantilla \<Rightarrow> plantilla) \<Rightarrow> tpl_state \<Rightarrow> tpl_state" where
  "on_tpl f t = t\<lparr>tc_out := f (tc_out t)\<rparr>"

definition tc_emit :: "tpl_instr \<Rightarrow> tpl_state \<Rightarrow> tpl_state" where
  "tc_emit i = on_tpl (\<lambda>p. p\<lparr>pl_code := pl_code p @ [i]\<rparr>)"

definition tc_here :: "tpl_state \<Rightarrow> nat" where
  "tc_here t = length (pl_code (tc_out t))"

definition patch_b :: "nat \<Rightarrow> nat \<Rightarrow> tpl_state \<Rightarrow> tpl_state" where
  "patch_b at target = on_tpl (\<lambda>p. p\<lparr>pl_code := (pl_code p)[at := (pl_code p ! at)\<lparr>ti_b := target\<rparr>]\<rparr>)"

definition plain_instr :: "tpl_op \<Rightarrow> nat \<Rightarrow> source_loc \<Rightarrow> tpl_instr" where
  "plain_instr op a loc = \<lparr>ti_op = op, ti_a = a, ti_b = 0, ti_slot = 0, ti_loop = 0, ti_loc = loc\<rparr>"

definition texto :: "string \<Rightarrow> tpl_state \<Rightarrow> tpl_state" where
  "texto s t =
     (if s = [] then t
      else tc_emit (plain_instr Tp_Texto (length (pl_texts (tc_out t))) no_loc)
             (on_tpl (\<lambda>p. p\<lparr>pl_texts := pl_texts p @ [s]\<rparr>) t))"

section \<open>Text\<close>

definition tpl_blank :: "char \<Rightarrow> bool" where
  "tpl_blank c \<longleftrightarrow> c = CHR '' '' \<or> c = CHR 0x09 \<or> c = CHR 0x0A \<or> c = CHR 0x0D"

definition recortar_izq :: "string \<Rightarrow> string" where
  "recortar_izq s = rev (dropWhile tpl_blank (rev s))"

definition recortar_der :: "string \<Rightarrow> nat \<Rightarrow> nat" where
  "recortar_der src i = i + length (takeWhile tpl_blank (drop i src))"

definition tpl_trim :: "string \<Rightarrow> string" where
  "tpl_trim s = recortar_izq (dropWhile tpl_blank s)"

text \<open>\<open>substr(a, b - a)\<close>: when \<open>b\<close> is before \<open>a\<close> the count wraps around and the rest is taken.\<close>

definition span_of :: "string \<Rightarrow> nat \<Rightarrow> nat \<Rightarrow> string" where
  "span_of src a b = (if b < a then drop a src else take (b - a) (drop a src))"

definition starts_with :: "string \<Rightarrow> string \<Rightarrow> bool" where
  "starts_with s pre \<longleftrightarrow> take (length pre) s = pre"

definition unquote :: "string \<Rightarrow> string" where
  "unquote s = (if length s \<ge> 2 \<and> (hd s = CHR 0x22 \<or> hd s = CHR 0x27) then take (length s - 2) (drop 1 s) else s)"

text \<open>The position after a character, and of an index of the text.\<close>

definition loc_after :: "char \<Rightarrow> source_loc \<Rightarrow> source_loc" where
  "loc_after c l = (if c = CHR 0x0A then Loc (line l + 1) 1 else Loc (line l) (col l + 1))"

definition loc_at :: "string \<Rightarrow> nat \<Rightarrow> source_loc" where
  "loc_at src pos = fold loc_after (take pos src) (Loc 1 1)"

section \<open>Expressions\<close>

definition expr_env :: "unit emit_env" where
  "expr_env = \<lparr>ev_functions = None, ev_classes = None, ev_imports = None, ev_templates = None, ev_method = [],
     read_file = \<lambda>_. None, compile_template = \<lambda>_ _ _ _. ([], None)\<rparr>"

text \<open>The expression is lexed on its own; its first diagnostic is reported at the place in the template.\<close>

definition expr_message :: "string \<Rightarrow> diagnostic list \<Rightarrow> string" where
  "expr_message other ds = ''en la expresion de la plantilla: '' @ (case ds of [] \<Rightarrow> other | d # _ \<Rightarrow> dg_message d)"

definition expresion :: "tpl_env \<Rightarrow> string \<Rightarrow> source_loc \<Rightarrow> tpl_state \<Rightarrow> nat option \<times> tpl_state" where
  "expresion te txt loc t =
     (let (toks, ds) = tokenize txt;
          (e, ps) = run_state (parse_single_expression (te_strtod te)) (new_parse toks ds)
      in case (e, ps_diags ps) of
           (Some ex, []) \<Rightarrow>
             (let (ok, em) = run_state (emit_condition (te_depth te) expr_env ex (pl_names (tc_out t))) (new_emitter [] [])
              in if \<not> ok \<or> em_diags em \<noteq> [] then
                   (None, tc_error loc (expr_message ''no se puede compilar'' (em_diags em)) t)
                 else
                   (Some (length (pl_exprs (tc_out t))),
                    on_tpl (\<lambda>p. p\<lparr>pl_exprs := pl_exprs p @ [em_chunk em],
                                  pl_spent := pl_spent p \<or> em_spent em, pl_undefined := pl_undefined p \<or> em_undefined em\<rparr>) t))
         | (_, propios) \<Rightarrow> (None, tc_error loc (expr_message ''expresion invalida'' propios) t))"

section \<open>Blocks and inheritance\<close>

text \<open>The next \<open>{% %}\<close> from \<open>i\<close>: where it opens, where it ends and its trimmed content.\<close>

definition next_tag :: "string \<Rightarrow> nat \<Rightarrow> (nat \<times> nat \<times> string) option" where
  "next_tag src i =
     (case find_sub_from ''{%'' i src of
        None \<Rightarrow> None
      | Some opens \<Rightarrow>
          (case find_sub_from ''%}'' opens src of
             None \<Rightarrow> None
           | Some closes \<Rightarrow> Some (opens, closes, tpl_trim (span_of src (opens + 2) closes))))"

lemma next_tag_after: "next_tag src i = Some (opens, closes, cont) \<Longrightarrow> i \<le> opens \<and> i < closes + 2 \<and> closes + 2 \<le> length src"
  by (auto simp: next_tag_def split: option.splits dest!: find_sub_from_bounds)

text \<open>After the \<open>{% endblock %}\<close> of the block that starts at \<open>i\<close>, nested ones counted, and where its content ends.\<close>

function fin_de_bloque :: "string \<Rightarrow> nat \<Rightarrow> nat \<Rightarrow> (nat \<times> nat) option" where
  "fin_de_bloque src nivel i =
     (case next_tag src i of
        None \<Rightarrow> None
      | Some (opens, closes, cont) \<Rightarrow>
          if starts_with cont ''block'' then fin_de_bloque src (nivel + 1) (closes + 2)
          else if starts_with cont ''endblock'' then
            (if nivel = 1 then Some (closes + 2, opens) else fin_de_bloque src (nivel - 1) (closes + 2))
          else fin_de_bloque src nivel (closes + 2))"
  by pat_completeness auto
termination
  by (relation "measure (\<lambda>(src, nivel, i). length src - i)") (auto dest!: next_tag_after)

declare fin_de_bloque.simps [simp del]

lemma fin_de_bloque_after: "fin_de_bloque src nivel i = Some (tras, fin) \<Longrightarrow> i < tras \<and> tras \<le> length src"
proof (induction src nivel i arbitrary: tras fin rule: fin_de_bloque.induct)
  case (1 src nivel i)
  obtain opens closes cont where tag: "next_tag src i = Some (opens, closes, cont)"
    using "1.prems" by (auto simp: fin_de_bloque.simps [of src nivel i] split: option.splits)
  note next_tag_after [OF tag]
  moreover have "closes + 2 < tras \<and> tras \<le> length src \<or> tras = closes + 2"
    using "1.prems" "1.IH" [OF tag refl refl] by (auto simp: fin_de_bloque.simps [of src nivel i] tag split: if_splits)
  ultimately show ?case by auto
qed

type_synonym blocks = "(string \<times> string) list"

text \<open>The blocks of a template that inherits; the first of a name, from the most derived one up, wins.\<close>

function recoger_bloques :: "string \<Rightarrow> nat \<Rightarrow> blocks \<Rightarrow> tpl_state \<Rightarrow> blocks \<times> tpl_state" where
  "recoger_bloques src i bs t =
     (case next_tag src i of
        None \<Rightarrow> (bs, t)
      | Some (opens, closes, cont) \<Rightarrow>
          if \<not> starts_with cont ''block'' then recoger_bloques src (closes + 2) bs t
          else
            (let nombre = tpl_trim (drop 5 cont)
             in case fin_de_bloque src 1 (closes + 2) of
                  None \<Rightarrow> (bs, tc_error (Loc 1 1) (''falta {% endblock %} para el bloque '' @ quoted nombre) t)
                | Some (tras, cfin) \<Rightarrow>
                    recoger_bloques src tras
                      (if nombre \<noteq> [] \<and> map_of bs nombre = None then (nombre, span_of src (closes + 2) cfin) # bs else bs) t))"
  by pat_completeness auto
termination
  by (relation "measure (\<lambda>(src, i, bs, t). length src - i)") (auto dest!: next_tag_after fin_de_bloque_after)

declare recoger_bloques.simps [simp del]

text \<open>\<open>{% extends "x" %}\<close> at the start of a template.\<close>

definition padre_de :: "string \<Rightarrow> tpl_state \<Rightarrow> string option \<times> tpl_state" where
  "padre_de src t =
     (let i = length (takeWhile tpl_blank src)
      in if \<not> starts_with (drop i src) ''{%'' then (None, t)
         else case find_sub_from ''%}'' i src of
           None \<Rightarrow> (None, t)
         | Some fin \<Rightarrow>
             (let cont = tpl_trim (span_of src (i + 2) fin); padre = unquote (tpl_trim (drop 7 cont))
              in if \<not> starts_with cont ''extends'' then (None, t)
                 else if padre = [] then (None, tc_error (Loc 1 1) ''{% extends %} sin nombre de plantilla'' t)
                 else (Some padre, t)))"

definition leer_plantilla :: "tpl_env \<Rightarrow> string \<Rightarrow> string option" where
  "leer_plantilla te nombre =
     (if nombre = [] \<or> find_sub ''..'' nombre \<noteq> None then None else te_read te (path_join (te_dir te) nombre))"

text \<open>Up the chain of \<open>extends\<close>: the root and the blocks, or nothing when it fails.\<close>

primrec subir :: "nat \<Rightarrow> tpl_env \<Rightarrow> string \<Rightarrow> blocks \<Rightarrow> tpl_state \<Rightarrow> (string \<times> blocks) option \<times> tpl_state" where
  "subir 0 te raiz bs t =
     (case padre_de raiz t of
        (None, t1) \<Rightarrow> (Some (raiz, bs), t1)
      | (Some padre, t1) \<Rightarrow> (None, tc_error (Loc 1 1) ''demasiados {% extends %} encadenados: hay un ciclo?'' t1))"
| "subir (Suc n) te raiz bs t =
     (case padre_de raiz t of
        (None, t1) \<Rightarrow> (Some (raiz, bs), t1)
      | (Some padre, t1) \<Rightarrow>
          (let (bs1, t2) = recoger_bloques raiz 0 bs t1
           in case leer_plantilla te padre of
                None \<Rightarrow> (None, tc_error (Loc 1 1) (''no se encuentra la plantilla base '' @ quoted padre) t2)
              | Some txt \<Rightarrow> subir n te txt bs1 t2))"

section \<open>The body of a template\<close>

type_synonym body_rec = "string \<Rightarrow> nat \<Rightarrow> tpl_state \<Rightarrow> tpl_state"

text \<open>A write outside the instructions.\<close>

definition mark_wild :: "tpl_state \<Rightarrow> tpl_state" where
  "mark_wild = on_tpl (\<lambda>p. p\<lparr>pl_undefined := True\<rparr>)"

definition tag_if :: "tpl_env \<Rightarrow> string \<Rightarrow> source_loc \<Rightarrow> tpl_state \<Rightarrow> tpl_state" where
  "tag_if te resto loc t =
     (case expresion te resto loc t of
        (None, t1) \<Rightarrow> t1
      | (Some k, t1) \<Rightarrow>
          (tc_emit (plain_instr Tp_SaltarSiFalso k loc) t1)\<lparr>tc_open :=
             \<lparr>tg_que = ''if'', tg_loc = loc, tg_patches = [], tg_start = Some (tc_here t1), tg_hidden = []\<rparr> # tc_open t1\<rparr>)"

definition tag_name :: "string \<Rightarrow> string" where
  "tag_name e = ''{% '' @ e @ '' %}''"

definition opens_with :: "string \<Rightarrow> tpl_state \<Rightarrow> bool" where
  "opens_with que t \<longleftrightarrow> (case tc_open t of [] \<Rightarrow> False | tg # _ \<Rightarrow> tg_que tg = que)"

text \<open>\<open>elif\<close> and \<open>else\<close>: a jump to the end of the chain, and the pending condition lands behind it.\<close>

definition tag_else :: "tpl_env \<Rightarrow> string \<Rightarrow> string \<Rightarrow> source_loc \<Rightarrow> tpl_state \<Rightarrow> tpl_state" where
  "tag_else te etiqueta resto loc t =
     (if \<not> opens_with ''if'' t then tc_error loc (tag_name etiqueta @ '' sin {% if %}'') t
      else
        (let tg = hd (tc_open t); tgs = tl (tc_open t); out = tc_here t;
             t1 = tc_emit (plain_instr Tp_Saltar 0 loc) t;
             tg1 = tg\<lparr>tg_patches := tg_patches tg @ [out]\<rparr>;
             t2 = (case tg_start tg of Some i \<Rightarrow> patch_b i (tc_here t1) t1 | None \<Rightarrow> mark_wild t1)
         in if etiqueta = ''elif'' then
              (case expresion te resto loc (t2\<lparr>tc_open := tg1 # tgs\<rparr>) of
                 (None, t3) \<Rightarrow> t3
               | (Some k, t3) \<Rightarrow>
                   (tc_emit (plain_instr Tp_SaltarSiFalso k loc) t3)\<lparr>tc_open := tg1\<lparr>tg_start := Some (tc_here t3)\<rparr> # tgs\<rparr>)
            else t2\<lparr>tc_open := tg1\<lparr>tg_start := None\<rparr> # tgs\<rparr>))"

definition tag_endif :: "source_loc \<Rightarrow> tpl_state \<Rightarrow> tpl_state" where
  "tag_endif loc t =
     (if \<not> opens_with ''if'' t then tc_error loc ''{% endif %} sin {% if %}'' t
      else
        (let tg = hd (tc_open t);
             t1 = (case tg_start tg of Some i \<Rightarrow> patch_b i (tc_here t) t | None \<Rightarrow> t)
         in fold (\<lambda>p t. patch_b p (tc_here t) t) (tg_patches tg) (t1\<lparr>tc_open := tl (tc_open t)\<rparr>)))"

text \<open>\<open>tapar\<close>: the last slot of a name gets a name no expression can use.\<close>

definition tapar :: "string \<Rightarrow> (string \<times> string) list \<Rightarrow> (nat \<times> string) list \<times> (string \<times> string) list" where
  "tapar nombre ns =
     (case find (\<lambda>i. fst (ns ! i) = nombre) (rev [0..<length ns]) of
        None \<Rightarrow> ([], ns)
      | Some i \<Rightarrow> ([(i, nombre)], ns[i := ('' tapado'' @ nat_dec i, snd (ns ! i))]))"

definition loop_names :: "string \<Rightarrow> (string \<times> string) list \<Rightarrow> (nat \<times> string) list \<times> (string \<times> string) list" where
  "loop_names var ns =
     (let (h1, ns1) = tapar var ns; (h2, ns2) = tapar ''loop'' ns1
      in (h1 @ h2, ns2 @ [(var, []), (''loop'', [])]))"

definition tag_for :: "tpl_env \<Rightarrow> string \<Rightarrow> source_loc \<Rightarrow> tpl_state \<Rightarrow> tpl_state" where
  "tag_for te resto loc t =
     (case find_sub '' in '' resto of
        None \<Rightarrow> tc_error loc ''se esperaba {% for x in lista %}'' t
      | Some en \<Rightarrow>
          (let var = tpl_trim (take en resto); lista = tpl_trim (drop (en + 4) resto)
           in if var = [] then tc_error loc ''falta el nombre de la variable del bucle'' t
              else
                (case expresion te lista loc t of
                   (None, t1) \<Rightarrow> t1
                 | (Some k, t1) \<Rightarrow>
                     (let (hidden, ns) = loop_names var (pl_names (tc_out t1)); slot = length ns - 2
                      in (tc_emit \<lparr>ti_op = Tp_BucleInicio, ti_a = k, ti_b = 0, ti_slot = slot, ti_loop = slot + 1, ti_loc = loc\<rparr>
                            (on_tpl (\<lambda>p. p\<lparr>pl_names := ns\<rparr>) t1))\<lparr>tc_open :=
                          \<lparr>tg_que = ''for'', tg_loc = loc, tg_patches = [], tg_start = Some (tc_here t1), tg_hidden = hidden\<rparr>
                            # tc_open t1\<rparr>))))"

definition unhide :: "(nat \<times> string) list \<Rightarrow> (string \<times> string) list \<Rightarrow> (string \<times> string) list" where
  "unhide = fold (\<lambda>(i, nom) ns. ns[i := (nom, snd (ns ! i))])"

definition tag_endfor :: "source_loc \<Rightarrow> tpl_state \<Rightarrow> tpl_state" where
  "tag_endfor loc t =
     (if \<not> opens_with ''for'' t then tc_error loc ''{% endfor %} sin {% for %}'' t
      else
        (let tg = hd (tc_open t); at = the (tg_start tg); ini = pl_code (tc_out t) ! at;
             t1 = on_tpl (\<lambda>p. p\<lparr>pl_names := unhide (tg_hidden tg) (pl_names p)\<rparr>) (t\<lparr>tc_open := tl (tc_open t)\<rparr>);
             t2 = tc_emit \<lparr>ti_op = Tp_BucleSiguiente, ti_a = 0, ti_b = at + 1, ti_slot = ti_slot ini, ti_loop = ti_loop ini,
                    ti_loc = loc\<rparr> t1
         in patch_b at (tc_here t2) t2))"

definition tag_include :: "body_rec \<Rightarrow> tpl_env \<Rightarrow> string \<Rightarrow> nat \<Rightarrow> source_loc \<Rightarrow> tpl_state \<Rightarrow> tpl_state" where
  "tag_include again te resto depth loc t =
     (if depth > 16 then tc_error loc ''demasiados {% include %} anidados: hay un ciclo?'' t
      else
        (let nombre = unquote (tpl_trim resto)
         in if nombre = [] \<or> find_sub ''..'' nombre \<noteq> None then tc_error loc ''nombre de plantilla no valido en {% include %}'' t
            else case te_read te (path_join (te_dir te) nombre) of
              None \<Rightarrow> tc_error loc (''no se encuentra la plantilla '' @ quoted nombre) t
            | Some txt \<Rightarrow> again txt (depth + 1) t))"

text \<open>What a step of the loop over the text leads to; positions are those of the next text and of the search.\<close>

datatype body_flow = Leave tpl_state | Finish nat tpl_state | Go nat nat tpl_state

definition tag_block :: "body_rec \<Rightarrow> blocks \<Rightarrow> string \<Rightarrow> string \<Rightarrow> nat \<Rightarrow> nat \<Rightarrow> source_loc \<Rightarrow> tpl_state \<Rightarrow> body_flow" where
  "tag_block again bs src resto i depth loc t =
     (let nombre = tpl_trim resto
      in case fin_de_bloque src 1 i of
           None \<Rightarrow> Leave (tc_error loc (''falta {% endblock %} para el bloque '' @ quoted nombre) t)
         | Some (tras, _) \<Rightarrow>
             (case map_of bs nombre of
                None \<Rightarrow> Go i i t
              | Some txt \<Rightarrow> Go tras tras (again txt (depth + 1) t)))"

text \<open>\<open>{{ expression }}\<close>.\<close>

definition write_expr :: "tpl_env \<Rightarrow> string \<Rightarrow> source_loc \<Rightarrow> tpl_state \<Rightarrow> tpl_state" where
  "write_expr te contenido loc t =
     (let crudo = (length contenido > 5 \<and> drop (length contenido - 5) contenido = ''|safe'');
          cont = (if crudo then tpl_trim (take (length contenido - 5) contenido) else contenido)
      in if CHR ''|'' \<in> set cont then
           tc_error loc (''los filtros de Jinja2 no existen aqui: son metodos de Odio. ''
             @ ''En vez de {{ x|upper }}, escribe {{ x.upper() }}'') t
         else case expresion te cont loc t of
           (None, t1) \<Rightarrow> t1
         | (Some k, t1) \<Rightarrow> tc_emit (plain_instr (if crudo then Tp_EscribirCrudo else Tp_Escribir) k loc) t1)"

text \<open>\<open>{% tag rest %}\<close>, with \<open>i\<close> behind it.\<close>

definition tag_step :: "body_rec \<Rightarrow> tpl_env \<Rightarrow> blocks \<Rightarrow> string \<Rightarrow> string \<Rightarrow> nat \<Rightarrow> nat \<Rightarrow> source_loc \<Rightarrow> tpl_state \<Rightarrow> body_flow" where
  "tag_step again te bs src contenido i depth loc t =
     (let etiqueta = takeWhile (\<lambda>c. c \<noteq> CHR '' '' \<and> c \<noteq> CHR 0x09) contenido;
          resto = tpl_trim (drop (length etiqueta) contenido)
      in if etiqueta = ''if'' then Go i i (tag_if te resto loc t)
         else if etiqueta = ''elif'' \<or> etiqueta = ''else'' then Go i i (tag_else te etiqueta resto loc t)
         else if etiqueta = ''endif'' then Go i i (tag_endif loc t)
         else if etiqueta = ''for'' then Go i i (tag_for te resto loc t)
         else if etiqueta = ''endfor'' then Go i i (tag_endfor loc t)
         else if etiqueta = ''include'' then Go i i (tag_include again te resto depth loc t)
         else if etiqueta = ''block'' then tag_block again bs src resto i depth loc t
         else if etiqueta = ''endblock'' then Go i i t
         else if etiqueta = ''extends'' then
           Go i i (tc_error loc ''{% extends %} tiene que ser lo primero de la plantilla'' t)
         else if etiqueta = ''macro'' \<or> etiqueta = ''endmacro'' then
           Go i i (tc_error loc (tag_name etiqueta @ '' no existe en Odio: para reutilizar, usa {% include %} o una funcion del .odio'') t)
         else Go i i (tc_error loc (''etiqueta desconocida: '' @ tag_name etiqueta) t))"

text \<open>The closing mark that belongs to the character behind the brace.\<close>

definition closing_mark :: "char \<Rightarrow> string" where
  "closing_mark c = (if c = CHR ''{'' then ''}}'' else if c = CHR ''%'' then ''%}'' else ''#}'')"

definition body_step :: "body_rec \<Rightarrow> tpl_env \<Rightarrow> blocks \<Rightarrow> string \<Rightarrow> nat \<Rightarrow> nat \<Rightarrow> nat \<Rightarrow> tpl_state \<Rightarrow> body_flow" where
  "body_step again te bs src depth i desde t =
     (case find_index_from (\<lambda>c. c = CHR ''{'') i src of
        None \<Rightarrow> Finish desde t
      | Some opens \<Rightarrow>
          if opens + 1 \<ge> length src then Finish desde t
          else
            (let tipo = src ! (opens + 1)
             in if tipo \<noteq> CHR ''{'' \<and> tipo \<noteq> CHR ''%'' \<and> tipo \<noteq> CHR ''#'' then Go (opens + 1) desde t
                else case find_sub_from (closing_mark tipo) (opens + 2) src of
                  None \<Rightarrow> Leave (tc_error (loc_at src opens) (''falta el cierre de '' @ quoted [CHR ''{'', tipo]) t)
                | Some closes \<Rightarrow>
                    (let antes = (opens + 2 < length src \<and> src ! (opens + 2) = CHR ''-'');
                         despues = (closes > opens + 2 \<and> src ! (closes - 1) = CHR ''-'');
                         previo = span_of src desde opens;
                         t1 = texto (if antes then recortar_izq previo else previo) t;
                         contenido = tpl_trim (span_of src (opens + 2 + (if antes then 1 else 0)) (closes - (if despues then 1 else 0)));
                         i' = (if despues then recortar_der src (closes + 2) else closes + 2);
                         loc = loc_at src opens
                     in if tipo = CHR ''#'' then Go i' i' t1
                        else if tipo = CHR ''{'' then Go i' i' (write_expr te contenido loc t1)
                        else tag_step again te bs src contenido i' depth loc t1)))"

lemma tag_step_after: "tag_step again te bs src contenido i depth loc t = Go i' d t' \<Longrightarrow> i \<le> i'"
  by (auto simp: tag_step_def tag_block_def Let_def dest!: fin_de_bloque_after split: if_splits option.splits)

lemma body_step_after: "body_step again te bs src depth i desde t = Go i' d t' \<Longrightarrow> i < i' \<and> i < length src"
  by (auto simp: body_step_def Let_def recortar_der_def split: option.splits if_splits dest!: find_index_from_bounds find_sub_from_bounds tag_step_after)

function body_loop :: "body_rec \<Rightarrow> tpl_env \<Rightarrow> blocks \<Rightarrow> string \<Rightarrow> nat \<Rightarrow> nat \<Rightarrow> nat \<Rightarrow> tpl_state \<Rightarrow> tpl_state" where
  "body_loop again te bs src depth i desde t =
     (case body_step again te bs src depth i desde t of
        Leave t' \<Rightarrow> t'
      | Finish d t' \<Rightarrow> (if d < length src then texto (drop d src) t' else t')
      | Go i' d t' \<Rightarrow> body_loop again te bs src depth i' d t')"
  by pat_completeness auto
termination
  by (relation "measure (\<lambda>(again, te, bs, src, depth, i, desde, t). length src - i)") (auto dest: body_step_after)

declare body_loop.simps [simp del]

text \<open>\<open>cuerpo\<close> with files and blocks nested at most \<open>k\<close> deep.\<close>

primrec cuerpo :: "nat \<Rightarrow> tpl_env \<Rightarrow> blocks \<Rightarrow> body_rec" where
  "cuerpo 0 te bs src depth t = on_tpl (\<lambda>p. p\<lparr>pl_spent := True\<rparr>) t"
| "cuerpo (Suc k) te bs src depth t = body_loop (cuerpo k te bs) te bs src depth 0 0 t"

definition new_plantilla :: "(string \<times> string) list \<Rightarrow> plantilla" where
  "new_plantilla datos = \<lparr>pl_texts = [], pl_exprs = [], pl_code = [], pl_names = datos, pl_spent = False, pl_undefined = False\<rparr>"

definition new_compiler :: "(string \<times> string) list \<Rightarrow> tpl_state" where
  "new_compiler datos = \<lparr>tc_out = new_plantilla datos, tc_diags = [], tc_failed = False, tc_open = []\<rparr>"

definition compilar :: "nat \<Rightarrow> tpl_env \<Rightarrow> string \<Rightarrow> (string \<times> string) list \<Rightarrow> tpl_state" where
  "compilar k te fuente datos =
     (case subir 16 te fuente [] (new_compiler datos) of
        (None, t) \<Rightarrow> t
      | (Some (raiz, bs), t) \<Rightarrow>
          (let t1 = cuerpo k te bs raiz 0 t
           in case tc_open t1 of
                [] \<Rightarrow> t1
              | tg # _ \<Rightarrow> tc_error (tg_loc tg) (''falta {% end'' @ tg_que tg @ '' %}'') t1))"

text \<open>
  \<open>compilar_plantilla\<close>: the new diagnostics and the template.  A run that ended because it nested too deep
  or wrote outside the instructions gives its template, marked.
\<close>

definition compilar_plantilla :: "nat \<Rightarrow> tpl_env \<Rightarrow> string \<Rightarrow> (string \<times> string) list \<Rightarrow> diagnostic list \<times> plantilla option" where
  "compilar_plantilla k te fuente datos =
     (let t = compilar k te fuente datos; p = tc_out t
      in (tc_diags t, if tc_failed t \<and> \<not> pl_spent p \<and> \<not> pl_undefined p then None else Some p))"

end
