(* ===== verification/TemplateRuns.thy ===== *)
theory TemplateRuns
  imports Template
begin

text \<open>
  What the compiler of templates guarantees: text and expressions within their tables, slots within the names,
  jumps inside the code, and loops nested the way the renderer keeps its stack of loops.
\<close>

section \<open>Escaping\<close>

definition html_text :: "string \<Rightarrow> string" where
  "html_text s = concat (map (\<lambda>c. case html_char c of None \<Rightarrow> [c] | Some rep \<Rightarrow> rep) s)"

lemma html_text_append: "html_text (a @ b) = html_text a @ html_text b"
  by (simp add: html_text_def)

lemma html_text_Cons: "html_text (c # s) = (case html_char c of None \<Rightarrow> [c] | Some rep \<Rightarrow> rep) @ html_text s"
  by (simp add: html_text_def)

lemma html_text_clean: "\<forall>c \<in> set s. html_char c = None \<Longrightarrow> html_text s = s"
  by (induction s) (auto simp: html_text_def)

lemma escapar_html_loop_text:
  assumes "limpio \<le> i" "i \<le> length s" "\<forall>j. limpio \<le> j \<and> j < i \<longrightarrow> html_char (s ! j) = None"
  shows "escapar_html_loop s limpio i out = out @ html_text (drop limpio s)"
  using assms
proof (induction s limpio i out rule: escapar_html_loop.induct)
  case (1 s limpio i out)
  let ?run = "take (i - limpio) (drop limpio s)"
  have run: "html_text ?run = ?run"
    using "1.prems" by (intro html_text_clean) (auto simp: in_set_conv_nth)
  have split: "drop limpio s = ?run @ drop i s"
    using "1.prems" by (metis append_take_drop_id drop_drop le_add_diff_inverse2)
  show ?case
  proof (cases "i < length s")
    case False
    with "1.prems" run show ?thesis
      by (simp add: escapar_html_loop.simps)
  next
    case True
    then have head: "drop i s = s ! i # drop (i + 1) s"
      by (simp add: Cons_nth_drop_Suc)
    show ?thesis
    proof (cases "html_char (s ! i)")
      case None
      then have "\<forall>j. limpio \<le> j \<and> j < i + 1 \<longrightarrow> html_char (s ! j) = None"
        using "1.prems"(3) by (auto simp: less_Suc_eq)
      with "1.IH"(1) [OF True None] "1.prems" True None show ?thesis
        by (subst escapar_html_loop.simps) simp
    next
      case (Some rep)
      have "html_text (drop limpio s) = ?run @ rep @ html_text (drop (i + 1) s)"
        by (subst split, subst head) (simp add: html_text_append run html_text_Cons Some)
      moreover have "\<forall>j. i + 1 \<le> j \<and> j < i + 1 \<longrightarrow> html_char (s ! j) = None"
        by auto
      ultimately show ?thesis
        using "1.IH"(2) [OF True Some] True Some by (subst escapar_html_loop.simps) simp
    qed
  qed
qed

lemma escapar_html_text: "escapar_html s out = out @ html_text s"
  using escapar_html_loop_text [of 0 0 s out] by (simp add: escapar_html_def)

text \<open>No character that HTML gives a meaning to is left, an ampersand only starts an entity.\<close>

definition html_safe :: "char \<Rightarrow> bool" where
  "html_safe c \<longleftrightarrow> c \<noteq> CHR ''<'' \<and> c \<noteq> CHR ''>'' \<and> c \<noteq> CHR 0x22 \<and> c \<noteq> CHR 0x27"

lemma html_char_safe: "\<forall>d \<in> set (case html_char c of None \<Rightarrow> [c] | Some rep \<Rightarrow> rep). html_safe d"
  by (auto simp: html_char_def html_safe_def)

lemma html_text_safe: "\<forall>c \<in> set (html_text s). html_safe c"
  using html_char_safe by (fastforce simp: html_text_def)

section \<open>Well-formed instructions\<close>

definition delta :: "tpl_instr \<Rightarrow> int" where
  "delta i = (if ti_op i = Tp_BucleInicio then 1 else if ti_op i = Tp_BucleSiguiente then -1 else 0)"

text \<open>The number of loops that are running at an instruction.\<close>

definition loop_depth :: "tpl_instr list \<Rightarrow> nat \<Rightarrow> int" where
  "loop_depth code pc = sum_list (map delta (take pc code))"

definition jump_ok :: "tpl_instr list \<Rightarrow> nat \<Rightarrow> nat \<Rightarrow> bool" where
  "jump_ok code pc target \<longleftrightarrow> target \<le> length code \<and> loop_depth code target = loop_depth code pc"

text \<open>Everything about an instruction but the target of a forward jump.\<close>

definition instr_ok :: "plantilla \<Rightarrow> nat \<Rightarrow> bool" where
  "instr_ok p pc =
     (let i = pl_code p ! pc; slots = (ti_slot i < length (pl_names p) \<and> ti_loop i < length (pl_names p))
      in case ti_op i of
           Tp_Texto \<Rightarrow> ti_a i < length (pl_texts p)
         | Tp_Saltar \<Rightarrow> True
         | Tp_BucleInicio \<Rightarrow> ti_a i < length (pl_exprs p) \<and> slots
         | Tp_BucleSiguiente \<Rightarrow> slots \<and> loop_depth (pl_code p) pc \<ge> 1 \<and> jump_ok (pl_code p) pc (ti_b i)
         | _ \<Rightarrow> ti_a i < length (pl_exprs p))"

definition jumps_forward :: "tpl_op \<Rightarrow> bool" where
  "jumps_forward op \<longleftrightarrow> op = Tp_SaltarSiFalso \<or> op = Tp_Saltar \<or> op = Tp_BucleInicio"

definition target_ok :: "plantilla \<Rightarrow> nat \<Rightarrow> bool" where
  "target_ok p pc \<longleftrightarrow> (let i = pl_code p ! pc in jumps_forward (ti_op i) \<longrightarrow> pc < ti_b i \<and> jump_ok (pl_code p) pc (ti_b i))"

definition tpl_ok :: "plantilla \<Rightarrow> bool" where
  "tpl_ok p \<longleftrightarrow> (\<forall>pc < length (pl_code p). instr_ok p pc \<and> target_ok p pc) \<and> loop_depth (pl_code p) (length (pl_code p)) = 0"

section \<open>The template being written\<close>

definition pending :: "tpl_tag \<Rightarrow> nat set" where
  "pending tg = set_option (tg_start tg) \<union> set (tg_patches tg)"

definition fors :: "tpl_tag list \<Rightarrow> int" where
  "fors tgs = int (length (filter (\<lambda>tg. tg_que tg = ''for'') tgs))"

definition tag_ok :: "plantilla \<Rightarrow> tpl_tag list \<Rightarrow> tpl_tag \<Rightarrow> bool" where
  "tag_ok p below tg \<longleftrightarrow>
     (\<forall>pc \<in> pending tg. pc < length (pl_code p) \<and> loop_depth (pl_code p) pc = fors below \<and>
       ti_op (pl_code p ! pc) \<noteq> Tp_BucleSiguiente) \<and>
     (tg_que tg = ''for'' \<longrightarrow> tg_patches tg = [] \<and>
        (\<exists>at. tg_start tg = Some at \<and> ti_op (pl_code p ! at) = Tp_BucleInicio \<and> loop_depth (pl_code p) (at + 1) = fors below + 1))"

fun tags_ok :: "plantilla \<Rightarrow> tpl_tag list \<Rightarrow> bool" where
  "tags_ok p [] \<longleftrightarrow> True"
| "tags_ok p (tg # tgs) \<longleftrightarrow> tag_ok p tgs tg \<and> tags_ok p tgs"

definition all_pending :: "tpl_tag list \<Rightarrow> nat set" where
  "all_pending tgs = (\<Union>tg \<in> set tgs. pending tg)"

text \<open>\<open>X\<close> are instructions that are about to be patched.\<close>

definition writing_but :: "nat set \<Rightarrow> tpl_state \<Rightarrow> bool" where
  "writing_but X t \<longleftrightarrow>
     (let p = tc_out t
      in (\<forall>pc < length (pl_code p). instr_ok p pc \<and> (pc \<notin> X \<union> all_pending (tc_open t) \<longrightarrow> target_ok p pc)) \<and>
         tags_ok p (tc_open t) \<and> loop_depth (pl_code p) (length (pl_code p)) = fors (tc_open t) \<and>
         (tc_failed t \<longrightarrow> tc_diags t \<noteq> []))"

abbreviation writing :: "tpl_state \<Rightarrow> bool" where
  "writing \<equiv> writing_but {}"

subsection \<open>Changes that keep it\<close>

text \<open>Tables may grow; the operations of instructions stay.\<close>

definition widens :: "plantilla \<Rightarrow> plantilla \<Rightarrow> bool" where
  "widens p q \<longleftrightarrow> pl_code q = pl_code p \<and> length (pl_texts p) \<le> length (pl_texts q) \<and>
     length (pl_exprs p) \<le> length (pl_exprs q) \<and> length (pl_names p) \<le> length (pl_names q)"

lemma widens_instr: "widens p q \<Longrightarrow> instr_ok p pc \<Longrightarrow> instr_ok q pc"
  by (auto simp: widens_def instr_ok_def Let_def split: tpl_op.splits)

lemma widens_tags: "widens p q \<Longrightarrow> tags_ok q tgs = tags_ok p tgs"
  by (induction tgs) (simp_all add: tag_ok_def widens_def)

lemma widens_target: "widens p q \<Longrightarrow> target_ok q pc = target_ok p pc"
  by (simp add: target_ok_def widens_def)

lemma writing_widens:
  assumes "writing_but X t" "widens (tc_out t) (tc_out t')" "tc_open t' = tc_open t" "tc_failed t' \<longrightarrow> tc_diags t' \<noteq> []"
  shows "writing_but X t'"
proof -
  have code: "pl_code (tc_out t') = pl_code (tc_out t)"
    using assms(2) by (simp add: widens_def)
  show ?thesis
    using assms(1,3,4) widens_instr [OF assms(2)] widens_tags [OF assms(2)] widens_target [OF assms(2)]
    unfolding writing_but_def Let_def by (simp add: code)
qed

lemma loop_depth_append: "pc \<le> length code \<Longrightarrow> loop_depth (code @ is) pc = loop_depth code pc"
  by (simp add: loop_depth_def)

lemma loop_depth_snoc: "loop_depth (code @ [i]) (Suc (length code)) = loop_depth code (length code) + delta i"
  by (simp add: loop_depth_def)

lemma jump_ok_append: "jump_ok code pc b \<Longrightarrow> pc < length code \<Longrightarrow> jump_ok (code @ is) pc b"
  by (auto simp: jump_ok_def loop_depth_append)

lemma loop_depth_patch: "loop_depth (code[at := (code ! at)\<lparr>ti_b := b\<rparr>]) pc = loop_depth code pc"
proof (cases "at < length code")
  case True
  have "map delta (code[at := (code ! at)\<lparr>ti_b := b\<rparr>]) = map delta code"
    using True by (simp add: map_update delta_def nth_list_update list_eq_iff_nth_eq)
  then show ?thesis
    by (metis loop_depth_def take_map)
qed (simp add: list_update_beyond)

lemma jump_ok_patch: "jump_ok (code[at := (code ! at)\<lparr>ti_b := b\<rparr>]) pc c = jump_ok code pc c"
  by (simp add: jump_ok_def loop_depth_patch)

lemma instr_ok_snoc:
  assumes "instr_ok p pc" "pc < length (pl_code p)"
  shows "instr_ok (p\<lparr>pl_code := pl_code p @ [i]\<rparr>) pc"
  using assms by (auto simp: instr_ok_def Let_def nth_append loop_depth_append jump_ok_append split: tpl_op.splits)

lemma target_ok_snoc:
  assumes "target_ok p pc" "pc < length (pl_code p)"
  shows "target_ok (p\<lparr>pl_code := pl_code p @ [i]\<rparr>) pc"
  using assms by (auto simp: target_ok_def Let_def nth_append jump_ok_append)

lemma tags_ok_snoc: "tags_ok p tgs \<Longrightarrow> tags_ok (p\<lparr>pl_code := pl_code p @ [i]\<rparr>) tgs"
proof (induction tgs)
  case (Cons tg tgs)
  then have "tag_ok p tgs tg" "tags_ok (p\<lparr>pl_code := pl_code p @ [i]\<rparr>) tgs"
    by simp_all
  moreover have "tag_ok (p\<lparr>pl_code := pl_code p @ [i]\<rparr>) tgs tg"
    using \<open>tag_ok p tgs tg\<close> unfolding tag_ok_def
  proof (elim conjE, intro conjI ballI impI)
    assume old: "\<forall>pc \<in> pending tg. pc < length (pl_code p) \<and> loop_depth (pl_code p) pc = fors tgs \<and>
        ti_op (pl_code p ! pc) \<noteq> Tp_BucleSiguiente"
      and op: "tg_que tg = ''for'' \<longrightarrow> tg_patches tg = [] \<and> (\<exists>at. tg_start tg = Some at \<and>
        ti_op (pl_code p ! at) = Tp_BucleInicio \<and> loop_depth (pl_code p) (at + 1) = fors tgs + 1)"
    show "pc < length (pl_code (p\<lparr>pl_code := pl_code p @ [i]\<rparr>))"
      "loop_depth (pl_code (p\<lparr>pl_code := pl_code p @ [i]\<rparr>)) pc = fors tgs"
      "ti_op (pl_code (p\<lparr>pl_code := pl_code p @ [i]\<rparr>) ! pc) \<noteq> Tp_BucleSiguiente" if "pc \<in> pending tg" for pc
      using old that by (auto simp: loop_depth_append less_SucI nth_append)
    assume "tg_que tg = ''for''"
    with op obtain at where at: "tg_patches tg = []" "tg_start tg = Some at" "ti_op (pl_code p ! at) = Tp_BucleInicio"
        "loop_depth (pl_code p) (at + 1) = fors tgs + 1" by auto
    with old have "at < length (pl_code p)" by (simp add: pending_def)
    with at show "tg_patches tg = []"
      "\<exists>at. tg_start tg = Some at \<and> ti_op (pl_code (p\<lparr>pl_code := pl_code p @ [i]\<rparr>) ! at) = Tp_BucleInicio \<and>
         loop_depth (pl_code (p\<lparr>pl_code := pl_code p @ [i]\<rparr>)) (at + 1) = fors tgs + 1"
      by (simp_all add: nth_append loop_depth_append)
  qed
  ultimately show ?case by simp
qed simp

lemma writing_snoc:
  assumes w: "writing_but X t" and out: "tc_out t' = (tc_out t)\<lparr>pl_code := pl_code (tc_out t) @ [i]\<rparr>"
    and i: "instr_ok (tc_out t') (tc_here t)"
    and target: "tc_here t \<notin> X \<union> all_pending (tc_open t') \<Longrightarrow> target_ok (tc_out t') (tc_here t)"
    and pend: "all_pending (tc_open t) \<subseteq> X \<union> all_pending (tc_open t')"
    and tags: "tags_ok (tc_out t') (tc_open t')" and depth: "fors (tc_open t') = fors (tc_open t) + delta i"
    and fail: "tc_failed t' \<longrightarrow> tc_diags t' \<noteq> []"
  shows "writing_but X t'"
  unfolding writing_but_def Let_def
proof (intro conjI allI impI)
  have w': "instr_ok (tc_out t) pc" "pc \<notin> X \<union> all_pending (tc_open t) \<Longrightarrow> target_ok (tc_out t) pc"
    if "pc < length (pl_code (tc_out t))" for pc
    using w that by (simp_all add: writing_but_def Let_def)
  fix pc
  assume pc: "pc < length (pl_code (tc_out t'))"
  show "instr_ok (tc_out t') pc"
    using pc i w'(1) instr_ok_snoc by (cases "pc = tc_here t") (auto simp: out tc_here_def)
  assume new: "pc \<notin> X \<union> all_pending (tc_open t')"
  show "target_ok (tc_out t') pc"
  proof (cases "pc = tc_here t")
    case True
    with new target show ?thesis by simp
  next
    case False
    with pc have "pc < length (pl_code (tc_out t))" by (simp add: out tc_here_def)
    with w'(2) new pend show ?thesis
      unfolding out by (intro target_ok_snoc) auto
  qed
next
  show "loop_depth (pl_code (tc_out t')) (length (pl_code (tc_out t'))) = fors (tc_open t')"
    using w depth by (simp add: out loop_depth_snoc writing_but_def Let_def)
qed (use tags fail in simp_all)

text \<open>A jump is patched to the end of the code.\<close>

lemma ops_patch: "ti_op ((code[at := (code ! at)\<lparr>ti_b := b\<rparr>]) ! pc) = ti_op (code ! pc)"
  "ti_a ((code[at := (code ! at)\<lparr>ti_b := b\<rparr>]) ! pc) = ti_a (code ! pc)"
  "ti_slot ((code[at := (code ! at)\<lparr>ti_b := b\<rparr>]) ! pc) = ti_slot (code ! pc)"
  "ti_loop ((code[at := (code ! at)\<lparr>ti_b := b\<rparr>]) ! pc) = ti_loop (code ! pc)"
  by (cases "at < length code"; simp add: nth_list_update list_update_beyond)+

lemma tags_ok_patch: "tags_ok (p\<lparr>pl_code := (pl_code p)[at := (pl_code p ! at)\<lparr>ti_b := b\<rparr>]\<rparr>) tgs = tags_ok p tgs"
  by (induction tgs) (simp_all add: tag_ok_def loop_depth_patch ops_patch)

lemma writing_patch:
  assumes w: "writing_but (insert at X) t" and at: "at < tc_here t" "loop_depth (pl_code (tc_out t)) at = fors (tc_open t)"
    and op: "ti_op (pl_code (tc_out t) ! at) \<noteq> Tp_BucleSiguiente"
  shows "writing_but X (patch_b at (tc_here t) t)"
proof -
  let ?code = "pl_code (tc_out t)"
  let ?p = "(tc_out t)\<lparr>pl_code := ?code[at := (?code ! at)\<lparr>ti_b := tc_here t\<rparr>]\<rparr>"
  have out: "tc_out (patch_b at (tc_here t) t) = ?p" "tc_open (patch_b at (tc_here t) t) = tc_open t"
    "tc_failed (patch_b at (tc_here t) t) = tc_failed t" "tc_diags (patch_b at (tc_here t) t) = tc_diags t"
    by (simp_all add: patch_b_def on_tpl_def)
  have other: "?code[at := (?code ! at)\<lparr>ti_b := tc_here t\<rparr>] ! pc = ?code ! pc" if "pc \<noteq> at" for pc
    using that by simp
  have "instr_ok ?p pc" if "instr_ok (tc_out t) pc" for pc
    using that op other [of pc]
    by (cases "pc = at") (auto simp: instr_ok_def Let_def ops_patch loop_depth_patch jump_ok_patch split: tpl_op.splits)
  moreover have "target_ok ?p at"
    using at w by (auto simp: target_ok_def Let_def tc_here_def jump_ok_def loop_depth_patch writing_but_def)
  moreover have "target_ok ?p pc" if "target_ok (tc_out t) pc" "pc \<noteq> at" for pc
    using that other [of pc] by (simp add: target_ok_def Let_def jump_ok_patch)
  ultimately show ?thesis
    using w unfolding writing_but_def Let_def out
    by (auto simp: tags_ok_patch loop_depth_patch tc_here_def)
qed

section \<open>Operations\<close>

lemma failed_reports: "writing_but X t \<Longrightarrow> tc_failed t \<longrightarrow> tc_diags t \<noteq> []"
  by (simp add: writing_but_def Let_def)

lemma writing_error: "writing t \<Longrightarrow> writing (tc_error loc msg t)"
  by (rule writing_widens [of "{}" t]) (simp_all add: tc_error_def widens_def)

lemma writing_wild:
  assumes "writing_but X t"
  shows "writing_but X (mark_wild t)"
  by (rule writing_widens [OF assms]) (use failed_reports [OF assms] in \<open>simp_all add: mark_wild_def on_tpl_def widens_def\<close>)

text \<open>An instruction without a forward jump.\<close>

lemma writing_emit_plain:
  assumes w: "writing t" and i: "instr_ok ((tc_out t)\<lparr>pl_code := pl_code (tc_out t) @ [i]\<rparr>) (tc_here t)"
    and op: "\<not> jumps_forward (ti_op i)" "ti_op i \<noteq> Tp_BucleSiguiente"
  shows "writing (tc_emit i t)"
proof (rule writing_snoc [OF w])
  show "tc_out (tc_emit i t) = (tc_out t)\<lparr>pl_code := pl_code (tc_out t) @ [i]\<rparr>"
    by (simp add: tc_emit_def on_tpl_def)
  show "target_ok (tc_out (tc_emit i t)) (tc_here t)"
    using op by (simp add: target_ok_def tc_emit_def on_tpl_def tc_here_def)
  show "fors (tc_open (tc_emit i t)) = fors (tc_open t) + delta i"
    using op by (simp add: tc_emit_def on_tpl_def delta_def jumps_forward_def)
qed (use i failed_reports [OF w] tags_ok_snoc w in \<open>auto simp: tc_emit_def on_tpl_def writing_but_def Let_def\<close>)

lemma writing_texto:
  assumes "writing t"
  shows "writing (texto s t)"
proof (cases "s = []")
  case False
  let ?t = "on_tpl (\<lambda>p. p\<lparr>pl_texts := pl_texts p @ [s]\<rparr>) t"
  have "writing ?t"
    by (rule writing_widens [OF assms]) (use failed_reports [OF assms] in \<open>simp_all add: on_tpl_def widens_def\<close>)
  then show ?thesis
    using False by (auto simp: texto_def plain_instr_def jumps_forward_def instr_ok_def on_tpl_def tc_here_def intro!: writing_emit_plain)
qed (use assms in \<open>simp add: texto_def\<close>)

lemma expresion_cases:
  obtains msg where "expresion te txt loc t = (None, tc_error loc msg t)"
  | c a b where "expresion te txt loc t = (Some (length (pl_exprs (tc_out t))),
      on_tpl (\<lambda>p. p\<lparr>pl_exprs := pl_exprs p @ [c], pl_spent := a p, pl_undefined := b p\<rparr>) t)"
proof -
  obtain toks ds where toks: "tokenize txt = (toks, ds)" by (metis surj_pair)
  obtain e ps where e: "run_state (parse_single_expression (te_strtod te)) (new_parse toks ds) = (e, ps)" by (metis surj_pair)
  show ?thesis
  proof (cases e)
    case None
    with toks e that(1) show ?thesis by (simp add: expresion_def)
  next
    case (Some ex)
    obtain ok em where em: "run_state (emit_condition (te_depth te) expr_env ex (pl_names (tc_out t))) (new_emitter [] []) = (ok, em)"
      by (metis surj_pair)
    show ?thesis
    proof (cases "ps_diags ps")
      case Nil
      with toks e Some em that show ?thesis
        by (cases "\<not> ok \<or> em_diags em \<noteq> []") (simp_all add: expresion_def)
    next
      case Cons
      with toks e Some that(1) show ?thesis by (simp add: expresion_def)
    qed
  qed
qed

lemma expresion_writing:
  assumes "writing t" "expresion te txt loc t = (r, t')"
  shows "writing t'" "tc_open t' = tc_open t" "pl_code (tc_out t') = pl_code (tc_out t)"
    "r = Some k \<Longrightarrow> k < length (pl_exprs (tc_out t'))"
proof -
  have wider: "writing (on_tpl (\<lambda>p. p\<lparr>pl_exprs := pl_exprs p @ [c], pl_spent := a p, pl_undefined := b p\<rparr>) t)" for c a b
    by (rule writing_widens [OF assms(1)]) (use failed_reports [OF assms(1)] in \<open>simp_all add: on_tpl_def widens_def\<close>)
  show "writing t'" "tc_open t' = tc_open t" "pl_code (tc_out t') = pl_code (tc_out t)"
    "r = Some k \<Longrightarrow> k < length (pl_exprs (tc_out t'))"
    using assms(2) wider writing_error [OF assms(1)]
    by (cases rule: expresion_cases [of te "txt" loc t]; force simp: on_tpl_def tc_error_def)+
qed

lemma writing_write:
  assumes "writing t" "k < length (pl_exprs (tc_out t))"
  shows "writing (tc_emit (plain_instr Tp_Escribir k loc) t)" "writing (tc_emit (plain_instr Tp_EscribirCrudo k loc) t)"
  using assms by (auto intro!: writing_emit_plain simp: plain_instr_def jumps_forward_def instr_ok_def tc_here_def)

lemma writing_write_expr:
  assumes "writing t"
  shows "writing (write_expr te contenido loc t)"
proof -
  have "writing (case expresion te cont loc t of (None, t1) \<Rightarrow> t1 | (Some k, t1) \<Rightarrow> tc_emit (plain_instr op k loc) t1)"
    if "op = Tp_Escribir \<or> op = Tp_EscribirCrudo" for op cont
  proof -
    obtain r t1 where e: "expresion te cont loc t = (r, t1)"
      by (metis surj_pair)
    note t1 = expresion_writing [OF assms e]
    show ?thesis
    proof (cases r)
      case (Some k)
      with that e writing_write [OF t1(1) t1(4)] show ?thesis by auto
    qed (use t1 e in simp)
  qed
  with writing_error [OF assms] show ?thesis
    unfolding write_expr_def Let_def by (simp split del: prod.split option.split)
qed

text \<open>An instruction whose jump is pending in the innermost tag.\<close>

lemma all_pending_simps [simp]: "all_pending (tg # tgs) = pending tg \<union> all_pending tgs" "all_pending [] = {}"
  by (simp_all add: all_pending_def)

lemma tg_pending: "pending (tg\<lparr>tg_start := s\<rparr>) = set_option s \<union> set (tg_patches tg)"
  "pending (tg\<lparr>tg_patches := ps\<rparr>) = set_option (tg_start tg) \<union> set ps"
  by (auto simp: pending_def)

lemma fors_Cons: "fors (tg # tgs) = (if tg_que tg = ''for'' then 1 else 0) + fors tgs"
  by (simp add: fors_def)

lemma writing_if:
  assumes "writing t"
  shows "writing (tag_if te resto loc t)"
proof -
  obtain r t1 where e: "expresion te resto loc t = (r, t1)"
    by (metis surj_pair)
  note t1 = expresion_writing [OF assms e]
  show ?thesis
  proof (cases r)
    case None
    with t1 e show ?thesis by (simp add: tag_if_def)
  next
    case (Some k)
    let ?i = "plain_instr Tp_SaltarSiFalso k loc"
    let ?tg = "\<lparr>tg_que = ''if'', tg_loc = loc, tg_patches = [], tg_start = Some (tc_here t1), tg_hidden = []\<rparr>"
    have depth: "loop_depth (pl_code (tc_out t1)) (tc_here t1) = fors (tc_open t1)"
      using t1(1) by (simp add: writing_but_def Let_def tc_here_def)
    have "writing ((tc_emit ?i t1)\<lparr>tc_open := ?tg # tc_open t1\<rparr>)"
    proof (rule writing_snoc [OF t1(1)])
      show "tc_out ((tc_emit ?i t1)\<lparr>tc_open := ?tg # tc_open t1\<rparr>) = (tc_out t1)\<lparr>pl_code := pl_code (tc_out t1) @ [?i]\<rparr>"
        by (simp add: tc_emit_def on_tpl_def)
      show "tags_ok (tc_out ((tc_emit ?i t1)\<lparr>tc_open := ?tg # tc_open t1\<rparr>)) (tc_open ((tc_emit ?i t1)\<lparr>tc_open := ?tg # tc_open t1\<rparr>))"
        using t1(1) depth tags_ok_snoc
        by (auto simp: tc_emit_def on_tpl_def tag_ok_def pending_def tc_here_def loop_depth_append writing_but_def Let_def plain_instr_def)
      show "instr_ok (tc_out ((tc_emit ?i t1)\<lparr>tc_open := ?tg # tc_open t1\<rparr>)) (tc_here t1)"
        using t1(4) [OF Some] by (simp add: instr_ok_def plain_instr_def tc_emit_def on_tpl_def tc_here_def)
      show "all_pending (tc_open t1) \<subseteq> {} \<union> all_pending (tc_open ((tc_emit ?i t1)\<lparr>tc_open := ?tg # tc_open t1\<rparr>))"
        by simp
      show "fors (tc_open ((tc_emit ?i t1)\<lparr>tc_open := ?tg # tc_open t1\<rparr>)) = fors (tc_open t1) + delta ?i"
        by (simp add: fors_Cons delta_def plain_instr_def)
    qed (use failed_reports [OF t1(1)] in \<open>simp_all add: pending_def tc_emit_def on_tpl_def\<close>)
    with e Some show ?thesis by (simp add: tag_if_def)
  qed
qed

lemma emit_out [simp]:
  "tc_out (tc_emit i t) = (tc_out t)\<lparr>pl_code := pl_code (tc_out t) @ [i]\<rparr>" "tc_open (tc_emit i t) = tc_open t"
  "tc_diags (tc_emit i t) = tc_diags t" "tc_failed (tc_emit i t) = tc_failed t"
  "tc_here (tc_emit i t) = Suc (tc_here t)"
  by (simp_all add: tc_emit_def on_tpl_def tc_here_def)

lemma patch_out [simp]:
  "tc_open (patch_b at b t) = tc_open t" "tc_diags (patch_b at b t) = tc_diags t" "tc_failed (patch_b at b t) = tc_failed t"
  "tc_here (patch_b at b t) = tc_here t"
  "pl_code (tc_out (patch_b at b t)) = (pl_code (tc_out t))[at := (pl_code (tc_out t) ! at)\<lparr>ti_b := b\<rparr>]"
  by (simp_all add: patch_b_def on_tpl_def tc_here_def)

lemma open_out [simp]: "tc_here (t\<lparr>tc_open := tgs\<rparr>) = tc_here t"
  by (simp add: tc_here_def)

lemma writing_but_mono: "writing_but X t \<Longrightarrow> X \<subseteq> Y \<Longrightarrow> writing_but Y t"
  by (auto simp: writing_but_def Let_def)

text \<open>Replacing the open tags, when nothing that is pending is lost.\<close>

lemma writing_open:
  assumes w: "writing_but X t" and "tags_ok (tc_out t) tgs" "fors tgs = fors (tc_open t)"
    and "X \<union> all_pending (tc_open t) \<subseteq> Y \<union> all_pending tgs"
  shows "writing_but Y (t\<lparr>tc_open := tgs\<rparr>)"
  using assms by (auto simp: writing_but_def Let_def)

lemma tags_pending:
  assumes "tags_ok p (tg # tgs)" "pc \<in> pending tg"
  shows "pc < length (pl_code p)" "loop_depth (pl_code p) pc = fors tgs" "ti_op (pl_code p ! pc) \<noteq> Tp_BucleSiguiente"
  using assms by (auto simp: tag_ok_def)

lemma patch_open: "(patch_b at b t)\<lparr>tc_open := tgs\<rparr> = patch_b at b (t\<lparr>tc_open := tgs\<rparr>)"
  and wild_open: "(mark_wild t)\<lparr>tc_open := tgs\<rparr> = mark_wild (t\<lparr>tc_open := tgs\<rparr>)"
  by (simp_all add: patch_b_def mark_wild_def on_tpl_def)

lemma wild_out [simp]:
  "tc_open (mark_wild t) = tc_open t" "pl_code (tc_out (mark_wild t)) = pl_code (tc_out t)" "tc_here (mark_wild t) = tc_here t"
  by (simp_all add: mark_wild_def on_tpl_def tc_here_def)

lemma tags_ok_code: "pl_code p = pl_code q \<Longrightarrow> tags_ok p tgs = tags_ok q tgs"
  by (induction tgs) (simp_all add: tag_ok_def)

lemma expresion_open:
  "expresion te txt loc (t\<lparr>tc_open := tgs\<rparr>) =
     (fst (expresion te txt loc t), (snd (expresion te txt loc t))\<lparr>tc_open := tgs\<rparr>)"
  by (simp add: expresion_def Let_def tc_error_def on_tpl_def split: prod.split option.split list.split)

lemma writing_else:
  assumes w: "writing t"
  shows "writing (tag_else te etiqueta resto loc t)"
proof (cases "opens_with ''if'' t")
  case True
  then obtain tg tgs where tg: "tc_open t = tg # tgs" "tg_que tg = ''if''"
    by (auto simp: opens_with_def split: list.splits)
  define out t1 where "out = tc_here t" and "t1 = tc_emit (plain_instr Tp_Saltar 0 loc) t"
  define tg1 tg2 where "tg1 = tg\<lparr>tg_patches := tg_patches tg @ [out]\<rparr>" and "tg2 = tg1\<lparr>tg_start := None\<rparr>"
  define t2 where "t2 = (case tg_start tg of Some i \<Rightarrow> patch_b i (tc_here t1) t1 | None \<Rightarrow> mark_wild t1)"
  define v where "v = t2\<lparr>tc_open := tg2 # tgs\<rparr>"
  have que: "tg_que tg1 \<noteq> ''for''" "tg_que tg2 \<noteq> ''for''"
    using tg(2) by (simp_all add: tg1_def tg2_def)
  have old: "tags_ok (tc_out t) (tg # tgs)" "loop_depth (pl_code (tc_out t)) out = fors tgs"
    using w tg by (auto simp: writing_but_def Let_def out_def tc_here_def fors_Cons)
  have tags1: "tags_ok (tc_out t1) (tg1 # tgs)"
  proof -
    have "tags_ok (tc_out t1) (tg # tgs)"
      using tags_ok_snoc [OF old(1)] by (simp add: t1_def)
    moreover have "out < length (pl_code (tc_out t1))" "loop_depth (pl_code (tc_out t1)) out = fors tgs"
      "ti_op (pl_code (tc_out t1) ! out) = Tp_Saltar"
      using old(2) by (simp_all add: t1_def out_def tc_here_def loop_depth_append plain_instr_def)
    ultimately show ?thesis
      using tg(2) by (auto simp: tag_ok_def tg1_def pending_def)
  qed
  then have tags2: "tags_ok (tc_out t1) (tg2 # tgs)"
    using que by (auto simp: tag_ok_def tg2_def pending_def)
  have pend: "pending tg1 = set_option (tg_start tg) \<union> pending tg2"
    by (auto simp: tg1_def tg2_def pending_def)
  have w2: "writing_but (set_option (tg_start tg)) (t1\<lparr>tc_open := tg2 # tgs\<rparr>)"
  proof (rule writing_snoc [OF writing_but_mono [OF w], of _ _ "plain_instr Tp_Saltar 0 loc"])
    show "tc_here t \<notin> set_option (tg_start tg) \<union> all_pending (tc_open (t1\<lparr>tc_open := tg2 # tgs\<rparr>)) \<Longrightarrow>
        target_ok (tc_out (t1\<lparr>tc_open := tg2 # tgs\<rparr>)) (tc_here t)"
      by (simp add: tg2_def tg1_def pending_def out_def)
  qed (use tags2 tg que failed_reports [OF w] in
      \<open>auto simp: t1_def tg1_def tg2_def out_def pending_def fors_Cons delta_def plain_instr_def instr_ok_def tc_here_def\<close>)
  have v: "writing v"
  proof (cases "tg_start tg")
    case None
    with writing_wild [OF w2] show ?thesis by (simp add: v_def t2_def wild_open)
  next
    case (Some i)
    let ?u = "t1\<lparr>tc_open := tg2 # tgs\<rparr>"
    have "writing (patch_b i (tc_here ?u) ?u)"
      using w2 Some tags_pending [OF tags1, of i] pend que
      by (intro writing_patch) (simp_all add: tc_here_def fors_Cons)
    with Some show ?thesis by (simp add: v_def t2_def patch_open)
  qed
  have code: "tags_ok (tc_out v) (tg1 # tgs)"
  proof (cases "tg_start tg")
    case None
    with tags1 tags_ok_code [of "tc_out v" "tc_out t1" "tg1 # tgs"] show ?thesis
      by (simp add: v_def t2_def del: tags_ok.simps)
  next
    case (Some i)
    with tags1 show ?thesis
      by (simp add: v_def t2_def patch_b_def on_tpl_def tags_ok_patch del: tags_ok.simps)
  qed
  obtain r v1 where e: "expresion te resto loc v = (r, v1)"
    by (metis surj_pair)
  note v1 = expresion_writing [OF v e]
  have tags_v1: "tags_ok (tc_out v1) (tg1 # tgs)"
    using code tags_ok_code [OF v1(3)] by blast
  have "t2\<lparr>tc_open := tg1 # tgs\<rparr> = v\<lparr>tc_open := tg1 # tgs\<rparr>"
    by (simp add: v_def)
  then have e': "expresion te resto loc (t2\<lparr>tc_open := tg1 # tgs\<rparr>) = (r, v1\<lparr>tc_open := tg1 # tgs\<rparr>)"
    by (simp add: expresion_open e)
  have vopen: "tc_open v1 = tg2 # tgs"
    using v1(2) by (simp add: v_def)
  have failing: "writing (v1\<lparr>tc_open := tg1 # tgs\<rparr>)"
    using pend que by (intro writing_open [OF v1(1) tags_v1]) (auto simp: vopen fors_Cons)
  have next_test: "writing ((tc_emit (plain_instr Tp_SaltarSiFalso k loc) v1)\<lparr>tc_open := tg1\<lparr>tg_start := Some (tc_here v1)\<rparr> # tgs\<rparr>)"
    if "r = Some k" for k
  proof (rule writing_snoc [OF v1(1), of _ "plain_instr Tp_SaltarSiFalso k loc"])
    let ?p = "(tc_out v1)\<lparr>pl_code := pl_code (tc_out v1) @ [plain_instr Tp_SaltarSiFalso k loc]\<rparr>"
    have "tags_ok ?p (tg1 # tgs)"
      by (rule tags_ok_snoc [OF tags_v1])
    moreover have "loop_depth (pl_code (tc_out v1)) (tc_here v1) = fors tgs"
      using v1(1) que by (simp add: writing_but_def Let_def vopen fors_Cons tc_here_def)
    ultimately show "tags_ok (tc_out ((tc_emit (plain_instr Tp_SaltarSiFalso k loc) v1)\<lparr>tc_open := tg1\<lparr>tg_start := Some (tc_here v1)\<rparr> # tgs\<rparr>))
        (tc_open ((tc_emit (plain_instr Tp_SaltarSiFalso k loc) v1)\<lparr>tc_open := tg1\<lparr>tg_start := Some (tc_here v1)\<rparr> # tgs\<rparr>))"
      using que by (auto simp: tag_ok_def pending_def tc_here_def loop_depth_append plain_instr_def)
    show "instr_ok (tc_out ((tc_emit (plain_instr Tp_SaltarSiFalso k loc) v1)\<lparr>tc_open := tg1\<lparr>tg_start := Some (tc_here v1)\<rparr> # tgs\<rparr>)) (tc_here v1)"
      using v1(4) [OF that] by (simp add: instr_ok_def plain_instr_def tc_here_def)
  qed (use que failed_reports [OF v1(1)] in \<open>auto simp: vopen tg2_def pending_def fors_Cons delta_def plain_instr_def\<close>)
  show ?thesis
  proof (cases "etiqueta = ''elif''")
    case True
    with \<open>opens_with _ t\<close> have "tag_else te etiqueta resto loc t = (case expresion te resto loc (t2\<lparr>tc_open := tg1 # tgs\<rparr>) of
         (None, t3) \<Rightarrow> t3
       | (Some k, t3) \<Rightarrow> (tc_emit (plain_instr Tp_SaltarSiFalso k loc) t3)\<lparr>tc_open := tg1\<lparr>tg_start := Some (tc_here t3)\<rparr> # tgs\<rparr>)"
      unfolding tag_else_def Let_def tg list.sel t2_def t1_def tg1_def out_def by simp
    also have "writing \<dots>"
    proof (cases r)
      case (Some k)
      with next_test show ?thesis unfolding e' by (simp add: tc_emit_def on_tpl_def)
    qed (use failing in \<open>simp add: e'\<close>)
    finally show ?thesis .
  next
    case False
    with \<open>opens_with _ t\<close> v show ?thesis
      unfolding tag_else_def Let_def tg list.sel v_def t2_def t1_def tg1_def tg2_def out_def by simp
  qed
qed (use writing_error [OF assms] in \<open>simp add: tag_else_def\<close>)

lemma fold_patch_fields [simp]:
  "tc_open (fold (\<lambda>p t. patch_b p (tc_here t) t) ps t) = tc_open t"
  "tc_here (fold (\<lambda>p t. patch_b p (tc_here t) t) ps t) = tc_here t"
  by (induction ps arbitrary: t) simp_all

lemma patched_op: "ti_op (pl_code (tc_out (patch_b at b t)) ! pc) = ti_op (pl_code (tc_out t) ! pc)"
  "loop_depth (pl_code (tc_out (patch_b at b t))) pc = loop_depth (pl_code (tc_out t)) pc"
  by (simp_all add: ops_patch loop_depth_patch)

lemma writing_patches:
  assumes "writing_but (X \<union> set ps) t"
    and "\<forall>at \<in> set ps. at < tc_here t \<and> loop_depth (pl_code (tc_out t)) at = fors (tc_open t) \<and> ti_op (pl_code (tc_out t) ! at) \<noteq> Tp_BucleSiguiente"
  shows "writing_but X (fold (\<lambda>p t. patch_b p (tc_here t) t) ps t)"
  using assms
proof (induction ps arbitrary: t)
  case (Cons at ps)
  have "writing_but (X \<union> set ps) (patch_b at (tc_here t) t)"
    using Cons.prems by (intro writing_patch) simp_all
  then show ?case
    using Cons.prems(2) by (simp add: Cons.IH patched_op del: patch_out(5))
qed simp

lemma writing_endif:
  assumes w: "writing t"
  shows "writing (tag_endif loc t)"
proof (cases "opens_with ''if'' t")
  case True
  then obtain tg tgs where tg: "tc_open t = tg # tgs" "tg_que tg = ''if''"
    by (auto simp: opens_with_def split: list.splits)
  have tags: "tags_ok (tc_out t) (tg # tgs)"
    using w tg by (simp add: writing_but_def Let_def)
  define u where "u = t\<lparr>tc_open := tgs\<rparr>"
  have u: "tc_open u = tgs" "tc_out u = tc_out t" "tc_here u = tc_here t"
    by (simp_all add: u_def tc_here_def)
  have wu: "writing_but (set_option (tg_start tg) \<union> set (tg_patches tg)) u"
    unfolding u_def using tags tg by (intro writing_open [OF w]) (auto simp: fors_Cons pending_def)
  define v where "v = (case tg_start tg of Some i \<Rightarrow> patch_b i (tc_here u) u | None \<Rightarrow> u)"
  have pend: "at < tc_here u \<and> loop_depth (pl_code (tc_out u)) at = fors tgs \<and> ti_op (pl_code (tc_out u) ! at) \<noteq> Tp_BucleSiguiente"
    if "at \<in> pending tg" for at
    using tags_pending [OF tags that] by (simp add: u tc_here_def)
  have "writing_but (set (tg_patches tg)) v"
  proof (cases "tg_start tg")
    case (Some i)
    with wu pend [of i] writing_patch [of i "set (tg_patches tg)" u] show ?thesis
      by (simp add: v_def u pending_def)
  qed (use wu in \<open>simp add: v_def\<close>)
  moreover have "tc_open v = tgs" "tc_here v = tc_here u"
    "ti_op (pl_code (tc_out v) ! at) = ti_op (pl_code (tc_out u) ! at)" "loop_depth (pl_code (tc_out v)) at = loop_depth (pl_code (tc_out u)) at" for at
    by (cases "tg_start tg"; simp add: v_def u patched_op del: patch_out(5))+
  ultimately have "writing (fold (\<lambda>p t. patch_b p (tc_here t) t) (tg_patches tg) v)"
    using pend by (intro writing_patches) (auto simp: pending_def)
  moreover have "(case tg_start tg of Some i \<Rightarrow> patch_b i (tc_here t) t | None \<Rightarrow> t)\<lparr>tc_open := tgs\<rparr> = v"
    by (simp add: v_def u_def patch_open split: option.split)
  ultimately show ?thesis
    using True by (simp add: tag_endif_def tg)
qed (use writing_error [OF assms] in \<open>simp add: tag_endif_def\<close>)

lemma length_tapar: "length (snd (tapar nombre ns)) = length ns"
  by (simp add: tapar_def split: option.split)

lemma length_loop_names: "length (snd (loop_names var ns)) = length ns + 2"
  by (simp add: loop_names_def Let_def length_tapar split: prod.split) (metis length_tapar snd_conv)

lemma length_unhide: "length (unhide hs ns) = length ns"
proof (induction hs arbitrary: ns)
  case (Cons h hs)
  then show ?case by (cases h) (simp add: unhide_def)
qed (simp add: unhide_def)

lemma writing_for:
  assumes w: "writing t"
  shows "writing (tag_for te resto loc t)"
proof -
  have "writing (case expresion te lista loc t of
      (None, t1) \<Rightarrow> t1
    | (Some k, t1) \<Rightarrow>
       (let (hidden, ns) = loop_names var (pl_names (tc_out t1)); slot = length ns - 2
        in (tc_emit \<lparr>ti_op = Tp_BucleInicio, ti_a = k, ti_b = 0, ti_slot = slot, ti_loop = slot + 1, ti_loc = loc\<rparr>
              (on_tpl (\<lambda>p. p\<lparr>pl_names := ns\<rparr>) t1))\<lparr>tc_open :=
            \<lparr>tg_que = ''for'', tg_loc = loc, tg_patches = [], tg_start = Some (tc_here t1), tg_hidden = hidden\<rparr> # tc_open t1\<rparr>))"
    for lista var
  proof -
    obtain r t1 where e: "expresion te lista loc t = (r, t1)" by (metis surj_pair)
    note t1 = expresion_writing [OF w e]
    obtain hidden ns where ns: "loop_names var (pl_names (tc_out t1)) = (hidden, ns)" by (metis surj_pair)
    then have len: "length ns = length (pl_names (tc_out t1)) + 2"
      using length_loop_names [of var "pl_names (tc_out t1)"] by simp
    show ?thesis
    proof (cases r)
      case (Some k)
      define i where "i = \<lparr>ti_op = Tp_BucleInicio, ti_a = k, ti_b = 0, ti_slot = length ns - 2, ti_loop = length ns - 2 + 1, ti_loc = loc\<rparr>"
      define u where "u = on_tpl (\<lambda>p. p\<lparr>pl_names := ns\<rparr>) t1"
      define tg where "tg = \<lparr>tg_que = ''for'', tg_loc = loc, tg_patches = [], tg_start = Some (tc_here t1), tg_hidden = hidden\<rparr>"
      have u: "writing u"
        unfolding u_def by (rule writing_widens [OF t1(1)]) (use failed_reports [OF t1(1)] len in \<open>simp_all add: on_tpl_def widens_def\<close>)
      have parts: "pl_code (tc_out u) = pl_code (tc_out t1)" "tc_open u = tc_open t1" "pl_names (tc_out u) = ns"
        "pl_exprs (tc_out u) = pl_exprs (tc_out t1)" "tc_here u = tc_here t1"
        by (simp_all add: u_def on_tpl_def tc_here_def)
      have depth: "loop_depth (pl_code (tc_out u)) (tc_here u) = fors (tc_open u)"
        using u by (simp add: writing_but_def Let_def tc_here_def)
      have "writing ((tc_emit i u)\<lparr>tc_open := tg # tc_open u\<rparr>)"
      proof (rule writing_snoc [OF u, of _ i])
        let ?p = "(tc_out u)\<lparr>pl_code := pl_code (tc_out u) @ [i]\<rparr>"
        have "tags_ok ?p (tc_open u)"
          using u by (intro tags_ok_snoc) (simp add: writing_but_def Let_def)
        moreover have "tag_ok ?p (tc_open u) tg"
          using depth parts by (simp add: tag_ok_def tg_def pending_def tc_here_def loop_depth_append loop_depth_snoc i_def delta_def)
        ultimately show "tags_ok (tc_out ((tc_emit i u)\<lparr>tc_open := tg # tc_open u\<rparr>)) (tc_open ((tc_emit i u)\<lparr>tc_open := tg # tc_open u\<rparr>))"
          by simp
        show "instr_ok (tc_out ((tc_emit i u)\<lparr>tc_open := tg # tc_open u\<rparr>)) (tc_here u)"
          using t1(4) [OF Some] len parts by (simp add: instr_ok_def i_def tc_here_def)
      qed (use parts failed_reports [OF u] in \<open>auto simp: tg_def pending_def fors_Cons delta_def i_def\<close>)
      then show ?thesis
        unfolding e Some using ns parts by (simp add: i_def u_def tg_def Let_def)
    qed (use t1 in \<open>simp add: e\<close>)
  qed
  with writing_error [OF w] show ?thesis
    unfolding tag_for_def Let_def by (simp split: option.split)
qed

lemma writing_endfor:
  assumes w: "writing t"
  shows "writing (tag_endfor loc t)"
proof (cases "opens_with ''for'' t")
  case True
  then obtain tg tgs where tg: "tc_open t = tg # tgs" "tg_que tg = ''for''"
    by (auto simp: opens_with_def split: list.splits)
  have tags: "tags_ok (tc_out t) (tg # tgs)"
    using w tg by (simp add: writing_but_def Let_def)
  then obtain at where at: "tg_start tg = Some at" "tg_patches tg = []" "ti_op (pl_code (tc_out t) ! at) = Tp_BucleInicio"
      "loop_depth (pl_code (tc_out t)) (at + 1) = fors tgs + 1"
    using tg(2) by (auto simp: tag_ok_def)
  have at': "at < length (pl_code (tc_out t))" "loop_depth (pl_code (tc_out t)) at = fors tgs"
    using tags_pending [OF tags, of at] at by (simp_all add: pending_def)
  have "instr_ok (tc_out t) at"
    using w at'(1) by (simp add: writing_but_def Let_def)
  then have slots: "ti_slot (pl_code (tc_out t) ! at) < length (pl_names (tc_out t))" "ti_loop (pl_code (tc_out t) ! at) < length (pl_names (tc_out t))"
    using at(3) by (simp_all add: instr_ok_def Let_def)
  define i where "i = \<lparr>ti_op = Tp_BucleSiguiente, ti_a = 0, ti_b = at + 1, ti_slot = ti_slot (pl_code (tc_out t) ! at),
      ti_loop = ti_loop (pl_code (tc_out t) ! at), ti_loc = loc\<rparr>"
  define u where "u = on_tpl (\<lambda>p. p\<lparr>pl_names := unhide (tg_hidden tg) (pl_names p)\<rparr>) t"
  have u: "writing u"
    unfolding u_def by (rule writing_widens [OF w]) (use failed_reports [OF w] in \<open>simp_all add: on_tpl_def widens_def length_unhide\<close>)
  have parts: "pl_code (tc_out u) = pl_code (tc_out t)" "tc_open u = tg # tgs" "length (pl_names (tc_out u)) = length (pl_names (tc_out t))" "tc_here u = tc_here t"
    by (simp_all add: u_def on_tpl_def tc_here_def length_unhide tg)
  have depth: "loop_depth (pl_code (tc_out u)) (tc_here u) = fors tgs + 1"
    using u tg parts(2) by (simp add: writing_but_def Let_def tc_here_def fors_Cons)
  define v where "v = (tc_emit i u)\<lparr>tc_open := tgs\<rparr>"
  have v: "writing_but {at} v"
  proof (rule writing_snoc [OF writing_but_mono [OF u], of _ _ i])
    have "tags_ok (tc_out u) tgs"
      using u parts(2) by (simp add: writing_but_def Let_def)
    then show "tags_ok (tc_out v) (tc_open v)"
      by (simp add: v_def tags_ok_snoc)
    have "0 \<le> fors tgs" by (simp add: fors_def)
    then show "instr_ok (tc_out v) (tc_here u)"
      using depth at' at(4) parts slots
      by (simp add: v_def instr_ok_def i_def tc_here_def jump_ok_def loop_depth_append)
    show "target_ok (tc_out v) (tc_here u)"
      by (simp add: v_def target_ok_def i_def tc_here_def jumps_forward_def)
  qed (use parts at tg failed_reports [OF u] in \<open>auto simp: v_def pending_def fors_Cons delta_def i_def\<close>)
  have "writing (patch_b at (tc_here v) v)"
  proof (rule writing_patch)
    show "at < tc_here v" "ti_op (pl_code (tc_out v) ! at) \<noteq> Tp_BucleSiguiente"
      "loop_depth (pl_code (tc_out v)) at = fors (tc_open v)"
      using at' at(3) parts by (simp_all add: v_def tc_here_def nth_append loop_depth_append)
  qed (use v in simp)
  moreover have "tag_endfor loc t = patch_b at (tc_here v) v"
    using True at(1) by (simp add: Let_def tag_endfor_def tg v_def u_def i_def tc_emit_def on_tpl_def tc_here_def patch_b_def)
  ultimately show ?thesis by simp
qed (use writing_error [OF assms] in \<open>simp add: tag_endfor_def\<close>)

section \<open>The whole template\<close>

fun flow_writing :: "body_flow \<Rightarrow> bool" where
  "flow_writing (Leave t) = writing t"
| "flow_writing (Finish d t) = writing t"
| "flow_writing (Go i d t) = writing t"

lemma writing_include:
  assumes "\<And>src d t. writing t \<Longrightarrow> writing (again src d t)" "writing t"
  shows "writing (tag_include again te resto depth loc t)"
  using assms writing_error by (simp add: tag_include_def Let_def split: option.split)

lemma writing_block:
  assumes "\<And>src d t. writing t \<Longrightarrow> writing (again src d t)" "writing t"
  shows "flow_writing (tag_block again bs src resto i depth loc t)"
  using assms writing_error by (simp add: tag_block_def Let_def split: option.split)

lemma writing_tag:
  assumes "\<And>src d t. writing t \<Longrightarrow> writing (again src d t)" "writing t"
  shows "flow_writing (tag_step again te bs src contenido i depth loc t)"
  unfolding tag_step_def Let_def
  by (simp only: if_distrib [of flow_writing] flow_writing.simps writing_if [OF assms(2)] writing_else [OF assms(2)]
      writing_endif [OF assms(2)] writing_for [OF assms(2)] writing_endfor [OF assms(2)] writing_include [OF assms]
      writing_block [OF assms] writing_error [OF assms(2)] assms(2) if_cancel)

lemma writing_step:
  assumes "\<And>src d t. writing t \<Longrightarrow> writing (again src d t)" "writing t"
  shows "flow_writing (body_step again te bs src depth i desde t)"
proof -
  have t1: "writing (texto s t)" for s
    by (rule writing_texto [OF assms(2)])
  show ?thesis
    unfolding body_step_def Let_def
    using writing_tag [OF assms(1) t1] writing_write_expr [OF t1] writing_error [OF assms(2)] t1 assms(2)
    by (auto split: option.split simp del: texto_def)
qed

lemma writing_loop:
  assumes "\<And>src d t. writing t \<Longrightarrow> writing (again src d t)" "writing t"
  shows "writing (body_loop again te bs src depth i desde t)"
  using assms
proof (induction again te bs src depth i desde t rule: body_loop.induct)
  case (1 again te bs src depth i desde t)
  have step: "flow_writing (body_step again te bs src depth i desde t)"
    by (rule writing_step [OF "1.prems"])
  show ?case
  proof (cases "body_step again te bs src depth i desde t")
    case (Go i' d t')
    with step "1.IH" [OF Go "1.prems"(1)] show ?thesis
      by (simp add: body_loop.simps [of again te bs src depth i])
  qed (use step writing_texto in \<open>simp_all add: body_loop.simps [of again te bs src depth i]\<close>)
qed

lemma writing_cuerpo: "writing t \<Longrightarrow> writing (cuerpo k te bs src depth t)"
proof (induction k arbitrary: src depth t)
  case 0
  have "writing (on_tpl (\<lambda>p. p\<lparr>pl_spent := True\<rparr>) t)"
    by (rule writing_widens [OF 0]) (use failed_reports [OF 0] in \<open>simp_all add: on_tpl_def widens_def\<close>)
  then show ?case by simp
next
  case (Suc k)
  then show ?case by (simp add: writing_loop)
qed

lemma recoger_writing: "writing t \<Longrightarrow> writing (snd (recoger_bloques src i bs t))"
proof (induction src i bs t rule: recoger_bloques.induct)
  case (1 src i bs t)
  then show ?case
    by (subst recoger_bloques.simps) (auto simp: Let_def writing_error split: option.split prod.split)
qed

lemma padre_writing: "writing t \<Longrightarrow> writing (snd (padre_de src t))"
  by (simp add: padre_de_def Let_def writing_error split: option.split)

lemma subir_writing: "writing t \<Longrightarrow> writing (snd (subir n te raiz bs t))"
proof (induction n arbitrary: raiz bs t)
  case 0
  with padre_writing [of t raiz] show ?case
    by (auto simp: writing_error split: prod.split option.split)
next
  case (Suc n)
  obtain q t1 where p: "padre_de raiz t = (q, t1)" by (metis surj_pair)
  obtain bs1 t2 where r: "recoger_bloques raiz 0 bs t1 = (bs1, t2)" by (metis surj_pair)
  have "writing t1" "writing t2"
    using padre_writing [OF Suc.prems, of raiz] recoger_writing [of t1 raiz 0 bs] p r by simp_all
  then show ?case
    using Suc.IH by (cases q) (simp_all add: p r writing_error split: option.split)
qed

lemma subir_fails: "subir n te raiz bs t = (None, t') \<Longrightarrow> tc_failed t'"
proof (induction n arbitrary: raiz bs t)
  case (Suc n)
  obtain q t1 where p: "padre_de raiz t = (q, t1)" by (metis surj_pair)
  obtain bs1 t2 where r: "recoger_bloques raiz 0 bs t1 = (bs1, t2)" by (metis surj_pair)
  show ?case
    using Suc by (cases q) (auto simp: p r tc_error_def split: option.splits)
qed (auto simp: tc_error_def split: prod.splits option.splits)

lemma new_writing: "writing (new_compiler datos)"
  by (simp add: writing_but_def Let_def new_compiler_def new_plantilla_def loop_depth_def fors_def)

lemma compilar_writing: "writing (compilar k te src datos)"
proof -
  obtain r t where s: "subir 16 te src [] (new_compiler datos) = (r, t)" by (metis surj_pair)
  have "writing t"
    using subir_writing [OF new_writing, of 16 te src "[]" datos] s by simp
  with s show ?thesis
    by (auto simp: compilar_def Let_def writing_error writing_cuerpo split: option.split list.split)
qed

text \<open>Compiling a template fails only with a diagnostic.\<close>

lemma compilar_plantilla_reports: "compilar_plantilla k te src datos = (ds, None) \<Longrightarrow> ds \<noteq> []"
  using failed_reports [OF compilar_writing [of k te src datos]] by (auto simp: compilar_plantilla_def Let_def split: if_splits)

lemma compilar_ok:
  assumes "compilar_plantilla k te src datos = (ds, Some p)" "\<not> pl_spent p" "\<not> pl_undefined p"
  shows "tpl_ok p"
proof -
  let ?t = "compilar k te src datos"
  have p: "p = tc_out ?t" "\<not> tc_failed ?t"
    using assms by (auto simp: compilar_plantilla_def Let_def split: if_splits)
  obtain r t where s: "subir 16 te src [] (new_compiler datos) = (r, t)" by (metis surj_pair)
  then have "tc_open ?t = []"
    using p(2) subir_fails [of 16 te src "[]" "new_compiler datos" t]
    by (cases r) (auto simp: compilar_def Let_def tc_error_def split: list.splits)
  with compilar_writing [of k te src datos] show ?thesis
    by (simp add: p tpl_ok_def writing_but_def Let_def fors_def)
qed

end
