(* ===== verification/Render.thy ===== *)
theory Render
  imports TemplateRuns
begin

text \<open>
  Rendering a compiled template (\<open>render_plantilla\<close> of src/odio/plantilla.cpp): its instructions run over
  the slots of the names, the stack of loops and the page written so far, and its expressions on the
  machine.  Values on the heap become trees to be written.
\<close>

section \<open>Values on the heap\<close>

text \<open>
  The tree of a value, nested at most \<open>n\<close> boxes deep.  A chain of boxes longer than the heap meets a
  box twice, so writing a value that is not a tree of this depth does not end.
\<close>

primrec to_val :: "nat \<Rightarrow> heap \<Rightarrow> hval \<Rightarrow> val option" where
  "to_val 0 h v = (case v of
       HNull \<Rightarrow> Some VNull | HBool b \<Rightarrow> Some (VBool b) | HInt i \<Rightarrow> Some (VInt i) | HFloat d \<Rightarrow> Some (VFloat d)
     | HStr s \<Rightarrow> Some (VStr s) | HList a \<Rightarrow> None | HDict a \<Rightarrow> None)"
| "to_val (Suc n) h v = (case v of
       HNull \<Rightarrow> Some VNull | HBool b \<Rightarrow> Some (VBool b) | HInt i \<Rightarrow> Some (VInt i) | HFloat d \<Rightarrow> Some (VFloat d)
     | HStr s \<Rightarrow> Some (VStr s)
     | HList a \<Rightarrow> map_option VList (those (map (to_val n h) (list_at h a)))
     | HDict a \<Rightarrow> map_option (\<lambda>vs. VDict (Dict (zip (map fst (d_v (dict_at h a))) vs) (d_idx (dict_at h a))))
         (those (map (\<lambda>(k, x). to_val n h x) (d_v (dict_at h a)))))"

definition h_val :: "heap \<Rightarrow> hval \<Rightarrow> val option" where
  "h_val h v = to_val (Suc (length h)) h v"

text \<open>\<open>to_string\<close> and \<open>to_json_text\<close>; nothing when a box contains itself.\<close>

definition h_text :: "fp_text \<Rightarrow> heap \<Rightarrow> hval \<Rightarrow> string option" where
  "h_text F h v = map_option (to_string F) (h_val h v)"

definition h_json :: "fp_text \<Rightarrow> heap \<Rightarrow> hval \<Rightarrow> string option" where
  "h_json F h v = map_option (write_json F) (h_val h v)"

section \<open>The renderer\<close>

record 'c render_state =
  rs_heap :: heap
  rs_ctx :: 'c
  rs_vals :: "hval list"
  rs_loops :: "(nat \<times> nat) list"
  rs_out :: string
  rs_pc :: nat

text \<open>
  \<open>Out_of_range\<close> is an access of the renderer outside its tables; \<open>Expr_crash\<close> an expression that never
  ends, divides the smallest integer by -1 or is undefined, a value that contains itself, or an expression
  while the machine of the templates is running one already.
\<close>

datatype 'c rendering =
    Rendering "'c render_state"
  | Page "'c render_state"
  | Broken string "'c render_state"
  | Out_of_range
  | Expr_crash

text \<open>What every expression of the template is evaluated with: the built-ins, the functions, and whether the
  machine of the templates is in use.\<close>

record 'c render_env =
  re_natives :: "'c natives"
  re_fp :: fp_text
  re_fns :: "chunk list option"
  re_busy :: bool

definition evaluar :: "'c render_env \<Rightarrow> plantilla \<Rightarrow> nat \<Rightarrow> 'c render_state \<Rightarrow> (hval \<Rightarrow> 'c render_state \<Rightarrow> 'c rendering) \<Rightarrow>
    'c rendering" where
  "evaluar re p k r cont =
     (if length (pl_exprs p) \<le> k then Out_of_range
      else if re_busy re then Expr_crash
      else case start (re_natives re) (pl_exprs p ! k) (rs_vals r) (re_fns re) (rs_heap r) (rs_ctx r) of
             Some (Returned v m) \<Rightarrow> cont v (r\<lparr>rs_heap := mheap m, rs_ctx := mctx m\<rparr>)
           | Some (Failed e loc m) \<Rightarrow> Broken e (r\<lparr>rs_heap := mheap m, rs_ctx := mctx m\<rparr>)
           | Some (Suspended i vs m) \<Rightarrow> Broken [] (r\<lparr>rs_heap := mheap m, rs_ctx := mctx m\<rparr>)
           | _ \<Rightarrow> Expr_crash)"

definition loop_entry :: "nat \<Rightarrow> nat \<Rightarrow> hval dict" where
  "loop_entry i n =
     dict_put ''length'' (HInt (of_nat n)) (dict_put ''last'' (HBool (i + 1 = n)) (dict_put ''first'' (HBool (i = 0))
       (dict_put ''index0'' (HInt (of_nat i)) (dict_put ''index'' (HInt (of_nat (i + 1))) dict_empty))))"

text \<open>The slots of a round: the element and the dictionary \<open>loop\<close>.\<close>

definition set_round :: "tpl_instr \<Rightarrow> nat \<Rightarrow> hval list \<Rightarrow> 'c render_state \<Rightarrow> ('c render_state \<Rightarrow> 'c rendering) \<Rightarrow> 'c rendering" where
  "set_round ins i l r cont =
     (if length (rs_vals r) \<le> ti_slot ins \<or> length (rs_vals r) \<le> ti_loop ins then Out_of_range
      else cont (r\<lparr>rs_heap := rs_heap r @ [BDict (loop_entry i (length l))],
             rs_vals := (rs_vals r)[ti_slot ins := l ! i, ti_loop ins := HDict (length (rs_heap r))]\<rparr>))"

definition put_text :: "string \<Rightarrow> 'c render_state \<Rightarrow> 'c render_state" where
  "put_text s r = r\<lparr>rs_out := rs_out r @ s, rs_pc := rs_pc r + 1\<rparr>"

definition render_step :: "'c render_env \<Rightarrow> plantilla \<Rightarrow> 'c render_state \<Rightarrow> 'c rendering" where
  "render_step re p r =
     (if length (pl_code p) \<le> rs_pc r then Page r
      else
        (let ins = pl_code p ! rs_pc r
         in case ti_op ins of
              Tp_Texto \<Rightarrow>
                if length (pl_texts p) \<le> ti_a ins then Out_of_range else Rendering (put_text (pl_texts p ! ti_a ins) r)
            | Tp_Escribir \<Rightarrow> evaluar re p (ti_a ins) r (\<lambda>v r. case h_text (re_fp re) (rs_heap r) v of
                  None \<Rightarrow> Expr_crash
                | Some s \<Rightarrow> Rendering (r\<lparr>rs_out := escapar_html s (rs_out r), rs_pc := rs_pc r + 1\<rparr>))
            | Tp_EscribirCrudo \<Rightarrow> evaluar re p (ti_a ins) r (\<lambda>v r. case h_text (re_fp re) (rs_heap r) v of
                  None \<Rightarrow> Expr_crash
                | Some s \<Rightarrow> Rendering (put_text s r))
            | Tp_SaltarSiFalso \<Rightarrow> evaluar re p (ti_a ins) r (\<lambda>v r.
                Rendering (r\<lparr>rs_pc := (if h_truthy (rs_heap r) v then rs_pc r + 1 else ti_b ins)\<rparr>))
            | Tp_Saltar \<Rightarrow> Rendering (r\<lparr>rs_pc := ti_b ins\<rparr>)
            | Tp_BucleInicio \<Rightarrow> evaluar re p (ti_a ins) r (\<lambda>v r.
                case v of
                  HList a \<Rightarrow>
                    if list_at (rs_heap r) a = [] then Rendering (r\<lparr>rs_pc := ti_b ins\<rparr>)
                    else set_round ins 0 (list_at (rs_heap r) a) (r\<lparr>rs_loops := (a, 0) # rs_loops r, rs_pc := rs_pc r + 1\<rparr>) Rendering
                | _ \<Rightarrow> Broken (''{% for %} necesita una lista, no '' @ h_type_name v) r)
            | Tp_BucleSiguiente \<Rightarrow>
                (case rs_loops r of
                   [] \<Rightarrow> Out_of_range
                 | (a, i) # outer \<Rightarrow>
                     let l = list_at (rs_heap r) a
                     in if i + 1 < length l then set_round ins (i + 1) l (r\<lparr>rs_loops := (a, i + 1) # outer, rs_pc := ti_b ins\<rparr>) Rendering
                        else Rendering (r\<lparr>rs_loops := outer, rs_pc := rs_pc r + 1\<rparr>))))"

partial_function (option) render_loop :: "'c render_env \<Rightarrow> plantilla \<Rightarrow> 'c render_state \<Rightarrow> 'c rendering option" where
  "render_loop re p r = (case render_step re p r of Rendering r1 \<Rightarrow> render_loop re p r1 | x \<Rightarrow> Some x)"

declare render_loop.simps [code]

definition render_start :: "plantilla \<Rightarrow> hval list \<Rightarrow> heap \<Rightarrow> 'c \<Rightarrow> 'c render_state" where
  "render_start p vals h c =
     \<lparr>rs_heap = h, rs_ctx = c, rs_vals = take (length (pl_names p)) vals @ replicate (length (pl_names p) - length vals) HNull,
      rs_loops = [], rs_out = [], rs_pc = 0\<rparr>"

definition render_plantilla :: "'c render_env \<Rightarrow> plantilla \<Rightarrow> hval list \<Rightarrow> heap \<Rightarrow> 'c \<Rightarrow> 'c rendering option" where
  "render_plantilla re p vals h c = render_loop re p (render_start p vals h c)"

section \<open>What rendering keeps\<close>

text \<open>
  The slots are those of the names, and the stack of loops is as deep as the code says.
\<close>

definition render_inv :: "plantilla \<Rightarrow> 'c render_state \<Rightarrow> bool" where
  "render_inv p r \<longleftrightarrow> length (rs_vals r) = length (pl_names p) \<and> rs_pc r \<le> length (pl_code p) \<and>
     int (length (rs_loops r)) = loop_depth (pl_code p) (rs_pc r)"

fun rendering_ok :: "('c render_state \<Rightarrow> bool) \<Rightarrow> 'c rendering \<Rightarrow> bool" where
  "rendering_ok P (Rendering r) = P r"
| "rendering_ok P (Page r) = P r"
| "rendering_ok P (Broken e r) = True"
| "rendering_ok P Out_of_range = False"
| "rendering_ok P Expr_crash = True"

lemma loop_depth_Suc: "pc < length code \<Longrightarrow> loop_depth code (pc + 1) = loop_depth code pc + delta (code ! pc)"
  by (simp add: loop_depth_def take_Suc_conv_app_nth)

lemma evaluar_ok:
  assumes "k < length (pl_exprs p)" "\<And>v h c. rendering_ok P (cont v (r\<lparr>rs_heap := h, rs_ctx := c\<rparr>))"
  shows "rendering_ok P (evaluar re p k r cont)"
  using assms by (auto simp: evaluar_def split: option.split outcome.split)

lemma set_round_ok:
  assumes "ti_slot ins < length (rs_vals r)" "ti_loop ins < length (rs_vals r)"
    "\<And>h vs. length vs = length (rs_vals r) \<Longrightarrow> P (r\<lparr>rs_heap := h, rs_vals := vs\<rparr>)"
  shows "rendering_ok P (set_round ins i l r Rendering)"
  using assms by (simp add: set_round_def)

lemma render_step_ok:
  assumes p: "tpl_ok p" and r: "render_inv p r"
  shows "rendering_ok (render_inv p) (render_step re p r)"
proof (cases "rs_pc r < length (pl_code p)")
  case False
  with r show ?thesis by (simp add: render_step_def)
next
  case True
  let ?pc = "rs_pc r" and ?code = "pl_code p"
  let ?i = "?code ! ?pc"
  have ok: "instr_ok p ?pc" "target_ok p ?pc"
    using p True by (auto simp: tpl_ok_def)
  note facts = ok r True loop_depth_Suc [OF True]
  show ?thesis
  proof (cases "ti_op ?i")
    case Tp_Texto
    with facts show ?thesis
      by (simp add: render_step_def Let_def instr_ok_def render_inv_def delta_def put_text_def)
  next
    case Tp_Escribir
    with facts show ?thesis
      by (auto simp: render_step_def Let_def instr_ok_def render_inv_def delta_def intro!: evaluar_ok split: option.split)
  next
    case Tp_EscribirCrudo
    with facts show ?thesis
      by (auto simp: render_step_def Let_def instr_ok_def render_inv_def delta_def put_text_def intro!: evaluar_ok split: option.split)
  next
    case Tp_SaltarSiFalso
    with facts show ?thesis
      by (auto simp: render_step_def Let_def instr_ok_def target_ok_def jump_ok_def jumps_forward_def render_inv_def delta_def
          intro!: evaluar_ok)
  next
    case Tp_Saltar
    with facts show ?thesis
      by (simp add: render_step_def Let_def target_ok_def jump_ok_def jumps_forward_def render_inv_def)
  next
    case Tp_BucleInicio
    with facts show ?thesis
      by (auto simp: render_step_def Let_def instr_ok_def target_ok_def jump_ok_def jumps_forward_def render_inv_def delta_def
          intro!: evaluar_ok set_round_ok split: hval.split)
  next
    case Tp_BucleSiguiente
    with facts show ?thesis
      by (auto simp: render_step_def Let_def instr_ok_def jump_ok_def render_inv_def delta_def
          intro!: set_round_ok split: list.split)
  qed
qed

lemma render_loop_ok:
  assumes "render_loop re p r = Some x" "tpl_ok p" "render_inv p r"
  shows "x \<noteq> Out_of_range"
  using assms
proof (induction rule: render_loop.raw_induct [rotated 1, consumes 1])
  case (1 loop re p r x)
  note step = render_step_ok [OF "1.prems"]
  show ?case
  proof (cases "render_step re p r")
    case (Rendering r1)
    with 1 step [of re] show ?thesis by simp
  qed (use 1 step [of re] in auto)
qed

end
