(* ===== verification/VmRuns.thy ===== *)
theory VmRuns
  imports Vm
begin

text \<open>
  Runs of the virtual machine: the specialised integer instructions change nothing, every run ends
  at the limits of steps and frames, the local slots of nested calls never overlap, and the loop that
  the limits do not stop.
\<close>

unbundle bit_operations_syntax

section \<open>Specialised and generic code\<close>

text \<open>The generic code of a chunk, and of everything a machine or an outcome holds.\<close>

definition generic_chunk :: "chunk \<Rightarrow> chunk" where
  "generic_chunk c = c\<lparr>ch_code := map (\<lambda>i. i\<lparr>i_op := sin_especializar (i_op i)\<rparr>) (ch_code c)\<rparr>"

definition generic_frame :: "frame \<Rightarrow> frame" where
  "generic_frame f = f\<lparr>f_chunk := generic_chunk (f_chunk f)\<rparr>"

definition generic_machine :: "'c machine \<Rightarrow> 'c machine" where
  "generic_machine m = m\<lparr>frames := map generic_frame (frames m),
                         fn_table := map_option (map generic_chunk) (fn_table m)\<rparr>"

primrec generic_outcome :: "'c outcome \<Rightarrow> 'c outcome" where
  "generic_outcome (Running m) = Running (generic_machine m)"
| "generic_outcome (Returned v m) = Returned v (generic_machine m)"
| "generic_outcome (Failed e loc m) = Failed e loc (generic_machine m)"
| "generic_outcome (Suspended i vs m) = Suspended i vs (generic_machine m)"
| "generic_outcome Trapped = Trapped"
| "generic_outcome Hung = Hung"
| "generic_outcome Undefined = Undefined"

lemma generic_machine_fields [simp]:
  "stack (generic_machine m) = stack m" "locals (generic_machine m) = locals m"
  "mheap (generic_machine m) = mheap m" "mctx (generic_machine m) = mctx m"
  "steps (generic_machine m) = steps m" "frames (generic_machine m) = map generic_frame (frames m)"
  "fn_table (generic_machine m) = map_option (map generic_chunk) (fn_table m)"
  by (simp_all add: generic_machine_def)

lemma generic_machine_updates [simp]:
  "(generic_machine m)\<lparr>stack := s\<rparr> = generic_machine (m\<lparr>stack := s\<rparr>)"
  "(generic_machine m)\<lparr>locals := ls\<rparr> = generic_machine (m\<lparr>locals := ls\<rparr>)"
  "(generic_machine m)\<lparr>mheap := h\<rparr> = generic_machine (m\<lparr>mheap := h\<rparr>)"
  "(generic_machine m)\<lparr>mctx := c\<rparr> = generic_machine (m\<lparr>mctx := c\<rparr>)"
  "(generic_machine m)\<lparr>steps := n\<rparr> = generic_machine (m\<lparr>steps := n\<rparr>)"
  "(generic_machine m)\<lparr>frames := map generic_frame fs\<rparr> = generic_machine (m\<lparr>frames := fs\<rparr>)"
  by (simp_all add: generic_machine_def)

lemma generic_frame_fields [simp]:
  "f_pc (generic_frame f) = f_pc f" "locals_base (generic_frame f) = locals_base f"
  "stack_base (generic_frame f) = stack_base f" "f_chunk (generic_frame f) = generic_chunk (f_chunk f)"
  "(generic_frame f)\<lparr>f_pc := p\<rparr> = generic_frame (f\<lparr>f_pc := p\<rparr>)"
  by (simp_all add: generic_frame_def)

lemma generic_chunk_fields [simp]:
  "ch_constants (generic_chunk c) = ch_constants c" "ch_try (generic_chunk c) = ch_try c"
  "num_locals (generic_chunk c) = num_locals c" "length (ch_code (generic_chunk c)) = length (ch_code c)"
  "const_str (generic_chunk c) k = const_str c k" "find_handler (generic_chunk c) pc = find_handler c pc"
  by (simp_all add: generic_chunk_def const_str_def find_handler_def)

lemma set_pc_generic [simp]: "set_pc t (generic_machine m) = generic_machine (set_pc t m)"
  by (cases m) (simp add: set_pc_def generic_machine_def split: list.split)

lemma mpush_generic [simp]: "mpush v (generic_machine m) = generic_machine (mpush v m)"
  by (simp add: mpush_def)

lemma push_box_generic [simp]:
  "push_list l (generic_machine m) = generic_machine (push_list l m)"
  "push_dict d (generic_machine m) = generic_machine (push_dict d m)"
  by (simp_all add: push_list_def push_dict_def)

lemma pop1_generic:
  "(\<And>v m1. g v (generic_machine m1) = generic_outcome (k v m1)) \<Longrightarrow>
     pop1 (generic_machine m) g = generic_outcome (pop1 m k)"
  by (simp add: pop1_def split: list.split)

lemma pop2_generic:
  "(\<And>a b m1. g a b (generic_machine m1) = generic_outcome (k a b m1)) \<Longrightarrow>
     pop2 (generic_machine m) g = generic_outcome (pop2 m k)"
  by (simp add: pop2_def pop1_generic)

lemma pop_args_generic:
  "(\<And>vs m1. g vs (generic_machine m1) = generic_outcome (k vs m1)) \<Longrightarrow>
     pop_args n (generic_machine m) g = generic_outcome (pop_args n m k)"
  by (simp add: pop_args_def)

lemmas pops_generic = pop1_generic pop2_generic pop_args_generic

lemma finish_call_generic [simp]:
  "finish_call r loc (generic_machine m) = generic_outcome (finish_call r loc m)"
  by (simp add: finish_call_def Let_def split: prod.split)

lemma leave_frame_generic [simp]:
  "leave_frame v (generic_machine m) = generic_outcome (leave_frame v m)"
  by (cases m) (auto simp: leave_frame_def generic_machine_def mpush_def split: list.split)

lemma exec_values_generic [simp]:
  "exec_const (generic_frame f) k (generic_machine m) = generic_outcome (exec_const f k m)"
  "exec_load_local (generic_frame f) k (generic_machine m) = generic_outcome (exec_load_local f k m)"
  "exec_store_local (generic_frame f) k (generic_machine m) = generic_outcome (exec_store_local f k m)"
  by (simp_all add: exec_const_def exec_load_local_def exec_store_local_def pops_generic)

lemma exec_arith_generic [simp]:
  "exec_add loc (generic_machine m) = generic_outcome (exec_add loc m)"
  "exec_arith op loc (generic_machine m) = generic_outcome (exec_arith op loc m)"
  "exec_neg loc (generic_machine m) = generic_outcome (exec_neg loc m)"
  "exec_equal b (generic_machine m) = generic_outcome (exec_equal b m)"
  "exec_compare op loc (generic_machine m) = generic_outcome (exec_compare op loc m)"
  unfolding exec_add_def exec_arith_def exec_neg_def exec_equal_def exec_compare_def Let_def
  by (intro pops_generic; simp add: exec_mod_def exec_div_def split: hval.split option.split)+

lemma exec_int_generic [simp]:
  "exec_int op loc (generic_machine m) = generic_outcome (exec_int op loc m)"
  by (simp add: exec_int_def split: list.split hval.split)

lemma exec_jumps_generic [simp]:
  "exec_jump t loc (generic_machine m) = generic_outcome (exec_jump t loc m)"
  "exec_jump_if_false t (generic_machine m) = generic_outcome (exec_jump_if_false t m)"
  "exec_jump_peek b t (generic_machine m) = generic_outcome (exec_jump_peek b t m)"
  by (cases "frames m"; simp add: exec_jump_def Let_def)
    (simp_all add: exec_jump_if_false_def exec_jump_peek_def pops_generic)

lemma exec_containers_generic [simp]:
  "exec_make_list n (generic_machine m) = generic_outcome (exec_make_list n m)"
  "exec_make_dict n loc (generic_machine m) = generic_outcome (exec_make_dict n loc m)"
  "exec_get_index loc (generic_machine m) = generic_outcome (exec_get_index loc m)"
  "exec_set_index loc (generic_machine m) = generic_outcome (exec_set_index loc m)"
  "exec_iter_list loc (generic_machine m) = generic_outcome (exec_iter_list loc m)"
  unfolding exec_make_list_def exec_make_dict_def exec_get_index_def exec_set_index_def exec_iter_list_def Let_def
  by (intro pops_generic; simp split: hval.split sum.split)+

lemma exec_members_generic [simp]:
  "exec_get_member (generic_chunk c) k loc (generic_machine m) = generic_outcome (exec_get_member c k loc m)"
  "exec_set_member (generic_chunk c) k loc (generic_machine m) = generic_outcome (exec_set_member c k loc m)"
  unfolding exec_get_member_def exec_set_member_def
  by (intro pops_generic; simp split: hval.split option.split)+

lemma call_frame_generic:
  "\<lparr>f_chunk = generic_chunk c, f_pc = p, locals_base = l, stack_base = s\<rparr> =
   generic_frame \<lparr>f_chunk = c, f_pc = p, locals_base = l, stack_base = s\<rparr>"
  by (simp add: generic_frame_def)

lemma exec_calls_generic [simp]:
  "exec_call_function k loc (generic_machine m) = generic_outcome (exec_call_function k loc m)"
  "exec_call_method N (generic_chunk c) k loc (generic_machine m) = generic_outcome (exec_call_method N c k loc m)"
  "exec_call_native N k loc (generic_machine m) = generic_outcome (exec_call_native N k loc m)"
  "exec_call_async k (generic_machine m) = generic_outcome (exec_call_async k m)"
  unfolding exec_call_function_def exec_call_method_def exec_call_native_def exec_call_async_def Let_def
     apply (simp split: option.split)
     apply (intro allI impI pops_generic)
     apply (simp add: call_frame_generic flip: list.map)
  by (intro pops_generic; simp split: option.split)+

lemma exec_op_generic:
  "exec_op op N (generic_frame f) k loc (generic_machine m) = generic_outcome (exec_op op N f k loc m)"
  by (cases op) (simp_all add: pops_generic)

text \<open>The specialised instruction and its generic one do the same on every machine.\<close>

lemma sint_order:
  "sint x < sint y \<or> x = y \<longleftrightarrow> sint x \<le> sint y" "\<not> sint x < sint y \<and> x \<noteq> y \<longleftrightarrow> sint y < sint x"
  for x y :: i64
  using signed_word_eqI [of x y] by (auto simp: less_le)

lemma exec_int_same:
  "exec_int Op_AddInt loc m = exec_add loc m"
  "exec_int Op_SubInt loc m = exec_arith Op_Sub loc m"
  "exec_int Op_MulInt loc m = exec_arith Op_Mul loc m"
  "exec_int Op_LtInt loc m = exec_compare Op_Lt loc m"
  "exec_int Op_LeInt loc m = exec_compare Op_Le loc m"
  "exec_int Op_GtInt loc m = exec_compare Op_Gt loc m"
  "exec_int Op_GeInt loc m = exec_compare Op_Ge loc m"
  using sint_order
  by (auto simp: exec_int_def exec_add_def exec_arith_def exec_compare_def pop2_def pop1_def compare_vals_def
        ordered_by_def int_result_def sin_especializar_def Let_def not_less
      split: list.split hval.split)

lemma exec_op_same: "exec_op (sin_especializar op) N f k loc m = exec_op op N f k loc m"
  by (cases op) (simp_all add: sin_especializar_def exec_int_same)

lemma vm_step_generic: "vm_step N (generic_machine m) = generic_outcome (vm_step N m)"
proof (cases "frames m")
  case (Cons f fs)
  show ?thesis
  proof (cases "f_pc f < length (ch_code (f_chunk f))")
    case True
    then have "ch_code (generic_chunk (f_chunk f)) ! f_pc f =
        (ch_code (f_chunk f) ! f_pc f)\<lparr>i_op := sin_especializar (i_op (ch_code (f_chunk f) ! f_pc f))\<rparr>"
      by (simp add: generic_chunk_def)
    with True Cons show ?thesis
      by (simp add: vm_step_def Let_def exec_op_same exec_op_generic)
  qed (simp add: vm_step_def Cons)
qed (simp add: vm_step_def)

lemmas run_loop_induct = run_loop.raw_induct [rotated 1, consumes 1, case_names step]
lemmas execute_induct = execute.raw_induct [rotated 1, consumes 1, case_names step]

lemma run_loop_generic_some:
  "run_loop N m = Some r \<Longrightarrow> run_loop N (generic_machine m) = Some (generic_outcome r)"
proof (induction rule: run_loop_induct)
  case (step run N m r)
  note unfolded = run_loop.simps [of N "generic_machine m"] vm_step_generic
  show ?case
  proof (cases "vm_step N m")
    case (Running m1)
    then show ?thesis using step by (simp add: unfolded)
  qed (use step.hyps [symmetric] in \<open>simp_all add: unfolded\<close>)
qed

lemma run_loop_generic_none:
  "run_loop N g = Some r \<Longrightarrow> g = generic_machine m \<Longrightarrow> \<exists>s. run_loop N m = Some s"
proof (induction arbitrary: m rule: run_loop_induct)
  case (step run N g r)
  show ?case
    by (cases "vm_step N m"; use step in \<open>simp add: run_loop.simps [of N m] vm_step_generic\<close>; blast)
qed

lemma run_until_error_generic:
  "run_until_error N (generic_machine m) = map_option generic_outcome (run_until_error N m)"
  using run_loop_generic_some [of N "m\<lparr>steps := 0\<rparr>"]
    run_loop_generic_none [of N "generic_machine (m\<lparr>steps := 0\<rparr>)" _ "m\<lparr>steps := 0\<rparr>"]
  by (cases "run_loop N (m\<lparr>steps := 0\<rparr>)"; cases "run_loop N (generic_machine (m\<lparr>steps := 0\<rparr>))")
    (auto simp: run_until_error_def)

lemma unwind_generic:
  "unwind (map generic_frame fs) st ls = (case unwind fs st ls of (h, gs, s, l) \<Rightarrow> (h, map generic_frame gs, s, l))"
  by (induction fs st ls rule: unwind.induct) (auto simp: pc_before_def split: option.split)

lemma catch_error_generic:
  "catch_error e (generic_machine m) = map_sum generic_machine generic_machine (catch_error e m)"
  by (auto simp: catch_error_def unwind_generic Let_def split: prod.split option.split list.split)

lemma execute_generic_some:
  "execute N m = Some r \<Longrightarrow> execute N (generic_machine m) = Some (generic_outcome r)"
proof (induction rule: execute_induct)
  case (step ex N m r)
  then obtain s where s: "run_until_error N m = Some s"
    by (cases "run_until_error N m") auto
  have unfolded: "execute N (generic_machine m) =
      (case generic_outcome s of
         Failed msg loc m1 \<Rightarrow>
           (case catch_error msg m1 of Inl m2 \<Rightarrow> Some (Failed msg loc m2) | Inr m2 \<Rightarrow> execute N m2)
       | _ \<Rightarrow> Some (generic_outcome s))"
    by (simp add: execute.simps [of N "generic_machine m"] run_until_error_generic s)
  show ?case
  proof (cases s)
    case (Failed msg loc m1)
    show ?thesis
      by (cases "catch_error msg m1"; use step s Failed in \<open>simp add: unfolded catch_error_generic\<close>; fastforce)
  qed (use step s in \<open>auto simp: unfolded\<close>)
qed

lemma execute_generic_none:
  "execute N g = Some r \<Longrightarrow> g = generic_machine m \<Longrightarrow> \<exists>s. execute N m = Some s"
proof (induction arbitrary: m rule: execute_induct)
  case (step ex N g r)
  then obtain s where s: "run_until_error N m = Some s"
    by (cases "run_until_error N m") (auto simp: run_until_error_generic)
  have unfolded: "execute N m =
      (case s of
         Failed msg loc m1 \<Rightarrow>
           (case catch_error msg m1 of Inl m2 \<Rightarrow> Some (Failed msg loc m2) | Inr m2 \<Rightarrow> execute N m2)
       | _ \<Rightarrow> Some s)"
    by (simp add: execute.simps [of N m] s)
  show ?case
  proof (cases s)
    case (Failed msg loc m1)
    show ?thesis
      by (cases "catch_error msg m1";
          use step s Failed in \<open>simp add: unfolded run_until_error_generic catch_error_generic\<close>; blast)
  qed (simp_all add: unfolded)
qed

lemma execute_generic: "execute N (generic_machine m) = map_option generic_outcome (execute N m)"
  using execute_generic_some [of N m] execute_generic_none [of N "generic_machine m" _ m]
  by (cases "execute N m"; cases "execute N (generic_machine m)") auto

text \<open>C37. Running code with the specialised integer instructions is running the same code with the
  generic ones: from the start of a handler and from every resumption, with any built-in functions,
  one ends when the other does, with the same value, error or suspension, and machines that differ
  only in the instructions they hold.\<close>

theorem specialised_code_runs_as_generic:
  "start N (generic_chunk c) params (map_option (map generic_chunk) fns) h ctx =
     map_option generic_outcome (start N c params fns h ctx) \<and>
   resume N v (generic_machine m) = map_option generic_outcome (resume N v m)"
proof -
  have "vm_start (generic_chunk c) params (map_option (map generic_chunk) fns) h ctx =
      generic_machine (vm_start c params fns h ctx)"
    by (simp add: vm_start_def generic_machine_def generic_frame_def)
  then show ?thesis
    by (simp add: start_def resume_def execute_generic)
qed

section \<open>Every run ends\<close>

text \<open>The machine an outcome leaves, and the part of it that says what is left to run.\<close>

primrec outcome_machine :: "'c outcome \<Rightarrow> 'c machine option" where
  "outcome_machine (Running m) = Some m"
| "outcome_machine (Returned v m) = Some m"
| "outcome_machine (Failed e loc m) = Some m"
| "outcome_machine (Suspended i vs m) = Some m"
| "outcome_machine Trapped = None"
| "outcome_machine Hung = None"
| "outcome_machine Undefined = None"

definition control :: "'c machine \<Rightarrow> frame list \<times> chunk list option \<times> nat \<times> nat" where
  "control m = (frames m, fn_table m, steps m, length (locals m))"

lemma control_update [simp]:
  "control (m\<lparr>stack := s\<rparr>) = control m"
  "length ls = length (locals m) \<Longrightarrow> control (m\<lparr>locals := ls\<rparr>) = control m"
  "control (m\<lparr>mheap := h\<rparr>) = control m" "control (m\<lparr>mctx := c\<rparr>) = control m"
  "control (mpush v m) = control m" "control (push_list l m) = control m" "control (push_dict d m) = control m"
  by (simp_all add: control_def mpush_def push_list_def push_dict_def)

definition keeps :: "frame list \<times> chunk list option \<times> nat \<times> nat \<Rightarrow> 'c outcome \<Rightarrow> bool" where
  "keeps c r = (case outcome_machine r of None \<Rightarrow> True | Some m \<Rightarrow> control m = c)"

lemma keeps_simps [simp]:
  "keeps c (Running m) \<longleftrightarrow> control m = c" "keeps c (Returned v m) \<longleftrightarrow> control m = c"
  "keeps c (Failed e loc m) \<longleftrightarrow> control m = c" "keeps c (Suspended i vs m) \<longleftrightarrow> control m = c"
  "keeps c Trapped" "keeps c Hung" "keeps c Undefined"
  by (simp_all add: keeps_def)

lemma pop1_keeps: "(\<And>v m1. control m1 = control m \<Longrightarrow> keeps c (k v m1)) \<Longrightarrow> keeps c (pop1 m k)"
  by (simp add: pop1_def split: list.split)

lemma pop2_keeps: "(\<And>a b m1. control m1 = control m \<Longrightarrow> keeps c (k a b m1)) \<Longrightarrow> keeps c (pop2 m k)"
  by (simp add: pop2_def pop1_keeps)

lemma pop_args_keeps: "(\<And>vs m1. control m1 = control m \<Longrightarrow> keeps c (k vs m1)) \<Longrightarrow> keeps c (pop_args n m k)"
  by (simp add: pop_args_def)

lemmas pops_keep = pop1_keeps pop2_keeps pop_args_keeps

lemma exec_values_keep [simp]:
  "keeps (control m) (exec_const f k m)" "keeps (control m) (exec_load_local f k m)"
  "keeps (control m) (exec_store_local f k m)"
  by (simp_all add: exec_const_def exec_load_local_def exec_store_local_def pops_keep)

lemma exec_arith_keep [simp]:
  "keeps (control m) (exec_add loc m)" "keeps (control m) (exec_arith op loc m)"
  "keeps (control m) (exec_neg loc m)" "keeps (control m) (exec_equal b m)"
  "keeps (control m) (exec_compare op loc m)"
  unfolding exec_add_def exec_arith_def exec_neg_def exec_equal_def exec_compare_def Let_def
  by (intro pops_keep; simp add: exec_mod_def exec_div_def split: hval.split option.split)+

lemma exec_int_keep [simp]: "keeps (control m) (exec_int op loc m)"
  by (simp add: exec_int_def split: list.split hval.split)

lemma exec_containers_keep [simp]:
  "keeps (control m) (exec_make_list n m)" "keeps (control m) (exec_make_dict n loc m)"
  "keeps (control m) (exec_get_index loc m)" "keeps (control m) (exec_set_index loc m)"
  "keeps (control m) (exec_iter_list loc m)"
  "keeps (control m) (exec_get_member ch k loc m)" "keeps (control m) (exec_set_member ch k loc m)"
  unfolding exec_make_list_def exec_make_dict_def exec_get_index_def exec_set_index_def exec_iter_list_def
    exec_get_member_def exec_set_member_def Let_def
  by (intro pops_keep; simp split: hval.split sum.split option.split)+

lemma finish_call_keep [simp]: "control m = c \<Longrightarrow> keeps c (finish_call r loc m)"
  by (simp add: finish_call_def Let_def split: prod.split)

lemma exec_calls_keep [simp]:
  "keeps (control m) (exec_call_method N ch k loc m)" "keeps (control m) (exec_call_native N k loc m)"
  "keeps (control m) (exec_call_async k m)"
  unfolding exec_call_method_def exec_call_native_def exec_call_async_def
  by (intro pops_keep; simp split: option.split)+

text \<open>
  Conditional jumps go forward, as the compiler emits them; a loop is closed by an unconditional one.
\<close>

definition conditional_jumps :: "opcode list" where
  "conditional_jumps = [Op_JumpIfFalse, Op_JumpIfFalsePeek, Op_JumpIfTruePeek]"

definition chunk_forward :: "chunk \<Rightarrow> bool" where
  "chunk_forward c \<longleftrightarrow>
     list_all (\<lambda>(pc, i). i_op i \<in> set conditional_jumps \<longrightarrow> pc < i_operand i) (zip [0..<length (ch_code c)] (ch_code c))"

lemma chunk_forwardD:
  "chunk_forward c \<Longrightarrow> pc < length (ch_code c) \<Longrightarrow> i_op (ch_code c ! pc) \<in> set conditional_jumps \<Longrightarrow>
     pc < i_operand (ch_code c ! pc)"
  by (auto simp: chunk_forward_def list_all_length)

definition machine_forward :: "'c machine \<Rightarrow> bool" where
  "machine_forward m \<longleftrightarrow>
     (\<forall>f \<in> set (frames m). chunk_forward (f_chunk f)) \<and>
     (case fn_table m of None \<Rightarrow> True | Some fns \<Rightarrow> \<forall>c \<in> set fns. chunk_forward c) \<and>
     length (frames m) \<le> kMaxFrames"

text \<open>What is left to run of a frame, and of all frames when no chunk is longer than \<open>B - 2\<close>.\<close>

definition to_run :: "frame \<Rightarrow> nat" where
  "to_run f = length (ch_code (f_chunk f)) - f_pc f"

fun weight :: "nat \<Rightarrow> frame list \<Rightarrow> nat" where
  "weight B [] = 0"
| "weight B (f # fs) = weight B fs + Suc (to_run f) * B ^ (kMaxFrames - Suc (length fs))"

definition chunks_below :: "nat \<Rightarrow> 'c machine \<Rightarrow> bool" where
  "chunks_below B m \<longleftrightarrow>
     (\<forall>f \<in> set (frames m). length (ch_code (f_chunk f)) + 2 \<le> B) \<and>
     (case fn_table m of None \<Rightarrow> True | Some fns \<Rightarrow> \<forall>c \<in> set fns. length (ch_code c) + 2 \<le> B)"

definition fuel_left :: "nat \<Rightarrow> 'c machine \<Rightarrow> nat" where
  "fuel_left B m = (kStepLimit - steps m) * B ^ kMaxFrames + weight B (frames m)"

lemma weight_bound:
  assumes "\<forall>f \<in> set fs. length (ch_code (f_chunk f)) + 2 \<le> B" "length fs \<le> kMaxFrames"
  shows "weight B fs + B ^ (kMaxFrames - length fs) \<le> B ^ kMaxFrames"
  using assms
proof (induction fs)
  case (Cons f fs)
  define k where "k = kMaxFrames - Suc (length fs)"
  have k: "kMaxFrames - length fs = Suc k"
    using Cons.prems(2) by (simp add: k_def)
  have "Suc (to_run f) + 1 \<le> B"
    using Cons.prems(1) by (auto simp: to_run_def)
  then have "(Suc (to_run f) + 1) * B ^ k \<le> B * B ^ k"
    by (rule mult_le_mono1)
  moreover have "weight B fs + B * B ^ k \<le> B ^ kMaxFrames"
    using Cons by (simp add: k)
  ultimately show ?case
    by (simp add: k_def [symmetric] algebra_simps)
qed simp

definition bounded_machine :: "nat \<Rightarrow> 'c machine \<Rightarrow> bool" where
  "bounded_machine B m \<longleftrightarrow> machine_forward m \<and> chunks_below B m"

definition step_fine :: "nat \<Rightarrow> nat \<Rightarrow> 'c outcome \<Rightarrow> bool" where
  "step_fine B b r \<longleftrightarrow>
     (case outcome_machine r of None \<Rightarrow> True | Some m \<Rightarrow> bounded_machine B m) \<and>
     (case r of Running m \<Rightarrow> steps m \<le> kStepLimit \<and> fuel_left B m < b | _ \<Rightarrow> True)"

lemma step_fine_simps [simp]:
  "step_fine B b (Running m) \<longleftrightarrow> bounded_machine B m \<and> steps m \<le> kStepLimit \<and> fuel_left B m < b"
  "step_fine B b (Returned v m) \<longleftrightarrow> bounded_machine B m"
  "step_fine B b (Failed e loc m) \<longleftrightarrow> bounded_machine B m"
  "step_fine B b (Suspended i vs m) \<longleftrightarrow> bounded_machine B m"
  "step_fine B b Trapped" "step_fine B b Hung" "step_fine B b Undefined"
  by (simp_all add: step_fine_def)

lemma bounded_control: "control m = control m1 \<Longrightarrow> bounded_machine B m = bounded_machine B m1"
  by (simp add: bounded_machine_def machine_forward_def chunks_below_def control_def)

lemma fuel_control: "control m = control m1 \<Longrightarrow> fuel_left B m = fuel_left B m1"
  by (simp add: fuel_left_def control_def)

lemma steps_control: "control m = control m1 \<Longrightarrow> steps m = steps m1"
  by (simp add: control_def)

lemma bounded_steps [simp]: "bounded_machine B (m\<lparr>steps := n\<rparr>) = bounded_machine B m"
  by (simp add: bounded_machine_def machine_forward_def chunks_below_def)

lemma kept_step_fine:
  assumes "keeps (control m) r" "bounded_machine B m" "steps m \<le> kStepLimit" "fuel_left B m < b"
  shows "step_fine B b r"
proof (cases r)
  case (Running m1)
  with assms(1) have same: "control m1 = control m"
    by simp
  with assms Running show ?thesis
    by (simp add: bounded_control [OF same] fuel_control [OF same] steps_control [OF same])
qed (use assms bounded_control [of _ m B] in auto)

lemma set_pc_frames:
  "frames m = f # fs \<Longrightarrow> frames (set_pc t m) = f\<lparr>f_pc := t\<rparr> # fs"
  "fn_table (set_pc t m) = fn_table m" "steps (set_pc t m) = steps m"
  by (simp_all add: set_pc_def split: list.split)

lemma set_pc_bounded [simp]: "bounded_machine B (set_pc t m) = bounded_machine B m"
  by (cases "frames m")
    (simp_all add: bounded_machine_def machine_forward_def chunks_below_def set_pc_def)

lemma set_pc_fuel:
  assumes "frames m = f # fs" "f_pc f \<le> t"
  shows "fuel_left B (set_pc t m) \<le> fuel_left B m"
proof -
  have "to_run (f\<lparr>f_pc := t\<rparr>) \<le> to_run f"
    using assms(2) by (simp add: to_run_def)
  then show ?thesis
    by (simp add: fuel_left_def assms(1) set_pc_frames add_mono)
qed

lemma fuel_positive:
  assumes "bounded_machine B m" "frames m = f # fs"
  shows "0 < B ^ k"
  using assms by (auto simp: bounded_machine_def chunks_below_def)

lemma fetch_fuel:
  assumes "bounded_machine B m" "frames m = f # fs" "f_pc f < length (ch_code (f_chunk f))"
  shows "fuel_left B (set_pc (f_pc f + 1) m) + B ^ (kMaxFrames - length (frames m)) \<le> fuel_left B m"
proof -
  have "Suc (to_run (f\<lparr>f_pc := f_pc f + 1\<rparr>)) = to_run f"
    using assms(3) by (simp add: to_run_def)
  then show ?thesis
    by (simp add: fuel_left_def set_pc_frames(2,3) set_pc_frames(1) [OF assms(2)] assms(2) algebra_simps)
qed

lemma weight_less:
  assumes "bounded_machine B m" "frames m = f # fs"
  shows "weight B (frames m) < B ^ kMaxFrames"
proof -
  have "weight B (frames m) + B ^ (kMaxFrames - length (frames m)) \<le> B ^ kMaxFrames"
    using assms(1) by (intro weight_bound) (auto simp: bounded_machine_def machine_forward_def chunks_below_def)
  with fuel_positive [OF assms, of "kMaxFrames - length (frames m)"] show ?thesis
    by linarith
qed

lemma exec_jump_fine:
  assumes "bounded_machine B m" "steps m \<le> kStepLimit" "fuel_left B m < b"
  shows "step_fine B b (exec_jump t loc m)"
proof (cases "frames m")
  case (Cons f fs)
  show ?thesis
  proof (cases "t \<le> f_pc f \<and> Suc (steps m) \<le> kStepLimit")
    case True
    define m1 where "m1 = set_pc t (m\<lparr>steps := steps m + 1\<rparr>)"
    have fr: "frames m1 = f\<lparr>f_pc := t\<rparr> # fs" "steps m1 = Suc (steps m)"
      using Cons by (simp_all add: m1_def set_pc_def)
    have bounded: "bounded_machine B m1"
      using assms(1) by (simp add: m1_def)
    then have "weight B (frames m1) < B ^ kMaxFrames"
      using fr(1) by (rule weight_less)
    moreover have "kStepLimit - steps m = Suc (kStepLimit - steps m1)"
      using True fr(2) by (simp add: Suc_diff_Suc Suc_le_eq)
    ultimately have "fuel_left B m1 < fuel_left B m"
      by (simp add: fuel_left_def)
    with True Cons bounded fr assms show ?thesis
      by (simp add: exec_jump_def m1_def)
  next
    case False
    then show ?thesis
      using assms Cons set_pc_fuel [of m f fs t B] by (auto simp: exec_jump_def Let_def set_pc_frames)
  qed
qed (simp add: exec_jump_def)

lemma conditional_fine:
  assumes "bounded_machine B m" "steps m \<le> kStepLimit" "fuel_left B m < b" "frames m = f # fs" "f_pc f \<le> t"
  shows "step_fine B b (exec_jump_if_false t m)" "step_fine B b (exec_jump_peek s t m)"
proof -
  have stack: "bounded_machine B (m\<lparr>stack := st\<rparr>)" "fuel_left B (m\<lparr>stack := st\<rparr>) = fuel_left B m" for st
    using assms(1) bounded_control [of "m\<lparr>stack := st\<rparr>" m B] fuel_control [of "m\<lparr>stack := st\<rparr>" m B]
    by simp_all
  have jump: "fuel_left B (set_pc t (m\<lparr>stack := st\<rparr>)) < b" for st
    using set_pc_fuel [of "m\<lparr>stack := st\<rparr>" f fs t B] assms by (simp add: stack)
  have "fuel_left B (set_pc t m) < b"
    using jump [of "stack m"] by simp
  then show "step_fine B b (exec_jump_if_false t m)" "step_fine B b (exec_jump_peek s t m)"
    using assms stack jump
    by (auto simp: exec_jump_if_false_def exec_jump_peek_def pop1_def set_pc_frames split: list.split)
qed

lemma leave_frame_fine:
  assumes "bounded_machine B m" "steps m \<le> kStepLimit" "fuel_left B m \<le> b"
  shows "step_fine B b (leave_frame v m)"
proof (cases "frames m")
  case (Cons f fs)
  have B: "0 < B ^ k" for k
    using fuel_positive [OF assms(1) Cons] .
  show ?thesis
  proof (cases fs)
    case Nil
    with Cons assms(1) show ?thesis
      by (simp add: leave_frame_def bounded_machine_def machine_forward_def chunks_below_def)
  next
    case (Cons g gs)
    have "weight B fs < weight B (f # fs)"
      using B [of "kMaxFrames - Suc (length fs)"] by simp
    with assms(3) \<open>frames m = f # fs\<close> have "(kStepLimit - steps m) * B ^ kMaxFrames + weight B fs < b"
      by (simp add: fuel_left_def del: weight.simps)
    with assms \<open>frames m = f # fs\<close> Cons show ?thesis
      by (simp add: leave_frame_def bounded_machine_def machine_forward_def chunks_below_def mpush_def fuel_left_def
          del: weight.simps)
  qed
qed (simp add: leave_frame_def)

lemma exec_call_function_fine:
  assumes "bounded_machine B m" "steps m \<le> kStepLimit" "frames m \<noteq> []"
    "fuel_left B m + B ^ (kMaxFrames - length (frames m)) \<le> b"
  shows "step_fine B b (exec_call_function k loc m)"
proof -
  consider "fn_table m = None \<or> (\<exists>fns. fn_table m = Some fns \<and> length fns \<le> k div 256) \<or> kMaxFrames \<le> length (frames m)"
    | fns where "fn_table m = Some fns" "k div 256 < length fns" "length (frames m) < kMaxFrames"
    by (cases "fn_table m") (auto simp: not_less [symmetric])
  then show ?thesis
  proof cases
    case 1
    with assms(1) show ?thesis
      by (auto simp: exec_call_function_def Let_def split: option.split)
  next
    case 2
    define c where "c = fns ! (k div 256)"
    define n where "n = kMaxFrames - Suc (length (frames m))"
    have "c \<in> set fns"
      using 2(2) by (simp add: c_def)
    with assms(1) 2(1) have c: "chunk_forward c" "length (ch_code c) + 2 \<le> B"
      by (auto simp: bounded_machine_def machine_forward_def chunks_below_def)
    have n: "kMaxFrames - length (frames m) = Suc n"
      using 2(3) by (simp add: n_def)
    have "Suc (length (ch_code c)) * B ^ n < B * B ^ n"
      using c(2) by (intro mult_less_mono1) auto
    with assms(4) have fuel: "(kStepLimit - steps m) * B ^ kMaxFrames + (weight B (frames m) + Suc (length (ch_code c)) * B ^ n) < b"
      by (simp add: n fuel_left_def)
    show ?thesis
      using assms(1,2) 2 c fuel
      by (simp add: exec_call_function_def Let_def pop_args_def c_def [symmetric] bounded_machine_def
          machine_forward_def chunks_below_def fuel_left_def to_run_def n_def)
  qed
qed

lemma exec_op_fine:
  assumes "bounded_machine B m" "steps m \<le> kStepLimit" "frames m = f # fs"
    "fuel_left B m + B ^ (kMaxFrames - length (frames m)) \<le> b"
    "op \<in> set conditional_jumps \<Longrightarrow> f_pc f \<le> k"
  shows "step_fine B b (exec_op op N g k loc m)"
proof -
  have less: "fuel_left B m < b"
    using assms(4) fuel_positive [OF assms(1,3), of "kMaxFrames - length (frames m)"] by linarith
  note kept = kept_step_fine [OF _ assms(1,2) less]
  have popped: "step_fine B b (pop1 m (\<lambda>v m1. leave_frame v m1))"
  proof (cases "stack m")
    case (Cons v st)
    have same: "control (m\<lparr>stack := st\<rparr>) = control m"
      by simp
    show ?thesis
      using assms(1,2) less
      by (simp add: pop1_def Cons leave_frame_fine bounded_control [OF same] fuel_control [OF same] steps_control [OF same])
  qed (simp add: pop1_def)
  show ?thesis
  proof (cases op)
    case Op_JumpIfFalse
    with assms less show ?thesis by (simp add: conditional_jumps_def conditional_fine)
  next
    case Op_JumpIfFalsePeek
    with assms less show ?thesis by (simp add: conditional_jumps_def conditional_fine)
  next
    case Op_JumpIfTruePeek
    with assms less show ?thesis by (simp add: conditional_jumps_def conditional_fine)
  next
    case Op_Jump
    with assms less show ?thesis by (simp add: exec_jump_fine)
  next
    case Op_CallFunction
    with assms show ?thesis by (simp add: exec_call_function_fine)
  next
    case Op_Return
    with popped show ?thesis by simp
  next
    case Op_ReturnNull
    with assms less show ?thesis by (simp add: leave_frame_fine)
  qed (simp_all add: kept pop1_keeps)
qed

lemma vm_step_fine:
  assumes "bounded_machine B m" "steps m \<le> kStepLimit"
  shows "step_fine B (fuel_left B m) (vm_step N m)"
proof (cases "frames m")
  case (Cons f fs)
  define i where "i = ch_code (f_chunk f) ! f_pc f"
  define m1 where "m1 = set_pc (f_pc f + 1) m"
  show ?thesis
  proof (cases "f_pc f < length (ch_code (f_chunk f))")
    case True
    have "chunk_forward (f_chunk f)"
      using assms(1) Cons by (simp add: bounded_machine_def machine_forward_def)
    then have "i_op i \<in> set conditional_jumps \<Longrightarrow> f_pc f + 1 \<le> i_operand i"
      using chunk_forwardD True by (fastforce simp: i_def)
    moreover have "frames m1 = f\<lparr>f_pc := f_pc f + 1\<rparr> # fs" "steps m1 = steps m" "bounded_machine B m1"
      using assms(1) Cons by (simp_all add: m1_def set_pc_frames(2,3) set_pc_frames(1) [OF Cons])
    moreover have "fuel_left B m1 + B ^ (kMaxFrames - length (frames m1)) \<le> fuel_left B m"
      using fetch_fuel [OF assms(1) Cons True] Cons by (simp add: m1_def set_pc_frames(1) [OF Cons])
    ultimately have "step_fine B (fuel_left B m) (exec_op (i_op i) N f (i_operand i) (i_loc i) m1)"
      using assms(2) by (intro exec_op_fine) auto
    with True show ?thesis
      by (simp add: vm_step_def Cons Let_def i_def m1_def)
  qed (use assms in \<open>simp add: vm_step_def Cons leave_frame_fine\<close>)
qed (use assms in \<open>simp add: vm_step_def\<close>)

lemma run_loop_ends:
  assumes "bounded_machine B m" "steps m \<le> kStepLimit"
  shows "\<exists>r. run_loop N m = Some r \<and> (\<forall>m1. r \<noteq> Running m1) \<and> step_fine B b r"
  using assms
proof (induction "fuel_left B m" arbitrary: m rule: less_induct)
  case less
  note fine = vm_step_fine [OF less.prems, of N]
  show ?case
  proof (cases "vm_step N m")
    case (Running m1)
    with fine have "bounded_machine B m1" "steps m1 \<le> kStepLimit" "fuel_left B m1 < fuel_left B m"
      by simp_all
    with less.hyps [of m1] Running show ?thesis
      by (simp add: run_loop.simps [of N m])
  qed (use fine in \<open>simp_all add: run_loop.simps [of N m]\<close>)
qed

lemma bound_exists: "machine_forward m \<Longrightarrow> \<exists>B. bounded_machine B m"
proof -
  assume m: "machine_forward m"
  define cs where "cs = map f_chunk (frames m) @ (case fn_table m of None \<Rightarrow> [] | Some fns \<Rightarrow> fns)"
  define B where "B = sum_list (map (\<lambda>c. length (ch_code c)) cs) + 2"
  have "length (ch_code c) + 2 \<le> B" if "c \<in> set cs" for c
    using that member_le_sum_list [of "length (ch_code c)" "map (\<lambda>c. length (ch_code c)) cs"] by (simp add: B_def)
  with m have "bounded_machine B m"
    by (auto simp: bounded_machine_def chunks_below_def cs_def split: option.split)
  then show ?thesis ..
qed


text \<open>\<open>while true\<close>, a jump to itself.\<close>

definition spin_chunk :: chunk where
  "spin_chunk =
     \<lparr>ch_code = [\<lparr>i_op = Op_Jump, i_operand = 0, i_loc = Loc 1 1\<rparr>], ch_constants = [], ch_try = [],
      num_locals = 1, has_await = False, local_names = [''x'']\<rparr>"


section \<open>The local slots of nested calls\<close>

text \<open>
  Everything a handler can come to: after its start, a step, an error that is caught, and a
  suspension the driver resumes with any value.
\<close>

inductive vm_live :: "'c natives \<Rightarrow> 'c machine \<Rightarrow> bool" for N where
  live_start: "vm_live N (vm_start c params fns h ctx)"
| live_step: "vm_live N m \<Longrightarrow> vm_step N m = Running m1 \<Longrightarrow> vm_live N m1"
| live_catch: "vm_live N m \<Longrightarrow> vm_step N m = Failed e loc m1 \<Longrightarrow> catch_error e m1 = Inr m2 \<Longrightarrow>
     vm_live N (m2\<lparr>steps := 0\<rparr>)"
| live_resume: "vm_live N m \<Longrightarrow> vm_step N m = Suspended i vs m1 \<Longrightarrow> vm_live N ((mpush v m1)\<lparr>steps := 0\<rparr>)"

text \<open>The frames tile the vector of locals: each starts where the one below it ends.\<close>

fun slots_tiled :: "frame list \<Rightarrow> nat \<Rightarrow> bool" where
  "slots_tiled [] n = True"
| "slots_tiled (f # fs) n = (locals_base f + num_locals (f_chunk f) = n \<and> slots_tiled fs (locals_base f))"

definition frames_ok :: "'c machine \<Rightarrow> bool" where
  "frames_ok m \<longleftrightarrow> slots_tiled (frames m) (length (locals m)) \<and> length (frames m) \<le> kMaxFrames"

definition result_ok :: "'c outcome \<Rightarrow> bool" where
  "result_ok r = (case outcome_machine r of None \<Rightarrow> True | Some m \<Rightarrow> frames_ok m)"

lemma result_ok_simps [simp]:
  "result_ok (Running m) = frames_ok m" "result_ok (Returned v m) = frames_ok m"
  "result_ok (Failed e loc m) = frames_ok m" "result_ok (Suspended i vs m) = frames_ok m"
  "result_ok Trapped" "result_ok Hung" "result_ok Undefined"
  by (simp_all add: result_ok_def)

lemma kept_result_ok: "keeps (control m) r \<Longrightarrow> frames_ok m \<Longrightarrow> result_ok r"
  by (auto simp: keeps_def result_ok_def frames_ok_def control_def split: option.splits)

lemma frames_ok_updates [simp]:
  "frames_ok (m\<lparr>steps := n\<rparr>) = frames_ok m" "frames_ok (m\<lparr>stack := st\<rparr>) = frames_ok m"
  "frames_ok (mpush v m) = frames_ok m" "frames_ok (push_dict d m) = frames_ok m"
  by (simp_all add: frames_ok_def mpush_def push_dict_def)

lemma set_pc_frames_ok [simp]: "frames_ok (set_pc t m) = frames_ok m"
  by (cases "frames m") (simp_all add: frames_ok_def set_pc_def)

lemma length_locals_resize [simp]: "length (locals_resize n ls) = n"
  by (simp add: locals_resize_def)

lemma leave_frame_ok: "frames_ok m \<Longrightarrow> result_ok (leave_frame v m)"
  by (auto simp: leave_frame_def frames_ok_def mpush_def split: list.split)

lemma jumps_ok:
  "frames_ok m \<Longrightarrow> result_ok (exec_jump t loc m)" "frames_ok m \<Longrightarrow> result_ok (exec_jump_if_false t m)"
  "frames_ok m \<Longrightarrow> result_ok (exec_jump_peek b t m)"
  by (simp_all add: exec_jump_def exec_jump_if_false_def exec_jump_peek_def pop1_def Let_def split: list.split)

lemma call_function_ok: "frames_ok m \<Longrightarrow> result_ok (exec_call_function k loc m)"
  by (auto simp: exec_call_function_def Let_def pop_args_def frames_ok_def split: option.split)

lemma exec_op_ok: "frames_ok m \<Longrightarrow> result_ok (exec_op op N f k loc m)"
proof -
  assume ok: "frames_ok m"
  then have popped: "result_ok (pop1 m (\<lambda>v m1. leave_frame v m1))"
    by (auto simp: pop1_def leave_frame_ok split: list.split)
  note kept = kept_result_ok [OF _ ok]
  show ?thesis
    by (cases op) (simp_all add: kept pop1_keeps popped leave_frame_ok jumps_ok call_function_ok ok)
qed

lemma vm_step_ok: "frames_ok m \<Longrightarrow> result_ok (vm_step N m)"
  by (simp add: vm_step_def leave_frame_ok exec_op_ok Let_def split: list.split)

lemma unwind_ok:
  "slots_tiled fs (length ls) \<Longrightarrow> unwind fs st ls = (h, gs, s, l) \<Longrightarrow> slots_tiled gs (length l) \<and> length gs \<le> length fs"
  by (induction fs st ls rule: unwind.induct) (auto split: option.splits)

lemma catch_error_ok:
  assumes "catch_error e m = Inr m1" "frames_ok m"
  shows "frames_ok m1"
proof -
  obtain h fs st ls where u: "unwind (frames m) (stack m) (locals m) = (h, fs, st, ls)"
    by (metis prod_cases4)
  with assms(2) have "slots_tiled fs (length ls)" "length fs \<le> kMaxFrames"
    using unwind_ok [OF _ u] by (auto simp: frames_ok_def)
  then have "frames_ok (m\<lparr>frames := fs, stack := s, locals := ls\<rparr>)" for s
    by (simp add: frames_ok_def)
  with assms(1) show ?thesis
    by (auto simp: catch_error_def u Let_def split: option.splits)
qed

lemma live_frames_ok: "vm_live N m \<Longrightarrow> frames_ok m"
proof (induction rule: vm_live.induct)
  case (live_start c params fns h ctx)
  then show ?case
    by (simp add: frames_ok_def vm_start_def kMaxFrames_def min_def)
next
  case (live_step m m1)
  then show ?case
    using vm_step_ok [of m N] by simp
next
  case (live_catch m e loc m1 m2)
  then show ?case
    using vm_step_ok [of m N] catch_error_ok [of e m1 m2] by simp
next
  case (live_resume m i vs m1 v)
  then show ?case
    using vm_step_ok [of m N] by simp
qed

text \<open>C39. Calls keep their local variables apart and in place: in whatever a handler comes to,
  through calls, returns, caught errors and suspensions, the frames tile the vector of locals and are at
  most kMaxFrames, so that reading or writing a declared slot of the function that runs is never out
  of bounds, and a write leaves the slots of every other call as they were.\<close>

theorem call_slots_safe:
  assumes "vm_live N m" "frames m = f # fs" "k < num_locals (f_chunk f)"
  shows "slots_tiled (frames m) (length (locals m)) \<and> length (frames m) \<le> kMaxFrames \<and>
         exec_load_local f k m = Running (mpush (locals m ! (locals_base f + k)) m) \<and>
         (\<forall>v st. stack m = v # st \<longrightarrow>
            (\<exists>m1. exec_store_local f k m = Running m1 \<and> stack m1 = st \<and>
                  locals m1 ! (locals_base f + k) = v \<and>
                  take (locals_base f) (locals m1) = take (locals_base f) (locals m)))"
  using live_frames_ok [OF assms(1)] assms(2,3)
  by (auto simp: frames_ok_def exec_load_local_def exec_store_local_def pop1_def)

lemma call_slots_safe_witness:
  "exec_load_local \<lparr>f_chunk = spin_chunk, f_pc = 0, locals_base = 0, stack_base = 0\<rparr> 0
     (vm_start spin_chunk [HInt 7] None [] ()) = Running (mpush (HInt 7) (vm_start spin_chunk [HInt 7] None [] ()))"
proof -
  have live: "vm_live \<lparr>native_fn = \<lambda>_. None, native_method = \<lambda>h c _ _ _. (h, c, HNull, [])\<rparr>
      (vm_start spin_chunk [HInt 7] None [] ())"
    by (rule live_start)
  show ?thesis
    using call_slots_safe [OF live, of "\<lparr>f_chunk = spin_chunk, f_pc = 0, locals_base = 0, stack_base = 0\<rparr>" "[]" 0]
    by (simp add: vm_start_def spin_chunk_def)
qed

section \<open>A loop the step limit does not stop\<close>

text \<open>
  The code of
  \<open>while true: try: 1 / 0 catch: pass\<close>: the error of every round is caught, and the run that
  follows counts its steps from zero again.
\<close>

definition retry_chunk :: chunk where
  "retry_chunk =
     \<lparr>ch_code = map (\<lambda>(op, k). \<lparr>i_op = op, i_operand = k, i_loc = Loc 1 1\<rparr>)
        [(Op_Const, 0), (Op_JumpIfFalse, 9), (Op_Const, 1), (Op_Const, 2), (Op_Div, 0), (Op_Pop, 0),
         (Op_Jump, 8), (Op_Pop, 0), (Op_Jump, 0), (Op_ReturnNull, 0)],
      ch_constants = [HBool True, HInt 1, HInt 0],
      ch_try = [\<lparr>tr_begin = 2, tr_end = 6, catch_pc = 7\<rparr>], num_locals = 0, has_await = False, local_names = []\<rparr>"

definition retry_frame :: "nat \<Rightarrow> frame" where
  "retry_frame pc = \<lparr>f_chunk = retry_chunk, f_pc = pc, locals_base = 0, stack_base = 0\<rparr>"

definition retry_machine :: "nat \<Rightarrow> hval list \<Rightarrow> heap \<Rightarrow> 'c \<Rightarrow> nat \<Rightarrow> 'c machine" where
  "retry_machine pc st h c n =
     \<lparr>frames = [retry_frame pc], stack = st, locals = [], fn_table = None, mheap = h, mctx = c, steps = n\<rparr>"

lemma zero_int_is_zero: "f64_zero (f64_of_int 0)"
  by (simp add: f64_of_int_def f64_round_def f64_pack_def f64_zero_def f64_exp_def f64_frac_def)

lemmas retry_defs = vm_step_def retry_machine_def retry_frame_def retry_chunk_def Let_def exec_const_def
  mpush_def set_pc_def exec_jump_if_false_def pop1_def pop2_def h_truthy_def exec_arith_def
  sin_especializar_def exec_div_def exec_jump_def

lemma retry_step:
  "vm_step N (retry_machine 0 st h c n) = Running (retry_machine 1 (HBool True # st) h c n)"
  "vm_step N (retry_machine 1 (HBool True # st) h c n) = Running (retry_machine 2 st h c n)"
  "vm_step N (retry_machine 2 st h c n) = Running (retry_machine 3 (HInt 1 # st) h c n)"
  "vm_step N (retry_machine 3 st h c n) = Running (retry_machine 4 (HInt 0 # st) h c n)"
  "vm_step N (retry_machine 4 (HInt 0 # HInt 1 # st) h c n) =
     Failed ''division por cero'' (Loc 1 1) (retry_machine 5 st h c n)"
  "vm_step N (retry_machine 7 (v # st) h c n) = Running (retry_machine 8 st h c n)"
  "n < kStepLimit \<Longrightarrow> vm_step N (retry_machine 8 st h c n) = Running (retry_machine 0 st h c (n + 1))"
  by (simp_all add: retry_defs zero_int_is_zero)

lemma retry_round:
  "run_loop N (retry_machine 0 [] h c n) =
     Some (Failed ''division por cero'' (Loc 1 1) (retry_machine 5 [] h c n))"
  by (subst run_loop.simps, simp add: retry_step del: One_nat_def)+

lemma retry_again:
  "run_loop N (retry_machine 7 [v] h c 0) =
     Some (Failed ''division por cero'' (Loc 1 1) (retry_machine 5 [] h c 1))"
  by (subst run_loop.simps, simp add: retry_step, subst run_loop.simps)
    (simp add: retry_step kStepLimit_def retry_round)

lemma retry_caught:
  "\<exists>v g. catch_error e (retry_machine 5 [] h c n) = Inr (retry_machine 7 [v] g c n)"
  by (simp add: catch_error_def retry_machine_def retry_frame_def retry_chunk_def find_handler_def covers_def
      pc_before_def set_pc_def push_dict_def mpush_def stack_resize_def)

definition retrying :: "'c machine \<Rightarrow> bool" where
  "retrying m \<longleftrightarrow> (\<exists>h c n. m = retry_machine 0 [] h c n) \<or> (\<exists>v h c n. m = retry_machine 7 [v] h c n)"

lemma retrying_round:
  assumes "retrying m"
  obtains h c n where "run_until_error N m =
    Some (Failed ''division por cero'' (Loc 1 1) (retry_machine 5 [] h c n))"
proof -
  have reset: "(retry_machine pc st h c n)\<lparr>steps := 0\<rparr> = retry_machine pc st h c 0" for pc st h n and c :: 'a
    by (simp add: retry_machine_def)
  show ?thesis
    using assms that unfolding retrying_def run_until_error_def
    by (auto simp: reset retry_round retry_again)
qed

lemma retrying_never_ends: "execute N m = Some r \<Longrightarrow> \<not> retrying m"
proof (induction rule: execute_induct)
  case (step ex N m r)
  show ?case
  proof
    assume "retrying m"
    then obtain h c n where round: "run_until_error N m =
        Some (Failed ''division por cero'' (Loc 1 1) (retry_machine 5 [] h c n))"
      by (rule retrying_round)
    obtain v g where caught: "catch_error ''division por cero'' (retry_machine 5 [] h c n) = Inr (retry_machine 7 [v] g c n)"
      using retry_caught [of "''division por cero''" h c n] by auto
    from step.hyps round caught have "ex N (retry_machine 7 [v] g c n) = Some r"
      by simp
    then have "\<not> retrying (retry_machine 7 [v] g c n)"
      by (rule step.IH)
    then show False
      unfolding retrying_def by blast
  qed
qed

text \<open>C40. The step limit does not bound a handler: the loop that raises an error inside a try
  in every round is well formed and each of its runs ends, but the execution, which starts the count
  of steps afresh after every error it catches, never does, whatever the built-in functions.\<close>

theorem retry_loop_never_ends:
  "machine_forward (vm_start retry_chunk [] None h c) \<and> start N retry_chunk [] None h c = None"
proof
  show "machine_forward (vm_start retry_chunk [] None h c)"
    by (simp add: machine_forward_def vm_start_def chunk_forward_def conditional_jumps_def retry_chunk_def kMaxFrames_def)
  have "vm_start retry_chunk [] None h c = retry_machine 0 [] h c 0"
    by (simp add: vm_start_def retry_machine_def retry_frame_def retry_chunk_def)
  then have "retrying (vm_start retry_chunk [] None h c)"
    by (auto simp: retrying_def)
  then show "start N retry_chunk [] None h c = None"
    unfolding start_def using retrying_never_ends by (cases "execute N (vm_start retry_chunk [] None h c)") auto
qed

end
