(* ===== verification/CodeTypes.thy ===== *)
theory CodeTypes
  imports VmRuns NativeTable
begin

text \<open>
  A discipline of bytecode: every instruction has a height of the operand stack above the base of
  its frame, the same on every way to it; operands are in range.
\<close>

section \<open>Heights\<close>

text \<open>The values an instruction takes and leaves.\<close>

primrec effect :: "opcode \<Rightarrow> nat \<Rightarrow> nat \<times> nat" where
  "effect Op_Const k = (0, 1)" | "effect Op_LoadLocal k = (0, 1)" | "effect Op_StoreLocal k = (1, 0)"
| "effect Op_Pop k = (1, 0)" | "effect Op_Add k = (2, 1)" | "effect Op_Sub k = (2, 1)" | "effect Op_Mul k = (2, 1)"
| "effect Op_Div k = (2, 1)" | "effect Op_Mod k = (2, 1)" | "effect Op_Neg k = (1, 1)" | "effect Op_Eq k = (2, 1)"
| "effect Op_Ne k = (2, 1)" | "effect Op_Lt k = (2, 1)" | "effect Op_Le k = (2, 1)" | "effect Op_Gt k = (2, 1)"
| "effect Op_Ge k = (2, 1)" | "effect Op_Not k = (1, 1)" | "effect Op_AddInt k = (2, 1)" | "effect Op_SubInt k = (2, 1)"
| "effect Op_MulInt k = (2, 1)" | "effect Op_LtInt k = (2, 1)" | "effect Op_LeInt k = (2, 1)"
| "effect Op_GtInt k = (2, 1)" | "effect Op_GeInt k = (2, 1)" | "effect Op_Jump k = (0, 0)"
| "effect Op_JumpIfFalse k = (1, 0)" | "effect Op_JumpIfFalsePeek k = (1, 0)" | "effect Op_JumpIfTruePeek k = (1, 0)"
| "effect Op_MakeList k = (k, 1)" | "effect Op_MakeDict k = (2 * k, 1)" | "effect Op_GetIndex k = (2, 1)"
| "effect Op_SetIndex k = (3, 1)" | "effect Op_IterList k = (1, 1)" | "effect Op_GetMember k = (1, 1)"
| "effect Op_SetMember k = (2, 1)" | "effect Op_CallFunction k = (k mod 256, 1)"
| "effect Op_CallMethod k = (k mod 256 + 1, 1)" | "effect Op_CallNative k = (k mod 256, 1)"
| "effect Op_CallAsync k = (k mod 256, 1)" | "effect Op_Return k = (1, 0)" | "effect Op_ReturnNull k = (0, 0)"

definition jumps :: "opcode list" where
  "jumps = Op_Jump # conditional_jumps"

definition after_op :: "opcode \<Rightarrow> nat \<Rightarrow> nat \<Rightarrow> nat" where
  "after_op op k n = n - fst (effect op k) + snd (effect op k)"

text \<open>The height where a jump is taken.\<close>

definition taken :: "opcode \<Rightarrow> nat \<Rightarrow> nat" where
  "taken op n = (if op = Op_JumpIfFalse then n - 1 else n)"

definition is_str_const :: "chunk \<Rightarrow> nat \<Rightarrow> bool" where
  "is_str_const c k \<longleftrightarrow> const_str c k \<noteq> None"

text \<open>
  The one suspending function code may call without suspending: \<open>ws.recv\<close> read as a member.
\<close>

definition ws_recv :: nat where "ws_recv = 41"

lemma ws_recv_id: "native_id ''__ws_recv'' = Some ws_recv"
  unfolding ws_recv_def by code_simp

definition direct_native :: "nat \<Rightarrow> bool" where
  "direct_native i \<longleftrightarrow> i < length kNatives \<and> (is_async (native_at i) \<longrightarrow> i = ws_recv)"

text \<open>\<open>S i n\<close>: function \<open>i\<close> may be called with \<open>n\<close> arguments.\<close>

definition operand_ok :: "(nat \<Rightarrow> nat \<Rightarrow> bool) \<Rightarrow> chunk \<Rightarrow> opcode \<Rightarrow> nat \<Rightarrow> bool" where
  "operand_ok S c op k \<longleftrightarrow>
     (op = Op_Const \<longrightarrow> k < length (ch_constants c)) \<and>
     (op = Op_LoadLocal \<or> op = Op_StoreLocal \<longrightarrow> k < num_locals c) \<and>
     (op = Op_GetMember \<or> op = Op_SetMember \<longrightarrow> is_str_const c k) \<and>
     (op = Op_CallMethod \<longrightarrow> is_str_const c (k div 256)) \<and>
     (op = Op_CallNative \<longrightarrow> direct_native (k div 256)) \<and>
     (op = Op_CallFunction \<longrightarrow> S (k div 256) (k mod 256))"

definition shape_ok :: "(nat \<Rightarrow> nat \<Rightarrow> bool) \<Rightarrow> chunk \<Rightarrow> (nat \<Rightarrow> nat) \<Rightarrow> nat \<Rightarrow> bool" where
  "shape_ok S c h pc \<longleftrightarrow>
     (let i = ch_code c ! pc; op = i_op i; k = i_operand i
      in fst (effect op k) \<le> h pc \<and> operand_ok S c op k \<and>
         (op \<notin> {Op_Jump, Op_Return, Op_ReturnNull} \<longrightarrow> h (pc + 1) = after_op op k (h pc)))"

definition target_ok :: "chunk \<Rightarrow> (nat \<Rightarrow> nat) \<Rightarrow> nat \<Rightarrow> nat \<Rightarrow> nat \<Rightarrow> bool" where
  "target_ok c h lo hi pc \<longleftrightarrow>
     (let i = ch_code c ! pc; op = i_op i; k = i_operand i
      in op \<in> set jumps \<longrightarrow>
         lo \<le> k \<and> k \<le> hi \<and> h k = taken op (h pc) \<and> (op \<noteq> Op_Jump \<longrightarrow> pc < k))"

definition typed_by :: "(nat \<Rightarrow> nat \<Rightarrow> bool) \<Rightarrow> chunk \<Rightarrow> (nat \<Rightarrow> nat) \<Rightarrow> bool" where
  "typed_by S c h \<longleftrightarrow>
     h 0 = 0 \<and>
     (\<forall>pc < length (ch_code c). shape_ok S c h pc \<and> target_ok c h 0 (length (ch_code c)) pc) \<and>
     (\<forall>r \<in> set (ch_try c). catch_pc r \<le> length (ch_code c) \<and> h (catch_pc r) = 1)"

definition typed :: "(nat \<Rightarrow> nat \<Rightarrow> bool) \<Rightarrow> chunk \<Rightarrow> bool" where
  "typed S c \<longleftrightarrow> (\<exists>h. typed_by S c h)"

lemma typed_forward: "typed S c \<Longrightarrow> chunk_forward c"
  by (fastforce simp: typed_def typed_by_def chunk_forward_def target_ok_def jumps_def conditional_jumps_def
      list_all_length Let_def)

end
