(* ===== verification/Segments.thy ===== *)
theory Segments
  imports Emitter CodeTypes
begin

text \<open>
  Segments of code the emitter has written, with the jumps that are not patched yet: how segments
  are joined and jumps patched.
\<close>

section \<open>Segments\<close>

text \<open>
  Chunk \<open>c'\<close> extends \<open>c\<close> by a segment from height \<open>a\<close> to height \<open>b\<close>.  \<open>X\<close> are jumps that may be
  patched, each with the height at its target and whether it may go back; those at \<open>D\<close> have no target yet.
\<close>

type_synonym open_jump = "nat \<times> nat \<times> bool"

abbreviation size_of :: "chunk \<Rightarrow> nat" where
  "size_of c \<equiv> length (ch_code c)"

definition open_ok :: "chunk \<Rightarrow> (nat \<Rightarrow> nat) \<Rightarrow> nat \<Rightarrow> nat \<Rightarrow> open_jump \<Rightarrow> bool" where
  "open_ok c h lo hi = (\<lambda>(p, w, back). lo \<le> p \<and> p < hi \<and>
     (let op = i_op (ch_code c ! p) in op \<in> set jumps \<and> taken op (h p) = w \<and> (back \<longrightarrow> op = Op_Jump)))"

definition extends :: "chunk \<Rightarrow> chunk \<Rightarrow> bool" where
  "extends c c' \<longleftrightarrow> take (size_of c) (ch_code c') = ch_code c \<and> size_of c \<le> size_of c'
     \<and> num_locals c \<le> num_locals c' \<and> (\<exists>vs. ch_constants c' = ch_constants c @ vs)"

definition segment_by :: "(nat \<Rightarrow> nat) \<Rightarrow> (nat \<Rightarrow> nat \<Rightarrow> bool) \<Rightarrow> open_jump set \<Rightarrow> nat set \<Rightarrow> nat \<Rightarrow> nat \<Rightarrow> chunk \<Rightarrow> chunk \<Rightarrow> bool" where
  "segment_by h S X D a b c c' \<longleftrightarrow>
     h (size_of c) = a \<and> h (size_of c') = b \<and>
     (\<forall>pc. size_of c \<le> pc \<and> pc < size_of c' \<longrightarrow>
        shape_ok S c' h pc \<and> (pc \<notin> D \<longrightarrow> target_ok c' h (size_of c) (size_of c') pc)) \<and>
     (\<forall>x \<in> X. open_ok c' h (size_of c) (size_of c') x) \<and>
     (\<exists>rs. ch_try c' = ch_try c @ rs \<and>
        (\<forall>r \<in> set rs. size_of c \<le> catch_pc r \<and> catch_pc r \<le> size_of c' \<and> h (catch_pc r) = 1))"

definition segment :: "(nat \<Rightarrow> nat \<Rightarrow> bool) \<Rightarrow> open_jump set \<Rightarrow> nat set \<Rightarrow> nat \<Rightarrow> nat \<Rightarrow> chunk \<Rightarrow> chunk \<Rightarrow> bool" where
  "segment S X D a b c c' \<longleftrightarrow> extends c c' \<and> (\<exists>h. segment_by h S X D a b c c')"

lemma extends_refl: "extends c c"
  by (simp add: extends_def)

lemma extends_trans: "extends c c1 \<Longrightarrow> extends c1 c2 \<Longrightarrow> extends c c2"
  using take_take [of "size_of c" "size_of c1" "ch_code c2"] by (auto simp: extends_def min_def)

lemma extends_nth: "extends c c' \<Longrightarrow> p < size_of c \<Longrightarrow> ch_code c' ! p = ch_code c ! p"
  by (metis extends_def nth_take)

lemma extends_const_str: "extends c c' \<Longrightarrow> is_str_const c k \<Longrightarrow> is_str_const c' k"
  by (auto simp: extends_def is_str_const_def const_str_def nth_append split: if_splits)

lemma extends_bounds:
  "extends c c' \<Longrightarrow> num_locals c \<le> num_locals c'" "extends c c' \<Longrightarrow> length (ch_constants c) \<le> length (ch_constants c')"
  by (auto simp: extends_def)

lemma extends_operand:
  assumes "extends c c'" "operand_ok S c op k"
  shows "operand_ok S c' op k"
  using assms(2) extends_bounds [OF assms(1)] extends_const_str [OF assms(1)]
  by (auto simp: operand_ok_def)

lemma shape_mono:
  assumes "extends c c'" "pc < size_of c" "h' pc = h pc" "h' (pc + 1) = h (pc + 1)" "shape_ok S c h pc"
  shows "shape_ok S c' h' pc"
  using assms extends_operand [OF assms(1)] by (simp add: shape_ok_def Let_def extends_nth)

lemma target_mono:
  assumes "extends c c'" "pc < size_of c" "h' pc = h pc" "\<And>q. lo \<le> q \<Longrightarrow> q \<le> hi \<Longrightarrow> h' q = h q"
    and "lo' \<le> lo" "hi \<le> hi'" "target_ok c h lo hi pc"
  shows "target_ok c' h' lo' hi' pc"
proof -
  have i: "ch_code c' ! pc = ch_code c ! pc"
    using assms(1,2) by (rule extends_nth)
  show ?thesis
    using assms(3-7) unfolding target_ok_def Let_def i by fastforce
qed

lemma open_mono:
  assumes "extends c c'" "hi \<le> size_of c" "\<And>q. lo \<le> q \<Longrightarrow> q < hi \<Longrightarrow> h' q = h q"
    and "lo' \<le> lo" "hi \<le> hi'" "open_ok c h lo hi x"
  shows "open_ok c' h' lo' hi' x"
  using assms by (cases x) (force simp: open_ok_def Let_def extends_nth)

lemma segment_refl: "segment S {} {} a a c c"
  by (auto simp: segment_def segment_by_def extends_refl intro: exI [of _ "\<lambda>_. a"])

lemma segment_trans:
  assumes "segment S X D a b c c1" "segment S Y E b d c1 c2"
  shows "segment S (X \<union> Y) (D \<union> E) a d c c2"
proof -
  obtain h1 where h1: "segment_by h1 S X D a b c c1" and e1: "extends c c1"
    using assms(1) by (auto simp: segment_def)
  obtain h2 where h2: "segment_by h2 S Y E b d c1 c2" and e2: "extends c1 c2"
    using assms(2) by (auto simp: segment_def)
  have le: "size_of c \<le> size_of c1" "size_of c1 \<le> size_of c2"
    using e1 e2 by (simp_all add: extends_def)
  define h where "h = (\<lambda>q. if q < size_of c1 then h1 q else h2 q)"
  have meet: "h1 (size_of c1) = h2 (size_of c1)"
    using h1 h2 by (simp add: segment_by_def)
  have hl: "h q = h1 q" if "q \<le> size_of c1" for q
    using that meet by (cases "q = size_of c1") (simp_all add: h_def)
  have hr: "h q = h2 q" if "size_of c1 \<le> q" for q
    using that by (simp add: h_def)
  have "segment_by h S (X \<union> Y) (D \<union> E) a d c c2"
    unfolding segment_by_def
  proof (intro conjI allI impI ballI)
    show "h (size_of c) = a" "h (size_of c2) = d"
      using h1 h2 le by (simp_all add: segment_by_def hl hr)
  next
    fix pc assume pc: "size_of c \<le> pc \<and> pc < size_of c2"
    show "shape_ok S c2 h pc"
    proof (cases "pc < size_of c1")
      case True
      with h1 pc have "shape_ok S c1 h1 pc" by (simp add: segment_by_def)
      then show ?thesis
        by (rule shape_mono [rotated -1]) (use True e2 in \<open>simp_all add: hl\<close>)
    next
      case False
      with h2 pc have "shape_ok S c2 h2 pc" by (simp add: segment_by_def)
      then show ?thesis
        using False by (simp add: shape_ok_def Let_def hr)
    qed
    assume out: "pc \<notin> D \<union> E"
    show "target_ok c2 h (size_of c) (size_of c2) pc"
    proof (cases "pc < size_of c1")
      case True
      with h1 pc out have "target_ok c1 h1 (size_of c) (size_of c1) pc" by (simp add: segment_by_def)
      then show ?thesis
        by (rule target_mono [rotated -1]) (use True e2 le in \<open>simp_all add: hl\<close>)
    next
      case False
      with h2 pc out have "target_ok c2 h2 (size_of c1) (size_of c2) pc" by (simp add: segment_by_def)
      then show ?thesis
        using False le by (auto simp: target_ok_def Let_def hr)
    qed
  next
    fix x assume "x \<in> X \<union> Y"
    then show "open_ok c2 h (size_of c) (size_of c2) x"
    proof
      assume "x \<in> X"
      with h1 have "open_ok c1 h1 (size_of c) (size_of c1) x" by (simp add: segment_by_def)
      then show ?thesis
        by (rule open_mono [rotated -1]) (use e2 le in \<open>simp_all add: hl\<close>)
    next
      assume "x \<in> Y"
      with h2 have "open_ok c2 h2 (size_of c1) (size_of c2) x" by (simp add: segment_by_def)
      then show ?thesis
        by (rule open_mono [rotated -1]) (use le in \<open>simp_all add: hr extends_refl\<close>)
    qed
  next
    obtain rs where rs: "ch_try c1 = ch_try c @ rs"
      "\<forall>r \<in> set rs. size_of c \<le> catch_pc r \<and> catch_pc r \<le> size_of c1 \<and> h1 (catch_pc r) = 1"
      using h1 by (auto simp: segment_by_def)
    obtain qs where qs: "ch_try c2 = ch_try c1 @ qs"
      "\<forall>r \<in> set qs. size_of c1 \<le> catch_pc r \<and> catch_pc r \<le> size_of c2 \<and> h2 (catch_pc r) = 1"
      using h2 by (auto simp: segment_by_def)
    show "\<exists>rs. ch_try c2 = ch_try c @ rs \<and>
        (\<forall>r \<in> set rs. size_of c \<le> catch_pc r \<and> catch_pc r \<le> size_of c2 \<and> h (catch_pc r) = 1)"
      using rs qs le by (intro exI [of _ "rs @ qs"]) (auto simp: hl hr)
  qed
  with extends_trans [OF e1 e2] show ?thesis
    by (auto simp: segment_def)
qed

text \<open>A jump of the segment is patched: to the end of the segment, or to its start.\<close>

lemma nth_patch:
  "ch_code (patch p t c) ! q = (if q = p \<and> p < size_of c then (ch_code c ! p)\<lparr>i_operand := t\<rparr> else ch_code c ! q)"
  by (cases "p < size_of c") (auto simp: patch_def nth_list_update list_update_beyond)

lemma patch_simps [simp]:
  "size_of (patch p t c) = size_of c" "ch_constants (patch p t c) = ch_constants c"
  "num_locals (patch p t c) = num_locals c" "ch_try (patch p t c) = ch_try c"
  by (simp_all add: patch_def)

lemma extends_patch: "extends c c' \<Longrightarrow> size_of c \<le> p \<Longrightarrow> extends c (patch p t c')"
  by (simp add: extends_def patch_def)

lemma jump_shape:
  assumes "op \<in> set jumps"
  shows "effect op k = effect op k'" "operand_ok S c op k" "after_op op k n = after_op op k' n"
  using assms by (auto simp: jumps_def conditional_jumps_def operand_ok_def after_op_def)

lemma segment_patch:
  assumes seg: "segment S X D a b c c'" and x: "(p, w, back) \<in> X"
    and t: "t = size_of c' \<and> w = b \<or> t = size_of c \<and> w = a \<and> back"
  shows "segment S X (D - {p}) a b c (patch p t c')"
proof -
  obtain h where h: "segment_by h S X D a b c c'" and e: "extends c c'"
    using seg by (auto simp: segment_def)
  have le: "size_of c \<le> size_of c'"
    using e by (simp add: extends_def)
  have op: "open_ok c' h (size_of c) (size_of c') (p, w, back)"
    using h x by (simp add: segment_by_def)
  then have p: "size_of c \<le> p" "p < size_of c'" "i_op (ch_code c' ! p) \<in> set jumps"
    by (simp_all add: open_ok_def Let_def)
  let ?c = "patch p t c'"
  have i_op: "i_op (ch_code ?c ! q) = i_op (ch_code c' ! q)" for q
    by (simp add: nth_patch)
  have "segment_by h S X (D - {p}) a b c ?c"
    unfolding segment_by_def
  proof (intro conjI allI impI ballI)
    show "h (size_of c) = a" "h (size_of ?c) = b"
      using h by (simp_all add: segment_by_def)
  next
    fix pc assume pc: "size_of c \<le> pc \<and> pc < size_of ?c"
    then have s: "shape_ok S c' h pc"
      using h by (simp add: segment_by_def)
    have "is_str_const ?c k = is_str_const c' k" for k
      by (simp add: is_str_const_def const_str_def)
    then have oo: "operand_ok S ?c o' k = operand_ok S c' o' k" for o' k
      by (simp add: operand_ok_def)
    show "shape_ok S ?c h pc"
    proof (cases "pc = p")
      case True
      with s p jump_shape(1) [OF p(3), of t "i_operand (ch_code c' ! p)"]
        jump_shape(3) [OF p(3), of t "h p" "i_operand (ch_code c' ! p)"] jump_shape(2) [OF p(3)] show ?thesis
        by (simp add: shape_ok_def Let_def nth_patch oo)
    next
      case False
      with s show ?thesis by (simp add: shape_ok_def Let_def nth_patch oo)
    qed
    assume out: "pc \<notin> D - {p}"
    show "target_ok ?c h (size_of c) (size_of ?c) pc"
    proof (cases "pc = p")
      case True
      with op p t h le show ?thesis
        by (auto simp: target_ok_def open_ok_def Let_def nth_patch segment_by_def)
    next
      case False
      with out have "pc \<notin> D" by simp
      with h pc have "target_ok c' h (size_of c) (size_of c') pc" by (simp add: segment_by_def)
      with False show ?thesis by (simp add: target_ok_def Let_def nth_patch)
    qed
  next
    fix x assume "x \<in> X"
    with h have "open_ok c' h (size_of c) (size_of c') x" by (simp add: segment_by_def)
    then show "open_ok ?c h (size_of c) (size_of ?c) x"
      by (auto simp: open_ok_def Let_def i_op)
  next
    show "\<exists>rs. ch_try ?c = ch_try c @ rs \<and>
        (\<forall>r \<in> set rs. size_of c \<le> catch_pc r \<and> catch_pc r \<le> size_of ?c \<and> h (catch_pc r) = 1)"
      using h by (simp add: segment_by_def)
  qed
  with extends_patch [OF e p(1)] show ?thesis
    by (auto simp: segment_def)
qed

text \<open>One instruction.\<close>

lemma emit_simps [simp]:
  "ch_code (fst (emit op l k c)) = ch_code c @ [\<lparr>i_op = op, i_operand = k, i_loc = l\<rparr>]"
  "ch_constants (fst (emit op l k c)) = ch_constants c" "num_locals (fst (emit op l k c)) = num_locals c"
  "ch_try (fst (emit op l k c)) = ch_try c"
  by (simp_all add: emit_def)

lemma extends_emit: "extends c (fst (emit op l k c))"
  by (simp add: extends_def)

lemma is_str_const_emit [simp]: "is_str_const (fst (emit op l k c)) j = is_str_const c j"
  by (simp add: is_str_const_def const_str_def)

lemma operand_ok_emit [simp]: "operand_ok S (fst (emit op l k c)) o' j = operand_ok S c o' j"
  by (simp add: operand_ok_def)

lemma segment_emit:
  assumes "fst (effect op k) \<le> a" "operand_ok S c op k" "op \<notin> set jumps"
    and "op \<notin> {Op_Return, Op_ReturnNull} \<Longrightarrow> b = after_op op k a"
  shows "segment S {} {} a b c (fst (emit op l k c))"
proof -
  define h where "h = (\<lambda>q. if q = size_of c then a else b)"
  have "segment_by h S {} {} a b c (fst (emit op l k c))"
    using assms by (auto simp: segment_by_def h_def less_Suc_eq shape_ok_def target_ok_def Let_def jumps_def)
  then show ?thesis by (auto simp: segment_def extends_emit)
qed

lemma segment_emit_jump:
  assumes "op \<in> set jumps" "fst (effect op 0) \<le> a" "op \<noteq> Op_Jump \<Longrightarrow> b = a - 1"
  shows "segment S {(size_of c, taken op a, op = Op_Jump)} {size_of c} a b c (fst (emit op l k c))"
proof -
  define h where "h = (\<lambda>q. if q = size_of c then a else b)"
  have "segment_by h S {(size_of c, taken op a, op = Op_Jump)} {size_of c} a b c (fst (emit op l k c))"
    using assms jump_shape(2) [OF assms(1), of S c k]
    by (auto simp: segment_by_def h_def less_Suc_eq shape_ok_def open_ok_def Let_def jumps_def conditional_jumps_def
        after_op_def)
  then show ?thesis by (auto simp: segment_def extends_emit)
qed

lemma segment_by_mono:
  "segment_by h S X D a b c c' \<Longrightarrow> Y \<subseteq> X \<Longrightarrow> D \<subseteq> E \<Longrightarrow> segment_by h S Y E a b c c'"
  unfolding segment_by_def by (elim conjE, intro conjI) (assumption | blast)+

lemma segment_mono: "segment S X D a b c c' \<Longrightarrow> Y \<subseteq> X \<Longrightarrow> D \<subseteq> E \<Longrightarrow> segment S Y E a b c c'"
  unfolding segment_def by (blast intro: segment_by_mono)

section \<open>What the emitter adds\<close>

text \<open>
  There is a diagnostic, emission used up its fuel or followed a null pointer; or the chunk has more
  constants than a call of a method has bits for.
\<close>

definition bad :: "'t estate \<Rightarrow> bool" where
  "bad s \<longleftrightarrow> em_diags s \<noteq> [] \<or> em_undefined s \<or> em_spent s \<or> 2 ^ 24 < length (ch_constants (em_chunk s))"

abbreviation exec :: "('t, 'a) emitter \<Rightarrow> 't estate \<Rightarrow> 't estate" where
  "exec p s \<equiv> snd (run_state p s)"

text \<open>A jump out of a loop is pending: it leaves from an empty stack.\<close>

definition pending :: "nat set \<Rightarrow> open_jump set" where
  "pending P = (\<lambda>p. (p, 0, True)) ` P"

definition loops_grown :: "(nat list \<times> nat list) list \<Rightarrow> (nat list \<times> nat list) list \<Rightarrow> nat set \<Rightarrow> bool" where
  "loops_grown ls ls' P =
     (case ls of
        [] \<Rightarrow> ls' = [] \<and> P = {}
      | (bs, cs) # r \<Rightarrow> (\<exists>bs' cs'. ls' = (bs @ bs', cs @ cs') # r \<and> P = set bs' \<union> set cs'))"

definition grown :: "(nat \<Rightarrow> nat \<Rightarrow> bool) \<Rightarrow> open_jump set \<Rightarrow> nat set \<Rightarrow> nat \<Rightarrow> nat \<Rightarrow> 't estate \<Rightarrow> 't estate \<Rightarrow> bool" where
  "grown S X D a b s s' \<longleftrightarrow>
     length (em_locals s') \<le> num_locals (em_chunk s') \<and>
     (\<exists>P. loops_grown (em_loops s) (em_loops s') P \<and>
          segment S (X \<union> pending P) (D \<union> P) a b (em_chunk s) (em_chunk s'))"

text \<open>The slots below \<open>m\<close> exist and the constants in \<open>K\<close> are names.\<close>

definition knows :: "nat \<Rightarrow> nat set \<Rightarrow> 't estate \<Rightarrow> bool" where
  "knows m K s \<longleftrightarrow> length (em_locals s) \<le> num_locals (em_chunk s) \<and> m \<le> num_locals (em_chunk s)
     \<and> (\<forall>k \<in> K. is_str_const (em_chunk s) k \<and> k < 2 ^ 24)"

definition emits :: "(nat \<Rightarrow> nat \<Rightarrow> bool) \<Rightarrow> nat \<Rightarrow> nat set \<Rightarrow> nat \<Rightarrow> nat \<Rightarrow> ('t, 'a) emitter \<Rightarrow> bool" where
  "emits S m K a b p \<longleftrightarrow>
     (\<forall>s. bad s \<longrightarrow> bad (exec p s)) \<and>
     (\<forall>s. knows m K s \<longrightarrow> \<not> bad (exec p s) \<longrightarrow> grown S {} {} a b s (exec p s))"

lemma emitsI:
  "(\<And>s. bad s \<Longrightarrow> bad (exec p s)) \<Longrightarrow>
   (\<And>s. knows m K s \<Longrightarrow> \<not> bad (exec p s) \<Longrightarrow> grown S {} {} a b s (exec p s)) \<Longrightarrow> emits S m K a b p"
  by (simp add: emits_def)

lemma emits_bad: "emits S m K a b p \<Longrightarrow> \<not> bad (exec p s) \<Longrightarrow> \<not> bad s"
  by (auto simp: emits_def)

lemma emits_grown: "emits S m K a b p \<Longrightarrow> knows m K s \<Longrightarrow> \<not> bad (exec p s) \<Longrightarrow> grown S {} {} a b s (exec p s)"
  by (simp add: emits_def)

lemma loops_grown_refl: "loops_grown ls ls {}"
  by (cases ls) (auto simp: loops_grown_def)

lemma loops_grown_trans:
  "loops_grown ls ls1 P \<Longrightarrow> loops_grown ls1 ls2 Q \<Longrightarrow> loops_grown ls ls2 (P \<union> Q)"
  by (cases ls) (auto simp: loops_grown_def)

lemma pending_Un: "pending (P \<union> Q) = pending P \<union> pending Q"
  by (auto simp: pending_def)

lemma grown_refl: "length (em_locals s) \<le> num_locals (em_chunk s) \<Longrightarrow> grown S {} {} a a s s"
  using loops_grown_refl segment_refl by (fastforce simp: grown_def pending_def)

lemma grown_trans:
  assumes "grown S X D a b s s1" "grown S Y E b c s1 s2"
  shows "grown S (X \<union> Y) (D \<union> E) a c s s2"
proof -
  obtain P where P: "loops_grown (em_loops s) (em_loops s1) P"
      "segment S (X \<union> pending P) (D \<union> P) a b (em_chunk s) (em_chunk s1)"
    using assms(1) by (auto simp: grown_def)
  obtain Q where Q: "loops_grown (em_loops s1) (em_loops s2) Q"
      "segment S (Y \<union> pending Q) (E \<union> Q) b c (em_chunk s1) (em_chunk s2)"
    using assms(2) by (auto simp: grown_def)
  have "segment S (X \<union> Y \<union> pending (P \<union> Q)) (D \<union> E \<union> (P \<union> Q)) a c (em_chunk s) (em_chunk s2)"
    using segment_trans [OF P(2) Q(2)] by (rule segment_mono) (auto simp: pending_Un)
  with loops_grown_trans [OF P(1) Q(1)] assms(2) show ?thesis
    by (auto simp: grown_def)
qed

lemma grown_mono: "grown S X D a b s s' \<Longrightarrow> Y \<subseteq> X \<Longrightarrow> D \<subseteq> E \<Longrightarrow> grown S Y E a b s s'"
  unfolding grown_def by (blast intro: segment_mono)

lemma grown_knows: "grown S X D a b s s' \<Longrightarrow> knows m K s \<Longrightarrow> knows m K s'"
  by (auto simp: grown_def knows_def segment_def dest: extends_bounds(1) extends_const_str intro: order_trans)

end
