(* ===== verification/EmitterRuns.thy ===== *)
theory EmitterRuns
  imports Segments
begin

text \<open>
  The code the emitter writes keeps the discipline of heights and operands: one rule per action of
  the emitter, collected in \<open>emit_step\<close>.
\<close>

named_theorems emit_step "rules for the first action of an emitter"

section \<open>Rules\<close>

lemma emits_weaken: "emits S m K a b p \<Longrightarrow> m \<le> m' \<Longrightarrow> K \<subseteq> K' \<Longrightarrow> emits S m' K' a b p"
  unfolding emits_def knows_def by (meson order_trans subsetD)

lemma emits_bind:
  assumes p: "emits S m K a b p" and f: "\<And>x. emits S m K b c (f x)"
  shows "emits S m K a c (State_Monad.bind p f)"
proof (rule emitsI)
  fix s
  have run: "exec (State_Monad.bind p f) s = exec (f (fst (run_state p s))) (exec p s)"
    by (simp split: prod.split)
  show "bad s \<Longrightarrow> bad (exec (State_Monad.bind p f) s)"
    unfolding run using p f by (simp add: emits_def)
  assume s: "knows m K s" and ok: "\<not> bad (exec (State_Monad.bind p f) s)"
  from ok have ok1: "\<not> bad (exec p s)"
    unfolding run using emits_bad [OF f] by blast
  from emits_grown [OF p s ok1] have g: "grown S {} {} a b s (exec p s)" .
  from grown_trans [OF g emits_grown [OF f grown_knows [OF g s]]] ok
  show "grown S {} {} a c s (exec (State_Monad.bind p f) s)"
    unfolding run by simp
qed

lemma emits_keeps_bad: "emits S m K a b p \<Longrightarrow> bad s \<Longrightarrow> bad (exec p s)"
  by (simp add: emits_def)

lemma bad_chunk [simp]: "length (ch_constants c) = length (ch_constants (em_chunk s)) \<Longrightarrow> bad (s\<lparr>em_chunk := c\<rparr>) = bad s"
  by (simp add: bad_def)

lemma bad_grows:
  "length (ch_constants (em_chunk s)) \<le> length (ch_constants c) \<Longrightarrow> bad s \<Longrightarrow> bad (s\<lparr>em_chunk := c\<rparr>)"
  by (auto simp: bad_def)

lemma add_constant_length [simp]: "length (ch_constants (fst (add_constant v c))) = Suc (length (ch_constants c))"
  by (simp add: add_constant_def)

lemma emits_give [emit_step]: "a = b \<Longrightarrow> emits S m K a b (give x)"
  by (auto intro!: emitsI grown_refl simp: knows_def)

lemma emits_error [emit_step]: "emits S m K a b (em_error l msg)"
  by (rule emitsI) (simp_all add: em_error_def bad_def)

lemma emits_error_bind [emit_step]:
  "emits S m K a b (f ()) \<Longrightarrow> emits S m K a b (State_Monad.bind (em_error l msg) f)"
  by (rule emits_bind [OF emits_error [where b = a]]) simp

lemma emits_run_out [emit_step]: "emits S m K a b run_out"
  by (rule emitsI) (simp_all add: run_out_def bad_def)

lemma emits_deref [emit_step]:
  "(\<And>x. p = Some x \<Longrightarrow> emits S m K a b (f x)) \<Longrightarrow> emits S m K a b (deref p f)"
  by (cases p) (auto simp: deref_def bad_def intro: emitsI)

lemma emits_if [emit_step]:
  "(c \<Longrightarrow> emits S m K a b p) \<Longrightarrow> (\<not> c \<Longrightarrow> emits S m K a b q) \<Longrightarrow> emits S m K a b (if c then p else q)"
  by simp

lemma emits_option [emit_step]:
  "(v = None \<Longrightarrow> emits S m K a b p) \<Longrightarrow> (\<And>x. v = Some x \<Longrightarrow> emits S m K a b (f x)) \<Longrightarrow>
   emits S m K a b (case v of None \<Rightarrow> p | Some x \<Rightarrow> f x)"
  by (cases v) simp_all

lemma emits_prod [emit_step]: "(\<And>x y. emits S m K a b (f x y)) \<Longrightarrow> emits S m K a b (case v of (x, y) \<Rightarrow> f x y)"
  by (cases v) simp

text \<open>Looking at the state.\<close>

lemma emits_get_locals [emit_step]: "(\<And>ls. emits S m K a b (f ls)) \<Longrightarrow> emits S m K a b (State_Monad.bind get_locals f)"
  by (auto simp: emits_def get_locals_def)

lemma emits_get: "(\<And>s. emits S m K a b (f s)) \<Longrightarrow> emits S m K a b (State_Monad.bind State_Monad.get f)"
  by (auto simp: emits_def)

lemma resolve_in_less: "resolve_in ls n = Some i \<Longrightarrow> i < length ls"
  by (auto simp: resolve_in_def find_Some_iff rev_nth)

lemma emits_resolve [emit_step]:
  assumes "emits S m K a b (f None)" "\<And>i. emits S (max m (Suc i)) K a b (f (Some i))"
  shows "emits S m K a b (State_Monad.bind (resolve_local n) f)"
proof (rule emitsI)
  fix s
  have run: "exec (State_Monad.bind (resolve_local n) f) s = exec (f (resolve_in (em_locals s) n)) s"
    by (simp add: resolve_local_def)
  show "bad s \<Longrightarrow> bad (exec (State_Monad.bind (resolve_local n) f) s)"
    unfolding run using assms by (cases "resolve_in (em_locals s) n") (auto simp: emits_def)
  assume s: "knows m K s" and ok: "\<not> bad (exec (State_Monad.bind (resolve_local n) f) s)"
  show "grown S {} {} a b s (exec (State_Monad.bind (resolve_local n) f) s)"
  proof (cases "resolve_in (em_locals s) n")
    case None
    with ok emits_grown [OF assms(1) s] show ?thesis unfolding run by simp
  next
    case (Some i)
    with resolve_in_less s have "knows (max m (Suc i)) K s"
      by (fastforce simp: knows_def)
    from emits_grown [OF assms(2) this] ok Some show ?thesis unfolding run by simp
  qed
qed

text \<open>Updates that touch neither code, locals nor loops.\<close>

lemma emits_update:
  fixes g :: "'t estate \<Rightarrow> 't estate"
  assumes "\<And>s. bad s \<Longrightarrow> bad (g s)"
    and "\<And>s. em_chunk (g s) = em_chunk s \<and> em_loops (g s) = em_loops s \<and> length (em_locals (g s)) \<le> length (em_locals s)"
    and "a = b"
  shows "emits S m K a b (State (\<lambda>s. (h s, g s)))"
proof (rule emitsI)
  fix s :: "'t estate"
  show "bad s \<Longrightarrow> bad (exec (State (\<lambda>s. (h s, g s))) s)"
    using assms(1) by simp
  assume "knows m K s"
  with assms(2) [of s] have "length (em_locals (g s)) \<le> num_locals (em_chunk (g s))"
    by (simp add: knows_def)
  with assms(2) [of s] assms(3) segment_refl [of S b "em_chunk s"] loops_grown_refl [of "em_loops s"]
  show "grown S {} {} a b s (exec (State (\<lambda>s. (h s, g s))) s)"
    unfolding grown_def by (intro conjI exI [of _ "{}"]) (simp_all add: pending_def)
qed

lemma emits_begin_scope [emit_step]: "a = b \<Longrightarrow> emits S m K a b begin_scope"
  unfolding begin_scope_def by (rule emits_update) (simp_all add: bad_def)

lemma emits_end_scope [emit_step]: "a = b \<Longrightarrow> emits S m K a b end_scope"
  unfolding end_scope_def Let_def
  by (rule emits_update) (auto simp: bad_def intro: order_trans [OF length_dropWhile_le])

text \<open>Chunk updates that keep the code.\<close>

lemma segment_same:
  assumes "ch_code c' = ch_code c" "num_locals c \<le> num_locals c'" "ch_constants c' = ch_constants c @ vs" "ch_try c' = ch_try c"
  shows "segment S {} {} a a c c'"
  using assms unfolding segment_def extends_def segment_by_def by (auto intro: exI [of _ "\<lambda>_. a"])

lemma emits_chunk:
  fixes h :: "'t estate \<Rightarrow> 'a"
  assumes "\<And>c. ch_code (f c) = ch_code c \<and> num_locals (f c) = num_locals c
      \<and> (\<exists>vs. ch_constants (f c) = ch_constants c @ vs) \<and> ch_try (f c) = ch_try c"
    and "a = b"
  shows "emits S m K a b (State (\<lambda>s. (h s, s\<lparr>em_chunk := f (em_chunk s)\<rparr>)))"
proof (rule emitsI)
  fix s :: "'t estate"
  assume "knows m K s"
  with assms(1) [of "em_chunk s"] have "length (em_locals s) \<le> num_locals (f (em_chunk s))"
    by (simp add: knows_def)
  moreover obtain vs where "ch_constants (f (em_chunk s)) = ch_constants (em_chunk s) @ vs"
    using assms(1) [of "em_chunk s"] by blast
  ultimately show "grown S {} {} a b s (exec (State (\<lambda>s. (h s, s\<lparr>em_chunk := f (em_chunk s)\<rparr>))) s)"
    using assms(1) [of "em_chunk s"] assms(2) segment_same [of "f (em_chunk s)" "em_chunk s" vs S b] loops_grown_refl [of "em_loops s"]
    unfolding grown_def by (intro conjI exI [of _ "{}"]) (simp_all add: pending_def)
next
  fix s :: "'t estate"
  obtain vs where "ch_constants (f (em_chunk s)) = ch_constants (em_chunk s) @ vs"
    using assms(1) [of "em_chunk s"] by blast
  then show "bad s \<Longrightarrow> bad (exec (State (\<lambda>s. (h s, s\<lparr>em_chunk := f (em_chunk s)\<rparr>))) s)"
    by (simp add: bad_grows)
qed

lemma emits_set_await [emit_step]: "a = b \<Longrightarrow> emits S m K a b set_await"
  unfolding set_await_def on_chunk_def by (rule emits_chunk) simp_all

lemma emits_constant:
  assumes "\<And>k. emits S m K a b (f k)"
  shows "emits S m K a b (State_Monad.bind (new_constant v) f)"
  unfolding new_constant_def add_constant_def
  by (rule emits_bind [OF emits_chunk assms]) simp_all

lemma add_constant_str: "is_str_const (fst (add_constant (HStr n) c)) (length (ch_constants c))"
  by (simp add: is_str_const_def const_str_def add_constant_def)

lemma emits_name [emit_step]:
  fixes f :: "nat \<Rightarrow> ('t, 'a) emitter"
  assumes "\<And>k. emits S m (insert k K) a b (f k)"
  shows "emits S m K a b (State_Monad.bind (new_constant (HStr n)) f)"
proof (rule emitsI)
  fix s :: "'t estate"
  let ?s = "s\<lparr>em_chunk := fst (add_constant (HStr n) (em_chunk s))\<rparr>"
  let ?k = "length (ch_constants (em_chunk s))"
  have run: "exec (State_Monad.bind (new_constant (HStr n)) f) s = exec (f ?k) ?s"
    by (simp add: new_constant_def)
  have const: "emits S m K a a (new_constant (HStr n))"
    unfolding new_constant_def add_constant_def by (rule emits_chunk) simp_all
  show "bad s \<Longrightarrow> bad (exec (State_Monad.bind (new_constant (HStr n)) f) s)"
    unfolding run by (rule emits_keeps_bad [OF assms]) (simp add: bad_grows)
  assume s: "knows m K s" and ok: "\<not> bad (exec (State_Monad.bind (new_constant (HStr n)) f) s)"
  from ok have "\<not> bad ?s"
    unfolding run using emits_bad [OF assms] by blast
  then have g: "grown S {} {} a a s ?s"
    using emits_grown [OF const s] by (simp add: new_constant_def)
  have "?k < 2 ^ 24"
    using \<open>\<not> bad ?s\<close> by (simp add: bad_def)
  then have "knows m (insert ?k K) ?s"
    using grown_knows [OF g s] add_constant_str by (simp add: knows_def)
  from grown_trans [OF g emits_grown [OF assms this]] ok
  show "grown S {} {} a b s (exec (State_Monad.bind (new_constant (HStr n)) f) s)"
    unfolding run by simp
qed

text \<open>Locals.\<close>

lemma emits_add_local: "a = b \<Longrightarrow> emits S m K a b (add_local n ty)"
proof (rule emitsI)
  fix s :: "'t estate"
  assume ab: "a = b" and s: "knows m K s"
  let ?c = "em_chunk s"
  let ?c' = "?c\<lparr>num_locals := max (num_locals ?c) (length (em_locals s) + 1), local_names := local_names ?c @ [n]\<rparr>"
  have "segment S {} {} a b ?c ?c'"
    unfolding ab by (rule segment_same) simp_all
  then show "grown S {} {} a b s (exec (add_local n ty) s)"
    using loops_grown_refl [of "em_loops s"]
    by (auto simp: grown_def add_local_def Let_def pending_def)
qed (simp add: add_local_def Let_def bad_def)

lemma run_declare:
  "run_state (declare_local n l ty) s =
     (if declared_here (em_depth s) (em_locals s) n
      then (case resolve_in (em_locals s) n of Some i \<Rightarrow> i | None \<Rightarrow> 0,
            exec (em_error l (CHR 0x27 # n @ CHR 0x27 # '' ya esta declarada en este ambito'')) s)
      else run_state (add_local n ty) s)"
  by (simp add: declare_local_def em_error_def)

lemma emits_declare_unit [emit_step]: "a = b \<Longrightarrow> emits S m K a b (declare_local n l ty)"
  unfolding declare_local_def
  by (rule emits_get emits_if emits_error_bind emits_add_local emits_give | assumption)+

lemma emits_declare [emit_step]:
  fixes f :: "nat \<Rightarrow> ('t, 'a) emitter"
  assumes "\<And>i. emits S (max m (Suc i)) K a b (f i)"
  shows "emits S m K a b (State_Monad.bind (declare_local n l ty) f)"
proof (rule emitsI)
  fix s :: "'t estate"
  let ?s = "exec (declare_local n l ty) s" and ?i = "fst (run_state (declare_local n l ty) s)"
  have run: "exec (State_Monad.bind (declare_local n l ty) f) s = exec (f ?i) ?s"
    by (simp split: prod.split)
  have decl: "emits S m K a a (declare_local n l ty)"
    by (rule emits_declare_unit) simp
  show "bad s \<Longrightarrow> bad (exec (State_Monad.bind (declare_local n l ty) f) s)"
    unfolding run by (rule emits_keeps_bad [OF assms emits_keeps_bad [OF decl]])
  assume s: "knows m K s" and ok: "\<not> bad (exec (State_Monad.bind (declare_local n l ty) f) s)"
  from ok have ok1: "\<not> bad ?s"
    unfolding run using emits_bad [OF assms] by blast
  from emits_grown [OF decl s ok1] have g: "grown S {} {} a a s ?s" .
  have "?i < num_locals (em_chunk ?s)"
    using ok1 unfolding run_declare by (auto simp: em_error_def add_local_def Let_def bad_def split: if_splits)
  then have "knows (max m (Suc ?i)) K ?s"
    using grown_knows [OF g s] by (simp add: knows_def)
  from grown_trans [OF g emits_grown [OF assms this]] ok
  show "grown S {} {} a b s (exec (State_Monad.bind (declare_local n l ty) f) s)"
    unfolding run by simp
qed

section \<open>Instructions and jumps\<close>

lemma packed_eq:
  assumes "n < 256"
  shows "packed i n = (i * 256 + n) mod 2 ^ 32"
proof -
  have "take_bit 8 n = n"
    using assms by (intro take_bit_nat_eq_self) simp
  then have "push_bit 8 i AND n = 0"
    by (metis (no_types) and.commute bit_eqI bit_and_iff bit_push_bit_iff bit_take_bit_iff bit_0_eq bot_apply bot_bool_def not_less)
  then show ?thesis
    by (simp add: packed_def disjunctive_add_eq_or [symmetric] push_bit_eq_mult)
qed

lemma packed_parts:
  "n < 256 \<Longrightarrow> packed i n mod 256 = n"
  "n < 256 \<Longrightarrow> i < 2 ^ 24 \<Longrightarrow> packed i n div 256 = i"
proof -
  assume n: "n < 256"
  have "(i * 256 + n) mod 2 ^ 32 mod 256 = (i * 256 + n) mod 256"
    by (rule mod_mod_cancel) simp
  with n show "packed i n mod 256 = n"
    by (simp add: packed_eq)
  assume "i < 2 ^ 24"
  with n have "(i * 256 + n) mod 2 ^ 32 = i * 256 + n"
    by (intro mod_less) simp
  with n show "packed i n div 256 = i"
    by (simp add: packed_eq)
qed

text \<open>What an instruction needs of what is known.\<close>

definition operand_known :: "(nat \<Rightarrow> nat \<Rightarrow> bool) \<Rightarrow> nat \<Rightarrow> nat set \<Rightarrow> opcode \<Rightarrow> nat \<Rightarrow> bool" where
  "operand_known S m K op k \<longleftrightarrow>
     op \<noteq> Op_Const \<and>
     (op = Op_LoadLocal \<or> op = Op_StoreLocal \<longrightarrow> k < m) \<and>
     (op = Op_GetMember \<or> op = Op_SetMember \<longrightarrow> k \<in> K) \<and>
     (op = Op_CallMethod \<longrightarrow> (\<exists>i n. k = packed i n \<and> n < 256 \<and> i \<in> K)) \<and>
     (op = Op_CallNative \<longrightarrow> direct_native (k div 256)) \<and>
     (op = Op_CallFunction \<longrightarrow> S (k div 256) (k mod 256))"

lemma known_operand_ok: "operand_known S m K op k \<Longrightarrow> knows m K s \<Longrightarrow> operand_ok S (em_chunk s) op k"
  by (auto simp: operand_known_def operand_ok_def knows_def packed_parts)

lemma grown_chunk:
  assumes "segment S X D a b (em_chunk s) c'" "num_locals (em_chunk s) \<le> num_locals c'"
    and "length (em_locals s) \<le> num_locals (em_chunk s)"
  shows "grown S X D a b s (s\<lparr>em_chunk := c'\<rparr>)"
  using assms loops_grown_refl [of "em_loops s"] unfolding grown_def
  by (intro conjI exI [of _ "{}"]) (simp_all add: pending_def)

lemma emits_op:
  assumes "op \<notin> set jumps" "fst (effect op k) \<le> a" "operand_known S m K op k"
    and "op \<noteq> Op_Return \<and> op \<noteq> Op_ReturnNull \<longrightarrow> b = after_op op k a"
  shows "emits S m K a b (emit_op op l k)"
proof (rule emitsI)
  fix s :: "'t estate"
  assume s: "knows m K s"
  have "segment S {} {} a b (em_chunk s) (fst (emit op l k (em_chunk s)))"
    using assms known_operand_ok [OF assms(3) s] by (intro segment_emit) auto
  then show "grown S {} {} a b s (exec (emit_op op l k) s)"
    unfolding emit_op_def using s by (simp add: grown_chunk knows_def)
qed (simp add: emit_op_def bad_def)

lemma emits_op_bind [emit_step]:
  assumes "op \<notin> set jumps" "fst (effect op k) \<le> a" "operand_known S m K op k"
    and "\<And>j. emits S m K (after_op op k a) c (f j)"
  shows "emits S m K a c (State_Monad.bind (emit_op op l k) f)"
  by (rule emits_bind [OF emits_op assms(4)]) (use assms in auto)

text \<open>A jump is emitted open, and patched later.\<close>

lemma grown_jump:
  assumes "knows m K s" "op \<in> set jumps" "fst (effect op 0) \<le> a" "op \<noteq> Op_Jump \<Longrightarrow> b = a - 1"
  shows "grown S {(size_of (em_chunk s), taken op a, op = Op_Jump)} {size_of (em_chunk s)} a b s
     (s\<lparr>em_chunk := fst (emit op l k (em_chunk s))\<rparr>)"
  using assms by (intro grown_chunk segment_emit_jump) (auto simp: knows_def)

lemma grown_patch:
  assumes g: "grown S X D a b s s'" and x: "(p, w, u) \<in> X"
    and t: "t = size_of (em_chunk s') \<and> w = b \<or> t = size_of (em_chunk s) \<and> w = a \<and> u"
  shows "grown S X (D - {p}) a b s (s'\<lparr>em_chunk := patch p t (em_chunk s')\<rparr>)"
proof -
  obtain P where P: "loops_grown (em_loops s) (em_loops s') P"
      "segment S (X \<union> pending P) (D \<union> P) a b (em_chunk s) (em_chunk s')"
    using g by (auto simp: grown_def)
  have "segment S (X \<union> pending P) (D - {p} \<union> P) a b (em_chunk s) (patch p t (em_chunk s'))"
    by (rule segment_mono [OF segment_patch [OF P(2) _ t]]) (use x in auto)
  with P(1) g show ?thesis
    by (auto simp: grown_def)
qed

lemma fold_patch_constants [simp]: "ch_constants (fold (\<lambda>j. patch j t) js c) = ch_constants c"
  by (induction js arbitrary: c) simp_all

lemma run_patch_all:
  "exec (patch_all js t) s = s\<lparr>em_chunk := fold (\<lambda>j. patch j t) js (em_chunk s)\<rparr>"
  by (induction js arbitrary: s) (simp_all add: patch_to_def on_chunk_def)

lemma grown_patch_all:
  assumes "grown S X D a b s s'" "\<And>j. j \<in> set js \<Longrightarrow> (j, w, u) \<in> X"
    and "t = size_of (em_chunk s') \<and> w = b \<or> t = size_of (em_chunk s) \<and> w = a \<and> u"
  shows "grown S X (D - set js) a b s (exec (patch_all js t) s')"
  using assms
proof (induction js arbitrary: D s')
  case (Cons j js)
  let ?s = "s'\<lparr>em_chunk := patch j t (em_chunk s')\<rparr>"
  have "grown S X (D - {j}) a b s ?s"
    by (rule grown_patch [OF Cons.prems(1)]) (use Cons.prems in auto)
  then have "grown S X (D - {j} - set js) a b s (exec (patch_all js t) ?s)"
    by (rule Cons.IH) (use Cons.prems in auto)
  then show ?case
    by (simp add: patch_to_def on_chunk_def set_diff_eq Diff_insert2)
qed simp

section \<open>Branches\<close>

text \<open>
  What follows reads a state, an action behind it and the state after it: \<open>reaches p s s'\<close> is a run
  that did not fail.
\<close>

lemma emits_then:
  assumes "emits S m K b c p" "grown S X D a b s0 s" "knows m K s" "\<not> bad (exec p s)"
  shows "grown S X D a c s0 (exec p s)" "knows m K (exec p s)"
  using grown_trans [OF assms(2) emits_grown [OF assms(1,3,4)]] grown_knows [OF emits_grown [OF assms(1,3,4)] assms(3)]
  by simp_all

lemma grown_size: "grown S X D a b s s' \<Longrightarrow> size_of (em_chunk s) \<le> size_of (em_chunk s')"
  by (auto simp: grown_def segment_def extends_def)

lemma knows_chunk:
  "num_locals c = num_locals (em_chunk s) \<Longrightarrow> ch_constants c = ch_constants (em_chunk s) \<Longrightarrow>
   knows m K (s\<lparr>em_chunk := c\<rparr>) = knows m K s"
  by (simp add: knows_def is_str_const_def const_str_def)

lemma emits_jump_over [emit_step]:
  assumes op: "op \<in> set conditional_jumps" and a: "0 < a" "b = taken op a" and p: "emits S m K (a - 1) b p"
  shows "emits S m K a b (State_Monad.bind (emit_op op l 0) (\<lambda>j. State_Monad.bind p (\<lambda>_. patch_here j)))"
    (is "emits S m K a b ?p")
proof (rule emitsI)
  fix s :: "'a estate"
  let ?j = "size_of (em_chunk s)"
  define s1 where "s1 = s\<lparr>em_chunk := fst (emit op l 0 (em_chunk s))\<rparr>"
  define s2 where "s2 = exec p s1"
  have run: "exec ?p s = s2\<lparr>em_chunk := patch ?j (size_of (em_chunk s2)) (em_chunk s2)\<rparr>"
    by (simp add: emit_op_def s1_def s2_def patch_here_def here_def patch_to_def on_chunk_def split: prod.split)
  show "bad s \<Longrightarrow> bad (exec ?p s)"
    unfolding run using emits_keeps_bad [OF p, of s1] by (simp add: s1_def s2_def)
  assume s: "knows m K s" and ok: "\<not> bad (exec ?p s)"
  have g1: "grown S {(?j, taken op a, op = Op_Jump)} {?j} a (a - 1) s s1" and k1: "knows m K s1"
    unfolding s1_def using s op a by (auto intro!: grown_jump simp: jumps_def conditional_jumps_def knows_chunk)
  have g2: "grown S {(?j, taken op a, op = Op_Jump)} {?j} a b s s2"
    using emits_then(1) [OF p g1 k1] ok unfolding run s2_def by simp
  have "grown S {(?j, taken op a, op = Op_Jump)} ({?j} - {?j}) a b s (exec ?p s)"
    unfolding run using a(2) by (intro grown_patch [OF g2]) auto
  then show "grown S {} {} a b s (exec ?p s)"
    by (rule grown_mono) auto
qed

lemma emits_branches [emit_step]:
  assumes a: "0 < a" and yes: "emits S m K (a - 1) b yes" and no: "emits S m K (a - 1) b no"
  shows "emits S m K a b (emit_branches l yes no)"
proof (rule emitsI)
  fix s :: "'a estate"
  let ?p = "emit_branches l yes no" and ?j = "size_of (em_chunk s)"
  define s1 where "s1 = s\<lparr>em_chunk := fst (emit Op_JumpIfFalse l 0 (em_chunk s))\<rparr>"
  define s2 where "s2 = exec yes s1"
  let ?k = "size_of (em_chunk s2)"
  define s3 where "s3 = s2\<lparr>em_chunk := fst (emit Op_Jump l 0 (em_chunk s2))\<rparr>"
  define s4 where "s4 = s3\<lparr>em_chunk := patch ?j (size_of (em_chunk s3)) (em_chunk s3)\<rparr>"
  define s5 where "s5 = exec no s4"
  have run: "exec ?p s = s5\<lparr>em_chunk := patch ?k (size_of (em_chunk s5)) (em_chunk s5)\<rparr>"
    by (simp add: emit_branches_def emit_op_def s1_def s2_def s3_def s4_def s5_def patch_here_def here_def patch_to_def
        on_chunk_def split: prod.split)
  show "bad s \<Longrightarrow> bad (exec ?p s)"
    unfolding run using emits_keeps_bad [OF yes, of s1] emits_keeps_bad [OF no, of s4]
    by (simp add: s1_def s2_def s3_def s4_def s5_def)
  assume s: "knows m K s" and ok: "\<not> bad (exec ?p s)"
  have ok5: "\<not> bad s5" using ok unfolding run by simp
  then have "\<not> bad s4" unfolding s5_def using emits_bad [OF no] by blast
  then have ok2: "\<not> bad s2" by (simp add: s3_def s4_def)
  let ?X = "{(?j, a - 1, False)}" and ?Y = "{(?k, b, True)}"
  have g1: "grown S ?X {?j} a (a - 1) s s1" and k1: "knows m K s1"
    using grown_jump [OF s, of Op_JumpIfFalse a "a - 1" S l 0] s a
    by (simp_all add: s1_def taken_def jumps_def conditional_jumps_def knows_chunk)
  have g2: "grown S ?X {?j} a b s s2" and k2: "knows m K s2"
    using emits_then [OF yes g1 k1] ok2 unfolding s2_def by simp_all
  have g3: "grown S ?Y {?k} b (a - 1) s2 s3" and k3: "knows m K s3"
    using grown_jump [OF k2, of Op_Jump b "a - 1" S l 0] k2 by (simp_all add: s3_def taken_def jumps_def knows_chunk)
  have g4: "grown S (?X \<union> ?Y) ({?j} \<union> {?k} - {?j}) a (a - 1) s s4"
    unfolding s4_def by (rule grown_patch [where w = "a - 1" and u = False, OF grown_trans [OF g2 g3]]) auto
  have k4: "knows m K s4"
    using k3 by (simp add: s4_def knows_chunk)
  have g5: "grown S (?X \<union> ?Y) ({?j} \<union> {?k} - {?j}) a b s s5"
    using emits_then(1) [OF no g4 k4] ok5 unfolding s5_def by simp
  have "grown S (?X \<union> ?Y) ({?j} \<union> {?k} - {?j} - {?k}) a b s (exec ?p s)"
    unfolding run by (rule grown_patch [where w = b and u = True, OF g5]) auto
  then show "grown S {} {} a b s (exec ?p s)"
    by (rule grown_mono) auto
qed

section \<open>Loops\<close>

text \<open>The body of a loop: its breaks and continues become open jumps of the segment.\<close>

lemma grown_loop_body:
  assumes body: "grown S {} {} 0 0 (s\<lparr>em_loops := ([], []) # em_loops s\<rparr>) s'"
  obtains bs cs where "em_loops s' = (bs, cs) # em_loops s"
    "grown S (pending (set bs \<union> set cs)) (set bs \<union> set cs) 0 0 s (s'\<lparr>em_loops := em_loops s\<rparr>)"
proof -
  obtain bs cs where l: "em_loops s' = (bs, cs) # em_loops s"
    and seg: "segment S ({} \<union> pending (set bs \<union> set cs)) ({} \<union> (set bs \<union> set cs)) 0 0 (em_chunk s) (em_chunk s')"
    using body by (auto simp: grown_def loops_grown_def)
  have "grown S (pending (set bs \<union> set cs)) (set bs \<union> set cs) 0 0 s (s'\<lparr>em_loops := em_loops s\<rparr>)"
    using seg body loops_grown_refl [of "em_loops s"] unfolding grown_def
    by (intro conjI exI [of _ "{}"]) (simp_all add: pending_def)
  with l show ?thesis by (rule that)
qed

lemma emits_leave:
  assumes add: "\<And>j s b c r. em_loops s = (b, c) # r \<Longrightarrow> \<exists>b' c'. run_state (add j) s = ((), s\<lparr>em_loops := (b @ b', c @ c') # r\<rparr>)
      \<and> set b' \<union> set c' = {j}"
  shows "emits S m K 0 0 (emit_leave_loop l w add :: ('t, unit) emitter)"
proof (rule emitsI)
  fix s :: "'t estate"
  let ?p = "emit_leave_loop l w add" and ?j = "size_of (em_chunk s)"
  let ?s1 = "s\<lparr>em_chunk := fst (emit Op_Jump l 0 (em_chunk s))\<rparr>"
  have jump: "segment S ({} \<union> pending {?j}) ({} \<union> {?j}) 0 0 (em_chunk s) (em_chunk ?s1)"
    using segment_emit_jump [of Op_Jump 0 0 S "em_chunk s" l 0] by (simp add: jumps_def pending_def taken_def)
  show "bad s \<Longrightarrow> bad (exec ?p s)"
    using add [of ?s1 _ _ _ ?j]
    by (cases "em_loops s") (auto simp: emit_leave_loop_def emit_op_def em_error_def bad_def)
  assume s: "knows m K s" and ok: "\<not> bad (exec ?p s)"
  show "grown S {} {} 0 0 s (exec ?p s)"
  proof (cases "em_loops s")
    case Nil
    with ok show ?thesis by (simp add: emit_leave_loop_def em_error_def bad_def)
  next
    case (Cons bc r)
    obtain b c where bc: "bc = (b, c)" by (cases bc)
    with add [of ?s1 b c r ?j] Cons obtain b' c' where
      "run_state (add ?j) ?s1 = ((), ?s1\<lparr>em_loops := (b @ b', c @ c') # r\<rparr>)" "set b' \<union> set c' = {?j}"
      by auto
    with Cons bc s jump show ?thesis
      unfolding grown_def
      by (intro conjI exI [of _ "{?j}"]) (auto simp: emit_leave_loop_def emit_op_def knows_def loops_grown_def)
  qed
qed

lemma emits_leave_loop [emit_step]:
  "emits S m K 0 0 (emit_leave_loop l w add_break)" "emits S m K 0 0 (emit_leave_loop l w add_continue)"
proof -
  show "emits S m K 0 0 (emit_leave_loop l w add_break)"
    by (rule emits_leave) (simp add: add_break_def, rule exI, rule exI [of _ "[]"], auto)
  show "emits S m K 0 0 (emit_leave_loop l w add_continue)"
    by (rule emits_leave) (simp add: add_continue_def, rule exI [of _ "[]"], auto)
qed

text \<open>
  Both loops are the same: the jumps of the body are patched, a jump back closes the loop, and everything
  that leaves comes behind it.
\<close>

definition close_loop :: "source_loc \<Rightarrow> nat \<Rightarrow> nat \<Rightarrow> (nat \<Rightarrow> ('t, nat) emitter) \<Rightarrow> ('t, unit) emitter \<Rightarrow> ('t, unit) emitter" where
  "close_loop l begin to_end target advance = do {
     t \<leftarrow> target begin;
     (breaks, continues) \<leftarrow> top_loop;
     patch_all continues t;
     advance;
     emit_op Op_Jump l begin;
     patch_here to_end;
     h \<leftarrow> here;
     patch_all breaks h;
     pop_loop }"

definition emit_loop :: "source_loc \<Rightarrow> ('t, unit) emitter \<Rightarrow> ('t, unit) emitter \<Rightarrow> ('t, unit) emitter \<Rightarrow>
    (nat \<Rightarrow> ('t, nat) emitter) \<Rightarrow> ('t, unit) emitter \<Rightarrow> ('t, unit) emitter" where
  "emit_loop l cond pre body target advance = do {
     begin \<leftarrow> here;
     cond;
     to_end \<leftarrow> emit_op Op_JumpIfFalse l 0;
     pre;
     push_loop;
     body;
     close_loop l begin to_end target advance }"

lemma emit_while_loop: "emit_while l cond body = emit_loop l cond (give ()) body give (give ())"
  by (simp add: emit_while_def emit_loop_def close_loop_def)

lemma emit_for_loop_loop:
  "emit_for_loop l items count index var body =
     emit_loop l (do { load_local l index; load_local l count; emit_op Op_Lt l 0; give () })
       (do { load_local l items; load_local l index; emit_op Op_GetIndex l 0; emit_op Op_StoreLocal l var; give () })
       body (\<lambda>_. here)
       (do { load_local l index; emit_value l (HInt 1); emit_op Op_Add l 0; emit_op Op_StoreLocal l index; give () })"
  by (simp add: emit_for_loop_def emit_loop_def close_loop_def bind_assoc)

lemma run_patch_state:
  "exec (patch_all js t) (s\<lparr>em_loops := L\<rparr>) = (exec (patch_all js t) s)\<lparr>em_loops := L\<rparr>"
  by (simp add: run_patch_all)

definition sticky :: "('t, 'a) emitter \<Rightarrow> bool" where
  "sticky p \<longleftrightarrow> (\<forall>s. bad s \<longrightarrow> bad (exec p s))"

lemma emits_sticky: "emits S m K a b p \<Longrightarrow> sticky p"
  by (simp add: emits_def sticky_def)

lemma sticky_bind: "sticky p \<Longrightarrow> (\<And>x. sticky (f x)) \<Longrightarrow> sticky (State_Monad.bind p f)"
  by (simp add: sticky_def split: prod.split) (metis snd_conv)

lemma sticky_prod: "(\<And>x y. sticky (f x y)) \<Longrightarrow> sticky (case v of (x, y) \<Rightarrow> f x y)"
  by (cases v) simp

lemma sticky_steps:
  "sticky here" "sticky (emit_op op l k)" "sticky push_loop" "sticky top_loop" "sticky pop_loop" "sticky (patch_all js t)"
  "sticky (patch_here j)" "sticky (give x)"
  by (simp_all add: sticky_def here_def emit_op_def push_loop_def top_loop_def pop_loop_def run_patch_all patch_here_def
      patch_to_def on_chunk_def) (simp_all add: bad_def)

lemma emit_is_patch: "fst (emit op l k c) = patch (size_of c) k (fst (emit op l 0 c))"
  by (simp add: emit_def patch_def)

lemma run_patch_pair:
  "run_state (patch_all js t) s = ((), s\<lparr>em_chunk := fold (\<lambda>j. patch j t) js (em_chunk s)\<rparr>)"
  using run_patch_all [of js t s] by (simp add: prod_eq_iff)

lemma run_close_loop:
  assumes loops: "em_loops s = (bs, cs) # L" and target: "run_state (target b) s = (t, s)"
    and advance_loops: "\<And>s L. run_state advance (s\<lparr>em_loops := L\<rparr>) = ((), (exec advance s)\<lparr>em_loops := L\<rparr>)"
  shows "exec (close_loop l b j target advance) s =
       (let s5 = exec (patch_all cs t) (s\<lparr>em_loops := L\<rparr>);
            s6 = exec advance s5;
            s7 = s6\<lparr>em_chunk := patch (size_of (em_chunk s6)) b (fst (emit Op_Jump l 0 (em_chunk s6)))\<rparr>;
            s8 = s7\<lparr>em_chunk := patch j (size_of (em_chunk s7)) (em_chunk s7)\<rparr>
        in (exec (patch_all bs (size_of (em_chunk s8))) s8)\<lparr>em_loops := L\<rparr>)"
proof -
  define s0 where "s0 = s\<lparr>em_loops := L\<rparr>"
  have s: "s = s0\<lparr>em_loops := (bs, cs) # L\<rparr>"
    using loops by (cases s) (simp add: s0_def)
  define s5 where "s5 = exec (patch_all cs t) s0"
  have five: "run_state (patch_all cs t) s = ((), s5\<lparr>em_loops := (bs, cs) # L\<rparr>)"
    unfolding s s5_def by (simp add: run_patch_pair)
  define s6 where "s6 = exec advance s5"
  have six: "run_state advance (s5\<lparr>em_loops := (bs, cs) # L\<rparr>) = ((), s6\<lparr>em_loops := (bs, cs) # L\<rparr>)"
    unfolding advance_loops s6_def ..
  have jump: "fst (emit Op_Jump l b c) = patch (size_of c) b (fst (emit Op_Jump l 0 c))" for c
    by (rule emit_is_patch)
  show ?thesis
    unfolding s0_def [symmetric] s5_def [symmetric] s6_def [symmetric] Let_def
    by (simp add: close_loop_def target top_loop_def loops five six emit_op_def jump patch_here_def here_def patch_to_def
        on_chunk_def pop_loop_def) (simp add: run_patch_pair)
qed

lemma emits_loop:
  fixes cond :: "('t, unit) emitter"
  assumes cond: "emits S m K 0 (Suc 0) cond" and pre: "emits S m K 0 0 pre" and body: "emits S m K 0 0 body"
    and target: "\<And>b. target b = give b \<or> target b = here" and advance: "emits S m K 0 0 advance"
    and advance_loops: "\<And>s L. run_state advance (s\<lparr>em_loops := L\<rparr>) = ((), (exec advance s)\<lparr>em_loops := L\<rparr>)"
  shows "emits S m K 0 0 (emit_loop l cond pre body target advance)"
proof (rule emitsI)
  fix s :: "'t estate"
  let ?p = "emit_loop l cond pre body target advance" and ?b = "size_of (em_chunk s)"
  define s1 where "s1 = exec cond s"
  let ?j = "size_of (em_chunk s1)"
  define s2 where "s2 = s1\<lparr>em_chunk := fst (emit Op_JumpIfFalse l 0 (em_chunk s1))\<rparr>"
  define s3 where "s3 = exec pre s2"
  define s3' where "s3' = s3\<lparr>em_loops := ([], []) # em_loops s3\<rparr>"
  define s4 where "s4 = exec body s3'"
  have run: "exec ?p s = exec (close_loop l ?b ?j target advance) s4"
    by (simp add: emit_loop_def s1_def s2_def s3_def s3'_def s4_def here_def emit_op_def push_loop_def split: prod.split)
  have "sticky (target b)" for b
    using target [of b] by (auto simp: sticky_steps)
  then have stick: "sticky (close_loop l ?b ?j target advance)"
    unfolding close_loop_def
    by (intro sticky_bind sticky_steps sticky_prod emits_sticky [OF advance])
  show "bad s \<Longrightarrow> bad (exec ?p s)"
  proof -
    assume "bad s"
    then have "bad s1" unfolding s1_def by (rule emits_keeps_bad [OF cond])
    then have "bad s3" unfolding s3_def by (intro emits_keeps_bad [OF pre]) (simp add: s2_def)
    then have "bad s4" unfolding s4_def by (intro emits_keeps_bad [OF body]) (simp add: s3'_def bad_def)
    with stick show ?thesis unfolding run by (simp add: sticky_def)
  qed
  assume s: "knows m K s" and ok: "\<not> bad (exec ?p s)"
  have ok4: "\<not> bad s4" using ok stick unfolding run by (auto simp: sticky_def)
  then have "\<not> bad s3'" unfolding s4_def using emits_bad [OF body] by blast
  then have ok3: "\<not> bad s3" by (simp add: s3'_def bad_def)
  then have "\<not> bad s2" unfolding s3_def using emits_bad [OF pre] by blast
  then have ok1: "\<not> bad s1" by (simp add: s2_def)
  let ?X = "{(?j, 0, False)}"
  have g1: "grown S {} {} 0 (Suc 0) s s1" and k1: "knows m K s1"
    using emits_grown [OF cond s] grown_knows [OF emits_grown [OF cond s] s] ok1 unfolding s1_def by simp_all
  have g2: "grown S ({} \<union> ?X) ({} \<union> {?j}) 0 0 s s2" and k2: "knows m K s2"
    using grown_trans [OF g1 grown_jump [OF k1, of Op_JumpIfFalse "Suc 0" 0 S l 0]] k1
    by (simp_all add: s2_def taken_def jumps_def conditional_jumps_def knows_chunk)
  have g3: "grown S ({} \<union> ?X) ({} \<union> {?j}) 0 0 s s3" and k3: "knows m K s3"
    using emits_then [OF pre g2 k2] ok3 unfolding s3_def by simp_all
  have "knows m K s3'"
    using k3 by (simp add: s3'_def knows_def)
  from emits_grown [OF body this] ok4 have "grown S {} {} 0 0 s3' s4" by (simp add: s4_def)
  then obtain bs cs where loops: "em_loops s4 = (bs, cs) # em_loops s3"
    and g34: "grown S (pending (set bs \<union> set cs)) (set bs \<union> set cs) 0 0 s3 (s4\<lparr>em_loops := em_loops s3\<rparr>)"
    unfolding s3'_def by (rule grown_loop_body)
  let ?L = "em_loops s3" and ?P = "set bs \<union> set cs"
  have g4: "grown S (?X \<union> pending ?P) ({?j} \<union> ?P) 0 0 s (s4\<lparr>em_loops := ?L\<rparr>)"
    using grown_trans [OF g3 g34] by simp
  obtain t where t: "t = ?b \<or> t = size_of (em_chunk s4)" and run_t: "run_state (target ?b) s4 = (t, s4)"
    using target [of ?b] by (auto simp: here_def)
  have rest: "exec (close_loop l ?b ?j target advance) s4 =
       (let s5 = exec (patch_all cs t) (s4\<lparr>em_loops := ?L\<rparr>);
            s6 = exec advance s5;
            s7 = s6\<lparr>em_chunk := patch (size_of (em_chunk s6)) ?b (fst (emit Op_Jump l 0 (em_chunk s6)))\<rparr>;
            s8 = s7\<lparr>em_chunk := patch ?j (size_of (em_chunk s7)) (em_chunk s7)\<rparr>
        in (exec (patch_all bs (size_of (em_chunk s8))) s8)\<lparr>em_loops := ?L\<rparr>)"
    by (rule run_close_loop) (rule loops run_t advance_loops)+
  define s5 where "s5 = exec (patch_all cs t) (s4\<lparr>em_loops := ?L\<rparr>)"
  define s6 where "s6 = exec advance s5"
  let ?k = "size_of (em_chunk s6)"
  define s6' where "s6' = s6\<lparr>em_chunk := fst (emit Op_Jump l 0 (em_chunk s6))\<rparr>"
  define s7 where "s7 = s6'\<lparr>em_chunk := patch ?k ?b (em_chunk s6')\<rparr>"
  define s8 where "s8 = s7\<lparr>em_chunk := patch ?j (size_of (em_chunk s7)) (em_chunk s7)\<rparr>"
  define s9 where "s9 = exec (patch_all bs (size_of (em_chunk s8))) s8"
  have run9: "exec ?p s = s9\<lparr>em_loops := ?L\<rparr>"
    unfolding run rest by (simp add: Let_def s5_def s6_def s6'_def s7_def s8_def s9_def)
  have "\<not> bad s9"
    using ok unfolding run9 by (simp add: bad_def)
  then have ok6: "\<not> bad s6"
    by (simp add: s9_def s8_def s7_def s6'_def run_patch_all)
  have in_pending: "j \<in> ?P \<Longrightarrow> (j, 0, True) \<in> ?X \<union> pending ?P" for j
    by (auto simp: pending_def)
  have g5: "grown S (?X \<union> pending ?P) ({?j} \<union> ?P - set cs) 0 0 s s5"
    unfolding s5_def using t in_pending by (intro grown_patch_all [OF g4, where w = 0 and u = True]) auto
  have k5: "knows m K s5"
    by (rule grown_knows [OF g5 s])
  have g6: "grown S (?X \<union> pending ?P) ({?j} \<union> ?P - set cs) 0 0 s s6" and k6: "knows m K s6"
    using emits_then [OF advance g5 k5] ok6 unfolding s6_def by simp_all
  have jump: "grown S {(?k, 0, True)} {?k} 0 0 s6 s6'"
    using grown_jump [OF k6, of Op_Jump 0 0 S l 0] by (simp add: s6'_def taken_def jumps_def)
  have g7: "grown S (?X \<union> pending ?P \<union> {(?k, 0, True)}) ({?j} \<union> ?P - set cs \<union> {?k} - {?k}) 0 0 s s7"
    unfolding s7_def by (rule grown_patch [where w = 0 and u = True, OF grown_trans [OF g6 jump]]) auto
  have g8: "grown S (?X \<union> pending ?P \<union> {(?k, 0, True)}) ({?j} \<union> ?P - set cs \<union> {?k} - {?k} - {?j}) 0 0 s s8"
    unfolding s8_def by (rule grown_patch [where w = 0 and u = False, OF g7]) auto
  have g9: "grown S (?X \<union> pending ?P \<union> {(?k, 0, True)}) ({?j} \<union> ?P - set cs \<union> {?k} - {?k} - {?j} - set bs) 0 0 s s9"
    unfolding s9_def using in_pending by (intro grown_patch_all [OF g8, where w = 0 and u = True]) auto
  have loops9: "em_loops s9 = em_loops s6"
    by (simp add: s9_def s8_def s7_def s6'_def run_patch_all)
  have "s5 = s5\<lparr>em_loops := ?L\<rparr>"
    by (simp add: s5_def run_patch_all)
  then have "em_loops s6 = ?L"
    unfolding s6_def using advance_loops [where s = s5 and L = ?L] by (metis snd_conv estate.select_convs(6) estate.surjective estate.update_convs(6))
  then have "s9\<lparr>em_loops := ?L\<rparr> = s9"
    using loops9 by (cases s9) simp
  then show "grown S {} {} 0 0 s (exec ?p s)"
    unfolding run9 using grown_mono [OF g9, of "{}" "{}"] by fastforce
qed

section \<open>Try\<close>

lemma segment_range:
  assumes "segment S X D a 1 c c'" "catch_pc r = size_of c'"
  shows "segment S X D a 1 c (c'\<lparr>ch_try := ch_try c' @ [r]\<rparr>)"
proof -
  let ?c = "c'\<lparr>ch_try := ch_try c' @ [r]\<rparr>"
  obtain h where h: "segment_by h S X D a 1 c c'" and e: "extends c c'"
    using assms(1) by (auto simp: segment_def)
  obtain rs where rs: "ch_try c' = ch_try c @ rs"
    "\<forall>r \<in> set rs. size_of c \<le> catch_pc r \<and> catch_pc r \<le> size_of c' \<and> h (catch_pc r) = 1"
    using h by (auto simp: segment_by_def)
  have "is_str_const ?c k = is_str_const c' k" for k
    by (simp add: is_str_const_def const_str_def)
  then have "operand_ok S ?c o' k = operand_ok S c' o' k" for o' k
    by (simp add: operand_ok_def)
  then have shape: "shape_ok S ?c h pc = shape_ok S c' h pc" for pc
    by (simp add: shape_ok_def)
  have "target_ok ?c h lo hi pc = target_ok c' h lo hi pc" "open_ok ?c h lo hi x = open_ok c' h lo hi x" for lo hi pc x
    by (simp_all add: target_ok_def open_ok_def)
  with h shape rs assms(2) e have "segment_by h S X D a 1 c ?c"
    unfolding segment_by_def by (intro conjI exI [of _ "rs @ [r]"]) (auto simp: extends_def)
  moreover have "extends c ?c"
    using e by (simp add: extends_def)
  ultimately show ?thesis by (auto simp: segment_def)
qed

lemma emits_scoped [emit_step]: "emits S m K a b p \<Longrightarrow> emits S m K a b (scoped p)"
  unfolding scoped_def by (rule emits_bind [OF emits_begin_scope] emits_bind emits_end_scope | simp)+

lemma emits_try [emit_step]:
  assumes body: "emits S m K 0 0 body" and name: "emits S m K (Suc 0) 0 (first :: ('t, unit) emitter)"
    and handler: "emits S m K 0 0 handler"
  shows "emits S m K 0 0 (do {
     b \<leftarrow> here; scoped body; e \<leftarrow> here;
     to_end \<leftarrow> emit_op Op_Jump l 0;
     c \<leftarrow> here; add_range b e c;
     scoped (do { first; handler });
     patch_here to_end })" (is "emits S m K 0 0 ?p")
proof (rule emitsI)
  fix s :: "'t estate"
  define q where "q = scoped (do { first; handler })"
  have sb: "emits S m K 0 0 (scoped body)"
    using body by (rule emits_scoped)
  have sq: "emits S m K (Suc 0) 0 q"
    unfolding q_def by (rule emits_scoped emits_bind [OF name] handler)+
  define s1 where "s1 = exec (scoped body) s"
  let ?j = "size_of (em_chunk s1)"
  define s2 where "s2 = s1\<lparr>em_chunk := fst (emit Op_Jump l 0 (em_chunk s1))\<rparr>"
  define r where "r = \<lparr>tr_begin = size_of (em_chunk s), tr_end = ?j, catch_pc = size_of (em_chunk s2)\<rparr>"
  define s3 where "s3 = s2\<lparr>em_chunk := (em_chunk s2)\<lparr>ch_try := ch_try (em_chunk s2) @ [r]\<rparr>\<rparr>"
  define s4 where "s4 = exec q s3"
  have run: "exec ?p s = s4\<lparr>em_chunk := patch ?j (size_of (em_chunk s4)) (em_chunk s4)\<rparr>"
    by (simp add: q_def [symmetric] emit_op_def s1_def s2_def r_def s3_def s4_def here_def add_range_def on_chunk_def
        patch_here_def patch_to_def split: prod.split)
  show "bad s \<Longrightarrow> bad (exec ?p s)"
    unfolding run using emits_keeps_bad [OF sb, of s] emits_keeps_bad [OF sq, of s3]
    by (simp add: s1_def s2_def s3_def s4_def)
  assume s: "knows m K s" and ok: "\<not> bad (exec ?p s)"
  have ok4: "\<not> bad s4" using ok unfolding run by simp
  then have "\<not> bad s3" unfolding s4_def using emits_bad [OF sq] by blast
  then have ok1: "\<not> bad s1" by (simp add: s2_def s3_def)
  let ?X = "{(?j, 0, True)}"
  have g1: "grown S {} {} 0 0 s s1" and k1: "knows m K s1"
    using emits_grown [OF sb s] grown_knows [OF emits_grown [OF sb s] s] ok1 unfolding s1_def by simp_all
  have g2: "grown S ?X {?j} 0 1 s s2" and k2: "knows m K s2"
    using grown_trans [OF g1 grown_jump [OF k1, of Op_Jump 0 1 S l 0]] k1
    by (simp_all add: s2_def taken_def jumps_def knows_chunk)
  have g3: "grown S ?X {?j} 0 1 s s3"
    using g2 segment_range [of S _ _ 0 "em_chunk s" "em_chunk s2" r] unfolding grown_def
    by (auto simp: s3_def r_def)
  have k3: "knows m K s3"
    using k2 by (simp add: s3_def knows_chunk)
  have g4: "grown S ?X {?j} 0 0 s s4"
    using emits_then(1) [OF sq _ k3] g3 ok4 unfolding s4_def by simp
  have "grown S ?X ({?j} - {?j}) 0 0 s (exec ?p s)"
    unfolding run by (rule grown_patch [OF g4]) auto
  then show "grown S {} {} 0 0 s (exec ?p s)"
    by (rule grown_mono) auto
qed

section \<open>Expressions\<close>

text \<open>\<open>em\<close> emits code that leaves one value.\<close>

definition pushes :: "(nat \<Rightarrow> nat \<Rightarrow> bool) \<Rightarrow> 't rec_emit \<Rightarrow> bool" where
  "pushes S em \<longleftrightarrow> (\<forall>e m K a. emits S m K a (Suc a) (em e))"

lemma pushes_tail: "pushes S em \<Longrightarrow> b = Suc a \<Longrightarrow> emits S m K a b (em e)"
  by (simp add: pushes_def)

lemma pushes_bind: "pushes S em \<Longrightarrow> (\<And>x. emits S m K (Suc a) c (f x)) \<Longrightarrow> emits S m K a c (State_Monad.bind (em e) f)"
  by (rule emits_bind) (simp_all add: pushes_def)

lemma emits_tail: "emits S m K a b (State_Monad.bind p give) \<Longrightarrow> emits S m K a b p"
  by simp

lemma emits_value: "b = Suc a \<Longrightarrow> emits S m K a b (emit_value l v)"
proof (rule emitsI)
  fix s :: "'t estate"
  assume b: "b = Suc a" and s: "knows m K s"
  let ?c1 = "fst (add_constant v (em_chunk s))"
  let ?c2 = "fst (emit Op_Const l (length (ch_constants (em_chunk s))) ?c1)"
  have "segment S {} {} a a (em_chunk s) ?c1"
    by (rule segment_same) (simp_all add: add_constant_def)
  moreover have "segment S {} {} a b ?c1 ?c2"
    unfolding b by (rule segment_emit) (simp_all add: operand_ok_def add_constant_def jumps_def conditional_jumps_def after_op_def)
  ultimately have "segment S {} {} a b (em_chunk s) ?c2"
    using segment_trans by fastforce
  then have "grown S {} {} a b s (s\<lparr>em_chunk := ?c2\<rparr>)"
    using s by (intro grown_chunk) (simp_all add: add_constant_def knows_def)
  then show "grown S {} {} a b s (exec (emit_value l v) s)"
    by (simp add: emit_value_def new_constant_def emit_op_def)
qed (simp add: emit_value_def new_constant_def emit_op_def bad_grows)

lemma emits_value_bind [emit_step]:
  "emits S m K (Suc a) c (f ()) \<Longrightarrow> emits S m K a c (State_Monad.bind (emit_value l v) f)"
  by (rule emits_bind [OF emits_value]) simp_all

lemmas [emit_step] = emits_value

lemma emits_load [emit_step]: "k < m \<Longrightarrow> b = Suc a \<Longrightarrow> emits S m K a b (load_local l k)"
  unfolding load_local_def
  by (rule emits_bind [OF emits_op emits_give]) (auto simp: jumps_def conditional_jumps_def operand_known_def after_op_def)

lemma emits_load_bind [emit_step]:
  "k < m \<Longrightarrow> emits S m K (Suc a) c (f ()) \<Longrightarrow> emits S m K a c (State_Monad.bind (load_local l k) f)"
  by (rule emits_bind [OF emits_load]) simp_all

lemma emits_scope_bind [emit_step]:
  "emits S m K a c (f ()) \<Longrightarrow> emits S m K a c (State_Monad.bind begin_scope f)"
  "emits S m K a c (f ()) \<Longrightarrow> emits S m K a c (State_Monad.bind end_scope f)"
  "emits S m K a c (f ()) \<Longrightarrow> emits S m K a c (State_Monad.bind set_await f)"
  by (rule emits_bind [OF emits_begin_scope] emits_bind [OF emits_end_scope] emits_bind [OF emits_set_await]; simp)+

lemma emits_declare_store [emit_step]:
  assumes "a = Suc b" and "\<And>i. emits S (max m (Suc i)) K b c (f i)"
  shows "emits S m K a c (State_Monad.bind (declare_store n l ty) f)"
  unfolding declare_store_def bind_assoc
  by (rule emits_declare, rule emits_op_bind, simp_all add: assms jumps_def conditional_jumps_def operand_known_def after_op_def)

text \<open>What discharges the side conditions of \<open>emits_op_bind\<close>.\<close>

lemmas op_simps = jumps_def conditional_jumps_def operand_known_def after_op_def taken_def

lemma emits_each [emit_step]:
  assumes "\<And>x a. x \<in> set xs \<Longrightarrow> emits S m K a (a + d) (f x)" and "b = a + length xs * d"
  shows "emits S m K a b (each f xs)"
  using assms
proof (induction xs arbitrary: a)
  case (Cons x xs)
  have "emits S m K (a + d) b (each f xs)"
    using Cons.prems by (intro Cons.IH) (simp_all add: algebra_simps)
  with Cons.prems(1) show ?case by (auto intro: emits_bind)
qed (auto intro: emits_give)

lemma emits_each_bind:
  assumes "\<And>x a. x \<in> set xs \<Longrightarrow> emits S m K a (a + d) (f x)" and "emits S m K (a + length xs * d) c (g ())"
  shows "emits S m K a c (State_Monad.bind (each f xs) g)"
  by (rule emits_bind [OF emits_each [OF assms(1) refl]]) (simp_all add: assms(2))

lemma emits_check:
  assumes "emits S m K a a p" and "emits S m K a b (f True)" and "emits S m K a b (f False)"
  shows "emits S m K a b (State_Monad.bind p f)"
  using assms(1) by (rule emits_bind) (metis (full_types) assms(2,3))

text \<open>A guard that reports: after \<open>False\<close> the emission has failed, so nothing is required of it.\<close>

definition guards :: "(nat \<Rightarrow> nat \<Rightarrow> bool) \<Rightarrow> nat \<Rightarrow> nat set \<Rightarrow> nat \<Rightarrow> nat \<Rightarrow> ('t, bool) emitter \<Rightarrow> bool" where
  "guards S m K a b p \<longleftrightarrow>
     emits S m K a b p \<and> (\<forall>s. \<not> bad (exec p s) \<longrightarrow> fst (run_state p s))"

lemma guards_bind:
  assumes p: "guards S m K a b p" and "emits S m K b c (f True)" "sticky (f False)"
  shows "emits S m K a c (State_Monad.bind p f)"
proof (rule emitsI)
  fix s
  have pe: "emits S m K a b p" using p by (simp add: guards_def)
  have run: "exec (State_Monad.bind p f) s = exec (f (fst (run_state p s))) (exec p s)"
    by (simp split: prod.split)
  have stick: "sticky (f x)" for x
    using assms(3) emits_sticky [OF assms(2)] by (cases x) simp_all
  then show "bad s \<Longrightarrow> bad (exec (State_Monad.bind p f) s)"
    unfolding run using emits_keeps_bad [OF pe] by (simp add: sticky_def)
  assume s: "knows m K s" and ok: "\<not> bad (exec (State_Monad.bind p f) s)"
  from ok have ok1: "\<not> bad (exec p s)"
    unfolding run using stick by (auto simp: sticky_def)
  then have t: "fst (run_state p s)"
    using p by (simp add: guards_def)
  from emits_grown [OF pe s ok1] have g: "grown S {} {} a b s (exec p s)" .
  from grown_trans [OF g emits_grown [OF assms(2) grown_knows [OF g s]]] ok t
  show "grown S {} {} a c s (exec (State_Monad.bind p f) s)"
    unfolding run by simp
qed

lemma sticky_give: "sticky (give x)"
  by (simp add: sticky_def)

lemma guards_step [emit_step]:
  assumes "guards S m K a b p" "emits S m K b c q"
  shows "emits S m K a c (State_Monad.bind p (\<lambda>go. if \<not> go then give () else q))"
    "emits S m K a c (State_Monad.bind p (\<lambda>go. if go then q else give ()))"
  by (rule guards_bind [OF assms(1)]; use assms(2) in \<open>simp add: sticky_give\<close>)+

lemma guards_give: "a = b \<Longrightarrow> guards S m K a b (give True)"
  by (simp add: guards_def emits_give)

lemma guards_fail: "guards S m K a b (State_Monad.bind (em_error l msg) (\<lambda>_. give False))"
  unfolding guards_def by (auto intro!: emitsI simp: em_error_def bad_def)

lemma guards_if: "(c \<Longrightarrow> guards S m K a b p) \<Longrightarrow> (\<not> c \<Longrightarrow> guards S m K a b q) \<Longrightarrow> guards S m K a b (if c then p else q)"
  by simp

lemma guards_option:
  "(v = None \<Longrightarrow> guards S m K a b p) \<Longrightarrow> (\<And>x. v = Some x \<Longrightarrow> guards S m K a b (f x)) \<Longrightarrow>
   guards S m K a b (case v of None \<Rightarrow> p | Some x \<Rightarrow> f x)"
  by (cases v) simp_all

lemma guards_locals: "(\<And>ls. guards S m K a b (f ls)) \<Longrightarrow> guards S m K a b (State_Monad.bind get_locals f)"
  by (auto simp: guards_def get_locals_def intro: emits_get_locals [unfolded get_locals_def])

lemma comprobar_guards [emit_step]:
  "guards S m K a a (comprobar_campo ev ob campo l)" "guards S m K a a (comprobar_metodo_builtin e mm r)"
  unfolding comprobar_campo_def comprobar_metodo_builtin_def Let_def
  by (rule guards_locals, (rule guards_if guards_option guards_give guards_fail | simp)+)+

lemma emit_positional_guards:
  assumes "pushes S em"
  shows "guards S m K a (a + length as) (emit_positional em msg as)"
proof (induction as arbitrary: a)
  case Nil
  show ?case by (simp add: guards_give)
next
  case (Cons x as)
  have IH: "guards S m K (Suc a) (Suc a + length as) (emit_positional em msg as)"
    by (rule Cons.IH)
  have "emits S m K a (a + length (x # as)) (State_Monad.bind (em e) (\<lambda>_. emit_positional em msg as))" for e
    using IH by (intro pushes_bind [OF assms]) (simp add: guards_def)
  with IH have step: "guards S m K a (a + length (x # as)) (State_Monad.bind (em e) (\<lambda>_. emit_positional em msg as))" for e
    unfolding guards_def by (simp split: prod.split)
  show ?case
    unfolding emit_positional.simps by (rule guards_if, rule guards_fail, rule step)
qed

section \<open>Calls\<close>

text \<open>The signatures the emitter is given: calls \<open>S\<close> allows, within the bits of an operand.\<close>

definition sig_ok :: "(nat \<Rightarrow> nat \<Rightarrow> bool) \<Rightarrow> nat \<Rightarrow> nat \<Rightarrow> bool" where
  "sig_ok S i n \<longleftrightarrow> i < 2 ^ 24 \<and> (n < 256 \<longrightarrow> S i n)"

text \<open>What is known of the signatures; a template that does not compile leaves a diagnostic.\<close>

definition env_ok :: "(nat \<Rightarrow> nat \<Rightarrow> bool) \<Rightarrow> 't emit_env \<Rightarrow> bool" where
  "env_ok S ev \<longleftrightarrow>
     (\<forall>src n dir keys ds. compile_template ev src n dir keys = (ds, None) \<longrightarrow> ds \<noteq> []) \<and>
     (\<forall>fs name sig. ev_functions ev = Some fs \<longrightarrow> map_of fs name = Some sig \<longrightarrow>
        sig_ok S (sg_index sig) (length (sg_defaults sig))) \<and>
     (\<forall>cs cls c. ev_classes ev = Some cs \<longrightarrow> map_of cs cls = Some c \<longrightarrow>
        (\<forall>name sig. map_of (cs_methods c) name = Some sig \<longrightarrow>
           length (sg_defaults sig) < 255 \<and> sig_ok S (sg_index sig) (length (sg_defaults sig) + 1)) \<and>
        (\<forall>n i. map_of (cs_ctors c) n = Some i \<longrightarrow> n < 256 \<and> sig_ok S i n))"

lemma calls_known:
  "n < 256 \<Longrightarrow> sig_ok S i n \<Longrightarrow> operand_known S m K Op_CallFunction (packed i n)"
  "n < 256 \<Longrightarrow> operand_known S m (insert i K) Op_CallMethod (packed i n)"
  "n < 256 \<Longrightarrow> i < 48 \<Longrightarrow> direct_native i \<Longrightarrow> operand_known S m K Op_CallNative (packed i n)"
  "operand_known S m K Op_CallAsync k"
  by (auto simp: sig_ok_def operand_known_def packed_parts)

lemma direct_simple: "i < 48 \<Longrightarrow> \<not> is_async (native_at i) \<Longrightarrow> direct_native i"
  by (simp add: direct_native_def)

lemmas call_simps = calls_known direct_simple packed_parts after_op_def jumps_def conditional_jumps_def

lemma emits_deref_bind:
  "(\<And>x. p = Some x \<Longrightarrow> emits S m K a b (f x)) \<Longrightarrow> emits S m K b c (g ()) \<Longrightarrow>
   emits S m K a c (State_Monad.bind (deref p f) g)"
  by (rule emits_bind [OF emits_deref]) simp_all

lemma emits_op_tail [emit_step]:
  "op \<notin> set jumps \<Longrightarrow> fst (effect op k) \<le> a \<Longrightarrow> operand_known S m K op k \<Longrightarrow> b = after_op op k a \<Longrightarrow>
   emits S m K a b (emit_op op l k)"
  by (rule emits_op) simp_all

lemma emits_named:
  assumes "pushes S em"
  shows "emits S m K a (a + 2 * length (named_args as)) (emit_named em as)"
  unfolding emit_named_def
  by (rule emits_each [where d = 2])
    (auto intro!: emit_step pushes_tail [OF assms] simp: assms)

lemma emits_positionals:
  assumes "pushes S em"
  shows "emits S m K a (a + length (positionals as)) (each (\<lambda>(n, v, l). em v) (positionals as))"
  by (rule emits_each [where d = 1]) (auto intro!: emit_step pushes_tail [OF assms])

lemma emits_dict_of_named:
  assumes "pushes S em"
  shows "emits S m K (a + length (positionals as)) (a + arg_count as)
     (if named_args as = [] then give () else do {
        emit_named em as;
        emit_op Op_MakeDict l (length (named_args as));
        give () })"
  by (rule emits_if emits_give emits_bind [OF emits_named [OF assms]] emits_op_bind | simp add: arg_count_def op_simps)+

lemma emits_defaults:
  assumes "pushes S em"
  shows "emits S m K a (a + (length (sg_defaults sig) - n)) (emit_defaults em sig n)"
  unfolding emit_defaults_def
  by (rule emits_each [where d = 1]) (auto intro!: emits_deref pushes_tail [OF assms])

lemma method_call_dynamic_emits:
  assumes em: "pushes S em"
  shows "emits S m K a (Suc a) (emit_method_call_dynamic em e mm r)"
  unfolding emit_method_call_dynamic_def
  by (rule pushes_bind [OF em] emits_bind [OF emits_positionals [OF em]] emits_bind [OF emits_dict_of_named [OF em]]
      emit_step | (simp add: call_simps; fail))+

lemma sticky_update: "(\<And>s. bad s \<Longrightarrow> bad (g s)) \<Longrightarrow> sticky (State (\<lambda>s. (h s, g s)))"
  by (simp add: sticky_def)

lemma module_call_emits:
  assumes em: "pushes S em" and "nid < 48"
  shows "emits S m K a (Suc a) (emit_module_call em ev e obj memb ml nid awaited)"
  unfolding emit_module_call_def Let_def
  using assms(2)
  by - ((rule guards_step [OF emit_positional_guards [OF em]] emit_step | (simp add: call_simps; fail))+)

lemma user_call_emits:
  assumes em: "pushes S em" and sig: "sig_ok S (sg_index sig) (length (sg_defaults sig))"
  shows "emits S m K a (Suc a) (emit_user_call em e name sig)"
  unfolding emit_user_call_def Let_def
  using sig
  by - ((rule guards_step [OF emit_positional_guards [OF em]] emits_bind [OF emits_defaults [OF em]] emit_step
      | (simp add: call_simps; fail))+)

lemma ctor_call_emits:
  assumes em: "pushes S em" and sig: "\<And>n i. map_of (cs_ctors c) n = Some i \<Longrightarrow> n < 256 \<and> sig_ok S i n"
  shows "emits S m K a (Suc a) (emit_ctor_call em e name c)"
  unfolding emit_ctor_call_def Let_def
  by ((rule guards_step [OF emit_positional_guards [OF em]] emit_step
      | (simp add: call_simps sig; fail) | (simp add: call_simps, use sig in force))+)

lemma class_method_emits:
  assumes em: "pushes S em" and sig: "length (sg_defaults sig) < 255" "sig_ok S (sg_index sig) (length (sg_defaults sig) + 1)"
  shows "emits S m K a (Suc a) (emit_class_method em e mm r t sig)"
  unfolding emit_class_method_def Let_def
  using sig
  by - ((rule pushes_bind [OF em] guards_step [OF emit_positional_guards [OF em]] emits_bind [OF emits_defaults [OF em]]
      emit_step | (simp add: call_simps; fail))+)

lemma render_tpl_id [simp]: "native_id ''__render_tpl'' = Some 4"
  by code_simp

lemma named_natives:
  "native_id ''__session_get'' = Some 19" "native_id ''__session_set'' = Some 20" "native_id ''len'' = Some 8"
  "is_async (native_at 4) = False" "is_async (native_at 19) = False" "is_async (native_at 20) = False"
  "is_async (native_at 8) = False"
  by code_simp+

lemma native_call_emits:
  assumes em: "pushes S em" and ev: "env_ok S ev" and nid: "nid < 48"
  shows "emits S m K a (Suc a) (emit_native_call em ev e name nid awaited)"
proof -
  have tpl: "emits S m K a a (State (\<lambda>s. (length (em_tpls s), s\<lparr>em_diags := em_diags s @ ds, em_tpls := em_tpls s @ [tpl]\<rparr>)))"
    for ds tpl m K a
    by (rule emits_update) (simp_all add: bad_def)
  have failed: "emits S m K a b (State (\<lambda>s. ((), s\<lparr>em_diags := em_diags s @ ds, em_failed := True\<rparr>)))" if "ds \<noteq> []" for ds m K a b
    by (rule emitsI) (simp_all add: bad_def that)
  have compiled: "emits S m K a b (case compile_template ev src n dir keys of
        (ds, None) \<Rightarrow> State (\<lambda>s. ((), s\<lparr>em_diags := em_diags s @ ds, em_failed := True\<rparr>))
      | (ds, Some t) \<Rightarrow> g ds t)" if "\<And>ds t. emits S m K a b (g ds t)" for src n dir keys g m K a b
  proof (cases "compile_template ev src n dir keys")
    case (Pair ds r)
    have "ds \<noteq> []" if "r = None"
      using ev Pair that unfolding env_ok_def by blast
    with Pair that failed show ?thesis by (cases r) simp_all
  qed
  have claves: "length (map g (named_args as)) = length (named_args as)" for g as
    by simp
  have render: "emits S m K a (Suc a) (emit_render em ev e dir nombre l)" for dir nombre l
    unfolding emit_render_def Let_def
    by (rule compiled emits_bind [OF tpl] emits_bind [OF emits_named [OF em]] emit_step
        | (simp add: op_simps; fail) | (simp add: call_simps named_natives; fail))+
  have list: "(v = [] \<Longrightarrow> emits S m K a b p) \<Longrightarrow> (\<And>x xs. v = x # xs \<Longrightarrow> emits S m K a b (g x xs)) \<Longrightarrow>
      emits S m K a b (case v of [] \<Rightarrow> p | x # xs \<Rightarrow> g x xs)" for v m K a b p g
    by (cases v) simp_all
  have await: "emits S m K a a (if b then set_await else give ())" for b m K a
    by (rule emit_step | simp)+
  show ?thesis
    unfolding emit_native_call_def Let_def
    using nid
    by - ((rule render list emits_bind [OF emits_positionals [OF em]] emits_bind [OF emits_dict_of_named [OF em]]
        emits_bind [OF await] emit_step | (simp add: call_simps split: if_splits; fail))+)
qed

lemma call_emits:
  assumes em: "pushes S em" and ev: "env_ok S ev"
  shows "emits S m K a (Suc a) (emit_call em ev e awaited)"
proof -
  have reserved: "emits S m K a (Suc a) (emit_reserved_call em ev e mm obj awaited)" for m K a mm obj
    unfolding emit_reserved_call_def
    by (rule module_call_emits [OF em member_native_id_less] native_call_emits [OF em ev member_native_id_less] emit_step
        | assumption)+
  have fns: "sig_ok S (sg_index sig) (length (sg_defaults sig))"
    if "Option.bind (ev_functions ev) (\<lambda>fs. map_of fs name) = Some sig" for name sig
    using that ev by (auto simp: env_ok_def split: bind_splits)
  have ctors: "n < 256 \<and> sig_ok S i n"
    if "Option.bind (ev_classes ev) (\<lambda>cs. map_of cs name) = Some c" "map_of (cs_ctors c) n = Some i" for name c n i
    using that ev unfolding env_ok_def by (fastforce split: bind_splits)
  have methods: "length (sg_defaults sig) < 255 \<and> sig_ok S (sg_index sig) (length (sg_defaults sig) + 1)"
    if "(if b then None else Option.bind (ev_classes ev) (\<lambda>cs. map_of cs name)) = Some c" "map_of (cs_methods c) mn = Some sig"
    for b name c mn sig
    using that ev unfolding env_ok_def by (fastforce split: bind_splits if_splits)
  have named: "emits S m K a (Suc a) (emit_named_call em ev e mm awaited)" for m K a mm
    unfolding emit_named_call_def
    by (rule user_call_emits [OF em fns] ctor_call_emits [OF em ctors] native_call_emits [OF em ev native_id_less] emit_step
        | assumption)+
  have dynamic: "emits S m K a (Suc a) (emit_dynamic_or_error em e mm r)" for m K a mm r
    unfolding emit_dynamic_or_error_def
    by (rule method_call_dynamic_emits [OF em] guards_step comprobar_guards)+
  have memb: "emits S m K a (Suc a) (emit_member_call em ev e mm r)" for m K a mm r
    unfolding emit_member_call_def Let_def
    by (rule dynamic class_method_emits [OF em methods [THEN conjunct1] methods [THEN conjunct2]] emit_step | assumption)+
  show ?thesis
    unfolding emit_call_def
    by (rule reserved named memb emit_step)+
qed

section \<open>Expressions\<close>

lemma ident_emits: "emits S m K a (Suc a) (emit_ident e)" "emits S m K a (Suc a) (emit_this e)"
  unfolding emit_ident_def emit_this_def by (rule emit_step | simp)+

lemma binary_op_effect:
  assumes "map_of binary_ops t = Some op"
  shows "specialised op \<notin> set jumps \<and> effect (specialised op) 0 = (2, 1) \<and> operand_known S m K (specialised op) 0"
    and "op \<notin> set jumps \<and> effect op 0 = (2, 1) \<and> operand_known S m K op 0"
  using assms
  by (auto simp: binary_ops_def specialised_def int_ops_def operand_known_def jumps_def conditional_jumps_def split: if_splits)

lemma binary_emits:
  assumes em: "pushes S em"
  shows "emits S m K a (Suc a) (emit_binary em e)"
proof -
  have op: "emits S m K (Suc (Suc a)) (Suc a) (do { emit_op (if b then specialised op else op) l 0; give () })"
    if "map_of binary_ops t = Some op" for b op l t m K a
    using binary_op_effect [OF that, of S m K]
    by (intro emits_op_bind emits_give) (auto simp: after_op_def)
  show ?thesis
    unfolding emit_binary_def
    by (rule op pushes_bind [OF em] pushes_tail [OF em] emit_step emits_deref_bind
        | (simp add: conditional_jumps_def taken_def; fail) | assumption)+
qed

lemma ternary_emits: "pushes S em \<Longrightarrow> emits S m K a (Suc a) (emit_ternary em e)"
  unfolding emit_ternary_def
  by (rule emits_deref_bind pushes_tail emit_step | assumption | (simp; fail))+

text \<open>A member that is read without a call: of those that suspend only \<open>ws.recv\<close> takes no argument.\<close>

lemma recv_only: "list_all (\<lambda>i. is_async (native_at i) \<and> min_args (native_at i) = 0 \<longrightarrow> i = ws_recv) [0..<48]"
  unfolding ws_recv_def by code_simp

lemma direct_member: "member_native_id ob mb = Some i \<Longrightarrow> \<not> 0 < min_args (native_at i) \<Longrightarrow> direct_native i"
  using recv_only member_native_id_less [of ob mb i] by (auto simp: direct_native_def list_all_iff)

lemma member_emits:
  assumes em: "pushes S em"
  shows "emits S m K a (Suc a) (emit_member em ev e ob)"
  unfolding emit_member_def Let_def native_call_def
  by (rule pushes_bind [OF em] emit_step | (simp add: op_simps; fail)
      | (simp add: call_simps named_natives direct_member member_native_id_less; fail))+

lemma step_by_one_emits: "op \<in> {Op_Add, Op_Sub} \<Longrightarrow> emits S m K (Suc a) (Suc a) (emit_step_by_one l op)"
  unfolding emit_step_by_one_def by (rule emit_step | (auto simp: op_simps; fail))+

lemma old_value_emits: "k < m \<Longrightarrow> emits S m K (Suc a) (Suc a) (emit_old_value l post k)"
  unfolding emit_old_value_def by (rule emit_step | (simp add: op_simps; fail))+

lemma emits_bind_at:
  "emits S m K a' b p \<Longrightarrow> a = a' \<Longrightarrow> (\<And>x. emits S m K b c (f x)) \<Longrightarrow> emits S m K a c (State_Monad.bind p f)"
  by (auto intro: emits_bind)

lemma step_local_emits:
  assumes "op \<in> {Op_Add, Op_Sub}" "u < m"
  shows "emits S m K a (Suc a) (emit_step_local l op post u)"
  unfolding emit_step_local_def using assms
  by (cases post; simp only: if_True if_False)
    (rule emits_bind_at [OF step_by_one_emits] emit_step emits_bind [OF emits_give [OF refl]] | (simp add: op_simps; fail) | assumption)+

lemma step_place_emits:
  assumes em: "pushes S em" and op: "op \<in> {Op_Add, Op_Sub}"
  shows "emits S m K a (Suc a) (emit_step_member em l op post tgt)"
    and "emits S m K a (Suc a) (emit_step_index em l op post tgt)"
  unfolding emit_step_member_def emit_step_index_def
  by (rule emits_bind_at [OF step_by_one_emits [OF op]] emits_bind_at [OF old_value_emits] pushes_tail [OF em] emits_deref_bind
      emit_step | (simp add: op_simps; fail))+

lemma step_emits:
  assumes em: "pushes S em"
  shows "emits S m K a (Suc a) (emit_step em e)"
  unfolding emit_step_def Let_def
  by (rule step_local_emits step_place_emits [OF em] emit_step | (simp; fail))+

lemma expr_emits:
  assumes em: "pushes S em" and ev: "env_ok S ev"
  shows "pushes S (emit_expr_with ev em)"
proof -
  have items: "emits S m K a (a + length xs) (each em xs)" for m K a xs
    by (rule emits_each [where d = 1]) (auto intro: pushes_tail [OF em])
  have entries: "emits S m K a (a + 2 * length xs) (each (\<lambda>(k, v). do { em k; em v }) xs)" for m K a xs
    by (rule emits_each [where d = 2]) (auto intro!: emit_step pushes_bind [OF em] pushes_tail [OF em])
  have await: "emits S m K a (Suc a) (emit_await em ev e)" for m K a e
    unfolding emit_await_def Let_def by (rule call_emits [OF em ev] emit_step)+
  have "emits S m K a (Suc a) (emit_expr_with ev em e)" for m K a e
    unfolding emit_expr_with_def
    by (cases "e_kind e"; simp only: expr_kind.case)
      (rule await call_emits [OF em ev] ident_emits binary_emits [OF em] ternary_emits [OF em] member_emits [OF em]
        step_emits [OF em] emits_bind [OF items] emits_bind [OF entries] pushes_tail [OF em] emits_deref_bind emit_step
        | (simp add: op_simps; fail))+
  then show ?thesis by (simp add: pushes_def)
qed

lemma emit_n_pushes: "env_ok S ev \<Longrightarrow> pushes S (emit_n n ev)"
proof (induction n)
  case 0
  show ?case by (simp add: pushes_def emits_run_out)
next
  case (Suc n)
  then have "pushes S (emit_expr_with ev (emit_n n ev))"
    by (intro expr_emits) simp_all
  then show ?case by (simp add: pushes_def)
qed

section \<open>Statements\<close>

lemma while_emits:
  assumes "emits S m K 0 (Suc 0) cond" "emits S m K 0 0 body"
  shows "emits S m K 0 0 (emit_while l cond body)"
  unfolding emit_while_loop
  by (rule emits_loop) (use assms in \<open>simp_all add: emits_give\<close>)

lemma for_loop_emits:
  assumes "items < m" "count < m" "index < m" "var < m" "emits S m K 0 0 body"
  shows "emits S m K 0 0 (emit_for_loop l items count index var body)"
  unfolding emit_for_loop_loop
proof (rule emits_loop)
  show "emits S m K 0 (Suc 0) (do { load_local l index; load_local l count; emit_op Op_Lt l 0; give () })"
    using assms by - ((rule emit_step | (simp add: op_simps; fail))+)
  show "emits S m K 0 0 (do { load_local l items; load_local l index; emit_op Op_GetIndex l 0; emit_op Op_StoreLocal l var; give () })"
    using assms by - ((rule emit_step | (simp add: op_simps; fail))+)
  show "emits S m K 0 0 (do { load_local l index; emit_value l (HInt 1); emit_op Op_Add l 0; emit_op Op_StoreLocal l index; give () })"
    using assms by - ((rule emit_step | (simp add: op_simps; fail))+)
qed (use assms in \<open>auto simp: load_local_def emit_value_def emit_op_def new_constant_def\<close>)

text \<open>A statement starts and ends with an empty stack.\<close>

definition settles :: "(nat \<Rightarrow> nat \<Rightarrow> bool) \<Rightarrow> ('t, unit) emitter \<Rightarrow> bool" where
  "settles S p \<longleftrightarrow> (\<forall>m K. emits S m K 0 0 p)"

lemma settlesI: "(\<And>m K. emits S m K 0 0 p) \<Longrightarrow> settles S p"
  by (simp add: settles_def)

lemma settlesD: "settles S p \<Longrightarrow> emits S m K 0 0 p"
  by (simp add: settles_def)

lemma in_order_settles: "(\<And>p. p \<in> set ps \<Longrightarrow> settles S p) \<Longrightarrow> settles S (in_order ps)"
proof (induction ps)
  case Nil
  show ?case by (simp add: settles_def emits_give)
next
  case (Cons p ps)
  have "settles S p" "settles S (in_order ps)"
    using Cons by simp_all
  then show ?case by (auto simp: settles_def intro: emits_bind [where b = 0])
qed

text \<open>The height in front may still be written as the effect of an instruction.\<close>

lemma settles_at: "settles S p \<Longrightarrow> a = 0 \<Longrightarrow> emits S m K a 0 p"
  by (simp add: settles_def)

lemma for_loop_at:
  "items < m \<Longrightarrow> count < m \<Longrightarrow> index < m \<Longrightarrow> var < m \<Longrightarrow> settles S body \<Longrightarrow> a = 0 \<Longrightarrow>
   emits S m K a 0 (emit_for_loop l items count index var body)"
  by (simp add: for_loop_emits settles_def)

lemma for_settles:
  assumes it: "\<And>m K. emits S m K 0 (Suc 0) iterable" and body: "settles S body"
  shows "settles S (emit_for l iterable name ty body)"
  unfolding emit_for_def native_call_def
  by (rule settlesI)
    (rule for_loop_at body emits_bind [OF it] emit_step
      | (simp add: op_simps; fail) | (simp add: call_simps named_natives; fail))+

lemma try_settles:
  assumes "settles S body" "settles S handler"
  shows "settles S (emit_try l body name handler)"
proof -
  have first: "emits S m K (Suc 0) 0 (if name \<noteq> [] then do { declare_store name l []; give () } else do { emit_op Op_Pop l 0; give () })"
    for m K
    by (rule emit_step | (simp add: op_simps; fail))+
  show ?thesis
    unfolding emit_try_def by (rule settlesI) (rule emits_try first settlesD assms)+
qed

lemma assign_settles:
  assumes em: "pushes S em" and put: "\<And>m K a. emits S m K a (Suc a) put"
  shows "settles S (emit_assign em ev l tgt put)"
  unfolding emit_assign_def emit_assign_member_def native_call_def
  by (rule settlesI)
    (rule emits_bind [OF put] pushes_bind [OF em] pushes_tail [OF em] emits_deref_bind emit_step
      | (simp add: op_simps; fail) | (simp add: call_simps named_natives; fail))+

lemma var_decl_settles:
  assumes em: "pushes S em"
  shows "settles S (emit_var_decl em l v name ty)"
proof -
  have "emits S m K 0 (Suc 0) (case v of Some e \<Rightarrow> em e | None \<Rightarrow> emit_value l HNull)" for m K
    by (rule pushes_tail [OF em] emit_step | simp)+
  then show ?thesis
    unfolding emit_var_decl_def by (intro settlesI) (rule emits_bind, assumption, (rule emit_step | (simp; fail))+)
qed

lemma stmt_settles:
  assumes em: "pushes S em"
  shows "settles S (emit_stmt em ev st)"
proof (induction st)
  case (Stmt k l v t ty name body orelse)
  define bl where "bl = scoped (in_order (map (emit_stmt em ev) body))"
  define el where "el = in_order (map (emit_stmt em ev) orelse)"
  have b0: "settles S (in_order (map (emit_stmt em ev) body))"
    by (rule in_order_settles) (use Stmt in auto)
  then have bl: "settles S bl"
    unfolding bl_def by (auto simp: settles_def intro: emits_scoped)
  have el: "settles S el"
    unfolding el_def by (rule in_order_settles) (use Stmt in auto)
  have val: "emits S m K a (Suc a) (deref p em)" for m K a p
    by (rule emits_deref pushes_tail [OF em] refl)+
  show ?case
    unfolding emit_stmt.simps bl_def [symmetric] el_def [symmetric] Let_def
    by (rule settlesI, cases k; simp only: stmt_kind.case)
      (rule settles_at [OF bl] settles_at [OF el] while_emits [OF val settlesD [OF bl]] settlesD [OF for_settles [OF val bl]]
        settlesD [OF try_settles [OF b0 el]] settlesD [OF var_decl_settles [OF em]] settlesD [OF assign_settles [OF em val]]
        val emits_bind [OF val] pushes_bind [OF em] emit_step
        | (simp add: op_simps; fail))+
qed

section \<open>Routes, functions, methods and conditions\<close>

lemma block_settles: "env_ok S ev \<Longrightarrow> settles S (emit_block (emit_n n ev) ev' body)"
  unfolding emit_block_def
  by (rule settlesI, rule emits_scoped, rule settlesD, rule in_order_settles)
    (auto intro: stmt_settles emit_n_pushes)

lemma params_settles: "settles S (declare_params ps)"
  unfolding declare_params_def by (rule settlesI, rule emits_each [where d = 0]) (rule emit_step | simp)+

lemma guard_settles: "env_ok S ev \<Longrightarrow> settles S (emit_guard (emit_n n ev) g)"
  unfolding emit_guard_def
  by (rule settlesI)
    (rule pushes_bind [OF emit_n_pushes] pushes_tail [OF emit_n_pushes] emit_step | assumption | (simp add: op_simps; fail))+

lemma guards_settles:
  assumes "env_ok S ev"
  shows "emits S m K 0 0 (each (emit_guard (emit_n n ev)) gs)"
proof (induction gs arbitrary: m K)
  case Nil
  show ?case by (simp add: emits_give)
next
  case (Cons g gs)
  show ?case
    by (simp, rule emits_bind [OF settlesD [OF guard_settles [OF assms]]], rule Cons)
qed

lemma all_well_emits: "a = b \<Longrightarrow> emits S m K a b all_well"
  unfolding all_well_def by (rule emits_update) (simp_all add: bad_def)

text \<open>Everything behind \<open>start_emit\<close> starts on an empty chunk.\<close>

lemma segment_typed: "segment S {} {} 0 b new_chunk c \<Longrightarrow> typed S c"
  by (auto simp: segment_def segment_by_def typed_def typed_by_def new_chunk_def)

text \<open>An entry point declares its parameters, then writes a segment onto the chunk it is given.\<close>

lemma declare_count: "\<not> bad (exec (declare_local n l ty) s) \<Longrightarrow> length (em_locals (exec (declare_local n l ty) s)) = Suc (length (em_locals s))"
  unfolding run_declare by (auto simp: em_error_def add_local_def Let_def bad_def split: if_splits)

lemma params_count:
  "\<not> bad (exec (declare_params ps) s) \<Longrightarrow>
     length (em_locals (exec (declare_params ps) s)) = length (em_locals s) + length ps"
proof (induction ps arbitrary: s)
  case (Cons p ps)
  let ?s = "exec (declare_local (pm_name p) (pm_loc p) (t_name (pm_type p))) s"
  have run: "exec (declare_params (p # ps)) s = exec (declare_params ps) ?s"
    by (simp add: declare_params_def split: prod.split)
  have "\<not> bad ?s"
    using Cons.prems emits_bad [OF settlesD [OF params_settles, of "\<lambda>_ _. True" 0 "{}"]] unfolding run by blast
  with Cons show ?case
    unfolding run by (simp add: declare_count)
qed (simp add: declare_params_def)

lemma entry_segment:
  assumes decl: "settles S decl" and rest: "emits S 0 {} 0 b rest"
    and run: "run_state (do { start_emit; decl; rest }) s = (r, s')" and good: "\<not> bad s'"
  shows "segment S {} {} 0 b (em_chunk s) (em_chunk s')"
    and "length (em_locals (exec decl (exec start_emit s))) \<le> num_locals (em_chunk s')"
    and "\<not> bad (exec decl (exec start_emit s))" and "\<not> bad s"
proof -
  let ?s = "exec start_emit s"
  let ?d = "exec decl ?s"
  have s: "em_chunk ?s = em_chunk s" "em_loops ?s = []" "em_locals ?s = []"
    by (simp_all add: start_emit_def)
  then have k: "knows 0 {} ?s"
    by (simp add: knows_def)
  have s': "exec rest ?d = s'"
    using run by (simp split: prod.splits)
  show d: "\<not> bad ?d"
    using good s' emits_bad [OF rest] by blast
  have "\<not> bad ?s"
    using emits_bad [OF settlesD [OF decl, of 0 "{}"] d] .
  then show "\<not> bad s"
    by (simp add: start_emit_def bad_def)
  have g: "grown S {} {} 0 0 ?s ?d"
    using emits_grown [OF settlesD [OF decl] k d] .
  moreover have g': "grown S {} {} 0 b ?d s'"
    using emits_grown [OF rest grown_knows [OF g k]] s' good by metis
  ultimately have "grown S {} {} 0 b ?s s'"
    using grown_trans by fastforce
  then show "segment S {} {} 0 b (em_chunk s) (em_chunk s')"
    by (auto simp: grown_def loops_grown_def pending_def s)
  from g g' show "length (em_locals ?d) \<le> num_locals (em_chunk s')"
    by (fastforce simp: grown_def segment_def dest: extends_bounds(1) intro: order_trans)
qed

text \<open>The parameters have slots; so has \<open>this\<close> in front of those of a method.\<close>

lemma params_fit:
  assumes "emits S 0 {} 0 b rest" "run_state (do { start_emit; declare_params ps; rest }) s = (r, s')" "\<not> bad s'"
  shows "segment S {} {} 0 b (em_chunk s) (em_chunk s')" "\<not> bad s" "length ps \<le> num_locals (em_chunk s')"
proof -
  note entry = entry_segment [OF params_settles assms]
  show "segment S {} {} 0 b (em_chunk s) (em_chunk s')" "\<not> bad s"
    by (rule entry(1,4))+
  have "length (em_locals (exec start_emit s)) = 0"
    by (simp add: start_emit_def)
  with entry(2) params_count [OF entry(3)] show "length ps \<le> num_locals (em_chunk s')"
    by linarith
qed

lemma method_params_fit:
  assumes "emits S 0 {} 0 b rest" "\<not> bad s'"
    "run_state (do { start_emit; declare_local n l ty; declare_params ps; rest }) s = (r, s')"
  shows "segment S {} {} 0 b (em_chunk s) (em_chunk s')" "\<not> bad s" "Suc (length ps) \<le> num_locals (em_chunk s')"
proof -
  let ?d = "do { declare_local n l ty; declare_params ps }" and ?s = "exec start_emit s"
  have d: "settles S ?d"
    by (rule settlesI, rule emits_bind [OF emits_declare_unit [OF refl]], rule settlesD [OF params_settles])
  have "run_state (do { start_emit; ?d; rest }) s = (r, s')"
    using assms(3) by simp
  note entry = entry_segment [OF d assms(1) this assms(2)]
  show "segment S {} {} 0 b (em_chunk s) (em_chunk s')" "\<not> bad s"
    by (rule entry(1,4))+
  have run: "exec ?d ?s = exec (declare_params ps) (exec (declare_local n l ty) ?s)"
    by (simp split: prod.split)
  have one: "\<not> bad (exec (declare_local n l ty) ?s)"
    using entry(3) emits_bad [OF settlesD [OF params_settles, of "\<lambda>_ _. True" 0 "{}"]] unfolding run by blast
  have "length (em_locals ?s) = 0"
    by (simp add: start_emit_def)
  with entry(2) params_count [OF entry(3) [unfolded run]] declare_count [OF one] show "Suc (length ps) \<le> num_locals (em_chunk s')"
    unfolding run by linarith
qed

lemma route_segment:
  assumes "env_ok S ev" "run_state (emit_route n ev r) s = (b, s')" "\<not> bad s'"
  shows "segment S {} {} 0 0 (em_chunk s) (em_chunk s')" "\<not> bad s"
proof -
  let ?ev = "ev\<lparr>ev_method := rt_method r\<rparr>"
  have ev: "env_ok S ?ev"
    using assms(1) by (simp add: env_ok_def)
  have rest: "emits S 0 {} 0 0 (do {
        each (emit_guard (emit_n n ?ev)) (rt_guards r);
        emit_block (emit_n n ?ev) ?ev (rt_body r);
        emit_op Op_ReturnNull (rt_loc r) 0;
        all_well })"
    by (rule emits_bind [OF guards_settles [OF ev]] emits_bind [OF settlesD [OF block_settles [OF ev]]]
        emits_bind [OF emits_op [where b = 0]] all_well_emits | (simp add: op_simps; fail))+
  show "segment S {} {} 0 0 (em_chunk s) (em_chunk s')" "\<not> bad s"
    by (rule params_fit(1,2) [OF rest assms(2) [unfolded emit_route_def Let_def] assms(3)])+
qed

lemma body_emits:
  "env_ok S ev \<Longrightarrow> emits S 0 {} 0 0 (do {
     emit_block (emit_n n ev) ev' body;
     emit_op Op_ReturnNull l 0;
     all_well })"
  by (rule emits_bind [OF settlesD [OF block_settles]] emits_bind [OF emits_op [where b = 0]] all_well_emits
      | assumption | (simp add: op_simps; fail))+

lemma env_ok_method [simp]: "env_ok S (ev\<lparr>ev_method := x\<rparr>) = env_ok S ev"
  by (simp add: env_ok_def)

lemma function_segment:
  assumes "env_ok S ev" "run_state (emit_function n ev f) s = (b, s')" "\<not> bad s'"
  shows "segment S {} {} 0 0 (em_chunk s) (em_chunk s')" "\<not> bad s" "length (fn_params f) \<le> num_locals (em_chunk s')"
  using params_fit [OF body_emits assms(2) [unfolded emit_function_def Let_def] assms(3)] assms(1) by simp_all

lemma method_segment:
  assumes "env_ok S ev" "run_state (emit_method n ev cls f) s = (b, s')" "\<not> bad s'"
  shows "segment S {} {} 0 0 (em_chunk s) (em_chunk s')" "\<not> bad s" "Suc (length (fn_params f)) \<le> num_locals (em_chunk s')"
  using method_params_fit [OF body_emits assms(3) assms(2) [unfolded emit_method_def Let_def]] assms(1) by simp_all

lemma error_handler_segment:
  assumes "env_ok S ev" "run_state (emit_error_handler n ev d) s = (b, s')" "\<not> bad s'"
  shows "segment S {} {} 0 0 (em_chunk s) (em_chunk s')" "\<not> bad s"
proof -
  have rest: "emits S 0 {} 0 0 (do { emit_op Op_ReturnNull (err_loc d) 0; all_well })"
    by (rule emits_bind [OF emits_op [where b = 0]] all_well_emits | (simp add: op_simps; fail))+
  have block: "settles S (emit_block (emit_n n (ev\<lparr>ev_method := ''ERROR''\<rparr>)) (ev\<lparr>ev_method := ''ERROR''\<rparr>) (err_body d))"
    by (rule block_settles) (simp add: assms(1))
  show "segment S {} {} 0 0 (em_chunk s) (em_chunk s')" "\<not> bad s"
    by (rule entry_segment(1,4) [OF block rest assms(2) [unfolded emit_error_handler_def Let_def] assms(3)])+
qed

lemma condition_segment:
  assumes "env_ok S ev" "run_state (emit_condition n ev e names) s = (b, s')" "\<not> bad s'"
  shows "segment S {} {} 0 0 (em_chunk s) (em_chunk s')" "\<not> bad s"
proof -
  let ?ev = "ev\<lparr>ev_method := []\<rparr>"
  have ev: "env_ok S ?ev"
    using assms(1) by simp
  have names: "settles S (each (\<lambda>(nm, ty). do { declare_local nm (e_loc e) ty; give () }) names)"
    by (rule settlesI, rule emits_each [where d = 0]) (rule emit_step | (simp; fail))+
  have rest: "emits S 0 {} 0 0 (do { emit_n n ?ev e; emit_op Op_Return (e_loc e) 0; all_well })"
    by (rule pushes_bind [OF emit_n_pushes [OF ev]] emits_bind [OF emits_op [where b = 0]] all_well_emits
        | (simp add: op_simps; fail))+
  show "segment S {} {} 0 0 (em_chunk s) (em_chunk s')" "\<not> bad s"
    by (rule entry_segment(1,4) [OF names rest assms(2) [unfolded emit_condition_def Let_def] assms(3)])+
qed

text \<open>A constructor: without a body its parameters are looked up again, and they are all there.\<close>

abbreviation local_names_of :: "'t estate \<Rightarrow> string set" where
  "local_names_of s \<equiv> lc_name ` set (em_locals s)"

definition keeps_locals :: "('t, 'a) emitter \<Rightarrow> bool" where
  "keeps_locals p \<longleftrightarrow> (\<forall>s. em_locals (exec p s) = em_locals s)"

lemma locals_bind: "keeps_locals p \<Longrightarrow> (\<And>x. keeps_locals (f x)) \<Longrightarrow> keeps_locals (State_Monad.bind p f)"
  by (simp add: keeps_locals_def split: prod.split) (metis snd_conv)

lemma keepsD: "keeps_locals p \<Longrightarrow> em_locals (exec p s) = em_locals s"
  by (simp add: keeps_locals_def)

lemma locals_each: "(\<And>x. keeps_locals (f x)) \<Longrightarrow> keeps_locals (each f xs)"
  by (induction xs) (auto intro: locals_bind simp: keeps_locals_def [of "give ()"])

lemma locals_writes:
  "keeps_locals (emit_op op l k)" "keeps_locals (new_constant v)" "keeps_locals (give x)" "keeps_locals (em_error l msg)"
  by (simp_all add: keeps_locals_def emit_op_def new_constant_def em_error_def)

lemma locals_values: "keeps_locals (load_local l k)" "keeps_locals (emit_value l v)" "keeps_locals (resolve_local n)"
  unfolding load_local_def emit_value_def
    apply (rule locals_bind locals_writes)+
  by (simp add: keeps_locals_def resolve_local_def)

lemma resolve_in_known: "resolve_in ls n \<noteq> None \<longleftrightarrow> n \<in> lc_name ` set ls"
  by (force simp: resolve_in_def find_None_iff in_set_conv_nth image_iff)

lemma declare_names: "local_names_of (exec (declare_local n l ty) s) = insert n (local_names_of s)"
proof (cases "declared_here (em_depth s) (em_locals s) n")
  case True
  then have "n \<in> local_names_of s"
    by (auto simp: declared_here_def dest: set_takeWhileD)
  with True show ?thesis
    unfolding run_declare by (auto simp: em_error_def)
qed (simp add: run_declare add_local_def Let_def)

lemma declare_params_names:
  "local_names_of (exec (declare_params ps) s) = local_names_of s \<union> pm_name ` set ps"
proof (induction ps arbitrary: s)
  case (Cons p ps)
  have "exec (declare_params (p # ps)) s = exec (declare_params ps) (exec (declare_local (pm_name p) (pm_loc p) (t_name (pm_type p))) s)"
    by (simp add: declare_params_def split: prod.split)
  then show ?case by (simp add: Cons.IH declare_names)
qed (simp add: declare_params_def)

definition field_from_known :: "source_loc \<Rightarrow> nat \<Rightarrow> string \<Rightarrow> string list \<Rightarrow> param \<Rightarrow> ('t, unit) emitter" where
  "field_from_known loc self cls flds p =
     (if pm_name p \<notin> set flds then
        em_error (pm_loc p) (CHR 0x27 # pm_name p @ CHR 0x27 # '' no es un campo de '' @ CHR 0x27 # cls @ [CHR 0x27])
      else do {
        load_local loc self;
        slot \<leftarrow> resolve_local (pm_name p);
        case slot of None \<Rightarrow> run_out | Some i \<Rightarrow> do {
          load_local loc i;
          k \<leftarrow> new_constant (HStr (pm_name p));
          emit_op Op_SetMember loc k;
          emit_op Op_Pop loc 0;
          give () } })"

lemma field_from_keeps: "keeps_locals (emit_field_from loc self cls flds p)"
  unfolding emit_field_from_def by (cases "pm_name p \<in> set flds") (simp_all add: locals_writes locals_bind locals_values)

lemma field_from_same:
  assumes "pm_name p \<in> local_names_of s"
  shows "run_state (emit_field_from loc self cls flds p) s = run_state (field_from_known loc self cls flds p) s"
proof -
  have "resolve_in (em_locals (exec (load_local loc self) s)) (pm_name p) \<noteq> None"
    using iffD2 [OF resolve_in_known assms] by (simp add: keepsD locals_values)
  then show ?thesis
    by (auto simp: emit_field_from_def field_from_known_def resolve_local_def split: prod.split)
qed

lemma fields_from_same:
  assumes "pm_name ` set ps \<subseteq> local_names_of s"
  shows "run_state (each (emit_field_from loc self cls flds) ps) s = run_state (each (field_from_known loc self cls flds) ps) s"
  using assms
proof (induction ps arbitrary: s)
  case (Cons p ps)
  have "local_names_of (exec (emit_field_from loc self cls flds p) s) = local_names_of s"
    by (simp add: keepsD [OF field_from_keeps])
  with Cons show ?case
    by (auto simp: field_from_same split: prod.split)
qed simp

definition ctor_after :: "source_loc \<Rightarrow> string \<Rightarrow> string list \<Rightarrow> (nat \<Rightarrow> ('t, unit) emitter) \<Rightarrow> ('t, unit) emitter" where
  "ctor_after loc cls flds f = do {
     self \<leftarrow> declare_local ''this'' loc cls;
     each (\<lambda>f. do { emit_value loc (HStr f); emit_value loc HNull }) flds;
     emit_op Op_MakeDict loc (length flds);
     emit_op Op_StoreLocal loc self;
     f self }"

lemma run_bind: "run_state (State_Monad.bind p q) s = run_state (q (fst (run_state p s))) (exec p s)"
  by (simp split: prod.split)

lemma run_cong: "(\<And>t. run_state p t = run_state q t) \<Longrightarrow> run_state (do { a; p; b }) s = run_state (do { a; q; b }) s"
  unfolding run_bind by simp

lemma ctor_after_cong:
  fixes f g :: "nat \<Rightarrow> ('a, unit) emitter"
  assumes "\<And>self s. pm_name ` set ps \<subseteq> local_names_of s \<Longrightarrow> run_state (f self) s = run_state (g self) s"
  shows "run_state (do { declare_params ps; ctor_after loc cls flds f }) s =
    run_state (do { declare_params ps; ctor_after loc cls flds g }) s"
proof -
  let ?p = "\<lambda>f self. do {
     each (\<lambda>f. do { emit_value loc (HStr f); emit_value loc HNull }) flds;
     emit_op Op_MakeDict loc (length flds);
     emit_op Op_StoreLocal loc self;
     f self }"
  have fill: "em_locals (exec (each (\<lambda>f. do { emit_value loc (HStr f); emit_value loc HNull }) flds) s) = em_locals s"
    for s :: "'a estate"
    by (intro keepsD locals_bind locals_each locals_values)
  have wr: "em_locals (exec (emit_op op l k) s) = em_locals s" for op l k and s :: "'a estate"
    by (rule keepsD [OF locals_writes(1)])
  have inner: "run_state (?p f self) s' = run_state (?p g self) s'" if "pm_name ` set ps \<subseteq> local_names_of s'" for self s'
    unfolding run_bind by (rule assms) (use that in \<open>simp add: fill wr run_bind del: run_state_bind\<close>)
  have "pm_name ` set ps \<subseteq> local_names_of (exec (declare_local ''this'' loc cls) (exec (declare_params ps) s))"
    by (auto simp: declare_names declare_params_names)
  from inner [OF this] show ?thesis
    unfolding ctor_after_def run_bind .
qed

lemma field_from_emits:
  "self < m \<Longrightarrow> emits S m K a a (field_from_known loc self cls flds p)"
  unfolding field_from_known_def
  by (rule emit_step emits_bind [OF emits_load [OF _ refl]] emits_bind [OF emits_op [where b = "Suc a"]] | (simp add: op_simps; fail))+

lemma ctor_segment:
  assumes "env_ok S ev" "run_state (emit_ctor n ev cls flds ct) s = (b, s')" "\<not> bad s'"
  shows "segment S {} {} 0 0 (em_chunk s) (em_chunk s')" "\<not> bad s" "length (ct_params ct) \<le> num_locals (em_chunk s')"
proof -
  let ?ev = "ev\<lparr>ev_method := ''FN''\<rparr>" and ?l = "ct_loc ct"
  have ev: "env_ok S ?ev"
    using assms(1) by simp
  define known where "known self = (if has_body ct then emit_block (emit_n n ?ev) ?ev (ct_body ct)
         else each (field_from_known ?l self cls flds) (ct_params ct))" for self
  define rest where "rest q = (\<lambda>self. do {
        q self;
        load_local ?l self;
        emit_op Op_Return ?l 0;
        give () })" for q :: "nat \<Rightarrow> ('a, unit) emitter"
  have "emits S m K 0 0 (known self)" if "self < m" for self m K
    unfolding known_def
    by (rule emits_if settlesD [OF block_settles [OF ev]] emits_each [where d = 0] field_from_emits that | simp add: that)+
  then have rest: "emits S m K a 0 (rest known self)" if "self < m" "a = 0" for self m K a
    unfolding rest_def that(2) using that(1)
    by - (rule emits_bind [where b = 0] emits_bind [OF emits_load [OF that(1) refl]] emits_op_bind emits_give | (simp add: op_simps; fail))+
  have after: "emits S 0 {} 0 0 (do { ctor_after ?l cls flds (rest known); all_well })"
    unfolding ctor_after_def State_Monad.bind_assoc
    by (rule emits_each_bind [where d = 2] rest emits_declare emits_bind [OF rest] all_well_emits emit_step
        | (simp add: op_simps; fail))+
  let ?q = "\<lambda>self. if has_body ct then emit_block (emit_n n ?ev) ?ev (ct_body ct)
       else each (emit_field_from ?l self cls flds) (ct_params ct)"
  have "run_state (do { declare_params (ct_params ct); ctor_after ?l cls flds (rest ?q) }) t =
      run_state (do { declare_params (ct_params ct); ctor_after ?l cls flds (rest known) }) t" for t
    by (rule ctor_after_cong) (simp add: rest_def known_def fields_from_same split: prod.split)
  from run_cong [OF this, of start_emit all_well s]
  have "run_state (do { start_emit; declare_params (ct_params ct); ctor_after ?l cls flds (rest ?q); all_well }) s =
      run_state (do { start_emit; declare_params (ct_params ct); ctor_after ?l cls flds (rest known); all_well }) s"
    unfolding State_Monad.bind_assoc .
  moreover have "run_state (emit_ctor n ev cls flds ct) s =
      run_state (do { start_emit; declare_params (ct_params ct); ctor_after ?l cls flds (rest ?q); all_well }) s"
    unfolding emit_ctor_def Let_def ctor_after_def rest_def State_Monad.bind_assoc State_Monad.bind_left_identity ..
  ultimately have "run_state (do { start_emit; declare_params (ct_params ct); ctor_after ?l cls flds (rest known); all_well }) s = (b, s')"
    using assms(2) by (simp only:)
  from params_fit [OF after this assms(3)]
  show "segment S {} {} 0 0 (em_chunk s) (em_chunk s')" "\<not> bad s" "length (ct_params ct) \<le> num_locals (em_chunk s')" .
qed

end
