(* ===== verification/EmitterKeeps.thy ===== *)
theory EmitterKeeps
  imports Emitter
begin

text \<open>
  What the emitter never takes back: whatever its writes keep - a diagnostic, an error flag, the
  number of constants or of templates - is kept by every function of it.
\<close>

locale emission_keeps =
  fixes I :: "'t estate \<Rightarrow> bool"
  assumes chunk: "I s \<Longrightarrow> length (ch_constants (em_chunk s)) \<le> length (ch_constants c) \<Longrightarrow> I (s\<lparr>em_chunk := c\<rparr>)"
    and frame: "I s \<Longrightarrow> I (s\<lparr>em_locals := ls\<rparr>)" "I s \<Longrightarrow> I (s\<lparr>em_depth := d\<rparr>)" "I s \<Longrightarrow> I (s\<lparr>em_loops := l\<rparr>)"
    and diags: "I s \<Longrightarrow> I (s\<lparr>em_diags := em_diags s @ ds\<rparr>)" "I s \<Longrightarrow> I (s\<lparr>em_failed := b\<rparr>)"
    and flags: "I s \<Longrightarrow> I (s\<lparr>em_undefined := True\<rparr>)" "I s \<Longrightarrow> I (s\<lparr>em_spent := True\<rparr>)"
    and templates: "I s \<Longrightarrow> I (s\<lparr>em_tpls := em_tpls s @ ts\<rparr>)"
begin

definition keeps :: "('t, 'a) emitter \<Rightarrow> bool" where
  "keeps p \<longleftrightarrow> (\<forall>s. I s \<longrightarrow> I (snd (run_state p s)))"

named_theorems keep "rules for the first action"

lemma keeps_update: "(\<And>s. I s \<Longrightarrow> I (g s)) \<Longrightarrow> keeps (State (\<lambda>s. (h s, g s)))"
  by (simp add: keeps_def)

lemma keeps_bind [keep]: "keeps p \<Longrightarrow> (\<And>x. keeps (f x)) \<Longrightarrow> keeps (State_Monad.bind p f)"
  by (simp add: keeps_def split: prod.split) (metis snd_conv)

lemma keeps_if [keep]: "(c \<Longrightarrow> keeps p) \<Longrightarrow> (\<not> c \<Longrightarrow> keeps q) \<Longrightarrow> keeps (if c then p else q)"
  by simp

lemma keeps_option [keep]:
  "(v = None \<Longrightarrow> keeps p) \<Longrightarrow> (\<And>x. v = Some x \<Longrightarrow> keeps (f x)) \<Longrightarrow> keeps (case v of None \<Rightarrow> p | Some x \<Rightarrow> f x)"
  by (cases v) simp_all

lemma keeps_prod [keep]: "(\<And>x y. keeps (f x y)) \<Longrightarrow> keeps (case v of (x, y) \<Rightarrow> f x y)"
  by (cases v) simp

lemma keeps_list [keep]:
  "keeps p \<Longrightarrow> (\<And>x xs. keeps (f x xs)) \<Longrightarrow> keeps (case v of [] \<Rightarrow> p | x # xs \<Rightarrow> f x xs)"
  by (cases v) simp_all

lemma keeps_each [keep]: "(\<And>x. x \<in> set xs \<Longrightarrow> keeps (f x)) \<Longrightarrow> keeps (each f xs)"
  by (induction xs) (auto intro: keeps_bind simp: keeps_def [of "State_Monad.return ()"])

lemma keeps_in_order [keep]: "(\<And>p. p \<in> set ps \<Longrightarrow> keeps p) \<Longrightarrow> keeps (in_order ps)"
  by (induction ps) (auto intro: keeps_bind simp: keeps_def [of "State_Monad.return ()"])

lemma keeps_look [keep]:
  "keeps (give x)" "keeps State_Monad.get" "keeps get_locals" "keeps (resolve_local n)" "keeps here" "keeps top_loop"
  by (simp_all add: keeps_def get_locals_def resolve_local_def here_def top_loop_def)

lemma keeps_chunk: "(\<And>c. length (ch_constants c) \<le> length (ch_constants (f c))) \<Longrightarrow> keeps (on_chunk f)"
  unfolding on_chunk_def by (rule keeps_update) (simp add: chunk)

lemma keeps_writes [keep]:
  "keeps (emit_op op l k)" "keeps (new_constant v)" "keeps (patch_to j t)" "keeps set_await" "keeps (add_range i j k)"
  by (simp_all add: keeps_def emit_op_def new_constant_def patch_to_def on_chunk_def set_await_def add_range_def chunk
      emit_def add_constant_def patch_def)

lemma keeps_state [keep]:
  "keeps begin_scope" "keeps end_scope" "keeps push_loop" "keeps pop_loop" "keeps (add_break j)" "keeps (add_continue j)"
  unfolding begin_scope_def end_scope_def push_loop_def pop_loop_def add_break_def add_continue_def Let_def
  by (rule keeps_update, simp add: frame)+

lemma keeps_report [keep]: "keeps (em_error l msg)" "keeps run_out"
  unfolding em_error_def run_out_def using diags flags by (auto intro!: keeps_update)

lemma keeps_deref [keep]: "(\<And>x. keeps (f x)) \<Longrightarrow> keeps (deref p f)"
  unfolding deref_def using flags by (auto intro!: keeps_update split: option.split)

lemma keeps_small [keep]:
  "keeps (patch_here j)" "keeps (emit_value l v)" "keeps (load_local l k)"
  unfolding patch_here_def emit_value_def load_local_def by (rule keep)+

lemma keeps_patch_all [keep]: "keeps (patch_all js t)"
  by (induction js) (simp_all add: keep)

lemma keeps_declare [keep]: "keeps (declare_local n l ty)"
proof -
  have "keeps (add_local n ty)"
    unfolding add_local_def Let_def by (rule keeps_update) (auto simp: frame intro!: chunk)
  then show ?thesis
    unfolding declare_local_def by (intro keep)
qed

lemma keeps_declare_store [keep]: "keeps (declare_store n l ty)"
  unfolding declare_store_def by (rule keep)+

text \<open>Expressions and statements.\<close>

lemma keeps_checks [keep]: "keeps (comprobar_campo ev ob campo l)" "keeps (comprobar_metodo_builtin e m r)"
  unfolding comprobar_campo_def comprobar_metodo_builtin_def Let_def by (rule keep)+

lemma keeps_positional [keep]: "(\<And>e. keeps (em e)) \<Longrightarrow> keeps (emit_positional em msg as)"
  by (induction as) (auto intro!: keep)

lemma keeps_branches [keep]: "keeps p \<Longrightarrow> keeps q \<Longrightarrow> keeps (emit_branches l p q)"
  unfolding emit_branches_def by ((assumption | rule keep)+)

lemma keeps_arguments [keep]:
  assumes "\<And>e. keeps (em e)"
  shows "keeps (emit_named em as)" "keeps (emit_defaults em sig n)"
  unfolding emit_named_def emit_defaults_def by (rule assms keep)+

lemma keeps_render_tail [keep]:
  "keeps (State (\<lambda>s. ((), s\<lparr>em_diags := em_diags s @ ds, em_failed := True\<rparr>)))"
  "keeps (State (\<lambda>s. (length (em_tpls s), s\<lparr>em_diags := em_diags s @ ds, em_tpls := em_tpls s @ [t]\<rparr>)))"
proof -
  show "keeps (State (\<lambda>s. ((), s\<lparr>em_diags := em_diags s @ ds, em_failed := True\<rparr>)))"
    by (intro keeps_update diags)
  have "I (s\<lparr>em_diags := em_diags s @ ds, em_tpls := em_tpls s @ [t]\<rparr>)" if "I s" for s
    using templates [OF diags(1) [OF that, of ds], of "[t]"] by simp
  then show "keeps (State (\<lambda>s. (length (em_tpls s), s\<lparr>em_diags := em_diags s @ ds, em_tpls := em_tpls s @ [t]\<rparr>)))"
    by (rule keeps_update)
qed

lemma keeps_calls [keep]:
  assumes "\<And>e. keeps (em e)"
  shows "keeps (emit_method_call_dynamic em e m r)" "keeps (emit_module_call em ev e obj memb l nid aw)"
    "keeps (emit_user_call em e name sig)" "keeps (emit_ctor_call em e name cs)" "keeps (emit_class_method em e m r cls sig)"
    "keeps (emit_render em ev e dir nm l)"
  unfolding emit_method_call_dynamic_def emit_module_call_def emit_user_call_def emit_ctor_call_def emit_class_method_def
    emit_render_def Let_def
  by ((assumption | rule assms keep)+)

lemma keeps_native_call [keep]: "(\<And>e. keeps (em e)) \<Longrightarrow> keeps (emit_native_call em ev e name nid aw)"
  unfolding emit_native_call_def Let_def by ((assumption | rule keep)+)

lemma keeps_dispatch [keep]:
  assumes "\<And>e. keeps (em e)"
  shows "keeps (emit_reserved_call em ev e m obj aw)" "keeps (emit_named_call em ev e m aw)"
    "keeps (emit_dynamic_or_error em e m r)" "keeps (emit_member_call em ev e m r)"
  unfolding emit_reserved_call_def emit_named_call_def emit_dynamic_or_error_def emit_member_call_def Let_def
  by ((assumption | rule assms keep)+)

lemma keeps_call [keep]: "(\<And>e. keeps (em e)) \<Longrightarrow> keeps (emit_call em ev e aw)"
  unfolding emit_call_def Let_def by ((assumption | rule keep)+)

lemma keeps_simple [keep]:
  assumes "\<And>e. keeps (em e)"
  shows "keeps (emit_ident e)" "keeps (emit_this e)" "keeps (emit_binary em e)" "keeps (emit_ternary em e)"
    "keeps (emit_member em ev e ob)"
  unfolding emit_ident_def emit_this_def emit_binary_def emit_ternary_def emit_member_def Let_def
  by ((assumption | rule assms keep)+)

lemma keeps_stepping [keep]:
  assumes "\<And>e. keeps (em e)"
  shows "keeps (emit_step em e)" "keeps (emit_await em ev e)"
  unfolding emit_step_def emit_step_local_def emit_step_member_def emit_step_index_def emit_step_by_one_def
    emit_old_value_def emit_await_def Let_def
  by ((assumption | rule assms keep)+)

lemma keeps_expr [keep]: "keeps (emit_n n ev e)"
proof (induction n arbitrary: e)
  case (Suc n)
  then show ?case
    by (cases "e_kind e") (auto simp: emit_expr_with_def intro!: keep)
qed (simp add: keep)

lemma keeps_scoped [keep]: "keeps p \<Longrightarrow> keeps (scoped p)"
  unfolding scoped_def by ((assumption | rule keep)+)

lemma keeps_assign [keep]:
  assumes "\<And>e. keeps (em e)" "keeps put"
  shows "keeps (emit_assign em ev l tgt put)"
  unfolding emit_assign_def emit_assign_member_def by (rule assms keep)+

lemma keeps_loops [keep]:
  "keeps c \<Longrightarrow> keeps p \<Longrightarrow> keeps (emit_while l c p)"
  "keeps c \<Longrightarrow> keeps p \<Longrightarrow> keeps (emit_for l c n ty p)"
  "keeps p \<Longrightarrow> keeps q \<Longrightarrow> keeps (emit_try l p n q)"
  unfolding emit_while_def emit_for_def emit_for_loop_def emit_try_def by ((assumption | rule keep)+)

lemma keeps_leave [keep]: "(\<And>j. keeps (add j)) \<Longrightarrow> keeps (emit_leave_loop l w add)"
  unfolding emit_leave_loop_def by ((assumption | rule keep)+)

lemma keeps_stmt [keep]:
  assumes em: "\<And>e. keeps (em e)"
  shows "keeps (emit_stmt em ev st)"
proof (induction st)
  case (Stmt k l v t ty name body orelse)
  then have b: "keeps (in_order (map (emit_stmt em ev) body))" "keeps (in_order (map (emit_stmt em ev) orelse))"
    by (auto intro!: keeps_in_order)
  show ?case
    by (cases k) (auto simp: emit_var_decl_def Let_def intro!: keep em b)
qed

lemma keeps_block [keep]: "keeps (emit_block (emit_n n ev) ev' body)"
  unfolding emit_block_def by (auto intro!: keep)

lemma keeps_entries:
  "keeps (emit_route n ev r)" "keeps (emit_function n ev f)" "keeps (emit_method n ev cls f)"
  "keeps (emit_ctor n ev cls flds ct)" "keeps (emit_condition n ev e names)" "keeps (emit_error_handler n ev d)"
proof -
  have start: "keeps start_emit" "keeps all_well"
    unfolding start_emit_def all_well_def
    by (intro keeps_update frame diags | simp)+
  note entry = start keep
  show "keeps (emit_route n ev r)" "keeps (emit_function n ev f)" "keeps (emit_method n ev cls f)"
    "keeps (emit_ctor n ev cls flds ct)" "keeps (emit_condition n ev e names)" "keeps (emit_error_handler n ev d)"
    unfolding emit_route_def emit_function_def emit_method_def emit_ctor_def emit_condition_def emit_error_handler_def
      declare_params_def emit_guard_def emit_field_from_def Let_def
    by (rule entry)+
qed

end

end
