(* ===== verification/TemplateFacts.thy ===== *)
theory TemplateFacts
  imports Render EmitterRuns EmitterKeeps
begin

text \<open>
  Compiling and rendering a template together: an accepted template renders within its tables, what it
  writes is its own text or escaped, and three tags whose handling in plantilla.cpp spoils a template.
\<close>

section \<open>Rendering an accepted template\<close>

lemma render_start_ok: "render_inv p (render_start p vals h c)"
  by (simp add: render_inv_def render_start_def loop_depth_def)


section \<open>Escaped output\<close>

text \<open>A piece of the page is a text of the template or an escaped value.\<close>

definition piece_ok :: "plantilla \<Rightarrow> string \<Rightarrow> bool" where
  "piece_ok p q \<longleftrightarrow> q \<in> set (pl_texts p) \<or> (\<forall>c \<in> set q. html_safe c)"

definition page_ok :: "plantilla \<Rightarrow> 'c render_state \<Rightarrow> bool" where
  "page_ok p r \<longleftrightarrow> (\<exists>ps. rs_out r = concat ps \<and> (\<forall>q \<in> set ps. piece_ok p q))"

lemma page_ok_append: "page_ok p r \<Longrightarrow> piece_ok p q \<Longrightarrow> rs_out r' = rs_out r @ q \<Longrightarrow> page_ok p r'"
  unfolding page_ok_def by (elim exE, rule_tac x = "ps @ [q]" in exI) auto

lemma page_ok_same: "page_ok p r \<Longrightarrow> rs_out r' = rs_out r \<Longrightarrow> page_ok p r'"
  by (simp add: page_ok_def)

fun page_kept :: "('c render_state \<Rightarrow> bool) \<Rightarrow> 'c rendering \<Rightarrow> bool" where
  "page_kept P (Rendering r) = P r"
| "page_kept P (Page r) = P r"
| "page_kept P (Broken e r) = P r"
| "page_kept P Out_of_range = True"
| "page_kept P Expr_crash = True"

lemma evaluar_page:
  assumes "page_ok p r" "\<And>v h c. page_kept (page_ok p) (cont v (r\<lparr>rs_heap := h, rs_ctx := c\<rparr>))"
  shows "page_kept (page_ok p) (evaluar re p k r cont)"
  using assms by (auto simp: evaluar_def page_ok_def split: option.split outcome.split)

lemma set_round_page: "page_ok p r \<Longrightarrow> page_kept (page_ok p) (set_round ins i l r Rendering)"
  by (simp add: set_round_def page_ok_def)

lemma render_step_page:
  assumes "Tp_EscribirCrudo \<notin> ti_op ` set (pl_code p)" "page_ok p r"
  shows "page_kept (page_ok p) (render_step re p r)"
proof (cases "rs_pc r < length (pl_code p)")
  case True
  let ?i = "pl_code p ! rs_pc r"
  have raw: "ti_op ?i \<noteq> Tp_EscribirCrudo"
    using assms(1) True by (metis image_eqI nth_mem)
  have same: "page_ok p (r\<lparr>rs_heap := h, rs_ctx := c\<rparr>)" for h c
    using assms(2) by (rule page_ok_same) simp
  have safe: "piece_ok p (html_text s)" for s
    using html_text_safe by (simp add: piece_ok_def)
  show ?thesis
  proof (cases "ti_op ?i")
    case Tp_Texto
    with True assms(2) show ?thesis
      by (auto simp: render_step_def Let_def put_text_def piece_ok_def intro!: page_ok_append [of p r "pl_texts p ! ti_a ?i"])
  next
    case Tp_Escribir
    have "page_kept (page_ok p) (evaluar re p (ti_a ?i) r (\<lambda>v r. case h_text (re_fp re) (rs_heap r) v of
        None \<Rightarrow> Expr_crash | Some s \<Rightarrow> Rendering (r\<lparr>rs_out := escapar_html s (rs_out r), rs_pc := rs_pc r + 1\<rparr>)))"
      using safe by (intro evaluar_page [OF assms(2)]) (auto simp: escapar_html_text split: option.split intro!: page_ok_append [OF assms(2) safe])
    with True Tp_Escribir show ?thesis by (simp add: render_step_def Let_def)
  next
    case Tp_SaltarSiFalso
    with True assms(2) show ?thesis
      by (auto simp: render_step_def Let_def intro!: evaluar_page page_ok_same [OF assms(2)])
  next
    case Tp_BucleInicio
    with True assms(2) show ?thesis
      by (auto simp: render_step_def Let_def intro!: evaluar_page set_round_page page_ok_same [OF assms(2)] split: hval.split)
  next
    case Tp_BucleSiguiente
    with True assms(2) show ?thesis
      by (auto simp: render_step_def Let_def intro!: set_round_page page_ok_same [OF assms(2)] split: list.split)
  qed (use True raw assms(2) in \<open>simp_all add: render_step_def Let_def page_ok_same [OF assms(2)]\<close>)
qed (use assms(2) in \<open>simp add: render_step_def\<close>)

lemma render_loop_page:
  assumes "render_loop re p r = Some x" "Tp_EscribirCrudo \<notin> ti_op ` set (pl_code p)" "page_ok p r"
  shows "page_kept (page_ok p) x"
  using assms
proof (induction rule: render_loop.raw_induct [rotated 1, consumes 1])
  case (1 loop re p r x)
  note step = render_step_page [OF "1.prems", of re]
  show ?case
  proof (cases "render_step re p r")
    case (Rendering r1)
    with 1 step show ?thesis by simp
  qed (use 1 step in auto)
qed

text \<open>C15. Without \<open>|safe\<close> the page is made of the texts of the template and of pieces with no character HTML gives
  a meaning to, whatever the values and the expressions are.
\<close>

theorem unmarked_output_is_escaped:
  assumes "Tp_EscribirCrudo \<notin> ti_op ` set (pl_code p)" "render_plantilla re p vals h c = Some (Page r)"
  shows "\<exists>ps. rs_out r = concat ps \<and> (\<forall>q \<in> set ps. q \<in> set (pl_texts p) \<or> (\<forall>c \<in> set q. html_safe c))"
proof -
  have "page_ok p (render_start p vals h c)"
    by (auto simp: page_ok_def render_start_def intro!: exI [of _ "[]"])
  with assms render_loop_page [of re p "render_start p vals h c" "Page r"] show ?thesis
    by (simp add: render_plantilla_def page_ok_def piece_ok_def)
qed

section \<open>A second loop\<close>

interpretation reported: emission_keeps "\<lambda>s. em_diags s \<noteq> []"
  by unfold_locales auto

lemma declared_at_top: "declared_here 0 ls n \<longleftrightarrow> n \<in> lc_name ` set ls"
  by (simp add: declared_here_def takeWhile_eq_all_conv [THEN iffD2])

lemma each_declare_distinct:
  assumes "em_depth s = 0"
    and "em_diags (snd (run_state (each (\<lambda>(nm, ty). do { declare_local nm l ty; give () }) names) s)) = []"
  shows "distinct (map fst names) \<and> set (map fst names) \<inter> lc_name ` set (em_locals s) = {}"
  using assms
proof (induction names arbitrary: s)
  case (Cons nt names)
  obtain nm ty where nt: "nt = (nm, ty)" by (metis surj_pair)
  let ?loop = "each (\<lambda>(nm, ty). do { declare_local nm l ty; give () }) names"
  have keeps: "reported.keeps ?loop"
    by (rule reported.keep)+
  obtain v s1 where s1: "run_state (declare_local nm l ty) s = (v, s1)"
    by (metis surj_pair)
  have rest: "em_diags (snd (run_state ?loop s1)) = []"
    using Cons.prems(2) s1 by (simp add: nt)
  with keeps have "em_diags s1 = []"
    unfolding reported.keeps_def by blast
  with s1 Cons.prems(1) have new: "nm \<notin> lc_name ` set (em_locals s)"
    by (auto simp: run_declare declared_at_top em_error_def split: if_splits)
  with s1 Cons.prems(1) have "em_depth s1 = 0" "lc_name ` set (em_locals s1) = insert nm (lc_name ` set (em_locals s))"
    by (auto simp: run_declare declared_at_top add_local_def Let_def)
  with Cons.IH [OF _ rest] new show ?case
    by (auto simp: nt)
qed simp

lemma duplicate_names_refused:
  fixes ev :: "'t emit_env"
  assumes "\<not> distinct (map fst names)"
  shows "em_diags (snd (run_state (emit_condition n ev e names) (new_emitter [] [] :: 't estate))) \<noteq> []"
proof -
  let ?ev = "ev\<lparr>ev_method := []\<rparr>"
  let ?rest = "do { emit_n n ?ev e; emit_op Op_Return (e_loc e) 0; all_well }"
  obtain v s where s: "run_state (each (\<lambda>(nm, ty). do { declare_local nm (e_loc e) ty; give () }) names)
      (snd (run_state start_emit (new_emitter [] [] :: 't estate))) = (v, s)"
    by (metis surj_pair)
  have "em_depth (snd (run_state start_emit (new_emitter [] [] :: 't estate))) = 0"
    by (simp add: start_emit_def)
  from each_declare_distinct [OF this, of "e_loc e" names] have "em_diags s \<noteq> []"
    using assms unfolding s by auto
  moreover have "reported.keeps ?rest"
  proof -
    have "reported.keeps all_well"
      by (simp add: reported.keeps_def all_well_def)
    then show ?thesis
      by (intro reported.keep)
  qed
  ultimately show ?thesis
    using s by (simp add: emit_condition_def Let_def reported.keeps_def split: prod.splits) (metis snd_conv)
qed

lemma expresion_duplicates:
  assumes "\<not> distinct (map fst (pl_names (tc_out t)))"
  shows "fst (expresion te e l t) = None"
proof -
  have "em_diags em \<noteq> []" if "run_state (emit_condition (te_depth te) expr_env ex (pl_names (tc_out t))) (new_emitter [] []) = (ok, em)" for ex ok em
    using duplicate_names_refused [OF assms, of "te_depth te" expr_env ex] that by simp
  then show ?thesis
    by (auto simp: expresion_def Let_def split: prod.split option.split list.split)
qed

lemma tag_for_opens:
  assumes "\<not> tc_failed (tag_for te resto loc t)"
  obtains k t1 var where "find_sub '' in '' resto = Some k" "var = tpl_trim (take k resto)"
    "pl_names (tc_out (tag_for te resto loc t)) = snd (loop_names var (pl_names (tc_out t)))"
    "tc_open (tag_for te resto loc t) = \<lparr>tg_que = ''for'', tg_loc = loc, tg_patches = [], tg_start = Some (tc_here t1),
       tg_hidden = fst (loop_names var (pl_names (tc_out t)))\<rparr> # tc_open t"
proof -
  obtain k where k: "find_sub '' in '' resto = Some k"
    using assms by (auto simp: tag_for_def tc_error_def split: option.splits)
  let ?var = "tpl_trim (take k resto)" and ?lista = "tpl_trim (drop (k + 4) resto)"
  have var: "?var \<noteq> []"
    using assms k by (auto simp: tag_for_def tc_error_def)
  show ?thesis
  proof (cases rule: expresion_cases [of te ?lista loc t])
    case (1 msg)
    with assms k var show ?thesis by (simp add: tag_for_def tc_error_def Let_def)
  next
    case (2 c a b)
    with k var show ?thesis
      by (intro that [OF k refl, of "snd (expresion te ?lista loc t)"])
        (simp_all add: tag_for_def Let_def on_tpl_def split: prod.split)
  qed
qed

lemma tapar_keeps:
  assumes "x \<noteq> var" "x \<in> fst ` set ns"
  shows "x \<in> fst ` set (snd (tapar var ns))"
proof (cases "find (\<lambda>i. fst (ns ! i) = var) (rev [0..<length ns])")
  case (Some i)
  obtain j where j: "j < length ns" "fst (ns ! j) = x"
    using assms(2) by (auto simp: in_set_conv_nth)
  have "fst (ns ! i) = var"
    using Some by (auto simp: find_Some_iff)
  with assms(1) j have "i \<noteq> j" by auto
  with j have "j < length (snd (tapar var ns)) \<and> fst (snd (tapar var ns) ! j) = x"
    by (simp add: tapar_def Some)
  then show ?thesis
    by (metis image_eqI nth_mem)
qed (use assms(2) in \<open>simp add: tapar_def\<close>)

lemma tapar_hides:
  assumes "x \<in> fst ` set ns"
  obtains i where "i < length ns" "tapar x ns = ([(i, x)], ns[i := ('' tapado'' @ nat_dec i, snd (ns ! i))])"
proof -
  obtain j where "j < length ns" "fst (ns ! j) = x"
    using assms by (auto simp: in_set_conv_nth)
  then obtain i where "find (\<lambda>i. fst (ns ! i) = x) (rev [0..<length ns]) = Some i"
    by (cases "find (\<lambda>i. fst (ns ! i) = x) (rev [0..<length ns])") (auto simp: find_None_iff)
  moreover from this have "i < length ns"
    by (auto simp: find_Some_iff rev_nth)
  ultimately show ?thesis
    by (intro that [of i]) (simp_all add: tapar_def)
qed

lemma unhide_length: "length (unhide hs ns) = length ns"
  unfolding unhide_def by (induction hs arbitrary: ns) (auto split: prod.split)

lemma unhide_beyond: "\<forall>(i, nom) \<in> set hs. i < k \<Longrightarrow> unhide hs ns ! k = ns ! k"
  unfolding unhide_def by (induction hs arbitrary: ns) auto

lemma tapar_below: "tapar x ns = (hs, ns') \<Longrightarrow> length ns' = length ns \<and> (\<forall>(i, nom) \<in> set hs. i < length ns)"
  by (auto simp: tapar_def find_Some_iff rev_nth split: option.splits)

text \<open>Hiding \<open>loop\<close> and giving it back leaves it twice, or was the name of the variable.\<close>

lemma loop_comes_back:
  assumes "''loop'' \<in> fst ` set ns" "loop_names var ns = (hidden, ns')"
  shows "\<not> distinct (map fst (unhide hidden ns'))"
proof -
  obtain h1 ns1 where h1: "tapar var ns = (h1, ns1)" by (metis surj_pair)
  obtain h2 ns2 where h2: "tapar ''loop'' ns1 = (h2, ns2)" by (metis surj_pair)
  note below = tapar_below [OF h1] tapar_below [OF h2]
  have parts: "hidden = h1 @ h2" "ns' = ns2 @ [(var, []), (''loop'', [])]"
    using assms(2) h1 h2 by (simp_all add: loop_names_def)
  let ?final = "unhide hidden ns'" and ?L = "length ns"
  have len: "length ?final = ?L + 2"
    using below by (simp add: unhide_length parts)
  have last: "?final ! ?L = (var, [])" "?final ! (?L + 1) = (''loop'', [])"
    using below by (subst unhide_beyond; auto simp: parts nth_append)+
  have "\<exists>i \<le> ?L. fst (?final ! i) = ''loop''"
  proof (cases "var = ''loop''")
    case True
    with last show ?thesis by auto
  next
    case False
    with assms(1) tapar_keeps [of "''loop''" var ns] obtain i where i: "i < length ns1" "h2 = [(i, ''loop'')]"
      by (metis h1 h2 snd_conv tapar_hides fst_conv)
    with len have "?final = (unhide h1 ns')[i := (''loop'', snd (unhide h1 ns' ! i))]"
      by (simp add: parts unhide_def)
    with i below len show ?thesis
      by (intro exI [of _ i]) (simp add: unhide_length)
  qed
  then obtain i where "i \<le> ?L" "map fst ?final ! i = map fst ?final ! (?L + 1)"
    using last(2) len by auto
  with len show ?thesis
    unfolding distinct_conv_nth by (intro notI) (metis One_nat_def Suc_n_not_le_n add_2_eq_Suc' length_map lessI add.right_neutral add_Suc_right less_SucI le_imp_less_Suc)
qed

text \<open>C16. A loop that is opened where \<open>loop\<close> is a name already - after another loop or inside it - and closed
  leaves a template in which no expression compiles any more.
\<close>

theorem second_loop_spoils_expressions:
  assumes "''loop'' \<in> fst ` set (pl_names (tc_out t))" "\<not> tc_failed (tag_for te resto loc t)"
    and "tc_open t2 = tc_open (tag_for te resto loc t)" "pl_names (tc_out t2) = pl_names (tc_out (tag_for te resto loc t))"
  shows "fst (expresion te e l (tag_endfor loc2 t2)) = None"
proof -
  obtain k t1 var where opened: "pl_names (tc_out (tag_for te resto loc t)) = snd (loop_names var (pl_names (tc_out t)))"
      "tc_open (tag_for te resto loc t) = \<lparr>tg_que = ''for'', tg_loc = loc, tg_patches = [], tg_start = Some (tc_here t1),
         tg_hidden = fst (loop_names var (pl_names (tc_out t)))\<rparr> # tc_open t"
    using tag_for_opens [OF assms(2)] by metis
  then have "pl_names (tc_out (tag_endfor loc2 t2)) =
      unhide (fst (loop_names var (pl_names (tc_out t)))) (snd (loop_names var (pl_names (tc_out t))))"
    using assms(3,4) by (simp add: tag_endfor_def opens_with_def Let_def patch_b_def on_tpl_def)
  with loop_comes_back [OF assms(1) surjective_pairing] show ?thesis
    by (intro expresion_duplicates) simp
qed

section \<open>A second else\<close>

text \<open>\<open>else\<close> behind \<open>else\<close> patches an instruction that is not there.\<close>

lemma second_else_writes_outside:
  assumes "opens_with ''if'' t"
  shows "pl_undefined (tc_out (tag_else te ''else'' resto2 loc2 (tag_else te ''else'' resto loc t)))"
  using assms by (auto simp: tag_else_def opens_with_def Let_def mark_wild_def on_tpl_def patch_b_def split: list.splits option.split)

section \<open>A block inside itself\<close>

definition block_a :: string where
  "block_a = ''{% block a %}{% endblock %}''"

definition nested_child :: string where
  "nested_child = ''{% extends b %}{% block a %}{% block a %}{% endblock %}{% endblock %}''"

lemma block_a_facts:
  "find_index_from (\<lambda>c. c = CHR ''{'') 0 block_a = Some 0" "length block_a = 27" "block_a ! 1 = CHR ''%''" "block_a ! 2 = CHR '' ''"
  "find_sub_from ''%}'' (Suc (Suc 0)) block_a = Some 11" "block_a ! Suc (Suc 0) = CHR '' ''" "block_a ! 10 = CHR '' ''" "span_of block_a 0 0 = []"
  "tpl_trim (span_of block_a (Suc (Suc 0)) 11) = ''block a''" "fin_de_bloque block_a 1 13 = Some (27, 13)" "tpl_trim '' a'' = ''a''" "tpl_trim ''a'' = ''a''"
  "find_index_from (\<lambda>c. c = CHR ''{'') 27 block_a = None" "padre_de block_a t = (None, t)" "Loc 1 1 = loc_at block_a 0"
  by code_simp+

lemma nested_child_facts:
  "padre_de nested_child t = (Some ''b'', t)" "recoger_bloques nested_child 0 [] t = ([(''a'', block_a)], t)"
  by code_simp+

lemma block_a_step:
  assumes "map_of bs ''a'' = Some block_a"
  shows "body_step again te bs block_a d 0 0 t = Go 27 27 (again block_a (d + 1) t)"
  using assms
  by (simp add: body_step_def block_a_facts [simplified] closing_mark_def Let_def texto_def tag_step_def tag_block_def)

lemma cuerpo_block_a:
  assumes "map_of bs ''a'' = Some block_a"
  shows "pl_spent (tc_out (cuerpo k te bs block_a d t))"
proof (induction k arbitrary: d t)
  case (Suc k)
  then show ?case
    by (simp add: body_loop.simps [of _ _ _ _ _ 0] block_a_step [OF assms])
      (simp add: body_loop.simps body_step_def block_a_facts)
qed (simp add: on_tpl_def)

text \<open>However deep the compiler may nest, it runs out: the block is replaced by a text that holds the block.\<close>

theorem block_in_itself_never_ends:
  assumes "te_read te (path_join (te_dir te) ''b'') = Some block_a"
  shows "pl_spent (tc_out (compilar k te nested_child datos))"
proof -
  have "leer_plantilla te ''b'' = Some block_a"
    using assms by (simp add: leer_plantilla_def)
  moreover have "subir (Suc n) te block_a bs t = (Some (block_a, bs), t)" for n bs t
    by (simp add: block_a_facts)
  ultimately have "subir 16 te nested_child [] t = (Some (block_a, [(''a'', block_a)]), t)" for t
    by (simp add: numeral_eq_Suc nested_child_facts)
  then show ?thesis
    using cuerpo_block_a [of "[(''a'', block_a)]" k te 0 "new_compiler datos"]
    by (simp add: compilar_def Let_def tc_error_def split: list.split)
qed

end
