(* ===== verification/Compile.thy ===== *)
theory Compile
  imports Emitter Values
begin

text \<open>
  Building a module out of the program (project.cpp): signatures and code of functions, methods and
  constructors, the rules of the classes, the parameters of the routes, the declarative routes and the
  handlers of errors.
\<close>

section \<open>The module being built\<close>

text \<open>\<open>bd_fns\<close> is the table of functions; methods and constructors live in it too.\<close>

record 't build =
  bd_fns :: "chunk list"
  bd_diags :: "diagnostic list"
  bd_tpls :: "'t list"
  bd_undefined :: bool
  bd_spent :: bool

type_synonym ('t, 'a) builder = "('t build, 'a) state"

abbreviation done_with :: "'a \<Rightarrow> ('t, 'a) builder" where
  "done_with \<equiv> State_Monad.return"

definition bd_error :: "source_loc \<Rightarrow> string \<Rightarrow> ('t, unit) builder" where
  "bd_error loc msg = State (\<lambda>b. ((), b\<lparr>bd_diags := bd_diags b @ [\<lparr>dg_loc = loc, dg_message = msg\<rparr>]\<rparr>))"

primrec for_each :: "('a \<Rightarrow> ('t, unit) builder) \<Rightarrow> 'a list \<Rightarrow> ('t, unit) builder" where
  "for_each f [] = done_with ()"
| "for_each f (x # xs) = do { f x; for_each f xs }"

primrec fold_do :: "('a \<Rightarrow> 'b \<Rightarrow> ('t, 'b) builder) \<Rightarrow> 'a list \<Rightarrow> 'b \<Rightarrow> ('t, 'b) builder" where
  "fold_do f [] acc = done_with acc"
| "fold_do f (x # xs) acc = do { acc' \<leftarrow> f x acc; fold_do f xs acc' }"

text \<open>A new emitter writes onto a chunk, with the diagnostics and templates of the module.\<close>

definition emitter_on :: "chunk \<Rightarrow> 't build \<Rightarrow> 't estate" where
  "emitter_on c b = \<lparr>em_chunk = c, em_diags = bd_diags b, em_failed = False, em_locals = [], em_depth = 0,
     em_loops = [], em_tpls = bd_tpls b, em_undefined = bd_undefined b, em_spent = bd_spent b\<rparr>"

definition after_emit :: "'t estate \<Rightarrow> 't build \<Rightarrow> 't build" where
  "after_emit s b = b\<lparr>bd_diags := em_diags s, bd_tpls := em_tpls s, bd_undefined := em_undefined s,
     bd_spent := em_spent s\<rparr>"

definition emit_new :: "('t, bool) emitter \<Rightarrow> ('t, bool \<times> chunk) builder" where
  "emit_new p = State (\<lambda>b. (case run_state p (emitter_on new_chunk b) of (ok, s) \<Rightarrow> ((ok, em_chunk s), after_emit s b)))"

definition emit_into :: "nat \<Rightarrow> ('t, bool) emitter \<Rightarrow> ('t, unit) builder" where
  "emit_into i p = State (\<lambda>b.
     if i < length (bd_fns b) then
       (case run_state p (emitter_on (bd_fns b ! i) b) of
          (ok, s) \<Rightarrow> ((), (after_emit s b)\<lparr>bd_fns := (bd_fns b)[i := em_chunk s]\<rparr>))
     else ((), b\<lparr>bd_undefined := True\<rparr>))"

definition reserve :: "('t, nat) builder" where
  "reserve = State (\<lambda>b. (length (bd_fns b), b\<lparr>bd_fns := bd_fns b @ [new_chunk]\<rparr>))"

section \<open>Functions\<close>

primrec late_required :: "bool \<Rightarrow> param list \<Rightarrow> diagnostic list" where
  "late_required seen [] = []"
| "late_required seen (p # ps) =
     (if default_value p \<noteq> None then late_required True ps
      else (if seen then [\<lparr>dg_loc = pm_loc p, dg_message = ''un parametro sin valor por defecto no puede ir despues de uno que lo tiene''\<rparr>]
            else []) @ late_required seen ps)"

definition make_sig :: "nat \<Rightarrow> param list \<Rightarrow> ('t, fn_sig) builder" where
  "make_sig i ps = State (\<lambda>b.
     (\<lparr>sg_index = i, sg_required = length (filter (\<lambda>p. default_value p = None) ps), sg_defaults = map default_value ps\<rparr>,
      b\<lparr>bd_diags := bd_diags b @ late_required False ps\<rparr>))"

definition new_callable :: "param list \<Rightarrow> ('t, fn_sig) builder" where
  "new_callable ps = do { i \<leftarrow> reserve; make_sig i ps }"

definition declare_function :: "fn_decl \<Rightarrow> (string \<times> fn_sig) list \<Rightarrow> ('t, (string \<times> fn_sig) list) builder" where
  "declare_function f ix =
     (if native_id (fn_name f) \<noteq> None then do {
        bd_error (fn_loc f) (CHR 0x27 # fn_name f @ CHR 0x27 # '' es un builtin: elige otro nombre'');
        done_with ix }
      else if map_of ix (fn_name f) \<noteq> None then done_with ix
      else do { sg \<leftarrow> new_callable (fn_params f); done_with ((fn_name f, sg) # ix) })"

text \<open>
  What lies outside the model: the file system, and the compiler and renderer of templates (an error
  or the page).
\<close>

record 't outside =
  os_read :: "string \<Rightarrow> string option"
  os_render :: "'t \<Rightarrow> val list \<Rightarrow> string + string"
  os_template :: "string \<Rightarrow> string \<Rightarrow> string \<Rightarrow> (string \<times> string) list \<Rightarrow> diagnostic list \<times> 't option"

text \<open>What an emitter is built with.\<close>

definition env_with :: "'t outside \<Rightarrow> string list \<Rightarrow> (string \<times> fn_sig) list \<Rightarrow> (string \<times> class_sig) list option \<Rightarrow>
    string option \<Rightarrow> 't emit_env" where
  "env_with os imps ix cs dir = \<lparr>ev_functions = Some ix, ev_classes = cs, ev_imports = Some imps, ev_templates = dir,
     ev_method = [], read_file = os_read os, compile_template = os_template os\<rparr>"

definition build_functions :: "nat \<Rightarrow> 't outside \<Rightarrow> program \<Rightarrow> ('t, (string \<times> fn_sig) list) builder" where
  "build_functions n os p = do {
     ix \<leftarrow> fold_do declare_function (fns p) [];
     for_each (\<lambda>f. case map_of ix (fn_name f) of
         None \<Rightarrow> done_with ()
       | Some sg \<Rightarrow> emit_into (sg_index sg) (emit_function n (env_with os (imports_of p) ix None None) f)) (fns p);
     done_with ix }"

section \<open>Classes\<close>

definition declare_method :: "fn_decl \<Rightarrow> class_sig \<Rightarrow> ('t, class_sig) builder" where
  "declare_method m cs = do {
     sg \<leftarrow> new_callable (fn_params m);
     done_with (cs\<lparr>cs_methods := (fn_name m, sg) # cs_methods cs\<rparr>) }"

definition declare_ctor :: "nat \<Rightarrow> class_sig \<Rightarrow> ('t, class_sig) builder" where
  "declare_ctor n cs = do { i \<leftarrow> reserve; done_with (cs\<lparr>cs_ctors := (n, i) # cs_ctors cs\<rparr>) }"

definition class_signature :: "class_decl \<Rightarrow> ('t, class_sig) builder" where
  "class_signature c = do {
     cs \<leftarrow> fold_do declare_method (cl_methods c) \<lparr>cs_methods = [], cs_ctors = [], cs_fields = map fd_name (cl_fields c)\<rparr>;
     cs \<leftarrow> fold_do (\<lambda>ct. declare_ctor (length (ct_params ct))) (cl_ctors c) cs;
     if cs_ctors cs = [] \<and> cl_fields c \<noteq> [] then declare_ctor (length (cl_fields c)) cs else done_with cs }"

definition build_class_signatures :: "class_decl list \<Rightarrow> ('t, (string \<times> class_sig) list) builder" where
  "build_class_signatures cls =
     fold_do (\<lambda>c out. if map_of out (cl_name c) \<noteq> None then done_with out
                      else do { cs \<leftarrow> class_signature c; done_with ((cl_name c, cs) # out) }) cls []"

definition implicit_ctor :: "class_decl \<Rightarrow> ctor_decl" where
  "implicit_ctor c = \<lparr>ct_params = map (\<lambda>f. \<lparr>pm_type = fd_type f, pm_name = fd_name f, default_value = None, pm_loc = fd_loc f\<rparr>) (cl_fields c),
     ct_body = [], has_body = False, ct_loc = cl_loc c\<rparr>"

definition emit_class_methods :: "nat \<Rightarrow> 't emit_env \<Rightarrow> class_sig \<Rightarrow> class_decl \<Rightarrow> ('t, unit) builder" where
  "emit_class_methods n ev cs c = for_each (\<lambda>m. case map_of (cs_methods cs) (fn_name m) of
       None \<Rightarrow> done_with ()
     | Some sg \<Rightarrow> emit_into (sg_index sg) (emit_method n ev (cl_name c) m)) (cl_methods c)"

definition emit_class_ctor :: "nat \<Rightarrow> 't emit_env \<Rightarrow> class_sig \<Rightarrow> class_decl \<Rightarrow> ctor_decl \<Rightarrow> ('t, unit) builder" where
  "emit_class_ctor n ev cs c ct = (case map_of (cs_ctors cs) (length (ct_params ct)) of
       None \<Rightarrow> done_with ()
     | Some i \<Rightarrow> emit_into i (emit_ctor n ev (cl_name c) (cs_fields cs) ct))"

definition emit_class_bodies :: "nat \<Rightarrow> 't emit_env \<Rightarrow> (string \<times> class_sig) list \<Rightarrow> class_decl list \<Rightarrow> ('t, unit) builder" where
  "emit_class_bodies n ev sigs cls = for_each (\<lambda>c. case map_of sigs (cl_name c) of
       None \<Rightarrow> done_with ()
     | Some cs \<Rightarrow> do {
         emit_class_methods n ev cs c;
         for_each (emit_class_ctor n ev cs c) (cl_ctors c);
         if cl_ctors c = [] \<and> cl_fields c \<noteq> [] then emit_class_ctor n ev cs c (implicit_ctor c) else done_with () }) cls"

text \<open>
  Everything that is called: the table of functions.  Signatures come before bodies, so that any
  function may call any other.
\<close>

definition build_code :: "nat \<Rightarrow> 't outside \<Rightarrow> program \<Rightarrow>
    ('t, (string \<times> fn_sig) list \<times> (string \<times> class_sig) list) builder" where
  "build_code n os p = do {
     ix \<leftarrow> build_functions n os p;
     sigs \<leftarrow> build_class_signatures (classes p);
     emit_class_bodies n (env_with os (imports_of p) ix (Some sigs) None) sigs (classes p);
     done_with (ix, sigs) }"

definition scalar_types :: "string list" where
  "scalar_types = [''int'', ''long'', ''float'', ''double'', ''bool'', ''string'']"

definition is_scalar :: "string \<Rightarrow> bool" where
  "is_scalar t \<longleftrightarrow> t \<in> set scalar_types"

record class_field =
  cf_name :: string
  cf_type :: string
  cf_optional :: bool

record class_info =
  ci_name :: string
  ci_fields :: "class_field list"
  ci_rules :: "(chunk \<times> string) list"

definition bad_field :: "fld \<Rightarrow> ('t, unit) builder" where
  "bad_field f = (if is_scalar (t_name (fd_type f)) then done_with () else
     bd_error (fd_loc f) (''el tipo '' @ CHR 0x27 # type_str (fd_type f) @ CHR 0x27 # '' como campo todavia no esta implementado; de momento solo int, long, float, double, bool y string''))"

definition build_rule :: "nat \<Rightarrow> 't emit_env \<Rightarrow> (string \<times> string) list \<Rightarrow> validate_rule \<Rightarrow> (chunk \<times> string) list \<Rightarrow>
    ('t, (chunk \<times> string) list) builder" where
  "build_rule n ev names r rs = do {
     (ok, c) \<leftarrow> emit_new (emit_condition n ev (vr_condition r) names);
     done_with (if ok then rs @ [(c, vr_message r)] else rs) }"

definition build_class :: "nat \<Rightarrow> 't emit_env \<Rightarrow> class_decl \<Rightarrow> (string \<times> class_info) list \<Rightarrow>
    ('t, (string \<times> class_info) list) builder" where
  "build_class n ev c out =
     (if map_of out (cl_name c) \<noteq> None then do {
        bd_error (cl_loc c) (''la clase '' @ CHR 0x27 # cl_name c @ CHR 0x27 # '' ya esta declarada'');
        done_with out }
      else do {
        for_each bad_field (cl_fields c);
        if \<not> list_all (\<lambda>f. is_scalar (t_name (fd_type f))) (cl_fields c) then done_with out else do {
          rs \<leftarrow> fold_do (build_rule n ev (map (\<lambda>f. (fd_name f, t_name (fd_type f))) (cl_fields c))) (cl_rules c) [];
          done_with ((cl_name c, \<lparr>ci_name = cl_name c,
            ci_fields = map (\<lambda>f. \<lparr>cf_name = fd_name f, cf_type = t_name (fd_type f), cf_optional = t_optional (fd_type f)\<rparr>) (cl_fields c),
            ci_rules = rs\<rparr>) # out) } })"

definition build_classes :: "nat \<Rightarrow> 't emit_env \<Rightarrow> class_decl list \<Rightarrow> ('t, (string \<times> class_info) list) builder" where
  "build_classes n ev cls = fold_do (build_class n ev) cls []"

end
