(* ===== verification/ParserRuns.thy ===== *)
theory ParserRuns
  imports Parser Lexer "HOL-Library.Sublist"
begin

text \<open>
  What the parser does with the text of any files.  \<open>within K n p b\<close> bounds the tokens a parser leaves,
  and every routine of the parser has such a bound: they are proved from the rules collected in
  \<open>parse_step\<close>, one per first action.  From them: no bound of a loop is ever used up, the position
  reaches the end of the file and diagnostics are only added.
\<close>

section \<open>Reading with a bound\<close>

named_theorems parse_step "rules for the first action of a parser"

definition head :: "pstate \<Rightarrow> tok" where
  "head s = tk_kind (peek_at 0 s)"

definition pok :: "pstate \<Rightarrow> bool" where
  "pok s \<longleftrightarrow> ps_rest s \<noteq> [] \<and> tk_kind (last (ps_rest s)) = EndOfFile \<and> \<not> ps_spent s"

definition follows :: "pstate \<Rightarrow> pstate \<Rightarrow> bool" where
  "follows s s' \<longleftrightarrow> pok s' \<and> suffix (ps_rest s') (ps_rest s) \<and> prefix (ps_diags s) (ps_diags s')"

text \<open>
  From a state with at most \<open>n\<close> tokens left, the next of a kind in \<open>K\<close>, the parser uses up no
  bound and leaves at most \<open>b x\<close> tokens behind the result \<open>x\<close>.
\<close>

definition within :: "(tok \<Rightarrow> bool) \<Rightarrow> nat \<Rightarrow> 'a parser \<Rightarrow> ('a \<Rightarrow> nat) \<Rightarrow> bool" where
  "within K n p b \<longleftrightarrow>
     (\<forall>s. pok s \<and> K (head s) \<and> length (ps_rest s) \<le> n \<longrightarrow>
        follows s (snd (run_state p s)) \<and> length (ps_rest (snd (run_state p s))) \<le> b (fst (run_state p s)))"

abbreviation any :: "tok \<Rightarrow> bool" where "any \<equiv> \<lambda>_. True"

definition after :: "(tok \<Rightarrow> bool) \<Rightarrow> nat \<Rightarrow> nat" where
  "after K n = (if K EndOfFile then n else n - 1)"

lemma after_le [simp]: "after K n \<le> n"
  by (simp add: after_def)

lemma after_ge [simp]: "n - 1 \<le> after K n" "n - Suc 0 \<le> after K n"
  by (simp_all add: after_def)

lemma eof_eq: "EndOfFile = k \<longleftrightarrow> k = EndOfFile"
  by auto

lemmas after_simps = after_def eof_eq

lemma after_sub [simp]: "after (\<lambda>h. K h \<and> P h) n \<le> after K n"
  by (simp add: after_def)

lemma follows_refl: "pok s \<Longrightarrow> follows s s"
  by (simp add: follows_def)

lemma follows_trans: "follows s s1 \<Longrightarrow> follows s1 s2 \<Longrightarrow> follows s s2"
  by (auto simp: follows_def intro: suffix_order.order_trans prefix_order.order_trans)

lemma follows_pok: "follows s s' \<Longrightarrow> pok s'"
  by (simp add: follows_def)

lemma follows_length: "follows s s' \<Longrightarrow> length (ps_rest s') \<le> length (ps_rest s)"
  by (auto simp: follows_def dest: suffix_length_le)

lemma withinI:
  "(\<And>s. pok s \<Longrightarrow> K (head s) \<Longrightarrow> length (ps_rest s) \<le> n \<Longrightarrow>
      follows s (snd (run_state p s)) \<and> length (ps_rest (snd (run_state p s))) \<le> b (fst (run_state p s))) \<Longrightarrow>
   within K n p b"
  by (simp add: within_def)

lemma withinD:
  assumes "within K n p b" "pok s" "K (head s)" "length (ps_rest s) \<le> n"
  shows "follows s (snd (run_state p s))" "length (ps_rest (snd (run_state p s))) \<le> b (fst (run_state p s))"
  using assms by (auto simp: within_def)

lemma within_weaken:
  "within K n p b \<Longrightarrow> m \<le> n \<Longrightarrow> (\<And>h. L h \<Longrightarrow> K h) \<Longrightarrow> (\<And>x. b x \<le> c x) \<Longrightarrow> within L m p c"
  by (fastforce simp: within_def intro: order_trans)

lemma within_bind:
  assumes "within K n p b" and "\<And>x. within any (b x) (f x) c"
  shows "within K n (State_Monad.bind p f) c"
proof (rule withinI)
  fix s assume s: "pok s" "K (head s)" "length (ps_rest s) \<le> n"
  obtain x s1 where p: "run_state p s = (x, s1)" by (cases "run_state p s")
  from withinD [OF assms(1) s] p have s1: "follows s s1" "length (ps_rest s1) \<le> b x" by simp_all
  from withinD [OF assms(2) follows_pok [OF s1(1)] _ s1(2)] follows_trans [OF s1(1)]
  show "follows s (snd (run_state (State_Monad.bind p f) s)) \<and>
      length (ps_rest (snd (run_state (State_Monad.bind p f) s))) \<le> c (fst (run_state (State_Monad.bind p f) s))"
    by (simp add: p)
qed

lemma within_bind_pair:
  assumes "within K n p b" and "\<And>x y. within any (b (x, y)) (f x y) c"
  shows "within K n (State_Monad.bind p (\<lambda>(x, y). f x y)) c"
  using assms(1) by (rule within_bind) (auto simp: assms(2))

lemma within_bind_weak: "within K n p (\<lambda>_. n) \<Longrightarrow> (\<And>x. within any n (f x) c) \<Longrightarrow> within K n (State_Monad.bind p f) c"
  by (rule within_bind)

lemma within_ret [parse_step]: "n \<le> b x \<Longrightarrow> within K n (ret x) b"
  by (auto intro!: withinI follows_refl)

lemma within_if [parse_step]:
  "(c \<Longrightarrow> within K n p b) \<Longrightarrow> (\<not> c \<Longrightarrow> within K n q b) \<Longrightarrow> within K n (if c then p else q) b"
  by simp

lemma within_prod [parse_step]: "(\<And>x y. within K n (f x y) b) \<Longrightarrow> within K n (case p of (x, y) \<Rightarrow> f x y) b"
  by (cases p) simp

lemma within_option [parse_step]:
  "within K n p b \<Longrightarrow> (\<And>x. within K n (f x) b) \<Longrightarrow> within K n (case v of None \<Rightarrow> p | Some x \<Rightarrow> f x) b"
  by (cases v) simp_all

lemma head_not_end: "pok s \<Longrightarrow> head s \<noteq> EndOfFile \<Longrightarrow> \<exists>t u us. ps_rest s = t # u # us"
  by (cases "ps_rest s"; cases "tl (ps_rest s)") (auto simp: pok_def head_def peek_at_def)

lemma advance_follows: "pok s \<Longrightarrow> follows s (snd (advance_state s))"
  by (auto simp: follows_def pok_def advance_state_def suffix_def split: list.splits if_splits)

lemma advance_length:
  "pok s \<Longrightarrow> head s \<noteq> EndOfFile \<Longrightarrow> length (ps_rest (snd (advance_state s))) = length (ps_rest s) - 1"
  using head_not_end [of s] by (auto simp: advance_state_def)

lemma within_advance1: "within K n tok_advance (\<lambda>_. after K n)"
proof (rule withinI)
  fix s assume s: "pok s" "K (head s)" "length (ps_rest s) \<le> n"
  show "follows s (snd (run_state tok_advance s)) \<and> length (ps_rest (snd (run_state tok_advance s))) \<le> after K n"
    using s advance_follows [OF s(1)] advance_length [OF s(1)] follows_length [OF advance_follows [OF s(1)]]
    by (cases "head s = EndOfFile") (auto simp: tok_advance_def after_def)
qed

lemma within_advance [parse_step]:
  "(\<And>t. within any (after K n) (f t) c) \<Longrightarrow> within K n (State_Monad.bind tok_advance f) c"
  by (rule within_bind [OF within_advance1])

lemma run_peek [simp]: "run_state (tok_peek k) s = (peek_at k s, s)"
  by (simp add: tok_peek_def)

lemma within_peek [parse_step]:
  "(\<And>t. within (\<lambda>h. K h \<and> h = tk_kind t) n (f t) c) \<Longrightarrow> within K n (State_Monad.bind (tok_peek 0) f) c"
  by (auto simp: within_def head_def)

lemma within_peek_ahead [parse_step]:
  "(\<And>t. within K n (f t) c) \<Longrightarrow> within K n (State_Monad.bind (tok_peek 1) f) c"
  by (auto simp: within_def)

lemma within_get [parse_step]:
  "(\<And>s. within (\<lambda>h. K h \<and> h = tk_kind (peek_at 0 s)) n (f s) c) \<Longrightarrow>
   within K n (State_Monad.bind State_Monad.get f) c"
  by (auto simp: within_def head_def)

lemma within_prev [parse_step]:
  "(\<And>s. within K n (f s) c) \<Longrightarrow> within K n (State_Monad.bind tok_prev f) c"
  by (auto simp: within_def tok_prev_def)

lemma within_test:
  assumes "within (\<lambda>h. K h \<and> P h) n (f True) c" and "within (\<lambda>h. K h \<and> \<not> P h) n (f False) c"
  shows "within K n (State_Monad.bind (tok_peek 0) (\<lambda>t. f (P (tk_kind t)))) c"
proof (rule within_peek)
  fix t
  show "within (\<lambda>h. K h \<and> h = tk_kind t) n (f (P (tk_kind t))) c"
  proof (cases "P (tk_kind t)")
    case True
    with assms(1) show ?thesis by (auto elim: within_weaken)
  next
    case False
    with assms(2) show ?thesis by (auto elim: within_weaken)
  qed
qed

lemma within_check [parse_step]:
  "within (\<lambda>h. K h \<and> h = k) n (f True) c \<Longrightarrow> within (\<lambda>h. K h \<and> h \<noteq> k) n (f False) c \<Longrightarrow>
   within K n (State_Monad.bind (check k) f) c"
  unfolding check_def bind_assoc bind_left_identity by (rule within_test)

lemma within_check_in [parse_step]:
  "within (\<lambda>h. K h \<and> h \<in> set ks) n (f True) c \<Longrightarrow> within (\<lambda>h. K h \<and> h \<notin> set ks) n (f False) c \<Longrightarrow>
   within K n (State_Monad.bind (check_in ks) f) c"
  unfolding check_in_def bind_assoc bind_left_identity by (rule within_test)

lemma within_error_at [parse_step]:
  "within K n (f ()) c \<Longrightarrow> within K n (State_Monad.bind (error_at l msg) f) c"
proof (rule withinI)
  fix s assume f: "within K n (f ()) c" and s: "pok s" "K (head s)" "length (ps_rest s) \<le> n"
  define s1 where "s1 = s\<lparr>ps_diags := ps_diags s @ [\<lparr>dg_loc = l, dg_message = msg\<rparr>]\<rparr>"
  have "follows s s1" "K (head s1)" "length (ps_rest s1) \<le> n"
    using s by (simp_all add: s1_def follows_def pok_def head_def peek_at_def)
  with withinD [OF f, of s1] follows_trans [of s s1]
  show "follows s (snd (run_state (State_Monad.bind (error_at l msg) f) s)) \<and>
     length (ps_rest (snd (run_state (State_Monad.bind (error_at l msg) f) s)))
       \<le> c (fst (run_state (State_Monad.bind (error_at l msg) f) s))"
    by (auto simp: error_at_def s1_def [symmetric] dest: follows_pok)
qed

lemma within_error_if [parse_step]:
  "within K n (f ()) c \<Longrightarrow> within K n (State_Monad.bind (error_if e l msg) f) c"
  by (simp add: error_if_def within_error_at)

lemma within_error_each [parse_step]:
  "within K n (f ()) c \<Longrightarrow> within K n (State_Monad.bind (error_each xs l msg) f) c"
  by (induction xs) (simp_all add: within_error_at)

lemma within_error_here [parse_step]:
  "within K n (f ()) c \<Longrightarrow> within K n (State_Monad.bind (error_here msg) f) c"
  by (auto simp: error_here_def intro!: within_peek within_error_at elim: within_weaken)

lemma within_tail: "within K n (State_Monad.bind p ret) c \<Longrightarrow> within K n p c"
  by simp

lemma within_error_here_tail [parse_step]: "(n :: nat) \<le> c () \<Longrightarrow> within K n (error_here msg) c"
  by (rule within_tail) (intro parse_step)

lemma bind_if: "State_Monad.bind (if c then p else q) f = (if c then State_Monad.bind p f else State_Monad.bind q f)"
  by simp

lemma match_bind: "State_Monad.bind (tok_match k) f =
    State_Monad.bind (check k) (\<lambda>c. if c then State_Monad.bind tok_advance (\<lambda>_. f True) else f False)"
  by (simp add: tok_match_def bind_if cong: if_cong)

lemma within_match [parse_step]:
  assumes "k \<noteq> EndOfFile" and "within any (n - 1) (f True) c" and "within (\<lambda>h. K h \<and> h \<noteq> k) n (f False) c"
  shows "within K n (State_Monad.bind (tok_match k) f) c"
  unfolding match_bind
proof (rule within_check)
  have "after (\<lambda>h. K h \<and> h = k) n = n - 1"
    using assms(1) by (auto simp: after_def)
  with assms(2) show "within (\<lambda>h. K h \<and> h = k) n (if True then State_Monad.bind tok_advance (\<lambda>_. f True) else f False) c"
    by (simp only: if_True) (rule within_advance, simp only:)
qed (use assms(3) in simp)

lemma within_expect [parse_step]:
  assumes "k \<noteq> EndOfFile" and "within any (n - 1) (f True) c" and "within (\<lambda>h. K h \<and> h \<noteq> k) n (f False) c"
  shows "within K n (State_Monad.bind (expect k ctx) f) c"
proof -
  have "within (\<lambda>h. (K h \<and> h \<noteq> k) \<and> h = tk_kind t) n (f False) c" for t
    using assms(3) by (rule within_weaken) auto
  then have "within (\<lambda>h. K h \<and> h \<noteq> k) n (State_Monad.bind (tok_peek 0) (\<lambda>t. State_Monad.bind (error_here (g t)) (\<lambda>_. f False))) c" for g
    by (intro within_peek within_error_here)
  with assms(1,2) show ?thesis
    unfolding expect_def bind_assoc by (intro within_match) (simp_all only: bind_assoc bind_left_identity if_True if_False simp_thms)
qed

lemma within_tokens_left [parse_step]:
  "(\<And>j. j \<le> n \<Longrightarrow> within K j (f j) c) \<Longrightarrow> within K n (State_Monad.bind tokens_left f) c"
  by (auto simp: within_def tokens_left_def)

section \<open>Loops\<close>

abbreviation shrinks :: "nat \<Rightarrow> 'a \<times> bool \<Rightarrow> nat" where
  "shrinks k \<equiv> \<lambda>(y, go). if go then k - 1 else k"

lemma repeat_follows:
  assumes "\<And>x k. k \<le> n \<Longrightarrow> within any k (body x) (shrinks k)"
  shows "pok s \<Longrightarrow> length (ps_rest s) \<le> n \<Longrightarrow> length (ps_rest s) < m \<Longrightarrow> follows s (snd (run_state (repeat m body x) s))"
proof (induction m arbitrary: x s)
  case (Suc m)
  obtain y go s1 where b: "run_state (body x) s = ((y, go), s1)"
    by (metis prod.exhaust)
  have "within any (length (ps_rest s)) (body x) (shrinks (length (ps_rest s)))"
    using Suc.prems(2) by (rule assms)
  from withinD [OF this Suc.prems(1)] b
  have f: "follows s s1" and l: "length (ps_rest s1) \<le> (if go then length (ps_rest s) - 1 else length (ps_rest s))"
    by simp_all
  show ?case
  proof (cases go)
    case True
    have "ps_rest s \<noteq> []" using Suc.prems(1) by (simp add: pok_def)
    with l True Suc.prems have "length (ps_rest s1) < m" "length (ps_rest s1) \<le> n"
      by (cases "ps_rest s"; simp)+
    with Suc.IH [of s1 y] f show ?thesis
      by (auto simp: b True dest: follows_pok intro: follows_trans)
  qed (simp add: b f)
qed simp

definition fine :: "'a parser \<Rightarrow> bool" where
  "fine p \<longleftrightarrow> (\<forall>n. within any n p (\<lambda>_. n))"

lemma fineI: "(\<And>n. within any n p (\<lambda>_. n)) \<Longrightarrow> fine p"
  by (simp add: fine_def)

lemma within_fine: "fine p \<Longrightarrow> (\<And>x. n \<le> b x) \<Longrightarrow> within K n p b"
  unfolding fine_def by (rule within_weaken [where n = n and K = any]) auto

lemma within_fine_bind: "fine p \<Longrightarrow> (\<And>x. within any n (f x) c) \<Longrightarrow> within K n (State_Monad.bind p f) c"
  by (rule within_bind_weak) (simp_all add: within_fine)

lemma within_loop:
  assumes "\<And>x k. k \<le> n \<Longrightarrow> within any k (body x) (shrinks k)" and "\<And>y. n \<le> b y"
  shows "within K n (loop body x) b"
proof (rule withinI)
  fix s assume s: "pok s" "length (ps_rest s) \<le> n"
  have "follows s (snd (run_state (loop body x) s))"
    using repeat_follows [of n body s "Suc (length (ps_rest s))" x, OF assms(1) s]
    by (simp add: loop_def tokens_left_def)
  with s(2) assms(2) follows_length [OF this]
  show "follows s (snd (run_state (loop body x) s)) \<and>
      length (ps_rest (snd (run_state (loop body x) s))) \<le> b (fst (run_state (loop body x) s))"
    by (meson order_trans)
qed

lemma within_until:
  assumes "\<And>x k. k \<le> n \<Longrightarrow> within (\<lambda>h. h \<noteq> EndOfFile \<and> h \<notin> set ks) k (body x) (shrinks k)" and "\<And>y. n \<le> b y"
  shows "within K n (until ks body x) b"
  unfolding until_def
proof (rule within_loop)
  fix x k assume "k \<le> n"
  from assms(1) [OF this]
  show "within any k (State_Monad.bind (check_in (EndOfFile # ks)) (\<lambda>stop. if stop then ret (x, False) else body x)) (shrinks k)"
    by (intro parse_step) (auto elim!: within_weaken)
qed (rule assms(2))

lemma skip_newlines_fine: "fine skip_newlines"
  unfolding skip_newlines_def
  by (rule fineI, rule within_loop; (rule parse_step | simp)+)

lemma run_match:
  "run_state (tok_match k) s = (if head s = k then (True, snd (advance_state s)) else (False, s))"
  by (simp add: tok_match_def check_def head_def tok_advance_def split: prod.split)

lemma skip_newlines_head: "pok s \<Longrightarrow> head (snd (run_state skip_newlines s)) \<noteq> Newline"
proof -
  let ?body = "\<lambda>x. do { m \<leftarrow> tok_match Newline; ret ((), m) }"
  have "head (snd (run_state (repeat m ?body ()) s)) \<noteq> Newline" if "pok s" "length (ps_rest s) < m" for m
    using that
  proof (induction m arbitrary: s)
    case (Suc m)
    show ?case
    proof (cases "head s = Newline")
      case True
      with Suc.prems have "pok (snd (advance_state s))" "length (ps_rest (snd (advance_state s))) < m"
        using advance_follows [of s] advance_length [of s] head_not_end [of s] by (auto dest: follows_pok)
      from Suc.IH [OF this] True show ?thesis
        by (simp add: run_match)
    qed (simp add: run_match)
  qed simp
  then show "pok s \<Longrightarrow> ?thesis"
    by (simp add: skip_newlines_def loop_def tokens_left_def del: repeat.simps)
qed

lemma within_skip [parse_step]:
  assumes "within (\<lambda>h. h \<noteq> Newline) n (f ()) c"
  shows "within K n (State_Monad.bind skip_newlines f) c"
proof (rule withinI)
  fix s assume s: "pok s" "K (head s)" "length (ps_rest s) \<le> n"
  define s1 where "s1 = snd (run_state skip_newlines s)"
  have run: "run_state (State_Monad.bind skip_newlines f) s = run_state (f ()) s1"
    by (simp add: s1_def split: prod.split)
  have "within K n skip_newlines (\<lambda>_. n)"
    by (rule within_fine [OF skip_newlines_fine order.refl])
  with s have f: "follows s s1"
    by (simp add: within_def s1_def)
  have l: "length (ps_rest s1) \<le> n"
    using follows_length [OF f] s(3) by simp
  from withinD [OF assms follows_pok [OF f] _ l] skip_newlines_head [OF s(1)] f
  show "follows s (snd (run_state (State_Monad.bind skip_newlines f) s)) \<and>
      length (ps_rest (snd (run_state (State_Monad.bind skip_newlines f) s)))
        \<le> c (fst (run_state (State_Monad.bind skip_newlines f) s))"
    unfolding run by (auto simp: s1_def intro: follows_trans)
qed

lemmas [parse_step] = within_fine [OF skip_newlines_fine]

lemma synchronize_fine: "fine synchronize"
  unfolding synchronize_def
  by (rule fineI, rule within_bind_weak, rule within_loop; (rule parse_step | (simp; fail) | (simp add: after_simps; fail) | (force simp: after_simps split: if_splits))+)

lemmas [parse_step] = within_fine [OF synchronize_fine] within_fine_bind [OF synchronize_fine]

lemma skip_line_strict: "within K n skip_line (\<lambda>_. n)"
  unfolding skip_line_def
  by (rule within_until; (rule parse_step | (simp; fail) | (simp add: after_simps; fail) | (force simp: after_simps split: if_splits))+)

lemmas [parse_step] = skip_line_strict within_bind_weak [OF skip_line_strict]

lemma within_True [parse_step]: "within K n p b \<Longrightarrow> within K n (if True then p else q) b"
  by simp

lemma within_False [parse_step]: "within K n q b \<Longrightarrow> within K n (if False then p else q) b"
  by simp

lemma within_need [parse_step]:
  assumes "k \<noteq> EndOfFile" and "within any (n - 1) p c" and "n \<le> c d"
  shows "within K n (need k ctx d p) c"
  unfolding need_def by (rule within_expect | rule assms | rule parse_step)+

section \<open>Types and expressions\<close>

lemma type_n_within: "k \<le> n \<Longrightarrow> within K k (type_n n) (\<lambda>_. k)"
proof (induction n arbitrary: k K)
  case 0
  then show ?case
    by (auto intro!: withinI simp: pok_def)
next
  case (Suc n)
  have args: "within any m (loop (\<lambda>as. do { a \<leftarrow> type_n n; c \<leftarrow> tok_match Comma; ret (as @ [a], c) }) []) (\<lambda>_. m)"
    if "m \<le> n" for m
    using that by - ((rule within_loop | (rule within_bind_weak, rule Suc.IH) | rule parse_step | simp)+)
  show ?case
    using Suc.prems
    by (simp only: type_n.simps)
      ((rule parse_step | (rule within_bind_weak, rule args) | rule within_bind_weak | (simp; fail) | (simp add: after_simps; fail) | (force simp: after_simps split: if_splits))+)
qed

lemma type_n_bound: "k \<le> n \<Longrightarrow> (\<And>x. k \<le> b x) \<Longrightarrow> within K k (type_n n) b"
  by (rule within_weaken [OF type_n_within order.refl]) auto

lemma parse_type_fine: "fine parse_type"
  unfolding parse_type_def
  by (rule fineI) (rule parse_step type_n_bound | simp)+

lemmas [parse_step] = within_fine [OF parse_type_fine] within_fine_bind [OF parse_type_fine]

text \<open>A parser of expressions: it takes a token unless none is left.\<close>

definition reads :: "nat \<Rightarrow> 'a parser \<Rightarrow> bool" where
  "reads m p \<longleftrightarrow> (\<forall>K j. j \<le> m \<longrightarrow> within K j p (\<lambda>_. after K j))"

lemma readsI: "(\<And>K j. j \<le> m \<Longrightarrow> within K j p (\<lambda>_. after K j)) \<Longrightarrow> reads m p"
  by (simp add: reads_def)

lemma reads_mono: "reads m p \<Longrightarrow> k \<le> m \<Longrightarrow> reads k p"
  by (auto simp: reads_def)

lemma within_reads: "reads m p \<Longrightarrow> n \<le> m \<Longrightarrow> (\<And>x. after K n \<le> b x) \<Longrightarrow> within K n p b"
  by (rule within_weaken [where n = n and K = K]) (auto simp: reads_def)

lemma within_reads_bind:
  "reads m p \<Longrightarrow> n \<le> m \<Longrightarrow> (\<And>x. within any (after K n) (f x) c) \<Longrightarrow> within K n (State_Monad.bind p f) c"
  by (rule within_bind [where b = "\<lambda>_. after K n"]) (auto intro: within_reads)

lemma after_any [simp]: "after any n = n"
  by (simp add: after_def)

lemma comma_list_within:
  assumes "\<And>xs k. k \<le> n \<Longrightarrow> within (\<lambda>h. h \<noteq> EndOfFile \<and> h \<notin> set [cl]) k (item xs) (\<lambda>_. k)"
  shows "within K n (comma_list cl item) (\<lambda>_. n)"
  unfolding comma_list_def
  by (rule within_until | (rule within_bind_weak, rule assms) | rule parse_step | simp)+

lemma parse_entry_within:
  assumes pe: "reads m pe" and "k \<le> m"
  shows "within K k (parse_entry pe) (\<lambda>_. k)"
  using assms(2) unfolding parse_entry_def
  by - ((rule within_reads_bind [OF pe] parse_step | (simp; fail) | (simp add: after_simps; fail) | (force simp: after_simps split: if_splits))+)

lemma parse_primary_reads:
  assumes pe: "reads m pe" and pu: "reads m pu"
  shows "reads (Suc m) (parse_primary rd pe pu)"
proof (rule readsI)
  fix K j assume j: "j \<le> Suc m"
  have less: "after (\<lambda>h. K h \<and> h = tk_kind t) j \<le> m" if "tk_kind t \<noteq> EndOfFile" for t
    using that j by (auto simp: after_def)
  have list: "within any k (comma_list RBracket (\<lambda>_. pe)) (\<lambda>_. k)" if "k \<le> m" for k
    using that by - (rule comma_list_within, rule within_reads [OF pe], simp_all)
  have dict: "within any k (comma_list RBrace (\<lambda>_. parse_entry pe)) (\<lambda>_. k)" if "k \<le> m" for k
    using that by - (rule comma_list_within, rule parse_entry_within [OF pe], simp)
  show "within K j (parse_primary rd pe pu) (\<lambda>_. after K j)"
    unfolding parse_primary_def Let_def
    using j
    by - ((rule within_reads_bind [OF pe] | rule within_reads_bind [OF pu] | (rule within_bind_weak, rule list)
        | (rule within_bind_weak, rule dict) | rule parse_step | rule less | (simp; fail) | (simp add: after_simps; fail) | (force simp: after_simps split: if_splits))+)
qed

lemma parse_arg_within:
  assumes pe: "reads m pe" and "k \<le> m"
  shows "within K k (parse_arg pe as named) (\<lambda>_. k)"
proof -
  have error: "within L n (if named then error_here msg else ret ()) (\<lambda>_. n)" for L n msg
    by (rule parse_step | simp)+
  show ?thesis
    using assms(2) unfolding parse_arg_def
    by - ((rule within_reads_bind [OF pe] parse_step within_bind_weak [OF error] | (simp; fail) | (simp add: after_simps; fail) | (force simp: after_simps split: if_splits))+)
qed

lemma parse_args_within:
  assumes pe: "reads m pe" and "n \<le> m"
  shows "within K n (parse_args pe) (\<lambda>_. n)"
proof -
  let ?body = "\<lambda>(args, named). do {
       (a, named') \<leftarrow> parse_arg pe args named;
       c \<leftarrow> tok_match Comma;
       ret ((args @ [a], named'), c) }"
  have "within any n (until [RParen] ?body ([], False)) (\<lambda>_. n)"
    using assms(2)
    by - ((rule within_until within_bind_weak [OF parse_arg_within [OF pe]] parse_step | simp)+)
  then show ?thesis
    unfolding parse_args_def
    by - ((rule within_bind_weak, erule within_weaken), (rule parse_step | simp)+)
qed

lemma postfix_step_within:
  assumes pe: "reads m pe" and k: "k \<le> Suc m"
  shows "within any k (postfix_step pe e) (shrinks k)"
proof -
  have less: "after (\<lambda>h. h = tk_kind t) k \<le> m" if "tk_kind t \<noteq> EndOfFile" for t
    using that k by (auto simp: after_def)
  have name: "within K n (if c then do { tok_advance; ret x } else do { error_here msg; ret y }) (\<lambda>_. n)" for K n c x y msg
    by (rule parse_step | simp)+
  show ?thesis
    using k unfolding postfix_step_def Let_def
    by - ((rule within_reads_bind [OF pe] within_bind_weak [OF parse_args_within [OF pe]] within_bind_weak [OF name]
        parse_step less | (simp; fail) | (simp add: after_simps; fail) | (force simp: after_simps split: if_splits))+)
qed

lemma parse_postfix_reads:
  assumes pe: "reads m pe" and pu: "reads m pu"
  shows "reads (Suc m) (parse_postfix rd pe pu)"
proof (rule readsI)
  fix K j assume j: "j \<le> Suc m"
  have step: "within any k (postfix_step pe e) (shrinks k)" if "k \<le> after K j" for k e
    using that j after_le [of K j] by (intro postfix_step_within [OF pe]) linarith
  show "within K j (parse_postfix rd pe pu) (\<lambda>_. after K j)"
    unfolding parse_postfix_def
    by (rule within_reads_bind [OF parse_primary_reads [OF pe pu] j], rule within_loop [OF step]) simp_all
qed

lemma unary_n_reads:
  assumes pe: "reads m pe"
  shows "reads (min n (Suc m)) (unary_n n rd pe)"
proof (induction n)
  case 0
  then show ?case
    by (auto intro!: readsI withinI simp: pok_def)
next
  case (Suc n)
  define u where "u = unary_n n rd pe"
  have u: "reads (min n m) u"
    using Suc.IH unfolding u_def by (rule reads_mono) simp
  have post: "reads (Suc (min n m)) (parse_postfix rd pe u)"
    using reads_mono [OF pe, of "min n m"] u by (intro parse_postfix_reads) simp_all
  show ?case
  proof (rule readsI)
    fix K j assume "j \<le> min (Suc n) (Suc m)"
    then have j: "j \<le> Suc (min n m)"
      by simp
    have less: "after (\<lambda>h. K h \<and> h = tk_kind t) j \<le> min n m" if "tk_kind t \<noteq> EndOfFile" for t
      using that j by (auto simp: after_def)
    have tail: "within (\<lambda>h. K h \<and> h = tk_kind t) j (parse_postfix rd pe u) (\<lambda>_. after K j)" for t
      by (rule within_reads [OF post j]) (auto simp: after_def)
    show "within K j (unary_n (Suc n) rd pe) (\<lambda>_. after K j)"
      unfolding unary_n.simps Let_def u_def [symmetric]
      using j
      by - ((rule tail within_reads_bind [OF u] parse_step less | (simp; fail) | (simp add: after_simps; fail) | (force simp: after_simps split: if_splits))+)
  qed
qed

lemma parse_unary_reads:
  assumes "reads m pe"
  shows "reads (Suc m) (parse_unary rd pe)"
proof (rule readsI)
  fix K j assume j: "j \<le> Suc m"
  show "within K j (parse_unary rd pe) (\<lambda>_. after K j)"
    unfolding parse_unary_def
  proof (rule within_tokens_left)
    fix i assume "i \<le> j"
    with j show "within K i (unary_n (Suc i) rd pe) (\<lambda>_. after K j)"
      by (intro within_reads [OF unary_n_reads [OF assms]]) (auto simp: after_def)
  qed
qed

lemma binary_left_reads:
  assumes sub: "reads m sub" and ops: "EndOfFile \<notin> set ops"
  shows "reads m (binary_left ops sub)"
proof (rule readsI)
  fix K j assume j: "j \<le> m"
  have step: "within any k (do {
       t \<leftarrow> tok_peek 0;
       if tk_kind t \<in> set ops then do {
         tok_advance; r \<leftarrow> sub; ret (binary (tk_loc t) (tok_name (tk_kind t)) l r, True) }
       else ret (l, False) }) (shrinks k)" if "k \<le> after K j" for k l
    using that j after_le [of K j] ops
    by - ((rule within_reads_bind [OF sub] parse_step | (simp; fail) | (auto simp: after_simps split: if_splits; fail) | (force simp: after_simps split: if_splits))+)
  show "within K j (binary_left ops sub) (\<lambda>_. after K j)"
    unfolding binary_left_def
    by (rule within_reads_bind [OF sub j], rule within_loop [OF step]) simp_all
qed

lemma not_n_reads:
  assumes eq: "reads m (parse_equality rd pe)"
  shows "reads (min n m) (not_n n rd pe)"
proof (induction n)
  case 0
  then show ?case
    by (auto intro!: readsI withinI simp: pok_def)
next
  case (Suc n)
  show ?case
  proof (rule readsI)
    fix K j assume j: "j \<le> min (Suc n) m"
    have less: "after (\<lambda>h. K h \<and> h = tk_kind t) j \<le> min n m" if "tk_kind t = KwNot" for t
      using that j by (auto simp: after_def)
    have tail: "within (\<lambda>h. K h \<and> h = tk_kind t) j (parse_equality rd pe) (\<lambda>_. after K j)" for t
      using j by (intro within_reads [OF eq]) (auto simp: after_def)
    show "within K j (not_n (Suc n) rd pe) (\<lambda>_. after K j)"
      unfolding not_n.simps
      by ((rule tail within_reads_bind [OF Suc.IH] parse_step less | (simp; fail) | (simp add: after_simps; fail) | (force simp: after_simps split: if_splits))+)
  qed
qed

lemma parse_not_reads:
  assumes "reads m (parse_equality rd pe)"
  shows "reads m (parse_not rd pe)"
proof (rule readsI)
  fix K j assume j: "j \<le> m"
  show "within K j (parse_not rd pe) (\<lambda>_. after K j)"
    unfolding parse_not_def
  proof (rule within_tokens_left)
    fix i assume "i \<le> j"
    with j show "within K i (not_n (Suc i) rd pe) (\<lambda>_. after K j)"
      by (intro within_reads [OF not_n_reads [OF assms]]) (auto simp: after_def)
  qed
qed

lemma parse_or_reads: "reads m pe \<Longrightarrow> reads (Suc m) (parse_or rd pe)"
  unfolding parse_or_def parse_and_def
  by (intro binary_left_reads parse_not_reads;
      (unfold parse_equality_def parse_comparison_def parse_sum_def parse_product_def)?;
      (intro binary_left_reads parse_unary_reads)?; simp)

lemma parse_ternary_reads:
  assumes pe: "reads m pe"
  shows "reads (Suc m) (parse_ternary rd pe)"
proof (rule readsI)
  fix K j assume j: "j \<le> Suc m"
  show "within K j (parse_ternary rd pe) (\<lambda>_. after K j)"
    using j unfolding parse_ternary_def
    by - ((rule within_reads_bind [OF parse_or_reads [OF pe]] within_reads_bind [OF pe] parse_step j | (simp; fail)
        | (simp add: after_simps; fail) | (force simp: after_simps split: if_splits))+)
qed

lemma expr_n_reads: "reads n (expr_n n rd)"
proof (induction n)
  case 0
  then show ?case
    by (auto intro!: readsI withinI simp: pok_def)
qed (simp add: parse_ternary_reads)

lemma parse_expr_reads: "reads n (parse_expr rd)"
proof (rule readsI)
  fix K j
  show "within K j (parse_expr rd) (\<lambda>_. after K j)"
    unfolding parse_expr_def
    by (rule within_tokens_left, rule within_reads [OF expr_n_reads]) (auto simp: after_def)
qed

lemmas [parse_step] = within_reads [OF parse_expr_reads order.refl] within_reads_bind [OF parse_expr_reads order.refl]

lemma optional_name [parse_step]:
  assumes "\<And>x. within any n (f x) c"
  shows "within K n (State_Monad.bind (if b then do { t \<leftarrow> tok_advance; ret (g t) } else do { error_here msg; ret y }) f) c"
proof (rule within_bind_weak)
  show "within K n (if b then do { t \<leftarrow> tok_advance; ret (g t) } else do { error_here msg; ret y }) (\<lambda>_. n)"
    by (rule parse_step | simp)+
qed (rule assms)

lemma optional_expr [parse_step]:
  assumes "\<And>x. within any n (f x) c"
  shows "within K n (State_Monad.bind (if b then do { e \<leftarrow> parse_expr rd; ret (Some e) } else ret None) f) c"
    and "within K n (State_Monad.bind (if b then ret None else do { e \<leftarrow> parse_expr rd; ret (Some e) }) f) c"
proof -
  have "within K n (if b then do { e \<leftarrow> parse_expr rd; ret (Some e) } else ret None) (\<lambda>_. n)"
    "within K n (if b then ret None else do { e \<leftarrow> parse_expr rd; ret (Some e) }) (\<lambda>_. n)"
    by (rule parse_step | simp)+
  from this [THEN within_bind_weak, OF assms]
  show "within K n (State_Monad.bind (if b then do { e \<leftarrow> parse_expr rd; ret (Some e) } else ret None) f) c"
    "within K n (State_Monad.bind (if b then ret None else do { e \<leftarrow> parse_expr rd; ret (Some e) }) f) c"
    by this
qed

lemma parse_param_fine: "fine (parse_param rd)"
  unfolding parse_param_def by (rule fineI) (rule parse_step | simp)+

lemma parse_params_fine: "fine (parse_params rd)"
  unfolding parse_params_def
  by (rule fineI, rule comma_list_within, rule within_fine [OF parse_param_fine]) simp

lemmas [parse_step] = within_fine [OF parse_param_fine] within_fine_bind [OF parse_param_fine]
  within_fine [OF parse_params_fine] within_fine_bind [OF parse_params_fine]

section \<open>Statements\<close>

definition blocks :: "nat \<Rightarrow> block parser \<Rightarrow> bool" where
  "blocks m pb \<longleftrightarrow> (\<forall>j \<le> m. within any j pb (\<lambda>_. j))"

lemma within_block: "blocks m pb \<Longrightarrow> n \<le> m \<Longrightarrow> (\<And>x. n \<le> b x) \<Longrightarrow> within K n pb b"
  by (rule within_weaken [where n = n and K = any]) (auto simp: blocks_def)

lemma within_block_bind:
  "blocks m pb \<Longrightarrow> n \<le> m \<Longrightarrow> (\<And>x. within any n (f x) c) \<Longrightarrow> within K n (State_Monad.bind pb f) c"
  by (rule within_bind_weak) (auto intro: within_block)

lemma if_n_within:
  assumes pb: "blocks m pb"
  shows "k \<le> n \<Longrightarrow> k \<le> m \<Longrightarrow> \<not> K EndOfFile \<Longrightarrow> within K k (if_n n rd pb ctx) (\<lambda>_. k)"
proof (induction n arbitrary: k K ctx)
  case 0
  then show ?case
    by (auto intro!: withinI simp: pok_def)
next
  case (Suc n)
  have orelse: "within (\<lambda>h. L h \<and> h = tk_kind t) j
     (if tk_kind t = KwElif then do { s \<leftarrow> if_n n rd pb ''tras la condicion del elif''; ret [s] }
        else if tk_kind t = KwElse then do {
          tok_advance;
          ei \<leftarrow> check KwIf;
          if ei then do { s \<leftarrow> if_n n rd pb ''tras la condicion del if''; ret [s] }
          else do { expect Colon (''tras '' @ quoted ''else''); pb } }
        else ret []) (\<lambda>_. j)" if "j \<le> n" "j \<le> m" for j t L
    using that
    by - ((rule within_bind_weak [OF Suc.IH] within_block [OF pb] parse_step | (simp; fail)
      | (simp add: after_simps; fail) | (force simp: after_simps split: if_splits))+)
  have "after K k \<le> n" "after K k \<le> m" "after K k \<le> k"
    using Suc.prems by (auto simp: after_def)
  then show ?case
    unfolding if_n.simps
    by - ((rule within_bind_weak [OF orelse] within_block_bind [OF pb] parse_step | (simp; fail)
      | (simp add: after_simps; fail))+)
qed

lemma if_n_bound:
  "blocks m pb \<Longrightarrow> k \<le> n \<Longrightarrow> k \<le> m \<Longrightarrow> \<not> K EndOfFile \<Longrightarrow> (\<And>x. k \<le> b x) \<Longrightarrow> within K k (if_n n rd pb ctx) b"
  by (rule within_weaken [where n = k and K = K, OF if_n_within [where m = m]]) auto

lemma parse_if_within:
  assumes "blocks m pb" "k \<le> m" "\<not> K EndOfFile"
  shows "within K k (parse_if rd pb) (\<lambda>_. k)"
  unfolding parse_if_def
  by (rule within_tokens_left, rule if_n_bound [OF assms(1)]) (use assms in auto)

lemma statements_within:
  assumes pb: "blocks m pb" and k: "k \<le> m"
  shows "within K k (parse_return rd) (\<lambda>_. k)" "within K k (parse_while rd pb) (\<lambda>_. k)"
    "within K k (parse_for rd pb) (\<lambda>_. k)" "within K k (parse_require rd) (\<lambda>_. k)"
    "within K k (parse_try pb) (\<lambda>_. k)" "within K k (parse_var_decl rd) (\<lambda>_. k)"
    "within K k (parse_expr_stmt rd) (\<lambda>_. k)"
  unfolding parse_return_def parse_while_def parse_for_def parse_require_def parse_try_def parse_var_decl_def
    parse_expr_stmt_def
  using k after_le [of K k]
  by - ((rule within_block_bind [OF pb] within_block [OF pb] parse_step within_bind_weak | (simp; fail)
      | (simp add: after_simps; fail))+)

lemma parse_statement_within:
  assumes pb: "blocks m pb" and k: "k \<le> m" and K: "\<not> K EndOfFile"
  shows "within K k (parse_statement rd pb) (\<lambda>_. k)"
proof -
  note stmts = parse_if_within [OF pb k] statements_within [OF pb k]
  show ?thesis
    unfolding parse_statement_def Let_def
    by ((rule statements_within [OF pb k] stmts [THEN within_bind_weak] parse_step | (simp add: K; fail))+)
qed

section \<open>Blocks\<close>

lemma within_bare_lines:
  assumes "\<And>x k. k \<le> n \<Longrightarrow> within (\<lambda>h. h \<noteq> EndOfFile \<and> h \<noteq> Newline \<and> h \<noteq> Dedent) k (item x) (shrinks k)" and "\<And>x. n \<le> b x"
  shows "within K n (bare_lines item x) b"
proof -
  have item: "within (\<lambda>h. h \<noteq> Newline \<and> h \<notin> set [Dedent, EndOfFile]) k (item x) (shrinks k)" if "k \<le> n" for x k
    using assms(1) [OF that] by (rule within_weaken) auto
  show ?thesis
    unfolding bare_lines_def
    by (rule within_until parse_step item assms(2) | simp)+
qed

lemma suffix_same_length: "suffix xs ys \<Longrightarrow> length xs = length ys \<Longrightarrow> xs = ys"
  by (auto simp: suffix_def)

lemma guarded_line:
  assumes item: "within (\<lambda>h. h \<noteq> EndOfFile \<and> h \<noteq> Newline \<and> h \<noteq> Dedent) k (item x) (\<lambda>_. k)"
  shows "within (\<lambda>h. h \<noteq> EndOfFile \<and> h \<noteq> Newline \<and> h \<noteq> Dedent) k (do {
     left0 \<leftarrow> tokens_left;
     (y, go) \<leftarrow> item x;
     if \<not> go then ret (y, False) else do {
       skip_newlines; ensure_progress left0; ret (y, True) } }) (shrinks k)"
proof (rule withinI)
  fix s assume s: "pok s" "head s \<noteq> EndOfFile \<and> head s \<noteq> Newline \<and> head s \<noteq> Dedent" "length (ps_rest s) \<le> k"
  obtain y go s1 where i: "run_state (item x) s = ((y, go), s1)"
    by (metis prod.exhaust)
  obtain s2 where n: "run_state skip_newlines s1 = ((), s2)"
    by (cases "run_state skip_newlines s1") auto
  from withinD [OF item s] i have s1: "follows s s1" by simp
  have s2: "follows s s2"
    using within_fine [OF skip_newlines_fine order.refl, THEN withinD(1), of s1 any] n s1
    by (auto dest: follows_pok intro: follows_trans)
  show "follows s (snd (run_state (do {
     left0 \<leftarrow> tokens_left;
     (y, go) \<leftarrow> item x;
     if \<not> go then ret (y, False) else do {
       skip_newlines; ensure_progress left0; ret (y, True) } }) s)) \<and>
     length (ps_rest (snd (run_state (do {
     left0 \<leftarrow> tokens_left;
     (y, go) \<leftarrow> item x;
     if \<not> go then ret (y, False) else do {
       skip_newlines; ensure_progress left0; ret (y, True) } }) s))) \<le>
     shrinks k (fst (run_state (do {
     left0 \<leftarrow> tokens_left;
     (y, go) \<leftarrow> item x;
     if \<not> go then ret (y, False) else do {
       skip_newlines; ensure_progress left0; ret (y, True) } }) s))"
  proof (cases "go \<and> length (ps_rest s2) = length (ps_rest s)")
    case True
    have same: "ps_rest s2 = ps_rest s"
      using s2 True by (auto simp: follows_def intro: suffix_same_length)
    then have "head s2 = head s" by (simp add: head_def peek_at_def)
    then have "head s2 \<noteq> EndOfFile" using s(2) by simp
    with advance_length [OF follows_pok [OF s2]] advance_follows [OF follows_pok [OF s2]] s2 s(3) same True
    show ?thesis
      by (auto simp: i n tokens_left_def ensure_progress_def tok_advance_def split: prod.splits intro: follows_trans)
  next
    case False
    with s1 s2 s(3) follows_length [OF s1] follows_length [OF s2] show ?thesis
      by (auto simp: i n tokens_left_def ensure_progress_def)
  qed
qed

lemma within_guarded_lines:
  assumes "\<And>x k. k \<le> n \<Longrightarrow> within (\<lambda>h. h \<noteq> EndOfFile \<and> h \<noteq> Newline \<and> h \<noteq> Dedent) k (item x) (\<lambda>_. k)" and "\<And>x. n \<le> b x"
  shows "within K n (block_lines True item x) b"
  unfolding block_lines_def if_True
  by (rule within_bare_lines [OF guarded_line assms(2)], rule assms(1))

lemma within_block_lines:
  assumes "\<And>x k. k \<le> n \<Longrightarrow> within (\<lambda>h. h \<noteq> EndOfFile \<and> h \<noteq> Newline \<and> h \<noteq> Dedent) k (item x) (shrinks k)" and "\<And>x. n \<le> b x"
  shows "within K n (block_lines False item x) b"
  unfolding block_lines_def if_False
proof (rule within_bare_lines [OF _ assms(2)])
  fix x k assume "k \<le> n"
  then have item: "within (\<lambda>h. h \<noteq> EndOfFile \<and> h \<noteq> Newline \<and> h \<noteq> Dedent) j (item x) (shrinks k)" if "j \<le> k" for j
    using that by (intro within_weaken [OF assms(1) order.refl]) auto
  show "within (\<lambda>h. h \<noteq> EndOfFile \<and> h \<noteq> Newline \<and> h \<noteq> Dedent) k (do {
     left0 \<leftarrow> tokens_left;
     (y, go) \<leftarrow> item x;
     if \<not> go then ret (y, False) else do { skip_newlines; ret (); ret (y, True) } }) (shrinks k)"
    by (rule parse_step, rule within_bind_pair [OF item], assumption) (rule parse_step | simp)+
qed

lemma block_n_within: "k \<le> n \<Longrightarrow> within any k (block_n n rd) (\<lambda>_. k)"
proof (induction n arbitrary: k)
  case 0
  then show ?case
    by (auto intro!: withinI simp: pok_def)
next
  case (Suc n)
  have pb: "blocks n (block_n n rd)"
    using Suc.IH by (simp add: blocks_def)
  have line: "within (\<lambda>h. h \<noteq> EndOfFile \<and> h \<noteq> Newline \<and> h \<noteq> Dedent) j (do {
       s \<leftarrow> parse_statement rd (block_n n rd);
       ret (case s of None \<Rightarrow> body | Some x \<Rightarrow> body @ [x], True) }) (\<lambda>_. j)" if "j \<le> n" for j body
    by (rule within_bind_weak, rule parse_statement_within [OF pb that]) (rule parse_step | simp)+
  have lines: "within L j (block_lines True (\<lambda>body. do {
         s \<leftarrow> parse_statement rd (block_n n rd);
         ret (case s of None \<Rightarrow> body | Some x \<Rightarrow> body @ [x], True) }) []) (\<lambda>_. j)" if "j \<le> n" for j L
    using that by (intro within_guarded_lines line) auto
  show ?case
    using Suc.prems unfolding block_n.simps
    by - ((rule parse_step within_bind_weak [OF lines] | simp)+)
qed

lemma parse_block_fine: "fine (parse_block rd)"
  unfolding parse_block_def
  by (rule fineI, rule within_tokens_left, rule within_weaken [OF block_n_within order.refl]) auto

lemmas [parse_step] = within_fine [OF parse_block_fine] within_fine_bind [OF parse_block_fine]

section \<open>Declarations\<close>

lemma tail_error_at [parse_step]: "n \<le> c () \<Longrightarrow> within K n (error_at l msg) c"
  by (rule within_tail) (rule parse_step)+

lemma tail_advance [parse_step]: "(\<And>x. after K n \<le> b x) \<Longrightarrow> within K n tok_advance b"
  by (rule within_weaken [where K = K, OF within_advance1 order.refl]) auto

lemma parse_origins_fine: "fine parse_origins"
proof -
  have loop: "within K n (until [RParen] (\<lambda>os. do {
       str \<leftarrow> check Tok_String;
       t \<leftarrow> (if str then tok_advance else do { error_here msg; tok_advance });
       c \<leftarrow> tok_match Comma;
       ret (if str then os @ [tk_text t] else os, c) }) []) (\<lambda>_. n)" for K n msg
    by (rule within_until parse_step within_bind_weak | (simp add: after_simps; fail))+
  show ?thesis
    unfolding parse_origins_def
    by (rule fineI) (rule parse_step within_bind_weak [OF loop] | (simp add: after_simps; fail))+
qed

lemmas [parse_step] = within_fine [OF parse_origins_fine] within_fine_bind [OF parse_origins_fine]

lemma optional_parser [parse_step]:
  assumes "fine p" and "\<And>x. within any n (f x) c"
  shows "within K n (State_Monad.bind (if b then p else ret y) f) c"
  by (rule within_bind_weak) (use assms in \<open>auto intro: within_fine within_ret\<close>)

lemma route_params_within: "within K n (loop (\<lambda>ps. do {
           c \<leftarrow> tok_match Comma;
           if \<not> c then ret (ps, False) else do {
             fin \<leftarrow> check RParen;
             if fin then ret (ps, False) else do { p \<leftarrow> parse_param rd; ret (ps @ [p], True) } } }) []) (\<lambda>_. n)"
  by (rule within_loop parse_step | (simp add: after_simps; fail))+

lemma parse_route_fine: "fine (parse_route rd m pre guards out)"
  unfolding parse_route_def
  by (rule fineI)
    (rule parse_step within_bind_weak [OF route_params_within] parse_origins_fine | (simp add: after_simps; fail))+

lemma parse_fn_fine: "fine (parse_fn rd out)"
  unfolding parse_fn_def Let_def by (rule fineI) (rule parse_step | (simp add: after_simps; fail))+

lemma parse_error_body_fine: "fine (parse_error_body rd loc code out)"
  unfolding parse_error_body_def Let_def by (rule fineI) (rule parse_step | (simp add: after_simps; fail))+

lemmas [parse_step] = within_fine [OF parse_error_body_fine] within_fine [OF parse_route_fine]
  within_fine_bind [OF parse_route_fine]

lemma parse_error_fine: "fine (parse_error rd out)"
  unfolding parse_error_def Let_def by (rule fineI) (rule parse_step | (simp add: after_simps; fail))+

lemma parse_import_fine: "fine (parse_import out)"
  unfolding parse_import_def by (rule fineI) (rule parse_step | (simp add: after_simps; fail))+

subsection \<open>Classes\<close>

lemma parse_rules_fine: "fine (parse_rules rd c)"
  unfolding parse_rules_def
  by (rule fineI) (rule within_bare_lines parse_step | (simp add: after_simps; fail))+

lemmas [parse_step] = within_fine [OF parse_rules_fine] within_fine_bind [OF parse_rules_fine]

lemma class_items_fine:
  "fine (parse_validate rd c)" "fine (parse_method rd c)" "fine (parse_ctor rd c)" "fine (parse_field c)"
  unfolding parse_validate_def parse_method_def parse_ctor_def parse_field_def Let_def
  by (rule fineI, (rule parse_step parse_block_fine | (simp add: after_simps; fail))+)+

lemma class_line_fine: "fine (do {
             t \<leftarrow> tok_peek 0;
             u \<leftarrow> tok_peek 1;
             if tk_kind t = KwValidate then parse_validate rd c
             else if tk_kind t = KwFn then parse_method rd c
             else if tk_kind t = Ident \<and> tk_text t = cl_name c \<and> tk_kind u = LParen then parse_ctor rd c
             else parse_field c })"
  by (rule fineI) (rule parse_step class_items_fine [THEN within_fine] | (simp add: after_simps; fail))+

lemma parse_class_fine: "fine (parse_class rd out)"
  unfolding parse_class_def
  by (rule fineI)
    (rule parse_step within_bind_weak [OF within_guarded_lines] within_fine [OF class_line_fine] | (simp add: after_simps; fail))+

subsection \<open>The app block\<close>

lemma config_value_fine: "fine (config_value env)"
  unfolding config_value_def by (rule fineI) (rule parse_step | (simp add: after_simps; fail))+

lemma put_fine: "fine (put_session k v a)" "fine (put_jwt k v a)" "fine (put_module m k v a)"
  unfolding put_session_def put_jwt_def put_module_def bad_key_def
  by (cases v; rule fineI; (simp only: config.case)?; (rule parse_step | (simp add: after_simps; fail))+)+

lemmas [parse_step] = within_fine [OF config_value_fine] within_fine_bind [OF config_value_fine]

lemma config_lines_fine:
  assumes put: "\<And>k v a. fine (put k v a)"
  shows "fine (config_lines env put a)"
  unfolding config_lines_def
  by (rule fineI)
    (rule within_bare_lines parse_step within_fine_bind [OF put] | (simp add: after_simps; fail)
      | (force simp: after_simps))+

lemma parse_sub_block_fine: "(\<And>k v a. fine (put k v a)) \<Longrightarrow> fine (parse_sub_block env c1 c2 put enter a)"
  unfolding parse_sub_block_def
  by (rule fineI) (rule parse_step within_fine_bind [OF config_lines_fine] | (simp add: after_simps; fail) | assumption)+

lemma app_keys_fine: "fine (parse_text_key upd a)" "fine (parse_port a)"
  unfolding parse_text_key_def parse_port_def Let_def
  by (rule fineI, (rule parse_step | (simp add: after_simps; fail))+)+

lemma parse_app_key_strict:
  assumes "\<not> K EndOfFile"
  shows "within K n (parse_app_key env imports a) (\<lambda>_. n - 1)"
  unfolding parse_app_key_def Let_def
  using assms
  by - ((rule parse_step app_keys_fine [THEN within_fine] parse_sub_block_fine [OF put_fine(1), THEN within_fine]
      parse_sub_block_fine [OF put_fine(2), THEN within_fine] parse_sub_block_fine [OF put_fine(3), THEN within_fine]
      | (simp add: after_simps; fail))+)

lemma parse_static_strict:
  assumes "\<not> K EndOfFile"
  shows "within K n (parse_static a) (\<lambda>_. n - 1)"
  unfolding parse_static_def
  using assms by - ((rule parse_step | (simp add: after_simps; fail))+)

text \<open>\<open>skip_line\<close> takes a token unless it stands at the end of a line.\<close>

lemma repeat_unfold: "repeat (Suc n) body x = State_Monad.bind (body x) (\<lambda>(y, go). if go then repeat n body y else ret y)"
  by simp

lemma skip_line_takes: "within (\<lambda>h. h \<noteq> EndOfFile \<and> h \<noteq> Newline \<and> h \<noteq> Dedent) n skip_line (\<lambda>_. n - 1)"
proof (rule withinI)
  fix s assume s: "pok s" "head s \<noteq> EndOfFile \<and> head s \<noteq> Newline \<and> head s \<noteq> Dedent" "length (ps_rest s) \<le> n"
  let ?body = "\<lambda>x. do { stop \<leftarrow> check_in [EndOfFile, Newline, Dedent];
      if stop then ret (x, False) else do { tok_advance; ret ((), True) } }"
  define s1 where "s1 = snd (advance_state s)"
  have s1: "follows s s1" "length (ps_rest s1) = length (ps_rest s) - 1"
    using advance_follows [OF s(1)] advance_length [OF s(1)] s(2) by (simp_all add: s1_def)
  have left: "0 < length (ps_rest s)"
    using s(1) by (simp add: pok_def)
  have body: "within any k (?body x) (shrinks k)" for k x
    by (rule parse_step | (simp add: after_simps; fail))+
  have "run_state (?body ()) s = (((), True), s1)"
    using s(2) by (auto simp: check_in_def head_def tok_advance_def s1_def split: prod.split)
  then have run: "run_state skip_line s = run_state (repeat (length (ps_rest s)) ?body ()) s1"
    by (simp add: skip_line_def until_def loop_def tokens_left_def del: repeat.simps(2)) (simp only: repeat_unfold run_state_bind prod.case if_True)
  have "follows s1 (snd (run_state skip_line s))"
    unfolding run using s1(2) left
    by (intro repeat_follows [OF body follows_pok [OF s1(1)]]) auto
  with s1 s(3) follows_length [OF this] show "follows s (snd (run_state skip_line s)) \<and>
      length (ps_rest (snd (run_state skip_line s))) \<le> n - 1"
    by (auto intro: follows_trans)
qed

lemma within_skip_line:
  assumes "\<And>h. K h \<Longrightarrow> h \<noteq> EndOfFile \<and> h \<noteq> Newline \<and> h \<noteq> Dedent" and "within any (n - 1) (f ()) c"
  shows "within K n (State_Monad.bind skip_line f) c"
  using within_weaken [OF skip_line_takes order.refl, of K n "\<lambda>_. n - 1"] assms by (intro within_bind) simp_all

lemma within_shrinks: "within K k p (\<lambda>_. k - 1) \<Longrightarrow> within K k p (shrinks k)"
  by (erule within_weaken) (auto split: prod.split)

lemma app_line_within: "within (\<lambda>h. h \<noteq> EndOfFile \<and> h \<noteq> Newline \<and> h \<noteq> Dedent) k (do {
           t \<leftarrow> tok_peek 0;
           if tk_kind t = KwStatic then parse_static a
           else if tk_kind t = Ident then parse_app_key env imports a
           else do {
             error_here ''se esperaba una clave de configuracion'';
             skip_line; ret (a, True) } }) (shrinks k)"
  by (rule within_skip_line parse_step parse_static_strict [THEN within_shrinks] parse_app_key_strict [THEN within_shrinks]
      | (simp add: after_simps; fail) | (force simp: after_simps))+

lemma parse_app_fine: "fine (parse_app env out)"
  unfolding parse_app_def Let_def
  by (rule fineI)
    (rule parse_step within_bind_weak [OF within_block_lines [OF app_line_within]] | (simp add: after_simps; fail))+

subsection \<open>Groups\<close>

lemma group_n_within:
  "k \<le> n \<Longrightarrow> \<not> K EndOfFile \<Longrightarrow> within K k (group_n n rd pre outer out) (\<lambda>_. k)"
proof (induction n arbitrary: k K pre outer out)
  case 0
  then show ?case
    by (auto intro!: withinI simp: pok_def)
next
  case (Suc n)
  have line: "within (\<lambda>h. h \<noteq> EndOfFile \<and> h \<noteq> Newline \<and> h \<noteq> Dedent) j (do {
             t \<leftarrow> tok_peek 0;
             if tk_kind t = KwRequire then do {
               tok_advance;
               error_if seen (tk_loc t) msg;
               c \<leftarrow> parse_expr rd;
               el \<leftarrow> expect KwElse ctx;
               e \<leftarrow> (if el then do { e \<leftarrow> parse_expr rd; ret (Some e) } else ret None);
               ret ((guards @ [\<lparr>g_condition = c, g_otherwise = e, g_loc = tk_loc t\<rparr>], seen, out), True) }
             else if tk_kind t = KwGroup then do {
               out' \<leftarrow> group_n n rd pre guards out;
               ret ((guards, True, out'), True) }
             else if tk_kind t \<in> set (map fst route_methods) then do {
               m \<leftarrow> tok_advance;
               out' \<leftarrow> parse_route rd m pre guards out;
               ret ((guards, True, out'), True) }
             else do {
               error_here msg';
               skip_line;
               ret ((guards, seen, out), True) } }) (\<lambda>_. j)" if "j \<le> n" for j seen msg ctx guards out msg' pre
    using that
    by - ((rule within_bind_weak [OF Suc.IH] parse_step | (simp add: after_simps; fail))+)
  have "after K k \<le> n" "after K k \<le> k"
    using Suc.prems by (auto simp: after_def)
  then show ?case
    unfolding group_n.simps
    by - ((rule within_bind_weak [OF within_guarded_lines] line parse_step | (simp add: after_simps; fail))+)
qed

lemma parse_group_within: "\<not> K EndOfFile \<Longrightarrow> within K k (parse_group rd pre guards out) (\<lambda>_. k)"
  unfolding parse_group_def
  by (rule within_tokens_left, rule within_weaken [where K = K, OF group_n_within order.refl]) auto

section \<open>The program\<close>

lemma parse_declaration_within: "within (\<lambda>h. h \<noteq> EndOfFile) k (parse_declaration rd env out) (\<lambda>_. k)"
  unfolding parse_declaration_def Let_def
  by (rule parse_step parse_group_within parse_app_fine [THEN within_fine] parse_class_fine [THEN within_fine]
      parse_error_fine [THEN within_fine] parse_fn_fine [THEN within_fine] parse_import_fine [THEN within_fine]
      | (simp add: after_simps; fail))+

text \<open>The guard against a declaration that reads nothing.\<close>

lemma guarded_declaration: "within (\<lambda>h. h \<noteq> EndOfFile) k (do {
     left0 \<leftarrow> tokens_left;
     out' \<leftarrow> parse_declaration rd env out;
     skip_newlines; ensure_progress left0; ret (out', True) }) (shrinks k)"
proof (rule withinI)
  let ?p = "do { left0 \<leftarrow> tokens_left; out' \<leftarrow> parse_declaration rd env out;
     skip_newlines; ensure_progress left0; ret (out', True) }"
  fix s assume s: "pok s" "head s \<noteq> EndOfFile" "length (ps_rest s) \<le> k"
  obtain y s1 where i: "run_state (parse_declaration rd env out) s = (y, s1)"
    by (metis prod.exhaust)
  obtain s2 where n: "run_state skip_newlines s1 = ((), s2)"
    by (cases "run_state skip_newlines s1") auto
  from withinD(1) [OF parse_declaration_within [of k rd env out] s] i have s1: "follows s s1" by simp
  have s2: "follows s s2"
    using within_fine [OF skip_newlines_fine order.refl, THEN withinD(1), of s1 any] n s1
    by (auto dest: follows_pok intro: follows_trans)
  show "follows s (snd (run_state ?p s)) \<and> length (ps_rest (snd (run_state ?p s))) \<le> shrinks k (fst (run_state ?p s))"
  proof (cases "length (ps_rest s2) = length (ps_rest s)")
    case True
    have same: "ps_rest s2 = ps_rest s"
      using s2 True by (auto simp: follows_def intro: suffix_same_length)
    then have "head s2 = head s" by (simp add: head_def peek_at_def)
    then have "head s2 \<noteq> EndOfFile" using s(2) by simp
    with advance_length [OF follows_pok [OF s2]] advance_follows [OF follows_pok [OF s2]] s2 s(3) same True
    show ?thesis
      by (auto simp: i n tokens_left_def ensure_progress_def tok_advance_def split: prod.splits intro: follows_trans)
  next
    case False
    with s1 s2 s(3) follows_length [OF s1] follows_length [OF s2] show ?thesis
      by (auto simp: i n tokens_left_def ensure_progress_def)
  qed
qed

lemma until_stops:
  assumes "\<And>x k. within (\<lambda>h. h \<noteq> EndOfFile) k (body x) (shrinks k)"
    and go: "\<And>x s. snd (fst (run_state (body x) s))"
    and s: "pok s"
  shows "head (snd (run_state (until [] body x) s)) = EndOfFile"
proof -
  let ?body = "\<lambda>x. do { stop \<leftarrow> check_in [EndOfFile]; if stop then ret (x, False) else body x }"
  have "head (snd (run_state (repeat m ?body x) s)) = EndOfFile" if "pok s" "length (ps_rest s) < m" for m
    using that
  proof (induction m arbitrary: x s)
    case (Suc m)
    show ?case
    proof (cases "head s = EndOfFile")
      case True
      then show ?thesis by (simp add: check_in_def head_def)
    next
      case False
      obtain y s1 where b: "run_state (body x) s = ((y, True), s1)"
        using go [of x s] by (metis prod.collapse)
      from withinD [OF assms(1) Suc.prems(1) False order.refl, of x] b
      have s1: "follows s s1" "length (ps_rest s1) \<le> length (ps_rest s) - 1" by simp_all
      have "length (ps_rest s1) < m"
        using s1(2) Suc.prems head_not_end [OF Suc.prems(1) False] by auto
      from Suc.IH [OF follows_pok [OF s1(1)] this, of y] False b show ?thesis
        by (simp add: check_in_def head_def)
    qed
  qed simp
  from this [OF s, of "Suc (length (ps_rest s))"] show ?thesis
    by (simp add: until_def loop_def tokens_left_def del: repeat.simps)
qed

lemma parse_into_ends:
  assumes "pok s" and s': "s' = snd (run_state (parse_into rd env out) s)"
  shows "follows s s'" and "head s' = EndOfFile"
proof -
  let ?body = "\<lambda>out. do {
     left0 \<leftarrow> tokens_left; out' \<leftarrow> parse_declaration rd env out;
     skip_newlines; ensure_progress left0; ret (out', True) }"
  define s1 where "s1 = snd (run_state skip_newlines s)"
  have run: "s' = snd (run_state (until [] ?body out) s1)"
    by (simp add: s' parse_into_def s1_def split: prod.split)
  have "within any (length (ps_rest s)) skip_newlines (\<lambda>_. length (ps_rest s))"
    by (rule within_fine [OF skip_newlines_fine order.refl])
  with assms(1) have s1: "follows s s1"
    by (simp add: within_def s1_def)
  have line: "within (\<lambda>h. h \<noteq> EndOfFile \<and> h \<notin> set []) k (?body x) (shrinks k)" for x k
    by (rule within_weaken [OF guarded_declaration order.refl]) simp_all
  have "within any (length (ps_rest s1)) (until [] ?body out) (\<lambda>_. length (ps_rest s1))"
    by (rule within_until, rule line) simp
  with follows_pok [OF s1] have "follows s1 s'"
    by (simp add: within_def run)
  with s1 show "follows s s'"
    by (rule follows_trans)
  show "head s' = EndOfFile"
    unfolding run
  proof (rule until_stops [OF guarded_declaration])
    show "snd (fst (run_state (?body x) s))" for x s
      by (simp split: prod.split)
  qed (rule follows_pok [OF s1])
qed

section \<open>The files of a project\<close>

text \<open>The first pass of \<open>compile\<close>: every file is lexed and parsed onto the same program and diagnostics.\<close>

definition file_state :: "(string \<Rightarrow> f64) \<Rightarrow> (string \<Rightarrow> string option) \<Rightarrow> program \<times> diagnostic list \<Rightarrow> string \<Rightarrow>
    program \<times> pstate" where
  "file_state rd env acc src =
     (let (toks, ds) = tokenize src
      in run_state (parse_into rd env (fst acc)) (new_parse toks (snd acc @ ds)))"

definition parse_file :: "(string \<Rightarrow> f64) \<Rightarrow> (string \<Rightarrow> string option) \<Rightarrow> program \<times> diagnostic list \<Rightarrow> string \<Rightarrow>
    program \<times> diagnostic list" where
  "parse_file rd env acc src = (case file_state rd env acc src of (p, s) \<Rightarrow> (p, ps_diags s))"

definition parse_files :: "(string \<Rightarrow> f64) \<Rightarrow> (string \<Rightarrow> string option) \<Rightarrow> string list \<Rightarrow> program \<times> diagnostic list" where
  "parse_files rd env srcs = foldl (parse_file rd env) (new_program, []) srcs"

lemma new_parse_pok: "pok (new_parse (fst (tokenize src)) ds)"
  using lex_end_shape [OF lexer_inv_loop [OF lexer_inv_new [of src]]]
  by (auto simp: tokenize_def Let_def pok_def new_parse_def)

text \<open>C4. The parser ends on every text: whatever the tokens, each of its loops and recursive calls stops
  before the number of tokens left is used up, the whole file is read and what was reported before
  stays reported.\<close>

theorem parsing_ends:
  "\<not> ps_spent (snd (file_state rd env acc src))
   \<and> map tk_kind (ps_rest (snd (file_state rd env acc src))) = [EndOfFile]
   \<and> prefix (snd acc @ snd (tokenize src)) (snd (parse_file rd env acc src))"
proof -
  let ?s = "new_parse (fst (tokenize src)) (snd acc @ snd (tokenize src))"
  let ?s' = "snd (file_state rd env acc src)"
  have "?s' = snd (run_state (parse_into rd env (fst acc)) ?s)"
    by (simp add: file_state_def split: prod.split)
  from parse_into_ends [OF new_parse_pok this] have e: "follows ?s ?s'" "head ?s' = EndOfFile" by this
  have "suffix (ps_rest ?s') (fst (tokenize src))"
    using e(1) by (simp add: follows_def new_parse_def)
  obtain ks t where ks: "fst (tokenize src) = ks @ [t]" "EndOfFile \<notin> tk_kind ` set ks"
    using lex_end_shape [OF lexer_inv_loop [OF lexer_inv_new [of src]]] by (auto simp: tokenize_def Let_def)
  obtain u us where rest: "ps_rest ?s' = u # us" "tk_kind u = EndOfFile" "tk_kind (last (u # us)) = EndOfFile"
    using e by (cases "ps_rest ?s'") (auto simp: follows_def pok_def head_def peek_at_def)
  have "us = []"
    using ks rest \<open>suffix _ _\<close> by (cases us rule: rev_cases) (auto simp: suffix_def)
  with rest e show ?thesis
    by (simp add: follows_def pok_def parse_file_def new_parse_def split: prod.splits) (metis snd_conv)
qed

end
