(* ===== verification/Routes.thy ===== *)
theory Routes
  imports Compile ParserRuns
begin

text \<open>
  The routes of a module (project.cpp): the parameters each one takes from the request, the routes that
  are answered without running code, the code of the others, and compiling a set of files.
\<close>

section \<open>Patterns and parameters\<close>

text \<open>The names of the parameters of a pattern, \<open>:name\<close> up to a slash or \<open>{name}\<close>.\<close>

function pattern_params :: "string \<Rightarrow> string list" where
  "pattern_params [] = []"
| "pattern_params (c # s) =
     (if c = CHR '':'' \<or> c = CHR ''{'' then
        let stop = (\<lambda>d. d \<noteq> (if c = CHR ''{'' then CHR ''}'' else CHR ''/''))
        in takeWhile stop s # pattern_params (dropWhile stop s)
      else pattern_params s)"
  by pat_completeness auto
termination
  by (relation "measure length") (auto simp: le_imp_less_Suc length_dropWhile_le)

datatype bind_kind = Bind_Path | Bind_Query | Bind_Body | Bind_File | Bind_FileList

record param_bind =
  pb_kind :: bind_kind
  pb_name :: string
  pb_type :: string
  pb_default :: "string option"
  pb_class :: "class_info option"

definition file_list :: "type_ref \<Rightarrow> bool" where
  "file_list t \<longleftrightarrow> t_name t = ''List'' \<and> (case t_args t of [a] \<Rightarrow> t_name a = ''File'' | _ \<Rightarrow> False)"

text \<open>The text of a constant default.\<close>

definition default_text :: "expr \<Rightarrow> string option" where
  "default_text d =
     (if e_kind d = E_StringLit then Some (e_text d)
      else if e_kind d = E_IntLit then Some (int_dec (sint (int_value d)))
      else if e_kind d = E_BoolLit then Some (if bool_value d then ''true'' else ''false'')
      else None)"

definition no_body :: "route_decl \<Rightarrow> bool" where
  "no_body r \<longleftrightarrow> rt_method r = ''GET'' \<or> rt_method r = ''DELETE''"

definition quote :: "string \<Rightarrow> string" where
  "quote s = CHR 0x27 # s @ [CHR 0x27]"

text \<open>The binding of one parameter, or the message that rejects it; \<open>seen\<close>: there is a body already.\<close>

definition bind_param :: "route_decl \<Rightarrow> (string \<times> class_info) list \<Rightarrow> bool \<Rightarrow> param \<Rightarrow> string + param_bind" where
  "bind_param r cls seen p =
     (let in_path = (pm_name p \<in> set (pattern_params (rt_pattern r))); ty = pm_type p;
          no_body_msg = ''una ruta '' @ rt_method r @ '' no lleva cuerpo''
      in if t_name ty = ''File'' \<or> file_list ty then
           (if in_path then Inl (quote (pm_name p) @ '' esta en el patron de ruta, asi que no puede ser un fichero subido'')
            else if no_body r then Inl no_body_msg
            else Inr \<lparr>pb_kind = (if t_name ty = ''File'' then Bind_File else Bind_FileList), pb_name = pm_name p,
                      pb_type = t_name ty, pb_default = None, pb_class = None\<rparr>)
         else case map_of cls (t_name ty) of
           Some c \<Rightarrow>
             (if in_path then Inl (quote (pm_name p) @ '' esta en el patron de ruta, asi que no puede ser del tipo '' @ quote (t_name ty))
              else if seen then Inl ''solo puede haber un parametro de cuerpo por ruta''
              else if no_body r then Inl no_body_msg
              else Inr \<lparr>pb_kind = Bind_Body, pb_name = pm_name p, pb_type = t_name ty, pb_default = None, pb_class = Some c\<rparr>)
         | None \<Rightarrow>
             if \<not> is_scalar (t_name ty) then Inl (''tipo desconocido: '' @ quote (type_str ty))
             else if t_optional ty then Inl ''los parametros opcionales todavia no estan implementados''
             else case default_value p of
               None \<Rightarrow> Inr \<lparr>pb_kind = (if in_path then Bind_Path else Bind_Query), pb_name = pm_name p, pb_type = t_name ty,
                          pb_default = None, pb_class = None\<rparr>
             | Some d \<Rightarrow>
                 if in_path then Inl ''un parametro de ruta no puede tener valor por defecto''
                 else case default_text d of
                   None \<Rightarrow> Inl ''el valor por defecto tiene que ser una constante''
                 | Some t \<Rightarrow> Inr \<lparr>pb_kind = Bind_Query, pb_name = pm_name p, pb_type = t_name ty, pb_default = Some t, pb_class = None\<rparr>)"

definition bind_step :: "route_decl \<Rightarrow> (string \<times> class_info) list \<Rightarrow> param \<Rightarrow> param_bind list \<times> bool \<Rightarrow>
    ('t, param_bind list \<times> bool) builder" where
  "bind_step r cls p acc = (case acc of (out, ok) \<Rightarrow>
     (case bind_param r cls (\<exists>b \<in> set out. pb_kind b = Bind_Body) p of
        Inl msg \<Rightarrow> do { bd_error (pm_loc p) msg; done_with (out, False) }
      | Inr b \<Rightarrow> done_with (out @ [b], ok)))"

definition uncollected :: "route_decl \<Rightarrow> string list" where
  "uncollected r = filter (\<lambda>s. s \<notin> pm_name ` set (rt_params r)) (pattern_params (rt_pattern r))"

definition report_uncollected :: "route_decl \<Rightarrow> ('t, unit) builder" where
  "report_uncollected r = for_each (\<lambda>s. bd_error (pattern_loc r)
     (''el patron declara '' @ quote (CHR '':'' # s) @ '' pero ningun parametro lo recoge'')) (uncollected r)"

definition bind_params :: "route_decl \<Rightarrow> (string \<times> class_info) list \<Rightarrow> ('t, param_bind list option) builder" where
  "bind_params r cls = do {
     report_uncollected r;
     (out, ok) \<leftarrow> fold_do (bind_step r cls) (rt_params r) ([], uncollected r = []);
     done_with (if ok then Some out else None) }"

section \<open>Routes without code\<close>

fun all_some :: "'a option list \<Rightarrow> 'a list option" where
  "all_some [] = Some []"
| "all_some (None # xs) = None"
| "all_some (Some x # xs) = map_option (Cons x) (all_some xs)"

primrec const_eval_valor :: "expr \<Rightarrow> val option" where
  "const_eval_valor (Expr k l txt i f b ob lh rh as its ens) =
     (case k of
        E_StringLit \<Rightarrow> Some (VStr txt)
      | E_IntLit \<Rightarrow> Some (VInt i)
      | E_FloatLit \<Rightarrow> Some (VFloat f)
      | E_BoolLit \<Rightarrow> Some (VBool b)
      | E_NullLit \<Rightarrow> Some VNull
      | E_ListLit \<Rightarrow> map_option VList (all_some (map const_eval_valor its))
      | E_DictLit \<Rightarrow>
          if \<not> list_all (\<lambda>(key, _). e_kind key = E_StringLit) ens then None
          else map_option (\<lambda>vs. VDict (fold (\<lambda>(key, v). dict_put (e_text key) v) (zip (map fst ens) vs) dict_empty))
            (all_some (map snd (map (map_prod const_eval_valor const_eval_valor) ens)))
      | _ \<Rightarrow> None)"

text \<open>What such a route does.\<close>

datatype action =
    Act_Json string
  | Act_Page string
  | Act_Text string
  | Act_Html string
  | Act_File string
  | Act_Status int
  | Act_Redirect string int

definition to_int32 :: "i64 \<Rightarrow> int" where
  "to_int32 v = sint (ucast v :: 32 word)"

definition callee_name :: "expr \<Rightarrow> string option" where
  "callee_name e =
     (if e_kind e \<noteq> E_Call then None
      else case e_object e of
             None \<Rightarrow> None
           | Some f \<Rightarrow> if e_kind f = E_Ident then Some (e_text f) else None)"

text \<open>\<open>need_string\<close>: argument \<open>i\<close> is a literal text; nothing is asked of its name.\<close>

definition string_arg :: "expr \<Rightarrow> nat \<Rightarrow> string option" where
  "string_arg e i =
     (if i < length (e_args e) \<and> e_kind (fst (snd (e_args e ! i))) = E_StringLit
      then Some (e_text (fst (snd (e_args e ! i)))) else None)"

text \<open>The data of a page: every argument after the first has a name and a constant value.\<close>

fun page_data :: "(string \<times> expr \<times> source_loc) list \<Rightarrow> val dict \<Rightarrow> val dict option" where
  "page_data [] d = Some d"
| "page_data ((n, v, l) # as) d =
     (if n = [] then None
      else case const_eval_valor v of None \<Rightarrow> None | Some x \<Rightarrow> page_data as (dict_put n x d))"

definition tipo_odio_de :: "val \<Rightarrow> string" where
  "tipo_odio_de v =
     (case v of VStr _ \<Rightarrow> ''string'' | VInt _ \<Rightarrow> ''int'' | VFloat _ \<Rightarrow> ''float'' | VBool _ \<Rightarrow> ''bool''
      | VList _ \<Rightarrow> ''List'' | VDict _ \<Rightarrow> ''Dict'' | VNull \<Rightarrow> [])"

definition compile_page :: "'t outside \<Rightarrow> string \<Rightarrow> expr \<Rightarrow> action option" where
  "compile_page os dir e =
     (case string_arg e 0 of
        None \<Rightarrow> None
      | Some name \<Rightarrow>
          (case page_data (tl (e_args e)) dict_empty of
             None \<Rightarrow> None
           | Some data \<Rightarrow>
               if find_sub ''..'' name \<noteq> None \<or> (name \<noteq> [] \<and> hd name = CHR ''/'') then None
               else case os_read os (in_dir dir name) of
                 None \<Rightarrow> None
               | Some src \<Rightarrow>
                   (case os_template os src name dir (map (\<lambda>(k, v). (k, tipo_odio_de v)) (d_v data)) of
                      ([], Some t) \<Rightarrow> (case os_render os t (map snd (d_v data)) of Inl err \<Rightarrow> None | Inr page \<Rightarrow> Some (Act_Page page))
                    | _ \<Rightarrow> None)))"

text \<open>
  \<open>compile_return\<close> with the scratch diagnostics of \<open>try_declarative\<close>: \<open>None\<close> when the route needs
  code after all.
\<close>

definition compile_return :: "fp_text \<Rightarrow> 't outside \<Rightarrow> string \<Rightarrow> expr \<Rightarrow> action option" where
  "compile_return F os dir e =
     (case const_eval_valor e of
        Some v \<Rightarrow> Some (Act_Json (write_json F v))
      | None \<Rightarrow>
          (case callee_name e of
             None \<Rightarrow> None
           | Some fn \<Rightarrow>
               if fn = ''render'' then compile_page os dir e
               else if fn = ''text'' then map_option Act_Text (string_arg e 0)
               else if fn = ''html'' then map_option Act_Html (string_arg e 0)
               else if fn = ''send_file'' then map_option Act_File (string_arg e 0)
               else if fn = ''status'' then
                 (case e_args e of
                    (_, v, _) # _ \<Rightarrow> if e_kind v = E_IntLit then Some (Act_Status (to_int32 (int_value v))) else None
                  | [] \<Rightarrow> None)
               else if fn = ''redirect'' then
                 (case string_arg e 0 of
                    None \<Rightarrow> None
                  | Some to \<Rightarrow>
                      (case tl (e_args e) of
                         [] \<Rightarrow> Some (Act_Redirect to 302)
                       | (_, v, _) # _ \<Rightarrow> if e_kind v = E_IntLit then Some (Act_Redirect to (to_int32 (int_value v))) else None))
               else if fn = ''json'' then
                 (case e_args e of
                    [(_, v, _)] \<Rightarrow> map_option (\<lambda>x. Act_Json (write_json F x)) (const_eval_valor v)
                  | _ \<Rightarrow> None)
               else None))"

definition try_declarative :: "fp_text \<Rightarrow> 't outside \<Rightarrow> string \<Rightarrow> route_decl \<Rightarrow> action option" where
  "try_declarative F os dir r =
     (if rt_guards r \<noteq> [] \<or> rt_params r \<noteq> [] then None
      else case rt_body r of
             [s] \<Rightarrow> if s_kind s \<noteq> S_Return then None
                    else (case s_value s of None \<Rightarrow> None | Some e \<Rightarrow> compile_return F os dir e)
           | _ \<Rightarrow> None)"

section \<open>The table of routes\<close>

text \<open>What is registered in the router: method, pattern and what answers.\<close>

datatype route_code =
    Native_route action
  | Vm_route chunk "param_bind list" bool
  | Sse_route chunk "param_bind list"
  | Ws_route "string list" chunk "param_bind list"

type_synonym route_entry = "string \<times> string \<times> route_code"

definition has_body :: "param_bind list \<Rightarrow> bool" where
  "has_body bs \<longleftrightarrow> (\<exists>b \<in> set bs. pb_kind b = Bind_Body)"

definition wants_upload :: "param_bind list \<Rightarrow> bool" where
  "wants_upload bs \<longleftrightarrow> (\<exists>b \<in> set bs. pb_kind b = Bind_File \<or> pb_kind b = Bind_FileList)"

text \<open>The code of a route, appended to the table unless its emission failed.\<close>

definition emit_entry :: "nat \<Rightarrow> 't emit_env \<Rightarrow> route_decl \<Rightarrow> string \<Rightarrow> (chunk \<Rightarrow> route_code) \<Rightarrow> route_entry list \<Rightarrow>
    ('t, route_entry list) builder" where
  "emit_entry n ev r meth code out = do {
     (ok, c) \<leftarrow> emit_new (emit_route n ev r);
     done_with (if ok then out @ [(meth, rt_pattern r, code c)] else out) }"

definition build_ws :: "nat \<Rightarrow> 't emit_env \<Rightarrow> (string \<times> class_info) list \<Rightarrow> route_decl \<Rightarrow> route_entry list \<Rightarrow>
    ('t, route_entry list) builder" where
  "build_ws n ev cls r out =
     (if rt_origins r = [] then do {
        bd_error (rt_loc r) ''una ruta ws necesita origins(...): sin lista blanca, cualquier web puede abrir la conexion desde el navegador de tu usuario'';
        done_with out }
      else do {
        bs \<leftarrow> bind_params r cls;
        case bs of
          None \<Rightarrow> done_with out
        | Some binds \<Rightarrow>
            if has_body binds then do { bd_error (rt_loc r) ''una ruta ws no lleva cuerpo''; done_with out }
            else emit_entry n ev r ''GET'' (\<lambda>c. Ws_route (rt_origins r) c binds) out })"

definition build_sse :: "nat \<Rightarrow> 't emit_env \<Rightarrow> (string \<times> class_info) list \<Rightarrow> route_decl \<Rightarrow> route_entry list \<Rightarrow>
    ('t, route_entry list) builder" where
  "build_sse n ev cls r out = do {
     bs \<leftarrow> bind_params r cls;
     case bs of
       None \<Rightarrow> done_with out
     | Some binds \<Rightarrow> do {
         (if has_body binds then bd_error (rt_loc r) ''una ruta sse no lleva cuerpo'' else done_with ());
         emit_entry n ev r ''GET'' (\<lambda>c. Sse_route c binds) out } }"

definition build_plain :: "nat \<Rightarrow> fp_text \<Rightarrow> 't outside \<Rightarrow> string \<Rightarrow> 't emit_env \<Rightarrow> (string \<times> class_info) list \<Rightarrow> route_decl \<Rightarrow>
    route_entry list \<Rightarrow> ('t, route_entry list) builder" where
  "build_plain n F os dir ev cls r out = do {
     report_uncollected r;
     case try_declarative F os dir r of
       Some a \<Rightarrow> done_with (out @ [(rt_method r, rt_pattern r, Native_route a)])
     | None \<Rightarrow> do {
         bs \<leftarrow> bind_params r cls;
         case bs of
           None \<Rightarrow> done_with out
         | Some binds \<Rightarrow> emit_entry n ev r (rt_method r) (\<lambda>c. Vm_route c binds (wants_upload binds)) out } }"

definition build_route :: "nat \<Rightarrow> fp_text \<Rightarrow> 't outside \<Rightarrow> string \<Rightarrow> 't emit_env \<Rightarrow> (string \<times> class_info) list \<Rightarrow> route_decl \<Rightarrow>
    route_entry list \<Rightarrow> ('t, route_entry list) builder" where
  "build_route n F os dir ev cls r out = do {
     (if rt_origins r \<noteq> [] \<and> rt_method r \<noteq> ''WS'' then bd_error (rt_loc r) ''origins() solo es valido en rutas ws''
      else done_with ());
     if rt_method r = ''WS'' then build_ws n ev cls r out
     else if rt_method r = ''SSE'' then build_sse n ev cls r out
     else build_plain n F os dir ev cls r out }"

definition build_routes :: "nat \<Rightarrow> fp_text \<Rightarrow> 't outside \<Rightarrow> string \<Rightarrow> 't emit_env \<Rightarrow> (string \<times> class_info) list \<Rightarrow> route_decl list \<Rightarrow>
    ('t, route_entry list) builder" where
  "build_routes n F os dir ev cls rs = fold_do (build_route n F os dir ev cls) rs []"

definition build_handler :: "nat \<Rightarrow> 't emit_env \<Rightarrow> error_decl \<Rightarrow> (int \<times> chunk) list \<Rightarrow> ('t, (int \<times> chunk) list) builder" where
  "build_handler n ev d hs = do {
     (ok, c) \<leftarrow> emit_new (emit_error_handler n ev d);
     done_with (if ok then (err_code d, c) # hs else hs) }"

definition build_error_handlers :: "nat \<Rightarrow> 't emit_env \<Rightarrow> error_decl list \<Rightarrow> ('t, (int \<times> chunk) list) builder" where
  "build_error_handlers n ev ds = fold_do (build_handler n ev) ds []"

section \<open>Compiling\<close>

text \<open>The database modules of the binary: which there are, and activating one (the error, if any).\<close>

record registry =
  reg_available :: "string list"
  reg_activate :: "string \<Rightarrow> (string \<times> string) list \<Rightarrow> string option"

text \<open>The order of a \<open>std::set\<close>.\<close>

fun insert_ordered :: "string \<Rightarrow> string list \<Rightarrow> string list" where
  "insert_ordered x [] = [x]"
| "insert_ordered x (y # ys) = (if str_less x y then x # y # ys else y # insert_ordered x ys)"

definition set_order :: "string list \<Rightarrow> string list" where
  "set_order xs = fold insert_ordered xs []"

definition check_import :: "registry \<Rightarrow> app_decl \<Rightarrow> string \<Rightarrow> diagnostic list" where
  "check_import reg a m =
     (if m \<notin> set (reg_available reg) then
        [\<lparr>dg_loc = no_loc, dg_message = ''el modulo '' @ quote m @ '' no esta compilado en este binario'' @
           (if reg_available reg = [] then [] else ''; disponibles: '' @ sep_by '', '' (reg_available reg))\<rparr>]
      else case map_of (app_modules a) m of
        None \<Rightarrow> [\<lparr>dg_loc = app_loc a, dg_message = quote (''import '' @ m) @ '' sin su bloque '' @ quote (m @ '':'') @ '' en app:''\<rparr>]
      | Some cfg \<Rightarrow> (case reg_activate reg m cfg of None \<Rightarrow> [] | Some err \<Rightarrow> [\<lparr>dg_loc = app_loc a, dg_message = err\<rparr>]))"

definition check_imports :: "registry \<Rightarrow> program \<Rightarrow> diagnostic list" where
  "check_imports reg p = concat (map (check_import reg (app p)) (set_order (imports_of p)))"

record 't module =
  mo_program :: program
  mo_routes :: "route_entry list"
  mo_handlers :: "(int \<times> chunk) list"
  mo_classes :: "(string \<times> class_info) list"
  mo_build :: "'t build"

definition new_build :: "diagnostic list \<Rightarrow> 't build" where
  "new_build ds = \<lparr>bd_fns = [], bd_diags = ds, bd_tpls = [], bd_undefined = False, bd_spent = False\<rparr>"

definition if_clean :: "'a \<Rightarrow> ('t, 'a) builder \<Rightarrow> ('t, 'a) builder" where
  "if_clean x p = State (\<lambda>b. if bd_diags b = [] then run_state p b else (x, b))"

text \<open>The second pass.\<close>

definition build_module :: "nat \<Rightarrow> fp_text \<Rightarrow> 't outside \<Rightarrow> program \<Rightarrow>
    ('t, route_entry list \<times> (int \<times> chunk) list \<times> (string \<times> class_info) list) builder" where
  "build_module n F os p = do {
     (ix, sigs) \<leftarrow> build_code n os p;
     let dir = Ast.templates_dir (app p);
         plain = env_with os (imports_of p) ix (Some sigs) None;
         paged = env_with os (imports_of p) ix (Some sigs) (Some dir)
     in do {
       cls \<leftarrow> build_classes n plain (classes p);
       rs \<leftarrow> if_clean [] (build_routes n F os dir paged cls (Ast.routes p));
       hs \<leftarrow> if_clean [] (build_error_handlers n paged (errors p));
       done_with (rs, hs, cls) } }"

definition module_of :: "nat \<Rightarrow> fp_text \<Rightarrow> 't outside \<Rightarrow> program \<Rightarrow> 't module" where
  "module_of n F os p =
     (case run_state (build_module n F os p) (new_build []) of
        ((rs, hs, cls), b) \<Rightarrow> \<lparr>mo_program = p, mo_routes = rs, mo_handlers = hs, mo_classes = cls, mo_build = b\<rparr>)"

definition read_inputs :: "(string \<times> string option) list \<Rightarrow> string list \<times> diagnostic list" where
  "read_inputs fs = (concat (map (\<lambda>(_, t). case t of None \<Rightarrow> [] | Some x \<Rightarrow> [x]) fs),
     concat (map (\<lambda>(path, t). if t = None then [\<lparr>dg_loc = no_loc, dg_message = ''no se puede leer: '' @ path\<rparr>] else []) fs))"

definition compile :: "nat \<Rightarrow> fp_text \<Rightarrow> (string \<Rightarrow> f64) \<Rightarrow> (string \<Rightarrow> string option) \<Rightarrow> registry \<Rightarrow> 't outside \<Rightarrow>
    (string \<times> string option) list \<Rightarrow> 't module" where
  "compile n F rd env reg os inputs =
     (let (srcs, ds0) = read_inputs inputs;
          (p, ds1) = foldl (parse_file rd env) (new_program, ds0) srcs;
          ds2 = (if ds1 = [] then check_imports reg p else ds1)
      in if ds2 = [] then module_of n F os p
         else \<lparr>mo_program = p, mo_routes = [], mo_handlers = [], mo_classes = [], mo_build = new_build ds2\<rparr>)"

text \<open>A module is published when compiling it left no diagnostic.\<close>

definition publishable :: "'t module \<Rightarrow> bool" where
  "publishable m \<longleftrightarrow> bd_diags (mo_build m) = []"

end
