(* ===== verification/TypedRuns.thy ===== *)
theory TypedRuns
  imports CodeTypes
begin

text \<open>
  Code that keeps the discipline of heights runs without an access the bytecode should never make;
  the one exception is the suspending built-in that code may call directly.
\<close>

section \<open>Machines on typed code\<close>

text \<open>
  The height of the operand stack each frame waits for; a frame below the top one waits for the
  result of its call.
\<close>

fun stacked :: "(nat \<Rightarrow> nat \<Rightarrow> bool) \<Rightarrow> frame list \<Rightarrow> nat \<Rightarrow> bool" where
  "stacked S [] n = True"
| "stacked S (f # fs) n =
     ((\<exists>h. typed_by S (f_chunk f) h \<and> f_pc f \<le> length (ch_code (f_chunk f)) \<and> n = stack_base f + h (f_pc f))
      \<and> stacked S fs (stack_base f + 1))"

definition table_typed :: "(nat \<Rightarrow> nat \<Rightarrow> bool) \<Rightarrow> chunk list option \<Rightarrow> bool" where
  "table_typed S t \<longleftrightarrow>
     (case t of None \<Rightarrow> True
      | Some fns \<Rightarrow> \<forall>i < length fns. typed S (fns ! i) \<and> (\<forall>n. S i n \<longrightarrow> n \<le> num_locals (fns ! i)))"

definition typed_machine :: "(nat \<Rightarrow> nat \<Rightarrow> bool) \<Rightarrow> 'c machine \<Rightarrow> bool" where
  "typed_machine S m \<longleftrightarrow> stacked S (frames m) (length (stack m)) \<and> table_typed S (fn_table m) \<and> frames_ok m"

text \<open>The machine an error leaves: the stack of the frame on top may be off.\<close>

definition typed_below :: "(nat \<Rightarrow> nat \<Rightarrow> bool) \<Rightarrow> 'c machine \<Rightarrow> bool" where
  "typed_below S m \<longleftrightarrow> (\<exists>n. stacked S (frames m) n) \<and> table_typed S (fn_table m) \<and> frames_ok m"

primrec safe :: "(nat \<Rightarrow> nat \<Rightarrow> bool) \<Rightarrow> 'c outcome \<Rightarrow> bool" where
  "safe S (Running m) = typed_machine S m"
| "safe S (Returned v m) = True"
| "safe S (Failed e loc m) = typed_below S m"
| "safe S (Suspended i vs m) = typed_machine S (mpush HNull m)"
| "safe S Trapped = True"
| "safe S Hung = True"
| "safe S Undefined = False"

section \<open>Instructions that stay in their frame\<close>

text \<open>The height an instruction leaves, when it does not fail.\<close>

primrec leaves :: "nat \<Rightarrow> 'c outcome \<Rightarrow> bool" where
  "leaves n (Running m) = (length (stack m) = n)"
| "leaves n (Returned v m) = True"
| "leaves n (Failed e loc m) = True"
| "leaves n (Suspended i vs m) = (Suc (length (stack m)) = n)"
| "leaves n Trapped = True"
| "leaves n Hung = True"
| "leaves n Undefined = False"

lemma leaves_at: "leaves i r \<Longrightarrow> i = n \<Longrightarrow> leaves n r"
  by simp

lemma push_height [simp]:
  "length (stack (mpush v m)) = Suc (length (stack m))" "length (stack (push_list l m)) = Suc (length (stack m))"
  "length (stack (push_dict d m)) = Suc (length (stack m))" "locals (mpush v m) = locals m"
  by (simp_all add: mpush_def push_list_def push_dict_def)

lemma pop1_leaves:
  "1 \<le> length (stack m) \<Longrightarrow>
   (\<And>v m1. Suc (length (stack m1)) = length (stack m) \<Longrightarrow> locals m1 = locals m \<Longrightarrow> leaves n (k v m1)) \<Longrightarrow>
   leaves n (pop1 m k)"
  by (cases "stack m") (simp_all add: pop1_def)

lemma pop2_leaves:
  "2 \<le> length (stack m) \<Longrightarrow>
   (\<And>a b m1. Suc (Suc (length (stack m1))) = length (stack m) \<Longrightarrow> leaves n (k a b m1)) \<Longrightarrow> leaves n (pop2 m k)"
  unfolding pop2_def by (rule pop1_leaves, simp, rule pop1_leaves) auto

lemma pop_args_leaves:
  "i \<le> length (stack m) \<Longrightarrow>
   (\<And>vs m1. length (stack m1) + i = length (stack m) \<Longrightarrow> leaves n (k vs m1)) \<Longrightarrow> leaves n (pop_args i m k)"
  by (simp add: pop_args_def)

lemma exec_values_leave:
  "k < length (ch_constants (f_chunk f)) \<Longrightarrow> leaves (Suc (length (stack m))) (exec_const f k m)"
  "locals_base f + k < length (locals m) \<Longrightarrow> leaves (Suc (length (stack m))) (exec_load_local f k m)"
  "locals_base f + k < length (locals m) \<Longrightarrow> 1 \<le> length (stack m) \<Longrightarrow>
     leaves (length (stack m) - 1) (exec_store_local f k m)"
  by (auto simp: exec_const_def exec_load_local_def exec_store_local_def intro!: pop1_leaves)

lemma exec_arith_leave:
  "2 \<le> length (stack m) \<Longrightarrow> leaves (length (stack m) - 1) (exec_add loc m)"
  "2 \<le> length (stack m) \<Longrightarrow> leaves (length (stack m) - 1) (exec_arith op loc m)"
  "2 \<le> length (stack m) \<Longrightarrow> leaves (length (stack m) - 1) (exec_equal b m)"
  "2 \<le> length (stack m) \<Longrightarrow> leaves (length (stack m) - 1) (exec_compare op loc m)"
  unfolding exec_add_def exec_arith_def exec_equal_def exec_compare_def Let_def
  by (rule pop2_leaves, assumption, auto simp: exec_mod_def exec_div_def split: hval.split option.split)+

lemma exec_neg_leaves: "1 \<le> length (stack m) \<Longrightarrow> leaves (length (stack m)) (exec_neg loc m)"
  unfolding exec_neg_def by (rule pop1_leaves) (auto split: hval.split)

lemma exec_int_leaves: "2 \<le> length (stack m) \<Longrightarrow> leaves (length (stack m) - 1) (exec_int op loc m)"
  using exec_arith_leave(1,2,4) [of m]
  by (cases "stack m" rule: list.exhaust; cases "tl (stack m)") (auto simp: exec_int_def split: hval.split)

lemma exec_make_leave:
  "n \<le> length (stack m) \<Longrightarrow> leaves (Suc (length (stack m) - n)) (exec_make_list n m)"
  "2 * n \<le> length (stack m) \<Longrightarrow> leaves (Suc (length (stack m) - 2 * n)) (exec_make_dict n loc m)"
  unfolding exec_make_list_def exec_make_dict_def
  by (rule pop_args_leaves, assumption, auto split: sum.split)+

lemma exec_index_leave:
  "2 \<le> length (stack m) \<Longrightarrow> leaves (length (stack m) - 1) (exec_get_index loc m)"
  "3 \<le> length (stack m) \<Longrightarrow> leaves (length (stack m) - 2) (exec_set_index loc m)"
  "1 \<le> length (stack m) \<Longrightarrow> leaves (length (stack m)) (exec_iter_list loc m)"
  unfolding exec_get_index_def exec_set_index_def exec_iter_list_def Let_def
    apply (rule pop2_leaves; auto split: hval.split)
   apply (rule pop1_leaves; simp?; rule pop2_leaves; auto split: hval.split)
  by (rule pop1_leaves; auto split: hval.split)

lemma exec_member_leave:
  "is_str_const c k \<Longrightarrow> 1 \<le> length (stack m) \<Longrightarrow> leaves (length (stack m)) (exec_get_member c k loc m)"
  "is_str_const c k \<Longrightarrow> 2 \<le> length (stack m) \<Longrightarrow> leaves (length (stack m) - 1) (exec_set_member c k loc m)"
  unfolding exec_get_member_def exec_set_member_def is_str_const_def
  by (rule pop1_leaves pop2_leaves, simp, auto split: hval.split)+

lemma finish_call_leaves: "leaves (Suc (length (stack m))) (finish_call r loc m)"
  by (simp add: finish_call_def Let_def split: prod.split)

lemma exec_native_leave:
  "is_str_const c (k div 256) \<Longrightarrow> Suc (k mod 256) \<le> length (stack m) \<Longrightarrow>
     leaves (length (stack m) - k mod 256) (exec_call_method N c k loc m)"
  "native_fn N (k div 256) \<noteq> None \<Longrightarrow> k mod 256 \<le> length (stack m) \<Longrightarrow>
     leaves (Suc (length (stack m) - k mod 256)) (exec_call_native N k loc m)"
  "k mod 256 \<le> length (stack m) \<Longrightarrow> leaves (Suc (length (stack m) - k mod 256)) (exec_call_async k m)"
  unfolding exec_call_method_def exec_call_native_def exec_call_async_def is_str_const_def
    apply (rule pop_args_leaves, simp, rule pop1_leaves, simp)
    apply (auto intro!: finish_call_leaves [THEN leaves_at])[1]
   apply (rule pop_args_leaves, simp)
   apply (auto intro!: finish_call_leaves [THEN leaves_at])[1]
  by (rule pop_args_leaves) auto

lemmas leave_rules = exec_values_leave exec_arith_leave exec_neg_leaves exec_int_leaves exec_make_leave
  exec_index_leave exec_member_leave exec_native_leave

definition leaves_frame :: "opcode list" where
  "leaves_frame = [Op_CallFunction, Op_Return, Op_ReturnNull]"

lemma exec_op_leaves:
  assumes "op \<notin> set jumps" "op \<notin> set leaves_frame" "fst (effect op k) \<le> length (stack m)"
    and "operand_ok S (f_chunk f) op k" "locals_base f + num_locals (f_chunk f) \<le> length (locals m)"
    and "op = Op_CallNative \<Longrightarrow> native_fn N (k div 256) \<noteq> None"
  shows "leaves (after_op op k (length (stack m))) (exec_op op N f k loc m)"
  using assms
  by (cases op)
    (auto simp: jumps_def conditional_jumps_def leaves_frame_def operand_ok_def after_op_def
      intro!: pop1_leaves intro: leave_rules [THEN leaves_at])

section \<open>One step\<close>

lemma control_parts:
  "control m1 = control m \<longleftrightarrow>
     frames m1 = frames m \<and> fn_table m1 = fn_table m \<and> steps m1 = steps m \<and> length (locals m1) = length (locals m)"
  by (simp add: control_def)

lemma kept_safe:
  assumes kept: "keeps (control m) r" and leaves: "leaves n r" and m: "stacked S (frames m) n"
    and t: "table_typed S (fn_table m)" and ok: "frames_ok m"
  shows "safe S r"
  using assms kept_result_ok [OF kept ok]
  by (cases r) (auto simp: control_parts typed_machine_def typed_below_def mpush_def)

lemma typed_below_top:
  assumes "typed_by S (f_chunk f) h" "f_pc f \<le> length (ch_code (f_chunk f))" "stacked S fs (stack_base f + 1)"
    and "frames m = f # fs" "table_typed S (fn_table m)" "frames_ok m"
  shows "typed_below S m"
  using assms by (auto simp: typed_below_def)

lemma leave_frame_safe:
  assumes "stacked S fs (stack_base f + 1)" "frames m = f # fs" "table_typed S (fn_table m)" "frames_ok m"
  shows "safe S (leave_frame v m)"
proof (cases fs)
  case (Cons g gs)
  then show ?thesis
    using assms leave_frame_ok [OF assms(4), of v]
    by (simp add: leave_frame_def typed_machine_def stack_resize_def mpush_def)
qed (use assms in \<open>simp add: leave_frame_def\<close>)

text \<open>\<open>f\<close> has fetched the instruction: its program counter is past it.\<close>

lemma jump_safe:
  assumes h: "typed_by S (f_chunk f) h" and pc: "f_pc f \<le> length (ch_code (f_chunk f))" "k \<le> length (ch_code (f_chunk f))"
    and below: "stacked S fs (stack_base f + 1)" and m: "frames m = f # fs" "table_typed S (fn_table m)" "frames_ok m"
  shows
    "length (stack m) = stack_base f + h k \<Longrightarrow> safe S (exec_jump k loc m)"
    "length (stack m) = stack_base f + Suc (h k) \<Longrightarrow> h (f_pc f) = h k \<Longrightarrow> safe S (exec_jump_if_false k m)"
    "length (stack m) = stack_base f + h k \<Longrightarrow> Suc (h (f_pc f)) = h k \<Longrightarrow> safe S (exec_jump_peek s k m)"
proof -
  have go: "typed_machine S (set_pc k m1)" if "control m1 = control m \<or> (\<exists>n. m1 = m\<lparr>steps := n\<rparr>)" "length (stack m1) = stack_base f + h k" for m1
    using that assms by (auto simp: typed_machine_def control_parts frames_ok_def set_pc_frames(2) set_pc_frames(1) [of m1 f fs])
      (auto simp: set_pc_def)
  have stay: "typed_machine S m1" if "control m1 = control m" "length (stack m1) = stack_base f + h (f_pc f)" for m1
    using that assms by (auto simp: typed_machine_def control_parts frames_ok_def)
  have fail: "typed_below S (m\<lparr>steps := n\<rparr>)" for n
    by (rule typed_below_top [OF h pc(1) below]) (use m in simp_all)
  show "length (stack m) = stack_base f + h k \<Longrightarrow> safe S (exec_jump k loc m)"
    using go [of m] go [of "m\<lparr>steps := Suc (steps m)\<rparr>"] fail m(1) by (auto simp: exec_jump_def Let_def)
  show "length (stack m) = stack_base f + Suc (h k) \<Longrightarrow> h (f_pc f) = h k \<Longrightarrow> safe S (exec_jump_if_false k m)"
    using go [of "m\<lparr>stack := tl (stack m)\<rparr>"] stay [of "m\<lparr>stack := tl (stack m)\<rparr>"]
    by (cases "stack m") (auto simp: exec_jump_if_false_def pop1_def)
  show "length (stack m) = stack_base f + h k \<Longrightarrow> Suc (h (f_pc f)) = h k \<Longrightarrow> safe S (exec_jump_peek s k m)"
    using go [of m] stay [of "m\<lparr>stack := tl (stack m)\<rparr>"]
    by (cases "stack m") (auto simp: exec_jump_peek_def pop1_def)
qed

lemma call_function_safe:
  assumes h: "typed_by S (f_chunk f) h" and pc: "f_pc f \<le> length (ch_code (f_chunk f))"
    and height: "length (stack m) = stack_base f + n" "k mod 256 \<le> n" "h (f_pc f) = Suc (n - k mod 256)"
    and call: "S (k div 256) (k mod 256)"
    and below: "stacked S fs (stack_base f + 1)" and m: "frames m = f # fs" "table_typed S (fn_table m)" "frames_ok m"
  shows "safe S (exec_call_function k loc m)"
proof -
  have fail: "typed_below S m"
    by (rule typed_below_top [OF h pc below m])
  have ok: "result_ok (exec_call_function k loc m)"
    by (rule call_function_ok [OF m(3)])
  show ?thesis
  proof (cases "fn_table m")
    case None
    with fail show ?thesis by (simp add: exec_call_function_def Let_def)
  next
    case (Some fns)
    show ?thesis
    proof (cases "k div 256 < length fns \<and> length (frames m) < kMaxFrames")
      case False
      with fail Some show ?thesis by (auto simp: exec_call_function_def Let_def)
    next
      case True
      define c where "c = fns ! (k div 256)"
      from True Some m(2) call have c: "typed S c" "k mod 256 \<le> num_locals c"
        by (auto simp: table_typed_def c_def)
      then obtain g where g: "typed_by S c g" "g 0 = 0"
        by (auto simp: typed_def typed_by_def)
      have "stack_base f + n - k mod 256 + 1 = stack_base f + h (f_pc f)"
        using height by simp
      with True Some ok c g h pc below m height show ?thesis
        by (auto simp: exec_call_function_def Let_def pop_args_def typed_machine_def c_def [symmetric])
    qed
  qed
qed

text \<open>The instruction that calls the suspending built-in directly.\<close>

definition reads_recv :: "'c machine \<Rightarrow> bool" where
  "reads_recv m \<longleftrightarrow>
     (case frames m of
        [] \<Rightarrow> False
      | f # _ \<Rightarrow> f_pc f < length (ch_code (f_chunk f)) \<and>
                 (let i = ch_code (f_chunk f) ! f_pc f in i_op i = Op_CallNative \<and> i_operand i div 256 = ws_recv))"

text \<open>Every built-in that does not suspend has a function.\<close>

definition natives_bound :: "'c natives \<Rightarrow> bool" where
  "natives_bound N \<longleftrightarrow> (\<forall>i < length kNatives. \<not> is_async (native_at i) \<longrightarrow> native_fn N i \<noteq> None)"

lemma vm_step_safe:
  assumes m: "typed_machine S m" and N: "natives_bound N" and go: "vm_step N m \<noteq> Undefined \<or> \<not> reads_recv m"
  shows "safe S (vm_step N m)"
proof (cases "frames m")
  case Nil
  then show ?thesis by (simp add: vm_step_def)
next
  case (Cons f fs)
  have parts: "table_typed S (fn_table m)" "frames_ok m" "stacked S fs (stack_base f + 1)"
    using m Cons by (simp_all add: typed_machine_def)
  obtain h where h: "typed_by S (f_chunk f) h" "f_pc f \<le> length (ch_code (f_chunk f))" "length (stack m) = stack_base f + h (f_pc f)"
    using m Cons by (auto simp: typed_machine_def)
  show ?thesis
  proof (cases "f_pc f < length (ch_code (f_chunk f))")
    case False
    then show ?thesis
      using leave_frame_safe [OF parts(3) Cons parts(1,2)] by (simp add: vm_step_def Cons)
  next
    case True
    define i where "i = ch_code (f_chunk f) ! f_pc f"
    define m1 where "m1 = set_pc (f_pc f + 1) m"
    define g where "g = f\<lparr>f_pc := f_pc f + 1\<rparr>"
    have step: "vm_step N m = exec_op (i_op i) N f (i_operand i) (i_loc i) m1"
      using True Cons by (simp add: vm_step_def i_def m1_def Let_def)
    have m1: "frames m1 = g # fs" "table_typed S (fn_table m1)" "frames_ok m1" "stack m1 = stack m" "locals m1 = locals m"
      using parts by (simp_all add: m1_def g_def set_pc_frames(2) set_pc_frames(1) [OF Cons]) (simp_all add: set_pc_def Cons)
    have g: "typed_by S (f_chunk g) h" "f_pc g \<le> length (ch_code (f_chunk g))" "stacked S fs (stack_base g + 1)"
      using h True parts by (simp_all add: g_def)
    have shape: "fst (effect (i_op i) (i_operand i)) \<le> h (f_pc f)" "operand_ok S (f_chunk f) (i_op i) (i_operand i)"
      "i_op i \<notin> {Op_Jump, Op_Return, Op_ReturnNull} \<Longrightarrow> h (f_pc g) = after_op (i_op i) (i_operand i) (h (f_pc f))"
      using h(1) True by (auto simp: typed_by_def shape_ok_def Let_def i_def g_def)
    have target: "i_op i \<in> set jumps \<Longrightarrow> i_operand i \<le> length (ch_code (f_chunk g)) \<and> h (i_operand i) = taken (i_op i) (h (f_pc f))"
      using h(1) True by (auto simp: typed_by_def target_ok_def Let_def i_def g_def)
    have height: "length (stack m1) = stack_base g + h (f_pc f)"
      using h(3) m1 by (simp add: g_def)
    show ?thesis
    proof (cases "i_op i \<in> set jumps \<or> i_op i \<in> set leaves_frame")
      case False
      have native: "native_fn N (i_operand i div 256) \<noteq> None" if op: "i_op i = Op_CallNative"
      proof
        assume none: "native_fn N (i_operand i div 256) = None"
        have "direct_native (i_operand i div 256)"
          using shape(2) op by (simp add: operand_ok_def)
        with none N have "i_operand i div 256 = ws_recv"
          by (auto simp: natives_bound_def direct_native_def)
        with True Cons op have "reads_recv m"
          by (simp add: reads_recv_def i_def)
        moreover have "vm_step N m = Undefined"
          by (simp add: step op exec_call_native_def pop_args_def none)
        ultimately show False using go by simp
      qed
      have "locals_base f + num_locals (f_chunk f) \<le> length (locals m1)"
        using parts(2) Cons m1(5) by (simp add: frames_ok_def)
      moreover have "fst (effect (i_op i) (i_operand i)) \<le> length (stack m1)"
        using shape(1) height by simp
      ultimately have l: "leaves (after_op (i_op i) (i_operand i) (length (stack m1))) (vm_step N m)"
        unfolding step using False shape(2) native by (intro exec_op_leaves) auto
      have "after_op (i_op i) (i_operand i) (length (stack m1)) = stack_base g + h (f_pc g)"
        using shape(1,3) height False by (simp add: after_op_def jumps_def leaves_frame_def)
      with g m1(1) have "stacked S (frames m1) (after_op (i_op i) (i_operand i) (length (stack m1)))"
        by auto
      moreover have "keeps (control m1) (vm_step N m)"
        unfolding step using False by (cases "i_op i") (simp_all add: jumps_def conditional_jumps_def leaves_frame_def pop1_keeps)
      ultimately show ?thesis
        using kept_safe l m1(2,3) by blast
    next
      case True
      have popped: "safe S (pop1 m1 (\<lambda>v m2. leave_frame v m2))" if "stack m1 = v # st" for v st
        using leave_frame_safe [OF g(3), of "m1\<lparr>stack := st\<rparr>"] m1(1-3) by (simp add: pop1_def that)
      note jump = jump_safe [OF g(1,2) _ g(3) m1(1-3), of "i_operand i"]
      show ?thesis
        unfolding step
      proof (cases "i_op i")
        case Op_CallFunction
        with shape(1,3) show "safe S (exec_op (i_op i) N f (i_operand i) (i_loc i) m1)"
          using call_function_safe [OF g(1,2) height, of "i_operand i"] shape(2) g(3) m1(1-3)
          by (simp add: after_op_def operand_ok_def)
      next
        case Op_Return
        with popped shape(1) height show "safe S (exec_op (i_op i) N f (i_operand i) (i_loc i) m1)"
          by (cases "stack m1") auto
      next
        case Op_ReturnNull
        with leave_frame_safe [OF g(3) m1(1-3)] show "safe S (exec_op (i_op i) N f (i_operand i) (i_loc i) m1)"
          by simp
      qed (use True target shape(1,3) height jump in \<open>auto simp: jumps_def conditional_jumps_def leaves_frame_def taken_def after_op_def\<close>)
    qed
  qed
qed

section \<open>Errors that are caught\<close>

lemma foldl_picks:
  assumes "\<And>b r. f b r = b \<or> f b r = Some r" "foldl f b rs = Some r"
  shows "b = Some r \<or> r \<in> set rs"
  using assms(2)
proof (induction rs arbitrary: b)
  case (Cons a rs)
  then have "f b a = Some r \<or> r \<in> set rs" by simp
  with assms(1) [of b a] show ?case by auto
qed simp

lemma find_handler_in: "find_handler c pc = Some r \<Longrightarrow> r \<in> set (ch_try c)"
  unfolding find_handler_def by (drule foldl_picks [rotated]) (auto split: option.split)

lemma unwind_stacked:
  assumes "stacked S fs n" "unwind fs st ls = (Some t, gs, s, l)"
  obtains f gs' h where "gs = f # gs'" "typed_by S (f_chunk f) h" "t \<le> length (ch_code (f_chunk f))" "h t = 1"
    "stacked S gs' (stack_base f + 1)"
  using assms
proof (induction fs st ls arbitrary: n thesis rule: unwind.induct)
  case (2 f fs st ls)
  from "2.prems"(2) obtain h where h: "typed_by S (f_chunk f) h" and below: "stacked S fs (stack_base f + 1)"
    by auto
  show ?case
  proof (cases "find_handler (f_chunk f) (pc_before f)")
    case None
    with "2.IH" [OF None "2.prems"(1) below] "2.prems"(3) show ?thesis by simp
  next
    case (Some r)
    with h find_handler_in [OF Some] have "catch_pc r \<le> length (ch_code (f_chunk f))" "h (catch_pc r) = 1"
      by (auto simp: typed_by_def)
    with "2.prems"(1,3) Some h below show ?thesis by auto
  qed
qed simp

lemma catch_error_safe:
  assumes "typed_below S m" "catch_error e m = Inr m2"
  shows "typed_machine S m2"
proof -
  obtain t fs st ls where u: "unwind (frames m) (stack m) (locals m) = (t, fs, st, ls)"
    by (metis prod_cases4)
  with assms(2) obtain p where t: "t = Some p"
    by (cases t) (auto simp: catch_error_def)
  from assms(1) obtain n where "stacked S (frames m) n" and ok: "table_typed S (fn_table m)" "frames_ok m"
    by (auto simp: typed_below_def)
  then obtain f gs h where f: "fs = f # gs" "typed_by S (f_chunk f) h" "p \<le> length (ch_code (f_chunk f))" "h p = 1"
    "stacked S gs (stack_base f + 1)"
    using unwind_stacked u t by metis
  have m2: "m2 = set_pc p (push_dict (error_value e) (m\<lparr>frames := fs, stack := stack_resize (stack_base f) st, locals := ls\<rparr>))"
    using assms(2) u t f(1) by (simp add: catch_error_def Let_def)
  have "length (stack m2) = Suc (stack_base f)" "frames m2 = f\<lparr>f_pc := p\<rparr> # gs" "fn_table m2 = fn_table m"
    by (simp_all add: m2 set_pc_def push_dict_def mpush_def f(1) stack_resize_def)
  moreover have "frames_ok m2"
    using catch_error_ok [OF assms(2) ok(2)] .
  ultimately show ?thesis
    using f ok(1) by (auto simp: typed_machine_def)
qed

section \<open>Runs\<close>

text \<open>Everything a machine can come to, through errors that are caught and suspensions that are resumed.\<close>

inductive vm_reaches :: "'c natives \<Rightarrow> 'c machine \<Rightarrow> 'c machine \<Rightarrow> bool" for N m0 where
  reach_start: "vm_reaches N m0 m0"
| reach_step: "vm_reaches N m0 m \<Longrightarrow> vm_step N m = Running m1 \<Longrightarrow> vm_reaches N m0 m1"
| reach_catch: "vm_reaches N m0 m \<Longrightarrow> vm_step N m = Failed e loc m1 \<Longrightarrow> catch_error e m1 = Inr m2 \<Longrightarrow>
     vm_reaches N m0 (m2\<lparr>steps := 0\<rparr>)"
| reach_resume: "vm_reaches N m0 m \<Longrightarrow> vm_step N m = Suspended i vs m1 \<Longrightarrow> vm_reaches N m0 ((mpush v m1)\<lparr>steps := 0\<rparr>)"

lemma typed_machine_updates [simp]:
  "typed_machine S (m\<lparr>steps := n\<rparr>) = typed_machine S m"
  "typed_machine S (mpush v m) = typed_machine S (mpush w m)"
  by (simp_all add: typed_machine_def mpush_def)

lemma reaches_typed: "vm_reaches N m0 m \<Longrightarrow> typed_machine S m0 \<Longrightarrow> natives_bound N \<Longrightarrow> typed_machine S m"
proof (induction rule: vm_reaches.induct)
  case (reach_step m m1)
  then show ?case using vm_step_safe [of S m N] by simp
next
  case (reach_catch m e loc m1 m2)
  then show ?case using vm_step_safe [of S m N] catch_error_safe [of S m1 e m2] by simp
next
  case (reach_resume m i vs m1 v)
  then show ?case using vm_step_safe [of S m N] typed_machine_updates(2) [of S HNull m1 v] by simp
qed simp

lemma typed_start:
  assumes "typed S c" "table_typed S fns"
  shows "typed_machine S (vm_start c params fns h ctx)"
proof -
  have "frames_ok (vm_start c params fns h ctx)"
    by (rule live_frames_ok, rule vm_live.live_start [where N = "undefined"])
  with assms show ?thesis
    by (auto simp: typed_machine_def typed_def typed_by_def vm_start_def)
qed

lemma typed_never_undefined:
  assumes "typed S c" "table_typed S fns" "natives_bound N" "vm_reaches N (vm_start c params fns h ctx) m"
    and "vm_step N m = Undefined"
  shows "reads_recv m"
  using vm_step_safe [OF reaches_typed [OF assms(4) typed_start [OF assms(1,2)] assms(3)] assms(3)] assms(5) by auto

lemma stacked_forward: "stacked S fs n \<Longrightarrow> f \<in> set fs \<Longrightarrow> chunk_forward (f_chunk f)"
proof (induction fs arbitrary: n)
  case (Cons g gs)
  then show ?case
    using typed_forward [of S "f_chunk g"] by (auto simp: typed_def)
qed simp

lemma typed_forward_machine:
  assumes "typed_machine S m"
  shows "machine_forward m"
proof -
  have "chunk_forward c" if "fn_table m = Some fns" "c \<in> set fns" for fns c
    using assms that typed_forward [of S] by (auto simp: typed_machine_def table_typed_def in_set_conv_nth)
  with assms stacked_forward show ?thesis
    by (auto simp: typed_machine_def machine_forward_def frames_ok_def split: option.split)
qed

end
