(* ===== verification/CompileRuns.thy ===== *)
theory CompileRuns
  imports Compile EmitterKeeps EmitterRuns TypedRuns
begin

text \<open>
  The table of functions of a module that is built without a diagnostic holds typed code, and every
  signature is true of it.
\<close>

section \<open>Steps of the construction\<close>

abbreviation result_of :: "('s, 'a) state \<Rightarrow> 's \<Rightarrow> 'a" where
  "result_of p s \<equiv> fst (run_state p s)"

abbreviation state_after :: "('s, 'a) state \<Rightarrow> 's \<Rightarrow> 's" where
  "state_after p s \<equiv> snd (run_state p s)"

definition big :: "chunk \<Rightarrow> bool" where
  "big c \<longleftrightarrow> 2 ^ 24 < length (ch_constants c)"

definition bd_bad :: "'t build \<Rightarrow> bool" where
  "bd_bad b \<longleftrightarrow> bd_diags b \<noteq> [] \<or> bd_undefined b \<or> bd_spent b \<or> list_ex big (bd_fns b) \<or> 2 ^ 24 < length (bd_fns b)"

abbreviation written :: "(nat \<Rightarrow> nat \<Rightarrow> bool) \<Rightarrow> chunk \<Rightarrow> bool" where
  "written S c \<equiv> segment S {} {} 0 0 new_chunk c"

definition table_written :: "(nat \<Rightarrow> nat \<Rightarrow> bool) \<Rightarrow> 't build \<Rightarrow> bool" where
  "table_written S b \<longleftrightarrow> list_all (written S) (bd_fns b)"

definition table_grows :: "'t build \<Rightarrow> 't build \<Rightarrow> bool" where
  "table_grows b b' \<longleftrightarrow> length (bd_fns b) \<le> length (bd_fns b') \<and>
     (\<forall>i < length (bd_fns b). num_locals (bd_fns b ! i) \<le> num_locals (bd_fns b' ! i))"

definition stays :: "('t build \<Rightarrow> bool) \<Rightarrow> bool" where
  "stays P \<longleftrightarrow> (\<forall>b b'. table_grows b b' \<longrightarrow> P b \<longrightarrow> P b')"

text \<open>
  A step of the construction: what was wrong stays wrong; from \<open>P\<close>, unless something is wrong at the
  end, it leads to \<open>Q\<close>, chunks only grow and stay well written.
\<close>

definition firm :: "('t, 'a) builder \<Rightarrow> bool" where
  "firm p \<longleftrightarrow> (\<forall>b. bd_bad b \<longrightarrow> bd_bad (state_after p b))"

definition builds :: "(nat \<Rightarrow> nat \<Rightarrow> bool) \<Rightarrow> ('t build \<Rightarrow> bool) \<Rightarrow> ('t, 'a) builder \<Rightarrow> ('a \<Rightarrow> 't build \<Rightarrow> bool) \<Rightarrow> bool" where
  "builds S P p Q \<longleftrightarrow>
     firm p \<and>
     (\<forall>b. P b \<longrightarrow> table_written S b \<longrightarrow> \<not> bd_bad (state_after p b) \<longrightarrow>
        table_written S (state_after p b) \<and> table_grows b (state_after p b) \<and> Q (result_of p b) (state_after p b))"

lemma buildsI:
  "firm p \<Longrightarrow>
   (\<And>b. P b \<Longrightarrow> table_written S b \<Longrightarrow> \<not> bd_bad (state_after p b) \<Longrightarrow>
      table_written S (state_after p b) \<and> table_grows b (state_after p b) \<and> Q (result_of p b) (state_after p b)) \<Longrightarrow>
   builds S P p Q"
  by (simp add: builds_def)

lemma buildsD:
  assumes "builds S P p Q" "P b" "table_written S b" "\<not> bd_bad (state_after p b)"
  shows "table_written S (state_after p b)" "table_grows b (state_after p b)" "Q (result_of p b) (state_after p b)" "\<not> bd_bad b"
  using assms by (auto simp: builds_def firm_def)

lemma firmD: "firm p \<Longrightarrow> \<not> bd_bad (state_after p b) \<Longrightarrow> \<not> bd_bad b"
  by (auto simp: firm_def)

lemma firm_bind: "firm p \<Longrightarrow> (\<And>x. firm (f x)) \<Longrightarrow> firm (State_Monad.bind p f)"
  by (simp add: firm_def split: prod.split) (metis snd_conv)

lemma firm_done: "firm (done_with x)"
  by (simp add: firm_def)

lemma firm_for_each: "(\<And>x. firm (f x)) \<Longrightarrow> firm (for_each f xs)"
  by (induction xs) (simp_all add: firm_bind firm_done)

lemma firm_fold: "(\<And>x acc. firm (f x acc)) \<Longrightarrow> firm (fold_do f xs acc)"
  by (induction xs arbitrary: acc) (simp_all add: firm_bind firm_done)

lemma firm_if: "firm p \<Longrightarrow> firm q \<Longrightarrow> firm (if c then p else q)"
  by simp

lemma firm_option: "firm p \<Longrightarrow> (\<And>x. firm (f x)) \<Longrightarrow> firm (case v of None \<Rightarrow> p | Some x \<Rightarrow> f x)"
  by (cases v) simp_all

lemma firm_steps: "firm (bd_error l msg)" "firm reserve" "firm (make_sig i ps)"
  by (auto simp: firm_def bd_error_def reserve_def make_sig_def bd_bad_def)

lemmas firm_rules = firm_bind firm_done firm_for_each firm_fold firm_if firm_option firm_steps

lemma grows_refl: "table_grows b b"
  by (simp add: table_grows_def)

lemma grows_trans: "table_grows a b \<Longrightarrow> table_grows b c \<Longrightarrow> table_grows a c"
  unfolding table_grows_def by (meson le_trans less_le_trans)

lemma staysD: "stays P \<Longrightarrow> table_grows b b' \<Longrightarrow> P b \<Longrightarrow> P b'"
  by (simp add: stays_def)

lemma builds_weaken: "builds S P p Q \<Longrightarrow> (\<And>b. P' b \<Longrightarrow> P b) \<Longrightarrow> (\<And>r b. Q r b \<Longrightarrow> Q' r b) \<Longrightarrow> builds S P' p Q'"
  by (simp add: builds_def)

lemma builds_bind:
  assumes p: "builds S P p Q" and f: "\<And>x. builds S (Q x) (f x) R"
  shows "builds S P (State_Monad.bind p f) R"
proof (rule buildsI)
  show "firm (State_Monad.bind p f)"
    using p f by (simp add: builds_def firm_bind)
  fix b
  have run: "run_state (State_Monad.bind p f) b = run_state (f (result_of p b)) (state_after p b)"
    by (simp split: prod.split)
  assume b: "P b" "table_written S b" and good: "\<not> bd_bad (state_after (State_Monad.bind p f) b)"
  have "\<not> bd_bad (state_after p b)"
    using good f unfolding run by (auto simp: builds_def firm_def)
  note one = buildsD [OF p b this]
  from buildsD [OF f one(3,1)] good grows_trans [OF one(2)]
  show "table_written S (state_after (State_Monad.bind p f) b) \<and> table_grows b (state_after (State_Monad.bind p f) b) \<and>
      R (result_of (State_Monad.bind p f) b) (state_after (State_Monad.bind p f) b)"
    unfolding run by blast
qed

lemma builds_frame: "builds S P p Q \<Longrightarrow> stays F \<Longrightarrow> builds S (\<lambda>b. P b \<and> F b) p (\<lambda>r b. Q r b \<and> F b)"
  unfolding builds_def using staysD by blast

lemma builds_done: "(\<And>b. P b \<Longrightarrow> Q x b) \<Longrightarrow> builds S P (done_with x) Q"
  by (simp add: builds_def grows_refl firm_done)

lemma builds_if: "(c \<Longrightarrow> builds S P p Q) \<Longrightarrow> (\<not> c \<Longrightarrow> builds S P q Q) \<Longrightarrow> builds S P (if c then p else q) Q"
  by simp

lemma builds_error: "builds S P (bd_error l msg) Q"
  by (simp add: builds_def firm_steps) (simp add: bd_error_def bd_bad_def)

lemma builds_for_each:
  assumes "\<And>x. x \<in> set xs \<Longrightarrow> builds S P (f x) (\<lambda>_. G x)" "stays P" "\<And>x. stays (G x)"
  shows "builds S P (for_each f xs) (\<lambda>_ b. \<forall>x \<in> set xs. G x b)"
  using assms(1)
proof (induction xs)
  case (Cons x xs)
  have one: "builds S P (f x) (\<lambda>_ b. P b \<and> G x b)"
    using builds_frame [OF Cons.prems assms(2), of x] by (rule builds_weaken) auto
  have rest: "builds S (\<lambda>b. P b \<and> G x b) (for_each f xs) (\<lambda>_ b. \<forall>y \<in> set (x # xs). G y b)"
    using builds_frame [OF Cons.IH assms(3), of x] Cons.prems by (force intro: builds_weaken)
  show ?case
    by (simp only: for_each.simps, rule builds_bind [OF one rest])
qed (simp add: builds_done)

lemma builds_fold:
  assumes "\<And>x acc. x \<in> set xs \<Longrightarrow> builds S (I acc) (f x acc) I"
  shows "builds S (I acc) (fold_do f xs acc) I"
  using assms
proof (induction xs arbitrary: acc)
  case (Cons x xs)
  then show ?case
    by (simp only: fold_do.simps) (rule builds_bind, auto)
qed (simp add: builds_done)

section \<open>Emission into the table\<close>

interpretation wrong: emission_keeps bad
  by unfold_locales (simp_all add: bad_def, linarith?)

lemma emitter_on_fields [simp]:
  "em_chunk (emitter_on c b) = c" "em_diags (emitter_on c b) = bd_diags b" "em_undefined (emitter_on c b) = bd_undefined b"
  "em_spent (emitter_on c b) = bd_spent b" "em_tpls (emitter_on c b) = bd_tpls b"
  by (simp_all add: emitter_on_def)

definition fits :: "nat \<Rightarrow> nat \<Rightarrow> 't build \<Rightarrow> bool" where
  "fits i n b \<longleftrightarrow> i < length (bd_fns b) \<and> n \<le> num_locals (bd_fns b ! i)"

lemma stays_facts:
  "stays (\<lambda>b. True)" "stays (fits i n)" "stays (\<lambda>b. i < length (bd_fns b))"
  "stays P \<Longrightarrow> stays Q \<Longrightarrow> stays (\<lambda>b. P b \<and> Q b)" "(\<And>x. stays (R x)) \<Longrightarrow> stays (\<lambda>b. \<forall>x. R x b)"
  "stays Q \<Longrightarrow> stays (\<lambda>b. c \<longrightarrow> Q b)" "(\<And>x. stays (R x)) \<Longrightarrow> stays (\<lambda>b. \<forall>x \<in> X. R x b)"
  unfolding stays_def by (blast | auto simp: table_grows_def fits_def intro: le_trans)+

text \<open>An entry point: from a run without a diagnostic a segment onto the chunk, with room for \<open>n\<close> slots.\<close>

definition entry :: "(nat \<Rightarrow> nat \<Rightarrow> bool) \<Rightarrow> nat \<Rightarrow> ('t, bool) emitter \<Rightarrow> bool" where
  "entry S n p \<longleftrightarrow> wrong.keeps p \<and>
     (\<forall>s. \<not> bad (exec p s) \<longrightarrow> segment S {} {} 0 0 (em_chunk s) (em_chunk (exec p s)) \<and> n \<le> num_locals (em_chunk (exec p s)))"

lemma bad_big: "big (em_chunk s) \<Longrightarrow> bad s"
  by (simp add: big_def bad_def)

lemma list_ex_other: "list_ex P xs \<Longrightarrow> \<not> P (xs ! i) \<Longrightarrow> list_ex P (xs[i := x])"
proof -
  assume "list_ex P xs" "\<not> P (xs ! i)"
  then obtain j where "j < length xs" "P (xs ! j)" "j \<noteq> i"
    by (metis list_ex_iff in_set_conv_nth)
  then have "j < length (xs[i := x])" "P (xs[i := x] ! j)"
    by simp_all
  then show ?thesis
    unfolding list_ex_iff by (metis nth_mem)
qed

lemma through_emit:
  assumes "i < length (bd_fns b)"
  shows "bad (exec p (emitter_on (bd_fns b ! i) b)) \<Longrightarrow> bd_bad (state_after (emit_into i p) b)"
    "bd_fns (state_after (emit_into i p) b) = (bd_fns b)[i := em_chunk (exec p (emitter_on (bd_fns b ! i) b))]"
  using assms by (auto simp: emit_into_def after_emit_def bad_def bd_bad_def big_def list_ex_iff
      split: prod.split intro: set_update_memI)

lemma firm_emit_into: "wrong.keeps p \<Longrightarrow> firm (emit_into i p)"
  unfolding firm_def
proof (intro allI impI)
  fix b :: "'a build"
  assume p: "wrong.keeps p" and bad: "bd_bad b"
  show "bd_bad (state_after (emit_into i p) b)"
  proof (cases "i < length (bd_fns b)")
    case True
    let ?s = "emitter_on (bd_fns b ! i) b"
    show ?thesis
    proof (cases "bad ?s")
      case bad: True
      then have "bad (exec p ?s)"
        using p by (simp add: wrong.keeps_def)
      with through_emit(1) [OF True] show ?thesis by blast
    next
      case False
      with bad have "list_ex big (bd_fns b) \<or> 2 ^ 24 < length (bd_fns b)" "\<not> big (bd_fns b ! i)"
        by (auto simp: bd_bad_def bad_def big_def)
      then show ?thesis
        using through_emit(2) [OF True] list_ex_other unfolding bd_bad_def by (metis length_list_update)
    qed
  qed (simp add: emit_into_def bd_bad_def)
qed

lemma builds_emit_into:
  assumes "entry S n p"
  shows "builds S (\<lambda>b. i < length (bd_fns b)) (emit_into i p) (\<lambda>_. fits i n)"
proof (rule buildsI)
  show "firm (emit_into i p)"
    using assms by (simp add: entry_def firm_emit_into)
  fix b :: "'a build"
  let ?s = "emitter_on (bd_fns b ! i) b"
  let ?b = "state_after (emit_into i p) b"
  assume i: "i < length (bd_fns b)" and w: "table_written S b" and good: "\<not> bd_bad ?b"
  note b' = through_emit(2) [OF i, of p]
  have "\<not> bad (exec p ?s)"
    using good through_emit(1) [OF i] by blast
  then have seg: "segment S {} {} 0 0 (bd_fns b ! i) (em_chunk (exec p ?s))" and n: "n \<le> num_locals (em_chunk (exec p ?s))"
    using assms by (auto simp: entry_def)
  have "written S (bd_fns b ! i)"
    using w i by (simp add: table_written_def list_all_length)
  from segment_trans [OF this seg] have "written S (em_chunk (exec p ?s))"
    by simp
  with w have "table_written S ?b"
    by (auto simp: table_written_def b' list_all_length nth_list_update i)
  moreover have "num_locals (bd_fns b ! i) \<le> num_locals (em_chunk (exec p ?s))"
    using seg by (auto simp: segment_def dest: extends_bounds)
  then have "table_grows b ?b"
    by (auto simp: table_grows_def b' nth_list_update i)
  ultimately show "table_written S ?b \<and> table_grows b ?b \<and> fits i n ?b"
    using n i by (simp add: fits_def b')
qed

text \<open>The entry points of the emitter.\<close>

lemma entry_points:
  assumes "env_ok S ev"
  shows "entry S 0 (emit_route n ev r)" "entry S (length (fn_params f)) (emit_function n ev f)"
    "entry S (Suc (length (fn_params f))) (emit_method n ev cls f)" "entry S (length (ct_params ct)) (emit_ctor n ev cls flds ct)"
    "entry S 0 (emit_condition n ev e names)" "entry S 0 (emit_error_handler n ev d)"
  unfolding entry_def
  using route_segment(1) [OF assms prod.collapse [symmetric]] function_segment(1,3) [OF assms prod.collapse [symmetric]]
    method_segment(1,3) [OF assms prod.collapse [symmetric]] ctor_segment(1,3) [OF assms prod.collapse [symmetric]]
    condition_segment(1) [OF assms prod.collapse [symmetric]] error_handler_segment(1) [OF assms prod.collapse [symmetric]]
  by (simp_all add: wrong.keeps_entries)

section \<open>Signatures\<close>

definition sig_for :: "param list \<Rightarrow> fn_sig \<Rightarrow> 't build \<Rightarrow> bool" where
  "sig_for ps sg b \<longleftrightarrow> sg_index sg < length (bd_fns b) \<and> length (sg_defaults sg) = length ps"

definition functions_declared :: "fn_decl list \<Rightarrow> (string \<times> fn_sig) list \<Rightarrow> 't build \<Rightarrow> bool" where
  "functions_declared fs ix b \<longleftrightarrow>
     (\<forall>name sg. map_of ix name = Some sg \<longrightarrow> (\<exists>f \<in> set fs. fn_name f = name \<and> sig_for (fn_params f) sg b))"

text \<open>What a signature of a class says of the class; and that its entries are in the table.\<close>

definition class_shape :: "class_decl \<Rightarrow> class_sig \<Rightarrow> bool" where
  "class_shape c cs \<longleftrightarrow>
     (\<forall>name sg. map_of (cs_methods cs) name = Some sg \<longrightarrow>
        (\<exists>m \<in> set (cl_methods c). fn_name m = name \<and> length (sg_defaults sg) = length (fn_params m))) \<and>
     (\<forall>n i. map_of (cs_ctors cs) n = Some i \<longrightarrow>
        ((\<exists>ct \<in> set (cl_ctors c). length (ct_params ct) = n) \<or> cl_ctors c = [] \<and> cl_fields c \<noteq> [] \<and> n = length (cl_fields c)))"

definition class_indexed :: "class_sig \<Rightarrow> 't build \<Rightarrow> bool" where
  "class_indexed cs b \<longleftrightarrow>
     (\<forall>name sg. map_of (cs_methods cs) name = Some sg \<longrightarrow> sg_index sg < length (bd_fns b)) \<and>
     (\<forall>n i. map_of (cs_ctors cs) n = Some i \<longrightarrow> i < length (bd_fns b))"

definition class_declared :: "class_decl \<Rightarrow> class_sig \<Rightarrow> 't build \<Rightarrow> bool" where
  "class_declared c cs b \<longleftrightarrow> class_shape c cs \<and> class_indexed cs b"

lemma class_declared_iff:
  "class_declared c cs b \<longleftrightarrow>
     (\<forall>name sg. map_of (cs_methods cs) name = Some sg \<longrightarrow>
        (\<exists>m \<in> set (cl_methods c). fn_name m = name \<and> sig_for (fn_params m) sg b)) \<and>
     (\<forall>n i. map_of (cs_ctors cs) n = Some i \<longrightarrow> i < length (bd_fns b) \<and>
        ((\<exists>ct \<in> set (cl_ctors c). length (ct_params ct) = n) \<or> cl_ctors c = [] \<and> cl_fields c \<noteq> [] \<and> n = length (cl_fields c)))"
  unfolding class_declared_def class_shape_def class_indexed_def sig_for_def by blast

definition classes_declared :: "class_decl list \<Rightarrow> (string \<times> class_sig) list \<Rightarrow> 't build \<Rightarrow> bool" where
  "classes_declared cls sigs b \<longleftrightarrow>
     (\<forall>name cs. map_of sigs name = Some cs \<longrightarrow> (\<exists>c \<in> set cls. cl_name c = name \<and> class_declared c cs b))"

lemma stays_length: "(\<And>b b'. length (bd_fns b) \<le> length (bd_fns b') \<Longrightarrow> P b \<Longrightarrow> P b') \<Longrightarrow> stays P"
  by (auto simp: stays_def table_grows_def)

lemma sig_for_more: "sig_for ps sg b \<Longrightarrow> length (bd_fns b) \<le> length (bd_fns b') \<Longrightarrow> sig_for ps sg b'"
  by (simp add: sig_for_def)

lemma class_declared_more:
  "class_declared c cs b \<Longrightarrow> length (bd_fns b) \<le> length (bd_fns b') \<Longrightarrow> class_declared c cs b'"
  unfolding class_declared_iff by (meson sig_for_more less_le_trans)

lemma stays_declared:
  "stays (functions_declared fs ix)" "stays (class_declared c cs)" "stays (classes_declared cls sigs)"
  unfolding functions_declared_def classes_declared_def
  by (rule stays_length, meson sig_for_more class_declared_more)+

lemma builds_reserve: "stays F \<Longrightarrow> builds S F reserve (\<lambda>i b. i < length (bd_fns b) \<and> F b)"
proof (rule buildsI [OF firm_steps(2)])
  fix b :: "'a build"
  assume F: "stays F" "F b" and w: "table_written S b"
  have g: "table_grows b (state_after reserve b)"
    by (simp add: reserve_def table_grows_def nth_append)
  moreover have "table_written S (state_after reserve b)"
    using w by (simp add: reserve_def table_written_def segment_refl)
  ultimately show "table_written S (state_after reserve b) \<and> table_grows b (state_after reserve b) \<and>
      (result_of reserve b < length (bd_fns (state_after reserve b)) \<and> F (state_after reserve b))"
    using staysD [OF F(1) g F(2)] by (simp add: reserve_def)
qed

lemma builds_new_callable:
  assumes "stays F"
  shows "builds S F (new_callable ps) (\<lambda>sg b. sig_for ps sg b \<and> F b)"
  unfolding new_callable_def
proof (rule builds_bind [OF builds_reserve [OF assms]])
  fix i
  show "builds S (\<lambda>b. i < length (bd_fns b) \<and> F b) (make_sig i ps) (\<lambda>sg b. sig_for ps sg b \<and> F b)"
  proof (rule buildsI [OF firm_steps(3)])
    fix b :: "'a build"
    assume b: "i < length (bd_fns b) \<and> F b" "table_written S b"
    have g: "table_grows b (state_after (make_sig i ps) b)"
      by (simp add: make_sig_def table_grows_def)
    then show "table_written S (state_after (make_sig i ps) b) \<and> table_grows b (state_after (make_sig i ps) b) \<and>
        (sig_for ps (result_of (make_sig i ps) b) (state_after (make_sig i ps) b) \<and> F (state_after (make_sig i ps) b))"
      using b staysD [OF assms g] by (simp add: make_sig_def table_written_def sig_for_def)
  qed
qed

lemma builds_declare_function:
  "f \<in> set fs \<Longrightarrow> builds S (functions_declared fs ix) (declare_function f ix) (functions_declared fs)"
  unfolding declare_function_def
  by (intro builds_if builds_bind [OF builds_error] builds_bind [OF builds_new_callable [OF stays_declared(1)]] builds_done)
    (auto simp: functions_declared_def)

lemma builds_declare_method:
  "m \<in> set (cl_methods c) \<Longrightarrow> builds S (class_declared c cs) (declare_method m cs) (class_declared c)"
  unfolding declare_method_def
  by (rule builds_bind [OF builds_new_callable [OF stays_declared(2)]], rule builds_done) (auto simp: class_declared_iff)

lemma builds_declare_ctor:
  "(\<exists>ct \<in> set (cl_ctors c). length (ct_params ct) = n) \<or> cl_ctors c = [] \<and> cl_fields c \<noteq> [] \<and> n = length (cl_fields c) \<Longrightarrow>
     builds S (class_declared c cs) (declare_ctor n cs) (class_declared c)"
  unfolding declare_ctor_def
  by (rule builds_bind [OF builds_reserve [OF stays_declared(2)]], rule builds_done) (auto simp: class_declared_iff)

lemma builds_ctors:
  "builds S (class_declared c cs) (fold_do (\<lambda>ct. declare_ctor (length (ct_params ct))) (cl_ctors c) cs)
     (\<lambda>cs b. class_declared c cs b \<and> (cl_ctors c \<noteq> [] \<longrightarrow> cs_ctors cs \<noteq> []))"
proof (cases "cl_ctors c")
  case (Cons ct cts)
  have one: "builds S (class_declared c cs) (declare_ctor (length (ct_params x)) cs)
      (\<lambda>cs b. class_declared c cs b \<and> cs_ctors cs \<noteq> [])" if "x \<in> set (cl_ctors c)" for x cs
    unfolding declare_ctor_def
    by (rule builds_bind [OF builds_reserve [OF stays_declared(2)]], rule builds_done) (use that in \<open>auto simp: class_declared_iff\<close>)
  have rest: "builds S (\<lambda>b. class_declared c cs b \<and> cs_ctors cs \<noteq> []) (fold_do (\<lambda>ct. declare_ctor (length (ct_params ct))) cts cs)
      (\<lambda>cs b. class_declared c cs b \<and> cs_ctors cs \<noteq> [])" for cs
    by (rule builds_fold, rule builds_weaken [OF one]) (auto simp: Cons)
  show ?thesis
    unfolding Cons fold_do.simps
    by (rule builds_bind [OF one]) (auto simp: Cons intro: builds_weaken [OF rest])
qed (simp add: builds_done)

lemma class_signature_builds:
  "builds S (\<lambda>_. True) (class_signature c) (class_declared c)"
proof -
  define e where "e = \<lparr>cs_methods = [], cs_ctors = [], cs_fields = map fd_name (cl_fields c)\<rparr>"
  have e: "class_declared c e b" for b
    by (simp add: e_def class_declared_iff)
  have methods: "builds S (\<lambda>_. True) (fold_do declare_method (cl_methods c) e) (class_declared c)"
    by (rule builds_weaken [OF builds_fold [where I = "class_declared c"]]) (auto intro: builds_declare_method simp: e)
  have last: "builds S (\<lambda>b. class_declared c cs b \<and> (cl_ctors c \<noteq> [] \<longrightarrow> cs_ctors cs \<noteq> []))
      (if cs_ctors cs = [] \<and> cl_fields c \<noteq> [] then declare_ctor (length (cl_fields c)) cs else done_with cs) (class_declared c)" for cs
  proof (rule builds_if)
    assume none: "cs_ctors cs = [] \<and> cl_fields c \<noteq> []"
    show "builds S (\<lambda>b. class_declared c cs b \<and> (cl_ctors c \<noteq> [] \<longrightarrow> cs_ctors cs \<noteq> []))
        (declare_ctor (length (cl_fields c)) cs) (class_declared c)"
    proof (cases "cl_ctors c = []")
      case True
      with none show ?thesis
        by (intro builds_weaken [OF builds_declare_ctor]) auto
    next
      case False
      with none have never: "\<not> (class_declared c cs b \<and> (cl_ctors c \<noteq> [] \<longrightarrow> cs_ctors cs \<noteq> []))" for b :: "'b build"
        by simp
      show ?thesis
        by (rule buildsI) (auto simp: declare_ctor_def none False intro: firm_rules)
    qed
  qed (auto intro: builds_done)
  show ?thesis
    unfolding class_signature_def e_def [symmetric]
    by (rule builds_bind [OF methods builds_bind [OF builds_ctors last]])
qed

lemma class_signatures_build: "builds S (\<lambda>_. True) (build_class_signatures cls) (classes_declared cls)"
  unfolding build_class_signatures_def
proof (rule builds_weaken [OF builds_fold [where I = "classes_declared cls"]])
  fix c :: class_decl and out :: "(string \<times> class_sig) list"
  assume c: "c \<in> set cls"
  have new: "builds S (classes_declared cls out) (class_signature c) (\<lambda>cs b. class_declared c cs b \<and> classes_declared cls out b)"
    using builds_frame [OF class_signature_builds stays_declared(3)] by (rule builds_weaken) auto
  show "builds S (classes_declared cls out)
      (if map_of out (cl_name c) \<noteq> None then done_with out
       else do { cs \<leftarrow> class_signature c; done_with ((cl_name c, cs) # out) }) (classes_declared cls)"
    by (intro builds_if builds_done builds_bind [OF new]) (use c in \<open>auto simp: classes_declared_def\<close>)
qed (auto simp: classes_declared_def)

section \<open>Bodies\<close>

definition functions_fit :: "(string \<times> fn_sig) list \<Rightarrow> 't build \<Rightarrow> bool" where
  "functions_fit ix b \<longleftrightarrow> (\<forall>name sg. map_of ix name = Some sg \<longrightarrow> fits (sg_index sg) (length (sg_defaults sg)) b)"

definition class_fits :: "class_sig \<Rightarrow> 't build \<Rightarrow> bool" where
  "class_fits cs b \<longleftrightarrow>
     (\<forall>name sg. map_of (cs_methods cs) name = Some sg \<longrightarrow> fits (sg_index sg) (Suc (length (sg_defaults sg))) b) \<and>
     (\<forall>n i. map_of (cs_ctors cs) n = Some i \<longrightarrow> fits i n b)"

definition classes_fit :: "(string \<times> class_sig) list \<Rightarrow> 't build \<Rightarrow> bool" where
  "classes_fit sigs b \<longleftrightarrow> (\<forall>name cs. map_of sigs name = Some cs \<longrightarrow> class_fits cs b)"

lemma stays_fit: "stays (functions_fit ix)" "stays (class_fits cs)" "stays (classes_fit sigs)"
proof -
  have f: "fits i n b \<Longrightarrow> table_grows b b' \<Longrightarrow> fits i n b'" for i n b b'
    using staysD [OF stays_facts(2)] .
  show "stays (functions_fit ix)" "stays (class_fits cs)" "stays (classes_fit sigs)"
    unfolding stays_def functions_fit_def classes_fit_def class_fits_def by (meson f)+
qed

lemma builds_lookup:
  assumes "\<And>x. v = Some x \<Longrightarrow> builds S P (f x) (\<lambda>_. G x)"
  shows "builds S P (case v of None \<Rightarrow> done_with () | Some x \<Rightarrow> f x) (\<lambda>_ b. \<forall>x. v = Some x \<longrightarrow> G x b)"
  using assms by (cases v) (auto intro: builds_done)

lemma functions_emitted:
  assumes "env_ok S ev"
  shows "builds S (functions_declared fs ix)
    (for_each (\<lambda>f. case map_of ix (fn_name f) of None \<Rightarrow> done_with ()
       | Some sg \<Rightarrow> emit_into (sg_index sg) (emit_function n ev f)) fs) (\<lambda>_. functions_fit ix)"
proof -
  have one: "builds S (functions_declared fs ix) (case map_of ix (fn_name f) of None \<Rightarrow> done_with ()
       | Some sg \<Rightarrow> emit_into (sg_index sg) (emit_function n ev f))
     (\<lambda>_ b. \<forall>sg. map_of ix (fn_name f) = Some sg \<longrightarrow> fits (sg_index sg) (length (fn_params f)) b)" for f
    by (rule builds_lookup, rule builds_weaken [OF builds_emit_into [OF entry_points(2) [OF assms]]])
      (auto simp: functions_declared_def sig_for_def)
  have all: "builds S (functions_declared fs ix)
    (for_each (\<lambda>f. case map_of ix (fn_name f) of None \<Rightarrow> done_with ()
       | Some sg \<Rightarrow> emit_into (sg_index sg) (emit_function n ev f)) fs)
    (\<lambda>_ b. \<forall>f \<in> set fs. \<forall>sg. map_of ix (fn_name f) = Some sg \<longrightarrow> fits (sg_index sg) (length (fn_params f)) b)"
    by (rule builds_for_each [OF one stays_declared(1)]) (intro stays_facts)
  show ?thesis
    using builds_frame [OF all stays_declared(1) [of fs ix]]
    by (rule builds_weaken) (fastforce simp: functions_fit_def functions_declared_def sig_for_def)+
qed

lemma stays_indexed: "stays (class_indexed cs)"
  unfolding class_indexed_def by (rule stays_length) (meson less_le_trans)

lemma class_emitted:
  assumes "env_ok S ev"
  shows "builds S (class_indexed cs) (do {
         emit_class_methods n ev cs c;
         for_each (emit_class_ctor n ev cs c) (cl_ctors c);
         if cl_ctors c = [] \<and> cl_fields c \<noteq> [] then emit_class_ctor n ev cs c (implicit_ctor c) else done_with () })
     (\<lambda>_ b. class_shape c cs \<longrightarrow> class_fits cs b)"
proof -
  let ?P = "class_indexed cs"
  define M where "M = (\<lambda>(m :: fn_decl) b. \<forall>sg. map_of (cs_methods cs) (fn_name m) = Some sg \<longrightarrow> fits (sg_index sg) (Suc (length (fn_params m))) (b :: 'a build))"
  define C where "C = (\<lambda>(ct :: ctor_decl) b. \<forall>i. map_of (cs_ctors cs) (length (ct_params ct)) = Some i \<longrightarrow> fits i (length (ct_params ct)) (b :: 'a build))"
  have stays: "stays (M m)" "stays (C ct)" for m ct
    unfolding M_def C_def by (intro stays_facts)+
  have meths: "builds S ?P (emit_class_methods n ev cs c) (\<lambda>_ b. \<forall>m \<in> set (cl_methods c). M m b)"
    unfolding emit_class_methods_def
  proof (rule builds_for_each [OF _ stays_indexed stays(1)])
    fix m
    show "builds S ?P (case map_of (cs_methods cs) (fn_name m) of None \<Rightarrow> done_with ()
         | Some sg \<Rightarrow> emit_into (sg_index sg) (emit_method n ev (cl_name c) m)) (\<lambda>_. M m)"
      unfolding M_def
      by (rule builds_lookup, rule builds_weaken [OF builds_emit_into [OF entry_points(3) [OF assms]]])
        (auto simp: class_indexed_def)
  qed
  have ctor: "builds S ?P (emit_class_ctor n ev cs c ct) (\<lambda>_. C ct)" for ct
    unfolding emit_class_ctor_def C_def
    by (rule builds_lookup, rule builds_weaken [OF builds_emit_into [OF entry_points(4) [OF assms]]])
      (auto simp: class_indexed_def)
  have ctors: "builds S ?P (for_each (emit_class_ctor n ev cs c) (cl_ctors c)) (\<lambda>_ b. \<forall>ct \<in> set (cl_ctors c). C ct b)"
    by (rule builds_for_each [OF ctor stays_indexed stays(2)])
  have last: "builds S ?P (if cl_ctors c = [] \<and> cl_fields c \<noteq> [] then emit_class_ctor n ev cs c (implicit_ctor c) else done_with ())
      (\<lambda>_ b. cl_ctors c = [] \<and> cl_fields c \<noteq> [] \<longrightarrow> C (implicit_ctor c) b)"
    by (intro builds_if builds_weaken [OF ctor] builds_done) auto
  let ?M = "\<lambda>b. \<forall>m \<in> set (cl_methods c). M m b" and ?C = "\<lambda>b. \<forall>ct \<in> set (cl_ctors c). C ct b"
  have sM: "stays ?M" and sC: "stays ?C"
    by (intro stays_facts stays)+
  have step1: "builds S ?P (emit_class_methods n ev cs c) (\<lambda>_ b. ?M b \<and> ?P b)"
    using builds_frame [OF meths stays_indexed [of cs]] by (rule builds_weaken) auto
  have step2: "builds S (\<lambda>b. ?M b \<and> ?P b) (for_each (emit_class_ctor n ev cs c) (cl_ctors c)) (\<lambda>_ b. ?C b \<and> ?M b \<and> ?P b)"
    using builds_frame [OF builds_frame [OF ctors stays_indexed [of cs]] sM] by (rule builds_weaken) auto
  have step3: "builds S (\<lambda>b. ?C b \<and> ?M b \<and> ?P b)
      (if cl_ctors c = [] \<and> cl_fields c \<noteq> [] then emit_class_ctor n ev cs c (implicit_ctor c) else done_with ())
      (\<lambda>_ b. (cl_ctors c = [] \<and> cl_fields c \<noteq> [] \<longrightarrow> C (implicit_ctor c) b) \<and> ?C b \<and> ?M b \<and> ?P b)"
    using builds_frame [OF builds_frame [OF builds_frame [OF last stays_indexed [of cs]] sM] sC] by (rule builds_weaken) auto
  have finish: "class_fits cs b"
    if "class_shape c cs" "cl_ctors c = [] \<and> cl_fields c \<noteq> [] \<longrightarrow> C (implicit_ctor c) b" "?C b" "?M b" "?P b" for b
  proof -
    have "length (ct_params (implicit_ctor c)) = length (cl_fields c)"
      by (simp add: implicit_ctor_def)
    with that show ?thesis
      unfolding class_fits_def class_shape_def M_def C_def by metis
  qed
  show ?thesis
    by (rule builds_weaken [OF builds_bind [OF step1 builds_bind [OF step2 step3]]]) (auto intro: finish)
qed

lemma classes_emitted:
  assumes "env_ok S ev"
  shows "builds S (classes_declared cls sigs) (emit_class_bodies n ev sigs cls) (\<lambda>_. classes_fit sigs)"
proof -
  define G where "G = (\<lambda>(c :: class_decl) b. \<forall>cs. map_of sigs (cl_name c) = Some cs \<longrightarrow> class_shape c cs \<longrightarrow> class_fits cs (b :: 'a build))"
  have G: "stays (G c)" for c
    unfolding G_def by (intro stays_facts stays_fit)
  have all: "builds S (classes_declared cls sigs) (emit_class_bodies n ev sigs cls) (\<lambda>_ b. \<forall>c \<in> set cls. G c b)"
    unfolding emit_class_bodies_def
  proof (rule builds_for_each [OF _ stays_declared(3) G])
    fix c
    show "builds S (classes_declared cls sigs) (case map_of sigs (cl_name c) of
       None \<Rightarrow> done_with ()
     | Some cs \<Rightarrow> do {
         emit_class_methods n ev cs c;
         for_each (emit_class_ctor n ev cs c) (cl_ctors c);
         if cl_ctors c = [] \<and> cl_fields c \<noteq> [] then emit_class_ctor n ev cs c (implicit_ctor c) else done_with () }) (\<lambda>_. G c)"
      unfolding G_def
      by (rule builds_lookup, rule builds_weaken [OF class_emitted [OF assms]])
        (auto simp: classes_declared_def class_declared_def)
  qed
  show ?thesis
    using builds_frame [OF all stays_declared(3) [of cls sigs]]
    by (rule builds_weaken) (fastforce simp: classes_fit_def classes_declared_def class_declared_def G_def)+
qed

section \<open>The table of functions\<close>

text \<open>Function \<open>i\<close> of the table is called with \<open>n\<close> arguments by code that sees these signatures.\<close>

definition callable :: "(string \<times> fn_sig) list \<Rightarrow> (string \<times> class_sig) list \<Rightarrow> nat \<Rightarrow> nat \<Rightarrow> bool" where
  "callable ix sigs i n \<longleftrightarrow>
     (\<exists>name sg. map_of ix name = Some sg \<and> i = sg_index sg \<and> n = length (sg_defaults sg)) \<or>
     (\<exists>cls cs. map_of sigs cls = Some cs \<and>
        ((\<exists>name sg. map_of (cs_methods cs) name = Some sg \<and> i = sg_index sg \<and> n = Suc (length (sg_defaults sg))) \<or>
         map_of (cs_ctors cs) n = Some i))"

text \<open>Calls of methods and constructors are emitted without a check of their number of arguments.\<close>

definition small_classes :: "class_decl list \<Rightarrow> bool" where
  "small_classes cls \<longleftrightarrow>
     list_all (\<lambda>c. list_all (\<lambda>m. length (fn_params m) < 255) (cl_methods c) \<and>
                   list_all (\<lambda>ct. length (ct_params ct) < 256) (cl_ctors c) \<and> length (cl_fields c) < 256) cls"

definition templates_report :: "'t outside \<Rightarrow> bool" where
  "templates_report os \<longleftrightarrow> (\<forall>src n dir keys ds. os_template os src n dir keys = (ds, None) \<longrightarrow> ds \<noteq> [])"

lemma env_fields [simp]:
  "ev_functions (env_with os imps ix cs dir) = Some ix" "ev_classes (env_with os imps ix cs dir) = cs"
  "compile_template (env_with os imps ix cs dir) = os_template os"
  by (simp_all add: env_with_def)

lemma functions_env:
  assumes "functions_declared fs ix b" "length (bd_fns b) \<le> 2 ^ 24" "templates_report os"
  shows "env_ok (callable ix sigs) (env_with os imps ix None dir)"
  using assms unfolding env_ok_def
  by (fastforce simp: templates_report_def functions_declared_def sig_for_def sig_ok_def callable_def)

lemma classes_env:
  assumes fs: "functions_declared fs ix b" and cls: "classes_declared cls sigs b" and size: "length (bd_fns b) \<le> 2 ^ 24"
    and os: "templates_report os" and small: "small_classes cls"
  shows "env_ok (callable ix sigs) (env_with os imps ix (Some sigs) dir)"
proof -
  have arity: "length (sg_defaults sg) < 255 \<and> sig_ok (callable ix sigs) (sg_index sg) (length (sg_defaults sg) + 1)"
    if "map_of sigs cl = Some c" "map_of (cs_methods c) name = Some sg" for cl c name sg
  proof -
    obtain d where "d \<in> set cls" "class_declared d c b"
      using cls \<open>map_of sigs cl = Some c\<close> by (auto simp: classes_declared_def)
    with that have "length (sg_defaults sg) < 255" "sg_index sg < length (bd_fns b)"
      using small by (fastforce simp: class_declared_iff sig_for_def small_classes_def list_all_iff)+
    moreover have "callable ix sigs (sg_index sg) (length (sg_defaults sg) + 1)"
      using that unfolding callable_def Suc_eq_plus1 [symmetric] by blast
    ultimately show ?thesis
      using size by (simp add: sig_ok_def)
  qed
  have ctor: "n < 256 \<and> sig_ok (callable ix sigs) i n" if "map_of sigs cl = Some c" "map_of (cs_ctors c) n = Some i" for cl c n i
  proof -
    obtain d where "d \<in> set cls" "class_declared d c b"
      using cls \<open>map_of sigs cl = Some c\<close> by (auto simp: classes_declared_def)
    with that have "n < 256" "i < length (bd_fns b)"
      using small by (fastforce simp: class_declared_iff small_classes_def list_all_iff)+
    moreover have "callable ix sigs i n"
      using that unfolding callable_def by blast
    ultimately show ?thesis
      using size by (simp add: sig_ok_def)
  qed
  show ?thesis
    using functions_env [OF fs size os, of sigs imps dir] arity ctor unfolding env_ok_def by simp
qed

lemma firm_building:
  "firm (build_functions n os p)" "firm (build_class_signatures cls)" "firm (emit_class_bodies n ev sigs cls)"
  "firm (declare_function f ix)" "firm (emit_class_ctor n ev cs c ct)"
proof -
  show f: "firm (declare_function f ix)" for f ix
    unfolding declare_function_def new_callable_def by (intro firm_rules)
  show ct: "firm (emit_class_ctor n ev cs c ct)" for cs c ct
    unfolding emit_class_ctor_def by (intro firm_rules firm_emit_into wrong.keeps_entries)
  show "firm (build_functions n os p)"
    unfolding build_functions_def by (intro firm_rules firm_emit_into wrong.keeps_entries f)
  show "firm (build_class_signatures cls)"
    unfolding build_class_signatures_def class_signature_def declare_method_def declare_ctor_def new_callable_def
    by (intro firm_rules)
  show "firm (emit_class_bodies n ev sigs cls)"
    unfolding emit_class_bodies_def emit_class_methods_def by (intro firm_rules firm_emit_into wrong.keeps_entries ct)
qed

lemma small_table: "\<not> bd_bad b \<Longrightarrow> length (bd_fns b) \<le> 2 ^ 24"
  by (simp add: bd_bad_def)

lemma functions_built:
  assumes run: "run_state (build_functions n os p) b = (ix, b')" and good: "\<not> bd_bad b'"
    and os: "templates_report os" and w: "table_written (callable ix sigs) b"
  shows "table_written (callable ix sigs) b'" "functions_declared (fns p) ix b'" "functions_fit ix b'"
proof -
  let ?S = "callable ix sigs" and ?d = "fold_do declare_function (fns p) []"
  let ?e = "\<lambda>ix. for_each (\<lambda>f. case map_of ix (fn_name f) of None \<Rightarrow> done_with ()
       | Some sg \<Rightarrow> emit_into (sg_index sg) (emit_function n (env_with os (imports_of p) ix None None) f)) (fns p)"
  define b1 where "b1 = state_after ?d b"
  have ix: "result_of ?d b = ix" and b': "state_after (?e ix) b1 = b'"
    using run by (auto simp: build_functions_def b1_def split: prod.splits)
  have "firm (?e ix)"
    by (intro firm_rules firm_emit_into wrong.keeps_entries)
  with good b' have good1: "\<not> bd_bad b1"
    using firmD by blast
  have "builds ?S (functions_declared (fns p) []) ?d (functions_declared (fns p))"
    by (rule builds_fold [OF builds_declare_function])
  from buildsD [OF this _ w] good1 ix have one: "table_written ?S b1" "functions_declared (fns p) ix b1"
    unfolding b1_def by (auto simp: functions_declared_def)
  have ev: "env_ok ?S (env_with os (imports_of p) ix None None)"
    using functions_env [OF one(2) small_table [OF good1] os] .
  have "\<not> bd_bad (state_after (?e ix) b1)"
    using good b' by simp
  note two = buildsD [OF functions_emitted [OF ev] one(2,1) this, unfolded b']
  show "table_written ?S b'" "functions_fit ix b'" "functions_declared (fns p) ix b'"
    using two staysD [OF stays_declared(1) two(2) one(2)] by simp_all
qed

lemma fits_typed:
  assumes "table_written S b" "\<And>i n. S i n \<Longrightarrow> fits i n b"
  shows "table_typed S (Some (bd_fns b))"
  using assms by (auto simp: table_typed_def table_written_def list_all_length fits_def intro: segment_typed)

lemma build_code_typed:
  assumes run: "run_state (build_code n os p) b0 = ((ix, sigs), b3)" and start: "bd_fns b0 = []" and good: "\<not> bd_bad b3"
    and os: "templates_report os" and small: "small_classes (classes p)"
  shows "table_written (callable ix sigs) b3" and "callable ix sigs i m \<Longrightarrow> fits i m b3"
    and "env_ok (callable ix sigs) (env_with os (imports_of p) ix (Some sigs) dir)"
proof -
  let ?S = "callable ix sigs" and ?ev = "env_with os (imports_of p) ix (Some sigs) None"
  obtain b1 b2 where b1: "run_state (build_functions n os p) b0 = (ix, b1)"
    and b2: "run_state (build_class_signatures (classes p)) b1 = (sigs, b2)"
    and b3: "state_after (emit_class_bodies n ?ev sigs (classes p)) b2 = b3"
    using run by (auto simp: build_code_def split: prod.splits)
  have good2: "\<not> bd_bad b2"
    using firmD [OF firm_building(3), of n ?ev sigs "classes p" b2] good b3 by simp
  have good1: "\<not> bd_bad b1"
    using firmD [OF firm_building(2), of "classes p" b1] good2 b2 by simp
  have w0: "table_written ?S b0"
    by (simp add: table_written_def start)
  note one = functions_built [OF b1 good1 os w0]
  have good2': "\<not> bd_bad (state_after (build_class_signatures (classes p)) b1)"
    using good2 b2 by simp
  note two = buildsD [OF class_signatures_build TrueI one(1) good2', unfolded b2, simplified]
  have fs2: "functions_declared (fns p) ix b2"
    using staysD [OF stays_declared(1) two(2) one(2)] .
  have env: "env_ok ?S (env_with os (imports_of p) ix (Some sigs) dir)" for dir
    using classes_env [OF fs2 two(3) small_table [OF good2] os small] .
  have good3: "\<not> bd_bad (state_after (emit_class_bodies n ?ev sigs (classes p)) b2)"
    using good b3 by simp
  note three = buildsD [OF classes_emitted [OF env] two(3,1) good3, unfolded b3]
  have fit: "functions_fit ix b3"
    using staysD [OF stays_fit(1) grows_trans [OF two(2) three(2)] one(3)] .
  show "env_ok ?S (env_with os (imports_of p) ix (Some sigs) dir)"
    by (rule env)
  show "fits i m b3" if "?S i m"
    using that fit three(3) unfolding callable_def functions_fit_def classes_fit_def class_fits_def by blast
  show "table_written ?S b3"
    by (rule three(1))
qed

end
