(* ===== verification/RouteRuns.thy ===== *)
theory RouteRuns
  imports Routes CompileRuns
begin

text \<open>
  A module that compiles without a diagnostic: all its code is typed, so running a route of it never
  makes an access the bytecode should never make.
\<close>

section \<open>Chunks outside the table\<close>

definition flagged :: "'t estate \<Rightarrow> bool" where
  "flagged s \<longleftrightarrow> em_diags s \<noteq> [] \<or> em_undefined s \<or> em_spent s"

interpretation flagged: emission_keeps flagged
  by unfold_locales (auto simp: flagged_def)

lemma after_emit_fns [simp]: "bd_fns (after_emit s b) = bd_fns b"
  by (simp add: after_emit_def)

lemma emit_new_state:
  "run_state (emit_new p) b =
     (let r = run_state p (emitter_on new_chunk b) in ((fst r, em_chunk (snd r)), after_emit (snd r) b))"
  by (simp add: emit_new_def Let_def split: prod.split)

lemma firm_emit_new:
  assumes "flagged.keeps p"
  shows "firm (emit_new p)"
  unfolding firm_def
proof (intro allI impI)
  fix b :: "'a build"
  assume bad: "bd_bad b"
  let ?s = "emitter_on new_chunk b"
  have "flagged ?s \<Longrightarrow> flagged (exec p ?s)"
    using assms by (simp add: flagged.keeps_def)
  with bad show "bd_bad (state_after (emit_new p) b)"
    by (auto simp: emit_new_state Let_def after_emit_def bd_bad_def flagged_def)
qed

definition typed_code :: "(nat \<Rightarrow> nat \<Rightarrow> bool) \<Rightarrow> chunk \<Rightarrow> bool" where
  "typed_code S c \<longleftrightarrow> (\<not> big c \<longrightarrow> typed S c)"

lemma builds_emit_new:
  assumes "entry S n p" "flagged.keeps p"
  shows "builds S P (emit_new p) (\<lambda>r _. typed_code S (snd r))"
proof (rule buildsI [OF firm_emit_new [OF assms(2)]])
  fix b :: "'a build"
  let ?s = "exec p (emitter_on new_chunk b)" and ?b = "state_after (emit_new p) b"
  assume w: "table_written S b" and good: "\<not> bd_bad ?b"
  have "typed S (em_chunk ?s)" if "\<not> big (em_chunk ?s)"
  proof -
    have "\<not> bad ?s"
      using good that by (auto simp: emit_new_state Let_def after_emit_def bd_bad_def bad_def big_def)
    with assms(1) have "written S (em_chunk ?s)"
      by (auto simp: entry_def)
    then show ?thesis by (rule segment_typed)
  qed
  then show "table_written S ?b \<and> table_grows b ?b \<and> typed_code S (snd (result_of (emit_new p) b))"
    using w by (simp add: table_written_def table_grows_def typed_code_def emit_new_state Let_def)
qed

text \<open>Steps that need nothing, and the kinds of results that hold chunks.\<close>

abbreviation yields :: "(nat \<Rightarrow> nat \<Rightarrow> bool) \<Rightarrow> ('t, 'a) builder \<Rightarrow> ('a \<Rightarrow> bool) \<Rightarrow> bool" where
  "yields S p Q \<equiv> builds S (\<lambda>_. True) p (\<lambda>r _. Q r)"

lemma yields_bind:
  assumes "yields S p Q" "\<And>x. Q x \<Longrightarrow> yields S (f x) R" "\<And>x. firm (f x)"
  shows "yields S (State_Monad.bind p f) R"
proof (rule builds_bind [OF assms(1)])
  fix x
  show "builds S (\<lambda>_. Q x) (f x) (\<lambda>r _. R r)"
    using assms(2,3) by (cases "Q x") (auto simp: builds_def)
qed

lemma yields_done: "Q x \<Longrightarrow> yields S (done_with x) Q"
  by (simp add: builds_done)

lemma yields_if: "(c \<Longrightarrow> yields S p Q) \<Longrightarrow> (\<not> c \<Longrightarrow> yields S q Q) \<Longrightarrow> yields S (if c then p else q) Q"
  by simp

lemma yields_fold:
  assumes "Q acc" "\<And>x acc. Q acc \<Longrightarrow> yields S (f x acc) Q" "\<And>x acc. firm (f x acc)"
  shows "yields S (fold_do f xs acc) Q"
  using assms(1)
proof (induction xs arbitrary: acc)
  case (Cons x xs)
  show ?case
    unfolding fold_do.simps
    by (rule yields_bind [OF assms(2) [OF Cons.prems] Cons.IH]) (simp_all add: firm_fold assms(3))
qed (simp add: yields_done)

lemma yields_any:
  "yields S (bd_error l msg) (\<lambda>_. True)" "yields S p Q \<Longrightarrow> yields S p (\<lambda>_. True)"
  by (rule builds_error) (auto simp: builds_def)

lemma yields_for_each: "(\<And>x. yields S (f x) (\<lambda>_. True)) \<Longrightarrow> yields S (for_each f xs) (\<lambda>_. True)"
  by (rule builds_weaken [OF builds_for_each [where G = "\<lambda>_ _. True"]]) (auto simp: stays_def)

lemma yields_emit_new:
  "env_ok S ev \<Longrightarrow> yields S (emit_new (emit_route n ev r)) (\<lambda>x. typed_code S (snd x))"
  "env_ok S ev \<Longrightarrow> yields S (emit_new (emit_condition n ev e names)) (\<lambda>x. typed_code S (snd x))"
  "env_ok S ev \<Longrightarrow> yields S (emit_new (emit_error_handler n ev d)) (\<lambda>x. typed_code S (snd x))"
  by (rule builds_emit_new [OF entry_points(1)] builds_emit_new [OF entry_points(5)] builds_emit_new [OF entry_points(6)];
      simp add: flagged.keeps_entries)+

lemmas firm_emits = firm_emit_new [OF flagged.keeps_entries(1)] firm_emit_new [OF flagged.keeps_entries(5)]
  firm_emit_new [OF flagged.keeps_entries(6)]

section \<open>Classes, routes and handlers\<close>

definition class_typed :: "(nat \<Rightarrow> nat \<Rightarrow> bool) \<Rightarrow> string \<times> class_info \<Rightarrow> bool" where
  "class_typed S c = list_all (\<lambda>(code, _). typed_code S code) (ci_rules (snd c))"

primrec route_chunk :: "route_code \<Rightarrow> chunk option" where
  "route_chunk (Native_route a) = None"
| "route_chunk (Vm_route c bs up) = Some c"
| "route_chunk (Sse_route c bs) = Some c"
| "route_chunk (Ws_route os c bs) = Some c"

definition route_typed :: "(nat \<Rightarrow> nat \<Rightarrow> bool) \<Rightarrow> route_entry \<Rightarrow> bool" where
  "route_typed S r = (case route_chunk (snd (snd r)) of None \<Rightarrow> True | Some c \<Rightarrow> typed_code S c)"

lemma firm_prod: "(\<And>x y. firm (f x y)) \<Longrightarrow> firm (case v of (x, y) \<Rightarrow> f x y)"
  by (cases v) simp

lemma firm_binding: "firm (report_uncollected r)" "firm (bind_params r cls)"
proof -
  show r: "firm (report_uncollected r)" for r
    unfolding report_uncollected_def by (intro firm_rules)
  have "firm (bind_step r cls p acc)" for p acc
    unfolding bind_step_def by (auto intro!: firm_prod firm_rules split: sum.split)
  then show "firm (bind_params r cls)"
    unfolding bind_params_def by (intro firm_rules firm_prod r)
qed

lemma firm_entry: "firm (emit_entry n ev r meth code out)"
  unfolding emit_entry_def by (intro firm_rules firm_prod firm_emits)

lemma firm_build_class: "firm (build_class n ev c out)" "firm (build_rule n ev names r rs)"
proof -
  show rule: "firm (build_rule n ev names r rs)" for names r rs
    unfolding build_rule_def by (intro firm_rules firm_prod firm_emits)
  show "firm (build_class n ev c out)"
    unfolding build_class_def bad_field_def by (intro firm_rules rule)
qed

lemma firm_build_route: "firm (build_route n F os dir ev cls r out)" "firm (build_handler n ev d hs)"
  unfolding build_route_def build_ws_def build_sse_def build_plain_def build_handler_def
  by (intro firm_rules firm_prod firm_binding firm_entry firm_emits)+

lemma yields_prod: "(\<And>x y. v = (x, y) \<Longrightarrow> yields S (f x y) Q) \<Longrightarrow> yields S (case v of (x, y) \<Rightarrow> f x y) Q"
  by (cases v) simp

lemma build_rule_yields:
  assumes "env_ok S ev" "list_all (\<lambda>(code, _). typed_code S code) rs"
  shows "yields S (build_rule n ev names r rs) (list_all (\<lambda>(code, _). typed_code S code))"
  unfolding build_rule_def
  by (rule yields_bind [OF yields_emit_new(2) [OF assms(1)]]) (use assms(2) in \<open>auto intro: yields_done firm_done firm_prod\<close>)

lemma build_class_yields:
  assumes "env_ok S ev" "list_all (class_typed S) out"
  shows "yields S (build_class n ev c out) (list_all (class_typed S))"
proof -
  have fields: "yields S (for_each bad_field fs) (\<lambda>_. True)" for fs
    unfolding bad_field_def by (rule yields_for_each) (auto intro: yields_any yields_done)
  have rules: "yields S (fold_do (build_rule n ev names) rs []) (list_all (\<lambda>(code, _). typed_code S code))" for names rs
    by (rule yields_fold) (simp_all add: build_rule_yields [OF assms(1)] firm_build_class)
  show ?thesis
    unfolding build_class_def
    by (rule yields_if yields_bind [OF yields_any(1)] yields_bind [OF fields] yields_bind [OF rules] yields_done
        firm_rules firm_build_class | (use assms(2) in \<open>simp add: class_typed_def; fail\<close>))+
qed

lemma entry_yields:
  assumes "env_ok S ev" "list_all (route_typed S) out" "\<And>c. route_chunk (code c) = Some c"
  shows "yields S (emit_entry n ev r meth code out) (list_all (route_typed S))"
  unfolding emit_entry_def
  by (rule yields_bind [OF yields_emit_new(1) [OF assms(1)]])
    (use assms(2,3) in \<open>auto intro: yields_done firm_done firm_prod simp: route_typed_def\<close>)

lemma yields_firm: "yields S p Q \<Longrightarrow> firm p"
  by (simp add: builds_def)

lemma binding_yields: "yields S (report_uncollected r) (\<lambda>_. True)" "yields S (bind_params r cls) (\<lambda>_. True)"
proof -
  show r: "yields S (report_uncollected r) (\<lambda>_. True)" for r
    unfolding report_uncollected_def by (rule yields_for_each yields_any)+
  have one: "yields S (bind_step r cls p acc) (\<lambda>_. True)" for p acc
    unfolding bind_step_def
    by (auto intro!: yields_prod yields_done yields_bind [OF yields_any(1)] firm_done split: sum.split)
  have "firm (bind_step r cls p acc)" for p acc
    by (rule yields_firm [OF one])
  then have fold: "yields S (fold_do (bind_step r cls) ps acc) (\<lambda>_. True)" for ps acc
    by (intro yields_fold one) simp_all
  show "yields S (bind_params r cls) (\<lambda>_. True)"
    unfolding bind_params_def
    by (rule yields_bind [OF r] yields_bind [OF fold] yields_prod yields_done firm_bind [OF yields_firm [OF fold]] firm_prod firm_done TrueI)+
qed

lemma yields_option:
  "(v = None \<Longrightarrow> yields S p Q) \<Longrightarrow> (\<And>x. v = Some x \<Longrightarrow> yields S (f x) Q) \<Longrightarrow> yields S (case v of None \<Rightarrow> p | Some x \<Rightarrow> f x) Q"
  by (cases v) simp_all

lemma build_route_yields:
  assumes "env_ok S ev" "list_all (route_typed S) out"
  shows "yields S (build_route n F os dir ev cls r out) (list_all (route_typed S))"
proof -
  have entry: "yields S (emit_entry n ev r meth code out) (list_all (route_typed S))" if "\<And>c. route_chunk (code c) = Some c" for meth code
    using entry_yields [OF assms that] .
  have out: "yields S (done_with out) (list_all (route_typed S))"
    using assms(2) by (rule yields_done)
  have native: "list_all (route_typed S) (out @ [(meth, pat, Native_route a)])" for meth pat a
    using assms(2) by (simp add: route_typed_def)
  show ?thesis
    unfolding build_route_def build_ws_def build_sse_def build_plain_def
    by (rule yields_if yields_option yields_bind [OF yields_any(1)] yields_bind [OF binding_yields(1)] yields_bind [OF binding_yields(2)]
        yields_bind [where Q = "\<lambda>_. True"] entry out yields_done native yields_any(1) firm_rules firm_entry firm_binding TrueI | (simp; fail))+
qed

lemma handlers_yield:
  assumes "env_ok S ev"
  shows "yields S (build_error_handlers n ev ds) (list_all (\<lambda>(_, c). typed_code S c))"
  unfolding build_error_handlers_def build_handler_def
  by (rule yields_fold, simp, rule yields_bind [OF yields_emit_new(3) [OF assms]])
    (auto intro!: yields_prod yields_done firm_rules firm_prod firm_emits)

lemma routes_yield: "env_ok S ev \<Longrightarrow> yields S (build_routes n F os dir ev cls rs) (list_all (route_typed S))"
  unfolding build_routes_def by (rule yields_fold) (simp_all add: build_route_yields firm_build_route)

lemma classes_yield: "env_ok S ev \<Longrightarrow> yields S (build_classes n ev cls) (list_all (class_typed S))"
  unfolding build_classes_def by (rule yields_fold) (simp_all add: build_class_yields firm_build_class)

lemma yields_if_clean:
  assumes "yields S p Q" "Q x"
  shows "yields S (if_clean x p) Q"
proof (rule buildsI)
  have p: "firm p" by (rule yields_firm [OF assms(1)])
  then show "firm (if_clean x p)"
    by (simp add: firm_def if_clean_def)
  fix b :: "'a build"
  assume w: "table_written S b" and good: "\<not> bd_bad (state_after (if_clean x p) b)"
  show "table_written S (state_after (if_clean x p) b) \<and> table_grows b (state_after (if_clean x p) b) \<and> Q (result_of (if_clean x p) b)"
  proof (cases "bd_diags b = []")
    case True
    with good have "\<not> bd_bad (state_after p b)"
      by (simp add: if_clean_def)
    with True buildsD [OF assms(1) TrueI w] show ?thesis
      by (simp add: if_clean_def)
  next
    case False
    with assms(2) w show ?thesis
      by (simp add: if_clean_def grows_refl)
  qed
qed

section \<open>Modules\<close>

lemma firm_build_code: "firm (build_code n os p)"
  unfolding build_code_def by (intro firm_rules firm_building)

lemma build_module_typed:
  assumes run: "run_state (build_module n F os p) (new_build []) = ((rs, hs, cls), b)" and good: "\<not> bd_bad b"
    and os: "templates_report os" and small: "small_classes (classes p)"
  obtains S where "table_typed S (Some (bd_fns b))" "list_all (route_typed S) rs" "list_all (\<lambda>(_, c). typed_code S c) hs"
    "list_all (class_typed S) cls"
proof -
  obtain ix sigs b1 where code: "run_state (build_code n os p) (new_build []) = ((ix, sigs), b1)"
    by (metis surj_pair)
  let ?S = "callable ix sigs" and ?dir = "Ast.templates_dir (app p)"
  let ?ev = "\<lambda>dir. env_with os (imports_of p) ix (Some sigs) dir"
  let ?rest = "do {
      cls \<leftarrow> build_classes n (?ev None) (classes p);
      rs \<leftarrow> if_clean [] (build_routes n F os ?dir (?ev (Some ?dir)) cls (Ast.routes p));
      hs \<leftarrow> if_clean [] (build_error_handlers n (?ev (Some ?dir)) (errors p));
      done_with (rs, hs, cls) }"
  have rest: "run_state ?rest b1 = ((rs, hs, cls), b)"
    using run code by (simp add: build_module_def Let_def)
  have firm_clean: "firm p \<Longrightarrow> firm (if_clean x p)" for x and p :: "('a, 'b) builder"
    by (simp add: firm_def if_clean_def)
  have "firm ?rest"
    unfolding build_classes_def build_routes_def build_error_handlers_def
    by (intro firm_rules firm_build_class firm_clean firm_build_route)
  with rest good have good1: "\<not> bd_bad b1"
    using firmD [of ?rest b1] by simp
  have start: "bd_fns (new_build []) = []"
    by (simp add: new_build_def)
  note built = build_code_typed [OF code start good1 os small]
  have "yields ?S ?rest (\<lambda>(rs, hs, cls). list_all (route_typed ?S) rs \<and> list_all (\<lambda>(_, c). typed_code ?S c) hs \<and> list_all (class_typed ?S) cls)"
    by (rule yields_bind [OF classes_yield [OF built(3)]] yields_bind [OF yields_if_clean [OF routes_yield [OF built(3)]]]
        yields_bind [OF yields_if_clean [OF handlers_yield [OF built(3)]]] yields_done firm_rules firm_clean
        yields_firm [OF routes_yield [OF built(3)]] yields_firm [OF handlers_yield [OF built(3)]] | simp)+
  note final = buildsD [OF this TrueI built(1)]
  have b: "state_after ?rest b1 = b" "result_of ?rest b1 = (rs, hs, cls)"
    using rest by simp_all
  have good': "\<not> bd_bad (state_after ?rest b1)"
    using b good by simp
  note final = final [OF good', unfolded b]
  have "table_typed ?S (Some (bd_fns b))"
    by (rule fits_typed [OF final(1)]) (rule staysD [OF stays_facts(2) final(2) built(2)])
  with final(3) show ?thesis
    by (intro that [of ?S]) simp_all
qed

text \<open>All the code of a module: the table, the routes, the handlers of errors and the rules of the classes.\<close>

definition module_chunks :: "'t module \<Rightarrow> chunk list" where
  "module_chunks m = bd_fns (mo_build m)
     @ concat (map (\<lambda>r. case route_chunk (snd (snd r)) of None \<Rightarrow> [] | Some c \<Rightarrow> [c]) (mo_routes m))
     @ map snd (mo_handlers m)
     @ concat (map (\<lambda>c. map fst (ci_rules (snd c))) (mo_classes m))"

text \<open>
  Emission ended and followed no null pointer; indices fit the 24 bits of a call, and the calls of
  methods and constructors the 8 of their number of arguments.
\<close>

definition within_limits :: "'t module \<Rightarrow> bool" where
  "within_limits m \<longleftrightarrow>
     \<not> bd_undefined (mo_build m) \<and> \<not> bd_spent (mo_build m) \<and> length (bd_fns (mo_build m)) \<le> 2 ^ 24 \<and>
     list_all (\<lambda>c. length (ch_constants c) \<le> 2 ^ 24) (module_chunks m) \<and> small_classes (classes (mo_program m))"

text \<open>A module that compiling files publishes is the module of the program that was read.\<close>

lemma published_module:
  assumes "publishable (compile n F rd env reg os inputs)"
  shows "compile n F rd env reg os inputs = module_of n F os (mo_program (compile n F rd env reg os inputs))"
  using assms
  by (auto simp: compile_def publishable_def new_build_def module_of_def Let_def split: prod.splits if_splits)

lemma module_typed:
  assumes m: "m = module_of n F os p" and "publishable m" "within_limits m" "templates_report os"
  obtains S where "table_typed S (Some (bd_fns (mo_build m)))" "\<And>c. c \<in> set (module_chunks m) \<Longrightarrow> typed S c"
proof -
  obtain rs hs cls b where run: "run_state (build_module n F os p) (new_build []) = ((rs, hs, cls), b)"
    by (metis surj_pair)
  then have parts: "mo_program m = p" "mo_routes m = rs" "mo_handlers m = hs" "mo_classes m = cls" "mo_build m = b"
    using m by (simp_all add: module_of_def)
  have small: "\<not> big c" if "c \<in> set (module_chunks m)" for c
    using assms(3) that by (auto simp: within_limits_def big_def list_all_iff)
  have "\<not> bd_bad b"
    using assms(2,3) parts small by (auto simp: publishable_def within_limits_def bd_bad_def list_ex_iff module_chunks_def)
  moreover have "small_classes (classes p)"
    using assms(3) parts(1) by (simp add: within_limits_def)
  ultimately obtain S where S: "table_typed S (Some (bd_fns b))" "list_all (route_typed S) rs"
      "list_all (\<lambda>(_, c). typed_code S c) hs" "list_all (class_typed S) cls"
    using build_module_typed [OF run _ assms(4)] by blast
  have "typed_code S c" if "c \<in> set (module_chunks m)" for c
  proof -
    have "c \<in> set (bd_fns b) \<Longrightarrow> typed S c"
      using S(1) by (auto simp: table_typed_def in_set_conv_nth)
    moreover have "typed_code S c" if "r \<in> set rs" "route_chunk (snd (snd r)) = Some c" for r
      using S(2) that by (auto simp: list_all_iff route_typed_def split: option.splits)
    moreover have "typed_code S c" if "(k, c) \<in> set hs" for k
      using S(3) that by (auto simp: list_all_iff)
    moreover have "typed_code S c" if "k \<in> set cls" "(c, msg) \<in> set (ci_rules (snd k))" for k msg
      using S(4) that by (fastforce simp: list_all_iff class_typed_def)
    ultimately show ?thesis
      using that parts by (auto simp: module_chunks_def typed_code_def split: option.splits)
  qed
  with small S(1) parts(5) that show ?thesis
    by (auto simp: typed_code_def)
qed

text \<open>C1. Code that compiles is well formed: in a module that is published, every chunk of the table of
  functions, of a route, of a handler of errors and of a rule has one height of the operand stack at every
  instruction, whatever way leads to it, operands within the constants and the local slots, conditional
  jumps that go forward, and calls that the called function has slots for.\<close>

theorem published_code_typed:
  assumes "m = module_of n F os p" "publishable m" "within_limits m" "templates_report os"
  shows "\<exists>S. table_typed S (Some (bd_fns (mo_build m))) \<and> list_all (typed S) (module_chunks m)"
  using module_typed [OF assms] by (metis list_all_iff)

text \<open>C2. Running published code never reads past the operand stack, the local slots, the constants or the
  table of built-ins: in whatever a run of a route, a handler, a rule or a function comes to, through calls,
  caught errors and suspensions, the next instruction is defined, unless it calls \<open>ws.recv\<close> directly.\<close>

theorem published_code_defined:
  assumes "m = module_of n F os p" "publishable m" "within_limits m" "templates_report os"
    and "c \<in> set (module_chunks m)" "natives_bound N"
    and "vm_reaches N (vm_start c args (Some (bd_fns (mo_build m))) h ctx) x" "\<not> reads_recv x"
  shows "vm_step N x \<noteq> Undefined"
  using module_typed [OF assms(1-4)] typed_never_undefined assms(5-8) by metis


end
