(* ===== verification/RouteExample.thy ===== *)
theory RouteExample
  imports RouteRuns "HOL-Library.Code_Target_Nat"
begin

text \<open>
  A program with one function and one route, compiled by evaluation, at which the theorems about
  published code are applied.
\<close>

definition no_templates :: "unit outside" where
  "no_templates = \<lparr>os_read = \<lambda>_. None, os_render = \<lambda>_ _. Inl [],
     os_template = \<lambda>_ n _ _. ([\<lparr>dg_loc = no_loc, dg_message = n\<rparr>], None)\<rparr>"

definition no_decimals :: fp_text where
  "no_decimals = \<lparr>fp_ostream = \<lambda>_. [], fp_to_chars = \<lambda>_. None, fp_from_chars = \<lambda>_. None\<rparr>"

definition int_param :: "string \<Rightarrow> param" where
  "int_param x = \<lparr>pm_type = TypeRef ''int'' [] False no_loc, pm_name = x, default_value = None, pm_loc = no_loc\<rparr>"

definition twice_program :: program where
  "twice_program = new_program\<lparr>
     fns := [\<lparr>return_type = TypeRef ''int'' [] False no_loc, fn_name = ''doble'', fn_params = [int_param ''a''],
       fn_body = [simple_stmt S_Return no_loc
         (Some (binary no_loc ''+'' (leaf E_Ident no_loc ''a'') (leaf E_Ident no_loc ''a''))) None], fn_loc = no_loc\<rparr>],
     Ast.routes := [\<lparr>rt_method = ''GET'', rt_pattern = ''/x'', rt_params = [int_param ''n''], rt_origins = [], rt_guards = [],
       rt_body = [simple_stmt S_Return no_loc
         (Some (Expr E_Call no_loc [] 0 0 False (Some (leaf E_Ident no_loc ''doble'')) None None
           [([], leaf E_Ident no_loc ''n'', no_loc)] [] [])) None],
       rt_loc = no_loc, pattern_loc = no_loc\<rparr>]\<rparr>"

abbreviation twice_module :: "unit module" where
  "twice_module \<equiv> module_of 4 no_decimals no_templates twice_program"

abbreviation twice_chunk :: chunk where
  "twice_chunk \<equiv> hd (bd_fns (mo_build twice_module))"

lemma twice_published:
  "let m = twice_module in publishable m \<and> within_limits m \<and> bd_fns (mo_build m) \<noteq> [] \<and> 
     map i_op (take 1 (ch_code (hd (bd_fns (mo_build m))))) = [Op_LoadLocal]"
  by code_simp

definition all_bound :: "unit natives" where
  "all_bound = \<lparr>native_fn = \<lambda>_. Some (\<lambda>h c _. (h, c, HNull, [])), native_method = \<lambda>h c _ _ _. (h, c, HNull, [])\<rparr>"

lemma twice_facts:
  "publishable twice_module" "within_limits twice_module" "templates_report no_templates"
  "twice_chunk \<in> set (module_chunks twice_module)" "natives_bound all_bound"
  using twice_published
  by (auto simp: Let_def templates_report_def no_templates_def module_chunks_def natives_bound_def all_bound_def)

lemma twice_starts: "\<not> reads_recv (vm_start twice_chunk args tbl h ctx)"
proof -
  obtain i js where "ch_code twice_chunk = i # js" "i_op i = Op_LoadLocal"
    using twice_published by (cases "ch_code twice_chunk") (auto simp: Let_def)
  then show ?thesis
    by (simp add: reads_recv_def vm_start_def)
qed

lemma published_code_typed_witness:
  "\<exists>S. table_typed S (Some (bd_fns (mo_build twice_module))) \<and> list_all (typed S) (module_chunks twice_module)"
  by (rule published_code_typed [OF refl twice_facts(1-3)])

lemma published_code_defined_witness:
  "vm_step all_bound (vm_start twice_chunk [HInt 21] (Some (bd_fns (mo_build twice_module))) [] ()) \<noteq> Undefined"
  by (rule published_code_defined [OF refl twice_facts reach_start twice_starts])


end
