(* ===== verification/TemplateExample.thy ===== *)
theory TemplateExample
  imports TemplateFacts RouteExample
begin

text \<open>
  Templates compiled and rendered by evaluation, at which the theorems about templates are applied.
\<close>

definition plain_env :: tpl_env where
  "plain_env = \<lparr>te_depth = 4, te_strtod = \<lambda>_. 0, te_read = \<lambda>_. None, te_dir = []\<rparr>"

definition plain_render :: "unit render_env" where
  "plain_render = \<lparr>re_natives = all_bound, re_fp = no_decimals, re_fns = None, re_busy = False\<rparr>"

section \<open>An identifier is an expression\<close>

lemma peeked: "run_state (tok_peek k) s = (peek_at k s, s)"
  by (simp add: tok_peek_def)

lemma matched: "run_state (tok_match k) s = (if tk_kind (peek_at 0 s) = k then (True, snd (advance_state s)) else (False, s))"
  by (simp add: tok_match_def check_def peeked tok_advance_def split: prod.split)

lemma loop_stops: "run_state (body x) s = ((y, False), s') \<Longrightarrow> run_state (loop body x) s = (y, s')"
  by (simp add: loop_def tokens_left_def)

lemma binary_left_alone:
  assumes "run_state sub s = (e, s')" "tk_kind (peek_at 0 s') \<notin> set ops"
  shows "run_state (binary_left ops sub) s = (e, s')"
  using assms by (auto simp: binary_left_def peeked intro!: loop_stops)

text \<open>No token of an operator, of a call, an index, a field or a conditional.\<close>

definition ends_operand :: "tok \<Rightarrow> bool" where
  "ends_operand k \<longleftrightarrow> k = EndOfFile \<or> k = Newline"

lemma parse_ident:
  assumes "ps_rest s = t # u # us" "tk_kind t = Ident" "ends_operand (tk_kind u)"
  shows "run_state (parse_expr rd) s = (leaf E_Ident (tk_loc t) (tk_text t), s\<lparr>ps_prev := Some t, ps_rest := u # us\<rparr>)"
proof -
  let ?e = "leaf E_Ident (tk_loc t) (tk_text t)" and ?s = "s\<lparr>ps_prev := Some t, ps_rest := u # us\<rparr>"
  have t: "peek_at 0 s = t" and u: "peek_at 0 ?s = u"
    using assms(1) by (simp_all add: peek_at_def)
  have "run_state (parse_primary rd pe pu) s = (?e, ?s)" for pe pu
    using assms by (simp add: parse_primary_def peeked t tok_advance_def advance_state_def Let_def)
  moreover have "run_state (postfix_step pe ?e) ?s = ((?e, False), ?s)" for pe
    using assms(3) by (auto simp: postfix_step_def peeked u Let_def ends_operand_def)
  ultimately have "run_state (parse_postfix rd pe pu) s = (?e, ?s)" for pe pu
    by (simp add: parse_postfix_def loop_stops)
  then have "run_state (parse_unary rd pe) s = (?e, ?s)" for pe
    using assms(2) by (simp add: parse_unary_def tokens_left_def peeked t Let_def)
  then have "run_state (parse_equality rd pe) s = (?e, ?s)" for pe
    unfolding parse_equality_def parse_comparison_def parse_sum_def parse_product_def
    using assms(3) by (intro binary_left_alone) (auto simp: u ends_operand_def)
  then have "run_state (parse_not rd pe) s = (?e, ?s)" for pe
    using assms(2) by (simp add: parse_not_def tokens_left_def peeked t)
  then have "run_state (parse_or rd pe) s = (?e, ?s)" for pe
    unfolding parse_or_def parse_and_def
    using assms(3) by (intro binary_left_alone) (auto simp: u ends_operand_def)
  then show ?thesis
    using assms(3) by (auto simp: parse_expr_def tokens_left_def parse_ternary_def peeked u ends_operand_def)
qed

lemma parse_single_ident:
  assumes "ps_rest s = [t, nl, u]" "tk_kind t = Ident" "tk_kind nl = Newline" "tk_kind u = EndOfFile"
  shows "run_state (parse_single_expression rd) s =
    (Some (leaf E_Ident (tk_loc t) (tk_text t)), s\<lparr>ps_prev := Some nl, ps_rest := [u]\<rparr>)"
proof -
  let ?s = "s\<lparr>ps_prev := Some t, ps_rest := [nl, u]\<rparr>"
  have "run_state skip_newlines s = ((), s)"
    using assms unfolding skip_newlines_def by (auto intro!: loop_stops simp: matched peek_at_def)
  moreover have "run_state skip_newlines ?s = ((), s\<lparr>ps_prev := Some nl, ps_rest := [u]\<rparr>)"
    using assms by (simp add: skip_newlines_def loop_def tokens_left_def matched peek_at_def advance_state_def)
  ultimately show ?thesis
    using parse_ident [of s t nl "[u]" rd] assms by (simp add: parse_single_expression_def check_def peeked peek_at_def ends_operand_def)
qed

lemma tokens_xs:
  "tokenize ''xs'' = ([\<lparr>tk_kind = Ident, tk_text = ''xs'', tk_loc = Loc 1 1\<rparr>,
     \<lparr>tk_kind = Newline, tk_text = [], tk_loc = Loc 1 3\<rparr>, \<lparr>tk_kind = EndOfFile, tk_text = [], tk_loc = Loc 1 3\<rparr>], [])"
  by code_simp

lemma parsed_xs:
  "run_state (parse_single_expression rd) (new_parse (fst (tokenize ''xs'')) []) =
     (Some (leaf E_Ident (Loc 1 1) ''xs''), \<lparr>ps_prev = Some \<lparr>tk_kind = Newline, tk_text = [], tk_loc = Loc 1 3\<rparr>,
        ps_rest = [\<lparr>tk_kind = EndOfFile, tk_text = [], tk_loc = Loc 1 3\<rparr>], ps_diags = [], ps_spent = False\<rparr>)"
  using parse_single_ident [of "new_parse (fst (tokenize ''xs'')) []" "\<lparr>tk_kind = Ident, tk_text = ''xs'', tk_loc = Loc 1 1\<rparr>"
      "\<lparr>tk_kind = Newline, tk_text = [], tk_loc = Loc 1 3\<rparr>" "\<lparr>tk_kind = EndOfFile, tk_text = [], tk_loc = Loc 1 3\<rparr>" rd]
  by (simp add: tokens_xs new_parse_def)

abbreviation xs_run :: "bool \<times> unit estate" where
  "xs_run \<equiv> run_state (emit_condition 4 expr_env (leaf E_Ident (Loc (Suc 0) (Suc 0)) ''xs'') [(''loop'', []), (''xs'', [])])
     (new_emitter [] [])"

definition xs_chunk :: chunk where
  "xs_chunk = em_chunk (snd xs_run)"

lemma emitted_xs: "fst xs_run \<and> em_diags (snd xs_run) = [] \<and> \<not> em_spent (snd xs_run) \<and> \<not> em_undefined (snd xs_run)"
  by code_simp

text \<open>\<open>xs\<close> compiles where it and \<open>loop\<close> are names.\<close>

definition two_names :: tpl_state where
  "two_names = new_compiler [(''loop'', []), (''xs'', [])]"

lemma expresion_xs:
  assumes "tc_out t = \<lparr>pl_texts = ts, pl_exprs = [], pl_code = code, pl_names = [(''loop'', []), (''xs'', [])],
    pl_spent = False, pl_undefined = False\<rparr>"
  shows "expresion plain_env ''xs'' l t = (Some 0, on_tpl (\<lambda>p. p\<lparr>pl_exprs := [xs_chunk]\<rparr>) t)"
  using assms emitted_xs parsed_xs [of "\<lambda>_. 0"] tokens_xs
  by (cases xs_run) (simp add: expresion_def plain_env_def on_tpl_def Let_def xs_chunk_def)

lemma loop_opens: "\<not> tc_failed (tag_for plain_env ''a in xs'' l two_names)"
proof -
  have find: "find_sub '' in '' ''a in xs'' = Some 1" "tpl_trim (take 1 ''a in xs'') = ''a''" "tpl_trim (drop 5 ''a in xs'') = ''xs''"
    by code_simp+
  have "expresion plain_env ''xs'' l two_names = (Some 0, on_tpl (\<lambda>p. p\<lparr>pl_exprs := [xs_chunk]\<rparr>) two_names)"
    by (rule expresion_xs) (simp add: two_names_def new_compiler_def new_plantilla_def)
  with find show ?thesis
    by (simp add: tag_for_def Let_def on_tpl_def two_names_def new_compiler_def split: prod.split)
qed

lemma second_loop_spoils_expressions_witness:
  "fst (expresion plain_env ''xs'' no_loc (tag_endfor no_loc (tag_for plain_env ''a in xs'' no_loc two_names))) = None"
proof (rule second_loop_spoils_expressions)
  show "''loop'' \<in> fst ` set (pl_names (tc_out two_names))"
    by (simp add: two_names_def new_compiler_def new_plantilla_def)
qed (simp_all add: loop_opens)

section \<open>A page\<close>

definition item_source :: string where
  "item_source = ''<li>{{xs}}</li>''"

abbreviation item_names :: "(string \<times> string) list" where
  "item_names \<equiv> [(''loop'', []), (''xs'', [])]"

lemma item_marks:
  "find_index_from (\<lambda>c. c = CHR ''{'') 0 item_source = Some 4" "find_index_from (\<lambda>c. c = CHR ''{'') 10 item_source = None"
  "find_sub_from ''}}'' 6 item_source = Some 8" "loc_at item_source 4 = Loc 1 5"
  "span_of item_source 0 4 = ''<li>''" "tpl_trim (span_of item_source 6 8) = ''xs''"
  "length item_source = 15" "item_source ! 5 = CHR ''{''" "item_source ! 6 = CHR ''x''" "item_source ! 7 = CHR ''s''"
  by code_simp+

lemma item_steps:
  "body_step again plain_env bs item_source 0 0 0 t = Go 10 10 (write_expr plain_env ''xs'' (Loc 1 5) (texto ''<li>'' t))"
  "body_step again plain_env bs item_source 0 10 10 t = Finish 10 t"
  by (simp_all add: body_step_def item_marks [simplified] closing_mark_def Let_def)

lemma item_body:
  "body_loop again plain_env bs item_source 0 0 0 two_names =
     texto ''</li>'' (write_expr plain_env ''xs'' (Loc 1 5) (texto ''<li>'' two_names))"
  by (subst body_loop.simps, subst item_steps, simp only: body_flow.case, subst body_loop.simps, subst item_steps)
    (simp add: item_source_def)

definition item_template :: plantilla where
  "item_template = \<lparr>pl_texts = [''<li>'', ''</li>''], pl_exprs = [xs_chunk],
     pl_code = [plain_instr Tp_Texto 0 no_loc, plain_instr Tp_Escribir 0 (Loc 1 5), plain_instr Tp_Texto 1 no_loc],
     pl_names = item_names, pl_spent = False, pl_undefined = False\<rparr>"

lemma item_compiled: "compilar_plantilla 1 plain_env item_source item_names = ([], Some item_template)"
proof -
  have "subir n plain_env item_source [] t = (Some (item_source, []), t)" for n t
    by (cases n) (simp_all add: padre_de_def item_source_def tpl_blank_def starts_with_def)
  moreover have "length e \<le> 5 \<Longrightarrow> CHR ''|'' \<notin> set e \<Longrightarrow> write_expr plain_env e l t =
      (case expresion plain_env e l t of (None, t1) \<Rightarrow> t1 | (Some k, t1) \<Rightarrow> tc_emit (plain_instr Tp_Escribir k l) t1)" for e l t
    by (simp add: write_expr_def Let_def)
  moreover have "expresion plain_env ''xs'' (Loc 1 5) (texto ''<li>'' two_names) =
      (Some 0, on_tpl (\<lambda>p. p\<lparr>pl_exprs := [xs_chunk]\<rparr>) (texto ''<li>'' two_names))"
    by (rule expresion_xs) (simp add: two_names_def new_compiler_def new_plantilla_def texto_def tc_emit_def on_tpl_def)
  ultimately show ?thesis
    by (simp add: compilar_plantilla_def compilar_def two_names_def [symmetric] item_body)
      (simp add: two_names_def new_compiler_def new_plantilla_def texto_def tc_emit_def on_tpl_def Let_def item_template_def)
qed

lemma item_page:
  "case render_plantilla plain_render item_template [HNull, HStr ''a<b''] [] () of
     Some (Page r) \<Rightarrow> rs_out r = ''<li>a&lt;b</li>'' | _ \<Rightarrow> False"
  by code_simp

lemma unmarked_output_is_escaped_witness:
  "\<exists>r ps. render_plantilla plain_render item_template [HNull, HStr ''a<b''] [] () = Some (Page r) \<and>
     rs_out r = ''<li>a&lt;b</li>'' \<and> rs_out r = concat ps \<and>
     (\<forall>q \<in> set ps. q \<in> {''<li>'', ''</li>''} \<or> (\<forall>c \<in> set q. html_safe c))"
proof -
  obtain r where r: "render_plantilla plain_render item_template [HNull, HStr ''a<b''] [] () = Some (Page r)" "rs_out r = ''<li>a&lt;b</li>''"
    using item_page by (auto split: option.splits rendering.splits)
  have "Tp_EscribirCrudo \<notin> ti_op ` set (pl_code item_template)"
    by (simp add: item_template_def plain_instr_def)
  from unmarked_output_is_escaped [OF this r(1)] r show ?thesis
    by (auto simp: item_template_def)
qed


lemma block_in_itself_never_ends_witness:
  "pl_spent (tc_out (compilar 5 (plain_env\<lparr>te_read := \<lambda>f. if f = ''b'' then Some block_a else None\<rparr>) nested_child []))"
  by (rule block_in_itself_never_ends) (simp add: plain_env_def path_join_def)

end
