(* ===== verification/ContextRuns.thy ===== *)
theory ContextRuns
  imports VmRuns Render
begin

text \<open>
  What the built-in functions keep of their context, every run of the machine and every rendering of a template
  keeps: bytecode reaches the context through them only.
\<close>

section \<open>Contexts of outcomes\<close>

fun ctx_good :: "('c \<Rightarrow> bool) \<Rightarrow> 'c outcome \<Rightarrow> bool" where
  "ctx_good I (Running m) = I (mctx m)"
| "ctx_good I (Returned v m) = I (mctx m)"
| "ctx_good I (Failed e l m) = I (mctx m)"
| "ctx_good I (Suspended i vs m) = I (mctx m)"
| "ctx_good I Trapped = True"
| "ctx_good I Hung = True"
| "ctx_good I Undefined = True"

fun rendering_good :: "('c \<Rightarrow> bool) \<Rightarrow> 'c rendering \<Rightarrow> bool" where
  "rendering_good I (Rendering r) = I (rs_ctx r)"
| "rendering_good I (Page r) = I (rs_ctx r)"
| "rendering_good I (Broken e r) = I (rs_ctx r)"
| "rendering_good I Out_of_range = True"
| "rendering_good I Expr_crash = True"

lemma pop1_good: "(\<And>v m1. mctx m1 = mctx m \<Longrightarrow> ctx_good I (k v m1)) \<Longrightarrow> ctx_good I (pop1 m k)"
  by (simp add: pop1_def split: list.split)

lemma pop2_good: "(\<And>a b m1. mctx m1 = mctx m \<Longrightarrow> ctx_good I (k a b m1)) \<Longrightarrow> ctx_good I (pop2 m k)"
  by (simp add: pop2_def pop1_good)

lemma pop_args_good: "(\<And>vs m1. mctx m1 = mctx m \<Longrightarrow> ctx_good I (k vs m1)) \<Longrightarrow> ctx_good I (pop_args n m k)"
  by (simp add: pop_args_def)

lemmas pops_good = pop1_good pop2_good pop_args_good

lemma mctx_writes [simp]:
  "mctx (mpush v m) = mctx m" "mctx (set_pc t m) = mctx m" "mctx (push_list l m) = mctx m" "mctx (push_dict d m) = mctx m"
  by (simp_all add: mpush_def set_pc_def push_list_def push_dict_def split: list.split)

lemma leave_frame_good: "I (mctx m) \<Longrightarrow> ctx_good I (leave_frame v m)"
  by (simp add: leave_frame_def split: list.split)

lemma exec_values_good:
  assumes "I (mctx m)"
  shows "ctx_good I (exec_const f k m)" "ctx_good I (exec_load_local f k m)" "ctx_good I (exec_store_local f k m)"
    "ctx_good I (exec_call_async k m)" "ctx_good I (exec_jump_if_false t m)"
  using assms
  unfolding exec_const_def exec_load_local_def exec_store_local_def exec_call_async_def exec_jump_if_false_def
  by (simp_all add: pops_good)

lemma exec_arith_good:
  assumes "I (mctx m)"
  shows "ctx_good I (exec_add loc m)" "ctx_good I (exec_arith op loc m)" "ctx_good I (exec_neg loc m)"
    "ctx_good I (exec_equal b m)" "ctx_good I (exec_compare op loc m)"
  using assms
  unfolding exec_add_def exec_arith_def exec_neg_def exec_equal_def exec_compare_def Let_def
  by (intro pops_good; simp add: exec_mod_def exec_div_def split: hval.split option.split)+

lemma exec_control_good:
  assumes "I (mctx m)"
  shows "ctx_good I (exec_int op loc m)" "ctx_good I (exec_jump t loc m)" "ctx_good I (exec_jump_peek b t m)"
    "ctx_good I (exec_call_function k loc m)"
  using assms
  by (simp_all add: exec_int_def exec_jump_def exec_jump_peek_def exec_call_function_def pop_args_def pop1_def Let_def
      exec_arith_good split: list.split hval.split option.split)

lemma exec_containers_good:
  assumes "I (mctx m)"
  shows "ctx_good I (exec_make_list n m)" "ctx_good I (exec_make_dict n loc m)" "ctx_good I (exec_get_index loc m)"
    "ctx_good I (exec_set_index loc m)" "ctx_good I (exec_iter_list loc m)" "ctx_good I (exec_get_member ch k loc m)"
    "ctx_good I (exec_set_member ch k loc m)"
  using assms
  unfolding exec_make_list_def exec_make_dict_def exec_get_index_def exec_set_index_def exec_iter_list_def
    exec_get_member_def exec_set_member_def Let_def
  by (intro pops_good; simp split: hval.split sum.split option.split)+

lemmas exec_plain_good = exec_values_good exec_arith_good exec_control_good exec_containers_good

lemma finish_call_good: "I (fst (snd r)) \<Longrightarrow> ctx_good I (finish_call r loc m)"
  by (cases r) (simp add: finish_call_def Let_def)

section \<open>Runs\<close>

text \<open>What the machine asks of the built-in functions about their context.\<close>

locale context_kept =
  fixes N :: "'c natives" and I :: "'c \<Rightarrow> bool"
  assumes kept_fn: "native_fn N i = Some f \<Longrightarrow> I c \<Longrightarrow> I (fst (snd (f h c args)))"
    and kept_method: "I c \<Longrightarrow> I (fst (snd (native_method N h c recv name args)))"
begin

lemma kept_step: "I (mctx m) \<Longrightarrow> ctx_good I (vm_step N m)"
proof -
  have op: "ctx_good I (exec_op op N f k loc m)" if m: "I (mctx m)" for op f k loc and m
  proof (cases op)
    case Op_CallMethod
    with m show ?thesis
      by (auto simp: exec_call_method_def split: option.split intro!: pops_good finish_call_good kept_method)
  next
    case Op_CallNative
    with m show ?thesis
      by (auto simp: exec_call_native_def split: option.split intro!: pops_good finish_call_good intro: kept_fn)
  qed (use m in \<open>auto intro!: pops_good leave_frame_good simp: exec_plain_good\<close>)
  assume "I (mctx m)"
  then show ?thesis
    by (auto simp: vm_step_def Let_def leave_frame_good intro!: op split: list.split)
qed

lemma kept_loop: "run_loop N m = Some r \<Longrightarrow> I (mctx m) \<Longrightarrow> ctx_good I r"
proof -
  have "M = N \<Longrightarrow> I (mctx m) \<Longrightarrow> ctx_good I r" if "run_loop M m = Some r" for M
    using that
  proof (induction rule: run_loop_induct)
    case (step run M m r)
    show ?case
    proof (cases "vm_step M m")
      case (Running m1)
      with step kept_step [of m] show ?thesis by simp
    qed (use step kept_step [of m] in auto)
  qed
  then show "run_loop N m = Some r \<Longrightarrow> I (mctx m) \<Longrightarrow> ctx_good I r" by simp
qed

lemma kept_catch: "I (mctx m) \<Longrightarrow> (case catch_error e m of Inl m1 \<Rightarrow> I (mctx m1) | Inr m1 \<Rightarrow> I (mctx m1))"
  by (simp add: catch_error_def Let_def split: prod.split option.split)

lemma kept_execute: "execute N m = Some r \<Longrightarrow> I (mctx m) \<Longrightarrow> ctx_good I r"
proof -
  have "M = N \<Longrightarrow> I (mctx m) \<Longrightarrow> ctx_good I r" if "execute M m = Some r" for M
    using that
  proof (induction rule: execute_induct)
    case (step exe M m r)
    obtain r1 where r1: "run_until_error M m = Some r1"
      using step(2) by (cases "run_until_error M m") simp_all
    then have good: "ctx_good I r1"
      using step.prems kept_loop [of "m\<lparr>steps := 0\<rparr>" r1] by (simp add: run_until_error_def)
    show ?case
    proof (cases r1)
      case (Failed e l m1)
      with good kept_catch [of m1 e] step r1 show ?thesis
        by (cases "catch_error e m1") auto
    qed (use good step r1 in auto)
  qed
  then show "execute N m = Some r \<Longrightarrow> I (mctx m) \<Longrightarrow> ctx_good I r" by simp
qed

lemma kept_start: "start N code args tbl h c = Some r \<Longrightarrow> I c \<Longrightarrow> ctx_good I r"
  unfolding start_def by (erule kept_execute) (simp add: vm_start_def)

lemma kept_resume: "resume N v m = Some r \<Longrightarrow> I (mctx m) \<Longrightarrow> ctx_good I r"
  unfolding resume_def by (erule kept_execute) simp

text \<open>Templates, whose expressions run with these functions or not at all.\<close>

lemma kept_evaluar:
  assumes "re_busy re \<or> re_natives re = N" "I (rs_ctx r)" "\<And>v h c. I c \<Longrightarrow> rendering_good I (cont v (r\<lparr>rs_heap := h, rs_ctx := c\<rparr>))"
  shows "rendering_good I (evaluar re p k r cont)"
  using assms by (auto simp: evaluar_def split: option.split outcome.split dest!: kept_start [rotated 1, of "rs_ctx r"])

lemma kept_render_step:
  assumes "re_busy re \<or> re_natives re = N" "I (rs_ctx r)"
  shows "rendering_good I (render_step re p r)"
  using assms
  by (auto simp: render_step_def Let_def put_text_def set_round_def intro!: kept_evaluar
      split: tpl_op.split option.split hval.split list.split)

lemma kept_render_loop: "render_loop re p r = Some x \<Longrightarrow> re_busy re \<or> re_natives re = N \<Longrightarrow> I (rs_ctx r) \<Longrightarrow> rendering_good I x"
proof (induction rule: render_loop.raw_induct [rotated 1, consumes 1])
  case (1 loop re p r x)
  note good = kept_render_step [OF "1.prems", of p]
  show ?case
  proof (cases "render_step re p r")
    case (Rendering r1)
    with 1 good show ?thesis by simp
  qed (use 1 good in auto)
qed

lemma kept_render: "render_plantilla re p vals h c = Some x \<Longrightarrow> re_busy re \<or> re_natives re = N \<Longrightarrow> I c \<Longrightarrow> rendering_good I x"
  unfolding render_plantilla_def by (erule kept_render_loop) (simp_all add: render_start_def)

end

end
