(* ===== verification/Natives.thy ===== *)
theory Natives
  imports Render Routes Session Multipart Sse WebSocket
begin

text \<open>
  The bodies of the built-in functions and the methods of values (src/odio/natives.cpp): what a handler
  does to the request, the response, the stream or socket it holds, the session, the state shared by all
  requests, the log and the files uploads are saved in.  \<open>cx_wild\<close> marks a call whose behaviour in C++ is
  undefined or endless; the files, the log and the answers of a socket are what the operating system is asked.
\<close>

section \<open>The context\<close>

text \<open>\<open>SessionState\<close>, with its data on the heap of the machine.\<close>

record native_session =
  ns_data :: "hval dict"
  ns_dirty :: bool
  ns_secret :: string

record native_ctx =
  cx_req :: request
  cx_ip :: string
  cx_res :: response
  cx_written :: bool
  cx_tpls :: "plantilla list option"
  cx_fns :: "chunk list option"
  cx_sse :: "(sse_writer \<times> write_answer list) option"
  cx_ws :: "ws_state option"
  cx_parts :: "part list option"
  cx_session :: "native_session option"
  cx_error_code :: int
  cx_error_message :: string
  cx_error_messages :: "string list option"
  cx_jwt_claims :: "hval option"
  cx_jwt_ok :: bool
  cx_shared :: "(string \<times> hval) list"
  cx_log :: "(string \<times> string) list"
  cx_files :: "(string \<times> string) list"
  cx_pinned :: "(string \<times> nat) list"
  cx_last_exec :: "(string \<times> nat) list"
  cx_wild :: bool

text \<open>What lies outside: numbers in text, the files, and whether a file opens and takes its bytes.\<close>

record host =
  ho_fp :: fp_text
  ho_fs :: file_system
  ho_open :: "string \<Rightarrow> bool"
  ho_write :: "string \<Rightarrow> string \<Rightarrow> bool"

type_synonym native_result = "heap \<times> native_ctx \<times> hval \<times> string"

type_synonym native_body = "host \<Rightarrow> heap \<Rightarrow> native_ctx \<Rightarrow> hval list \<Rightarrow> native_result"

text \<open>A value, an error, or an undefined call.\<close>

definition gives :: "heap \<Rightarrow> native_ctx \<Rightarrow> hval \<Rightarrow> native_result" where
  "gives h c v = (h, c, v, [])"

definition fails :: "heap \<Rightarrow> native_ctx \<Rightarrow> string \<Rightarrow> native_result" where
  "fails h c msg = (h, c, HNull, msg)"

definition runs_wild :: "heap \<Rightarrow> native_ctx \<Rightarrow> native_result" where
  "runs_wild h c = (h, c\<lparr>cx_wild := True\<rparr>, HNull, [])"

text \<open>The argument at a position the table says is there.\<close>

definition arg :: "nat \<Rightarrow> hval list \<Rightarrow> hval" where
  "arg k args = (if k < length args then args ! k else HNull)"

definition as_text :: "host \<Rightarrow> heap \<Rightarrow> native_ctx \<Rightarrow> hval \<Rightarrow> (string \<Rightarrow> native_result) \<Rightarrow> native_result" where
  "as_text ho h c v k = (case h_text (ho_fp ho) h v of None \<Rightarrow> runs_wild h c | Some s \<Rightarrow> k s)"

text \<open>\<open>if (!args[0].is_str()) { error = ...; return; }\<close>\<close>

definition need_str :: "heap \<Rightarrow> native_ctx \<Rightarrow> hval list \<Rightarrow> string \<Rightarrow> (string \<Rightarrow> native_result) \<Rightarrow> native_result" where
  "need_str h c args msg k = (case arg 0 args of HStr s \<Rightarrow> k s | _ \<Rightarrow> fails h c msg)"

definition answer :: "(response \<Rightarrow> response) \<Rightarrow> native_ctx \<Rightarrow> native_ctx" where
  "answer f c = c\<lparr>cx_res := f (cx_res c), cx_written := True\<rparr>"

section \<open>The response\<close>

definition fn_text :: native_body where
  "fn_text ho h c args = as_text ho h c (arg 0 args) (\<lambda>s. gives h (answer (res_text s) c) HNull)"

definition fn_html :: native_body where
  "fn_html ho h c args = as_text ho h c (arg 0 args) (\<lambda>s. gives h (answer (res_html (ho_fs ho) s) c) HNull)"

definition fn_json :: native_body where
  "fn_json ho h c args =
     (case h_json (ho_fp ho) h (arg 0 args) of
        None \<Rightarrow> runs_wild h c
      | Some s \<Rightarrow> gives h (answer (\<lambda>r. res_send s (res_header ''Content-Type'' ''application/json; charset=utf-8'' r)) c) HNull)"

definition fn_render :: native_body where
  "fn_render ho h c args = fails h c ''render(): la plantilla no se compilo al arrancar''"

text \<open>
  The expressions of a template run on a machine of their own, one per thread: while it runs (\<open>busy\<close>), a
  template rendered by one of them cannot use it.
\<close>

definition fn_render_tpl :: "native_ctx natives \<Rightarrow> bool \<Rightarrow> native_body" where
  "fn_render_tpl inner busy ho h c args =
     (case (cx_tpls c, arg 0 args) of
        (Some ps, HInt i) \<Rightarrow>
          if length ps \<le> unat i then fails h c ''render(): indice de plantilla fuera de rango''
          else
            (let p = ps ! unat i;
                 vals = map (\<lambda>(n, ty). case arg 1 args of
                     HDict d \<Rightarrow> (case dict_get (dict_at h d) n of None \<Rightarrow> HNull | Some v \<Rightarrow> v)
                   | _ \<Rightarrow> HNull) (pl_names p)
             in case render_plantilla \<lparr>re_natives = inner, re_fp = ho_fp ho, re_fns = cx_fns c, re_busy = busy\<rparr> p vals h c of
                  Some (Page r) \<Rightarrow>
                    gives (rs_heap r) (answer (\<lambda>res. res_send (rs_out r) (res_header ''Content-Type'' ''text/html; charset=utf-8'' res))
                      (rs_ctx r)) HNull
                | Some (Broken e r) \<Rightarrow> (rs_heap r, rs_ctx r, HNull, e)
                | _ \<Rightarrow> runs_wild h c)
      | _ \<Rightarrow> fails h c ''render(): plantilla no compilada'')"

definition fn_status :: native_body where
  "fn_status ho h c args =
     (case arg 0 args of
        HInt i \<Rightarrow> gives h (answer (\<lambda>r. res_send [] (res_status (to_int32 i) r)) c) HNull
      | _ \<Rightarrow> fails h c ''status() espera un codigo entero'')"

definition fn_redirect :: native_body where
  "fn_redirect ho h c args = need_str h c args ''redirect() espera el destino como string'' (\<lambda>url.
     let go = (\<lambda>code. gives h (answer (\<lambda>r. res_send [] (res_header ''Location'' url (res_status code r))) c) HNull)
     in if length args > 1 then
          (case args ! 1 of HInt i \<Rightarrow> go (to_int32 i) | _ \<Rightarrow> fails h c ''el segundo argumento de redirect() es el codigo'')
        else go 302)"

definition fn_send_file :: native_body where
  "fn_send_file ho h c args = need_str h c args ''send_file() espera una ruta como string'' (\<lambda>path.
     gives h (answer (send_file (ho_fs ho) path) c) HNull)"

section \<open>Conversions\<close>

definition fn_len :: native_body where
  "fn_len ho h c args =
     (case arg 0 args of
        HStr s \<Rightarrow> gives h c (HInt (of_nat (length s)))
      | HList a \<Rightarrow> gives h c (HInt (of_nat (length (list_at h a))))
      | HDict a \<Rightarrow> gives h c (HInt (of_nat (dict_size (dict_at h a))))
      | v \<Rightarrow> fails h c (''len() no aplica a '' @ h_type_name v))"

definition fn_str :: native_body where
  "fn_str ho h c args = as_text ho h c (arg 0 args) (\<lambda>s. gives h c (HStr s))"

text \<open>\<open>std::stoll\<close>: spaces, a sign and digits; what follows is ignored, nothing is an exception.\<close>

definition stoll :: "string \<Rightarrow> i64 option" where
  "stoll s =
     (let t = dropWhile c_space s;
          neg = (t \<noteq> [] \<and> hd t = CHR ''-'');
          ds = takeWhile is_digit (if t \<noteq> [] \<and> (hd t = CHR ''-'' \<or> hd t = CHR ''+'') then tl t else t);
          v = (if neg then - int (dec_value ds) else int (dec_value ds))
      in if ds = [] \<or> v < - (2 ^ 63) \<or> 2 ^ 63 \<le> v then None else Some (word_of_int v))"

definition fn_int :: native_body where
  "fn_int ho h c args =
     (case arg 0 args of
        HInt i \<Rightarrow> gives h c (HInt i)
      | HFloat d \<Rightarrow> (case f64_trunc d of None \<Rightarrow> runs_wild h c | Some v \<Rightarrow> gives h c (HInt (word_of_int v)))
      | HBool b \<Rightarrow> gives h c (HInt (if b then 1 else 0))
      | HStr s \<Rightarrow> (case stoll s of Some i \<Rightarrow> gives h c (HInt i) | None \<Rightarrow> fails h c (''int(): '' @ quoted s @ '' no es un numero''))
      | v \<Rightarrow> fails h c (''int() no aplica a '' @ h_type_name v))"

section \<open>The request\<close>

text \<open>The value found, or the second argument.\<close>

definition found_or :: "heap \<Rightarrow> native_ctx \<Rightarrow> hval list \<Rightarrow> string option \<Rightarrow> native_result" where
  "found_or h c args q = gives h c (case q of Some s \<Rightarrow> HStr s | None \<Rightarrow> arg 1 args)"

definition fn_header :: native_body where
  "fn_header ho h c args = need_str h c args ''header() espera el nombre como string'' (\<lambda>n.
     found_or h c args (req_header n (cx_req c)))"

definition fn_query :: native_body where
  "fn_query ho h c args = need_str h c args ''query() espera el nombre como string'' (\<lambda>n.
     found_or h c args (map_of (rq_query (cx_req c)) n))"

definition fn_cookie :: native_body where
  "fn_cookie ho h c args = need_str h c args ''cookie() espera el nombre como string'' (\<lambda>n.
     let (rq, v) = req_cookie n (cx_req c) in found_or h (c\<lparr>cx_req := rq\<rparr>) args v)"

definition fn_form :: native_body where
  "fn_form ho h c args = need_str h c args ''form() espera el nombre como string'' (\<lambda>n.
     found_or h c args (map_of (req_form (cx_req c)) n))"

definition fn_req_path :: native_body where
  "fn_req_path ho h c args = gives h c (HStr (rq_path (cx_req c)))"

definition fn_req_method :: native_body where
  "fn_req_method ho h c args = gives h c (HStr (rq_method (cx_req c)))"

definition fn_req_ip :: native_body where
  "fn_req_ip ho h c args = gives h c (HStr (cx_ip c))"

section \<open>Streams and sockets\<close>

definition need_sse :: "heap \<Rightarrow> native_ctx \<Rightarrow> string \<Rightarrow> (sse_writer \<Rightarrow> write_answer list \<Rightarrow> native_result) \<Rightarrow> native_result" where
  "need_sse h c what k =
     (case cx_sse c of
        Some (w, answers) \<Rightarrow> k w answers
      | None \<Rightarrow> fails h c (quoted (''sse.'' @ what) @ '' solo existe dentro de una ruta sse''))"

text \<open>The answers of the socket are used up by the writes; when they run out the write never ends.\<close>

definition sse_wrote :: "heap \<Rightarrow> native_ctx \<Rightarrow> (bool \<times> sse_writer \<times> write_answer list) option \<Rightarrow> native_result" where
  "sse_wrote h c r =
     (case r of None \<Rightarrow> runs_wild h c | Some (ok, w, answers) \<Rightarrow> gives h (c\<lparr>cx_sse := Some (w, answers)\<rparr>) (HBool ok))"

definition fn_sse_send :: native_body where
  "fn_sse_send ho h c args = need_sse h c ''send'' (\<lambda>w answers.
     if length args = 1 then as_text ho h c (args ! 0) (\<lambda>s. sse_wrote h c (sse_send s answers w))
     else need_str h c args ''el nombre del evento tiene que ser string'' (\<lambda>ev.
       as_text ho h c (if length args > 2 then args ! 2 else HStr []) (\<lambda>eid.
         as_text ho h c (arg 1 args) (\<lambda>s. sse_wrote h c (sse_send_event ev s eid answers w)))))"

definition fn_sse_ping :: native_body where
  "fn_sse_ping ho h c args = need_sse h c ''ping'' (\<lambda>w answers.
     as_text ho h c (if args = [] then HStr [] else args ! 0) (\<lambda>s. sse_wrote h c (sse_ping s answers w)))"

definition fn_sse_open :: native_body where
  "fn_sse_open ho h c args = need_sse h c ''open'' (\<lambda>w answers. gives h c (HBool (sse_is_open w)))"

definition need_ws :: "heap \<Rightarrow> native_ctx \<Rightarrow> string \<Rightarrow> (ws_state \<Rightarrow> native_result) \<Rightarrow> native_result" where
  "need_ws h c what k =
     (case cx_ws c of
        Some w \<Rightarrow> k w
      | None \<Rightarrow> fails h c (quoted (''ws.'' @ what) @ '' solo existe dentro de una ruta ws''))"

definition fn_ws_send :: native_body where
  "fn_ws_send ho h c args = need_ws h c ''send'' (\<lambda>w.
     as_text ho h c (arg 0 args) (\<lambda>s. gives h (c\<lparr>cx_ws := Some (fst (ws_send s w))\<rparr>) HNull))"

definition fn_ws_open :: native_body where
  "fn_ws_open ho h c args = need_ws h c ''open'' (\<lambda>w. gives h c (HBool (is_open w)))"

definition fn_ws_close :: native_body where
  "fn_ws_close ho h c args = need_ws h c ''close'' (\<lambda>w. gives h (c\<lparr>cx_ws := Some (ws_close 1000 w)\<rparr>) HNull)"

section \<open>Session and token\<close>

definition no_session :: string where
  "no_session = ''la sesion no esta configurada: falta '' @ quoted ''session: secret ...'' @ '' en app:''"

text \<open>\<open>as_str\<close> of a value that is no string reads another box as one.\<close>

definition with_session :: "heap \<Rightarrow> native_ctx \<Rightarrow> (native_session \<Rightarrow> native_result) \<Rightarrow> native_result" where
  "with_session h c k =
     (case cx_session c of None \<Rightarrow> fails h c no_session | Some s \<Rightarrow> if ns_secret s = [] then fails h c no_session else k s)"

definition fn_session_get :: native_body where
  "fn_session_get ho h c args = with_session h c (\<lambda>s.
     case arg 0 args of
       HStr k \<Rightarrow> gives h c (case dict_get (ns_data s) k of None \<Rightarrow> HNull | Some v \<Rightarrow> v)
     | _ \<Rightarrow> runs_wild h c)"

definition fn_session_set :: native_body where
  "fn_session_set ho h c args = with_session h c (\<lambda>s.
     case arg 0 args of
       HStr k \<Rightarrow> gives h (c\<lparr>cx_session := Some (s\<lparr>ns_data := dict_put k (arg 1 args) (ns_data s), ns_dirty := True\<rparr>)\<rparr>) (arg 1 args)
     | _ \<Rightarrow> runs_wild h c)"

definition fn_session_clear :: native_body where
  "fn_session_clear ho h c args = with_session h c (\<lambda>s.
     gives h (c\<lparr>cx_session := Some (s\<lparr>ns_data := dict_empty, ns_dirty := True\<rparr>)\<rparr>) HNull)"

definition fn_jwt_valid :: native_body where
  "fn_jwt_valid ho h c args = gives h c (HBool (cx_jwt_ok c))"

definition fn_jwt_claims :: native_body where
  "fn_jwt_claims ho h c args =
     (case (cx_jwt_ok c, cx_jwt_claims c) of
        (True, Some v) \<Rightarrow> gives h c v
      | _ \<Rightarrow> gives (h @ [BDict dict_empty]) c (HDict (length h)))"

section \<open>State shared by all requests\<close>

text \<open>\<open>SharedState\<close>; the addition must stay within a \<open>long long\<close>.\<close>

definition shared_incr :: "string \<Rightarrow> int \<Rightarrow> (string \<times> hval) list \<Rightarrow> (i64 \<times> (string \<times> hval) list) option" where
  "shared_incr k by m =
     (let cur = (case map_of m k of Some (HInt i) \<Rightarrow> sint i | _ \<Rightarrow> 0); v = cur + by
      in if v < - (2 ^ 63) \<or> 2 ^ 63 \<le> v then None else Some (word_of_int v, al_put k (HInt (word_of_int v)) m))"

definition shared_get :: "string \<Rightarrow> (string \<times> hval) list \<Rightarrow> hval" where
  "shared_get k m = (case map_of m k of None \<Rightarrow> HNull | Some v \<Rightarrow> v)"

definition shared_set :: "string \<Rightarrow> hval \<Rightarrow> (string \<times> hval) list \<Rightarrow> (string \<times> hval) list" where
  "shared_set k v m = al_put k v m"

definition shared_remove :: "string \<Rightarrow> (string \<times> hval) list \<Rightarrow> bool \<times> (string \<times> hval) list" where
  "shared_remove k m = (map_of m k \<noteq> None, al_erase k m)"

definition count_by :: "heap \<Rightarrow> native_ctx \<Rightarrow> string \<Rightarrow> int \<Rightarrow> native_result" where
  "count_by h c k by =
     (case shared_incr k by (cx_shared c) of
        None \<Rightarrow> runs_wild h c
      | Some (v, m) \<Rightarrow> gives h (c\<lparr>cx_shared := m\<rparr>) (HInt v))"

definition fn_state_incr :: native_body where
  "fn_state_incr ho h c args = need_str h c args ''state.incr() espera la clave como string'' (\<lambda>k.
     if length args > 1 then
       (case args ! 1 of HInt i \<Rightarrow> count_by h c k (sint i) | _ \<Rightarrow> fails h c ''state.incr() espera un entero'')
     else count_by h c k 1)"

text \<open>The negation of the smallest integer is undefined before the addition is.\<close>

definition fn_state_decr :: native_body where
  "fn_state_decr ho h c args = need_str h c args ''state.decr() espera la clave como string'' (\<lambda>k.
     let by = (case arg 1 args of HInt i \<Rightarrow> sint i | _ \<Rightarrow> 1)
     in if by = - (2 ^ 63) then runs_wild h c else count_by h c k (- by))"

definition fn_state_get :: native_body where
  "fn_state_get ho h c args = need_str h c args ''state.get() espera la clave como string'' (\<lambda>k.
     let v = shared_get k (cx_shared c) in gives h c (if v = HNull then arg 1 args else v))"

definition fn_state_set :: native_body where
  "fn_state_set ho h c args = need_str h c args ''state.set() espera la clave como string'' (\<lambda>k.
     gives h (c\<lparr>cx_shared := shared_set k (arg 1 args) (cx_shared c)\<rparr>) (arg 1 args))"

definition fn_state_remove :: native_body where
  "fn_state_remove ho h c args = need_str h c args ''state.remove() espera la clave como string'' (\<lambda>k.
     let (was, m) = shared_remove k (cx_shared c) in gives h (c\<lparr>cx_shared := m\<rparr>) (HBool was))"

section \<open>Log and errors\<close>

definition log_as :: "string \<Rightarrow> native_body" where
  "log_as level ho h c args = as_text ho h c (arg 0 args) (\<lambda>s. gives h (c\<lparr>cx_log := cx_log c @ [(level, s)]\<rparr>) HNull)"

definition fn_log_info :: native_body where
  "fn_log_info = log_as ''info''"

definition fn_log_warn :: native_body where
  "fn_log_warn = log_as ''warn''"

definition fn_log_error :: native_body where
  "fn_log_error = log_as ''error''"

definition fn_error_code :: native_body where
  "fn_error_code ho h c args = gives h c (HInt (word_of_int (cx_error_code c)))"

definition fn_error_message :: native_body where
  "fn_error_message ho h c args = gives h c (HStr (cx_error_message c))"

definition fn_error_messages :: native_body where
  "fn_error_messages ho h c args =
     (let msgs = (case cx_error_messages c of None \<Rightarrow> [] | Some ms \<Rightarrow> ms)
      in gives (h @ [BList (map HStr msgs)]) c (HList (length h)))"

section \<open>The table\<close>

text \<open>The functions of the table, in its order; what suspends has none.\<close>

definition native_bodies :: "native_ctx natives \<Rightarrow> bool \<Rightarrow> native_body list" where
  "native_bodies inner busy =
     [fn_text, fn_html, fn_json, fn_render, fn_render_tpl inner busy, fn_status, fn_redirect, fn_send_file,
      fn_len, fn_str, fn_int, fn_header, fn_query, fn_sse_send, fn_sse_ping, fn_sse_open,
      fn_ws_send, fn_ws_open, fn_ws_close, fn_session_get, fn_session_set, fn_session_clear,
      fn_jwt_valid, fn_jwt_claims, fn_error_code, fn_error_message, fn_error_messages,
      fn_req_path, fn_req_method, fn_req_ip, fn_state_incr, fn_state_decr, fn_state_get, fn_state_set, fn_state_remove,
      fn_log_info, fn_log_warn, fn_log_error, fn_cookie, fn_form]"

text \<open>A call with fewer arguments than the table asks for reads outside of them; no compiled call has fewer.\<close>

definition call_body :: "native_def \<Rightarrow> native_body \<Rightarrow> native_body" where
  "call_body d f ho h c args = (if length args < min_args d then runs_wild h c else f ho h c args)"

definition native_fn_at :: "native_ctx natives \<Rightarrow> bool \<Rightarrow> host \<Rightarrow> nat \<Rightarrow> (heap \<Rightarrow> native_ctx \<Rightarrow> hval list \<Rightarrow> native_result) option" where
  "native_fn_at inner busy ho i =
     (if i < length (native_bodies inner busy) then Some (call_body (native_at i) (native_bodies inner busy ! i) ho) else None)"

section \<open>Methods of values\<close>

text \<open>\<open>want\<close>: the number of arguments.\<close>

definition want :: "heap \<Rightarrow> native_ctx \<Rightarrow> hval list \<Rightarrow> nat \<Rightarrow> nat \<Rightarrow> string \<Rightarrow> native_result \<Rightarrow> native_result" where
  "want h c args a b name k =
     (if a \<le> length args \<and> length args \<le> b then k
      else fails h c (quoted (name @ ''()'') @ '' recibe un numero de argumentos que no admite''))"

text \<open>The name behind the last slash or backslash.\<close>

definition safe_name :: "string \<Rightarrow> string" where
  "safe_name raw =
     (let base = rev (takeWhile (\<lambda>c. c \<noteq> CHR ''/'' \<and> c \<noteq> CHR 0x5C) (rev raw))
      in if base = [] \<or> base = ''.'' \<or> base = ''..'' then ''subida'' else base)"

definition response_method :: "heap \<Rightarrow> native_ctx \<Rightarrow> hval \<Rightarrow> (response \<Rightarrow> response) \<Rightarrow> native_result" where
  "response_method h c recv f = gives h (c\<lparr>cx_res := f (cx_res c)\<rparr>) recv"

definition m_status :: "heap \<Rightarrow> native_ctx \<Rightarrow> hval \<Rightarrow> hval list \<Rightarrow> native_result" where
  "m_status h c recv args =
     (case args of
        [HInt i] \<Rightarrow> response_method h c recv (res_status (to_int32 i))
      | _ \<Rightarrow> fails h c ''status() espera un codigo entero'')"

definition m_header :: "host \<Rightarrow> heap \<Rightarrow> native_ctx \<Rightarrow> hval \<Rightarrow> hval list \<Rightarrow> native_result" where
  "m_header ho h c recv args =
     (case args of
        [HStr n, v] \<Rightarrow> as_text ho h c v (\<lambda>s. response_method h c recv (res_header n s))
      | _ \<Rightarrow> fails h c ''header() espera nombre y valor'')"

text \<open>Options of the wrong type are passed over.\<close>

definition cookie_choice :: "hval dict \<Rightarrow> cookie_options" where
  "cookie_choice opts =
     (let base = cookie_defaults\<lparr>co_path := ''/'', co_http_only := True, co_same_site := SameSite_Lax\<rparr>
      in \<lparr>co_path = (case dict_get opts ''path'' of Some (HStr s) \<Rightarrow> s | _ \<Rightarrow> co_path base),
          co_domain = (case dict_get opts ''domain'' of Some (HStr s) \<Rightarrow> s | _ \<Rightarrow> co_domain base),
          co_max_age = (case dict_get opts ''max_age'' of Some (HInt i) \<Rightarrow> Some (to_int32 i) | _ \<Rightarrow> co_max_age base),
          co_secure = (case dict_get opts ''secure'' of Some (HBool b) \<Rightarrow> b | _ \<Rightarrow> co_secure base),
          co_http_only = (case dict_get opts ''http_only'' of Some (HBool b) \<Rightarrow> b | _ \<Rightarrow> co_http_only base),
          co_same_site = (case dict_get opts ''same_site'' of
              Some (HStr s) \<Rightarrow>
                if s = ''strict'' then SameSite_Strict else if s = ''none'' then SameSite_None else SameSite_Lax
            | _ \<Rightarrow> co_same_site base)\<rparr>)"

definition m_cookie :: "host \<Rightarrow> heap \<Rightarrow> native_ctx \<Rightarrow> hval \<Rightarrow> hval list \<Rightarrow> native_result" where
  "m_cookie ho h c recv args =
     (case args of
        HStr n # v # rest \<Rightarrow>
          (let opts = cookie_choice (case rest of HDict a # _ \<Rightarrow> dict_at h a | _ \<Rightarrow> dict_empty)
           in as_text ho h c v (\<lambda>s. response_method h c recv (Http.res_cookie n s opts)))
      | _ \<Rightarrow> fails h c ''cookie() espera al menos nombre y valor'')"

definition string_method :: "heap \<Rightarrow> native_ctx \<Rightarrow> string \<Rightarrow> string \<Rightarrow> hval list \<Rightarrow> native_result" where
  "string_method h c s name args =
     (if name = ''starts_with'' \<or> name = ''ends_with'' \<or> name = ''contains'' then
        want h c args 1 1 name
          (case arg 0 args of
             HStr n \<Rightarrow> gives h c (HBool (if name = ''starts_with'' then starts_with s n
                 else if name = ''ends_with'' then ends_with s n
                 else find_sub n s \<noteq> None))
           | _ \<Rightarrow> fails h c (quoted (name @ ''()'') @ '' espera un string''))
      else if name = ''upper'' then gives h c (HStr (map to_upper s))
      else if name = ''lower'' then gives h c (HStr (map to_lower s))
      else if name = ''trim'' then gives h c (HStr (tpl_trim s))
      else fails h c (''los string no tienen el metodo '' @ quoted name))"

definition list_method :: "heap \<Rightarrow> native_ctx \<Rightarrow> nat \<Rightarrow> string \<Rightarrow> hval list \<Rightarrow> native_result" where
  "list_method h c a name args =
     (if name = ''add'' then
        want h c args 1 1 name (gives (h[a := BList (list_at h a @ [arg 0 args])]) c (HList a))
      else fails h c (''las List no tienen el metodo '' @ quoted name))"

text \<open>\<open>save\<close>: the bytes of the part the dictionary points to go below the folder that is given.\<close>

definition save_part :: "host \<Rightarrow> heap \<Rightarrow> native_ctx \<Rightarrow> part \<Rightarrow> string \<Rightarrow> string \<Rightarrow> native_result" where
  "save_part ho h c pt folder filename =
     (let base = safe_name filename; dir = (if folder \<noteq> [] \<and> last folder \<noteq> CHR ''/'' then folder @ ''/'' else folder);
          path = dir @ base; c1 = c\<lparr>cx_files := cx_files c @ [(path, pt_body pt)]\<rparr>
      in if \<not> ho_open ho path then fails h c (''no se puede escribir en '' @ path)
         else if \<not> ho_write ho path (pt_body pt) then fails h c1 (''fallo al escribir '' @ path)
         else gives h c1 (HStr base))"

definition m_save :: "host \<Rightarrow> heap \<Rightarrow> native_ctx \<Rightarrow> hval dict \<Rightarrow> hval list \<Rightarrow> native_result" where
  "m_save ho h c d args =
     (case (dict_get d ''__idx'', cx_parts c) of
        (Some idx, Some ps) \<Rightarrow>
          want h c args 1 1 ''save'' (need_str h c args ''save() espera el directorio como string'' (\<lambda>folder.
            case idx of
              HInt i \<Rightarrow>
                if length ps \<le> unat i then fails h c ''el fichero subido ya no esta disponible''
                else as_text ho h c (case dict_get d ''filename'' of None \<Rightarrow> HStr [] | Some v \<Rightarrow> v)
                       (save_part ho h c (ps ! unat i) folder)
            | _ \<Rightarrow> runs_wild h c))
      | _ \<Rightarrow> fails h c ''save() solo existe sobre un File subido'')"

definition dict_method :: "host \<Rightarrow> heap \<Rightarrow> native_ctx \<Rightarrow> hval dict \<Rightarrow> string \<Rightarrow> hval list \<Rightarrow> native_result" where
  "dict_method ho h c d name args =
     (if name = ''save'' then m_save ho h c d args
      else if name = ''has'' then
        want h c args 1 1 name (as_text ho h c (arg 0 args) (\<lambda>s. gives h c (HBool (dict_count d s > 0))))
      else if name = ''keys'' then
        gives (h @ [BList (map HStr (filter (\<lambda>k. \<not> starts_with k ''__'') (dict_keys d)))]) c (HList (length h))
      else fails h c (''los Dict no tienen el metodo '' @ quoted name))"

definition call_method :: "host \<Rightarrow> heap \<Rightarrow> native_ctx \<Rightarrow> hval \<Rightarrow> string \<Rightarrow> hval list \<Rightarrow> native_result" where
  "call_method ho h c recv name args =
     (if name = ''status'' then m_status h c recv args
      else if name = ''header'' then m_header ho h c recv args
      else if name = ''cookie'' then m_cookie ho h c recv args
      else case recv of
        HStr s \<Rightarrow> string_method h c s name args
      | HList a \<Rightarrow> list_method h c a name args
      | HDict a \<Rightarrow> dict_method ho h c (dict_at h a) name args
      | _ \<Rightarrow> fails h c (''los valores de tipo '' @ h_type_name recv @ '' no tienen metodos''))"

text \<open>The built-ins of a handler; those of a template run while the machine of the templates is in use.\<close>

definition no_natives :: "native_ctx natives" where
  "no_natives = \<lparr>native_fn = \<lambda>_. None, native_method = \<lambda>h c _ _ _. (h, c, HNull, [])\<rparr>"

definition template_natives :: "host \<Rightarrow> native_ctx natives" where
  "template_natives ho = \<lparr>native_fn = native_fn_at no_natives True ho, native_method = call_method ho\<rparr>"

definition handler_natives :: "host \<Rightarrow> native_ctx natives" where
  "handler_natives ho = \<lparr>native_fn = native_fn_at (template_natives ho) False ho, native_method = call_method ho\<rparr>"

end
