(* ===== verification/NativeRuns.thy ===== *)
theory NativeRuns
  imports ContextRuns Natives TypedRuns
begin

text \<open>
  What the built-in functions of the code do to their context, whatever the arguments: one contract for properties
  of the context, met by the response and by the session, and through it what handlers can do as a whole.
\<close>

abbreviation after :: "native_result \<Rightarrow> native_ctx" where
  "after r \<equiv> fst (snd r)"

lemma after_simps [simp]:
  "after (gives h c v) = c" "after (fails h c msg) = c" "after (runs_wild h c) = c\<lparr>cx_wild := True\<rparr>"
  by (simp_all add: gives_def fails_def runs_wild_def)

section \<open>Properties of the context\<close>

text \<open>
  A property that every kind of write to the context keeps.  Files are only written under a name that came
  through \<open>safe_name\<close>, and a session is only changed together with its mark.
\<close>

locale ctx_invariant =
  fixes I :: "native_ctx \<Rightarrow> bool"
  assumes response: "I c \<Longrightarrow> I (c\<lparr>cx_res := res_apply fs op (cx_res c)\<rparr>)"
    and written: "I c \<Longrightarrow> I (c\<lparr>cx_written := b\<rparr>)"
    and wild: "I c \<Longrightarrow> I (c\<lparr>cx_wild := b\<rparr>)"
    and request: "I c \<Longrightarrow> I (c\<lparr>cx_req := rq\<rparr>)"
    and streams: "I c \<Longrightarrow> I (c\<lparr>cx_sse := w\<rparr>)" "I c \<Longrightarrow> I (c\<lparr>cx_ws := x\<rparr>)"
    and shared: "I c \<Longrightarrow> I (c\<lparr>cx_shared := m\<rparr>)"
    and log: "I c \<Longrightarrow> I (c\<lparr>cx_log := l\<rparr>)"
    and files: "I c \<Longrightarrow> folder = [] \<or> last folder = CHR ''/'' \<Longrightarrow> I (c\<lparr>cx_files := cx_files c @ [(folder @ safe_name n, bytes)]\<rparr>)"
    and session: "I c \<Longrightarrow> cx_session c = Some s \<Longrightarrow> I (c\<lparr>cx_session := Some (s\<lparr>ns_data := d, ns_dirty := True\<rparr>)\<rparr>)"
begin

lemma responses: "I c \<Longrightarrow> I (c\<lparr>cx_res := fold (res_apply fs) ops (cx_res c)\<rparr>)"
proof (induction ops arbitrary: c)
  case (Cons op ops)
  from Cons.IH [OF response [OF Cons.prems, of fs op]] show ?case by simp
qed simp

lemma kept_answer:
  assumes "I c" "f (cx_res c) = fold (res_apply fs) ops (cx_res c)"
  shows "I (answer f c)"
  using written [OF responses [OF assms(1), of fs ops]] assms(2) by (simp add: answer_def)

lemma kept_text: "I c \<Longrightarrow> (\<And>s. I (after (k s))) \<Longrightarrow> I (after (as_text ho h c v k))"
  by (simp add: as_text_def wild split: option.split)

lemma kept_need_str: "I c \<Longrightarrow> (\<And>s. I (after (k s))) \<Longrightarrow> I (after (need_str h c args msg k))"
  by (simp add: need_str_def split: hval.split)

lemma kept_found: "I c \<Longrightarrow> I (after (found_or h c args q))"
  by (simp add: found_or_def)

lemma kept_sse: "I c \<Longrightarrow> (\<And>w a. I (after (k w a))) \<Longrightarrow> I (after (need_sse h c what k))"
  by (simp add: need_sse_def split: option.split prod.split)

lemma kept_sse_wrote: "I c \<Longrightarrow> I (after (sse_wrote h c r))"
  by (simp add: sse_wrote_def wild streams split: option.split prod.split)

lemma kept_ws: "I c \<Longrightarrow> (\<And>w. I (after (k w))) \<Longrightarrow> I (after (need_ws h c what k))"
  by (simp add: need_ws_def split: option.split)

lemma kept_with_session: "I c \<Longrightarrow> (\<And>s. cx_session c = Some s \<Longrightarrow> I (after (k s))) \<Longrightarrow> I (after (with_session h c k))"
  by (simp add: with_session_def split: option.split)

lemma kept_count: "I c \<Longrightarrow> I (after (count_by h c k by))"
  by (simp add: count_by_def wild shared split: option.split prod.split)

lemma kept_want: "I c \<Longrightarrow> I (after k) \<Longrightarrow> I (after (want h c args a b name k))"
  by (simp add: want_def)

lemmas kept = kept_text kept_need_str kept_found kept_sse kept_sse_wrote kept_ws kept_with_session kept_count kept_want

lemma response_fns:
  assumes "I c"
  shows "I (after (fn_text ho h c args))" "I (after (fn_html ho h c args))" "I (after (fn_json ho h c args))"
    "I (after (fn_render ho h c args))" "I (after (fn_status ho h c args))" "I (after (fn_redirect ho h c args))"
    "I (after (fn_send_file ho h c args))"
proof -
  note ans = kept_answer [OF assms, where fs = "ho_fs ho"]
  have one: "I (answer (res_text s) c)" "I (answer (res_html (ho_fs ho) s) c)" "I (answer (send_file (ho_fs ho) s) c)" for s
    by (rule ans [where ops = "[Op_text s]"], simp, rule ans [where ops = "[Op_html s]"], simp)
      (rule ans [where ops = "[Op_send_file s]"], simp)
  have two: "I (answer (\<lambda>r. res_send b (res_header k v r)) c)" for b k v
    by (rule ans [where ops = "[Op_header k v, Op_send b]"]) simp
  have three: "I (answer (\<lambda>r. res_send [] (res_status i r)) c)" "I (answer (\<lambda>r. res_send [] (res_header k v (res_status i r))) c)" for i k v
    by (rule ans [where ops = "[Op_status i, Op_send []]"], simp)
      (rule ans [where ops = "[Op_status i, Op_header k v, Op_send []]"], simp)
  show "I (after (fn_text ho h c args))"
    unfolding fn_text_def using one assms by (auto intro!: kept)
  show "I (after (fn_html ho h c args))"
    unfolding fn_html_def using one assms by (auto intro!: kept)
  show "I (after (fn_json ho h c args))"
    unfolding fn_json_def using two assms wild by (auto split: option.split)
  show "I (after (fn_render ho h c args))"
    using assms by (simp add: fn_render_def)
  show "I (after (fn_status ho h c args))"
    unfolding fn_status_def using three assms by (auto split: hval.split)
  show "I (after (fn_redirect ho h c args))"
    unfolding fn_redirect_def Let_def using three assms by (auto intro!: kept split: hval.split)
  show "I (after (fn_send_file ho h c args))"
    unfolding fn_send_file_def using one assms by (auto intro!: kept)
qed

lemma value_fns:
  assumes "I c"
  shows "I (after (fn_len ho h c args))" "I (after (fn_str ho h c args))" "I (after (fn_int ho h c args))"
    "I (after (fn_header ho h c args))" "I (after (fn_query ho h c args))" "I (after (fn_cookie ho h c args))"
    "I (after (fn_form ho h c args))" "I (after (fn_req_path ho h c args))" "I (after (fn_req_method ho h c args))"
    "I (after (fn_req_ip ho h c args))"
  using assms request wild
  unfolding fn_len_def fn_str_def fn_int_def fn_header_def fn_query_def fn_cookie_def fn_form_def fn_req_path_def
    fn_req_method_def fn_req_ip_def
  by (auto intro!: kept split: hval.split option.split prod.split)

lemma stream_fns:
  assumes "I c"
  shows "I (after (fn_sse_send ho h c args))" "I (after (fn_sse_ping ho h c args))" "I (after (fn_sse_open ho h c args))"
    "I (after (fn_ws_send ho h c args))" "I (after (fn_ws_open ho h c args))" "I (after (fn_ws_close ho h c args))"
  using assms streams
  unfolding fn_sse_send_def fn_sse_ping_def fn_sse_open_def fn_ws_send_def fn_ws_open_def fn_ws_close_def
  by (auto intro!: kept)

lemma session_fns:
  assumes "I c"
  shows "I (after (fn_session_get ho h c args))" "I (after (fn_session_set ho h c args))" "I (after (fn_session_clear ho h c args))"
    "I (after (fn_jwt_valid ho h c args))" "I (after (fn_jwt_claims ho h c args))"
  using assms wild session
  unfolding fn_session_get_def fn_session_set_def fn_session_clear_def fn_jwt_valid_def fn_jwt_claims_def
  by (auto intro!: kept split: hval.split option.split bool.split)

lemma state_fns:
  assumes "I c"
  shows "I (after (fn_state_incr ho h c args))" "I (after (fn_state_decr ho h c args))" "I (after (fn_state_get ho h c args))"
    "I (after (fn_state_set ho h c args))" "I (after (fn_state_remove ho h c args))"
    "I (after (fn_log_info ho h c args))" "I (after (fn_log_warn ho h c args))" "I (after (fn_log_error ho h c args))"
    "I (after (fn_error_code ho h c args))" "I (after (fn_error_message ho h c args))" "I (after (fn_error_messages ho h c args))"
  using assms wild shared log
  unfolding fn_state_incr_def fn_state_decr_def fn_state_get_def fn_state_set_def fn_state_remove_def fn_log_info_def
    fn_log_warn_def fn_log_error_def log_as_def fn_error_code_def fn_error_message_def fn_error_messages_def Let_def
  by (auto intro!: kept split: hval.split prod.split)

lemma kept_render_tpl:
  assumes "I c" "busy \<or> context_kept inner I"
  shows "I (after (fn_render_tpl inner busy ho h c args))"
proof -
  let ?re = "\<lparr>re_natives = inner, re_fp = ho_fp ho, re_fns = cx_fns c, re_busy = busy\<rparr>"
  have idle: "context_kept no_natives I"
    by unfold_locales (simp_all add: no_natives_def)
  have page: "rendering_good I x" if "render_plantilla ?re p vals h c = Some x" for p vals x
    using assms context_kept.kept_render [OF _ that] idle by auto
  have "I (answer (\<lambda>res. res_send b (res_header k v res)) c1)" if "I c1" for b k v c1
    using that by (rule kept_answer [where fs = "ho_fs ho" and ops = "[Op_header k v, Op_send b]"]) simp
  with assms(1) page show ?thesis
    unfolding fn_render_tpl_def Let_def
    by (auto split: option.split hval.split rendering.split simp: wild dest!: page)
qed

lemma body_kept:
  assumes "I c" "busy \<or> context_kept inner I" "i < length (native_bodies inner busy)"
  shows "I (after ((native_bodies inner busy ! i) ho h c args))"
proof -
  have "list_all (\<lambda>f. I (after (f ho h c args))) (native_bodies inner busy)"
    using kept_render_tpl [OF assms(1,2)]
    by (simp add: native_bodies_def response_fns value_fns stream_fns session_fns state_fns assms(1))
  with assms(3) show ?thesis by (simp add: list_all_length)
qed

lemma native_fn_kept:
  assumes "I c" "busy \<or> context_kept inner I" "native_fn_at inner busy ho i = Some f"
  shows "I (after (f h c args))"
  using assms body_kept [OF assms(1,2), of i ho h args] by (auto simp: native_fn_at_def call_body_def wild split: if_splits)

text \<open>Methods.\<close>

lemma kept_response_method: "I c \<Longrightarrow> f (cx_res c) = res_apply fs op (cx_res c) \<Longrightarrow> I (after (response_method h c recv f))"
  using response [of c fs op] by (simp add: response_method_def)

lemma kept_response_methods:
  assumes "I c"
  shows "I (after (m_status h c recv args))" "I (after (m_header ho h c recv args))" "I (after (m_cookie ho h c recv args))"
proof -
  have "I (after (response_method h c recv (res_status i)))" "I (after (response_method h c recv (res_header k v)))"
    "I (after (response_method h c recv (Http.res_cookie k v opts)))" for i k v opts
    using assms
    by (rule kept_response_method [where fs = undefined and op = "Op_status i"], simp)
      (rule kept_response_method [where fs = undefined and op = "Op_header k v", OF assms], simp,
        rule kept_response_method [where fs = undefined and op = "Op_cookie k v opts", OF assms], simp)
  with assms show "I (after (m_status h c recv args))" "I (after (m_header ho h c recv args))" "I (after (m_cookie ho h c recv args))"
    unfolding m_status_def m_header_def m_cookie_def Let_def by (auto intro!: kept split: list.split hval.split)
qed

lemma kept_save: "I c \<Longrightarrow> I (after (save_part ho h c pt folder filename))"
  using files [of c "if folder \<noteq> [] \<and> last folder \<noteq> CHR ''/'' then folder @ ''/'' else folder" filename "pt_body pt"]
  by (auto simp: save_part_def Let_def)

lemma kept_if: "I (after a) \<Longrightarrow> I (after b) \<Longrightarrow> I (after (if P then a else b))"
  by simp

lemma kept_str_case: "I c \<Longrightarrow> I (after (case v of HStr n \<Rightarrow> gives h c (f n) | _ \<Rightarrow> fails h c e))"
  by (cases v) simp_all

lemma string_method_kept: "I c \<Longrightarrow> I (after (string_method h c s name args))"
  unfolding string_method_def by (intro kept_if kept_want kept_str_case) simp_all

lemma list_method_kept: "I c \<Longrightarrow> I (after (list_method h c a name args))"
  unfolding list_method_def by (simp add: kept_want)

lemma m_save_kept: "I c \<Longrightarrow> I (after (m_save ho h c d args))"
  unfolding m_save_def by (simp add: kept_want kept_need_str kept_text kept_save wild split: option.split hval.split)

lemma dict_method_kept: "I c \<Longrightarrow> I (after (dict_method ho h c d name args))"
  unfolding dict_method_def by (simp add: m_save_kept kept_want kept_text)

lemmas kept_methods = string_method_kept list_method_kept dict_method_kept

lemma call_method_kept: "I c \<Longrightarrow> I (after (call_method ho h c recv name args))"
  unfolding call_method_def by (simp add: kept_response_methods kept_methods split: hval.split)

lemma template_natives_kept: "context_kept (template_natives ho) I"
proof unfold_locales
  show "I (after (f h c args))" if "native_fn (template_natives ho) i = Some f" "I c" for i f h c args
    using that native_fn_kept [of c True no_natives ho i f h args] by (simp add: template_natives_def)
qed (simp add: template_natives_def call_method_kept)

lemma handler_natives_kept: "context_kept (handler_natives ho) I"
proof unfold_locales
  show "I (after (f h c args))" if "native_fn (handler_natives ho) i = Some f" "I c" for i f h c args
    using that native_fn_kept [of c False "template_natives ho" ho i f h args] template_natives_kept
    by (simp add: handler_natives_def)
qed (simp add: handler_natives_def call_method_kept)

end

sublocale ctx_invariant \<subseteq> handler: context_kept "handler_natives ho" I for ho
  by (rule handler_natives_kept)

section \<open>Responses of handlers\<close>

interpretation clean_response: ctx_invariant "\<lambda>c. headers_clean (cx_res c)"
  by unfold_locales (simp_all add: headers_clean_apply)

text \<open>The context a run ends with, when it ends in a value, an error or a suspension.\<close>

fun final_ctx :: "'c outcome \<Rightarrow> 'c option" where
  "final_ctx (Returned v m) = Some (mctx m)"
| "final_ctx (Failed e l m) = Some (mctx m)"
| "final_ctx (Suspended i vs m) = Some (mctx m)"
| "final_ctx _ = None"

lemma final_ctx_good: "ctx_good I r \<Longrightarrow> final_ctx r = Some c \<Longrightarrow> I c"
  by (cases r) auto

section \<open>Sessions of handlers\<close>

text \<open>The session is the one the request came with, or it is marked.\<close>

definition session_marked :: "native_session option \<Rightarrow> native_ctx \<Rightarrow> bool" where
  "session_marked orig c \<longleftrightarrow>
     (case (orig, cx_session c) of
        (None, None) \<Rightarrow> True
      | (Some a, Some b) \<Rightarrow> ns_secret b = ns_secret a \<and> (ns_dirty b \<or> ns_data b = ns_data a)
      | _ \<Rightarrow> False)"

interpretation marked: ctx_invariant "session_marked orig" for orig
  by unfold_locales (auto simp: session_marked_def split: option.splits)


section \<open>Uploads\<close>

definition plain_name :: "string \<Rightarrow> bool" where
  "plain_name n \<longleftrightarrow> n \<noteq> [] \<and> n \<noteq> ''.'' \<and> n \<noteq> ''..'' \<and> CHR ''/'' \<notin> set n \<and> CHR 0x5C \<notin> set n"

lemma safe_name_plain: "plain_name (safe_name raw)"
proof -
  define base where "base = rev (takeWhile (\<lambda>c. c \<noteq> CHR ''/'' \<and> c \<noteq> CHR 0x5C) (rev raw))"
  have "c \<noteq> CHR ''/'' \<and> c \<noteq> CHR 0x5C" if "c \<in> set base" for c
    using set_takeWhileD [of c _ "rev raw"] that by (force simp: base_def)
  then have "CHR ''/'' \<notin> set base" "CHR 0x5C \<notin> set base"
    by blast+
  then show ?thesis
    unfolding safe_name_def base_def [symmetric] plain_name_def Let_def by simp
qed

definition uploads_plain :: "(string \<times> string) list \<Rightarrow> native_ctx \<Rightarrow> bool" where
  "uploads_plain fs0 c \<longleftrightarrow>
     (\<exists>new. cx_files c = fs0 @ new \<and> (\<forall>(path, b) \<in> set new. \<exists>folder n. path = folder @ n \<and> plain_name n \<and>
        (folder = [] \<or> last folder = CHR ''/'')))"

interpretation plain_uploads: ctx_invariant "uploads_plain fs0" for fs0
proof unfold_locales
  fix c :: native_ctx and folder n bytes
  assume "uploads_plain fs0 c" "folder = [] \<or> last folder = CHR ''/''"
  then show "uploads_plain fs0 (c\<lparr>cx_files := cx_files c @ [(folder @ safe_name n, bytes)]\<rparr>)"
    using safe_name_plain unfolding uploads_plain_def
    by (elim exE conjE, rule_tac x = "new @ [(folder @ safe_name n, bytes)]" in exI) auto
qed (simp_all add: uploads_plain_def)

text \<open>The built-in functions are there.\<close>

lemma handler_natives_bound: "natives_bound (handler_natives ho)"
proof -
  have "\<forall>i \<in> set [0..<48]. \<not> is_async (native_at i) \<longrightarrow> i < 40"
    by code_simp
  moreover have "length (native_bodies inner busy) = 40" for inner busy
    by (simp add: native_bodies_def)
  ultimately show ?thesis
    by (auto simp: natives_bound_def handler_natives_def native_fn_at_def)
qed

end
