(* ===== verification/Handler.thy ===== *)
theory Handler
  imports Natives
begin

text \<open>
  From a request to a run of the machine and back (src/odio/project.cpp): parameters and bodies checked and
  bound to slots, suspensions answered - timers, messages, databases -, and the response of the value or the
  error the handler ends with.  The drivers of databases, timers, the connection and the clock are parameters;
  what they are asked is recorded.
\<close>

section \<open>Trees on the heap\<close>

lemma size_vals: "size_list size (map snd kvs) < size (VDict (Dict kvs ix))"
  by (induction kvs) auto

text \<open>A tree becomes boxes, its leaves first.\<close>

function put_val :: "val \<Rightarrow> heap \<Rightarrow> hval \<times> heap" and put_vals :: "val list \<Rightarrow> heap \<Rightarrow> hval list \<times> heap" where
  "put_val VNull h = (HNull, h)"
| "put_val (VBool b) h = (HBool b, h)"
| "put_val (VInt i) h = (HInt i, h)"
| "put_val (VFloat d) h = (HFloat d, h)"
| "put_val (VStr s) h = (HStr s, h)"
| "put_val (VList l) h = (let (vs, h1) = put_vals l h in (HList (length h1), h1 @ [BList vs]))"
| "put_val (VDict (Dict kvs ix)) h =
     (let (vs, h1) = put_vals (map snd kvs) h in (HDict (length h1), h1 @ [BDict (Dict (zip (map fst kvs) vs) ix)]))"
| "put_vals [] h = ([], h)"
| "put_vals (v # vs) h = (let (x, h1) = put_val v h; (xs, h2) = put_vals vs h1 in (x # xs, h2))"
  by pat_completeness auto
termination
  by (relation "measure (\<lambda>x. case x of Inl (v, h) \<Rightarrow> size v | Inr (vs, h) \<Rightarrow> size_list size vs)")
    (use size_vals in \<open>auto simp: less_Suc_eq_le\<close>)

definition put_dict :: "val dict \<Rightarrow> heap \<Rightarrow> hval dict \<times> heap" where
  "put_dict d h = (let (vs, h1) = put_vals (map snd (d_v d)) h in (Dict (zip (map fst (d_v d)) vs) (d_idx d), h1))"

definition dict_val :: "heap \<Rightarrow> hval dict \<Rightarrow> val dict option" where
  "dict_val h d = map_option (\<lambda>vs. Dict (zip (map fst (d_v d)) vs) (d_idx d)) (those (map (h_val h) (map snd (d_v d))))"

section \<open>What lies outside\<close>

text \<open>A statement sent to a database: the module, the connection, the text and its parameters.\<close>

type_synonym db_trace = "(string \<times> nat \<times> string \<times> val list) list"

text \<open>What was asked so far; \<open>wd_messages\<close> is \<open>last_validation_messages\<close>, one per thread.\<close>

record world =
  wd_db :: db_trace
  wd_sleeps :: "int list"
  wd_heard :: nat
  wd_messages :: "string list"

text \<open>
  \<open>std::stod\<close>, the clock, the text of a place in a file, the drivers and their connections, whether the client has
  left when a timer fires, the messages of a socket, and how a stream opens.
\<close>

record outer =
  hn_host :: host
  hn_stod :: "string \<Rightarrow> f64 option"
  hn_now :: int
  hn_place :: "source_loc \<Rightarrow> string option"
  hn_active :: "string \<Rightarrow> bool"
  hn_free :: "db_trace \<Rightarrow> string \<Rightarrow> nat"
  hn_open :: "db_trace \<Rightarrow> string \<Rightarrow> nat \<Rightarrow> string option"
  hn_query :: "db_trace \<Rightarrow> string \<Rightarrow> nat \<Rightarrow> string \<Rightarrow> val list \<Rightarrow> string + val"
  hn_exec :: "db_trace \<Rightarrow> string \<Rightarrow> nat \<Rightarrow> string \<Rightarrow> val list \<Rightarrow> string + i64"
  hn_last :: "db_trace \<Rightarrow> string \<Rightarrow> nat \<Rightarrow> string + i64"
  hn_cancelled :: "int list \<Rightarrow> bool"
  hn_message :: "nat \<Rightarrow> ws_message option"
  hn_stream :: "bool \<times> bool \<times> bool \<times> write_answer list"

abbreviation hn_fp :: "outer \<Rightarrow> fp_text" where
  "hn_fp out \<equiv> ho_fp (hn_host out)"

section \<open>Answers of the engine\<close>

definition responder :: "fp_text \<Rightarrow> int \<Rightarrow> val \<Rightarrow> response \<Rightarrow> response" where
  "responder F code v r = json_text (write_json F v) (res_status code r)"

definition error_val :: "string \<Rightarrow> val" where
  "error_val msg = VDict (dict_of_list [(''error'', VStr msg)])"

definition responder_error :: "fp_text \<Rightarrow> int \<Rightarrow> string \<Rightarrow> response \<Rightarrow> response" where
  "responder_error F code msg = responder F code (error_val msg)"

definition responder_errors :: "fp_text \<Rightarrow> int \<Rightarrow> string \<Rightarrow> string list \<Rightarrow> response \<Rightarrow> response" where
  "responder_errors F code msg ms =
     responder F code (VDict (dict_of_list [(''error'', VStr msg), (''mensajes'', VList (map VStr ms))]))"

text \<open>The native action of a route without logic.\<close>

definition run_action :: "file_system \<Rightarrow> action \<Rightarrow> response \<Rightarrow> response" where
  "run_action fs a r =
     (case a of
        Act_Json s \<Rightarrow> res_send s (res_header ''Content-Type'' ''application/json; charset=utf-8'' r)
      | Act_Page s \<Rightarrow> res_send s (res_header ''Content-Type'' ''text/html; charset=utf-8'' r)
      | Act_Text s \<Rightarrow> res_text s r
      | Act_Html s \<Rightarrow> res_html fs s r
      | Act_File s \<Rightarrow> send_file fs s r
      | Act_Status c \<Rightarrow> res_send [] (res_status c r)
      | Act_Redirect to c \<Rightarrow> res_send [] (res_header ''Location'' to (res_status c r)))"

section \<open>Parameters\<close>

text \<open>\<open>coerce\<close>: the text of a parameter as a value of its type.\<close>

definition coerce :: "outer \<Rightarrow> string \<Rightarrow> string \<Rightarrow> hval option" where
  "coerce out s ty =
     (if ty = ''string'' then Some (HStr s)
      else if ty = ''int'' \<or> ty = ''long'' then map_option HInt (stoll s)
      else if ty = ''float'' \<or> ty = ''double'' then map_option HFloat (hn_stod out s)
      else if ty = ''bool'' then
        (if s = ''true'' \<or> s = ''1'' then Some (HBool True) else if s = ''false'' \<or> s = ''0'' then Some (HBool False) else None)
      else None)"

text \<open>\<open>valor_encaja\<close>: no conversion between families; an integer is taken for a real number.\<close>

definition valor_encaja :: "val \<Rightarrow> string \<Rightarrow> hval option" where
  "valor_encaja v ty =
     (if ty = ''string'' then (case v of VStr s \<Rightarrow> Some (HStr s) | _ \<Rightarrow> None)
      else if ty = ''bool'' then (case v of VBool b \<Rightarrow> Some (HBool b) | _ \<Rightarrow> None)
      else if ty = ''int'' \<or> ty = ''long'' then (case v of VInt i \<Rightarrow> Some (HInt i) | _ \<Rightarrow> None)
      else if ty = ''float'' \<or> ty = ''double'' then
        (case v of VInt i \<Rightarrow> Some (HFloat (f64_of_int i)) | VFloat d \<Rightarrow> Some (HFloat d) | _ \<Rightarrow> None)
      else None)"

text \<open>A bound value, an answer already written, or a run that never comes back.\<close>

datatype 'a bound = Bound 'a heap native_ctx world | Refused heap native_ctx world | Bind_crash

definition refuse :: "(response \<Rightarrow> response) \<Rightarrow> heap \<Rightarrow> native_ctx \<Rightarrow> world \<Rightarrow> 'a bound" where
  "refuse f h c w = Refused h (c\<lparr>cx_res := f (cx_res c)\<rparr>) w"

text \<open>The value of a field, or null and the message.\<close>

definition bind_field :: "val dict \<Rightarrow> class_field \<Rightarrow> string list \<times> hval" where
  "bind_field body f =
     (case dict_get body (cf_name f) of
        None \<Rightarrow> (if cf_optional f then [] else [cf_name f @ '': obligatorio''], HNull)
      | Some VNull \<Rightarrow> (if cf_optional f then [] else [cf_name f @ '': obligatorio''], HNull)
      | Some v \<Rightarrow>
          (case valor_encaja v (cf_type f) of
             None \<Rightarrow> ([cf_name f @ '': se esperaba '' @ cf_type f], HNull)
           | Some x \<Rightarrow> ([], x)))"

text \<open>The rules of \<open>validate\<close>, each a run over the fields; an error is the second component.\<close>

fun run_rules :: "outer \<Rightarrow> chunk list option \<Rightarrow> hval list \<Rightarrow> (chunk \<times> string) list \<Rightarrow> string list \<Rightarrow> heap \<Rightarrow> native_ctx \<Rightarrow>
    (string list \<times> string option \<times> heap \<times> native_ctx) option" where
  "run_rules out tbl ordered [] msgs h c = Some (msgs, None, h, c)"
| "run_rules out tbl ordered ((code, msg) # rules) msgs h c =
     (case start (handler_natives (hn_host out)) code ordered tbl h c of
        Some (Returned v m) \<Rightarrow>
          run_rules out tbl ordered rules (if h_truthy (mheap m) v then msgs else msgs @ [msg]) (mheap m) (mctx m)
      | Some (Failed e l m) \<Rightarrow> Some (msgs, Some e, mheap m, mctx m)
      | Some (Suspended i vs m) \<Rightarrow> Some (msgs, Some [], mheap m, mctx m)
      | _ \<Rightarrow> None)"

definition invalid :: string where
  "invalid = ''Validacion fallida''"

definition bind_body :: "outer \<Rightarrow> class_info \<Rightarrow> chunk list option \<Rightarrow> heap \<Rightarrow> native_ctx \<Rightarrow> world \<Rightarrow> hval bound" where
  "bind_body out ci tbl h c w =
     (let F = hn_fp out; say = (\<lambda>ms h c. refuse (responder_errors F 422 invalid ms) h c (w\<lparr>wd_messages := ms\<rparr>))
      in case parse_json F (rq_body (cx_req c)) of
           None \<Rightarrow> refuse (responder_error F 400 ''JSON invalido'') h c w
         | Some (VDict body) \<Rightarrow>
             (let bound = map (bind_field body) (ci_fields ci); early = concat (map fst bound);
                  ordered = map snd bound; names = map cf_name (ci_fields ci)
              in case (if early = [] then run_rules out tbl ordered (ci_rules ci) [] h c else Some (early, None, h, c)) of
                   None \<Rightarrow> Bind_crash
                 | Some (msgs, Some e, h1, c1) \<Rightarrow>
                     refuse (responder_error F 500 e) h1
                       (c1\<lparr>cx_log := cx_log c1 @ [(''error'', ''validate de '' @ ci_name ci @ '': '' @ e)]\<rparr>) w
                 | Some (msgs, None, h1, c1) \<Rightarrow>
                     if msgs \<noteq> [] then say msgs h1 c1
                     else Bound (HDict (length h1)) (h1 @ [BDict (dict_of_list (zip names ordered))]) c1 w)
         | Some _ \<Rightarrow> refuse (responder_errors F 422 invalid [''el cuerpo tiene que ser un objeto JSON'']) h c w)"

definition make_file_value :: "part \<Rightarrow> nat \<Rightarrow> hval dict" where
  "make_file_value pt index = dict_of_list
     [(''name'', HStr (pt_name pt)), (''filename'', HStr (pt_filename pt)), (''content_type'', HStr (pt_content_type pt)),
      (''size'', HInt (of_nat (length (pt_body pt)))), (''__idx'', HInt (of_nat index))]"

text \<open>The uploads of a name, each in a box of its own.\<close>

definition matching_parts :: "string \<Rightarrow> part list \<Rightarrow> hval dict list" where
  "matching_parts n ps = [make_file_value pt i. (i, pt) \<leftarrow> enumerate 0 ps, pt_name pt = n \<and> pt_filename pt \<noteq> []]"

definition bind_file :: "outer \<Rightarrow> param_bind \<Rightarrow> heap \<Rightarrow> native_ctx \<Rightarrow> world \<Rightarrow> hval bound" where
  "bind_file out b h c w =
     (case cx_parts c of
        None \<Rightarrow> refuse (responder_error (hn_fp out) 400 ''se esperaba multipart/form-data'') h c w
      | Some ps \<Rightarrow>
          (let files = matching_parts (pb_name b) ps; h1 = h @ map BDict files; at = map HDict [length h..<length h1]
           in if pb_kind b = Bind_FileList then Bound (HList (length h1)) (h1 @ [BList at]) c w
              else case at of
                [] \<Rightarrow> refuse (responder_errors (hn_fp out) 422 invalid [pb_name b @ '': falta el fichero'']) h c w
              | f # _ \<Rightarrow> Bound f h1 c w))"

definition scalar_text :: "param_bind \<Rightarrow> native_ctx \<Rightarrow> string option" where
  "scalar_text b c =
     (if pb_kind b = Bind_Path then map_of (rq_params (cx_req c)) (pb_name b)
      else case map_of (rq_query (cx_req c)) (pb_name b) of
        Some s \<Rightarrow> Some s
      | None \<Rightarrow>
          (case cx_parts c of
             None \<Rightarrow> pb_default b
           | Some ps \<Rightarrow>
               (case find (\<lambda>pt. pt_name pt = pb_name b \<and> pt_filename pt = []) ps of
                  Some pt \<Rightarrow> Some (pt_body pt)
                | None \<Rightarrow> pb_default b)))"

definition empty_scalar :: "string \<Rightarrow> hval" where
  "empty_scalar ty =
     (if ty = ''string'' then HStr [] else if ty = ''bool'' then HBool False
      else if ty = ''float'' \<or> ty = ''double'' then HFloat 0 else HInt 0)"

definition bad_param :: "fp_text \<Rightarrow> param_bind \<Rightarrow> string \<Rightarrow> response \<Rightarrow> response" where
  "bad_param F b raw = responder F 400 (VDict (dict_of_list
     [(''error'', VStr ''parametro invalido''), (''param'', VStr (pb_name b)), (''esperado'', VStr (pb_type b)), (''recibido'', VStr raw)]))"

definition prepare_arg :: "outer \<Rightarrow> chunk list option \<Rightarrow> param_bind \<Rightarrow> heap \<Rightarrow> native_ctx \<Rightarrow> world \<Rightarrow> hval bound" where
  "prepare_arg out tbl b h c w =
     (if pb_kind b = Bind_File \<or> pb_kind b = Bind_FileList then bind_file out b h c w
      else if pb_kind b = Bind_Body then
        (case pb_class b of None \<Rightarrow> Bind_crash | Some ci \<Rightarrow> bind_body out ci tbl h c w)
      else case scalar_text b c of
        None \<Rightarrow> Bound (empty_scalar (pb_type b)) h c w
      | Some raw \<Rightarrow>
          (case coerce out raw (pb_type b) of
             None \<Rightarrow> refuse (bad_param (hn_fp out) b raw) h c w
           | Some v \<Rightarrow> Bound v h c w))"

primrec prepare_each :: "outer \<Rightarrow> chunk list option \<Rightarrow> param_bind list \<Rightarrow> hval list \<Rightarrow> heap \<Rightarrow> native_ctx \<Rightarrow> world \<Rightarrow> hval list bound" where
  "prepare_each out tbl [] args h c w = Bound args h c w"
| "prepare_each out tbl (b # bs) args h c w =
     (case prepare_arg out tbl b h c w of
        Bound v h1 c1 w1 \<Rightarrow> prepare_each out tbl bs (args @ [v]) h1 c1 w1
      | Refused h1 c1 w1 \<Rightarrow> Refused h1 c1 w1
      | Bind_crash \<Rightarrow> Bind_crash)"

definition prepare_args :: "outer \<Rightarrow> chunk list option \<Rightarrow> param_bind list \<Rightarrow> heap \<Rightarrow> native_ctx \<Rightarrow> world \<Rightarrow> hval list bound" where
  "prepare_args out tbl bs h c w = prepare_each out tbl bs [] h c (w\<lparr>wd_messages := []\<rparr>)"

section \<open>Suspensions\<close>

definition is_async_id :: "string \<Rightarrow> nat \<Rightarrow> bool" where
  "is_async_id name i \<longleftrightarrow> native_id name = Some i"

definition is_db_await :: "nat \<Rightarrow> bool" where
  "is_db_await i \<longleftrightarrow> is_async_id ''__db_query'' i \<or> is_async_id ''__db_exec'' i \<or> is_async_id ''__db_begin'' i \<or>
     is_async_id ''__db_commit'' i \<or> is_async_id ''__db_rollback'' i \<or> is_async_id ''__db_last_id'' i"

definition clamp_sleep_ms :: "int \<Rightarrow> int" where
  "clamp_sleep_ms ms = (if ms < 1 then 1 else ms)"

type_synonym resumed = "hval \<times> heap \<times> native_ctx \<times> world"

definition db_error :: "string \<Rightarrow> heap \<Rightarrow> native_ctx \<Rightarrow> world \<Rightarrow> resumed" where
  "db_error msg h c w = (let (v, h1) = put_val (error_val msg) h in (v, h1, c, w))"

text \<open>The job of a connection: an error or a value; an empty error counts as none.\<close>

definition db_job :: "outer \<Rightarrow> nat \<Rightarrow> string \<Rightarrow> nat \<Rightarrow> string \<Rightarrow> val list \<Rightarrow> world \<Rightarrow> (string + val) \<times> world" where
  "db_job out i md wk sql params w =
     (let tr = wd_db w; asked = (\<lambda>q ps. w\<lparr>wd_db := tr @ [(md, wk, q, ps)]\<rparr>)
      in case hn_open out tr md wk of
           Some e \<Rightarrow> (Inl e, w)
         | None \<Rightarrow>
             if is_async_id ''__db_query'' i then (hn_query out tr md wk sql params, asked sql params)
             else if is_async_id ''__db_exec'' i then (map_sum id VInt (hn_exec out tr md wk sql params), asked sql params)
             else if is_async_id ''__db_last_id'' i then (map_sum id VInt (hn_last out tr md wk), w)
             else
               (let stmt = (if is_async_id ''__db_begin'' i then ''BEGIN'' else if is_async_id ''__db_commit'' i then ''COMMIT'' else ''ROLLBACK'')
                in (map_sum id (\<lambda>_. VBool True) (hn_exec out tr md wk stmt []), asked stmt [])))"

text \<open>A transaction pins its connection; \<open>last_id\<close> goes to the connection of the last \<open>exec\<close>.\<close>

definition db_worker :: "outer \<Rightarrow> nat \<Rightarrow> string \<Rightarrow> native_ctx \<Rightarrow> world \<Rightarrow> nat" where
  "db_worker out i md c w =
     (case map_of (cx_pinned c) md of
        Some wk \<Rightarrow> wk
      | None \<Rightarrow>
          (case (if is_async_id ''__db_last_id'' i then map_of (cx_last_exec c) md else None) of
             Some wk \<Rightarrow> wk
           | None \<Rightarrow> hn_free out (wd_db w) md))"

definition after_job :: "nat \<Rightarrow> string \<Rightarrow> nat \<Rightarrow> native_ctx \<Rightarrow> native_ctx" where
  "after_job i md wk c =
     (if is_async_id ''__db_exec'' i then c\<lparr>cx_last_exec := al_put md wk (cx_last_exec c)\<rparr>
      else if is_async_id ''__db_begin'' i then c\<lparr>cx_pinned := al_put md wk (cx_pinned c)\<rparr>
      else if is_async_id ''__db_commit'' i \<or> is_async_id ''__db_rollback'' i then c\<lparr>cx_pinned := al_erase md (cx_pinned c)\<rparr>
      else c)"

definition run_job :: "outer \<Rightarrow> nat \<Rightarrow> string \<Rightarrow> string \<Rightarrow> val list \<Rightarrow> heap \<Rightarrow> native_ctx \<Rightarrow> world \<Rightarrow> resumed" where
  "run_job out i md sql params h c w =
     (let wk = db_worker out i md c w
      in case db_job out i md wk sql params w of
           (Inl e, w1) \<Rightarrow> if e \<noteq> [] then db_error e h c w1 else (HNull, h, after_job i md wk c, w1)
         | (Inr v, w1) \<Rightarrow> (let (x, h1) = put_val v h in (x, h1, after_job i md wk c, w1)))"

definition run_db :: "outer \<Rightarrow> nat \<Rightarrow> hval list \<Rightarrow> heap \<Rightarrow> native_ctx \<Rightarrow> world \<Rightarrow> resumed" where
  "run_db out i args h c w =
     (case args of
        HStr md # rest_args \<Rightarrow>
          if \<not> hn_active out md then
            db_error (''el modulo '' @ quoted md @ '' no esta configurado: falta su bloque en app:'') h c w
          else if is_async_id ''__db_query'' i \<or> is_async_id ''__db_exec'' i then
            (case rest_args of
               HStr sql # ps \<Rightarrow>
                 (case those (map (h_val h) ps) of
                    None \<Rightarrow> (HNull, h, c\<lparr>cx_wild := True\<rparr>, w)
                  | Some params \<Rightarrow> run_job out i md sql params h c w)
             | _ \<Rightarrow> db_error ''falta la consulta SQL'' h c w)
          else run_job out i md [] [] h c w
      | _ \<Rightarrow> db_error ''consulta mal formada'' h c w)"

text \<open>
  The answer of a suspension; \<open>None\<close> when the client has left while the handler slept.  \<open>as_int\<close> of a value
  that is no integer reads its bits.
\<close>

definition sleep_ms :: "hval list \<Rightarrow> int option" where
  "sleep_ms args = (case args of [] \<Rightarrow> Some 0 | HInt i # _ \<Rightarrow> Some (sint i) | _ \<Rightarrow> None)"

definition await_one :: "outer \<Rightarrow> bool \<Rightarrow> nat \<Rightarrow> hval list \<Rightarrow> heap \<Rightarrow> native_ctx \<Rightarrow> world \<Rightarrow> bool \<times> resumed" where
  "await_one out ws i args h c w =
     (if ws \<and> is_async_id ''__ws_recv'' i then
        (True, case hn_message out (wd_heard w) of None \<Rightarrow> HNull | Some msg \<Rightarrow> if is_close msg then HNull else HStr (data msg),
         h, c, w\<lparr>wd_heard := wd_heard w + 1\<rparr>)
      else if is_db_await i then (True, run_db out i args h c w)
      else if is_async_id ''sleep'' i then
        (case sleep_ms args of
           None \<Rightarrow> (True, HNull, h, c\<lparr>cx_wild := True\<rparr>, w)
         | Some ms \<Rightarrow>
             (let w1 = w\<lparr>wd_sleeps := wd_sleeps w @ [to_int32 (word_of_int (clamp_sleep_ms ms))]\<rparr>
              in (\<not> hn_cancelled out (wd_sleeps w1), HNull, h, c, w1)))
      else (True, HNull, h, c, w))"

text \<open>The loop around the machine: the last outcome, or the state the client left in.\<close>

datatype driven = Ended "native_ctx outcome" world | Left_alone heap native_ctx world

partial_function (option) drive :: "outer \<Rightarrow> bool \<Rightarrow> native_ctx outcome \<Rightarrow> world \<Rightarrow> driven option" where
  "drive out ws r w =
     (case r of
        Suspended i args m \<Rightarrow>
          (case await_one out ws i args (mheap m) (mctx m) w of
             (stays, v, h, c, w1) \<Rightarrow>
               if stays
               then Option.bind (resume (handler_natives (hn_host out)) v (m\<lparr>mheap := h, mctx := c\<rparr>)) (\<lambda>r1. drive out ws r1 w1)
               else Some (Left_alone h c w1))
      | _ \<Rightarrow> Some (Ended r w))"

declare drive.simps [code]

text \<open>\<open>rollback_pendientes\<close>, over the modules in the order of the map.\<close>

definition rollback_one :: "outer \<Rightarrow> native_ctx \<times> world \<Rightarrow> string \<Rightarrow> native_ctx \<times> world" where
  "rollback_one out cw md =
     (let (c, w) = cw; wk = the (map_of (cx_pinned c) md)
      in if \<not> hn_active out md then (c, w)
         else (c\<lparr>cx_log := cx_log c @ [(''warn'', ''transaccion de '' @ quoted md @ '' sin commit ni rollback: se deshace'')]\<rparr>,
               w\<lparr>wd_db := wd_db w @ [(md, wk, ''ROLLBACK'', [])]\<rparr>))"

definition rollback_pendientes :: "outer \<Rightarrow> native_ctx \<Rightarrow> world \<Rightarrow> native_ctx \<times> world" where
  "rollback_pendientes out c w =
     (let (c1, w1) = foldl (rollback_one out) (c, w) (set_order (map fst (cx_pinned c))) in (c1\<lparr>cx_pinned := []\<rparr>, w1))"

section \<open>Handlers\<close>

text \<open>The context of a request: its session and claims on the heap.\<close>

definition open_ctx :: "outer \<Rightarrow> auth_config \<Rightarrow> plantilla list \<Rightarrow> chunk list \<Rightarrow> request \<Rightarrow> string \<Rightarrow> response \<Rightarrow>
    (string \<times> hval) list \<Rightarrow> heap \<Rightarrow> heap \<times> native_ctx" where
  "open_ctx out auth tpls tbl req ip res shared h =
     (let (rq, ss, jwt) = begin_auth (hn_fp out) (hn_now out) auth req new_session;
          (d, h1) = put_dict (ss_data ss) h;
          (claims, h2) = put_val (case jwt of Jwt_claims v \<Rightarrow> v | _ \<Rightarrow> VDict dict_empty) h1
      in (h2, \<lparr>cx_req = rq, cx_ip = ip, cx_res = res, cx_written = False, cx_tpls = Some tpls, cx_fns = Some tbl,
            cx_sse = None, cx_ws = None, cx_parts = None,
            cx_session = Some \<lparr>ns_data = d, ns_dirty = False, ns_secret = session_secret auth\<rparr>,
            cx_error_code = 0, cx_error_message = [], cx_error_messages = None, cx_jwt_claims = Some claims,
            cx_jwt_ok = (case jwt of Jwt_claims v \<Rightarrow> True | _ \<Rightarrow> False),
            cx_shared = shared, cx_log = [], cx_files = [], cx_pinned = [], cx_last_exec = [],
            cx_wild = (jwt = Jwt_undefined)\<rparr>))"

text \<open>\<open>end_auth\<close>; only a session that is written back becomes text.\<close>

definition close_session :: "outer \<Rightarrow> auth_config \<Rightarrow> heap \<Rightarrow> native_ctx \<Rightarrow> native_ctx option" where
  "close_session out auth h c =
     (case cx_session c of
        None \<Rightarrow> Some c
      | Some s \<Rightarrow>
          if \<not> ns_dirty s \<or> session_secret auth = [] then Some c
          else map_option (\<lambda>d. c\<lparr>cx_res := end_auth (hn_fp out) auth
                 \<lparr>ss_data = d, ss_loaded = True, ss_dirty = True, ss_secret = ns_secret s\<rparr> (cx_res c)\<rparr>) (dict_val h (ns_data s)))"

definition place_text :: "outer \<Rightarrow> source_loc \<Rightarrow> string \<Rightarrow> string" where
  "place_text out l otherwise = (case hn_place out l of Some s \<Rightarrow> s | None \<Rightarrow> otherwise)"

definition log_failure :: "outer \<Rightarrow> string \<Rightarrow> string \<Rightarrow> source_loc \<Rightarrow> native_ctx \<Rightarrow> native_ctx" where
  "log_failure out otherwise e l c = c\<lparr>cx_log := cx_log c @ [(''error'', place_text out l otherwise @ '': '' @ e)]\<rparr>"

text \<open>How a handler ends: it came back, or a run never did.\<close>

datatype handled = Handled heap native_ctx world | Handler_crash

text \<open>The value a handler returned becomes the response, unless a built-in wrote it.\<close>

definition answer_value :: "outer \<Rightarrow> hval \<Rightarrow> heap \<Rightarrow> native_ctx \<Rightarrow> world \<Rightarrow> handled" where
  "answer_value out v h c w =
     (if cx_written c then Handled h c w
      else if v = HNull then Handled h (c\<lparr>cx_res := res_send [] (res_status 204 (cx_res c))\<rparr>) w
      else case h_json (hn_fp out) h v of
             None \<Rightarrow> Handler_crash
           | Some s \<Rightarrow> Handled h (c\<lparr>cx_res := res_send s (res_header ''Content-Type'' ''application/json; charset=utf-8'' (cx_res c))\<rparr>) w)"

definition finish_plain :: "outer \<Rightarrow> auth_config \<Rightarrow> string \<Rightarrow> driven \<Rightarrow> handled" where
  "finish_plain out auth whr d =
     (case d of
        Left_alone h c w \<Rightarrow> Handled h c w
      | Ended (Failed e l m) w \<Rightarrow>
          (let c = log_failure out whr e l (mctx m)
           in Handled (mheap m) (c\<lparr>cx_res := responder (hn_fp out) 500
                (VDict (dict_of_list [(''error'', VStr e), (''en'', VStr (place_text out l whr))])) (cx_res c)\<rparr>) w)
      | Ended (Returned v m) w \<Rightarrow>
          (let (c, w1) = rollback_pendientes out (mctx m) w
           in case close_session out auth (mheap m) c of
                None \<Rightarrow> Handler_crash
              | Some c1 \<Rightarrow> answer_value out v (mheap m) c1 w1)
      | _ \<Rightarrow> Handler_crash)"

text \<open>A route with logic.\<close>

definition handle_plain :: "outer \<Rightarrow> auth_config \<Rightarrow> chunk list \<Rightarrow> chunk \<Rightarrow> param_bind list \<Rightarrow> bool \<Rightarrow> string \<Rightarrow>
    heap \<Rightarrow> native_ctx \<Rightarrow> world \<Rightarrow> handled option" where
  "handle_plain out auth tbl code bs ups whr h c0 w =
     (let c = c0\<lparr>cx_parts := (if ups then parse_multipart (cx_req c0) else None)\<rparr>
      in case prepare_args out (Some tbl) bs h c w of
           Bind_crash \<Rightarrow> Some Handler_crash
         | Refused h1 c1 w1 \<Rightarrow> Some (Handled h1 c1 w1)
         | Bound args h1 c1 w1 \<Rightarrow>
             Option.bind (start (handler_natives (hn_host out)) code args (Some tbl) h1 c1) (\<lambda>r.
               map_option (finish_plain out auth whr) (drive out False r w1)))"

text \<open>Streams and sockets: the answer is out before the machine starts, an error is only logged.\<close>

definition finish_open :: "outer \<Rightarrow> string \<Rightarrow> driven \<Rightarrow> handled" where
  "finish_open out whr d =
     (case d of
        Left_alone h c w \<Rightarrow> Handled h c w
      | Ended (Failed e l m) w \<Rightarrow> Handled (mheap m) (log_failure out whr e l (mctx m)) w
      | Ended (Returned v m) w \<Rightarrow> Handled (mheap m) (mctx m) w
      | _ \<Rightarrow> Handler_crash)"

definition run_open :: "outer \<Rightarrow> bool \<Rightarrow> chunk list \<Rightarrow> chunk \<Rightarrow> hval list \<Rightarrow> string \<Rightarrow> heap \<Rightarrow> native_ctx \<Rightarrow> world \<Rightarrow> handled option" where
  "run_open out ws tbl code args whr h c w =
     Option.bind (start (handler_natives (hn_host out)) code args (Some tbl) h c) (\<lambda>r.
       map_option (finish_open out whr) (drive out ws r w))"

definition handle_ws :: "outer \<Rightarrow> chunk list \<Rightarrow> chunk \<Rightarrow> param_bind list \<Rightarrow> string \<Rightarrow> ws_state \<Rightarrow> heap \<Rightarrow> native_ctx \<Rightarrow> world \<Rightarrow> handled option" where
  "handle_ws out tbl code bs whr conn h c w =
     (case prepare_args out (Some tbl) bs h (c\<lparr>cx_ws := Some conn, cx_written := True\<rparr>) w of
        Bind_crash \<Rightarrow> Some Handler_crash
      | Refused h1 c1 w1 \<Rightarrow> Some (Handled h1 c1 w1)
      | Bound args h1 c1 w1 \<Rightarrow> run_open out True tbl code args whr h1 c1 w1)"

definition handle_sse :: "outer \<Rightarrow> chunk list \<Rightarrow> chunk \<Rightarrow> param_bind list \<Rightarrow> string \<Rightarrow> heap \<Rightarrow> native_ctx \<Rightarrow> world \<Rightarrow> handled option" where
  "handle_sse out tbl code bs whr h c w =
     (case prepare_args out (Some tbl) bs h c w of
        Bind_crash \<Rightarrow> Some Handler_crash
      | Refused h1 c1 w1 \<Rightarrow> Some (Handled h1 c1 w1)
      | Bound args h1 c1 w1 \<Rightarrow>
          (case hn_stream out of (raw, token, gone, answers) \<Rightarrow>
             (case make_sse (cx_res c1) raw token gone answers of
                None \<Rightarrow> Some Handler_crash
              | Some (res, writer, left) \<Rightarrow>
                  run_open out False tbl code args whr h1
                    (c1\<lparr>cx_res := res, cx_sse := Some (writer, left), cx_written := True\<rparr>) w1)))"

section \<open>Error handlers\<close>

text \<open>
  \<open>on_error\<close> of main.cpp: the handler of the code or the one of all codes (0), run without templates and without a
  session; it describes the failure but keeps its code.  A handler that is suspended is dropped.
\<close>

definition error_ctx :: "request \<Rightarrow> string \<Rightarrow> response \<Rightarrow> int \<Rightarrow> (string \<times> hval) list \<Rightarrow> world \<Rightarrow> native_ctx" where
  "error_ctx req ip res code shared w =
     \<lparr>cx_req = req, cx_ip = ip, cx_res = res, cx_written = False, cx_tpls = None, cx_fns = None,
      cx_sse = None, cx_ws = None, cx_parts = None, cx_session = None,
      cx_error_code = code, cx_error_message = (if status_code res \<ge> 500 then ''error interno'' else ''peticion no valida''),
      cx_error_messages = Some (wd_messages w), cx_jwt_claims = None, cx_jwt_ok = False,
      cx_shared = shared, cx_log = [], cx_files = [], cx_pinned = [], cx_last_exec = [], cx_wild = False\<rparr>"

definition find_error_handler :: "(int \<times> chunk) list \<Rightarrow> int \<Rightarrow> chunk option" where
  "find_error_handler hs code = (case map_of hs code of None \<Rightarrow> map_of hs 0 | Some ch \<Rightarrow> Some ch)"

definition finish_error :: "outer \<Rightarrow> int \<Rightarrow> native_ctx outcome \<Rightarrow> world \<Rightarrow> handled" where
  "finish_error out code r w =
     (case r of
        Failed e l m \<Rightarrow>
          Handled (mheap m) ((mctx m)\<lparr>cx_log := cx_log (mctx m) @ [(''error'', ''on error '' @ int_dec code @ '': '' @ e)]\<rparr>) w
      | Suspended i args m \<Rightarrow> Handled (mheap m) (mctx m) w
      | Returned v m \<Rightarrow>
          (let c = mctx m; keep = (\<lambda>c. Handled (mheap m) (c\<lparr>cx_res := res_status code (cx_res c)\<rparr>) w)
           in if cx_written c \<or> v = HNull then keep c
              else case h_json (hn_fp out) (mheap m) v of
                     None \<Rightarrow> Handler_crash
                   | Some s \<Rightarrow> keep (c\<lparr>cx_res := res_send s (res_header ''Content-Type'' ''application/json; charset=utf-8'' (cx_res c))\<rparr>))
      | _ \<Rightarrow> Handler_crash)"

definition handle_error :: "outer \<Rightarrow> (int \<times> chunk) list \<Rightarrow> chunk list \<Rightarrow> int \<Rightarrow> heap \<Rightarrow> request \<Rightarrow> string \<Rightarrow> response \<Rightarrow>
    (string \<times> hval) list \<Rightarrow> world \<Rightarrow> handled option" where
  "handle_error out hs tbl code h req ip res shared w =
     (let c = error_ctx req ip res code shared w
      in case find_error_handler hs code of
           None \<Rightarrow> Some (Handled h c w)
         | Some ch \<Rightarrow>
             map_option (\<lambda>r. finish_error out code r w) (start (handler_natives (hn_host out)) ch [] (Some tbl) h c))"

end
