(* ===== verification/HandlerRuns.thy ===== *)
theory HandlerRuns
  imports NativeRuns Handler
begin

text \<open>
  What requests can do as a whole: the contract of the built-in functions extended to the bookkeeping of
  transactions, carried through the binding of parameters, the loop around the machine and the answer.
\<close>

section \<open>Steps of a request keep what built-in functions keep\<close>

locale request_invariant = ctx_invariant +
  assumes pinned: "I c \<Longrightarrow> I (c\<lparr>cx_pinned := p\<rparr>)"
    and last_exec: "I c \<Longrightarrow> I (c\<lparr>cx_last_exec := p\<rparr>)"
    and parts: "I c \<Longrightarrow> I (c\<lparr>cx_parts := ps\<rparr>)"

fun bound_good :: "(native_ctx \<Rightarrow> bool) \<Rightarrow> 'a bound \<Rightarrow> bool" where
  "bound_good P (Bound v h c w) = P c"
| "bound_good P (Refused h c w) = P c"
| "bound_good P Bind_crash = True"

fun driven_good :: "(native_ctx \<Rightarrow> bool) \<Rightarrow> driven \<Rightarrow> bool" where
  "driven_good P (Ended r w) = ctx_good P r"
| "driven_good P (Left_alone h c w) = P c"

fun handled_good :: "(native_ctx \<Rightarrow> bool) \<Rightarrow> handled \<Rightarrow> bool" where
  "handled_good P (Handled h c w) = P c"
| "handled_good P Handler_crash = True"

text \<open>The answers of the engine are methods of the response.\<close>

lemma responder_ops: "responder F code v r = fold (res_apply fs) [Op_status code, Op_json (write_json F v)] r"
  by (simp add: responder_def)

lemma engine_ops:
  "responder_error F code msg r = fold (res_apply fs) [Op_status code, Op_json (write_json F (error_val msg))] r"
  "responder_errors F code msg ms r = fold (res_apply fs) [Op_status code, Op_json (write_json F
     (VDict (dict_of_list [(''error'', VStr msg), (''mensajes'', VList (map VStr ms))])))] r"
  by (simp_all add: responder_error_def responder_errors_def responder_def)

lemma bad_param_ops: "\<exists>v. bad_param F b raw r = fold (res_apply fs) [Op_status 400, Op_json (write_json F v)] r"
  unfolding bad_param_def by (rule exI, rule responder_ops)

lemma end_auth_ops: "\<exists>ops. end_auth F cfg s r = fold (res_apply fs) ops r"
  unfolding end_auth_def
proof (split if_split, intro conjI impI)
  show "\<exists>ops. r = fold (res_apply fs) ops r"
    by (rule exI [of _ "[]"]) simp
  have "\<exists>ops. clear_cookie n opts r = fold (res_apply fs) ops r" "\<exists>ops. Http.res_cookie n v opts r = fold (res_apply fs) ops r" for n v opts
    by (rule exI [of _ "[Op_clear_cookie n opts]"], simp, rule exI [of _ "[Op_cookie n v opts]"], simp)
  then show "\<exists>ops. (if d_v (ss_data s) = [] then clear_cookie kSessionCookie (session_options cfg) r
      else Http.res_cookie kSessionCookie (sign_session F (ss_data s) (auth_config.session_secret cfg))
        ((session_options cfg)\<lparr>co_max_age := Some (auth_config.session_max_age cfg)\<rparr>) r) = fold (res_apply fs) ops r"
    by simp
qed

context request_invariant
begin

lemma kept_ops: "I c \<Longrightarrow> f (cx_res c) = fold (res_apply fs) ops (cx_res c) \<Longrightarrow> I (c\<lparr>cx_res := f (cx_res c)\<rparr>)"
  using responses [of c fs ops] by simp

lemma kept_refuse: "I c \<Longrightarrow> f (cx_res c) = fold (res_apply fs) ops (cx_res c) \<Longrightarrow> bound_good I (refuse f h c w)"
  by (simp add: refuse_def kept_ops)

lemma kept_refusals:
  assumes "I c"
  shows "bound_good I (refuse (responder_error F code msg) h c w)" "bound_good I (refuse (responder_errors F code msg ms) h c w)"
    "bound_good I (refuse (bad_param F b raw) h c w)"
proof -
  show "bound_good I (refuse (responder_error F code msg) h c w)"
    by (rule kept_refuse [OF assms]) (rule engine_ops(1) [where fs = undefined])
  show "bound_good I (refuse (responder_errors F code msg ms) h c w)"
    by (rule kept_refuse [OF assms]) (rule engine_ops(2) [where fs = undefined])
  obtain v where "bad_param F b raw (cx_res c) = fold (res_apply undefined) [Op_status 400, Op_json (write_json F v)] (cx_res c)"
    using bad_param_ops [of F b raw "cx_res c" undefined] by blast
  with assms show "bound_good I (refuse (bad_param F b raw) h c w)"
    by (rule kept_refuse)
qed

lemma kept_rules: "run_rules out tbl ordered rules msgs h c = Some (ms, e, h1, c1) \<Longrightarrow> I c \<Longrightarrow> I c1"
proof (induction out tbl ordered rules msgs h c rule: run_rules.induct)
  case (2 out tbl ordered code msg rules msgs h c)
  obtain r where r: "start (handler_natives (hn_host out)) code ordered tbl h c = Some r"
    using "2.prems"(1) by (cases "start (handler_natives (hn_host out)) code ordered tbl h c") auto
  with handler.kept_start [OF r] 2 show ?case
    by (cases r) auto
qed simp

lemma kept_bind_body: "I c \<Longrightarrow> bound_good I (bind_body out ci tbl h c w)"
  unfolding bind_body_def Let_def
  by (auto simp: kept_refusals log dest: kept_rules split: option.split val.split if_splits)

lemma kept_prepare_arg: "I c \<Longrightarrow> bound_good I (prepare_arg out tbl b h c w)"
  unfolding prepare_arg_def bind_file_def Let_def
  by (auto simp: kept_refusals kept_bind_body split: option.split list.split)

lemma kept_prepare_each: "I c \<Longrightarrow> bound_good I (prepare_each out tbl bs args h c w)"
proof (induction bs arbitrary: args h c w)
  case (Cons b bs)
  from kept_prepare_arg [OF Cons.prems, of out tbl b h w] Cons.IH show ?case
    by (cases "prepare_arg out tbl b h c w") auto
qed simp

lemma kept_after_job: "I c \<Longrightarrow> I (after_job i md wk c)"
  by (simp add: after_job_def pinned last_exec)

lemma kept_run_job: "I c \<Longrightarrow> run_job out i md sql ps h c w = (v, h1, c1, w1) \<Longrightarrow> I c1"
  by (auto simp: run_job_def Let_def db_error_def kept_after_job split: prod.splits sum.splits if_splits)

lemma kept_run_db: "run_db out i args h c w = (v, h1, c1, w1) \<Longrightarrow> I c \<Longrightarrow> I c1"
  by (auto simp: run_db_def db_error_def kept_run_job wild split: list.splits hval.splits if_splits option.splits prod.splits)

lemma kept_await: "await_one out ws i args h c w = (b, v, h1, c1, w1) \<Longrightarrow> I c \<Longrightarrow> I c1"
  unfolding await_one_def Let_def
  by (auto simp: wild dest: kept_run_db split: if_splits option.splits)

lemmas drive_induct = drive.raw_induct [rotated 1, consumes 1, case_names step]

lemma kept_drive: "drive out ws r w = Some d \<Longrightarrow> ctx_good I r \<Longrightarrow> driven_good I d"
proof (induction rule: drive_induct)
  case (step dr out ws r w d)
  show ?case
  proof (cases r)
    case (Suspended i args m)
    obtain b v h c w1 where one: "await_one out ws i args (mheap m) (mctx m) w = (b, v, h, c, w1)"
      by (cases "await_one out ws i args (mheap m) (mctx m) w") auto
    then have c: "I c"
      using kept_await step.prems Suspended by auto
    show ?thesis
    proof (cases b)
      case True
      then obtain r1 where "resume (handler_natives (hn_host out)) v (m\<lparr>mheap := h, mctx := c\<rparr>) = Some r1" "dr out ws r1 w1 = Some d"
        using step(2) Suspended one by (auto split: bind_splits)
      with step(1) handler.kept_resume [of "hn_host out" v "m\<lparr>mheap := h, mctx := c\<rparr>" r1] c show ?thesis by simp
    next
      case False
      with step(2) Suspended one c show ?thesis by auto
    qed
  qed (use step in auto)
qed

lemma kept_rollback: "I c \<Longrightarrow> I (fst (rollback_pendientes out c w))"
proof -
  have "I (fst cw) \<Longrightarrow> I (fst (foldl (rollback_one out) cw mds))" for cw and mds :: "string list"
    by (induction mds arbitrary: cw) (auto simp: rollback_one_def Let_def log case_prod_beta)
  then show "I c \<Longrightarrow> I (fst (rollback_pendientes out c w))"
    by (auto simp: rollback_pendientes_def Let_def case_prod_beta intro!: pinned)
qed

lemma kept_close: "close_session out auth h c = Some c1 \<Longrightarrow> I c \<Longrightarrow> I c1"
proof -
  have "I (c\<lparr>cx_res := end_auth F auth s (cx_res c)\<rparr>)" if "I c" for F s
  proof -
    obtain ops where "end_auth F auth s (cx_res c) = fold (res_apply undefined) ops (cx_res c)"
      using end_auth_ops by blast
    with that show ?thesis by (rule kept_ops)
  qed
  then show "close_session out auth h c = Some c1 \<Longrightarrow> I c \<Longrightarrow> I c1"
    by (auto simp: close_session_def split: option.splits if_splits)
qed

lemma kept_json_answer:
  "I c \<Longrightarrow> I (c\<lparr>cx_res := res_send s (res_header k v (cx_res c))\<rparr>)" "I c \<Longrightarrow> I (c\<lparr>cx_res := res_send s (res_status code (cx_res c))\<rparr>)"
  "I c \<Longrightarrow> I (c\<lparr>cx_res := responder F code jv (cx_res c)\<rparr>)" "I c \<Longrightarrow> I (c\<lparr>cx_res := res_status code (cx_res c)\<rparr>)"
proof -
  assume c: "I c"
  note ops = kept_ops [OF c, where fs = undefined]
  show "I (c\<lparr>cx_res := res_send s (res_header k v (cx_res c))\<rparr>)"
    by (rule ops [where ops = "[Op_header k v, Op_send s]"]) simp
  show "I (c\<lparr>cx_res := res_send s (res_status code (cx_res c))\<rparr>)"
    by (rule ops [where ops = "[Op_status code, Op_send s]"]) simp
  show "I (c\<lparr>cx_res := responder F code jv (cx_res c)\<rparr>)"
    by (rule ops) (rule responder_ops)
  show "I (c\<lparr>cx_res := res_status code (cx_res c)\<rparr>)"
    by (rule ops [where ops = "[Op_status code]"]) simp
qed

lemma kept_answer_value: "I c \<Longrightarrow> handled_good I (answer_value out v h c w)"
  by (simp add: answer_value_def kept_json_answer split: option.split)

lemma kept_finish_plain: "driven_good I d \<Longrightarrow> handled_good I (finish_plain out auth whr d)"
proof (cases d)
  case (Ended r w)
  assume "driven_good I d"
  then have r: "ctx_good I r" using Ended by simp
  show ?thesis
  proof (cases r)
    case (Returned v m)
    then have "I (fst (rollback_pendientes out (mctx m) w))"
      using r by (simp add: kept_rollback)
    with Returned Ended show ?thesis
      by (auto simp: finish_plain_def kept_answer_value dest: kept_close split: prod.split option.split)
  next
    case (Failed e l m)
    with Ended r show ?thesis
      using kept_json_answer(3) [of "log_failure out whr e l (mctx m)"] log [of "mctx m"]
      by (simp add: finish_plain_def log_failure_def Let_def)
  qed (use Ended in \<open>auto simp: finish_plain_def\<close>)
qed (simp add: finish_plain_def)

theorem kept_handle_plain:
  "handle_plain out auth tbl code bs ups whr h c w = Some d \<Longrightarrow> I c \<Longrightarrow> handled_good I d"
proof -
  assume *: "handle_plain out auth tbl code bs ups whr h c w = Some d" and "I c"
  let ?c = "c\<lparr>cx_parts := (if ups then parse_multipart (cx_req c) else None)\<rparr>"
  have good: "bound_good I (prepare_args out (Some tbl) bs h ?c w)"
    unfolding prepare_args_def by (intro kept_prepare_each parts) fact
  show "handled_good I d"
  proof (cases "prepare_args out (Some tbl) bs h ?c w")
    case (Bound args h1 c1 w1)
    then obtain r d1 where "start (handler_natives (hn_host out)) code args (Some tbl) h1 c1 = Some r"
        "drive out False r w1 = Some d1" "d = finish_plain out auth whr d1"
      using * by (auto simp: handle_plain_def split: bind_splits)
    then show ?thesis
      using good Bound handler.kept_start kept_drive kept_finish_plain by fastforce
  qed (use * good in \<open>auto simp: handle_plain_def\<close>)
qed

lemma kept_finish_error: "ctx_good I r \<Longrightarrow> handled_good I (finish_error out code r w)"
  using kept_json_answer(4) [OF kept_json_answer(1)]
  by (cases r) (auto simp: finish_error_def Let_def log kept_json_answer split: option.split)

lemma kept_handle_error:
  "handle_error out hs tbl code h req ip res shared w = Some d \<Longrightarrow> I (error_ctx req ip res code shared w) \<Longrightarrow> handled_good I d"
  by (auto simp: handle_error_def Let_def intro!: kept_finish_error dest: handler.kept_start split: option.splits)

end

section \<open>Whole requests\<close>

interpretation clean_request: request_invariant "\<lambda>c. headers_clean (cx_res c)"
  by unfold_locales simp_all

interpretation plain_requests: request_invariant "uploads_plain fs0" for fs0
  by unfold_locales (simp_all add: uploads_plain_def)

interpretation untemplated: request_invariant "\<lambda>c. cx_tpls c = None"
  by unfold_locales simp_all

lemma open_ctx_fields:
  "open_ctx out auth tpls tbl req ip res shared h = (h1, c) \<Longrightarrow> cx_res c = res \<and> cx_files c = []"
  by (auto simp: open_ctx_def Let_def split: prod.splits)

text \<open>C5. No request can split its response: whatever arrives, whatever the route binds and runs, through errors of the
  client, of the program and of the database, the bytes built from the response are read by a client as the status
  line, the content length, the headers and the cookies, each whole on its own line, and the body behind them.\<close>

theorem requests_cannot_split_responses:
  assumes "open_ctx out auth tpls tbl req ip new_response shared h0 = (h, c)"
    and "handle_plain out auth tbl code bs ups whr h c w = Some (Handled h' c' w')"
  shows "read_head (res_build (cx_res c')) =
    (response_lines (cx_res c'), if sendfile_path (cx_res c') = [] then res_body (cx_res c') else [])"
proof -
  have "headers_clean (cx_res c)"
    using open_ctx_fields [OF assms(1)] by (simp add: headers_clean_new)
  then have "headers_clean (cx_res c')"
    using clean_request.kept_handle_plain [OF assms(2)] by simp
  from response_lines_clean [OF this] show ?thesis
    by (simp add: res_build_lines read_head_lines)
qed


section \<open>Error handlers\<close>

text \<open>C12. A handler of \<open>on error\<close> never renders a page: its context has no templates from start to end, so in whatever
  state it calls the function \<open>render\<close> compiles to, the call is the error "plantilla no compilada" - though the
  compiler compiles templates for error handlers.\<close>

theorem error_handlers_cannot_render:
  assumes "start (handler_natives ho) code [] tbl h (error_ctx req ip res status shared w) = Some r" "final_ctx r = Some c"
  shows "cx_tpls c = None \<and> native_id ''__render_tpl'' = Some 4 \<and> (\<exists>f. native_fn (handler_natives ho) 4 = Some f \<and>
    (\<forall>h1 t vars. f h1 c [t, vars] = (h1, c, HNull, ''render(): plantilla no compilada'')))"
proof (intro conjI)
  show none: "cx_tpls c = None"
    using final_ctx_good [OF untemplated.handler.kept_start [OF assms(1)] assms(2)] by (simp add: error_ctx_def)
  show "native_id ''__render_tpl'' = Some 4"
    by code_simp
  have "min_args (native_at 4) = 2"
    by code_simp
  then show "\<exists>f. native_fn (handler_natives ho) 4 = Some f \<and>
      (\<forall>h1 t vars. f h1 c [t, vars] = (h1, c, HNull, ''render(): plantilla no compilada''))"
    using none by (simp add: handler_natives_def native_fn_at_def native_bodies_def call_body_def fn_render_tpl_def fails_def)
qed

text \<open>The code of the failure is kept, whatever the handler answers.\<close>

lemma error_handler_keeps_code:
  "finish_error out code (Returned v m) w = Handled h c w1 \<Longrightarrow> status_code (cx_res c) = code"
  by (auto simp: finish_error_def Let_def res_status_def split: if_splits option.splits)

section \<open>Parameters\<close>

definition has_type :: "string \<Rightarrow> hval \<Rightarrow> bool" where
  "has_type ty v =
     (case v of
        HStr s \<Rightarrow> ty = ''string'' | HBool b \<Rightarrow> ty = ''bool'' | HInt i \<Rightarrow> ty = ''int'' \<or> ty = ''long''
      | HFloat d \<Rightarrow> ty = ''float'' \<or> ty = ''double'' | _ \<Rightarrow> False)"

definition arg_fits :: "param_bind \<Rightarrow> hval \<Rightarrow> bool" where
  "arg_fits b v =
     (case pb_kind b of
        Bind_FileList \<Rightarrow> (case v of HList a \<Rightarrow> True | _ \<Rightarrow> False)
      | Bind_File \<Rightarrow> (case v of HDict a \<Rightarrow> True | _ \<Rightarrow> False)
      | Bind_Body \<Rightarrow> (case v of HDict a \<Rightarrow> True | _ \<Rightarrow> False)
      | _ \<Rightarrow> has_type (pb_type b) v)"

lemma has_type_simps:
  "has_type ty (HStr s) \<longleftrightarrow> ty = ''string''" "has_type ty (HBool b) \<longleftrightarrow> ty = ''bool''"
  "has_type ty (HInt i) \<longleftrightarrow> ty = ''int'' \<or> ty = ''long''" "has_type ty (HFloat d) \<longleftrightarrow> ty = ''float'' \<or> ty = ''double''"
  by (simp_all add: has_type_def)

lemma choice_of_four:
  "(if A then x else if B then y else if C then z else if D then u else None) = Some v \<Longrightarrow>
     A \<and> x = Some v \<or> B \<and> y = Some v \<or> C \<and> z = Some v \<or> D \<and> u = Some v"
  by (simp split: if_split_asm)

lemma coerce_typed:
  assumes "coerce out s ty = Some v"
  shows "has_type ty v"
proof -
  note choice = choice_of_four [OF assms [unfolded coerce_def]]
  have "(if b1 then Some (HBool True) else if b2 then Some (HBool False) else None) = Some v \<Longrightarrow> has_type ''bool'' v" for b1 b2
    by (auto simp: has_type_simps split: if_split_asm)
  with choice show ?thesis
    by (elim disjE conjE) (auto simp only: has_type_simps option.inject map_option_eq_Some)
qed

lemma valor_encaja_typed:
  assumes "valor_encaja v ty = Some x"
  shows "has_type ty x"
  using choice_of_four [OF assms [unfolded valor_encaja_def]]
  by (elim disjE conjE; cases v) (simp_all only: has_type_simps val.case option.inject option.distinct, auto simp only: has_type_simps)

lemma empty_scalar_typed: "is_scalar ty \<Longrightarrow> has_type ty (empty_scalar ty)"
  by (auto simp: is_scalar_def scalar_types_def empty_scalar_def has_type_def)

lemma bind_body_dict: "bind_body out ci tbl h c w = Bound v h1 c1 w1 \<Longrightarrow> \<exists>a. v = HDict a"
  by (auto simp: bind_body_def refuse_def Let_def split: option.splits val.splits if_splits prod.splits)

text \<open>A value of the type a parameter declares: a box for a file, files and a class, else a scalar.\<close>

definition param_fits :: "(string \<times> class_info) list \<Rightarrow> param \<Rightarrow> hval \<Rightarrow> bool" where
  "param_fits cls p v =
     (let ty = pm_type p; a_dict = (case v of HDict a \<Rightarrow> True | _ \<Rightarrow> False)
      in if t_name ty = ''File'' then a_dict
         else if file_list ty then (case v of HList a \<Rightarrow> True | _ \<Rightarrow> False)
         else if map_of cls (t_name ty) \<noteq> None then a_dict
         else has_type (t_name ty) v)"

lemma prepare_arg_fits:
  assumes "bind_param r cls seen p = Inr b" "prepare_arg out tbl b h c w = Bound v h1 c1 w1"
  shows "param_fits cls p v"
proof -
  consider (upload) "pb_kind b = Bind_File" "t_name (pm_type p) = ''File''"
    | (uploads) "pb_kind b = Bind_FileList" "t_name (pm_type p) \<noteq> ''File''" "file_list (pm_type p)"
    | (body) "pb_kind b = Bind_Body" "t_name (pm_type p) \<noteq> ''File''" "\<not> file_list (pm_type p)" "map_of cls (t_name (pm_type p)) \<noteq> None"
    | (scalar) "pb_kind b = Bind_Path \<or> pb_kind b = Bind_Query" "t_name (pm_type p) \<noteq> ''File''" "\<not> file_list (pm_type p)"
        "map_of cls (t_name (pm_type p)) = None" "is_scalar (t_name (pm_type p))" "pb_type b = t_name (pm_type p)"
    using assms(1) unfolding bind_param_def Let_def by (simp split: if_split_asm option.split_asm; auto)
  then show ?thesis
  proof cases
    case upload
    then show ?thesis
      using assms(2) by (auto simp: prepare_arg_def bind_file_def param_fits_def refuse_def Let_def Cons_eq_map_conv split: option.splits list.splits)
  next
    case uploads
    then show ?thesis
      using assms(2) by (auto simp: prepare_arg_def bind_file_def param_fits_def refuse_def Let_def split: option.splits)
  next
    case body
    then show ?thesis
      using assms(2) bind_body_dict by (fastforce simp: prepare_arg_def param_fits_def Let_def split: option.splits)
  next
    case scalar
    then show ?thesis
      using assms(2) coerce_typed empty_scalar_typed
      by (auto simp: prepare_arg_def param_fits_def refuse_def Let_def split: option.splits)
  qed
qed

lemma prepare_each_fits:
  assumes "list_all2 (\<lambda>p b. \<exists>seen. bind_param r cls seen p = Inr b) ps bs" "prepare_each out tbl bs args0 h c w = Bound args h1 c1 w1"
  shows "\<exists>vs. args = args0 @ vs \<and> list_all2 (param_fits cls) ps vs"
  using assms
proof (induction ps bs arbitrary: args0 h c w rule: list_all2_induct)
  case (Cons p ps b bs)
  then obtain v h2 c2 w2 where one: "prepare_arg out tbl b h c w = Bound v h2 c2 w2"
    and rest: "prepare_each out tbl bs (args0 @ [v]) h2 c2 w2 = Bound args h1 c1 w1"
    by (auto split: bound.splits)
  from Cons.IH [OF rest] prepare_arg_fits [OF _ one] Cons.hyps show ?case
    by auto
qed simp

lemma plan_of_steps:
  assumes "run_state (fold_do (bind_step r cls) ps (out, ok)) s = ((out', True), s')"
  shows "ok \<and> (\<exists>bs. out' = out @ bs \<and> list_all2 (\<lambda>p b. \<exists>seen. bind_param r cls seen p = Inr b) ps bs)"
  using assms
proof (induction ps arbitrary: out ok s)
  case (Cons p ps)
  show ?case
  proof (cases "bind_param r cls (\<exists>b \<in> set out. pb_kind b = Bind_Body) p")
    case (Inl msg)
    then show ?thesis
      using Cons.prems Cons.IH [of out False] by (auto simp: bind_step_def [of r cls p] run_state_bind split: prod.splits)
  next
    case (Inr b)
    then have "run_state (fold_do (bind_step r cls) ps (out @ [b], ok)) s = ((out', True), s')"
      using Cons.prems by (simp add: bind_step_def [of r cls p])
    from Cons.IH [OF this] Inr show ?thesis
      by auto
  qed
qed simp

text \<open>C6. The arguments a handler starts with have the types its route declares: when the compiler accepts the parameters
  of a route, whatever request is then bound by that plan, there is one value per parameter, in order - a box for a file, a list of
  files or a class, and for the others a value of the scalar type written in the source.\<close>

theorem handler_arguments_are_typed:
  assumes "run_state (bind_params r cls) s = (Some bs, s')" and "prepare_args out tbl bs h c w = Bound args h1 c1 w1"
  shows "list_all2 (param_fits cls) (rt_params r) args"
proof -
  have "list_all2 (\<lambda>p b. \<exists>seen. bind_param r cls seen p = Inr b) (rt_params r) bs"
    using assms(1) plan_of_steps [of r cls "rt_params r" "[]"]
    by (auto simp: bind_params_def run_state_bind split: prod.splits if_splits)
  from prepare_each_fits [OF this] assms(2) show ?thesis
    by (fastforce simp: prepare_args_def)
qed

section \<open>Bodies\<close>

lemma bind_field_ok:
  assumes "bind_field body f = ([], x)"
  shows "has_type (cf_type f) x \<or> cf_optional f \<and> x = HNull"
  using assms valor_encaja_typed
  by (auto simp: bind_field_def split: option.split_asm val.split_asm if_split_asm)

lemma rules_hold:
  assumes "run_rules out tbl ordered rules msgs h c = Some ([], None, h1, c1)"
  shows "msgs = [] \<and> list_all (\<lambda>(code, msg). \<exists>h c y m. start (handler_natives (hn_host out)) code ordered tbl h c = Some (Returned y m) \<and>
      h_truthy (mheap m) y) rules"
  using assms
proof (induction out tbl ordered rules msgs h c rule: run_rules.induct)
  case (2 out tbl ordered code msg rules msgs h c)
  then obtain v m where run: "start (handler_natives (hn_host out)) code ordered tbl h c = Some (Returned v m)"
    by (auto split: option.splits outcome.splits)
  from 2 run have "h_truthy (mheap m) v"
    by (cases "h_truthy (mheap m) v") simp_all
  with 2 run show ?case by auto
qed simp

text \<open>C7. A body that reaches its handler satisfies its class: the argument is one new box whose fields, one for each the class
  declares, hold values of their declared types, or null for an optional one; and every rule of \<open>validate\<close> ran on exactly these
  values to a value that counts as true.\<close>

theorem request_body_satisfies_its_class:
  assumes "bind_body out ci tbl h c w = Bound v h1 c1 w1" and "distinct (map cf_name (ci_fields ci))"
  shows "\<exists>h2 xs. v = HDict (length h2) \<and> h1 = h2 @ [BDict (dict_of_list (zip (map cf_name (ci_fields ci)) xs))] \<and>
    list_all2 (\<lambda>f x. dict_get (dict_of_list (zip (map cf_name (ci_fields ci)) xs)) (cf_name f) = Some x \<and>
      (has_type (cf_type f) x \<or> cf_optional f \<and> x = HNull)) (ci_fields ci) xs \<and>
    list_all (\<lambda>(code, msg). \<exists>h c y m. start (handler_natives (hn_host out)) code xs tbl h c = Some (Returned y m) \<and>
      h_truthy (mheap m) y) (ci_rules ci)"
proof -
  obtain body h2 where bound: "concat (map fst (map (bind_field body) (ci_fields ci))) = []"
    and rules: "run_rules out tbl (map snd (map (bind_field body) (ci_fields ci))) (ci_rules ci) [] h c = Some ([], None, h2, c1)"
    and v: "v = HDict (length h2)"
    and h1: "h1 = h2 @ [BDict (dict_of_list (zip (map cf_name (ci_fields ci)) (map snd (map (bind_field body) (ci_fields ci)))))]"
    using assms(1) unfolding bind_body_def Let_def refuse_def
    by (auto split: option.split_asm val.split_asm if_split_asm prod.split_asm)
  let ?xs = "map snd (map (bind_field body) (ci_fields ci))"
  let ?kvs = "zip (map cf_name (ci_fields ci)) ?xs"
  have keys: "map fst ?kvs = map cf_name (ci_fields ci)"
    by simp
  have "list_all2 (\<lambda>f x. dict_get (dict_of_list ?kvs) (cf_name f) = Some x \<and> (has_type (cf_type f) x \<or> cf_optional f \<and> x = HNull))
      (ci_fields ci) ?xs"
  proof (rule list_all2_all_nthI)
    fix k assume k: "k < length (ci_fields ci)"
    let ?f = "ci_fields ci ! k"
    have "fst (bind_field body ?f) = []"
      using bound k by simp
    then have "has_type (cf_type ?f) (?xs ! k) \<or> cf_optional ?f \<and> ?xs ! k = HNull"
      using bind_field_ok [of body ?f "snd (bind_field body ?f)"] k by (simp add: prod_eq_iff)
    moreover have "?kvs ! k = (cf_name ?f, ?xs ! k)"
      using k by simp
    then have "dict_get (dict_of_list ?kvs) (cf_name ?f) = Some (?xs ! k)"
      using map_of_is_SomeI [of ?kvs "cf_name ?f" "?xs ! k"] nth_mem [of k ?kvs] k assms(2) keys
      by (simp add: dict_get_linear d_v_of_list)
    ultimately show "dict_get (dict_of_list ?kvs) (cf_name ?f) = Some (?xs ! k) \<and>
        (has_type (cf_type ?f) (?xs ! k) \<or> cf_optional ?f \<and> ?xs ! k = HNull)"
      by blast
  qed simp
  with v h1 rules_hold [OF rules] show ?thesis
    by blast
qed

section \<open>Transactions\<close>

text \<open>The statements and the warnings of the transactions that are still open.\<close>

lemma rollback_all:
  "foldl (rollback_one out) (c, w) mds =
     (c\<lparr>cx_log := cx_log c @ map (\<lambda>md. (''warn'', ''transaccion de '' @ quoted md @ '' sin commit ni rollback: se deshace''))
          (filter (hn_active out) mds)\<rparr>,
      w\<lparr>wd_db := wd_db w @ map (\<lambda>md. (md, the (map_of (cx_pinned c) md), ''ROLLBACK'', [])) (filter (hn_active out) mds)\<rparr>)"
  by (induction mds arbitrary: c w) (simp_all add: rollback_one_def Let_def)

lemma close_session_pinned: "close_session out auth h c = Some c1 \<Longrightarrow> cx_pinned c1 = cx_pinned c"
  by (auto simp: close_session_def split: option.splits if_splits)

lemma answer_value_world: "answer_value out v h c w = Handled h' c' w' \<Longrightarrow> cx_pinned c' = cx_pinned c \<and> w' = w"
  by (auto simp: answer_value_def split: if_splits option.splits)

text \<open>C9. Transactions end with handlers that return, and only with those: after a value, every module with an open transaction gets one
  \<open>ROLLBACK\<close> on the connection that began it and no connection stays pinned; after an error nothing is sent and
  every connection stays pinned, its transaction open.\<close>

theorem transactions_end_with_values_only:
  assumes "finish_plain out auth whr (Ended r w) = Handled h' c' w'"
  shows "case r of
      Returned v m \<Rightarrow> cx_pinned c' = [] \<and> wd_db w' = wd_db w @ map (\<lambda>md. (md, the (map_of (cx_pinned (mctx m)) md), ''ROLLBACK'', []))
        (filter (hn_active out) (set_order (map fst (cx_pinned (mctx m)))))
    | Failed e l m \<Rightarrow> cx_pinned c' = cx_pinned (mctx m) \<and> wd_db w' = wd_db w
    | _ \<Rightarrow> False"
  using assms
  by (cases r) (auto simp: finish_plain_def log_failure_def rollback_pendientes_def rollback_all Let_def
      dest!: answer_value_world close_session_pinned split: option.splits)

lemma pinned_after_job:
  "map_of (cx_pinned (after_job i md wk c)) md1 =
     (if \<not> is_async_id ''__db_exec'' i \<and> md1 = md \<and> is_async_id ''__db_begin'' i then Some wk
      else if \<not> is_async_id ''__db_exec'' i \<and> md1 = md \<and> (is_async_id ''__db_commit'' i \<or> is_async_id ''__db_rollback'' i) then None
      else map_of (cx_pinned c) md1)"
  by (simp add: after_job_def)

lemma db_job_trace:
  "wd_db (snd (db_job out i md wk sql ps w)) = wd_db w \<or>
     (\<exists>q qs. wd_db (snd (db_job out i md wk sql ps w)) = wd_db w @ [(md, wk, q, qs)])"
  by (auto simp: db_job_def Let_def split: option.split)

lemma run_job_trace:
  assumes "run_job out i md sql ps h c w = (v, h1, c1, w1)"
  shows "wd_db w1 = wd_db w \<or> (\<exists>q qs. wd_db w1 = wd_db w @ [(md, db_worker out i md c w, q, qs)])"
    and "c1 = c \<or> c1 = after_job i md (db_worker out i md c w) c"
proof -
  obtain e w2 where job: "db_job out i md (db_worker out i md c w) sql ps w = (e, w2)"
    by fastforce
  with assms have "w1 = w2" and c1: "c1 = c \<or> c1 = after_job i md (db_worker out i md c w) c"
    by (cases e; auto simp: run_job_def db_error_def split: prod.splits if_splits)+
  with db_job_trace [of out i md "db_worker out i md c w" sql ps w] job
  show "wd_db w1 = wd_db w \<or> (\<exists>q qs. wd_db w1 = wd_db w @ [(md, db_worker out i md c w, q, qs)])"
    by simp
  show "c1 = c \<or> c1 = after_job i md (db_worker out i md c w) c"
    by (rule c1)
qed

text \<open>C8. Inside a transaction every statement of its module goes over the connection that began it: while a module is pinned, whatever
  operation is awaited adds to the trace only statements that, when they are of that module, run on the pinned connection; and the
  module stays pinned there unless the operation is its \<open>commit\<close> or \<open>rollback\<close>.\<close>

theorem transactions_keep_their_connection:
  assumes "map_of (cx_pinned c) md = Some wk" and "run_db out i args h c w = (v, h1, c1, w1)"
  shows "(\<exists>new. wd_db w1 = wd_db w @ new \<and> (\<forall>(md1, wk1, sql, ps) \<in> set new. md1 = md \<longrightarrow> wk1 = wk)) \<and>
    (map_of (cx_pinned c1) md = Some wk \<or> map_of (cx_pinned c1) md = None \<and> hd args = HStr md \<and>
      (is_async_id ''__db_commit'' i \<or> is_async_id ''__db_rollback'' i))"
proof (intro conjI)
  consider (same) "w1 = w" "cx_pinned c1 = cx_pinned c"
    | (job) md1 rest sql ps where "args = HStr md1 # rest" "run_job out i md1 sql ps h c w = (v, h1, c1, w1)"
    using assms(2)
    by (auto simp: run_db_def db_error_def split: list.split_asm hval.split_asm if_split_asm option.split_asm prod.split_asm)
  note cases = this
  show "\<exists>new. wd_db w1 = wd_db w @ new \<and> (\<forall>(md1, wk1, sql, ps) \<in> set new. md1 = md \<longrightarrow> wk1 = wk)"
    using cases
  proof cases
    case (job md1 rest sql ps)
    then consider "wd_db w1 = wd_db w" | q qs where "wd_db w1 = wd_db w @ [(md1, db_worker out i md1 c w, q, qs)]"
      using run_job_trace(1) [OF job(2)] by auto
    then show ?thesis
      using assms(1) by cases (auto simp: db_worker_def)
  qed auto
  show "map_of (cx_pinned c1) md = Some wk \<or> map_of (cx_pinned c1) md = None \<and> hd args = HStr md \<and>
      (is_async_id ''__db_commit'' i \<or> is_async_id ''__db_rollback'' i)"
    using cases
  proof cases
    case (job md1 rest sql ps)
    then have "c1 = c \<or> c1 = after_job i md1 (db_worker out i md1 c w) c"
      using run_job_trace(2) [OF job(2)] by simp
    with job(1) show ?thesis
      using assms(1) by (cases "md1 = md") (auto simp: pinned_after_job db_worker_def split: if_splits)
  qed (use assms(1) in auto)
qed

end
