(* ===== verification/NativeExample.thy ===== *)
theory NativeExample
  imports NativeRuns "HOL-Library.Code_Target_Nat"
begin

text \<open>
  Small handlers run by evaluation, at which the theorems about the built-in functions are applied.
\<close>

definition quiet_host :: host where
  "quiet_host = \<lparr>ho_fp = \<lparr>fp_ostream = \<lambda>_. [], fp_to_chars = \<lambda>_. None, fp_from_chars = \<lambda>_. None\<rparr>,
     ho_fs = \<lparr>fs_read = \<lambda>_. None, fs_size = \<lambda>_. None, fs_canonical = \<lambda>_. None\<rparr>,
     ho_open = \<lambda>_. True, ho_write = \<lambda>_ _. True\<rparr>"

definition upload_part :: part where
  "upload_part = \<lparr>pt_name = ''f'', pt_filename = ''../up.txt'', pt_content_type = [], pt_body = ''hi'', pt_headers = []\<rparr>"

definition base_ctx :: native_ctx where
  "base_ctx = \<lparr>cx_req = \<lparr>rq_method = ''GET'', rq_path = ''/'', rq_body = [], rq_headers = [], rq_params = [], rq_query = [],
       cookies_cache = [], cookies_parsed = False\<rparr>,
     cx_ip = [], cx_res = new_response, cx_written = False, cx_tpls = None, cx_fns = None, cx_sse = None, cx_ws = None,
     cx_parts = Some [upload_part], cx_session = Some \<lparr>ns_data = dict_empty, ns_dirty = False, ns_secret = ''s''\<rparr>,
     cx_error_code = 0, cx_error_message = [], cx_error_messages = None, cx_jwt_claims = None, cx_jwt_ok = False,
     cx_shared = [], cx_log = [], cx_files = [], cx_pinned = [], cx_last_exec = [], cx_wild = False\<rparr>"

abbreviation op0 :: "opcode \<Rightarrow> nat \<Rightarrow> instr" where
  "op0 op k \<equiv> \<lparr>i_op = op, i_operand = k, i_loc = no_loc\<rparr>"

text \<open>\<open>return "x".header("X-A", "1\r\nX-B: 2")\<close>, \<open>session.k = 5\<close> and \<open>f.save("up")\<close>.\<close>

definition header_code :: chunk where
  "header_code = new_chunk\<lparr>ch_constants := [HStr ''x'', HStr ''X-A'', HStr (''1'' @ crlf @ ''X-B: 2''), HStr ''header''],
     ch_code := [op0 Op_Const 0, op0 Op_Const 1, op0 Op_Const 2, op0 Op_CallMethod (3 * 256 + 2), op0 Op_Return 0]\<rparr>"

definition session_code :: chunk where
  "session_code = new_chunk\<lparr>ch_constants := [HStr ''k'', HInt 5],
     ch_code := [op0 Op_Const 0, op0 Op_Const 1, op0 Op_CallNative (20 * 256 + 2), op0 Op_Return 0]\<rparr>"

definition save_code :: chunk where
  "save_code = new_chunk\<lparr>ch_constants := [HStr ''up'', HStr ''save''], num_locals := 1,
     ch_code := [op0 Op_LoadLocal 0, op0 Op_Const 0, op0 Op_CallMethod (1 * 256 + 1), op0 Op_Return 0]\<rparr>"

definition file_box :: "hval dict" where
  "file_box = dict_put ''filename'' (HStr ''../up.txt'') (dict_put ''__idx'' (HInt 0) dict_empty)"

lemma header_run:
  "case start (handler_natives quiet_host) header_code [] None [] base_ctx of
     Some (Returned v m) \<Rightarrow> v = HStr ''x'' \<and>
       response_lines (cx_res (mctx m)) = [''HTTP/1.1 200 OK'', ''Content-Length: 0'', ''X-A: 1X-B: 2''] | _ \<Rightarrow> False"
  by code_simp

lemma session_run:
  "case start (handler_natives quiet_host) session_code [] None [] base_ctx of
     Some (Returned v m) \<Rightarrow> v = HInt 5 \<and> map_option ns_dirty (cx_session (mctx m)) = Some True | _ \<Rightarrow> False"
  by code_simp

lemma save_run:
  "case start (handler_natives quiet_host) save_code [HDict 0] None [BDict file_box] base_ctx of
     Some (Returned v m) \<Rightarrow> v = HStr ''up.txt'' \<and> cx_files (mctx m) = [(''up/up.txt'', ''hi'')] | _ \<Rightarrow> False"
  by code_simp


end
