(* ===== verification/HandlerExample.thy ===== *)
theory HandlerExample
  imports HandlerRuns NativeExample RouteExample
begin

unbundle bit_operations_syntax

text \<open>
  Requests run by evaluation, at which the theorems about whole requests are applied, and a program whose route
  suspends though its code is marked as code that cannot.
\<close>

lemma hex_digits_code [code]:
  "hex_digits n cp s =
     (if n = 0 then Some (cp, s)
      else case s of [] \<Rightarrow> None
      | c # r \<Rightarrow> (case hex_value c of None \<Rightarrow> None | Some d \<Rightarrow> hex_digits (n - 1) (push_bit 4 cp OR of_nat d) r))"
  by (cases n; cases s) (auto split: option.split)

section \<open>What lies outside of the examples\<close>

definition quiet_outer :: outer where
  "quiet_outer = \<lparr>hn_host = quiet_host, hn_stod = \<lambda>_. None, hn_now = 0, hn_place = \<lambda>_. None, hn_active = \<lambda>md. md = ''db'',
     hn_free = \<lambda>_ _. 0, hn_open = \<lambda>_ _ _. None, hn_query = \<lambda>_ _ _ _ _. Inr VNull, hn_exec = \<lambda>_ _ _ _ _. Inr 1,
     hn_last = \<lambda>_ _ _. Inr 1, hn_cancelled = \<lambda>_. False, hn_message = \<lambda>_. None, hn_stream = (False, False, False, [])\<rparr>"

definition no_auth :: auth_config where
  "no_auth = \<lparr>auth_config.session_secret = [], auth_config.session_max_age = 0, auth_config.session_secure = False,
     auth_config.jwt_secret = [], auth_config.jwt_issuer = []\<rparr>"

definition fresh_world :: world where
  "fresh_world = \<lparr>wd_db = [], wd_sleeps = [], wd_heard = 0, wd_messages = []\<rparr>"

definition get_request :: "(string \<times> string) list \<Rightarrow> string \<Rightarrow> request" where
  "get_request query bd = \<lparr>rq_method = ''GET'', rq_path = ''/'', rq_body = bd, rq_headers = [], rq_params = [], rq_query = query,
     cookies_cache = [], cookies_parsed = False\<rparr>"

abbreviation opened :: "heap \<times> native_ctx" where
  "opened \<equiv> open_ctx quiet_outer no_auth [] [] (get_request [] []) [] new_response [] []"

section \<open>Responses\<close>

lemma header_request:
  "case handle_plain quiet_outer no_auth [] header_code [] False ''GET /'' (fst opened) (snd opened) fresh_world of
     Some (Handled h c w) \<Rightarrow> response_lines (cx_res c) =
         [''HTTP/1.1 200 OK'', ''Content-Length: 3'', ''X-A: 1X-B: 2'', ''Content-Type: application/json; charset=utf-8''] \<and>
       sendfile_path (cx_res c) = [] \<and> res_body (cx_res c) = [CHR 0x22, CHR ''x'', CHR 0x22]
   | _ \<Rightarrow> False"
  by code_simp

lemma requests_cannot_split_responses_witness:
  "\<exists>h c w. handle_plain quiet_outer no_auth [] header_code [] False ''GET /'' (fst opened) (snd opened) fresh_world = Some (Handled h c w) \<and>
     fst (read_head (res_build (cx_res c))) =
       [''HTTP/1.1 200 OK'', ''Content-Length: 3'', ''X-A: 1X-B: 2'', ''Content-Type: application/json; charset=utf-8'']"
proof -
  obtain h c w where run: "handle_plain quiet_outer no_auth [] header_code [] False ''GET /'' (fst opened) (snd opened) fresh_world = Some (Handled h c w)"
    and lines: "response_lines (cx_res c) =
       [''HTTP/1.1 200 OK'', ''Content-Length: 3'', ''X-A: 1X-B: 2'', ''Content-Type: application/json; charset=utf-8'']"
    using header_request by (auto split: option.splits handled.splits)
  from requests_cannot_split_responses [OF prod.collapse [symmetric] run] lines run show ?thesis
    by auto
qed

section \<open>Uploads\<close>

definition upload_request :: request where
  "upload_request = (get_request [] (''--b'' @ crlf @ ''Content-Disposition: form-data; name=f; filename=up.txt'' @ crlf @ crlf @ ''hi'' @ crlf @ ''--b--''))
     \<lparr>rq_method := ''POST'', rq_headers := [(''content-type'', ''multipart/form-data; boundary=b'')]\<rparr>"

abbreviation upload_opened :: "heap \<times> native_ctx" where
  "upload_opened \<equiv> open_ctx quiet_outer no_auth [] [] upload_request [] new_response [] []"

lemma upload_run:
  "case handle_plain quiet_outer no_auth [] save_code
      [\<lparr>pb_kind = Bind_File, pb_name = ''f'', pb_type = ''File'', pb_default = None, pb_class = None\<rparr>] True ''POST /''
      (fst upload_opened) (snd upload_opened) fresh_world of
     Some (Handled h c w) \<Rightarrow> cx_files c = [(''up/up.txt'', ''hi'')] | _ \<Rightarrow> False"
  by code_simp


section \<open>Error handlers\<close>

lemma error_handlers_cannot_render_witness:
  "\<exists>c. (\<exists>v m. start (handler_natives quiet_host) header_code [] None []
        (error_ctx (get_request [] []) [] new_response 404 [] fresh_world) = Some (Returned v m) \<and> c = mctx m) \<and>
     (\<exists>f. native_fn (handler_natives quiet_host) 4 = Some f \<and>
       f [] c [HInt 0, HNull] = ([], c, HNull, ''render(): plantilla no compilada''))"
proof -
  have "case start (handler_natives quiet_host) header_code [] None [] (error_ctx (get_request [] []) [] new_response 404 [] fresh_world) of
      Some (Returned v m) \<Rightarrow> True | _ \<Rightarrow> False"
    by code_simp
  then obtain v m where run: "start (handler_natives quiet_host) header_code [] None []
      (error_ctx (get_request [] []) [] new_response 404 [] fresh_world) = Some (Returned v m)"
    by (auto split: option.splits outcome.splits)
  from error_handlers_cannot_render [OF run, of "mctx m"] run show ?thesis
    by auto
qed

section \<open>Parameters and bodies\<close>

definition number_route :: route_decl where
  "number_route = \<lparr>rt_method = ''GET'', rt_pattern = ''/x'', rt_params = [int_param ''n''], rt_origins = [], rt_guards = [],
     rt_body = [], rt_loc = no_loc, pattern_loc = no_loc\<rparr>"

lemma handler_arguments_are_typed_witness: "list_all2 (param_fits []) [int_param ''n''] [HInt 5]"
proof -
  let ?bs = "[\<lparr>pb_kind = Bind_Query, pb_name = ''n'', pb_type = ''int'', pb_default = None, pb_class = None\<rparr>]"
  let ?c = "base_ctx\<lparr>cx_req := get_request [(''n'', ''5'')] []\<rparr>"
  have plan: "run_state (bind_params number_route []) (new_build [] :: unit build) = (Some ?bs, new_build [])"
    by code_simp
  have "case prepare_args quiet_outer None ?bs [] ?c fresh_world of Bound args h c w \<Rightarrow> args = [HInt 5] | _ \<Rightarrow> False"
    by code_simp
  then obtain h c w where "prepare_args quiet_outer None ?bs [] ?c fresh_world = Bound [HInt 5] h c w"
    by (auto split: bound.splits)
  from handler_arguments_are_typed [OF plan this] show ?thesis
    by (simp add: number_route_def)
qed

definition number_class :: class_info where
  "number_class = \<lparr>ci_name = ''P'', ci_fields = [\<lparr>cf_name = ''n'', cf_type = ''int'', cf_optional = False\<rparr>],
     ci_rules = [(new_chunk\<lparr>num_locals := 1, ch_code := [op0 Op_LoadLocal 0, op0 Op_Return 0]\<rparr>, ''n'')]\<rparr>"

abbreviation number_body :: val where
  "number_body \<equiv> VDict (dict_of_list [(''n'', VInt 5)])"

abbreviation number_ctx :: native_ctx where
  "number_ctx \<equiv> base_ctx\<lparr>cx_req := get_request [] (write_json (hn_fp quiet_outer) number_body)\<rparr>"

lemma number_parsed: "parse_json (hn_fp quiet_outer) (rq_body (cx_req number_ctx)) = Some number_body"
proof -
  have "utf8_valido ''n''"
    by (simp add: utf8_valido_ok)
  then have "storable (hn_fp quiet_outer) 0 number_body"
    by (simp add: d_v_of_list kMaxProfundidad_def internal_key_def)
  moreover have "rq_body (cx_req number_ctx) = write_json (hn_fp quiet_outer) number_body"
    by (simp add: get_request_def del: write_json.simps)
  ultimately show ?thesis
    by (simp only: parse_write)
qed

lemma number_rules:
  "case run_rules quiet_outer None [HInt 5] (ci_rules number_class) [] [] c of
     Some (ms, e, h, c1) \<Rightarrow> ms = [] \<and> e = None \<and> h = [] | _ \<Rightarrow> False"
  by code_simp

lemma number_bound:
  "\<exists>c w. bind_body quiet_outer number_class None [] number_ctx fresh_world = Bound (HDict 0) [BDict (dict_of_list [(''n'', HInt 5)])] c w"
proof -
  obtain c where rules: "run_rules quiet_outer None [HInt 5] (ci_rules number_class) [] [] number_ctx = Some ([], None, [], c)"
    using number_rules [of number_ctx] by (auto split: option.splits)
  have "map (bind_field (dict_of_list [(''n'', VInt 5)])) (ci_fields number_class) = [([], HInt 5)]"
    by code_simp
  with rules show ?thesis
    unfolding bind_body_def Let_def number_parsed by (simp add: number_class_def)
qed

lemma request_body_satisfies_its_class_witness:
  "\<exists>h2 xs. [BDict (dict_of_list [(''n'', HInt 5)])] = h2 @ [BDict (dict_of_list (zip (map cf_name (ci_fields number_class)) xs))] \<and>
     list_all2 (\<lambda>f x. dict_get (dict_of_list (zip (map cf_name (ci_fields number_class)) xs)) (cf_name f) = Some x \<and>
       (has_type (cf_type f) x \<or> cf_optional f \<and> x = HNull)) (ci_fields number_class) xs"
proof -
  obtain c w where run: "bind_body quiet_outer number_class None [] number_ctx fresh_world =
      Bound (HDict 0) [BDict (dict_of_list [(''n'', HInt 5)])] c w"
    using number_bound by blast
  have "distinct (map cf_name (ci_fields number_class))"
    by (simp add: number_class_def)
  from request_body_satisfies_its_class [OF run this] show ?thesis
    by blast
qed

section \<open>Transactions\<close>

text \<open>\<open>db.begin(); return 1 / 0\<close>\<close>

definition begin_code :: chunk where
  "begin_code = new_chunk\<lparr>ch_constants := [HStr ''db'', HInt 1, HInt 0],
     ch_code := [op0 Op_Const 0, op0 Op_CallAsync (the (native_id ''__db_begin'') * 256 + 1), op0 Op_Pop 0,
       op0 Op_Const 1, op0 Op_Const 2, op0 Op_Div 0, op0 Op_Return 0]\<rparr>"

lemma begin_run:
  "case start (handler_natives quiet_host) begin_code [] None [] base_ctx of
     Some r \<Rightarrow> (case drive quiet_outer False r fresh_world of
        Some (Ended (Failed e l m) w) \<Rightarrow> cx_pinned (mctx m) = [(''db'', 0)] \<and> wd_db w = [(''db'', 0, ''BEGIN'', [])]
      | _ \<Rightarrow> False)
   | None \<Rightarrow> False"
  by code_simp

lemma transactions_end_with_values_only_witness:
  "\<exists>r e l m w h c w1. start (handler_natives quiet_host) begin_code [] None [] base_ctx = Some r \<and>
     drive quiet_outer False r fresh_world = Some (Ended (Failed e l m) w) \<and>
     finish_plain quiet_outer no_auth ''GET /'' (Ended (Failed e l m) w) = Handled h c w1 \<and>
     cx_pinned c = [(''db'', 0)] \<and> wd_db w1 = [(''db'', 0, ''BEGIN'', [])]"
proof -
  obtain r e l m w where run: "start (handler_natives quiet_host) begin_code [] None [] base_ctx = Some r"
      "drive quiet_outer False r fresh_world = Some (Ended (Failed e l m) w)"
    and left: "cx_pinned (mctx m) = [(''db'', 0)]" "wd_db w = [(''db'', 0, ''BEGIN'', [])]"
    using begin_run by (auto split: option.splits driven.splits outcome.splits)
  obtain h c w1 where fin: "finish_plain quiet_outer no_auth ''GET /'' (Ended (Failed e l m) w) = Handled h c w1"
    by (simp add: finish_plain_def Let_def)
  from transactions_end_with_values_only [OF fin] run left fin show ?thesis
    by auto
qed

lemma transactions_keep_their_connection_witness:
  "\<exists>v h c w. run_db quiet_outer (the (native_id ''__db_query'')) [HStr ''db'', HStr ''SELECT 1''] []
       (base_ctx\<lparr>cx_pinned := [(''db'', 3)]\<rparr>) fresh_world = (v, h, c, w) \<and> map_of (cx_pinned c) ''db'' \<noteq> Some 0"
proof -
  obtain v h c w where run: "run_db quiet_outer (the (native_id ''__db_query'')) [HStr ''db'', HStr ''SELECT 1''] []
       (base_ctx\<lparr>cx_pinned := [(''db'', 3)]\<rparr>) fresh_world = (v, h, c, w)"
    by (metis prod_cases4)
  have "map_of (cx_pinned (base_ctx\<lparr>cx_pinned := [(''db'', 3)]\<rparr>)) ''db'' = Some 3"
    by simp
  from transactions_keep_their_connection [OF this run] run show ?thesis
    by auto
qed

section \<open>A route that suspends\<close>

definition sleepy_program :: program where
  "sleepy_program = new_program\<lparr>
     fns := [\<lparr>return_type = TypeRef ''int'' [] False no_loc, fn_name = ''pausa'', fn_params = [],
       fn_body = [simple_stmt S_Return no_loc
         (Some (prefix_op E_Await no_loc [] (Expr E_Call no_loc [] 0 0 False (Some (leaf E_Ident no_loc ''sleep'')) None None
           [([], Expr E_IntLit no_loc [] 5 0 False None None None [] [] [], no_loc)] [] []))) None], fn_loc = no_loc\<rparr>],
     Ast.routes := [\<lparr>rt_method = ''GET'', rt_pattern = ''/x'', rt_params = [], rt_origins = [], rt_guards = [],
       rt_body = [simple_stmt S_Return no_loc
         (Some (Expr E_Call no_loc [] 0 0 False (Some (leaf E_Ident no_loc ''pausa'')) None None [] [] [])) None],
       rt_loc = no_loc, pattern_loc = no_loc\<rparr>]\<rparr>"

abbreviation sleepy_module :: "unit module" where
  "sleepy_module \<equiv> module_of 4 no_decimals no_templates sleepy_program"

lemma sleepy_published:
  "publishable sleepy_module \<and> (case mo_routes sleepy_module of
      [(_, _, Vm_route code bs ups)] \<Rightarrow> \<not> has_await code \<and>
        (case start (handler_natives quiet_host) code [] (Some (bd_fns (mo_build sleepy_module))) [] base_ctx of
           Some (Suspended i args m) \<Rightarrow> is_async_id ''sleep'' i \<and> args = [HInt 5]
         | _ \<Rightarrow> False)
    | _ \<Rightarrow> False)"
  by code_simp


end
