(* ===== verification/Spec2Isabelle.thy ===== *)
theory Spec2Isabelle
  imports Router WebSocket JsonParse Multipart Sse HttpParse Session TemplateExample HandlerExample
begin

text \<open>
  A model of Odio, a small language for web servers, and of Lohin, the HTTP framework in C++ it runs
  on (include/lohin, include/odio, src/).  A request goes from the socket through the HTTP parser to
  the router, from there to a handler - a chunk of bytecode the compiler made of an .odio file, run by
  the virtual machine - and back as a response, an event stream or a WebSocket.

  \<^bold>\<open>Theories and code.\<close>

  \<^item> Prelude: byte strings, searching and splitting, fixed-width integers in text, and the
    interfaces shared by the components (a codec, an incremental parser).
  \<^item> Containers: \<open>Value::Dict\<close> (value.hpp), a vector with a hash index above a threshold, and the
    maps of the standard library as association lists; both are interpretations of one store contract.
  \<^item> Router (router.cpp, router.hpp): the trie; its abstract form is a table of patterns.
  \<^item> Crypto (crypto.cpp): SHA-256, HMAC, Base64 on 32-bit words.
  \<^item> WebSocket (websocket.hpp): SHA-1 of the handshake, frames, the incremental parser and the
    receiving side; the socket is the list of frames written, a resumed coroutine a flag.
  \<^item> Doubles, Values, JsonParse (value.hpp, value.cpp, json_parse.cpp): binary64 as bit patterns,
    values as trees, the JSON writer and parser.  The text of a \<open>double\<close> is a parameter.
  \<^item> Http (cookies.hpp, request.hpp, response.hpp), Multipart (multipart.hpp), Sse (sse.hpp): what
    handlers read and write.  The file system and the answers of a socket are parameters.
  \<^item> HttpParse (http_parser.cpp, http_parser.hpp): the callbacks, limits and pausing around llhttp,
    which is third-party: the events it reports for a buffer are a parameter.
  \<^item> Session (the session and JWT part of project.cpp): signed cookies and token checks; the clock
    is an argument.
  \<^item> Token, Lexer (token.cpp, lexer.cpp): characters to tokens with indentation.
  \<^item> Vm, VmRuns (vm.cpp, vm.hpp, bytecode.hpp): the machine with its heap of shared boxes, one
    definition per instruction; the built-in functions are a parameter.
  \<^item> Ast, Parser, ParserRuns (ast.hpp, parser.cpp): tokens to the syntax tree of a program; the state
    is the tokens left and the diagnostics.
  \<^item> NativeTable (natives.cpp): the tables of built-in functions, members of reserved objects and methods.
  \<^item> Emitter (emitter.cpp): syntax trees to chunks, in a state monad over the chunk, the locals, the
    open loops and the diagnostics.
  \<^item> Compile, Routes (project.cpp): the table of functions of a module, its classes, routes and error
    handlers; \<open>compile\<close> runs the lexer, the parser and the emitter over the files.
  \<^item> CodeTypes, Segments, EmitterKeeps, EmitterRuns, TypedRuns, CompileRuns, RouteRuns: what code is well
    formed, that emitted code is, and what that gives for its runs.  RouteExample applies it to a program.
  \<^item> Template, TemplateRuns, Render, TemplateFacts (plantilla.cpp): the compiler of HTML templates, whose
    expressions go through the lexer, the parser and the emitter, the renderer, whose expressions run on the machine,
    and what they show together.  TemplateExample compiles and renders one.
  \<^item> Natives, ContextRuns, NativeRuns (natives.cpp, natives.hpp): every built-in function and method over the
    context of a request, and what all runs of the machine and of templates keep of that context, whatever the
    bytecode.  Files written, the log and the state shared by all requests are parts of the context.
  \<^item> Handler, HandlerRuns (project.cpp, the error handlers of main.cpp): a request from its parameters to its
    response, with the answers of timers, messages and databases as parameters and the statements sent to
    databases recorded.  NativeExample and HandlerExample run handlers and requests.

  State is passed explicitly: a C++ object is a record, a method returns it updated.  A failure is
  \<open>None\<close> or a constructor of an outcome type.  Bytes are \<^typ>\<open>char\<close>, \<open>long long\<close> is \<open>64 word\<close>;
  \<open>size_t\<close> counters that only count stored bytes are naturals.

  \<^bold>\<open>What the lemmas show.\<close>  Router: registration and matching agree with the table of patterns, static
  segments win, the first name of a parameter is kept.  Crypto: streaming equals the one-shot digest,
  Base64 comes back, comparison does not depend on where strings differ.  WebSocket: messages arrive
  whole whatever the chunks, limits hold, the closing handshake.  JSON: values come back from their
  text, output is UTF-8, nesting is bounded.  HTTP: responses cannot be split, files stay in their
  root, cookies, forms and multipart bodies come back.  Parser: pipelined requests come one by one,
  limits hold.  Sessions: the signed state comes back and nothing else is accepted.  Lexer: tokens nest
  and advance, string literals come back.  Machine: specialised instructions change nothing, runs end,
  local slots of nested calls are disjoint.  Parser of the language: it ends on every text.  Compiler:
  code of a module that compiles without a diagnostic is well formed (one height of the operand stack at
  every instruction, operands in range, conditional jumps forward), so that running it is always defined,
  up to one instruction that is named, and always ends.  Templates: an accepted template renders within its
  tables, output without \<open>|safe\<close> is escaped; three combinations of tags that spoil a template.  Requests: a
  response is whole lines whatever a handler does, arguments have the types their route declares, a body satisfies
  its class, uploads stay in their folder, changed sessions are marked, transactions stay on their connection and
  end with handlers that return; what goes wrong in error handlers, failed transactions and routes that wait in a
  function.

  \<^bold>\<open>From text to runs.\<close>  Emission is a chain of \<^emph>\<open>segments\<close>: pieces of code with their heights, their
  unpatched jumps and the local slots they need (Segments).  Every operation of the emitter appends a
  segment (EmitterRuns) or leaves a flag behind (EmitterKeeps, a locale for what emission never undoes, with
  interpretations for two flags).  A closed segment is a typed chunk (CodeTypes); typed chunks with a typed
  table keep every step of the machine defined (TypedRuns).  CompileRuns and RouteRuns carry this through the
  passes of \<open>compile\<close>.

  \<^bold>\<open>From functions to requests.\<close>  Bytecode reaches the context of a request through the built-in functions only
  (ContextRuns, a locale over any such functions).  NativeRuns gives the contract for a property of contexts,
  \<open>ctx_invariant\<close>: every kind of write keeps it; HandlerRuns extends it to the bookkeeping around the
  machine, \<open>request_invariant\<close>.  A property of whole requests is an interpretation of these and a line.

  \<^bold>\<open>Bounds and fuel.\<close>  Loops over text and tokens recurse on what is left of it.  The run loop of the
  machine, its error loop and the comparison of shared boxes are partial functions whose result \<open>None\<close> is
  a run that does not end; that runs end is a theorem (with a measure of the backward jumps left and of the
  code left in each of at most 200 frames), and that the error loop may not is another.  The recursive
  functions of the parser and of the emitter take a bound on their depth.  The parser gets one from the
  number of tokens, and that it is never reached is a theorem.  The emitter gets it as an argument: with a
  default value that calls its own function the code recurses for ever, so no bound is enough for all programs;
  reaching it sets \<open>em_spent\<close>, and theorems about published modules ask that it was not reached.  The compiler
  of templates has such a bound for texts inside texts (\<open>pl_spent\<close>), which a block inside itself always reaches.

  \<^bold>\<open>Not modelled.\<close>  The API description and the formatting of diagnostics; that requests of a thread whose
  code is not marked as waiting share one machine, and that requests share boxes through the shared state (each
  request has its own machine and heap here); sockets, event loops, coroutines, threads and database clients, which are calls of the
  operating system and of libraries outside the repository; console tools, tests and fuzzing.
\<close>

end
